(* ===== verification/Prelude.thy ===== *)
theory Prelude
  imports Complex_Main "HOL-Library.AList"
begin

text \<open>
  Shared vocabulary of the development: the Python values the components exchange and the
  lemmas about them that every component proof uses.

  Python dictionaries are association lists: \<^const>\<open>AList.update\<close> overwrites a key in place
  and appends a new one, which is the insertion order a Python dict keeps, and
  \<^const>\<open>AList.delete\<close> removes a key. Texts are \<^typ>\<open>string\<close>s; a code point outside ASCII is
  read in the Windows-1252 code page (0x85 is the ellipsis, 0x97 the em dash), so that
  \<open>length\<close> counts code points as Python does. Prices and clock readings are rationals: the
  rounding of Python's binary floats is not modelled.
\<close>

named_theorems dict_simps \<open>rules about dictionary operations\<close>
named_theorems channel_simps \<open>rules that compute the effect of a node on a graph channel\<close>

subsection \<open>Dictionaries\<close>

type_synonym ('k, 'v) dict = "('k \<times> 'v) list"

abbreviation dget :: "('k, 'v) dict \<Rightarrow> 'k \<Rightarrow> 'v option" where
  "dget d k \<equiv> map_of d k"

abbreviation dset :: "'k \<Rightarrow> 'v \<Rightarrow> ('k, 'v) dict \<Rightarrow> ('k, 'v) dict" where
  "dset \<equiv> AList.update"

abbreviation dkeys :: "('k, 'v) dict \<Rightarrow> 'k list" where
  "dkeys d \<equiv> map fst d"

text \<open>\<open>d.get(k, default)\<close>.\<close>

definition dget_default :: "('k, 'v) dict \<Rightarrow> 'k \<Rightarrow> 'v \<Rightarrow> 'v" where
  "dget_default d k v = (case dget d k of None \<Rightarrow> v | Some x \<Rightarrow> x)"

text \<open>\<open>d.setdefault(k, v)\<close>.\<close>

definition setdefault :: "'k \<Rightarrow> 'v \<Rightarrow> ('k, 'v) dict \<Rightarrow> ('k, 'v) dict" where
  "setdefault k v d = (case dget d k of None \<Rightarrow> dset k v d | Some _ \<Rightarrow> d)"

text \<open>\<open>operator.or_\<close>: every key of the right dictionary overwrites.\<close>

definition dict_or :: "('k, 'v) dict \<Rightarrow> ('k, 'v) dict \<Rightarrow> ('k, 'v) dict" where
  "dict_or l r = fold (\<lambda>(k, v). dset k v) r l"

lemma dget_dset [dict_simps]: "dget (dset k v d) k' = (if k' = k then Some v else dget d k')"
  by (simp add: update_conv')

lemma dget_default_dset [dict_simps]:
  "dget_default (dset k v d) k' w = (if k' = k then v else dget_default d k' w)"
  by (simp add: dget_default_def dget_dset)

lemma dget_setdefault [dict_simps]:
  "dget (setdefault k v d) k' =
     (if k' = k \<and> dget d k = None then Some v else dget d k')"
  by (auto simp: setdefault_def dget_dset split: option.splits)

lemma dget_dict_or [dict_simps]:
  assumes "distinct (dkeys r)"
  shows "dget (dict_or l r) k = (case dget r k of None \<Rightarrow> dget l k | Some v \<Rightarrow> Some v)"
  using assms unfolding dict_or_def
proof (induction r arbitrary: l)
  case Nil
  then show ?case by simp
next
  case (Cons p r)
  then show ?case
    by (cases p) (force simp: dget_dset split: option.splits dest: map_of_SomeD)
qed

lemma dkeys_dset: "dkeys (dset k v d) = (if k \<in> set (dkeys d) then dkeys d else dkeys d @ [k])"
  by (induction d) auto

lemma distinct_dset [dict_simps]: "distinct (dkeys (dset k v d)) = distinct (dkeys d)"
  by (auto simp: dkeys_dset)

lemma length_dset: "length (dset k v d) = (if k \<in> set (dkeys d) then length d else Suc (length d))"
  using dkeys_dset [of k v d] by (metis length_append_singleton length_map)

lemma dget_None_iff [dict_simps]: "dget d k = None \<longleftrightarrow> k \<notin> set (dkeys d)"
  by (simp add: map_of_eq_None_iff)

lemma dkeys_delete: "dkeys (AList.delete k d) = filter (\<lambda>x. x \<noteq> k) (dkeys d)"
  by (induction d) auto

lemma distinct_delete_keys [dict_simps]:
  "distinct (dkeys d) \<Longrightarrow> distinct (dkeys (AList.delete k d))"
  by (simp add: dkeys_delete)

text \<open>
  \<open>OrderedDict.move_to_end\<close>: the entry goes last; a key that is absent raises \<open>KeyError\<close>,
  which no caller in the program can reach, so the dictionary is returned as it is.
\<close>

definition move_to_end :: "'k \<Rightarrow> ('k, 'v) dict \<Rightarrow> ('k, 'v) dict" where
  "move_to_end k d =
     (case dget d k of None \<Rightarrow> d | Some v \<Rightarrow> AList.delete k d @ [(k, v)])"

lemma dget_delete_other [dict_simps]:
  "dget (AList.delete k d) k' = (if k' = k then None else dget d k')"
  by (simp add: delete_conv')

lemma dget_move_to_end [dict_simps]: "dget (move_to_end k d) k' = dget d k'"
  by (auto simp: move_to_end_def map_add_def dget_delete_other split: option.splits)

lemma dkeys_move_to_end:
  assumes "k \<in> set (dkeys d)"
  shows "dkeys (move_to_end k d) = filter (\<lambda>x. x \<noteq> k) (dkeys d) @ [k]"
proof -
  from assms have "dget d k \<noteq> None" by (simp only: dget_None_iff not_not)
  then obtain v where "dget d k = Some v" by blast
  then have "move_to_end k d = AList.delete k d @ [(k, v)]" by (simp add: move_to_end_def)
  then show ?thesis by (simp only: map_append dkeys_delete) simp
qed

lemma set_dkeys_move_to_end [dict_simps]: "set (dkeys (move_to_end k d)) = set (dkeys d)"
proof (cases "k \<in> set (dkeys d)")
  case True
  have "set (dkeys (move_to_end k d)) = set (filter (\<lambda>x. x \<noteq> k) (dkeys d) @ [k])"
    by (simp only: dkeys_move_to_end [OF True])
  also have "\<dots> = set (dkeys d)"
    using True by auto
  finally show ?thesis .
next
  case False
  then have "dget d k = None" by (simp add: dget_None_iff)
  then show ?thesis by (simp add: move_to_end_def)
qed

lemma distinct_move_to_end [dict_simps]:
  assumes "distinct (dkeys d)"
  shows "distinct (dkeys (move_to_end k d))"
proof (cases "k \<in> set (dkeys d)")
  case True
  with assms show ?thesis by (simp add: dkeys_move_to_end del: map_append)
next
  case False
  then have "dget d k = None" by (simp add: dget_None_iff)
  with assms show ?thesis by (simp add: move_to_end_def)
qed

lemma length_filter_remove1:
  "distinct xs \<Longrightarrow> x \<in> set xs \<Longrightarrow> Suc (length (filter (\<lambda>y. y \<noteq> x) xs)) = length xs"
proof (induction xs)
  case Nil
  then show ?case by simp
next
  case (Cons y xs)
  have "x \<notin> set xs \<Longrightarrow> filter (\<lambda>y. y \<noteq> x) xs = xs"
    by (auto simp: filter_id_conv)
  with Cons show ?case by auto
qed

lemma length_move_to_end:
  assumes "distinct (dkeys d)"
  shows "length (move_to_end k d) = length d"
proof (cases "k \<in> set (dkeys d)")
  case True
  have "length (dkeys (move_to_end k d)) = length (dkeys d)"
    unfolding dkeys_move_to_end [OF True]
    using length_filter_remove1 [OF assms True] by simp
  then show ?thesis by simp
next
  case False
  then have "dget d k = None" by (simp add: dget_None_iff)
  then show ?thesis by (simp add: move_to_end_def)
qed

subsection \<open>Truthiness and optional values\<close>

text \<open>\<open>x or y\<close> for a value that may be \<open>None\<close>.\<close>

definition or_else :: "'a option \<Rightarrow> 'a \<Rightarrow> 'a" where
  "or_else x y = (case x of None \<Rightarrow> y | Some v \<Rightarrow> v)"

lemma or_else_simps [simp]: "or_else None y = y" "or_else (Some v) y = v"
  by (simp_all add: or_else_def)

text \<open>\<open>x or y\<close> for a text that may be \<open>None\<close>: the empty text is falsy too.\<close>

definition str_or :: "string option \<Rightarrow> string \<Rightarrow> string" where
  "str_or x y = (case x of None \<Rightarrow> y | Some v \<Rightarrow> if v = [] then y else v)"

lemma str_or_simps [simp]:
  "str_or None y = y" "str_or (Some []) y = y" "str_or (Some (c # cs)) y = c # cs"
  by (simp_all add: str_or_def)

subsection \<open>Text operations of Python's \<open>str\<close>\<close>

definition py_space :: "char \<Rightarrow> bool" where
  "py_space c \<longleftrightarrow> (let n = of_char c :: nat in n = 32 \<or> (9 \<le> n \<and> n \<le> 13) \<or> (28 \<le> n \<and> n \<le> 31))"

definition lstrip :: "string \<Rightarrow> string" where
  "lstrip s = dropWhile py_space s"

definition rstrip :: "string \<Rightarrow> string" where
  "rstrip s = rev (dropWhile py_space (rev s))"

definition strip :: "string \<Rightarrow> string" where
  "strip s = rstrip (lstrip s)"

definition is_upper :: "char \<Rightarrow> bool" where
  "is_upper c \<longleftrightarrow> (let n = of_char c :: nat in 65 \<le> n \<and> n \<le> 90)"

definition is_lower :: "char \<Rightarrow> bool" where
  "is_lower c \<longleftrightarrow> (let n = of_char c :: nat in 97 \<le> n \<and> n \<le> 122)"

definition is_digit :: "char \<Rightarrow> bool" where
  "is_digit c \<longleftrightarrow> (let n = of_char c :: nat in 48 \<le> n \<and> n \<le> 57)"

definition lower_char :: "char \<Rightarrow> char" where
  "lower_char c = (if is_upper c then char_of (of_char c + 32 :: nat) else c)"

definition lower :: "string \<Rightarrow> string" where
  "lower s = map lower_char s"

definition upper_char :: "char \<Rightarrow> char" where
  "upper_char c = (if is_lower c then char_of (of_char c - 32 :: nat) else c)"

definition upper :: "string \<Rightarrow> string" where
  "upper s = map upper_char s"

definition starts_with :: "string \<Rightarrow> string \<Rightarrow> bool" where
  "starts_with s p \<longleftrightarrow> take (length p) s = p"

text \<open>\<open>s.find(t)\<close>: the first index at which \<open>t\<close> occurs, \<open>None\<close> for Python's -1.\<close>

fun find_sub :: "string \<Rightarrow> string \<Rightarrow> nat option" where
  "find_sub t [] = (if t = [] then Some 0 else None)"
| "find_sub t (c # s) =
     (if starts_with (c # s) t then Some 0 else map_option Suc (find_sub t s))"

text \<open>\<open>sep.join(parts)\<close>.\<close>

fun join :: "'a list \<Rightarrow> 'a list list \<Rightarrow> 'a list" where
  "join sep [] = []"
| "join sep [x] = x"
| "join sep (x # y # ys) = x @ sep @ join sep (y # ys)"

text \<open>\<open>s.split(c)\<close> for a one-character separator: never empty.\<close>

fun split_on :: "char \<Rightarrow> string \<Rightarrow> string list" where
  "split_on d [] = [[]]"
| "split_on d (c # s) =
     (if c = d then [] # split_on d s
      else (case split_on d s of [] \<Rightarrow> [[c]] | w # ws \<Rightarrow> (c # w) # ws))"

lemma starts_with_iff: "starts_with s p \<longleftrightarrow> (\<exists>r. s = p @ r)"
  by (metis append_eq_conv_conj append_take_drop_id starts_with_def)

lemma length_lower [simp]: "length (lower s) = length s"
  by (simp add: lower_def)

lemma lower_append: "lower (s @ t) = lower s @ lower t"
  by (simp add: lower_def)

lemma find_sub_Some:
  "find_sub t s = Some i \<Longrightarrow> i + length t \<le> length s \<and> take (length t) (drop i s) = t"
proof (induction s arbitrary: i)
  case Nil
  then show ?case by (auto split: if_splits)
next
  case (Cons c s)
  show ?case
  proof (cases "starts_with (c # s) t")
    case True
    then obtain r where "c # s = t @ r" by (auto simp: starts_with_iff)
    then have "length t \<le> Suc (length s)"
      by (metis le_add1 length_Cons length_append)
    with Cons.prems True show ?thesis by (auto simp: starts_with_def)
  next
    case False
    with Cons show ?thesis by auto
  qed
qed

lemma find_sub_split:
  assumes "find_sub t s = Some i"
  shows "s = take i s @ t @ drop (i + length t) s"
  using find_sub_Some [OF assms] by (metis append_take_drop_id add.commute drop_drop)

lemma find_sub_None: "find_sub t s = None \<longleftrightarrow> \<not> (\<exists>p q. s = p @ t @ q)"
proof (induction s)
  case Nil
  then show ?case by auto
next
  case (Cons c s)
  have "(\<exists>p q. c # s = p @ t @ q) \<longleftrightarrow> starts_with (c # s) t \<or> (\<exists>p q. s = p @ t @ q)"
    unfolding starts_with_iff by (metis append_Cons append_Nil list.exhaust list.inject)
  with Cons show ?case by (auto split: option.splits)
qed

lemma find_sub_first:
  "find_sub t s = Some i \<Longrightarrow> j < i \<Longrightarrow> \<not> starts_with (drop j s) t"
proof (induction s arbitrary: i j)
  case Nil
  then show ?case by (auto split: if_splits)
next
  case (Cons c s)
  then show ?case by (cases j) (auto split: if_splits)
qed

lemma split_on_ne [simp]: "split_on d s \<noteq> []"
  by (induction s) (auto split: list.splits)

lemma join_split_on: "join [d] (split_on d s) = s"
proof (induction s)
  case Nil
  then show ?case by simp
next
  case (Cons c s)
  obtain w ws where "split_on d s = w # ws" by (cases "split_on d s") auto
  with Cons show ?case by (cases ws) auto
qed

lemma set_strip: "set (strip s) \<subseteq> set s"
  by (auto simp: strip_def rstrip_def lstrip_def dest!: set_dropWhileD)

subsection \<open>Lists\<close>

lemma take_drop_chunks: "take n xs @ take m (drop n xs) = take (n + m) xs"
  by (simp add: take_add)

lemma sum_list_nonneg_rat: "(\<And>x. x \<in> set xs \<Longrightarrow> 0 \<le> (f x :: rat)) \<Longrightarrow> 0 \<le> sum_list (map f xs)"
  by (induction xs) auto

lemma length_filter_split:
  "length (filter P xs) + length (filter (\<lambda>x. \<not> P x) xs) = length xs"
  by (induction xs) auto

end
