(* ===== verification/PyRegex.thy ===== *)
theory PyRegex
  imports Prelude
begin

text \<open>
  The fragment of Python's \<open>re\<close> module the program uses: a backtracking matcher over an
  abstract syntax of patterns. A position in the text is a pair of the character before it
  (for word boundaries and lookbehind) and the text after it; \<open>ends r pos\<close> lists the positions
  at which a match of \<open>r\<close> started at \<open>pos\<close> can end, in the order in which Python's engine
  tries them, so its head is the match that \<open>re.match\<close> reports. \<open>rsearch\<close> is \<open>re.search\<close> read
  as a truth value and \<open>rsub\<close> is \<open>re.sub\<close>, with Python's rule for empty matches (one is
  allowed after a non-empty match, and after an empty one the next match must advance).
\<close>

subsection \<open>Patterns\<close>

datatype re =
    Eps
  | Chr "char \<Rightarrow> bool"
  | Seq re re
  | Alt re re
  | Star re
  | LazyStar re
  | WordB
  | EndOfText
  | Ahead re
  | Behind "char \<Rightarrow> bool"

type_synonym rpos = "char option \<times> string"

definition word_char :: "char \<Rightarrow> bool" where
  "word_char c \<longleftrightarrow> is_upper c \<or> is_lower c \<or> is_digit c \<or> c = CHR ''_''"

definition at_word_boundary :: "rpos \<Rightarrow> bool" where
  "at_word_boundary pos =
     ((case fst pos of None \<Rightarrow> False | Some c \<Rightarrow> word_char c)
      \<noteq> (case snd pos of [] \<Rightarrow> False | c # _ \<Rightarrow> word_char c))"

function (sequential) ends :: "re \<Rightarrow> rpos \<Rightarrow> rpos list" where
  "ends Eps pos = [pos]"
| "ends (Chr P) pos =
     (case snd pos of [] \<Rightarrow> [] | c # cs \<Rightarrow> if P c then [(Some c, cs)] else [])"
| "ends (Seq r1 r2) pos = concat (map (ends r2) (ends r1 pos))"
| "ends (Alt r1 r2) pos = ends r1 pos @ ends r2 pos"
| "ends (Star r) pos =
     concat (map (\<lambda>pos'. if length (snd pos') < length (snd pos)
                         then ends (Star r) pos' else []) (ends r pos)) @ [pos]"
| "ends (LazyStar r) pos =
     pos # concat (map (\<lambda>pos'. if length (snd pos') < length (snd pos)
                               then ends (LazyStar r) pos' else []) (ends r pos))"
| "ends WordB pos = (if at_word_boundary pos then [pos] else [])"
| "ends EndOfText pos = (if snd pos = [] then [pos] else [])"
| "ends (Ahead r) pos = (if ends r pos = [] then [] else [pos])"
| "ends (Behind P) pos =
     (case fst pos of None \<Rightarrow> [] | Some c \<Rightarrow> if P c then [pos] else [])"
  by pat_completeness auto
termination
  by (relation "measures [\<lambda>(r, pos). size r, \<lambda>(r, pos). length (snd pos)]") auto

text \<open>The equations of the two iterations would unfold for ever as rewrite rules.\<close>

declare ends.simps(5,6) [simp del]

text \<open>Derived patterns: \<open>r+\<close>, \<open>r?\<close>, \<open>r{n,}\<close>, a literal, and a literal under \<open>IGNORECASE\<close>.\<close>

definition Plus :: "re \<Rightarrow> re" where
  "Plus r = Seq r (Star r)"

definition Opt :: "re \<Rightarrow> re" where
  "Opt r = Alt r Eps"

fun seqs :: "re list \<Rightarrow> re" where
  "seqs [] = Eps"
| "seqs [r] = r"
| "seqs (r # r' # rs) = Seq r (seqs (r' # rs))"

fun alts :: "re list \<Rightarrow> re" where
  "alts [] = Chr (\<lambda>_. False)"
| "alts [r] = r"
| "alts (r # r' # rs) = Alt r (alts (r' # rs))"

definition at_least :: "nat \<Rightarrow> re \<Rightarrow> re" where
  "at_least n r = seqs (replicate n r @ [Star r])"

definition lit :: "string \<Rightarrow> re" where
  "lit s = seqs (map (\<lambda>c. Chr (\<lambda>x. x = c)) s)"

definition lit_ci :: "string \<Rightarrow> re" where
  "lit_ci s = seqs (map (\<lambda>c. Chr (\<lambda>x. lower_char x = lower_char c)) s)"

definition one_of :: "string \<Rightarrow> re" where
  "one_of cs = Chr (\<lambda>x. x \<in> set cs)"

definition spaces1 :: re where
  "spaces1 = Plus (Chr py_space)"

subsection \<open>Searching and substituting\<close>

fun search_from :: "re \<Rightarrow> char option \<Rightarrow> string \<Rightarrow> bool" where
  "search_from r p [] = (ends r (p, []) \<noteq> [])"
| "search_from r p (c # cs) = (ends r (p, c # cs) \<noteq> [] \<or> search_from r (Some c) cs)"

definition rsearch :: "re \<Rightarrow> string \<Rightarrow> bool" where
  "rsearch r s = search_from r None s"

function rsub_from :: "re \<Rightarrow> (string \<Rightarrow> string) \<Rightarrow> bool \<Rightarrow> char option \<Rightarrow> string \<Rightarrow> string" where
  "rsub_from r f adv p s =
     (case filter (\<lambda>e. \<not> adv \<or> length (snd e) < length s) (ends r (p, s)) of
        e # _ \<Rightarrow>
          f (take (length s - length (snd e)) s) @
          (if length (snd e) < length s then rsub_from r f False (fst e) (snd e)
           else if adv then [] else rsub_from r f True p s)
      | [] \<Rightarrow> (case s of [] \<Rightarrow> [] | c # cs \<Rightarrow> c # rsub_from r f False (Some c) cs))"
  by pat_completeness auto
termination
  by (relation "measures [\<lambda>(r, f, adv, p, s). length s, \<lambda>(r, f, adv, p, s). if adv then 0 else 1]")
    auto

declare rsub_from.simps [simp del]

definition rsub :: "re \<Rightarrow> (string \<Rightarrow> string) \<Rightarrow> string \<Rightarrow> string" where
  "rsub r f s = rsub_from r f False None s"

subsection \<open>What a match is\<close>

text \<open>Every end of a match is reached by consuming a prefix of the text.\<close>

definition consumes :: "rpos \<Rightarrow> rpos \<Rightarrow> bool" where
  "consumes pos pos' \<longleftrightarrow>
     (\<exists>u. snd pos = u @ snd pos' \<and> fst pos' = (if u = [] then fst pos else Some (last u)))"

lemma consumes_refl [simp]: "consumes pos pos"
  by (auto simp: consumes_def)

lemma consumes_trans:
  assumes "consumes a b" and "consumes b c"
  shows "consumes a c"
proof -
  from assms obtain u v where
    "snd a = u @ snd b" "fst b = (if u = [] then fst a else Some (last u))"
    "snd b = v @ snd c" "fst c = (if v = [] then fst b else Some (last v))"
    by (auto simp: consumes_def)
  then show ?thesis
    unfolding consumes_def by (intro exI [of _ "u @ v"]) auto
qed

lemma ends_consume: "pos' \<in> set (ends r pos) \<Longrightarrow> consumes pos pos'"
proof (induction r pos arbitrary: pos' rule: ends.induct)
  case (1 pos)
  then show ?case by simp
next
  case (2 P pos)
  then obtain c cs where "snd pos = c # cs" "pos' = (Some c, cs)"
    by (cases "snd pos") (auto split: if_splits)
  then show ?case unfolding consumes_def by (intro exI [of _ "[c]"]) simp
next
  case (3 r1 r2 pos)
  then obtain q where "q \<in> set (ends r1 pos)" "pos' \<in> set (ends r2 q)" by auto
  with "3.IH" show ?case by (blast intro: consumes_trans)
next
  case (5 r pos)
  from "5.prems" have "pos' = pos \<or> (\<exists>q \<in> set (ends r pos).
      length (snd q) < length (snd pos) \<and> pos' \<in> set (ends (Star r) q))"
    unfolding ends.simps(5) [of r pos] by (auto split: if_splits)
  with "5.IH" show ?case by (blast intro: consumes_trans consumes_refl)
next
  case (6 r pos)
  from "6.prems" have "pos' = pos \<or> (\<exists>q \<in> set (ends r pos).
      length (snd q) < length (snd pos) \<and> pos' \<in> set (ends (LazyStar r) q))"
    unfolding ends.simps(6) [of r pos] by (auto split: if_splits)
  with "6.IH" show ?case by (blast intro: consumes_trans consumes_refl)
next
  case (4 r1 r2 pos)
  then have "pos' \<in> set (ends r1 pos) \<or> pos' \<in> set (ends r2 pos)" by simp
  with "4.IH" show ?case by blast
next
  case (7 pos)
  then show ?case by (simp split: if_splits)
next
  case (8 pos)
  then show ?case by (simp split: if_splits)
next
  case (9 r pos)
  then show ?case by (simp split: if_splits)
next
  case (10 P pos)
  then have "pos' = pos" by (cases "fst pos") (simp_all split: if_splits)
  then show ?case by simp
qed

lemma ends_length: "pos' \<in> set (ends r pos) \<Longrightarrow> length (snd pos') \<le> length (snd pos)"
  by (drule ends_consume) (auto simp: consumes_def)

lemma search_from_iff:
  "search_from r p s \<longleftrightarrow> (\<exists>u v. s = u @ v \<and> ends r (if u = [] then p else Some (last u), v) \<noteq> [])"
proof (induction s arbitrary: p)
  case Nil
  then show ?case by simp
next
  case (Cons c s)
  show ?case (is "?L \<longleftrightarrow> ?R")
  proof
    assume ?L
    then consider (here) "ends r (p, c # s) \<noteq> []" | (later) "search_from r (Some c) s" by auto
    then show ?R
    proof cases
      case here
      then show ?thesis by (intro exI [of _ "[]"] exI [of _ "c # s"]) simp
    next
      case later
      then obtain u v where "s = u @ v" "ends r (if u = [] then Some c else Some (last u), v) \<noteq> []"
        using Cons by blast
      then show ?thesis by (intro exI [of _ "c # u"] exI [of _ v]) (auto split: if_splits)
    qed
  next
    assume ?R
    then obtain u v where uv: "c # s = u @ v"
        "ends r (if u = [] then p else Some (last u), v) \<noteq> []" by blast
    show ?L
    proof (cases u)
      case Nil
      with uv have "ends r (p, c # s) \<noteq> []" by simp
      then show ?thesis by simp
    next
      case (Cons d u')
      with uv have "s = u' @ v" "ends r (if u' = [] then Some c else Some (last u'), v) \<noteq> []"
        by (auto split: if_splits)
      then have "search_from r (Some c) s" using Cons.IH by blast
      then show ?thesis by simp
    qed
  qed
qed

lemma rsub_no_match:
  assumes "\<not> search_from r p s"
  shows "rsub_from r f adv p s = s"
  using assms
proof (induction s arbitrary: p adv)
  case Nil
  then show ?case by (subst rsub_from.simps) simp
next
  case (Cons c s)
  then have "ends r (p, c # s) = []" and "\<not> search_from r (Some c) s" by auto
  with Cons.IH show ?case by (subst rsub_from.simps) simp
qed

lemma rsub_id: "\<not> rsearch r s \<Longrightarrow> rsub r f s = s"
  by (simp add: rsub_def rsearch_def rsub_no_match)

end
