(* ===== verification/Permissions.thy ===== *)
theory Permissions
  imports PyRegex
begin

text \<open>
  The permission engine (\<open>core/permissions.py\<close>) and the role table it reads
  (\<open>shared/rbac.py\<close>): the three enumerations, the decision matrix, the classification of
  untrusted tools, the Read-Before-Write guard and the risk interceptor. The module's
  mutable catalogue of curated tiers is an argument of the functions that read it.
  The locale \<open>permission_engine\<close> states what the gateway and the tool dispatcher rely on.
\<close>

subsection \<open>The enumerations\<close>

datatype permission_mode =
  PERM_PLAN_ONLY | PERM_ROUTING_ONLY | EDIT_EXECUTE_RBW | PERM_READ_ONLY

datatype session_mode =
    FULL_AUTO | STANDARD | CAUTIOUS | ASK_EXECUTE | ASK_ALL | MODE_READ_ONLY | PLAN_ONLY
  | DEFAULT | PLAN | AUTO

datatype tier = READ_ONLY | WRITE | EXECUTE | DANGEROUS

datatype decision = ALLOW | HITL | DENY

definition session_modes :: "session_mode list" where
  "session_modes = [FULL_AUTO, STANDARD, CAUTIOUS, ASK_EXECUTE, ASK_ALL, MODE_READ_ONLY,
                    PLAN_ONLY, DEFAULT, PLAN, AUTO]"

fun mode_value :: "session_mode \<Rightarrow> string" where
  "mode_value FULL_AUTO = ''full_auto''"
| "mode_value STANDARD = ''standard''"
| "mode_value CAUTIOUS = ''cautious''"
| "mode_value ASK_EXECUTE = ''ask_execute''"
| "mode_value ASK_ALL = ''ask_all''"
| "mode_value MODE_READ_ONLY = ''read_only''"
| "mode_value PLAN_ONLY = ''plan_only''"
| "mode_value DEFAULT = ''default''"
| "mode_value PLAN = ''plan''"
| "mode_value AUTO = ''auto''"

fun tier_value :: "tier \<Rightarrow> string" where
  "tier_value READ_ONLY = ''read_only''"
| "tier_value WRITE = ''write''"
| "tier_value EXECUTE = ''execute''"
| "tier_value DANGEROUS = ''dangerous''"

text \<open>The tiers are ordered by severity, the decisions by how much they restrict.\<close>

fun TIER_SEVERITY :: "tier \<Rightarrow> nat" where
  "TIER_SEVERITY READ_ONLY = 0"
| "TIER_SEVERITY WRITE = 1"
| "TIER_SEVERITY EXECUTE = 2"
| "TIER_SEVERITY DANGEROUS = 3"

lemma TIER_SEVERITY_inj: "TIER_SEVERITY t = TIER_SEVERITY t' \<Longrightarrow> t = t'"
  by (cases t; cases t') simp_all

instantiation tier :: linorder
begin

definition less_eq_tier :: "tier \<Rightarrow> tier \<Rightarrow> bool" where
  "less_eq_tier t t' \<longleftrightarrow> TIER_SEVERITY t \<le> TIER_SEVERITY t'"

definition less_tier :: "tier \<Rightarrow> tier \<Rightarrow> bool" where
  "less_tier t t' \<longleftrightarrow> TIER_SEVERITY t < TIER_SEVERITY t'"

instance
  by standard (auto simp: less_eq_tier_def less_tier_def dest: TIER_SEVERITY_inj)

end

fun decision_rank :: "decision \<Rightarrow> nat" where
  "decision_rank ALLOW = 0"
| "decision_rank HITL = 1"
| "decision_rank DENY = 2"

lemma decision_rank_inj: "decision_rank d = decision_rank d' \<Longrightarrow> d = d'"
  by (cases d; cases d') simp_all

instantiation decision :: linorder
begin

definition less_eq_decision :: "decision \<Rightarrow> decision \<Rightarrow> bool" where
  "less_eq_decision d d' \<longleftrightarrow> decision_rank d \<le> decision_rank d'"

definition less_decision :: "decision \<Rightarrow> decision \<Rightarrow> bool" where
  "less_decision d d' \<longleftrightarrow> decision_rank d < decision_rank d'"

instance
  by standard (auto simp: less_eq_decision_def less_decision_def dest: decision_rank_inj)

end

lemma tier_le_simps [simp]:
  "READ_ONLY \<le> t" "t \<le> DANGEROUS" "t \<le> READ_ONLY \<longleftrightarrow> t = READ_ONLY" "DANGEROUS \<le> t \<longleftrightarrow> t = DANGEROUS"
  by (cases t; simp add: less_eq_tier_def)+

lemma decision_le_simps [simp]:
  "ALLOW \<le> d" "d \<le> DENY" "d \<le> ALLOW \<longleftrightarrow> d = ALLOW" "DENY \<le> d \<longleftrightarrow> d = DENY"
  by (cases d; simp add: less_eq_decision_def)+

subsection \<open>Roles\<close>

definition DEV_ROLES :: "string list" where
  "DEV_ROLES = [''core_dev'', ''architect_refactor'', ''devops_infra'', ''secops'',
                ''qa_tester'', ''doc_manager'', ''vcs_manager'', ''data_ml_engineer'']"

definition CRITIC_ROLE :: string where
  "CRITIC_ROLE = ''analyst_readonly''"

definition DISPATCH_ROLE_PERMISSIONS :: "(string, permission_mode) dict" where
  "DISPATCH_ROLE_PERMISSIONS =
     map (\<lambda>role. (role, EDIT_EXECUTE_RBW)) DEV_ROLES @ [(CRITIC_ROLE, PERM_READ_ONLY)]"

definition resolve_dispatch_permission :: "string \<Rightarrow> permission_mode" where
  "resolve_dispatch_permission role = dget_default DISPATCH_ROLE_PERMISSIONS role PERM_READ_ONLY"

text \<open>The error carries the roles missing on either side.\<close>

definition assert_role_registry_parity :: "string list \<Rightarrow> (string list \<times> string list) + unit" where
  "assert_role_registry_parity registry =
     (if set registry \<noteq> set DEV_ROLES
      then Inl (filter (\<lambda>r. r \<notin> set registry) DEV_ROLES, filter (\<lambda>r. r \<notin> set DEV_ROLES) registry)
      else Inr ())"

subsection \<open>Session modes on the wire\<close>

definition LEGACY_MODE_MIGRATION :: "(session_mode, session_mode) dict" where
  "LEGACY_MODE_MIGRATION = [(DEFAULT, CAUTIOUS), (AUTO, STANDARD), (PLAN, PLAN_ONLY)]"

definition normalize_session_mode :: "session_mode \<Rightarrow> session_mode" where
  "normalize_session_mode m = dget_default LEGACY_MODE_MIGRATION m m"

definition FRONTEND_MODE_TO_SESSION :: "(string, session_mode) dict" where
  "FRONTEND_MODE_TO_SESSION =
     [(''automatic'', STANDARD), (''ask_before_edits'', CAUTIOUS), (''plan_mode'', PLAN_ONLY)]"

definition session_mode_from_frontend :: "string option \<Rightarrow> session_mode option" where
  "session_mode_from_frontend mode =
     dget FRONTEND_MODE_TO_SESSION (lower (strip (str_or mode [])))"

definition session_mode_of_value :: "string \<Rightarrow> session_mode option" where
  "session_mode_of_value v = find (\<lambda>m. mode_value m = v) session_modes"

definition session_mode_from_channel :: "string option \<Rightarrow> session_mode" where
  "session_mode_from_channel raw =
     or_else (session_mode_of_value (lower (str_or raw ''DEFAULT''))) DEFAULT"

subsection \<open>The decision matrix\<close>

fun DECISION_MATRIX :: "session_mode \<Rightarrow> tier \<Rightarrow> decision option" where
  "DECISION_MATRIX FULL_AUTO _ = Some ALLOW"
| "DECISION_MATRIX STANDARD DANGEROUS = Some HITL"
| "DECISION_MATRIX STANDARD _ = Some ALLOW"
| "DECISION_MATRIX CAUTIOUS READ_ONLY = Some ALLOW"
| "DECISION_MATRIX CAUTIOUS _ = Some HITL"
| "DECISION_MATRIX ASK_EXECUTE READ_ONLY = Some ALLOW"
| "DECISION_MATRIX ASK_EXECUTE DANGEROUS = Some DENY"
| "DECISION_MATRIX ASK_EXECUTE _ = Some HITL"
| "DECISION_MATRIX ASK_ALL _ = Some HITL"
| "DECISION_MATRIX MODE_READ_ONLY READ_ONLY = Some ALLOW"
| "DECISION_MATRIX MODE_READ_ONLY _ = Some DENY"
| "DECISION_MATRIX PLAN_ONLY READ_ONLY = Some ALLOW"
| "DECISION_MATRIX PLAN_ONLY _ = Some DENY"
| "DECISION_MATRIX _ _ = None"

text \<open>
  The lookup of a mode without a row would raise \<open>KeyError\<close>; \<open>evaluate_action_row\<close> shows that
  the normalised mode always has one, so the decision is total.
\<close>

definition evaluate_action :: "session_mode \<Rightarrow> tier \<Rightarrow> permission_mode \<Rightarrow> decision" where
  "evaluate_action session_mode tool_tier agent_permission =
     (let mode = normalize_session_mode session_mode in
      if tool_tier \<noteq> READ_ONLY \<and> agent_permission \<noteq> EDIT_EXECUTE_RBW then DENY
      else the (DECISION_MATRIX mode tool_tier))"

definition gate_execute_action :: "session_mode \<Rightarrow> decision" where
  "gate_execute_action session_mode = evaluate_action session_mode EXECUTE EDIT_EXECUTE_RBW"

subsection \<open>Classification of untrusted tools\<close>

fun VERB_SETS :: "tier \<Rightarrow> string list" where
  "VERB_SETS READ_ONLY = [''get'', ''list'', ''read'', ''search'', ''fetch'', ''describe'']"
| "VERB_SETS WRITE = [''create'', ''update'', ''write'', ''push'', ''add'', ''set'']"
| "VERB_SETS EXECUTE = [''exec'', ''execute'', ''run'', ''invoke'', ''spawn'']"
| "VERB_SETS DANGEROUS = [''delete'', ''drop'', ''force'', ''merge'', ''reset'', ''purge'']"

definition register_privilege_overrides ::
  "(string, tier) dict \<Rightarrow> (string, tier) dict \<Rightarrow> (string, tier) dict" where
  "register_privilege_overrides catalog overrides =
     dict_or catalog (map (\<lambda>(key, tier). (lower key, tier)) overrides)"

definition TOKEN_SPLIT :: re where
  "TOKEN_SPLIT =
     Alt (Seq (Behind is_lower) (Ahead (Chr is_upper)))
     (Alt (Seq (Behind is_upper) (Ahead (Seq (Chr is_upper) (Chr is_lower))))
      (Plus (Chr (\<lambda>c. c = CHR ''-'' \<or> c = CHR ''_'' \<or> c = CHR ''.'' \<or> py_space c))))"

definition tokenize :: "string \<Rightarrow> string list" where
  "tokenize text =
     filter (\<lambda>tok. tok \<noteq> []) (split_on (CHR ''_'') (lower (rsub TOKEN_SPLIT (\<lambda>_. ''_'') text)))"

definition meets :: "string list \<Rightarrow> string list \<Rightarrow> bool" where
  "meets tokens verbs \<longleftrightarrow> list_ex (\<lambda>tok. tok \<in> set verbs) tokens"

definition matched_tiers :: "string list \<Rightarrow> string list \<Rightarrow> tier list" where
  "matched_tiers name_tokens desc_tokens =
     filter (\<lambda>t. meets name_tokens (VERB_SETS t) \<or> meets desc_tokens (VERB_SETS t))
       [READ_ONLY, WRITE, EXECUTE, DANGEROUS]"

fun first_hit :: "(string, tier) dict \<Rightarrow> string list \<Rightarrow> tier option" where
  "first_hit catalog [] = None"
| "first_hit catalog (key # keys) =
     (case dget catalog key of Some t \<Rightarrow> Some t | None \<Rightarrow> first_hit catalog keys)"

definition catalog_keys :: "string \<Rightarrow> string option \<Rightarrow> string list" where
  "catalog_keys tool_name server_name =
     (let lname = lower tool_name in
      (case server_name of None \<Rightarrow> []
       | Some s \<Rightarrow> if s = [] then [] else [lower s @ ''.'' @ lname]) @ [lname])"

definition classify_tool_privilege ::
  "(string, tier) dict \<Rightarrow> string \<Rightarrow> string \<Rightarrow> string option \<Rightarrow> tier" where
  "classify_tool_privilege catalog tool_name description server_name =
     (case first_hit catalog (catalog_keys tool_name server_name) of
        Some t \<Rightarrow> t
      | None \<Rightarrow>
          (case matched_tiers (tokenize tool_name) (tokenize description) of
             [] \<Rightarrow> DANGEROUS
           | t # ts \<Rightarrow> fold max ts t))"

subsection \<open>Read-Before-Write and the risk interceptor\<close>

record permission_denied =
  pd_tool_name :: string
  pd_target_path :: string
  pd_reason :: string

definition rbwe_guard ::
  "string \<Rightarrow> tier \<Rightarrow> string option \<Rightarrow> string list \<Rightarrow> permission_denied + unit" where
  "rbwe_guard tool_name tool_tier target_path read_files =
     (if tool_tier \<notin> {WRITE, EXECUTE, DANGEROUS} then Inr ()
      else (case target_path of
              None \<Rightarrow> Inr ()
            | Some p \<Rightarrow>
                if p \<in> set read_files then Inr ()
                else Inl \<lparr>pd_tool_name = tool_name, pd_target_path = p,
                          pd_reason = ''RBWE violation: target was never read via FileReadTool. ''
                                      @ ''Call FileReadTool first, then retry.''\<rparr>))"

definition RISK_PATTERNS :: "(string, re) dict" where
  "RISK_PATTERNS =
    [(''privilege_escalation'',
      alts [seqs [WordB, lit_ci ''sudo'', WordB],
            seqs [WordB, lit_ci ''su'', spaces1, lit ''-'', WordB],
            seqs [WordB, lit_ci ''su'', spaces1, lit_ci ''root'', WordB],
            seqs [WordB, lit_ci ''doas'', WordB]]),
     (''mass_deletion'',
      alts [seqs [WordB, lit_ci ''rm'', spaces1, Star (Chr (\<lambda>c. c \<noteq> CHR 0x0A)), lit ''-'',
                  Star (Chr (\<lambda>c. \<not> py_space c)), one_of ''rfRF'', WordB],
            seqs [lit_ci ''rmdir'', spaces1, lit_ci ''/s'', WordB],
            seqs [lit_ci ''del'', spaces1, lit ''/'', one_of ''sqfSQF'', WordB]]),
     (''network_egress'',
      seqs [WordB, alts (map lit_ci [''curl'', ''wget'', ''nc'', ''netcat'', ''socat'']),
            Chr py_space]),
     (''secret_access'',
      alts [seqs [lit_ci ''.env'', WordB],
            seqs [lit_ci ''api'', Opt (one_of ''_-''), lit_ci ''key'', WordB],
            seqs [lit_ci ''secret'', Opt (one_of ''_-''), lit_ci ''key'', WordB],
            seqs [lit_ci ''aws_secret'', WordB],
            seqs [lit_ci ''private'', Opt (one_of ''_-''), lit_ci ''key'', WordB]]),
     (''package_install'',
      seqs [WordB, alts (map lit_ci [''npm'', ''pip'', ''pip3'', ''apt'', ''apt-get'', ''brew'',
                                     ''cargo'', ''gem'']),
            spaces1, lit_ci ''install'', WordB])]"

definition scan_risk_patterns :: "string option \<Rightarrow> string list" where
  "scan_risk_patterns content =
     (case content of
        None \<Rightarrow> []
      | Some c \<Rightarrow>
          if c = [] then []
          else map fst (filter (\<lambda>(label, pattern). rsearch pattern c) RISK_PATTERNS))"

definition risk_intercept_guard ::
  "string option \<Rightarrow> decision \<Rightarrow> session_mode \<Rightarrow> decision \<times> string list" where
  "risk_intercept_guard proposed_content decision session_mode =
     (if decision \<noteq> ALLOW \<or> session_mode \<notin> {FULL_AUTO, STANDARD} \<or> str_or proposed_content [] = []
      then (decision, [])
      else (let matched = scan_risk_patterns proposed_content in
            if matched \<noteq> [] then (HITL, matched) else (decision, [])))"

subsection \<open>What the engine guarantees to its clients\<close>

locale permission_engine =
  fixes decide :: "session_mode \<Rightarrow> tier \<Rightarrow> permission_mode \<Rightarrow> decision"
  assumes identity_floor:
      "t \<noteq> READ_ONLY \<Longrightarrow> p \<noteq> EDIT_EXECUTE_RBW \<Longrightarrow> decide m t p = DENY"
    and legacy_faithful: "decide (normalize_session_mode m) t p = decide m t p"
    and tier_monotone: "t \<le> t' \<Longrightarrow> decide m t p \<le> decide m t' p"
    and planning_is_readonly:
      "normalize_session_mode m \<in> {MODE_READ_ONLY, PLAN_ONLY} \<Longrightarrow> t \<noteq> READ_ONLY \<Longrightarrow>
       decide m t p = DENY"
begin

lemma mutation_needs_identity:
  "decide m t p \<noteq> DENY \<Longrightarrow> t \<noteq> READ_ONLY \<Longrightarrow> p = EDIT_EXECUTE_RBW"
  using identity_floor by blast

lemma mutation_needs_mode:
  "decide m t p \<noteq> DENY \<Longrightarrow> t \<noteq> READ_ONLY \<Longrightarrow>
   normalize_session_mode m \<notin> {MODE_READ_ONLY, PLAN_ONLY}"
  using planning_is_readonly by blast

lemma allowed_below: "decide m t' p = ALLOW \<Longrightarrow> t \<le> t' \<Longrightarrow> decide m t p = ALLOW"
  using tier_monotone [of t t' m p] by simp

lemma denied_above: "decide m t p = DENY \<Longrightarrow> t \<le> t' \<Longrightarrow> decide m t' p = DENY"
  using tier_monotone [of t t' m p] by simp

end

text \<open>The matrix row of a normalised mode exists, so \<open>the\<close> above reads a value.\<close>

lemma evaluate_action_row: "DECISION_MATRIX (normalize_session_mode m) t \<noteq> None"
  by (cases m; cases t) (simp_all add: normalize_session_mode_def LEGACY_MODE_MIGRATION_def dget_default_def)

lemma normalize_simps [simp]:
  "normalize_session_mode FULL_AUTO = FULL_AUTO" "normalize_session_mode STANDARD = STANDARD"
  "normalize_session_mode CAUTIOUS = CAUTIOUS" "normalize_session_mode ASK_EXECUTE = ASK_EXECUTE"
  "normalize_session_mode ASK_ALL = ASK_ALL"
  "normalize_session_mode MODE_READ_ONLY = MODE_READ_ONLY"
  "normalize_session_mode PLAN_ONLY = PLAN_ONLY" "normalize_session_mode DEFAULT = CAUTIOUS"
  "normalize_session_mode PLAN = PLAN_ONLY" "normalize_session_mode AUTO = STANDARD"
  by (simp_all add: normalize_session_mode_def LEGACY_MODE_MIGRATION_def dget_default_def)

interpretation engine: permission_engine evaluate_action
proof
  show "t \<noteq> READ_ONLY \<Longrightarrow> p \<noteq> EDIT_EXECUTE_RBW \<Longrightarrow> evaluate_action m t p = DENY" for m t p
    by (simp add: evaluate_action_def)
  show "evaluate_action (normalize_session_mode m) t p = evaluate_action m t p" for m t p
    by (cases m) (simp_all add: evaluate_action_def)
  show "t \<le> t' \<Longrightarrow> evaluate_action m t p \<le> evaluate_action m t' p" for m t t' p
    by (cases m; cases t; cases t')
      (simp_all add: evaluate_action_def less_eq_tier_def less_eq_decision_def)
  show "normalize_session_mode m \<in> {MODE_READ_ONLY, PLAN_ONLY} \<Longrightarrow> t \<noteq> READ_ONLY \<Longrightarrow>
      evaluate_action m t p = DENY" for m t p
    by (cases m; cases t) (simp_all add: evaluate_action_def)
qed

subsection \<open>Lemmas on classification and on the risk interceptor\<close>

lemma fold_max_tiers: "fold max ts t = Max (set (t # ts))" for t :: tier
  by (rule Max.set_eq_fold [symmetric])

lemma classify_uncatalogued:
  assumes "first_hit catalog (catalog_keys name server) = None"
  shows "classify_tool_privilege catalog name desc server =
     (if matched_tiers (tokenize name) (tokenize desc) = [] then DANGEROUS
      else Max (set (matched_tiers (tokenize name) (tokenize desc))))"
  using assms
  by (cases "matched_tiers (tokenize name) (tokenize desc)")
    (simp_all add: classify_tool_privilege_def fold_max_tiers del: list.set)

lemma set_matched_tiers:
  "set (matched_tiers ns ds) = {t. meets ns (VERB_SETS t) \<or> meets ds (VERB_SETS t)}"
proof (rule set_eqI)
  fix t
  have "t \<in> set [READ_ONLY, WRITE, EXECUTE, DANGEROUS]" by (cases t) simp_all
  then show "t \<in> set (matched_tiers ns ds)
      \<longleftrightarrow> t \<in> {t. meets ns (VERB_SETS t) \<or> meets ds (VERB_SETS t)}"
    unfolding matched_tiers_def set_filter by blast
qed

lemma finite_tiers [simp]: "finite (T :: tier set)"
proof (rule finite_subset)
  show "T \<subseteq> set [READ_ONLY, WRITE, EXECUTE, DANGEROUS]"
  proof
    fix t :: tier
    show "t \<in> set [READ_ONLY, WRITE, EXECUTE, DANGEROUS]" by (cases t) simp_all
  qed
qed simp

lemma scan_risk_patterns_Some:
  "c \<noteq> [] \<Longrightarrow> set (scan_risk_patterns (Some c)) = {l. \<exists>r. (l, r) \<in> set RISK_PATTERNS \<and> rsearch r c}"
  by (force simp: scan_risk_patterns_def)

subsection \<open>Properties\<close>

lemma evaluate_action_cases:
  "evaluate_action m t p =
     (if t \<noteq> READ_ONLY \<and> p \<noteq> EDIT_EXECUTE_RBW then DENY
      else the (DECISION_MATRIX (normalize_session_mode m) t))"
  by (simp add: evaluate_action_def Let_def)

text \<open>
  The complete decision table of the permission engine. An action is refused exactly
  when it mutates and the agent lacks the editing identity, or the session (after migrating
  a legacy alias) plans or only reads, or the action is dangerous under the ask-execute
  policy; it waits for the operator exactly when it is not refused and the session asks for
  its tier. Everything else runs, so no row of the matrix is missing.
\<close>

theorem permission_decision_exact:
  "(evaluate_action m t p = DENY \<longleftrightarrow>
      t \<noteq> READ_ONLY \<and>
      (p \<noteq> EDIT_EXECUTE_RBW \<or> normalize_session_mode m \<in> {MODE_READ_ONLY, PLAN_ONLY}
       \<or> normalize_session_mode m = ASK_EXECUTE \<and> t = DANGEROUS))
   \<and> (evaluate_action m t p = HITL \<longleftrightarrow>
      (t = READ_ONLY \<or> p = EDIT_EXECUTE_RBW) \<and>
      (normalize_session_mode m = ASK_ALL
       \<or> normalize_session_mode m = CAUTIOUS \<and> t \<noteq> READ_ONLY
       \<or> normalize_session_mode m = ASK_EXECUTE \<and> t \<in> {WRITE, EXECUTE}
       \<or> normalize_session_mode m = STANDARD \<and> t = DANGEROUS))"
  unfolding evaluate_action_cases by (cases m; cases t) simp_all

theorem permission_decision_exact_witness:
  "evaluate_action AUTO DANGEROUS EDIT_EXECUTE_RBW = HITL
   \<and> evaluate_action ASK_EXECUTE DANGEROUS EDIT_EXECUTE_RBW = DENY"
  using permission_decision_exact [of AUTO DANGEROUS EDIT_EXECUTE_RBW]
    permission_decision_exact [of ASK_EXECUTE DANGEROUS EDIT_EXECUTE_RBW] by simp

text \<open>
  A dispatched role reaches a mutating tool only if it is one of the eight developer
  roles: the critic and every unknown role are held to reading in all ten session modes.
\<close>

theorem dispatch_role_floor:
  assumes "t \<noteq> READ_ONLY"
    and "evaluate_action m t (resolve_dispatch_permission role) \<noteq> DENY"
  shows "role \<in> set DEV_ROLES \<and> role \<noteq> CRITIC_ROLE"
proof -
  have "resolve_dispatch_permission role = EDIT_EXECUTE_RBW"
    by (rule engine.mutation_needs_identity [OF assms(2,1)])
  then show ?thesis
    by (auto simp: resolve_dispatch_permission_def DISPATCH_ROLE_PERMISSIONS_def dget_default_def
        map_add_def map_of_map_restrict restrict_map_def CRITIC_ROLE_def DEV_ROLES_def
        split: option.splits if_splits)
qed

theorem dispatch_role_floor_witness:
  "''core_dev'' \<in> set DEV_ROLES \<and> ''core_dev'' \<noteq> CRITIC_ROLE"
  by (rule dispatch_role_floor [of EXECUTE STANDARD "''core_dev''"]; code_simp)

text \<open>
  Classification of a tool that no curated entry names. The tier is at least that of
  every verb of the name, and at least that of every verb of the description; with no verb
  in either it is the most restricted one; and it is always justified by a verb, so a
  description cannot lower what the name implies.
\<close>

theorem classify_fail_closed:
  assumes "first_hit catalog (catalog_keys name server) = None"
  shows "(meets (tokenize name @ tokenize desc) (VERB_SETS t) \<longrightarrow>
            t \<le> classify_tool_privilege catalog name desc server)
    \<and> (meets (tokenize name @ tokenize desc)
          (VERB_SETS (classify_tool_privilege catalog name desc server))
       \<or> classify_tool_privilege catalog name desc server = DANGEROUS
         \<and> (\<forall>t. \<not> meets (tokenize name @ tokenize desc) (VERB_SETS t)))"
proof -
  let ?M = "matched_tiers (tokenize name) (tokenize desc)"
  have M: "set ?M = {t. meets (tokenize name @ tokenize desc) (VERB_SETS t)}"
    by (simp add: set_matched_tiers meets_def)
  show ?thesis
  proof (cases "?M = []")
    case True
    with M have "\<not> meets (tokenize name @ tokenize desc) (VERB_SETS t)" for t by auto
    with True show ?thesis by (simp add: classify_uncatalogued [OF assms(1)])
  next
    case False
    then have "Max (set ?M) \<in> set ?M" by (intro Max_in) auto
    with False M show ?thesis
      by (simp add: classify_uncatalogued [OF assms(1)])
  qed
qed

theorem classify_fail_closed_witness:
  "DANGEROUS \<le> classify_tool_privilege [] ''deletePage'' ''get it'' (Some ''Srv'')"
proof -
  have "first_hit [] (catalog_keys ''deletePage'' (Some ''Srv'')) = (None :: tier option)"
    by code_simp
  moreover have "meets (tokenize ''deletePage'' @ tokenize ''get it'') (VERB_SETS DANGEROUS)"
    by code_simp
  ultimately show ?thesis
    using classify_fail_closed [where catalog = "[]" and name = "''deletePage''"
      and server = "Some ''Srv''" and desc = "''get it''" and t = DANGEROUS] by blast
qed

text \<open>
  What a description can do, although the classifier's documentation says that it only
  raises the tier: a name that no verb recognises is dangerous on its own and becomes
  read-only as soon as an untrusted description contains a reading verb.
\<close>

theorem description_lowers_unknown_name:
  "classify_tool_privilege [] ''nuke_all'' [] None = DANGEROUS
   \<and> classify_tool_privilege [] ''nuke_all'' ''read the docs'' None = READ_ONLY"
  by code_simp

text \<open>
  The risk interceptor only tightens: it changes a decision exactly when an allowed
  action of a permissive session carries content that some risk pattern matches, it then
  hands the action to the operator, and the labels it reports are the labels of the
  patterns that match, none otherwise.
\<close>

theorem risk_intercept_exact:
  "d \<le> fst (risk_intercept_guard content d m)
   \<and> (snd (risk_intercept_guard content d m) \<noteq> [] \<longleftrightarrow>
        d = ALLOW \<and> m \<in> {FULL_AUTO, STANDARD}
        \<and> (\<exists>c label r. content = Some c \<and> c \<noteq> [] \<and> (label, r) \<in> set RISK_PATTERNS \<and> rsearch r c))
   \<and> (fst (risk_intercept_guard content d m) \<noteq> d \<longleftrightarrow>
        snd (risk_intercept_guard content d m) \<noteq> [])
   \<and> (fst (risk_intercept_guard content d m) \<in> {d, HITL})"
proof (cases content)
  case None
  then show ?thesis by (simp add: risk_intercept_guard_def)
next
  case (Some c)
  show ?thesis
  proof (cases "c = []")
    case True
    with Some show ?thesis by (simp add: risk_intercept_guard_def)
  next
    case False
    have "scan_risk_patterns (Some c) \<noteq> [] \<longleftrightarrow> set (scan_risk_patterns (Some c)) \<noteq> {}" by simp
    then have "scan_risk_patterns (Some c) \<noteq> []
        \<longleftrightarrow> (\<exists>label r. (label, r) \<in> set RISK_PATTERNS \<and> rsearch r c)"
      unfolding scan_risk_patterns_Some [OF False] by blast
    with False Some show ?thesis
      by (cases c) (auto simp: risk_intercept_guard_def Let_def)
  qed
qed

text \<open>
  The interceptor compares the session mode without migrating the deprecated alias, so
  a checkpoint still holding \<open>auto\<close> is decided as \<open>standard\<close> by the matrix and yet skips the
  scan that \<open>standard\<close> undergoes.
\<close>

theorem legacy_auto_skips_interceptor:
  "evaluate_action AUTO EXECUTE EDIT_EXECUTE_RBW = ALLOW
   \<and> normalize_session_mode AUTO = STANDARD
   \<and> fst (risk_intercept_guard (Some ''sudo ls'') ALLOW STANDARD) = HITL
   \<and> (\<forall>content d. risk_intercept_guard content d AUTO = (d, []))"
proof -
  have "fst (risk_intercept_guard (Some ''sudo ls'') ALLOW STANDARD) = HITL" by code_simp
  moreover have "evaluate_action AUTO EXECUTE EDIT_EXECUTE_RBW = ALLOW"
    by (simp add: evaluate_action_cases)
  ultimately show ?thesis by (simp add: risk_intercept_guard_def)
qed

text \<open>
  The session-mode channel round-trips: each of the ten modes is read back from its wire
  value whatever its case, and a value that is none of them (or is missing) is read as the
  legacy default, under which every mutation still asks the operator.
\<close>

theorem session_mode_channel_total:
  "(mode_value m = lower w \<longrightarrow> session_mode_from_channel (Some w) = m)
   \<and> ((\<forall>m. mode_value m \<noteq> lower (str_or raw ''DEFAULT'')) \<longrightarrow>
        session_mode_from_channel raw = DEFAULT)
   \<and> (t \<noteq> READ_ONLY \<longrightarrow>
        evaluate_action (session_mode_from_channel None) t EDIT_EXECUTE_RBW = HITL)"
proof (intro conjI impI)
  assume w: "mode_value m = lower w"
  then have "w \<noteq> []" by (cases m) (auto simp: lower_def)
  then have "str_or (Some w) ''DEFAULT'' = w" by (cases w) auto
  with w have "session_mode_from_channel (Some w) = or_else (session_mode_of_value (mode_value m)) DEFAULT"
    by (simp add: session_mode_from_channel_def)
  also have "\<dots> = m"
    by (cases m) (simp_all add: session_mode_of_value_def session_modes_def)
  finally show "session_mode_from_channel (Some w) = m" .
next
  assume "\<forall>m. mode_value m \<noteq> lower (str_or raw ''DEFAULT'')"
  then have "session_mode_of_value (lower (str_or raw ''DEFAULT'')) = None"
    by (simp add: session_mode_of_value_def find_None_iff)
  then show "session_mode_from_channel raw = DEFAULT" by (simp add: session_mode_from_channel_def)
next
  assume "t \<noteq> READ_ONLY"
  moreover have "session_mode_from_channel None = DEFAULT" by code_simp
  ultimately show "evaluate_action (session_mode_from_channel None) t EDIT_EXECUTE_RBW = HITL"
    by (cases t) (simp_all add: evaluate_action_cases)
qed

theorem session_mode_channel_total_witness:
  "session_mode_from_channel (Some ''Full_Auto'') = FULL_AUTO"
  by (rule session_mode_channel_total [THEN conjunct1, rule_format]) code_simp

end
