(* ===== verification/Json.thy ===== *)
theory Json
  imports Prelude
begin

text \<open>
  The JSON values that Python's \<open>json\<close> module produces and that tool arguments, ledgers and
  subagent results are made of. An object is a dictionary in insertion order, as
  \<open>json.loads\<close> returns it, so its keys are distinct; integers and floats are kept apart
  because \<open>isinstance\<close> tells them apart.
\<close>

datatype json =
    JNull
  | JBool bool
  | JInt int
  | JFloat rat
  | JStr string
  | JArr "json list"
  | JObj "(string \<times> json) list"

text \<open>Python's truth value of a value.\<close>

fun truthy :: "json \<Rightarrow> bool" where
  "truthy JNull = False"
| "truthy (JBool b) = b"
| "truthy (JInt i) = (i \<noteq> 0)"
| "truthy (JFloat r) = (r \<noteq> 0)"
| "truthy (JStr s) = (s \<noteq> [])"
| "truthy (JArr xs) = (xs \<noteq> [])"
| "truthy (JObj kvs) = (kvs \<noteq> [])"

text \<open>\<open>obj.get(k)\<close> on a dictionary of values: an absent key reads as \<open>None\<close>.\<close>

definition jget :: "(string, json) dict \<Rightarrow> string \<Rightarrow> json" where
  "jget obj k = dget_default obj k JNull"

text \<open>\<open>isinstance(v, (int, float))\<close> with the conversion \<open>float(v)\<close>: a boolean is an int.\<close>

fun as_number :: "json \<Rightarrow> rat option" where
  "as_number (JBool b) = Some (if b then 1 else 0)"
| "as_number (JInt i) = Some (of_int i)"
| "as_number (JFloat r) = Some r"
| "as_number _ = None"

definition as_text :: "json \<Rightarrow> string option" where
  "as_text v = (case v of JStr s \<Rightarrow> Some s | _ \<Rightarrow> None)"

lemma as_text_Some [simp]: "as_text v = Some s \<longleftrightarrow> v = JStr s"
  by (cases v) (auto simp: as_text_def)

lemma jget_absent [simp]: "dget obj k = None \<Longrightarrow> jget obj k = JNull"
  by (simp add: jget_def dget_default_def)

lemma jget_present [simp]: "dget obj k = Some v \<Longrightarrow> jget obj k = v"
  by (simp add: jget_def dget_default_def)

end
