(* ===== verification/Gateway.thy ===== *)
theory Gateway
  imports Permissions Json
begin

text \<open>
  The external capability gateway (\<open>gateway/ledger.py\<close>, \<open>catalog.py\<close>, \<open>governance.py\<close>,
  \<open>handlers.py\<close>, \<open>server.py\<close>): a persistent ledger with a token bucket and a budget per
  caller, the catalogue of verbs, the invocation gate and the handlers behind it. The ledger
  file is the JSON value last written (\<open>None\<close> when it is missing or unreadable); whether a
  file lock is acquired in time is the next element of \<open>gw_locks\<close>; the host, the stores the
  read-only verbs query and the hash of the caller token are parameters. A write of the
  ledger that fails on the disk is not modelled.
\<close>

subsection \<open>The ledger\<close>

type_synonym caller_record = "(string, rat) dict"
type_synonym store = "(string, caller_record) dict"

record ledger_config =
  rate_cap :: rat
  refill_per_s :: rat
  budget_ceiling :: rat

definition load_record :: "(string \<times> json) list \<Rightarrow> caller_record" where
  "load_record rec =
     concat (map (\<lambda>(k, v). case as_number v of None \<Rightarrow> [] | Some x \<Rightarrow> [(k, x)]) rec)"

definition load_ledger :: "json option \<Rightarrow> store" where
  "load_ledger file =
     (case file of
        Some (JObj data) \<Rightarrow>
          concat (map (\<lambda>(caller, rec). case rec of JObj r \<Rightarrow> [(caller, load_record r)] | _ \<Rightarrow> []) data)
      | _ \<Rightarrow> [])"

definition save_ledger :: "store \<Rightarrow> json" where
  "save_ledger store =
     JObj (map (\<lambda>(caller, rec). (caller, JObj (map (\<lambda>(k, x). (k, JFloat x)) rec))) store)"

record gw_world =
  gw_file :: "json option"
  gw_locks :: "bool list"
  gw_now :: rat
  gw_sent :: "(string \<times> json) list"

text \<open>The outcome of the next \<open>lock.acquire()\<close>; an exhausted script means no contention.\<close>

fun next_lock :: "gw_world \<Rightarrow> bool \<times> gw_world" where
  "next_lock w =
     (case gw_locks w of [] \<Rightarrow> (True, w) | l # ls \<Rightarrow> (l, w\<lparr>gw_locks := ls\<rparr>))"

definition rate_record ::
  "ledger_config \<Rightarrow> rat \<Rightarrow> caller_record \<Rightarrow> bool \<times> caller_record" where
  "rate_record cfg now rec0 =
     (let cap = rate_cap cfg;
          last = dget_default rec0 ''refill_at'' now;
          elapsed = max 0 (now - last);
          tokens = min cap (dget_default rec0 ''bucket_tokens'' cap + elapsed * refill_per_s cfg);
          granted = (1 \<le> tokens);
          rec1 = dset ''bucket_tokens'' (if granted then tokens - 1 else tokens) rec0;
          rec2 = dset ''refill_at'' now rec1
      in (granted, setdefault ''budget_consumed'' 0 rec2))"

definition rate_txn :: "ledger_config \<Rightarrow> string \<Rightarrow> gw_world \<Rightarrow> bool \<times> gw_world" where
  "rate_txn cfg caller_id w0 =
     (let (acquired, w) = next_lock w0 in
      if \<not> acquired then (False, w)
      else (let store = load_ledger (gw_file w);
                (granted, rec) = rate_record cfg (gw_now w) (dget_default store caller_id [])
            in (granted, w\<lparr>gw_file := Some (save_ledger (dset caller_id rec store))\<rparr>)))"

definition budget_record ::
  "ledger_config \<Rightarrow> rat \<Rightarrow> rat \<Rightarrow> caller_record \<Rightarrow> caller_record" where
  "budget_record cfg now amount rec0 =
     (let rec1 = dset ''budget_consumed'' (max 0 (dget_default rec0 ''budget_consumed'' 0 + amount)) rec0;
          rec2 = setdefault ''bucket_tokens'' (rate_cap cfg) rec1
      in setdefault ''refill_at'' now rec2)"

definition budget_consume_txn ::
  "ledger_config \<Rightarrow> string \<Rightarrow> rat \<Rightarrow> gw_world \<Rightarrow> gw_world" where
  "budget_consume_txn cfg caller_id amount w0 =
     (let (acquired, w) = next_lock w0 in
      if \<not> acquired then w
      else (let store = load_ledger (gw_file w);
                rec = budget_record cfg (gw_now w) amount (dget_default store caller_id [])
            in w\<lparr>gw_file := Some (save_ledger (dset caller_id rec store))\<rparr>))"

definition budget_consumed :: "string \<Rightarrow> gw_world \<Rightarrow> rat" where
  "budget_consumed caller_id w =
     dget_default (dget_default (load_ledger (gw_file w)) caller_id []) ''budget_consumed'' 0"

definition budget_exceeded :: "ledger_config \<Rightarrow> string \<Rightarrow> gw_world \<Rightarrow> bool" where
  "budget_exceeded cfg caller_id w \<longleftrightarrow> budget_ceiling cfg \<le> budget_consumed caller_id w"

subsection \<open>The catalogue\<close>

definition SCHEMA_VERSION :: string where "SCHEMA_VERSION = ''1.0.0''"

definition PROTOCOL_VERSION :: string where "PROTOCOL_VERSION = ''1.0.0''"

record capability =
  cap_name :: string
  cap_description :: string
  cap_tier :: tier
  cap_input_schema :: json
  cap_is_async :: bool
  cap_schema_version :: string
  cap_deprecated :: bool
  cap_deprecated_since :: "string option"
  cap_sunset_version :: "string option"

text \<open>The dataclass constructor: the four last fields have defaults.\<close>

definition Capability :: "string \<Rightarrow> string \<Rightarrow> tier \<Rightarrow> bool \<Rightarrow> json \<Rightarrow> capability" where
  "Capability name description tier is_async input_schema =
     \<lparr>cap_name = name, cap_description = description, cap_tier = tier,
      cap_input_schema = input_schema, cap_is_async = is_async,
      cap_schema_version = SCHEMA_VERSION, cap_deprecated = False,
      cap_deprecated_since = None, cap_sunset_version = None\<rparr>"

definition string_property :: "string \<Rightarrow> json" where
  "string_property description =
     JObj [(''type'', JStr ''string''), (''description'', JStr description)]"

definition object_schema :: "(string \<times> json) list \<Rightarrow> string list \<Rightarrow> json" where
  "object_schema properties required =
     JObj [(''type'', JStr ''object''), (''properties'', JObj properties),
           (''required'', JArr (map JStr required)), (''additionalProperties'', JBool False)]"

definition TASK_ID_SCHEMA :: json where
  "TASK_ID_SCHEMA =
     object_schema [(''task_id'', string_property ''Handle returned by run_task or run_benchmark.'')]
       [''task_id'']"

definition workspace_property :: "string \<times> json" where
  "workspace_property =
     (''workspace_root'', string_property ''Absolute path of the target workspace.'')"

definition CATALOG :: "capability list" where
  "CATALOG =
    [Capability ''run_task''
       (''Submit a coding task to AILIENANT. Returns a task_id immediately; ''
        @ ''poll check_task_status with that id until the task completes.'')
       EXECUTE True
       (object_schema [(''prompt'', string_property ''The task instruction for the agent.''),
                       workspace_property] [''prompt'', ''workspace_root'']),
     Capability ''run_benchmark''
       (''Run the AILIENANT benchmark harness. Returns a task_id immediately; ''
        @ ''poll check_task_status, then read get_report when it completes.'')
       EXECUTE True
       (object_schema [(''suite'', string_property ''Optional benchmark suite identifier.'')] []),
     Capability ''check_task_status''
       ''Poll the status and result of a previously submitted task or benchmark.''
       READ_ONLY False TASK_ID_SCHEMA,
     Capability ''query_memory''
       ''Query AILIENANT's GraphRAG memory for relevant snippets.''
       READ_ONLY False
       (object_schema [(''query'', string_property ''Natural-language query.''),
                       workspace_property] [''query'', ''workspace_root'']),
     Capability ''get_dependents''
       ''Return the symbols that depend on a given symbol (1-hop backward).''
       READ_ONLY False
       (object_schema [(''symbol'', string_property ''Fully-qualified symbol.''),
                       workspace_property] [''symbol'', ''workspace_root'']),
     Capability ''get_workspace_graph''
       ''Return a snapshot of the workspace code-dependency graph.''
       READ_ONLY False (object_schema [workspace_property] [''workspace_root'']),
     Capability ''get_report''
       ''Read the machine-readable report produced by a benchmark run.''
       READ_ONLY False TASK_ID_SCHEMA]"

definition get_capability :: "string \<Rightarrow> capability option" where
  "get_capability name = find (\<lambda>cap. cap_name cap = name) CATALOG"

definition capability_names :: "string list" where
  "capability_names = map cap_name CATALOG"

definition tool_meta :: "capability \<Rightarrow> (string, json) dict" where
  "tool_meta cap =
     [(''protocol_version'', JStr PROTOCOL_VERSION),
      (''schema_version'', JStr (cap_schema_version cap)),
      (''tier'', JStr (tier_value (cap_tier cap))),
      (''async'', JBool (cap_is_async cap)),
      (''deprecated'', JBool (cap_deprecated cap))]
     @ (if cap_deprecated cap
        then (case cap_deprecated_since cap of None \<Rightarrow> [] | Some v \<Rightarrow> [(''deprecated_since'', JStr v)])
           @ (case cap_sunset_version cap of None \<Rightarrow> [] | Some v \<Rightarrow> [(''sunset_version'', JStr v)])
        else [])"

record mcp_tool =
  tool_name :: string
  tool_description :: string
  tool_inputSchema :: json
  tool_readOnlyHint :: bool
  tool_meta_field :: "(string, json) dict"

definition to_mcp_tools :: "mcp_tool list" where
  "to_mcp_tools =
     map (\<lambda>cap. \<lparr>tool_name = cap_name cap, tool_description = cap_description cap,
                  tool_inputSchema = cap_input_schema cap,
                  tool_readOnlyHint = (cap_tier cap = READ_ONLY),
                  tool_meta_field = tool_meta cap\<rparr>) CATALOG"

subsection \<open>Governance\<close>

definition INVOCATION_GATE_MODE :: session_mode where "INVOCATION_GATE_MODE = AUTO"

definition INTERNAL_TASK_MODE :: session_mode where "INTERNAL_TASK_MODE = CAUTIOUS"

definition resolve_caller_id ::
  "(string \<Rightarrow> string) \<Rightarrow> string option \<Rightarrow> string option \<Rightarrow> string" where
  "resolve_caller_id sha256_hex caller_id_var token_var =
     (let explicit = strip (str_or caller_id_var []); token = strip (str_or token_var []) in
      if explicit \<noteq> [] then explicit
      else if token \<noteq> [] then take 16 (sha256_hex token)
      else ''anonymous'')"

definition register_gateway_privileges :: "(string, tier) dict \<Rightarrow> (string, tier) dict" where
  "register_gateway_privileges catalog =
     register_privilege_overrides catalog (map (\<lambda>cap. (cap_name cap, cap_tier cap)) CATALOG)"

definition authorize_invocation :: "(string, tier) dict \<Rightarrow> capability \<Rightarrow> decision" where
  "authorize_invocation catalog cap =
     (let tier = classify_tool_privilege catalog (cap_name cap) [] None in
      evaluate_action INVOCATION_GATE_MODE tier EDIT_EXECUTE_RBW)"

definition resolve_internal_task_mode :: "(string, json) dict \<Rightarrow> session_mode" where
  "resolve_internal_task_mode arguments = INTERNAL_TASK_MODE"

subsection \<open>Handlers\<close>

datatype handler_outcome =
  Returned json | InvalidArguments "string list" | HostNotRunning | HandlerFault string

text \<open>
  What the handlers call outside the gateway: the live host over loopback HTTP (a request
  line and a body give a body or a failure), the memory and graph stores, \<open>uuid4\<close> and
  \<open>str\<close> of a value that is not a text.
\<close>

record services =
  sv_host_up :: bool
  sv_http :: "string \<Rightarrow> json \<Rightarrow> string + json"
  sv_task_uuid :: string
  sv_request_uuid :: string
  sv_str :: "json \<Rightarrow> string"
  sv_project_id :: "json \<Rightarrow> string + string"
  sv_search_snippets :: "json \<Rightarrow> string \<Rightarrow> json \<Rightarrow> string + (string \<times> string) list"
  sv_get_dependents :: "json \<Rightarrow> string \<Rightarrow> string + json"
  sv_graph_edges :: "string \<Rightarrow> string + (json \<times> json \<times> json \<times> json) list"

record gw_env =
  ge_cfg :: ledger_config
  ge_caller :: string
  ge_benchmark_cost :: rat
  ge_catalog :: "(string, tier) dict"

type_synonym handler =
  "gw_env \<Rightarrow> services \<Rightarrow> (string, json) dict \<Rightarrow> gw_world \<Rightarrow> handler_outcome \<times> gw_world"

definition py_str :: "services \<Rightarrow> json \<Rightarrow> string" where
  "py_str sv v = (case v of JStr s \<Rightarrow> s | _ \<Rightarrow> sv_str sv v)"

definition CONSERVATIVE_FRONTEND_MODE :: string where
  "CONSERVATIVE_FRONTEND_MODE = ''ask_before_edits''"

definition require_keys :: "(string, json) dict \<Rightarrow> string list \<Rightarrow> string list" where
  "require_keys args required = filter (\<lambda>key. \<not> truthy (jget args key)) required"

definition fault_or :: "string + 'a \<Rightarrow> ('a \<Rightarrow> handler_outcome) \<Rightarrow> handler_outcome" where
  "fault_or r f = (case r of Inl e \<Rightarrow> HandlerFault e | Inr x \<Rightarrow> f x)"

text \<open>A request that reaches the host is recorded before its answer is read.\<close>

definition http :: "services \<Rightarrow> string \<Rightarrow> json \<Rightarrow> gw_world \<Rightarrow> (string + json) \<times> gw_world" where
  "http sv url payload w = (sv_http sv url payload, w\<lparr>gw_sent := gw_sent w @ [(url, payload)]\<rparr>)"

definition handle_query_memory :: handler where
  "handle_query_memory env sv args w =
     (let absent = require_keys args [''query'', ''workspace_root''] in
      if absent \<noteq> [] then (InvalidArguments absent, w)
      else (fault_or (sv_project_id sv (jget args ''workspace_root'')) (\<lambda>project_id.
              fault_or (sv_search_snippets sv (jget args ''query'') project_id
                          (jget args ''workspace_root'')) (\<lambda>pairs.
                Returned (JArr (map (\<lambda>(file_path, snippet).
                  JObj [(''file_path'', JStr file_path), (''snippet'', JStr snippet)]) pairs)))), w))"

definition handle_get_dependents :: handler where
  "handle_get_dependents env sv args w =
     (let absent = require_keys args [''symbol'', ''workspace_root''] in
      if absent \<noteq> [] then (InvalidArguments absent, w)
      else (fault_or (sv_project_id sv (jget args ''workspace_root'')) (\<lambda>project_id.
              fault_or (sv_get_dependents sv (jget args ''symbol'') project_id) Returned), w))"

definition handle_get_workspace_graph :: handler where
  "handle_get_workspace_graph env sv args w =
     (let absent = require_keys args [''workspace_root''] in
      if absent \<noteq> [] then (InvalidArguments absent, w)
      else (fault_or (sv_project_id sv (jget args ''workspace_root'')) (\<lambda>project_id.
              fault_or (sv_graph_edges sv project_id) (\<lambda>edges.
                Returned (JArr (map (\<lambda>(source, target, confidence, score).
                  JObj [(''source'', source), (''target'', target),
                        (''confidence'', confidence), (''score'', score)]) edges)))), w))"

definition handle_run_task :: handler where
  "handle_run_task env sv args w =
     (let absent = require_keys args [''prompt'', ''workspace_root''] in
      if absent \<noteq> [] then (InvalidArguments absent, w)
      else if \<not> sv_host_up sv then (HostNotRunning, w)
      else (let workspace_root = jget args ''workspace_root'' in
            case sv_project_id sv workspace_root of
              Inl e \<Rightarrow> (HandlerFault e, w)
            | Inr project_id \<Rightarrow>
                (let payload = JObj [(''task_prompt'', jget args ''prompt''), (''dirty_buffers'', JArr []),
                                     (''project_id'', JStr project_id),
                                     (''workspace_root'', workspace_root),
                                     (''execution_mode'', JStr CONSERVATIVE_FRONTEND_MODE),
                                     (''request_id'', JStr (sv_request_uuid sv))];
                     (resp, w1) = http sv ''POST /api/v1/task/submit'' payload w
                 in (fault_or resp (\<lambda>_.
                       Returned (JObj [(''task_id'', JStr (sv_task_uuid sv)),
                                       (''status'', JStr ''submitted''),
                                       (''poll'', JStr ''check_task_status'')])), w1))))"

definition handle_check_task_status :: handler where
  "handle_check_task_status env sv args w =
     (let absent = require_keys args [''task_id''] in
      if absent \<noteq> [] then (InvalidArguments absent, w)
      else if \<not> sv_host_up sv then (HostNotRunning, w)
      else (let (resp, w1) = http sv (''GET /api/v1/task/'' @ py_str sv (jget args ''task_id'')
                                      @ ''/status'') JNull w
            in (fault_or resp Returned, w1)))"

text \<open>
  A refund is a charge of the negative amount; the fault it swallows would be a failing
  ledger write.
\<close>

definition safe_refund :: "gw_env \<Rightarrow> rat \<Rightarrow> gw_world \<Rightarrow> gw_world" where
  "safe_refund env amount = budget_consume_txn (ge_cfg env) (ge_caller env) (- amount)"

definition handle_run_benchmark :: handler where
  "handle_run_benchmark env sv args w =
     (let suite = (if truthy (jget args ''suite'') then py_str sv (jget args ''suite'') else ''v1'') in
      if \<not> sv_host_up sv then (HostNotRunning, w)
      else (let cost = ge_benchmark_cost env;
                w1 = budget_consume_txn (ge_cfg env) (ge_caller env) cost w;
                (resp, w2) = http sv ''POST /api/v1/benchmark/submit'' (JObj [(''suite'', JStr suite)]) w1
            in case resp of
                 Inl original_error \<Rightarrow> (HandlerFault original_error, safe_refund env cost w2)
               | Inr body \<Rightarrow>
                   if (case body of JObj kvs \<Rightarrow> jget kvs ''status'' = JStr ''accepted'' | _ \<Rightarrow> False)
                   then (Returned (JObj [(''task_id'', JStr (sv_task_uuid sv)),
                                         (''status'', JStr ''submitted''),
                                         (''poll'', JStr ''check_task_status''),
                                         (''then'', JStr ''get_report'')]), w2)
                   else (Returned (JObj [(''status'', JStr ''busy''),
                                         (''reason'', JStr ''benchmark_busy'')]),
                         safe_refund env cost w2)))"

definition handle_get_report :: handler where
  "handle_get_report env sv args w =
     (let absent = require_keys args [''task_id''] in
      if absent \<noteq> [] then (InvalidArguments absent, w)
      else if \<not> sv_host_up sv then (HostNotRunning, w)
      else (let (resp, w1) = http sv (''GET /api/v1/benchmark/'' @ py_str sv (jget args ''task_id'')
                                      @ ''/report'') JNull w
            in (fault_or resp Returned, w1)))"

definition CAPABILITY_HANDLERS :: "(string \<times> handler) list" where
  "CAPABILITY_HANDLERS =
     [(''run_task'', handle_run_task), (''check_task_status'', handle_check_task_status),
      (''query_memory'', handle_query_memory), (''get_dependents'', handle_get_dependents),
      (''get_workspace_graph'', handle_get_workspace_graph),
      (''run_benchmark'', handle_run_benchmark), (''get_report'', handle_get_report)]"

subsection \<open>The server\<close>

datatype envelope =
    Ok string json
  | NotImplemented string
  | Denied string string "(string, json) dict"
  | Error string string "(string, json) dict"

definition HITL_MESSAGE :: string where
  "HITL_MESSAGE =
     ''This capability requires interactive human approval, which the stdio ''
     @ ''gateway cannot provide (no human is in an external caller's loop). The ''
     @ ''request was denied without blocking. For an interactive approval path, ''
     @ ''drive this action through the AILIENANT VS Code extension.''"

definition run_handler ::
  "(string \<times> handler) list \<Rightarrow> gw_env \<Rightarrow> services \<Rightarrow> string \<Rightarrow> (string, json) dict \<Rightarrow> gw_world
   \<Rightarrow> envelope \<times> gw_world" where
  "run_handler handlers env sv name args w =
     (case dget handlers name of
        None \<Rightarrow> (NotImplemented name, w)
      | Some handle \<Rightarrow>
          (case handle env sv args w of
             (Returned result, w') \<Rightarrow> (Ok name result, w')
           | (InvalidArguments missing, w') \<Rightarrow>
               (Error ''invalid_arguments'' name [(''missing'', JArr (map JStr missing))], w')
           | (HostNotRunning, w') \<Rightarrow>
               (Error ''host_unavailable'' name
                  [(''message'', JStr ''Open VS Code to start the AILIENANT engine.'')], w')
           | (HandlerFault e, w') \<Rightarrow> (Error ''handler_error'' name [(''detail'', JStr e)], w')))"

definition dispatch_call ::
  "(string \<times> handler) list \<Rightarrow> gw_env \<Rightarrow> services \<Rightarrow> string \<Rightarrow> (string, json) dict \<Rightarrow> gw_world
   \<Rightarrow> envelope \<times> gw_world" where
  "dispatch_call handlers env sv name args w =
     (case get_capability name of
        None \<Rightarrow> (Error ''unknown_capability'' name [], w)
      | Some cap \<Rightarrow>
          (let (granted, w1) = rate_txn (ge_cfg env) (ge_caller env) w in
           if \<not> granted then (Denied ''rate_exceeded'' name [], w1)
           else if budget_exceeded (ge_cfg env) (ge_caller env) w1
           then (Denied ''budget_exceeded'' name [], w1)
           else (case authorize_invocation (ge_catalog env) cap of
                   DENY \<Rightarrow> (Denied ''permission_denied'' name
                              [(''tier'', JStr (tier_value (cap_tier cap)))], w1)
                 | HITL \<Rightarrow> (Denied ''requires_human_approval'' name
                              [(''tier'', JStr (tier_value (cap_tier cap))),
                               (''would_have_required'', JStr ''human_approval''),
                               (''message'', JStr HITL_MESSAGE)], w1)
                 | ALLOW \<Rightarrow> run_handler handlers env sv name args w1)))"

subsection \<open>Lemmas on the ledger\<close>

lemma load_record_save: "load_record (map (\<lambda>(k, x). (k, JFloat x)) rec) = rec"
  by (induction rec) (auto simp: load_record_def)

lemma load_save [simp]: "load_ledger (Some (save_ledger store)) = store"
  by (induction store) (auto simp: load_ledger_def save_ledger_def load_record_save)

definition caller_rec :: "string \<Rightarrow> gw_world \<Rightarrow> caller_record" where
  "caller_rec c w = dget_default (load_ledger (gw_file w)) c []"

lemma budget_consumed_rec: "budget_consumed c w = dget_default (caller_rec c w) ''budget_consumed'' 0"
  by (simp add: budget_consumed_def caller_rec_def)

lemma next_lock_fields [simp]:
  "gw_file (snd (next_lock w)) = gw_file w" "gw_now (snd (next_lock w)) = gw_now w"
  "gw_sent (snd (next_lock w)) = gw_sent w" "caller_rec c (snd (next_lock w)) = caller_rec c w"
  by (auto simp: caller_rec_def split: list.splits)

lemma next_lock_now [simp]: "fst (next_lock (w\<lparr>gw_now := t\<rparr>)) = fst (next_lock w)"
  by (auto split: list.splits)

lemma caller_rec_now [simp]: "caller_rec c (w\<lparr>gw_now := t\<rparr>) = caller_rec c w"
  by (simp add: caller_rec_def)

declare next_lock.simps [simp del]

lemma rate_txn_fields [simp]:
  "gw_now (snd (rate_txn cfg d w)) = gw_now w" "gw_sent (snd (rate_txn cfg d w)) = gw_sent w"
  by (simp_all add: rate_txn_def split_beta Let_def)

lemma budget_txn_fields [simp]:
  "gw_now (budget_consume_txn cfg d a w) = gw_now w"
  "gw_sent (budget_consume_txn cfg d a w) = gw_sent w"
  by (simp_all add: budget_consume_txn_def split_beta Let_def)

lemma rate_txn_rec:
  "caller_rec c (snd (rate_txn cfg d w)) =
     (if fst (next_lock w) \<and> c = d then snd (rate_record cfg (gw_now w) (caller_rec d w))
      else caller_rec c w)"
  by (auto simp: rate_txn_def caller_rec_def split_beta Let_def dict_simps)

lemma rate_txn_granted:
  "fst (rate_txn cfg d w) \<longleftrightarrow>
     fst (next_lock w) \<and> fst (rate_record cfg (gw_now w) (caller_rec d w))"
  by (simp add: rate_txn_def caller_rec_def split_beta Let_def)

lemma budget_txn_rec:
  "caller_rec c (budget_consume_txn cfg d a w) =
     (if fst (next_lock w) \<and> c = d then budget_record cfg (gw_now w) a (caller_rec d w)
      else caller_rec c w)"
  by (auto simp: budget_consume_txn_def caller_rec_def split_beta Let_def dict_simps)

lemma dget_default_setdefault:
  "dget_default (setdefault k v d) k' u =
     (if k' = k \<and> dget d k = None then v else dget_default d k' u)"
  by (simp add: dget_default_def dget_setdefault)

lemma rate_record_budget [simp]:
  "dget_default (snd (rate_record cfg now rec)) ''budget_consumed'' 0
     = dget_default rec ''budget_consumed'' 0"
  by (auto simp: rate_record_def Let_def dget_default_setdefault dget_default_dset dget_dset)
    (simp add: dget_default_def)

lemma budget_record_budget [simp]:
  "dget_default (budget_record cfg now a rec) ''budget_consumed'' 0
     = max 0 (dget_default rec ''budget_consumed'' 0 + a)"
  by (simp add: budget_record_def Let_def dget_default_setdefault dget_default_dset dget_dset dget_setdefault)

lemma rate_txn_budget [simp]:
  "budget_consumed c (snd (rate_txn cfg d w)) = budget_consumed c w"
  by (simp add: budget_consumed_rec rate_txn_rec)

lemma budget_txn_budget:
  "budget_consumed c (budget_consume_txn cfg d a w) =
     (if fst (next_lock w) \<and> c = d then max 0 (budget_consumed c w + a) else budget_consumed c w)"
  by (simp add: budget_consumed_rec budget_txn_rec)

subsection \<open>The token bucket over a history of ledger operations\<close>

text \<open>
  A history is a list of operations of any callers with the clock readings at which they
  happen: a rate check, or a charge of an amount. \<open>grants\<close> counts the tokens one caller gets
  and \<open>forward_time\<close> adds up the forward movements of the clock.
\<close>

type_synonym ledger_event = "string \<times> rat \<times> rat option"

fun grants :: "ledger_config \<Rightarrow> string \<Rightarrow> ledger_event list \<Rightarrow> gw_world \<Rightarrow> nat" where
  "grants cfg c [] w = 0"
| "grants cfg c ((d, now, op) # es) w =
     (case op of
        None \<Rightarrow> (let (granted, w') = rate_txn cfg d (w\<lparr>gw_now := now\<rparr>) in
                 (if granted \<and> d = c then 1 else 0) + grants cfg c es w')
      | Some a \<Rightarrow> grants cfg c es (budget_consume_txn cfg d a (w\<lparr>gw_now := now\<rparr>)))"

fun forward_time :: "rat list \<Rightarrow> rat" where
  "forward_time (t # u # ts) = max 0 (u - t) + forward_time (u # ts)"
| "forward_time _ = 0"

text \<open>What a record can still grant at time \<open>t\<close> without the clock moving.\<close>

definition potential :: "ledger_config \<Rightarrow> rat \<Rightarrow> caller_record \<Rightarrow> rat" where
  "potential cfg t rec =
     min (rate_cap cfg)
       (max 0 (dget_default rec ''bucket_tokens'' (rate_cap cfg))
        + refill_per_s cfg * (case dget rec ''refill_at'' of None \<Rightarrow> 0 | Some l \<Rightarrow> max 0 (t - l)))"

lemma min_add_mono: "x \<le> y + z \<Longrightarrow> 0 \<le> z \<Longrightarrow> min c x \<le> min c y + z" for x :: rat
  by (simp add: min_def)

lemma potential_mono:
  assumes "0 \<le> rate_cap cfg" and "0 \<le> refill_per_s cfg"
  shows "potential cfg now rec \<le> potential cfg t rec + refill_per_s cfg * max 0 (now - t)"
proof -
  let ?r = "refill_per_s cfg" and ?b = "max 0 (dget_default rec ''bucket_tokens'' (rate_cap cfg))"
  have nn: "0 \<le> ?r * max 0 (now - t)" using assms by simp
  show ?thesis
  proof (cases "dget rec ''refill_at''")
    case None
    with nn show ?thesis by (simp add: potential_def)
  next
    case (Some l)
    have "?r * max 0 (now - l) \<le> ?r * (max 0 (t - l) + max 0 (now - t))"
      by (rule mult_left_mono) (auto simp: assms)
    then have "?b + ?r * max 0 (now - l) \<le> (?b + ?r * max 0 (t - l)) + ?r * max 0 (now - t)"
      by (simp add: distrib_left)
    from min_add_mono [OF this nn] Some show ?thesis by (simp add: potential_def)
  qed
qed

lemma rate_record_potential:
  assumes "0 \<le> rate_cap cfg" and "0 \<le> refill_per_s cfg"
  shows "(if fst (rate_record cfg now rec) then 1 else 0)
           + potential cfg now (snd (rate_record cfg now rec)) \<le> potential cfg now rec"
proof -
  define tokens where "tokens = min (rate_cap cfg)
    (dget_default rec ''bucket_tokens'' (rate_cap cfg)
     + max 0 (now - dget_default rec ''refill_at'' now) * refill_per_s cfg)"
  have granted: "fst (rate_record cfg now rec) \<longleftrightarrow> 1 \<le> tokens"
    by (simp add: rate_record_def tokens_def Let_def)
  have after: "potential cfg now (snd (rate_record cfg now rec))
      = min (rate_cap cfg) (max 0 (if 1 \<le> tokens then tokens - 1 else tokens))"
    by (simp add: rate_record_def tokens_def Let_def potential_def dget_default_setdefault
        dget_default_dset dget_setdefault dget_dset)
  have "max 0 tokens \<le> potential cfg now rec"
  proof (cases "dget rec ''refill_at''")
    case None
    then show ?thesis using assms
      by (simp add: potential_def tokens_def dget_default_def [of rec "''refill_at''"])
  next
    case (Some l)
    define e where "e = refill_per_s cfg * max 0 (now - l)"
    have "0 \<le> e" using assms by (simp add: e_def)
    with Some show ?thesis using assms
      by (simp add: potential_def tokens_def dget_default_def [of rec "''refill_at''"]
          mult.commute flip: e_def)
  qed
  then show ?thesis unfolding granted after by (auto simp: min_def max_def split: if_splits)
qed

lemma budget_record_potential:
  "0 \<le> rate_cap cfg \<Longrightarrow> 0 \<le> refill_per_s cfg \<Longrightarrow>
   potential cfg now (budget_record cfg now a rec) = potential cfg now rec"
  by (auto simp: budget_record_def Let_def potential_def dget_default_setdefault
      dget_default_dset dget_setdefault dget_dset dget_default_def split: option.splits)

lemma grants_potential:
  assumes "0 \<le> rate_cap cfg" and "0 \<le> refill_per_s cfg"
  shows "of_nat (grants cfg c es w)
    \<le> potential cfg t (caller_rec c w)
       + refill_per_s cfg * forward_time (t # map (\<lambda>e. fst (snd e)) es)"
proof (induction es arbitrary: w t)
  case Nil
  show ?case using assms by (auto simp: potential_def split: option.splits)
next
  case (Cons e es)
  obtain d now op where e: "e = (d, now, op)" by (cases e)
  let ?w = "w\<lparr>gw_now := now\<rparr>" and ?r = "refill_per_s cfg"
  let ?ft = "forward_time (now # map (\<lambda>e. fst (snd e)) es)"
  have mono: "potential cfg now (caller_rec c w)
      \<le> potential cfg t (caller_rec c w) + ?r * max 0 (now - t)"
    by (rule potential_mono [OF assms])
  show ?case
  proof (cases op)
    case None
    let ?g = "if fst (rate_txn cfg d ?w) \<and> d = c then 1 else 0 :: nat"
    have "of_nat ?g + potential cfg now (caller_rec c (snd (rate_txn cfg d ?w)))
        \<le> potential cfg now (caller_rec c w)"
      using rate_record_potential [OF assms, of now "caller_rec c w"]
      by (auto simp: rate_txn_rec rate_txn_granted)
    with Cons.IH [of "snd (rate_txn cfg d ?w)" now] mono None e show ?thesis
      by (simp add: split_beta distrib_left Let_def)
  next
    case (Some a)
    have "potential cfg now (caller_rec c (budget_consume_txn cfg d a ?w))
        = potential cfg now (caller_rec c w)"
      by (simp add: budget_txn_rec budget_record_potential [OF assms])
    with Cons.IH [of "budget_consume_txn cfg d a ?w" now] mono Some e show ?thesis
      by (simp add: distrib_left)
  qed
qed

subsection \<open>Properties of the ledger\<close>

text \<open>
  The rate limiter bounds every history. Over any sequence of rate checks and charges of
  any callers, with locks lost at any point and a clock that may jump backwards, the tokens
  one caller gets are at most the bucket size plus the refill rate times the time by which
  the clock moved forward, from whatever ledger file the history starts, corrupt ones and
  ones left by an earlier process included.
\<close>

theorem rate_limit_bound:
  assumes "0 \<le> rate_cap cfg" and "0 \<le> refill_per_s cfg"
  shows "of_nat (grants cfg c es w)
    \<le> rate_cap cfg + refill_per_s cfg * forward_time (map (\<lambda>e. fst (snd e)) es)"
proof (cases es)
  case Nil
  with assms show ?thesis by simp
next
  case (Cons e es')
  let ?ts = "map (\<lambda>e. fst (snd e)) es"
  have "of_nat (grants cfg c es w)
      \<le> potential cfg (fst (snd e)) (caller_rec c w) + refill_per_s cfg * forward_time (fst (snd e) # ?ts)"
    by (rule grants_potential [OF assms])
  moreover have "forward_time (fst (snd e) # ?ts) = forward_time ?ts" using Cons by simp
  moreover have "potential cfg (fst (snd e)) (caller_rec c w) \<le> rate_cap cfg"
    by (simp add: potential_def)
  ultimately show ?thesis by (auto intro: order_trans add_right_mono)
qed

definition demo_cfg :: ledger_config where
  "demo_cfg = \<lparr>rate_cap = 2, refill_per_s = 1, budget_ceiling = 10\<rparr>"

definition demo_world :: gw_world where
  "demo_world = \<lparr>gw_file = None, gw_locks = [], gw_now = 0, gw_sent = []\<rparr>"

theorem rate_limit_bound_witness:
  "of_nat (grants demo_cfg ''a'' [(''a'', 0, None), (''a'', 1, None), (''a'', 0, None), (''a'', 3, None)]
      demo_world) \<le> (2 :: rat) + 1 * forward_time [0, 1, 0, 3]"
  using rate_limit_bound [of demo_cfg "''a''"
      "[(''a'', 0, None), (''a'', 1, None), (''a'', 0, None), (''a'', 3, None)]" demo_world]
  by (simp add: demo_cfg_def)

lemma authorize_registered:
  assumes "cap \<in> set CATALOG"
  shows "authorize_invocation (register_gateway_privileges catalog) cap = ALLOW"
proof -
  let ?o = "map (\<lambda>(key, tier). (lower key, tier)) (map (\<lambda>cap. (cap_name cap, cap_tier cap)) CATALOG)"
  have "distinct (dkeys ?o)" by code_simp
  then have "dget (register_gateway_privileges catalog) k =
      (case dget ?o k of None \<Rightarrow> dget catalog k | Some v \<Rightarrow> Some v)" for k
    unfolding register_gateway_privileges_def register_privilege_overrides_def
    by (rule dget_dict_or)
  moreover have "\<forall>cap \<in> set CATALOG. dget ?o (lower (cap_name cap)) = Some (cap_tier cap)"
    by code_simp
  moreover have "\<forall>cap \<in> set CATALOG. evaluate_action INVOCATION_GATE_MODE (cap_tier cap) EDIT_EXECUTE_RBW = ALLOW"
    by code_simp
  ultimately show ?thesis using assms
    by (simp add: authorize_invocation_def classify_tool_privilege_def catalog_keys_def Let_def)
qed

lemma get_capability_in: "get_capability name = Some cap \<Longrightarrow> cap \<in> set CATALOG \<and> cap_name cap = name"
  by (auto simp: get_capability_def find_Some_iff)

text \<open>
  C39. No handler runs ungoverned. If dispatching a call did anything beyond the one rate
  transaction, or answered with a result, then the verb is in the catalogue, the caller was
  granted a rate token, its budget was below the ceiling, the permission engine allowed the
  verb on the invocation axis, and what happened is exactly one run of the verb's handler.
  This holds for any table of handlers.
\<close>

theorem dispatch_call_governed:
  fixes env :: gw_env and w :: gw_world
  assumes "dispatch_call handlers env sv name args w = (answer, w')"
  shows "w' = (if get_capability name = None then w
               else snd (rate_txn (ge_cfg env) (ge_caller env) w))
         \<and> (\<forall>result. answer \<noteq> Ok name result)
    \<or> (\<exists>cap. get_capability name = Some cap
         \<and> fst (rate_txn (ge_cfg env) (ge_caller env) w)
         \<and> budget_consumed (ge_caller env) w < budget_ceiling (ge_cfg env)
         \<and> authorize_invocation (ge_catalog env) cap = ALLOW
         \<and> run_handler handlers env sv name args (snd (rate_txn (ge_cfg env) (ge_caller env) w))
             = (answer, w'))"
proof (cases "get_capability name")
  case None
  with assms show ?thesis by (auto simp: dispatch_call_def)
next
  case (Some cap)
  with assms show ?thesis
    by (auto simp: dispatch_call_def Let_def split_beta budget_exceeded_def not_le
        split: if_splits decision.splits)
qed

definition demo_services :: services where
  "demo_services = \<lparr>sv_host_up = True,
     sv_http = (\<lambda>url body. Inr (JObj [(''status'', JStr ''accepted'')])),
     sv_task_uuid = ''t1'', sv_request_uuid = ''r1'', sv_str = (\<lambda>_. []),
     sv_project_id = (\<lambda>_. Inr ''p1''), sv_search_snippets = (\<lambda>_ _ _. Inr []),
     sv_get_dependents = (\<lambda>_ _. Inr (JArr [])), sv_graph_edges = (\<lambda>_. Inr [])\<rparr>"

definition demo_env :: gw_env where
  "demo_env = \<lparr>ge_cfg = demo_cfg, ge_caller = ''anonymous'', ge_benchmark_cost = 3,
               ge_catalog = register_gateway_privileges []\<rparr>"

lemma get_capability_run_benchmark: "get_capability ''run_benchmark'' \<noteq> None"
  by code_simp

theorem dispatch_call_governed_witness:
  "snd (rate_txn (demo_cfg\<lparr>budget_ceiling := 0\<rparr>) ''anonymous'' demo_world)
     = snd (dispatch_call CAPABILITY_HANDLERS (demo_env\<lparr>ge_cfg := demo_cfg\<lparr>budget_ceiling := 0\<rparr>\<rparr>)
              demo_services ''run_benchmark'' [] demo_world)"
  (is "_ = snd (dispatch_call _ ?env _ _ _ _)")
proof -
  have "\<not> budget_consumed (ge_caller ?env) demo_world < budget_ceiling (ge_cfg ?env)"
    by (simp add: demo_env_def demo_world_def budget_consumed_def load_ledger_def dget_default_def)
  moreover have "ge_cfg ?env = demo_cfg\<lparr>budget_ceiling := 0\<rparr>" "ge_caller ?env = ''anonymous''"
    by (simp_all add: demo_env_def)
  ultimately show ?thesis
    using dispatch_call_governed [OF prod.collapse [symmetric], of CAPABILITY_HANDLERS ?env
        demo_services "''run_benchmark''" "[]" demo_world] get_capability_run_benchmark
    by auto
qed

subsection \<open>Properties of the handlers\<close>

definition accepted :: "services \<Rightarrow> (string, json) dict \<Rightarrow> bool" where
  "accepted sv args \<longleftrightarrow>
     (\<exists>kvs. sv_http sv ''POST /api/v1/benchmark/submit''
        (JObj [(''suite'', JStr (if truthy (jget args ''suite'') then py_str sv (jget args ''suite'')
                                 else ''v1''))]) = Inr (JObj kvs)
      \<and> jget kvs ''status'' = JStr ''accepted'')"

lemma benchmark_world:
  assumes "sv_host_up sv"
  shows "\<exists>sent. snd (handle_run_benchmark env sv args w) =
     (if accepted sv args then id else safe_refund env (ge_benchmark_cost env))
       ((budget_consume_txn (ge_cfg env) (ge_caller env) (ge_benchmark_cost env) w)\<lparr>gw_sent := sent\<rparr>)"
proof -
  define suite where "suite = (if truthy (jget args ''suite'') then py_str sv (jget args ''suite'') else ''v1'')"
  define resp where "resp = sv_http sv ''POST /api/v1/benchmark/submit'' (JObj [(''suite'', JStr suite)])"
  have acc: "accepted sv args \<longleftrightarrow> (\<exists>kvs. resp = Inr (JObj kvs) \<and> jget kvs ''status'' = JStr ''accepted'')"
    by (simp add: accepted_def resp_def suite_def)
  have run: "snd (handle_run_benchmark env sv args w) =
      (if \<exists>kvs. resp = Inr (JObj kvs) \<and> jget kvs ''status'' = JStr ''accepted''
       then id else safe_refund env (ge_benchmark_cost env))
      (snd (http sv ''POST /api/v1/benchmark/submit'' (JObj [(''suite'', JStr suite)])
        (budget_consume_txn (ge_cfg env) (ge_caller env) (ge_benchmark_cost env) w)))"
    unfolding handle_run_benchmark_def suite_def [symmetric] http_def using assms
    by (simp add: Let_def resp_def [symmetric] split: sum.split json.split)
  show ?thesis unfolding acc run http_def snd_conv by blast
qed

lemma budget_consumed_sent [simp]: "budget_consumed c (w\<lparr>gw_sent := s\<rparr>) = budget_consumed c w"
  by (simp add: budget_consumed_def)

lemma next_lock_sent [simp]: "fst (next_lock (w\<lparr>gw_sent := s\<rparr>)) = fst (next_lock w)"
  by (simp add: next_lock.simps split: list.splits)

lemma budget_txn_locks:
  "gw_locks (budget_consume_txn cfg d a w) = tl (gw_locks w)"
  by (auto simp: budget_consume_txn_def next_lock.simps split_beta Let_def split: list.splits)

lemma next_lock_fst: "fst (next_lock w) = (case gw_locks w of [] \<Rightarrow> True | l # ls \<Rightarrow> l)"
  by (simp add: next_lock.simps split: list.splits)

text \<open>The two ledger transactions of a benchmark run see the next two lock outcomes.\<close>

lemma benchmark_budget:
  assumes "sv_host_up sv" and "gw_locks w = [l1, l2]"
  shows "budget_consumed (ge_caller env) (snd (handle_run_benchmark env sv args w)) =
    (let b = budget_consumed (ge_caller env) w;
         b1 = (if l1 then max 0 (b + ge_benchmark_cost env) else b)
     in if accepted sv args \<or> \<not> l2 then b1 else max 0 (b1 - ge_benchmark_cost env))"
proof -
  obtain sent where "snd (handle_run_benchmark env sv args w) =
     (if accepted sv args then id else safe_refund env (ge_benchmark_cost env))
       ((budget_consume_txn (ge_cfg env) (ge_caller env) (ge_benchmark_cost env) w)\<lparr>gw_sent := sent\<rparr>)"
    using benchmark_world [OF assms(1)] by blast
  then show ?thesis using assms(2)
    by (simp add: safe_refund_def budget_txn_budget next_lock_fst budget_txn_locks Let_def)
qed

text \<open>
  A benchmark run is charged once if and only if the host accepts it: when no lock is
  lost, the caller's cumulative budget rises by exactly the cost on acceptance and is what
  it was before when the host refuses, answers nonsense or cannot be reached.
\<close>

theorem benchmark_charged_iff_accepted:
  assumes "sv_host_up sv" and "gw_locks w = [True, True]"
    and "0 \<le> budget_consumed (ge_caller env) w" and "0 \<le> ge_benchmark_cost env"
  shows "budget_consumed (ge_caller env) (snd (handle_run_benchmark env sv args w)) =
    budget_consumed (ge_caller env) w + (if accepted sv args then ge_benchmark_cost env else 0)"
  using assms(3,4) by (simp add: benchmark_budget [OF assms(1,2)])

theorem benchmark_charged_iff_accepted_witness:
  "budget_consumed ''anonymous''
     (snd (handle_run_benchmark demo_env demo_services [] (demo_world\<lparr>gw_locks := [True, True]\<rparr>))) = 3"
proof -
  let ?w = "demo_world\<lparr>gw_locks := [True, True]\<rparr>"
  have env: "ge_caller demo_env = ''anonymous''" "ge_benchmark_cost demo_env = 3"
    by (simp_all add: demo_env_def)
  have "budget_consumed ''anonymous'' ?w = 0"
    by (simp add: budget_consumed_def demo_world_def load_ledger_def dget_default_def)
  moreover have "accepted demo_services []"
    by (simp add: accepted_def demo_services_def jget_def dget_default_def)
  ultimately show ?thesis
    using benchmark_charged_iff_accepted [of demo_services ?w demo_env "[]"]
    by (simp add: env demo_services_def)
qed

text \<open>
  When the lock is lost during the charge but not during the refund, a refused run
  leaves the caller with less consumed than before, although the ledger documents that a
  refund never gifts headroom; and an accepted run whose charge loses the lock is free.
\<close>

theorem lost_charge_gifts_headroom:
  "let w = snd (rate_txn demo_cfg ''anonymous'' (budget_consume_txn demo_cfg ''anonymous'' 5 demo_world));
       refusing = demo_services\<lparr>sv_http := \<lambda>_ _. Inl ''connection refused''\<rparr>
   in budget_consumed ''anonymous'' w = 5
      \<and> budget_consumed ''anonymous''
          (snd (handle_run_benchmark demo_env refusing [] (w\<lparr>gw_locks := [False, True]\<rparr>))) = 2
      \<and> budget_consumed ''anonymous''
          (snd (handle_run_benchmark demo_env demo_services [] (w\<lparr>gw_locks := [False, True]\<rparr>))) = 5"
proof -
  let ?w = "snd (rate_txn demo_cfg ''anonymous'' (budget_consume_txn demo_cfg ''anonymous'' 5 demo_world))"
  let ?refusing = "demo_services\<lparr>sv_http := \<lambda>_ _. Inl ''connection refused''\<rparr>"
  have "budget_consumed ''anonymous'' demo_world = 0"
    by (simp add: budget_consumed_def demo_world_def load_ledger_def dget_default_def)
  then have w: "budget_consumed ''anonymous'' ?w = 5"
    by (simp add: budget_txn_budget next_lock_fst demo_world_def)
  have env: "ge_caller demo_env = ''anonymous''" "ge_benchmark_cost demo_env = 3"
    by (simp_all add: demo_env_def)
  have up: "sv_host_up demo_services" "sv_host_up ?refusing" by (simp_all add: demo_services_def)
  have acc: "accepted demo_services []" "\<not> accepted ?refusing []"
    by (simp_all add: accepted_def demo_services_def jget_def dget_default_def)
  have locks: "budget_consumed c (?w\<lparr>gw_locks := ls\<rparr>) = budget_consumed c ?w" for c ls
    by (simp add: budget_consumed_def)
  show ?thesis
    using w benchmark_budget [OF up(1), of "?w\<lparr>gw_locks := [False, True]\<rparr>" False True demo_env "[]"]
      benchmark_budget [OF up(2), of "?w\<lparr>gw_locks := [False, True]\<rparr>" False True demo_env "[]"]
    by (simp add: env acc locks Let_def)
qed

text \<open>The requests a handler adds, and what a task submission among them carries.\<close>

definition conservative_submission :: "json \<Rightarrow> bool" where
  "conservative_submission payload \<longleftrightarrow>
     (\<exists>fields. payload = JObj fields
      \<and> jget fields ''execution_mode'' = JStr CONSERVATIVE_FRONTEND_MODE)"

definition adds_requests :: "gw_world \<Rightarrow> gw_world \<Rightarrow> bool" where
  "adds_requests w w' \<longleftrightarrow>
     (\<exists>added. gw_sent w' = gw_sent w @ added
      \<and> (\<forall>payload. (''POST /api/v1/task/submit'', payload) \<in> set added \<longrightarrow>
           conservative_submission payload))"

lemma adds_requests_none [simp]: "gw_sent w' = gw_sent w \<Longrightarrow> adds_requests w w'"
  by (simp add: adds_requests_def)

lemma adds_requests_one:
  "gw_sent w' = gw_sent w @ [(url, payload)] \<Longrightarrow>
   (url = ''POST /api/v1/task/submit'' \<Longrightarrow> conservative_submission payload) \<Longrightarrow> adds_requests w w'"
  by (auto simp: adds_requests_def)

lemma run_task_requests: "adds_requests w (snd (handle_run_task env sv args w))"
proof (cases "require_keys args [''prompt'', ''workspace_root''] = [] \<and> sv_host_up sv
    \<and> (\<exists>pid. sv_project_id sv (jget args ''workspace_root'') = Inr pid)")
  case True
  then obtain pid where "sv_project_id sv (jget args ''workspace_root'') = Inr pid" by blast
  with True show ?thesis
    by (intro adds_requests_one [of _ _ "''POST /api/v1/task/submit''"
          "JObj [(''task_prompt'', jget args ''prompt''), (''dirty_buffers'', JArr []),
             (''project_id'', JStr pid), (''workspace_root'', jget args ''workspace_root''),
             (''execution_mode'', JStr CONSERVATIVE_FRONTEND_MODE),
             (''request_id'', JStr (sv_request_uuid sv))]"])
      (simp_all add: handle_run_task_def http_def Let_def conservative_submission_def jget_def dget_default_def)
next
  case False
  then show ?thesis
    by (intro adds_requests_none) (auto simp: handle_run_task_def Let_def split: sum.split)
qed

lemma status_requests: "adds_requests w (snd (handle_check_task_status env sv args w))"
  by (cases "require_keys args [''task_id''] = [] \<and> sv_host_up sv")
    (auto simp: handle_check_task_status_def http_def Let_def adds_requests_def)

lemma report_requests: "adds_requests w (snd (handle_get_report env sv args w))"
  by (cases "require_keys args [''task_id''] = [] \<and> sv_host_up sv")
    (auto simp: handle_get_report_def http_def Let_def adds_requests_def)

lemma benchmark_requests: "adds_requests w (snd (handle_run_benchmark env sv args w))"
proof (cases "sv_host_up sv")
  case True
  then show ?thesis
    by (intro adds_requests_one [of _ _ "''POST /api/v1/benchmark/submit''"
          "JObj [(''suite'', JStr (if truthy (jget args ''suite'') then py_str sv (jget args ''suite'')
                                   else ''v1''))]"])
      (simp_all add: handle_run_benchmark_def http_def Let_def safe_refund_def
         split: sum.split json.split)
qed (simp add: handle_run_benchmark_def)

lemma query_requests:
  "adds_requests w (snd (handle_query_memory env sv args w))"
  "adds_requests w (snd (handle_get_dependents env sv args w))"
  "adds_requests w (snd (handle_get_workspace_graph env sv args w))"
  by (simp_all add: handle_query_memory_def handle_get_dependents_def
      handle_get_workspace_graph_def Let_def)

lemma handler_requests:
  "dget CAPABILITY_HANDLERS name = Some handle \<Longrightarrow> adds_requests w (snd (handle env sv args w))"
  using run_task_requests status_requests report_requests benchmark_requests query_requests
  by (auto simp: CAPABILITY_HANDLERS_def split: if_splits)

lemma run_handler_world:
  "snd (run_handler handlers env sv name args w) =
     (case dget handlers name of None \<Rightarrow> w | Some handle \<Rightarrow> snd (handle env sv args w))"
  by (simp add: run_handler_def split: option.split prod.split handler_outcome.split)

text \<open>
  An external caller cannot raise the posture of the task it submits: whatever the verb
  and the arguments, every submission the gateway sends to the host carries the frontend
  mode that the host resolves to the internal task mode, under which each mutating tier
  waits for the operator.
\<close>

theorem task_posture_fixed:
  assumes "(''POST /api/v1/task/submit'', payload)
      \<in> set (drop (length (gw_sent w))
                 (gw_sent (snd (dispatch_call CAPABILITY_HANDLERS env sv name args w))))"
    and "t \<noteq> READ_ONLY"
  shows "\<exists>fields m. payload = JObj fields \<and> jget fields ''execution_mode'' = JStr m
    \<and> session_mode_from_frontend (Some m) = Some (resolve_internal_task_mode args)
    \<and> evaluate_action (resolve_internal_task_mode args) t EDIT_EXECUTE_RBW = HITL"
proof -
  let ?w1 = "snd (rate_txn (ge_cfg env) (ge_caller env) w)"
  let ?w' = "snd (dispatch_call CAPABILITY_HANDLERS env sv name args w)"
  have "?w' \<in> {w, ?w1, snd (run_handler CAPABILITY_HANDLERS env sv name args ?w1)}"
    by (auto simp: dispatch_call_def Let_def split_beta split: option.splits decision.splits)
  moreover have "adds_requests ?w1 (snd (run_handler CAPABILITY_HANDLERS env sv name args ?w1))"
    unfolding run_handler_world using handler_requests by (auto split: option.split)
  ultimately have "adds_requests w ?w'" by (auto simp: adds_requests_def)
  with assms(1) have "conservative_submission payload" by (auto simp: adds_requests_def)
  moreover have "session_mode_from_frontend (Some CONSERVATIVE_FRONTEND_MODE) = Some CAUTIOUS"
    by code_simp
  moreover have "evaluate_action CAUTIOUS t EDIT_EXECUTE_RBW = HITL"
    using assms(2) by (cases t) (simp_all add: evaluate_action_cases)
  ultimately show ?thesis
    by (auto simp: conservative_submission_def resolve_internal_task_mode_def INTERNAL_TASK_MODE_def)
qed

definition demo_submission :: json where
  "demo_submission =
     JObj [(''task_prompt'', JStr ''fix it''), (''dirty_buffers'', JArr []), (''project_id'', JStr ''p1''),
           (''workspace_root'', JStr ''/w''), (''execution_mode'', JStr ''ask_before_edits''),
           (''request_id'', JStr ''r1'')]"

theorem task_posture_fixed_witness:
  "\<exists>fields m. demo_submission = JObj fields \<and> jget fields ''execution_mode'' = JStr m
    \<and> session_mode_from_frontend (Some m)
        = Some (resolve_internal_task_mode [(''prompt'', JStr ''fix it''), (''workspace_root'', JStr ''/w'')])
    \<and> evaluate_action (resolve_internal_task_mode [(''prompt'', JStr ''fix it''), (''workspace_root'', JStr ''/w'')])
        EXECUTE EDIT_EXECUTE_RBW = HITL"
proof (rule task_posture_fixed [of demo_submission demo_world demo_env demo_services "''run_task''"])
  show "(''POST /api/v1/task/submit'', demo_submission)
      \<in> set (drop (length (gw_sent demo_world))
          (gw_sent (snd (dispatch_call CAPABILITY_HANDLERS demo_env demo_services ''run_task''
             [(''prompt'', JStr ''fix it''), (''workspace_root'', JStr ''/w'')] demo_world))))"
    by code_simp
qed simp

end
