(* ===== verification/GraphState.thy ===== *)
theory GraphState
  imports Json Permissions "HOL-Library.Char_ord" "HOL-Library.List_Lexorder"
begin

text \<open>
  The shared state of the LangGraph flow (\<open>brain/state.py\<close>) and the two functions of
  \<open>agents/orchestrator.py\<close> that walk and mark the work breakdown. A node of the graph returns
  a dictionary of channel writes; here it returns a list of \<open>channel_write\<close>, and \<open>apply_delta\<close>
  merges them with each channel's reducer, which is what the graph runtime does with a
  node's result and also with the seed of a new turn on a thread that has a checkpoint.
  Only the channels that the modelled nodes read or write are fields. Dictionaries keyed by
  \<open>str(step_number)\<close> are keyed by the number itself.
\<close>

subsection \<open>The plan\<close>

datatype step_action = read_file | write_file | edit_file | run_command

datatype step_status =
    pending | in_progress | completed | failed | awaiting_approval | rejected
  | revision_requested

record wbs_step =
  step_number :: int
  st_target_role :: string
  st_action :: step_action
  st_target_file :: string
  st_description :: string
  st_status :: step_status
  st_requires_iteration :: bool
  st_depends_on :: "int list option"
  st_agent_notes :: "string option"

record mission =
  ms_outcome :: string
  ms_scope :: "string list"
  ms_constraints :: "string list"
  ms_decisions :: "string list"
  ms_tasks :: "wbs_step list"
  ms_checks :: "string list"
  ms_ubiquitous_language :: "(string, string) dict"
  ms_deep_modules_sdd :: "string option"
  ms_tdd_criteria :: "string list"

definition LEGACY_TO_NEW_ROLE :: "(string, string) dict" where
  "LEGACY_TO_NEW_ROLE =
     [(''Refactor'', ''architect_refactor''), (''Infra'', ''devops_infra''),
      (''Doc'', ''doc_manager''), (''SecOps'', ''secops''), (''Test'', ''qa_tester'')]"

definition CANONICAL_ROLES :: "string list" where
  "CANONICAL_ROLES = [''core_dev'', ''architect_refactor'', ''devops_infra'', ''secops'',
     ''qa_tester'', ''doc_manager'', ''vcs_manager'', ''data_ml_engineer'']"

definition DEFAULT_ROLE :: string where "DEFAULT_ROLE = ''core_dev''"

text \<open>The validator rewrites the role of the raw dictionary before the fields are checked.\<close>

definition migrate_legacy_target_role :: "json \<Rightarrow> json" where
  "migrate_legacy_target_role data =
     (case data of
        JObj d \<Rightarrow>
          (let d1 = (case jget d ''target_role'' of
                 JStr legacy \<Rightarrow> (case dget LEGACY_TO_NEW_ROLE legacy of
                     Some role \<Rightarrow> dset ''target_role'' (JStr role) d | None \<Rightarrow> d)
               | _ \<Rightarrow> d)
           in JObj (case jget d1 ''target_role'' of
                 JStr role \<Rightarrow> (if role \<notin> set CANONICAL_ROLES
                               then dset ''target_role'' (JStr DEFAULT_ROLE) d1 else d1)
               | _ \<Rightarrow> d1))
      | _ \<Rightarrow> data)"

text \<open>\<open>str(value)\<close> of a value that is not a text is Python's formatting, a parameter.\<close>

definition coerce_to_str :: "(json \<Rightarrow> string) \<Rightarrow> json \<Rightarrow> string" where
  "coerce_to_str py_str item =
     (case item of
        JStr s \<Rightarrow> s
      | JObj d \<Rightarrow> join ''; '' (map (\<lambda>(k, v). k @ '': '' @ (case v of JStr s \<Rightarrow> s | _ \<Rightarrow> py_str v)) d)
      | _ \<Rightarrow> py_str item)"

definition coerce_str_list :: "(json \<Rightarrow> string) \<Rightarrow> json \<Rightarrow> json" where
  "coerce_str_list py_str value =
     (case value of
        JArr els \<Rightarrow> JArr (map (\<lambda>el. JStr (coerce_to_str py_str el)) els)
      | JStr _ \<Rightarrow> JArr [JStr (coerce_to_str py_str value)]
      | JObj _ \<Rightarrow> JArr [JStr (coerce_to_str py_str value)]
      | _ \<Rightarrow> value)"

definition coerce_hallucinated_str_lists :: "(json \<Rightarrow> string) \<Rightarrow> json \<Rightarrow> json" where
  "coerce_hallucinated_str_lists py_str data =
     (case data of
        JObj d \<Rightarrow>
          JObj (fold (\<lambda>field d'. case jget d' field of JNull \<Rightarrow> d'
                        | v \<Rightarrow> dset field (coerce_str_list py_str v) d')
             [''scope'', ''constraints'', ''decisions'', ''checks'', ''tdd_criteria''] d)
      | _ \<Rightarrow> data)"

definition to_context_block :: "mission \<Rightarrow> nat \<Rightarrow> nat \<Rightarrow> string" where
  "to_context_block self max_entries max_chars =
     (let lines = map (\<lambda>item. ''- Decision: '' @ item) (take max_entries (ms_decisions self))
                @ map (\<lambda>item. ''- Constraint: '' @ item) (take max_entries (ms_constraints self))
      in if lines = [] then []
         else (let body = join [CHR 0x0A] lines;
                   body = (if max_chars < length body
                           then rstrip (take max_chars body) @ '' '' @ [CHR 0x85] else body)
               in ''MISSION CONTEXT (binding '' @ [CHR 0x97]
                  @ '' decisions already made for this build):'' @ [CHR 0x0A] @ body))"

definition is_dispatchable :: "wbs_step \<Rightarrow> wbs_step list option \<Rightarrow> bool" where
  "is_dispatchable step all_steps \<longleftrightarrow>
     st_status step \<in> {pending, revision_requested} \<and>
     (case (st_depends_on step, all_steps) of
        (Some depends_on, Some steps) \<Rightarrow>
          list_all (\<lambda>dep. dep \<in> set (map step_number
             (filter (\<lambda>s. st_status s = completed) steps))) depends_on
      | _ \<Rightarrow> True)"

definition is_terminal :: "wbs_step \<Rightarrow> bool" where
  "is_terminal step \<longleftrightarrow> st_status step \<in> {completed, failed, rejected}"

definition mark_step_status :: "mission \<Rightarrow> int \<Rightarrow> step_status \<Rightarrow> mission" where
  "mark_step_status mission n new_status =
     mission\<lparr>ms_tasks := map (\<lambda>step. if step_number step = n then step\<lparr>st_status := new_status\<rparr>
                                     else step) (ms_tasks mission)\<rparr>"

definition pick_next_step :: "wbs_step list \<Rightarrow> wbs_step option" where
  "pick_next_step tasks = find (\<lambda>step. st_status step \<notin> {completed, failed}) tasks"

subsection \<open>The values of the channels\<close>

record vfs_file =
  vf_blob_hash :: string
  vf_document_version_id :: string
  vf_is_dirty :: bool

datatype apply_kind = FILE_WRITE | COMMAND_EXECUTE | RISK_INTERCEPT

record apply_file =
  af_file_path :: string
  af_unified_diff :: string
  af_base_hash :: "string option"

record apply_envelope =
  ae_step_number :: int
  ae_kind :: apply_kind
  ae_decision :: decision
  ae_command :: "string option"
  ae_files :: "apply_file list"
  ae_risk_labels :: "string list"
  ae_auto_accept :: bool
  ae_blast_radius_files :: "string list"
  ae_attempt :: int

record log_entry =
  le_file_path :: "string option"
  le_command :: "string option"
  le_status :: step_status
  le_exit_code :: "int option"
  le_step_number :: int

record feedback =
  fb_step_number :: int
  fb_comment :: string
  fb_attempt :: int

record exec_context =
  ec_command :: string
  ec_exit_code :: int
  ec_stdout_tail :: string
  ec_stderr_tail :: string

datatype check_status = check_passed | check_failed | check_unverified

record check_result =
  cr_check :: string
  cr_command :: "string option"
  cr_status :: check_status
  cr_detail :: "string option"

record message =
  msg_replace :: bool
  msg_role :: string
  msg_content :: string

subsection \<open>Reducers\<close>

text \<open>The larger version id wins, compared as texts are compared in Python.\<close>

definition merge_vfs ::
  "(string, vfs_file) dict \<Rightarrow> (string, vfs_file) dict \<Rightarrow> (string, vfs_file) dict" where
  "merge_vfs left right =
     fold (\<lambda>(path, file) merged.
         case dget merged path of
           None \<Rightarrow> dset path file merged
         | Some old \<Rightarrow> if vf_document_version_id old < vf_document_version_id file
                       then dset path file merged else merged) right left"

definition merge_generated_code ::
  "(string, vfs_file) dict \<Rightarrow> (string, vfs_file) dict \<Rightarrow> (string, vfs_file) dict" where
  "merge_generated_code left right =
     fold (\<lambda>(path, file) merged.
         case dget merged path of
           None \<Rightarrow> dset path file merged
         | Some old \<Rightarrow> if vf_document_version_id old < vf_document_version_id file
                       then dset path file merged else merged) right left"

definition merge_messages :: "message list \<Rightarrow> message list \<Rightarrow> message list" where
  "merge_messages existing update =
     (case update of
        m # _ \<Rightarrow> if msg_replace m then filter (\<lambda>m. \<not> msg_replace m) update else existing @ update
      | [] \<Rightarrow> existing @ update)"

definition resolve_step_id :: "int option \<Rightarrow> int option \<Rightarrow> int option" where
  "resolve_step_id left right =
     (case (left, right) of
        (None, _) \<Rightarrow> right
      | (Some l, None) \<Rightarrow> left
      | (Some l, Some r) \<Rightarrow> Some (max l r))"

definition resolve_target_role :: "string option \<Rightarrow> string option \<Rightarrow> string option" where
  "resolve_target_role left right = (case right of Some _ \<Rightarrow> right | None \<Rightarrow> left)"

definition merge_todos :: "string list option \<Rightarrow> string list option \<Rightarrow> string list" where
  "merge_todos left right =
     (case right of Some todos \<Rightarrow> todos | None \<Rightarrow> or_else left [])"

subsection \<open>The channels and their writes\<close>

text \<open>
  An absent optional channel reads as \<open>None\<close>; \<open>max_budget_usd = None\<close> is the infinite default.
  Of \<open>context_metrics\<close> only the routing decision and the CSS total are kept, of
  \<open>dispatch_plan\<close> only whether there is one, of a profile its model name and of a TODO item
  its content.
\<close>

record graph_state =
  task_id :: string
  project_id :: "string option"
  workspace_root :: "string option"
  messages :: "message list"
  active_llm_profile :: "string option"
  target_role :: "string option"
  current_step_id :: "int option"
  planner_mode_active :: bool
  hitl_pending :: bool
  hitl_response :: "string option"
  ideation_synthesized :: bool
  confirmed_routing_decision :: "string option"
  context_routing_decision :: "string option"
  context_css_total :: "rat option"
  mission_spec :: "mission option"
  vfs_buffer :: "(string, vfs_file) dict"
  css :: rat
  parallel_tasks :: "wbs_step list"
  provider :: string
  generated_code :: "(string, vfs_file) dict"
  errors :: "string list"
  retry_count :: int
  security_flags :: "string list"
  guardrail_failed :: bool
  validation_feedback :: "string option"
  pending_patches :: "(string, string) dict"
  pending_contents :: "(string, string) dict"
  pending_base_hash :: "(string, string) dict"
  pending_step_files :: "(int, string list) dict"
  pending_step_command :: "(int, string) dict"
  pending_apply :: "apply_envelope option"
  apply_feedback :: "feedback option"
  apply_attempts :: "(int, int) dict"
  applied_step_ids :: "int list"
  applied_files_log :: "log_entry list"
  auto_accept_low_risk :: bool
  check_results :: "check_result list"
  current_cost_usd :: rat
  max_budget_usd :: "rat option"
  effort_level :: "string option"
  active_role :: "string option"
  error_streak :: int
  circuit_breaker_tripped :: bool
  cloud_surgeon_invocations :: int
  session_permission_mode :: "string option"
  accumulated_session_cost :: rat
  session_max_budget_usd :: "rat option"
  oom_fallback_active :: bool
  hitl_audit_chain_head :: "string option"
  healing_required :: bool
  correction_attempts :: int
  last_error_trace :: "string option"
  failed_node :: "string option"
  failure_signature :: "string option"
  last_execution_context :: "exec_context option"
  agent_todos :: "string list"
  dispatch_plan_present :: bool

datatype channel_write =
    W_task_id string
  | W_project_id "string option"
  | W_workspace_root "string option"
  | W_messages "message list"
  | W_active_llm_profile "string option"
  | W_target_role "string option"
  | W_current_step_id "int option"
  | W_planner_mode_active bool
  | W_hitl_pending bool
  | W_hitl_response "string option"
  | W_ideation_synthesized bool
  | W_confirmed_routing_decision "string option"
  | W_context_routing_decision "string option"
  | W_context_css_total "rat option"
  | W_mission_spec "mission option"
  | W_vfs_buffer "(string, vfs_file) dict"
  | W_css rat
  | W_parallel_tasks "wbs_step list"
  | W_provider string
  | W_generated_code "(string, vfs_file) dict"
  | W_errors "string list"
  | W_retry_count int
  | W_security_flags "string list"
  | W_guardrail_failed bool
  | W_validation_feedback "string option"
  | W_pending_patches "(string, string) dict"
  | W_pending_contents "(string, string) dict"
  | W_pending_base_hash "(string, string) dict"
  | W_pending_step_files "(int, string list) dict"
  | W_pending_step_command "(int, string) dict"
  | W_pending_apply "apply_envelope option"
  | W_apply_feedback "feedback option"
  | W_apply_attempts "(int, int) dict"
  | W_applied_step_ids "int list"
  | W_applied_files_log "log_entry list"
  | W_auto_accept_low_risk bool
  | W_check_results "check_result list"
  | W_current_cost_usd rat
  | W_max_budget_usd "rat option"
  | W_effort_level "string option"
  | W_active_role "string option"
  | W_error_streak int
  | W_circuit_breaker_tripped bool
  | W_cloud_surgeon_invocations int
  | W_session_permission_mode "string option"
  | W_accumulated_session_cost rat
  | W_session_max_budget_usd "rat option"
  | W_oom_fallback_active bool
  | W_hitl_audit_chain_head "string option"
  | W_healing_required bool
  | W_correction_attempts int
  | W_last_error_trace "string option"
  | W_failed_node "string option"
  | W_failure_signature "string option"
  | W_last_execution_context "exec_context option"
  | W_agent_todos "string list option"
  | W_dispatch_plan_present bool

fun apply_write :: "channel_write \<Rightarrow> graph_state \<Rightarrow> graph_state" where
  "apply_write (W_task_id v) s = s\<lparr>task_id := v\<rparr>"
| "apply_write (W_project_id v) s = s\<lparr>project_id := v\<rparr>"
| "apply_write (W_workspace_root v) s = s\<lparr>workspace_root := v\<rparr>"
| "apply_write (W_messages v) s = s\<lparr>messages := merge_messages (messages s) v\<rparr>"
| "apply_write (W_active_llm_profile v) s = s\<lparr>active_llm_profile := v\<rparr>"
| "apply_write (W_target_role v) s = s\<lparr>target_role := resolve_target_role (target_role s) v\<rparr>"
| "apply_write (W_current_step_id v) s = s\<lparr>current_step_id := resolve_step_id (current_step_id s) v\<rparr>"
| "apply_write (W_planner_mode_active v) s = s\<lparr>planner_mode_active := v\<rparr>"
| "apply_write (W_hitl_pending v) s = s\<lparr>hitl_pending := v\<rparr>"
| "apply_write (W_hitl_response v) s = s\<lparr>hitl_response := v\<rparr>"
| "apply_write (W_ideation_synthesized v) s = s\<lparr>ideation_synthesized := v\<rparr>"
| "apply_write (W_confirmed_routing_decision v) s = s\<lparr>confirmed_routing_decision := v\<rparr>"
| "apply_write (W_context_routing_decision v) s = s\<lparr>context_routing_decision := v\<rparr>"
| "apply_write (W_context_css_total v) s = s\<lparr>context_css_total := v\<rparr>"
| "apply_write (W_mission_spec v) s = s\<lparr>mission_spec := v\<rparr>"
| "apply_write (W_vfs_buffer v) s = s\<lparr>vfs_buffer := merge_vfs (vfs_buffer s) v\<rparr>"
| "apply_write (W_css v) s = s\<lparr>css := v\<rparr>"
| "apply_write (W_parallel_tasks v) s = s\<lparr>parallel_tasks := v\<rparr>"
| "apply_write (W_provider v) s = s\<lparr>provider := v\<rparr>"
| "apply_write (W_generated_code v) s = s\<lparr>generated_code := merge_generated_code (generated_code s) v\<rparr>"
| "apply_write (W_errors v) s = s\<lparr>errors := errors s @ v\<rparr>"
| "apply_write (W_retry_count v) s = s\<lparr>retry_count := v\<rparr>"
| "apply_write (W_security_flags v) s = s\<lparr>security_flags := security_flags s @ v\<rparr>"
| "apply_write (W_guardrail_failed v) s = s\<lparr>guardrail_failed := v\<rparr>"
| "apply_write (W_validation_feedback v) s = s\<lparr>validation_feedback := v\<rparr>"
| "apply_write (W_pending_patches v) s = s\<lparr>pending_patches := dict_or (pending_patches s) v\<rparr>"
| "apply_write (W_pending_contents v) s = s\<lparr>pending_contents := dict_or (pending_contents s) v\<rparr>"
| "apply_write (W_pending_base_hash v) s = s\<lparr>pending_base_hash := dict_or (pending_base_hash s) v\<rparr>"
| "apply_write (W_pending_step_files v) s = s\<lparr>pending_step_files := dict_or (pending_step_files s) v\<rparr>"
| "apply_write (W_pending_step_command v) s = s\<lparr>pending_step_command := dict_or (pending_step_command s) v\<rparr>"
| "apply_write (W_pending_apply v) s = s\<lparr>pending_apply := v\<rparr>"
| "apply_write (W_apply_feedback v) s = s\<lparr>apply_feedback := v\<rparr>"
| "apply_write (W_apply_attempts v) s = s\<lparr>apply_attempts := dict_or (apply_attempts s) v\<rparr>"
| "apply_write (W_applied_step_ids v) s = s\<lparr>applied_step_ids := applied_step_ids s @ v\<rparr>"
| "apply_write (W_applied_files_log v) s = s\<lparr>applied_files_log := applied_files_log s @ v\<rparr>"
| "apply_write (W_auto_accept_low_risk v) s = s\<lparr>auto_accept_low_risk := v\<rparr>"
| "apply_write (W_check_results v) s = s\<lparr>check_results := check_results s @ v\<rparr>"
| "apply_write (W_current_cost_usd v) s = s\<lparr>current_cost_usd := current_cost_usd s + v\<rparr>"
| "apply_write (W_max_budget_usd v) s = s\<lparr>max_budget_usd := v\<rparr>"
| "apply_write (W_effort_level v) s = s\<lparr>effort_level := v\<rparr>"
| "apply_write (W_active_role v) s = s\<lparr>active_role := v\<rparr>"
| "apply_write (W_error_streak v) s = s\<lparr>error_streak := v\<rparr>"
| "apply_write (W_circuit_breaker_tripped v) s = s\<lparr>circuit_breaker_tripped := v\<rparr>"
| "apply_write (W_cloud_surgeon_invocations v) s = s\<lparr>cloud_surgeon_invocations := cloud_surgeon_invocations s + v\<rparr>"
| "apply_write (W_session_permission_mode v) s = s\<lparr>session_permission_mode := v\<rparr>"
| "apply_write (W_accumulated_session_cost v) s = s\<lparr>accumulated_session_cost := v\<rparr>"
| "apply_write (W_session_max_budget_usd v) s = s\<lparr>session_max_budget_usd := v\<rparr>"
| "apply_write (W_oom_fallback_active v) s = s\<lparr>oom_fallback_active := v\<rparr>"
| "apply_write (W_hitl_audit_chain_head v) s = s\<lparr>hitl_audit_chain_head := v\<rparr>"
| "apply_write (W_healing_required v) s = s\<lparr>healing_required := v\<rparr>"
| "apply_write (W_correction_attempts v) s = s\<lparr>correction_attempts := v\<rparr>"
| "apply_write (W_last_error_trace v) s = s\<lparr>last_error_trace := v\<rparr>"
| "apply_write (W_failed_node v) s = s\<lparr>failed_node := v\<rparr>"
| "apply_write (W_failure_signature v) s = s\<lparr>failure_signature := v\<rparr>"
| "apply_write (W_last_execution_context v) s = s\<lparr>last_execution_context := v\<rparr>"
| "apply_write (W_agent_todos v) s = s\<lparr>agent_todos := merge_todos (Some (agent_todos s)) v\<rparr>"
| "apply_write (W_dispatch_plan_present v) s = s\<lparr>dispatch_plan_present := v\<rparr>"

type_synonym delta = "channel_write list"

definition apply_delta :: "delta \<Rightarrow> graph_state \<Rightarrow> graph_state" where
  "apply_delta d s = fold apply_write d s"

lemma apply_delta_Nil [simp]: "apply_delta [] s = s"
  by (simp add: apply_delta_def)

lemma apply_delta_Cons [simp]: "apply_delta (w # d) s = apply_delta d (apply_write w s)"
  by (simp add: apply_delta_def)

lemma apply_delta_append: "apply_delta (d @ e) s = apply_delta e (apply_delta d s)"
  by (simp add: apply_delta_def)

text \<open>A thread without a checkpoint.\<close>

definition fresh_state :: graph_state where
  "fresh_state = \<lparr>
     task_id = [],
     project_id = None,
     workspace_root = None,
     messages = [],
     active_llm_profile = None,
     target_role = None,
     current_step_id = None,
     planner_mode_active = False,
     hitl_pending = False,
     hitl_response = None,
     ideation_synthesized = False,
     confirmed_routing_decision = None,
     context_routing_decision = None,
     context_css_total = None,
     mission_spec = None,
     vfs_buffer = [],
     css = 100,
     parallel_tasks = [],
     provider = ''CLOUD'',
     generated_code = [],
     errors = [],
     retry_count = 0,
     security_flags = [],
     guardrail_failed = False,
     validation_feedback = None,
     pending_patches = [],
     pending_contents = [],
     pending_base_hash = [],
     pending_step_files = [],
     pending_step_command = [],
     pending_apply = None,
     apply_feedback = None,
     apply_attempts = [],
     applied_step_ids = [],
     applied_files_log = [],
     auto_accept_low_risk = False,
     check_results = [],
     current_cost_usd = 0,
     max_budget_usd = None,
     effort_level = None,
     active_role = None,
     error_streak = 0,
     circuit_breaker_tripped = False,
     cloud_surgeon_invocations = 0,
     session_permission_mode = None,
     accumulated_session_cost = 0,
     session_max_budget_usd = None,
     oom_fallback_active = False,
     hitl_audit_chain_head = None,
     healing_required = False,
     correction_attempts = 0,
     last_error_trace = None,
     failed_node = None,
     failure_signature = None,
     last_execution_context = None,
     agent_todos = [],
     dispatch_plan_present = False\<rparr>"

end
