(* ===== verification/PyText.thy ===== *)
theory PyText
  imports Prelude
begin

text \<open>
  Rendering and cutting of texts as Python does it: \<open>str\<close> of an integer, \<open>splitlines\<close> with its
  line ends kept or dropped (for the ASCII line boundaries), and the truthiness of texts.
\<close>

fun show_nat :: "nat \<Rightarrow> string" where
  "show_nat n =
     (if n < 10 then [char_of (48 + n)] else show_nat (n div 10) @ [char_of (48 + n mod 10)])"

declare show_nat.simps [simp del]

definition show_int :: "int \<Rightarrow> string" where
  "show_int i = (if i < 0 then CHR ''-'' # show_nat (nat (- i)) else show_nat (nat i))"

text \<open>
  \<open>s.splitlines(keepends=True)\<close>: a line ends after LF, CR, CR LF, or one of the other ASCII
  boundaries (VT, FF, FS, GS, RS).
\<close>

definition line_boundary :: "char \<Rightarrow> bool" where
  "line_boundary c \<longleftrightarrow> (of_char c :: nat) \<in> {10, 11, 12, 13, 28, 29, 30}"

fun splitlines_keep :: "string \<Rightarrow> string list" where
  "splitlines_keep [] = []"
| "splitlines_keep (c # s) =
     (if c = CHR 0x0D \<and> (case s of d # _ \<Rightarrow> d = CHR 0x0A | [] \<Rightarrow> False)
      then (case splitlines_keep s of l # ls \<Rightarrow> (c # l) # ls | [] \<Rightarrow> [[c]])
      else if line_boundary c then [c] # splitlines_keep s
      else (case splitlines_keep s of [] \<Rightarrow> [[c]] | l # ls \<Rightarrow> (c # l) # ls))"

lemma concat_splitlines_keep [simp]: "concat (splitlines_keep s) = s"
proof (induction s)
  case Nil
  then show ?case by simp
next
  case (Cons c s)
  then show ?case by (cases "splitlines_keep s") auto
qed

lemma splitlines_keep_nonempty: "l \<in> set (splitlines_keep s) \<Longrightarrow> l \<noteq> []"
proof (induction s arbitrary: l)
  case Nil
  then show ?case by simp
next
  case (Cons c s)
  then show ?case by (cases "splitlines_keep s") (auto split: if_splits)
qed

text \<open>\<open>s.splitlines()\<close> drops the line ends.\<close>

definition chomp :: "string \<Rightarrow> string" where
  "chomp l =
     (if l \<noteq> [] \<and> line_boundary (last l)
      then (let b = butlast l in
            if last l = CHR 0x0A \<and> b \<noteq> [] \<and> last b = CHR 0x0D then butlast b else b)
      else l)"

definition splitlines :: "string \<Rightarrow> string list" where
  "splitlines s = map chomp (splitlines_keep s)"

text \<open>\<open>s[-n:]\<close> for a positive \<open>n\<close>.\<close>

definition last_chars :: "nat \<Rightarrow> string \<Rightarrow> string" where
  "last_chars n s = drop (length s - n) s"

lemma length_last_chars: "length (last_chars n s) = min n (length s)"
  by (simp add: last_chars_def)

lemma split_on_join:
  assumes "list_all (\<lambda>w. d \<notin> set w) ws" and "ws \<noteq> []"
  shows "split_on d (join [d] ws) = ws"
proof -
  have word: "d \<notin> set w \<Longrightarrow> split_on d (w @ d # s) = w # split_on d s"
    and last: "d \<notin> set w \<Longrightarrow> split_on d w = [w]" for w s
    by (induction w) auto
  show ?thesis using assms
  proof (induction ws)
    case (Cons w ws)
    then show ?case by (cases ws) (simp_all add: word last)
  qed simp
qed

text \<open>\<open>s.endswith(t)\<close>.\<close>

definition ends_with :: "string \<Rightarrow> string \<Rightarrow> bool" where
  "ends_with s t \<longleftrightarrow> starts_with (rev s) (rev t)"

lemma ends_with_iff: "ends_with s t \<longleftrightarrow> (\<exists>r. s = r @ t)"
  by (auto simp: ends_with_def starts_with_iff) (metis rev_append rev_rev_ident)

text \<open>\<open>s.replace("\r\n", "\n").replace("\r", "\n")\<close>.\<close>

fun normalize_eol :: "string \<Rightarrow> string" where
  "normalize_eol [] = []"
| "normalize_eol (c # s) =
     (if c = CHR 0x0D then (if starts_with s [CHR 0x0A] then normalize_eol s else CHR 0x0A # normalize_eol s)
      else c # normalize_eol s)"

end
