(* ===== verification/PlanFlow.thy ===== *)
theory PlanFlow
  imports GraphState PyText
begin

text \<open>
  Lifecycle of the plan: the deterministic orchestrator (\<open>agents/orchestrator.py\<close>), the seed a
  new turn writes on the session's thread (\<open>core/task_service.py\<close>), and the lemmas on steps,
  marks and reducers that the nodes of the graph share.
\<close>

subsection \<open>Lemmas on steps and plans\<close>

lemma mark_step_status_fields [simp]:
  "ms_checks (mark_step_status m n st) = ms_checks m"
  "map step_number (ms_tasks (mark_step_status m n st)) = map step_number (ms_tasks m)"
  "ms_tasks (mark_step_status m n st) = [] \<longleftrightarrow> ms_tasks m = []"
  by (auto simp: mark_step_status_def)

lemma mark_step_status_other:
  "s \<in> set (ms_tasks m) \<Longrightarrow> step_number s \<noteq> n \<Longrightarrow> s \<in> set (ms_tasks (mark_step_status m n st))"
  unfolding mark_step_status_def by (simp add: image_iff)

lemma mark_step_status_marked:
  assumes "s \<in> set (ms_tasks (mark_step_status m n st))" and "step_number s = n"
  shows "st_status s = st"
proof -
  have "ms_tasks (mark_step_status m n st)
      = map (\<lambda>s. if step_number s = n then s\<lparr>st_status := st\<rparr> else s) (ms_tasks m)"
    by (simp add: mark_step_status_def)
  with assms(1) have "s \<in> (\<lambda>s. if step_number s = n then s\<lparr>st_status := st\<rparr> else s) ` set (ms_tasks m)"
    by (simp only: set_map)
  then obtain s0 where "s = (if step_number s0 = n then s0\<lparr>st_status := st\<rparr> else s0)"
    by (rule imageE)
  with assms(2) show ?thesis by (cases "step_number s0 = n") simp_all
qed

lemma mark_step_status_idem:
  "mark_step_status (mark_step_status m n a) n b = mark_step_status m n b"
  by (simp add: mark_step_status_def)

definition step_of :: "mission \<Rightarrow> int \<Rightarrow> wbs_step option" where
  "step_of m n = find (\<lambda>t. step_number t = n) (ms_tasks m)"

lemma step_of_mark:
  "step_of (mark_step_status m n st) k =
     (if k = n then map_option (\<lambda>s. s\<lparr>st_status := st\<rparr>) (step_of m k) else step_of m k)"
proof -
  have "find (\<lambda>t. step_number t = k)
      (map (\<lambda>s. if step_number s = n then s\<lparr>st_status := st\<rparr> else s) ts) =
    (if k = n then map_option (\<lambda>s. s\<lparr>st_status := st\<rparr>) (find (\<lambda>t. step_number t = k) ts)
     else find (\<lambda>t. step_number t = k) ts)" for ts
    by (induction ts) auto
  from this [of "ms_tasks m"] show ?thesis
    unfolding step_of_def mark_step_status_def by simp
qed

lemma step_of_in: "step_of m n = Some s \<Longrightarrow> s \<in> set (ms_tasks m) \<and> step_number s = n"
  by (auto simp: step_of_def find_Some_iff)

lemma terminal_not_dispatchable: "is_terminal s \<Longrightarrow> \<not> is_dispatchable s all"
  by (auto simp: is_terminal_def is_dispatchable_def)

subsection \<open>The orchestrator\<close>

definition MAX_RETRIES :: int where "MAX_RETRIES = 2"
definition RED_ALERT_CSS :: rat where "RED_ALERT_CSS = 40"
definition FLAG_BOUNDED_FAILURE :: string where "FLAG_BOUNDED_FAILURE = ''BOUNDED_FAILURE_LIMIT_REACHED''"
definition FLAG_RED_ALERT :: string where "FLAG_RED_ALERT = ''RED_ALERT_ORCHESTRATOR''"
definition FLAG_ALL_COMPLETE :: string where "FLAG_ALL_COMPLETE = ''ALL_WBS_STEPS_COMPLETE''"

text \<open>Both shapes of \<open>context_metrics\<close> come down to an optional CSS total.\<close>

definition safe_get_css :: "rat option \<Rightarrow> rat \<Rightarrow> rat" where
  "safe_get_css metrics fallback = or_else metrics fallback"

definition run_orchestrator_node :: "graph_state \<Rightarrow> delta" where
  "run_orchestrator_node state =
     (case mission_spec state of
        None \<Rightarrow> [W_errors [''Orchestrator: missing mission_spec or empty tasks.'']]
      | Some mission \<Rightarrow>
          if ms_tasks mission = []
          then [W_errors [''Orchestrator: missing mission_spec or empty tasks.'']]
          else (case pick_next_step (ms_tasks mission) of
                  None \<Rightarrow> [W_security_flags [FLAG_ALL_COMPLETE], W_current_step_id None,
                           W_target_role None]
                | Some active \<Rightarrow>
                    if MAX_RETRIES < retry_count state
                    then [W_mission_spec (Some (mark_step_status mission (step_number active) failed)),
                          W_hitl_pending True, W_security_flags [FLAG_BOUNDED_FAILURE],
                          W_errors [''Orchestrator: step '' @ show_int (step_number active) @ '' (''
                            @ st_target_role active @ '') failed after ''
                            @ show_int (retry_count state) @ '' retries (cap=''
                            @ show_int MAX_RETRIES @ '').''],
                          W_retry_count 0, W_current_step_id (Some (step_number active)),
                          W_target_role (Some (st_target_role active))]
                    else (let css_total = safe_get_css (context_css_total state) (css state);
                              flags = (if css_total < RED_ALERT_CSS then [W_security_flags [FLAG_RED_ALERT]]
                                       else [])
                          in if st_status active = in_progress
                             then [W_current_step_id (Some (step_number active)),
                                   W_target_role (Some (st_target_role active))] @ flags
                             else [W_mission_spec (Some (mark_step_status mission (step_number active)
                                                           in_progress)),
                                   W_current_step_id (Some (step_number active)),
                                   W_target_role (Some (st_target_role active))] @ flags)))"

subsection \<open>The seed of a turn\<close>

record task_payload =
  tp_project_id :: "string option"
  tp_workspace_root :: "string option"
  tp_planner_mode_active :: bool
  tp_execution_mode :: "string option"
  tp_auto_accept_low_risk :: bool
  tp_accepted_plan :: bool

text \<open>
  \<open>pref_mode\<close> is the permission mode of the settings file (\<open>None\<close> when reading it fails) and
  \<open>max_budget\<close> the environment's ceiling. \<open>has_mission\<close> is the answer of
  \<open>_checkpoint_has_mission\<close>.
\<close>

definition build_initial_state ::
  "string \<Rightarrow> task_payload \<Rightarrow> string option \<Rightarrow> string option \<Rightarrow> rat option \<Rightarrow> bool \<Rightarrow> delta" where
  "build_initial_state session_id payload effort pref_mode max_budget has_mission =
     [W_task_id session_id, W_project_id (tp_project_id payload), W_messages [], W_css 100,
      W_planner_mode_active (tp_planner_mode_active payload),
      W_workspace_root (Some (str_or (tp_workspace_root payload) [])),
      W_hitl_pending False, W_hitl_response None, W_ideation_synthesized False,
      W_target_role None, W_current_step_id None, W_parallel_tasks [], W_vfs_buffer [],
      W_effort_level effort, W_provider ''CLOUD'', W_generated_code [], W_errors [],
      W_applied_files_log [], W_applied_step_ids [], W_check_results [], W_retry_count 0,
      W_security_flags [], W_guardrail_failed False, W_validation_feedback None,
      W_pending_patches [], W_current_cost_usd 0, W_max_budget_usd max_budget,
      W_auto_accept_low_risk (tp_auto_accept_low_risk payload)]
     @ (if \<not> (tp_accepted_plan payload \<and> has_mission) then [W_mission_spec None] else [])
     @ (case session_mode_from_frontend (tp_execution_mode payload) of
          Some selector \<Rightarrow> [W_session_permission_mode (Some (upper (mode_value selector)))]
        | None \<Rightarrow>
            (case pref_mode of
               None \<Rightarrow> []
             | Some pref \<Rightarrow>
                 if lower (upper pref) \<in> set (map mode_value session_modes)
                 then [W_session_permission_mode (Some (upper pref))] else []))"

subsection \<open>Properties\<close>

text \<open>
  The seed of a turn does not start the turn afresh, although its comments say that the
  ledgers would otherwise carry across turns: writing an empty list to an accumulating
  channel, zero to a summing one and \<open>None\<close> to the step pointer leaves all of them as the
  previous turn left them, whatever the payload.
\<close>

theorem turn_seed_keeps_ledgers:
  "let t = apply_delta (build_initial_state sid payload effort pref max_budget has_mission) s in
     applied_step_ids t = applied_step_ids s \<and> applied_files_log t = applied_files_log s
     \<and> check_results t = check_results s \<and> errors t = errors s
     \<and> security_flags t = security_flags s \<and> current_cost_usd t = current_cost_usd s
     \<and> current_step_id t = current_step_id s \<and> target_role t = target_role s
     \<and> healing_required t = healing_required s
     \<and> correction_attempts t = correction_attempts s"
proof -
  have step: "resolve_step_id a None = a" for a by (simp add: resolve_step_id_def split: option.split)
  have role: "resolve_target_role a None = a" for a by (simp add: resolve_target_role_def)
  show ?thesis
    unfolding build_initial_state_def Let_def
    by (simp add: apply_delta_append step role split: option.split)
qed

lemma dget_merge_vfs_absent:
  "p \<notin> set (dkeys right) \<Longrightarrow> dget (merge_vfs left right) p = dget left p"
proof (induction right arbitrary: left)
  case Nil
  then show ?case by (simp add: merge_vfs_def)
next
  case (Cons e right)
  obtain k f where e: "e = (k, f)" by (cases e)
  let ?l = "case dget left k of None \<Rightarrow> dset k f left
    | Some old \<Rightarrow> if vf_document_version_id old < vf_document_version_id f then dset k f left else left"
  have "merge_vfs left (e # right) = merge_vfs ?l right" by (simp add: merge_vfs_def e)
  moreover have "dget ?l p = dget left p"
    using Cons.prems e by (auto simp: dget_dset split: option.splits)
  ultimately show ?case using Cons.IH [of ?l] Cons.prems e by simp
qed

text \<open>
  Concurrent writes of a file merge to the latest: after merging a branch's buffer, each
  path holds the incoming file exactly when the path was free or the incoming version id is
  larger, and otherwise the file that was there, so a slower branch never overwrites a newer
  edit and paths outside the branch are untouched.
\<close>

theorem merge_vfs_keeps_latest:
  assumes "distinct (dkeys right)"
  shows "dget (merge_vfs left right) p =
    (case (dget left p, dget right p) of
       (old, None) \<Rightarrow> old
     | (None, Some new) \<Rightarrow> Some new
     | (Some old, Some new) \<Rightarrow>
         Some (if vf_document_version_id old < vf_document_version_id new then new else old))"
  using assms
proof (induction right arbitrary: left)
  case Nil
  then show ?case by (simp add: merge_vfs_def split: option.split)
next
  case (Cons e right)
  obtain k f where e: "e = (k, f)" by (cases e)
  let ?l = "case dget left k of None \<Rightarrow> dset k f left
    | Some old \<Rightarrow> if vf_document_version_id old < vf_document_version_id f then dset k f left else left"
  have step: "merge_vfs left (e # right) = merge_vfs ?l right" by (simp add: merge_vfs_def e)
  show ?case
  proof (cases "p = k")
    case True
    with Cons.prems e have "dget (merge_vfs ?l right) p = dget ?l p"
      by (intro dget_merge_vfs_absent) simp
    with True step e show ?thesis by (auto simp: dget_dset split: option.splits)
  next
    case False
    then have "dget ?l p = dget left p" by (auto simp: dget_dset split: option.splits)
    with False step e Cons show ?thesis by simp
  qed
qed

theorem merge_vfs_keeps_latest_witness:
  "dget (merge_vfs [(''a'', \<lparr>vf_blob_hash = ''x'', vf_document_version_id = ''10'', vf_is_dirty = True\<rparr>)]
      [(''a'', \<lparr>vf_blob_hash = ''y'', vf_document_version_id = ''9'', vf_is_dirty = True\<rparr>)]) ''a''
    = Some \<lparr>vf_blob_hash = ''y'', vf_document_version_id = ''9'', vf_is_dirty = True\<rparr>"
proof -
  have "''10'' < (''9'' :: string)" by code_simp
  then show ?thesis by (subst merge_vfs_keeps_latest) simp_all
qed

text \<open>
  Role migration is total and idempotent: a role given as a text comes out as one of the
  eight canonical roles, a canonical role is kept, and migrating twice changes nothing.
\<close>

theorem role_migration_canonical:
  assumes "jget d ''target_role'' = JStr r" and "migrate_legacy_target_role (JObj d) = JObj d'"
  shows "\<exists>r'. jget d' ''target_role'' = JStr r' \<and> r' \<in> set CANONICAL_ROLES
    \<and> (r \<in> set CANONICAL_ROLES \<longrightarrow> r' = r)
    \<and> migrate_legacy_target_role (JObj d') = JObj d'"
proof -
  have disjoint: "role \<in> set CANONICAL_ROLES \<Longrightarrow> dget LEGACY_TO_NEW_ROLE role = None" for role
    by (auto simp: CANONICAL_ROLES_def LEGACY_TO_NEW_ROLE_def)
  have range: "dget LEGACY_TO_NEW_ROLE l = Some n \<Longrightarrow> n \<in> set CANONICAL_ROLES" for l n
    by (auto simp: CANONICAL_ROLES_def LEGACY_TO_NEW_ROLE_def split: if_splits)
  have fixpoint: "migrate_legacy_target_role (JObj e) = JObj e"
    if "jget e ''target_role'' = JStr n" "n \<in> set CANONICAL_ROLES" for e n
    using that disjoint [of n] by (simp add: migrate_legacy_target_role_def Let_def)
  have set_role: "jget (dset ''target_role'' v e) ''target_role'' = v" for v e
    by (simp add: jget_def dget_default_dset)
  show ?thesis
  proof (cases "dget LEGACY_TO_NEW_ROLE r")
    case None
    show ?thesis
    proof (cases "r \<in> set CANONICAL_ROLES")
      case True
      with assms fixpoint [of d r] show ?thesis by auto
    next
      case False
      with assms None have "d' = dset ''target_role'' (JStr DEFAULT_ROLE) d"
        by (simp add: migrate_legacy_target_role_def Let_def)
      moreover have "DEFAULT_ROLE \<in> set CANONICAL_ROLES" by code_simp
      ultimately show ?thesis using False fixpoint [of d' DEFAULT_ROLE] by (auto simp: set_role)
    qed
  next
    case (Some n)
    then have n: "n \<in> set CANONICAL_ROLES" by (rule range)
    with assms Some have "d' = dset ''target_role'' (JStr n) d"
      by (simp add: migrate_legacy_target_role_def Let_def set_role)
    with n Some disjoint [of r] fixpoint [of d' n] show ?thesis by (auto simp: set_role)
  qed
qed

theorem role_migration_canonical_witness:
  "\<exists>r'. jget [(''target_role'', JStr ''qa_tester'')] ''target_role'' = JStr r' \<and> r' \<in> set CANONICAL_ROLES"
  using role_migration_canonical [of "[(''target_role'', JStr ''Test'')]" "''Test''"
      "[(''target_role'', JStr ''qa_tester'')]"]
  by (auto simp: jget_def dget_default_def migrate_legacy_target_role_def LEGACY_TO_NEW_ROLE_def
      CANONICAL_ROLES_def)

end
