(* ===== verification/Breakers.thy ===== *)
theory Breakers
  imports PyRegex Json
begin

text \<open>
  The bounded-attempt constants (\<open>brain/retry_policy.py\<close>), the failure-signature breaker of the
  self-healing loop (\<open>brain/failure_breaker.py\<close>) and the governor of the autonomous cell
  (\<open>brain/iteration_governor.py\<close>). The breaker's clock is an argument of its operations. The
  locale \<open>failure_gate\<close> is what the reflexion guard relies on.
\<close>

subsection \<open>Retry budgets\<close>

definition GUARDRAIL_MAX_RETRIES :: int where "GUARDRAIL_MAX_RETRIES = 2"
definition CIRCUIT_BREAKER_THRESHOLD :: int where "CIRCUIT_BREAKER_THRESHOLD = 3"
definition CORRECTION_MAX_ATTEMPTS :: int where "CORRECTION_MAX_ATTEMPTS = 3"
definition FAILURE_SIGNATURE_THRESHOLD :: nat where "FAILURE_SIGNATURE_THRESHOLD = 3"
definition APPLY_REJECT_MAX_ATTEMPTS :: int where "APPLY_REJECT_MAX_ATTEMPTS = 2"
definition AGENTIC_CELL_MAX_ITERATIONS :: int where "AGENTIC_CELL_MAX_ITERATIONS = 6"
definition AGENTIC_CELL_MAX_COST_USD :: rat where "AGENTIC_CELL_MAX_COST_USD = 2"
definition AGENTIC_CELL_MAX_ELAPSED_S :: rat where "AGENTIC_CELL_MAX_ELAPSED_S = 300"

definition EFFORT_LEVELS :: "string list" where
  "EFFORT_LEVELS = [''light'', ''balanced'', ''deep'']"

definition DEFAULT_EFFORT_LEVEL :: string where "DEFAULT_EFFORT_LEVEL = ''balanced''"

definition EFFORT_CORRECTION_CEILING :: "(string, int) dict" where
  "EFFORT_CORRECTION_CEILING =
     [(''light'', 0), (''balanced'', CORRECTION_MAX_ATTEMPTS), (''deep'', CORRECTION_MAX_ATTEMPTS)]"

definition resolve_correction_ceiling :: "string option \<Rightarrow> int" where
  "resolve_correction_ceiling effort_level =
     dget_default EFFORT_CORRECTION_CEILING (str_or effort_level []) CORRECTION_MAX_ATTEMPTS"

definition normalize_effort_level :: "string option \<Rightarrow> string" where
  "normalize_effort_level value =
     (let lowered = lower (str_or value []) in
      if lowered \<in> set EFFORT_LEVELS then lowered else DEFAULT_EFFORT_LEVEL)"

lemma resolve_correction_ceiling_bounds:
  "0 \<le> resolve_correction_ceiling e \<and> resolve_correction_ceiling e \<le> CORRECTION_MAX_ATTEMPTS"
  by (auto simp: resolve_correction_ceiling_def EFFORT_CORRECTION_CEILING_def dget_default_def
      CORRECTION_MAX_ATTEMPTS_def)

subsection \<open>Failure signatures\<close>

definition is_hex :: "char \<Rightarrow> bool" where
  "is_hex c \<longleftrightarrow> is_digit c \<or> c \<in> set ''abcdefABCDEF''"

definition HEX_ADDR_RE :: re where "HEX_ADDR_RE = seqs [lit ''0x'', Plus (Chr is_hex)]"
definition LINE_NO_RE :: re where "LINE_NO_RE = seqs [lit_ci ''line '', Plus (Chr is_digit)]"
definition DIGITS_RE :: re where "DIGITS_RE = Plus (Chr is_digit)"
definition WS_RE :: re where "WS_RE = Plus (Chr py_space)"
definition MSG_CAP :: nat where "MSG_CAP = 200"

definition normalize_message :: "string \<Rightarrow> string" where
  "normalize_message exc_message =
     (let msg = rsub HEX_ADDR_RE (\<lambda>_. ''0xADDR'') exc_message;
          msg = rsub LINE_NO_RE (\<lambda>_. ''line N'') msg;
          msg = rsub DIGITS_RE (\<lambda>_. ''N'') msg
      in take MSG_CAP (lower (strip (rsub WS_RE (\<lambda>_. '' '') msg))))"

definition normalize_signature :: "string \<Rightarrow> string \<Rightarrow> string \<Rightarrow> string" where
  "normalize_signature failed_node exc_class exc_message =
     failed_node @ [CHR 0x00] @ exc_class @ [CHR 0x00] @ normalize_message exc_message"

subsection \<open>The signature breaker\<close>

type_synonym breaker = "(string, nat \<times> rat) dict"

definition COOLDOWN_S :: rat where "COOLDOWN_S = 120"

definition allow :: "breaker \<Rightarrow> rat \<Rightarrow> string \<Rightarrow> bool" where
  "allow st now signature =
     (case dget st signature of
        None \<Rightarrow> True
      | Some (failures, opened_at) \<Rightarrow>
          if failures < FAILURE_SIGNATURE_THRESHOLD then True
          else COOLDOWN_S \<le> now - opened_at)"

definition record_success :: "breaker \<Rightarrow> string \<Rightarrow> breaker" where
  "record_success st signature = AList.delete signature st"

definition record_failure :: "breaker \<Rightarrow> rat \<Rightarrow> string \<Rightarrow> breaker" where
  "record_failure st now signature =
     (let failures = fst (dget_default st signature (0, 0)) + 1;
          opened_at = (if FAILURE_SIGNATURE_THRESHOLD \<le> failures then now else 0)
      in dset signature (failures, opened_at) st)"

subsection \<open>The iteration governor\<close>

datatype axis = STEPS | TOKENS | TIME

definition check_governor ::
  "int \<Rightarrow> rat \<Rightarrow> rat \<Rightarrow> int \<Rightarrow> rat \<Rightarrow> rat \<Rightarrow> axis option" where
  "check_governor step cost_usd elapsed_s max_steps max_cost_usd max_elapsed_s =
     (if max_steps \<le> step then Some STEPS
      else if max_elapsed_s \<le> elapsed_s then Some TIME
      else if max_cost_usd \<le> cost_usd then Some TOKENS
      else None)"

text \<open>The two prices per thousand tokens and the tokenizer come from other modules.\<close>

definition estimate_iteration_cost ::
  "(string \<Rightarrow> nat) \<Rightarrow> rat \<Rightarrow> rat \<Rightarrow> string list \<Rightarrow> string list \<Rightarrow> rat" where
  "estimate_iteration_cost count_tokens usd_in usd_out input_contents output_calls =
     (let t_in = count_tokens (join '' '' input_contents);
          t_out = count_tokens (join '' '' output_calls)
      in (of_nat t_in * usd_in + of_nat t_out * usd_out) / 1000)"

subsection \<open>What the breaker promises\<close>

locale failure_gate =
  fixes admit :: "'s \<Rightarrow> rat \<Rightarrow> 'k \<Rightarrow> bool"
    and fail :: "'s \<Rightarrow> rat \<Rightarrow> 'k \<Rightarrow> 's"
    and heal :: "'s \<Rightarrow> 'k \<Rightarrow> 's"
    and streak :: "'s \<Rightarrow> 'k \<Rightarrow> nat"
  assumes fail_streak: "streak (fail s t k) k' = (if k' = k then Suc (streak s k) else streak s k')"
    and heal_streak: "streak (heal s k) k' = (if k' = k then 0 else streak s k')"
    and below_threshold: "streak s k < FAILURE_SIGNATURE_THRESHOLD \<Longrightarrow> admit s t k"
    and cooling: "FAILURE_SIGNATURE_THRESHOLD \<le> Suc (streak s k) \<Longrightarrow>
      admit (fail s t k) t' k \<longleftrightarrow> COOLDOWN_S \<le> t' - t"
begin

lemma healed_admits: "admit (heal s k) t k"
  by (rule below_threshold) (simp add: heal_streak FAILURE_SIGNATURE_THRESHOLD_def)

lemma other_streak: "k' \<noteq> k \<Longrightarrow> streak (fail s t k) k' = streak s k'"
  by (simp add: fail_streak)

lemma trial_restarts_window:
  "FAILURE_SIGNATURE_THRESHOLD \<le> streak s k \<Longrightarrow> t' - t < COOLDOWN_S \<Longrightarrow> \<not> admit (fail s t k) t' k"
  using cooling [of s k t t'] by simp

end

definition failure_streak :: "breaker \<Rightarrow> string \<Rightarrow> nat" where
  "failure_streak st signature = fst (dget_default st signature (0, 0))"

interpretation signature_gate: failure_gate allow record_failure record_success failure_streak
proof
  show "failure_streak (record_failure s t k) k' =
      (if k' = k then Suc (failure_streak s k) else failure_streak s k')" for s t k k'
    by (simp add: failure_streak_def record_failure_def Let_def dict_simps)
  show "failure_streak (record_success s k) k' = (if k' = k then 0 else failure_streak s k')" for s k k'
    by (simp add: failure_streak_def record_success_def dget_default_def dget_delete_other)
  show "failure_streak s k < FAILURE_SIGNATURE_THRESHOLD \<Longrightarrow> allow s t k" for s k t
    by (auto simp: failure_streak_def allow_def dget_default_def split: option.splits)
  show "FAILURE_SIGNATURE_THRESHOLD \<le> Suc (failure_streak s k) \<Longrightarrow>
      allow (record_failure s t k) t' k \<longleftrightarrow> COOLDOWN_S \<le> t' - t" for s k t t'
    by (simp add: failure_streak_def record_failure_def allow_def Let_def dict_simps)
qed

subsection \<open>Histories of the breaker\<close>

datatype breaker_event = Healed string | Failed string rat

fun breaker_run :: "breaker_event list \<Rightarrow> breaker \<Rightarrow> breaker" where
  "breaker_run [] st = st"
| "breaker_run (Healed k # es) st = breaker_run es (record_success st k)"
| "breaker_run (Failed k t # es) st = breaker_run es (record_failure st t k)"

text \<open>The times of the failures of a key since it was last healed, the latest first.\<close>

fun open_failures :: "string \<Rightarrow> breaker_event list \<Rightarrow> rat list \<Rightarrow> rat list" where
  "open_failures k [] ts = ts"
| "open_failures k (Healed k' # es) ts = open_failures k es (if k' = k then [] else ts)"
| "open_failures k (Failed k' t # es) ts = open_failures k es (if k' = k then t # ts else ts)"

definition agrees :: "breaker \<Rightarrow> string \<Rightarrow> rat list \<Rightarrow> bool" where
  "agrees st k ts \<longleftrightarrow> dget st k = (case ts of [] \<Rightarrow> None | t # _ \<Rightarrow>
     Some (length ts, if FAILURE_SIGNATURE_THRESHOLD \<le> length ts then t else 0))"

lemma agrees_run: "agrees st k ts \<Longrightarrow> agrees (breaker_run es st) k (open_failures k es ts)"
proof (induction es arbitrary: st ts)
  case Nil
  then show ?case by simp
next
  case (Cons e es)
  show ?case
  proof (cases e)
    case (Healed k')
    with Cons.prems have "agrees (record_success st k') k (if k' = k then [] else ts)"
      by (auto simp: agrees_def record_success_def dget_delete_other)
    with Healed Cons.IH show ?thesis by simp
  next
    case (Failed k' t)
    with Cons.prems have "agrees (record_failure st t k') k (if k' = k then t # ts else ts)"
      by (auto simp: agrees_def record_failure_def Let_def dict_simps dget_default_def
          split: list.splits)
    with Failed Cons.IH show ?thesis by simp
  qed
qed

subsection \<open>Properties\<close>

text \<open>
  The breaker after any history: a signature is admitted exactly when it has failed
  fewer than three times since it was last healed, or the cooldown has elapsed since its
  latest failure, so that a failed half-open trial restarts the window and no other
  signature interferes.
\<close>

theorem breaker_history_exact:
  "allow (breaker_run es []) now k \<longleftrightarrow>
     (length (open_failures k es []) < FAILURE_SIGNATURE_THRESHOLD
      \<or> COOLDOWN_S \<le> now - hd (open_failures k es []))"
proof -
  have "agrees (breaker_run es []) k (open_failures k es [])"
    by (rule agrees_run) (simp add: agrees_def)
  then show ?thesis
    by (cases "open_failures k es []")
      (auto simp: agrees_def allow_def FAILURE_SIGNATURE_THRESHOLD_def)
qed

lemma plus_chr_ends:
  "P c \<Longrightarrow> ends (Plus (Chr P)) (p, c # cs) \<noteq> []"
  by (simp add: Plus_def ends.simps(5))

lemma plus_chr_shrinks:
  "e \<in> set (ends (Plus (Chr P)) (p, s)) \<Longrightarrow> length (snd e) < length s"
  by (cases s) (auto simp: Plus_def split: if_splits dest: ends_length)

lemma rsub_from_plus_chars:
  "set (rsub_from (Plus (Chr P)) f False p s) \<subseteq> {c \<in> set s. \<not> P c} \<union> (\<Union>u. set (f u))"
proof (induction "length s" arbitrary: p s rule: less_induct)
  case less
  show ?case
  proof (cases "ends (Plus (Chr P)) (p, s)")
    case Nil
    show ?thesis
    proof (cases s)
      case (Cons c cs)
      with Nil have "\<not> P c" using plus_chr_ends by blast
      moreover have "set (rsub_from (Plus (Chr P)) f False (Some c) cs)
          \<subseteq> {c \<in> set cs. \<not> P c} \<union> (\<Union>u. set (f u))"
        by (rule less) (simp add: Cons)
      ultimately show ?thesis using Nil Cons by (subst rsub_from.simps) auto
    qed (use Nil in \<open>subst rsub_from.simps, simp\<close>)
  next
    case (Cons e es)
    then have short: "length (snd e) < length s" by (intro plus_chr_shrinks [of _ P p]) simp
    from Cons have "consumes (p, s) e"
      by (intro ends_consume [of _ "Plus (Chr P)"]) simp
    then have "set (snd e) \<subseteq> set s" by (auto simp: consumes_def)
    moreover have "set (rsub_from (Plus (Chr P)) f False (fst e) (snd e))
        \<subseteq> {c \<in> set (snd e). \<not> P c} \<union> (\<Union>u. set (f u))"
      by (rule less) (rule short)
    ultimately show ?thesis using Cons short by (subst rsub_from.simps) auto
  qed
qed

lemma rsub_plus_chars:
  "set (rsub (Plus (Chr P)) f s) \<subseteq> {c \<in> set s. \<not> P c} \<union> (\<Union>u. set (f u))"
  unfolding rsub_def by (rule rsub_from_plus_chars)

lemma lower_char_digit: "is_digit (lower_char c) \<longleftrightarrow> is_digit c"
  by (auto simp: lower_char_def is_upper_def is_digit_def Let_def)

text \<open>
  A failure signature keeps nothing volatile: the message part of the key is at most
  two hundred characters long and contains no decimal digit, so no line number, address or
  count of the failing run survives in it.
\<close>

theorem signature_drops_digits:
  "\<exists>msg. normalize_signature failed_node exc_class exc_message
       = failed_node @ [CHR 0x00] @ exc_class @ [CHR 0x00] @ msg
    \<and> length msg \<le> 200 \<and> (\<forall>c. c \<in> set msg \<longrightarrow> \<not> is_digit c)"
proof (intro exI conjI allI impI)
  show "normalize_signature failed_node exc_class exc_message
      = failed_node @ [CHR 0x00] @ exc_class @ [CHR 0x00] @ normalize_message exc_message"
    by (simp add: normalize_signature_def)
  show "length (normalize_message exc_message) \<le> 200"
    by (simp add: normalize_message_def Let_def MSG_CAP_def)
  fix c
  assume c: "c \<in> set (normalize_message exc_message)"
  define m1 where "m1 = rsub LINE_NO_RE (\<lambda>_. ''line N'') (rsub HEX_ADDR_RE (\<lambda>_. ''0xADDR'') exc_message)"
  define m2 where "m2 = rsub DIGITS_RE (\<lambda>_. ''N'') m1"
  define m3 where "m3 = rsub WS_RE (\<lambda>_. '' '') m2"
  have "set m2 \<subseteq> {c. \<not> is_digit c}"
    unfolding m2_def DIGITS_RE_def
    by (rule subset_trans [OF rsub_plus_chars]) (auto simp: is_digit_def)
  moreover have "set m3 \<subseteq> set m2 \<union> {CHR '' ''}"
    unfolding m3_def WS_RE_def by (rule subset_trans [OF rsub_plus_chars]) auto
  ultimately have m3: "\<not> is_digit d" if "d \<in> set m3" for d
    using that by (auto simp: is_digit_def)
  from c have "c \<in> set (lower (strip m3))"
    unfolding normalize_message_def Let_def m1_def m2_def m3_def by (rule in_set_takeD)
  then obtain d where "d \<in> set (strip m3)" "c = lower_char d" by (auto simp: lower_def)
  with m3 set_strip [of m3] show "\<not> is_digit c" by (auto simp: lower_char_digit)
qed

theorem signature_drops_digits_witness:
  "list_all (\<lambda>c. \<not> is_digit c) (drop 5 (normalize_signature ''n'' ''E'' ''at line 12''))"
proof -
  obtain msg where "normalize_signature ''n'' ''E'' ''at line 12'' = ''n'' @ [CHR 0x00] @ ''E'' @ [CHR 0x00] @ msg"
      and "\<forall>c. c \<in> set msg \<longrightarrow> \<not> is_digit c"
    using signature_drops_digits [of "''n''" "''E''" "''at line 12''"] by blast
  then show ?thesis by (auto simp: list_all_iff dest: in_set_dropD)
qed

lemma governor_None: "check_governor step cost elapsed m c e = None \<longleftrightarrow> step < m \<and> elapsed < e \<and> cost < c"
  by (auto simp: check_governor_def)

end
