(* ===== verification/Budget.thy ===== *)
theory Budget
  imports PlanFlow Breakers
begin

text \<open>
  The budget gates: the FinOps node (\<open>brain/finops.py\<close>), the supervisor
  (\<open>core/supervisor.py\<close>), the token ledger (\<open>core/token_ledger.py\<close>), the reservation
  arithmetic of a dispatch (\<open>brain/dispatch_ledger.py\<close>) and the local-to-cloud circuit breaker
  (\<open>brain/nodes/circuit_breaker.py\<close>), together with the suspend-and-resume substrate
  (\<open>core/hitl.py\<close>): a node that calls \<open>interrupt()\<close> is a function of the resume value, \<open>None\<close>
  on its first run, and either suspends with a request or is done. Amounts inside messages
  are formatted by the parameter \<open>usd\<close>.
\<close>

subsection \<open>Suspend and resume\<close>

record approval_request =
  rq_session_id :: string
  rq_action_description :: string
  rq_proposed_content :: "string option"
  rq_request_kind :: string
  rq_proposed_files :: "apply_file list option"
  rq_risk_patterns :: "string list option"

record verdict =
  vd_approved :: bool
  vd_comment :: "string option"
  vd_modified_content :: "string option"

datatype 'a node_result = Suspended approval_request | Done 'a

definition normalize_resume :: "json \<Rightarrow> verdict" where
  "normalize_resume resumed =
     (case resumed of
        JObj d \<Rightarrow> \<lparr>vd_approved = truthy (jget d ''approved''),
                   vd_comment = as_text (jget d ''comment''),
                   vd_modified_content = as_text (jget d ''modified_content'')\<rparr>
      | _ \<Rightarrow> \<lparr>vd_approved = truthy resumed, vd_comment = None, vd_modified_content = None\<rparr>)"

definition request_graph_approval ::
  "approval_request \<Rightarrow> json option \<Rightarrow> (verdict \<Rightarrow> 'a node_result) \<Rightarrow> 'a node_result" where
  "request_graph_approval request resume k =
     (case resume of None \<Rightarrow> Suspended request | Some resumed \<Rightarrow> k (normalize_resume resumed))"

subsection \<open>The FinOps gate\<close>

definition run_finops_node ::
  "(rat \<Rightarrow> string) \<Rightarrow> json option \<Rightarrow> graph_state \<Rightarrow> delta node_result" where
  "run_finops_node usd resume state =
     (case max_budget_usd state of
        None \<Rightarrow> Done []
      | Some max_budget \<Rightarrow>
          (let current_cost = current_cost_usd state in
           if current_cost \<le> max_budget then Done []
           else request_graph_approval
             \<lparr>rq_session_id = task_id state,
              rq_action_description = ''Budget ceiling exceeded: $'' @ usd current_cost
                @ '' USD spent, limit is $'' @ usd max_budget
                @ '' USD. Approve to continue (cost will increase further)?'',
              rq_proposed_content = Some (''Current spend: $'' @ usd current_cost
                @ '' | Budget: $'' @ usd max_budget),
              rq_request_kind = ''BUDGET_CEILING'', rq_proposed_files = None,
              rq_risk_patterns = None\<rparr> resume
             (\<lambda>response.
                if vd_approved response
                then Done [W_hitl_response (Some ''approved''), W_hitl_pending False]
                else Done [W_hitl_response (Some ''budget_rejected''), W_hitl_pending False,
                           W_errors [''FinOps: execution rejected due to budget overrun (cost=$''
                             @ usd current_cost @ '', budget=$'' @ usd max_budget @ ''). Comment: ''
                             @ or_else (vd_comment response) ''None'']])))"

definition route_after_finops :: "graph_state \<Rightarrow> string" where
  "route_after_finops state =
     (if hitl_response state \<in> {Some ''budget_rejected'', Some ''budget_timeout''}
      then ''__end__'' else ''apply_patch'')"

subsection \<open>The token ledger\<close>

definition USD_PER_K_LOCAL :: rat where "USD_PER_K_LOCAL = 1 / 1000"
definition USD_PER_K_CLOUD :: rat where "USD_PER_K_CLOUD = 3 / 100"
definition USD_PER_K_CLOUD_OUT :: rat where "USD_PER_K_CLOUD_OUT = 15 / 100"

record token_ledger =
  tl_local_prompt :: int
  tl_local_completion :: int
  tl_cloud_prompt :: int
  tl_cloud_completion :: int

definition record_local :: "int \<Rightarrow> int \<Rightarrow> token_ledger \<Rightarrow> token_ledger" where
  "record_local prompt completion l =
     l\<lparr>tl_local_prompt := tl_local_prompt l + max 0 prompt,
       tl_local_completion := tl_local_completion l + max 0 completion\<rparr>"

definition record_cloud :: "int \<Rightarrow> int \<Rightarrow> token_ledger \<Rightarrow> token_ledger" where
  "record_cloud prompt completion l =
     l\<lparr>tl_cloud_prompt := tl_cloud_prompt l + max 0 prompt,
       tl_cloud_completion := tl_cloud_completion l + max 0 completion\<rparr>"

record ledger_snapshot =
  sn_local_tokens :: rat
  sn_cloud_tokens :: rat
  sn_token_budget :: rat
  sn_estimated_savings_usd :: rat
  sn_estimated_invested_usd :: rat

definition ledger_snapshot_of :: "int \<Rightarrow> token_ledger \<Rightarrow> ledger_snapshot" where
  "ledger_snapshot_of token_budget l =
     (let local_total = tl_local_prompt l + tl_local_completion l;
          cloud_total = tl_cloud_prompt l + tl_cloud_completion l
      in \<lparr>sn_local_tokens = of_int local_total, sn_cloud_tokens = of_int cloud_total,
          sn_token_budget = of_int token_budget,
          sn_estimated_savings_usd = (of_int local_total / 1000) * (USD_PER_K_CLOUD - USD_PER_K_LOCAL),
          sn_estimated_invested_usd = (of_int cloud_total / 1000) * USD_PER_K_CLOUD\<rparr>)"

subsection \<open>The supervisor\<close>

definition HARD_KILL_MULTIPLIER :: rat where "HARD_KILL_MULTIPLIER = 110 / 100"
definition HARD_KILL_FLAG :: string where "HARD_KILL_FLAG = ''SESSION_BUDGET_HARD_KILL''"

text \<open>
  The module's token marks, the dead-letter episodes it forces (task and reason) and the
  approvals it asks for on the non-graph channel (task and kind).
\<close>

record supervisor_world =
  sw_last_turn_tokens :: "(string, rat) dict"
  sw_dead_letters :: "(string \<times> string) list"
  sw_prompts :: "(string \<times> string) list"

record supervisor_env =
  se_default_budget :: rat
  se_max_tokens_per_turn :: rat
  se_overflow_approved :: bool
  se_dlq_writable :: bool

record audit_broken =
  ab_state_head :: string
  ab_db_head :: "string option"

text \<open>The episode is best effort: a failed write is logged and the kill goes on without it.\<close>

definition force_dlq :: "supervisor_env \<Rightarrow> string \<Rightarrow> string \<Rightarrow> supervisor_world \<Rightarrow> supervisor_world" where
  "force_dlq env task reason w =
     (if se_dlq_writable env then w\<lparr>sw_dead_letters := sw_dead_letters w @ [(task, reason)]\<rparr> else w)"

definition prompt_human :: "string \<Rightarrow> string \<Rightarrow> supervisor_world \<Rightarrow> supervisor_world" where
  "prompt_human task kind w = w\<lparr>sw_prompts := sw_prompts w @ [(task, kind)]\<rparr>"

text \<open>The token-spike prompt is advisory: whatever the human answers, the pass goes on.\<close>

definition token_spike ::
  "supervisor_env \<Rightarrow> string \<Rightarrow> ledger_snapshot \<Rightarrow> supervisor_world \<Rightarrow> supervisor_world" where
  "token_spike env task snap w =
     (let current_total = sn_local_tokens snap + sn_cloud_tokens snap;
          last_total = dget_default (sw_last_turn_tokens w) task 0;
          w1 = w\<lparr>sw_last_turn_tokens := dset task current_total (sw_last_turn_tokens w)\<rparr>;
          turn_delta = current_total - last_total
      in if se_max_tokens_per_turn env < turn_delta then prompt_human task ''TOKEN_SPIKE'' w1 else w1)"

definition session_budget :: "supervisor_env \<Rightarrow> graph_state \<Rightarrow> rat" where
  "session_budget env state =
     (case session_max_budget_usd state of
        None \<Rightarrow> se_default_budget env
      | Some b \<Rightarrow> if b = 0 then se_default_budget env else b)"

definition supervise ::
  "supervisor_env \<Rightarrow> ledger_snapshot \<Rightarrow> graph_state \<Rightarrow> supervisor_world \<Rightarrow> string
   \<Rightarrow> delta \<times> supervisor_world" where
  "supervise env snap state w task =
     (let session_cost = sn_estimated_invested_usd snap;
          patch = [W_accumulated_session_cost session_cost];
          budget = session_budget env state
      in if budget * HARD_KILL_MULTIPLIER < session_cost
         then (patch @ [W_security_flags [HARD_KILL_FLAG]], force_dlq env task ''budget_hard_kill'' w)
         else if budget < session_cost
         then (let w1 = prompt_human task ''BUDGET_OVERFLOW'' w in
               if se_overflow_approved env
               then (patch @ [W_session_max_budget_usd (Some (budget * 2))], token_spike env task snap w1)
               else (patch @ [W_security_flags [HARD_KILL_FLAG]],
                     force_dlq env task ''budget_overflow_denied'' w1))
         else (patch, token_spike env task snap w))"

definition run_supervisor_node ::
  "supervisor_env \<Rightarrow> string option \<Rightarrow> ledger_snapshot \<Rightarrow> graph_state \<Rightarrow> supervisor_world
   \<Rightarrow> audit_broken + delta \<times> supervisor_world" where
  "run_supervisor_node env db_head snap state w =
     (let task = task_id state; state_head = hitl_audit_chain_head state in
      case state_head of
        Some h \<Rightarrow>
          if Some h \<noteq> db_head then Inl \<lparr>ab_state_head = h, ab_db_head = db_head\<rparr>
          else Inr (supervise env snap state w task)
      | None \<Rightarrow> Inr (supervise env snap state w task))"

definition route_after_supervisor :: "graph_state \<Rightarrow> string" where
  "route_after_supervisor state =
     (if HARD_KILL_FLAG \<in> set (security_flags state) then ''__end__'' else ''apply_patch'')"

subsection \<open>Reservation of a dispatch budget\<close>

record dispatch_reservation =
  dr_task_id :: string
  dr_batch_id :: string
  dr_reserved_usd :: rat

definition reserve_dispatch_budget ::
  "string \<Rightarrow> string \<Rightarrow> rat \<Rightarrow> rat \<Rightarrow> rat option \<Rightarrow> dispatch_reservation option" where
  "reserve_dispatch_budget task batch estimated_cost current_cost max_budget =
     (let estimate = max 0 estimated_cost in
      if (case max_budget of None \<Rightarrow> False | Some m \<Rightarrow> m < current_cost + estimate) then None
      else Some \<lparr>dr_task_id = task, dr_batch_id = batch, dr_reserved_usd = estimate\<rparr>)"

definition commit_dispatch_actual :: "dispatch_reservation \<Rightarrow> rat \<Rightarrow> rat" where
  "commit_dispatch_actual reservation actual_cost =
     (let actual = max 0 actual_cost; refund = dr_reserved_usd reservation - actual in
      if refund \<le> 0 then 0 else min refund (dr_reserved_usd reservation))"

definition refund_dispatch_reservation :: "dispatch_reservation \<Rightarrow> rat" where
  "refund_dispatch_reservation reservation = max 0 (dr_reserved_usd reservation)"

subsection \<open>The local-to-cloud circuit breaker\<close>

definition MAX_CLOUD_SURGEON :: int where "MAX_CLOUD_SURGEON = 1"

definition evaluate_circuit_breaker :: "graph_state \<Rightarrow> delta" where
  "evaluate_circuit_breaker state =
     (if oom_fallback_active state
      then [W_provider ''CLOUD'', W_active_llm_profile (Some ''oom_cloud_fallback''),
            W_oom_fallback_active False]
      else if error_streak state < CIRCUIT_BREAKER_THRESHOLD then []
      else if MAX_CLOUD_SURGEON \<le> cloud_surgeon_invocations state
      then [W_security_flags [''CLOUD_SURGEON_EXHAUSTED'']]
      else [W_circuit_breaker_tripped True, W_provider ''CLOUD'',
            W_active_llm_profile (Some ''cloud_surgeon''), W_cloud_surgeon_invocations 1])"

subsection \<open>Lemmas\<close>

text \<open>The accumulating channels only grow, whatever a node returns.\<close>

lemma security_flags_write: "set (security_flags s) \<subseteq> set (security_flags (apply_write w s))"
  by (cases w) simp_all

lemma security_flags_grow: "set (security_flags s) \<subseteq> set (security_flags (apply_delta d s))"
proof (induction d arbitrary: s)
  case (Cons w d)
  then show ?case using security_flags_write [of s w] by (simp only: apply_delta_Cons) blast
qed simp

lemma token_spike_dead_letters [simp]:
  "sw_dead_letters (token_spike env t snap w) = sw_dead_letters w"
  by (simp add: token_spike_def prompt_human_def Let_def)

subsection \<open>Properties\<close>

text \<open>
  C24. The financial firewall. A supervisor pass raises exactly when the audit head of the state
  differs from the one in the database. Otherwise it records the spend, and it kills the run
  exactly when the spend exceeds one hundred and ten percent of the ceiling, or exceeds the
  ceiling and the human does not approve; the turn then ends, and it ends in no other case but
  the flag of an earlier kill. A kill leaves exactly one dead-letter episode with its reason, when
  the queue can be written, and no other pass leaves one; an approved overflow, and nothing else,
  doubles the ceiling that the next pass reads.
\<close>

theorem supervisor_hard_kill_exact:
  "case run_supervisor_node env db_head snap s w of
     Inl b \<Rightarrow> hitl_audit_chain_head s = Some (ab_state_head b) \<and> Some (ab_state_head b) \<noteq> db_head
   | Inr (d, w') \<Rightarrow>
       (let cost = sn_estimated_invested_usd snap; budget = session_budget env s; t = apply_delta d s;
            killed = (budget * 11 / 10 < cost \<or> budget < cost \<and> \<not> se_overflow_approved env)
        in hitl_audit_chain_head s \<in> {None, db_head}
           \<and> accumulated_session_cost t = cost
           \<and> (route_after_supervisor t = ''__end__'' \<longleftrightarrow> HARD_KILL_FLAG \<in> set (security_flags s) \<or> killed)
           \<and> sw_dead_letters w' = sw_dead_letters w @
               (if killed \<and> se_dlq_writable env
                then [(task_id s, if budget * 11 / 10 < cost then ''budget_hard_kill'' else ''budget_overflow_denied'')]
                else [])
           \<and> session_max_budget_usd t = (if budget < cost \<and> \<not> killed then Some (budget * 2) else session_max_budget_usd s))"
proof (cases "hitl_audit_chain_head s \<in> {None, db_head}")
  case False
  then obtain h where "hitl_audit_chain_head s = Some h" "Some h \<noteq> db_head" by auto
  then show ?thesis by (simp add: run_supervisor_node_def)
next
  case True
  let ?cost = "sn_estimated_invested_usd snap" and ?budget = "session_budget env s"
  have run: "run_supervisor_node env db_head snap s w = Inr (supervise env snap s w (task_id s))"
    using True by (auto simp: run_supervisor_node_def Let_def split: option.split)
  have multiplier: "?budget * HARD_KILL_MULTIPLIER = ?budget * 11 / 10"
    by (simp add: HARD_KILL_MULTIPLIER_def)
  consider (hard) "?budget * 11 / 10 < ?cost" | (soft) "\<not> ?budget * 11 / 10 < ?cost" "?budget < ?cost"
    | (fine) "\<not> ?budget * 11 / 10 < ?cost" "\<not> ?budget < ?cost" by blast
  then show ?thesis
  proof cases
    case hard
    then show ?thesis using True run multiplier
      by (simp add: supervise_def Let_def force_dlq_def route_after_supervisor_def)
  next
    case soft
    then show ?thesis using True run multiplier
      by (simp add: supervise_def Let_def force_dlq_def prompt_human_def route_after_supervisor_def)
  next
    case fine
    then show ?thesis using True run multiplier
      by (simp add: supervise_def Let_def route_after_supervisor_def)
  qed
qed

definition demo_snapshot :: ledger_snapshot where
  "demo_snapshot = \<lparr>sn_local_tokens = 0, sn_cloud_tokens = 40000, sn_token_budget = 0,
     sn_estimated_savings_usd = 0, sn_estimated_invested_usd = 6\<rparr>"

definition demo_supervisor :: supervisor_env where
  "demo_supervisor = \<lparr>se_default_budget = 5, se_max_tokens_per_turn = 64000,
                      se_overflow_approved = True, se_dlq_writable = True\<rparr>"

definition quiet_world :: supervisor_world where
  "quiet_world = \<lparr>sw_last_turn_tokens = [], sw_dead_letters = [], sw_prompts = []\<rparr>"

text \<open>
  The kill flag lingers, although the supervisor documents that it never does: the flags
  accumulate and the seed of a new turn appends nothing to them, so once a session has been
  killed every later supervisor pass on its thread ends the run, whatever the ledger, the
  ceiling and the human say.
\<close>

theorem hard_kill_outlives_the_turn:
  assumes "HARD_KILL_FLAG \<in> set (security_flags s)"
    and "run_supervisor_node env db_head snap
           (apply_delta (build_initial_state sid payload effort pref max_budget has_mission) s) w
         = Inr (d, w')"
  shows "route_after_supervisor
    (apply_delta d (apply_delta (build_initial_state sid payload effort pref max_budget has_mission) s))
     = ''__end__''"
proof -
  have "HARD_KILL_FLAG \<in> set (security_flags
      (apply_delta d (apply_delta (build_initial_state sid payload effort pref max_budget has_mission) s)))"
    using assms(1) security_flags_grow by blast
  then show ?thesis by (simp add: route_after_supervisor_def)
qed

definition demo_payload :: task_payload where
  "demo_payload = \<lparr>tp_project_id = None, tp_workspace_root = None, tp_planner_mode_active = False,
     tp_execution_mode = Some ''automatic'', tp_auto_accept_low_risk = False,
     tp_accepted_plan = False\<rparr>"

theorem hard_kill_outlives_the_turn_witness:
  "\<exists>d w'. run_supervisor_node demo_supervisor None (demo_snapshot\<lparr>sn_estimated_invested_usd := 0\<rparr>)
       (apply_delta (build_initial_state ''s'' demo_payload None None None False)
          (fresh_state\<lparr>security_flags := [HARD_KILL_FLAG]\<rparr>)) quiet_world = Inr (d, w')
     \<and> route_after_supervisor (apply_delta d (apply_delta
          (build_initial_state ''s'' demo_payload None None None False)
          (fresh_state\<lparr>security_flags := [HARD_KILL_FLAG]\<rparr>))) = ''__end__''"
proof -
  let ?s = "fresh_state\<lparr>security_flags := [HARD_KILL_FLAG]\<rparr>"
  let ?t = "apply_delta (build_initial_state ''s'' demo_payload None None None False) ?s"
  let ?snap = "demo_snapshot\<lparr>sn_estimated_invested_usd := 0\<rparr>"
  obtain d w' where run: "supervise demo_supervisor ?snap ?t quiet_world (task_id ?t) = (d, w')"
    by (cases "supervise demo_supervisor ?snap ?t quiet_world (task_id ?t)") auto
  have "hitl_audit_chain_head ?t = None"
    by (simp add: build_initial_state_def fresh_state_def demo_payload_def
        session_mode_from_frontend_def FRONTEND_MODE_TO_SESSION_def strip_def lstrip_def rstrip_def
        apply_delta_def split: option.split)
  then have "run_supervisor_node demo_supervisor None ?snap ?t quiet_world = Inr (d, w')"
    using run by (simp add: run_supervisor_node_def)
  moreover from this have "route_after_supervisor (apply_delta d ?t) = ''__end__''"
    by (intro hard_kill_outlives_the_turn) simp_all
  ultimately show ?thesis by blast
qed

text \<open>
  The FinOps gate. On its first run it suspends exactly when the spend exceeds a finite
  budget, with no channel written; when it finishes, from any resume value, the turn ends
  exactly when the spend exceeds the budget and the operator's answer is not an approval,
  and it never finishes over the budget without an answer.
\<close>

theorem finops_gate_exact:
  assumes "hitl_response s = None"
  defines "over \<equiv> (case max_budget_usd s of None \<Rightarrow> False | Some m \<Rightarrow> m < current_cost_usd s)"
  shows "((\<exists>rq. run_finops_node usd None s = Suspended rq) \<longleftrightarrow> over)
    \<and> (\<exists>d. run_finops_node usd (Some resumed) s = Done d \<and>
         (route_after_finops (apply_delta d s) = ''__end__'' \<longleftrightarrow>
            over \<and> \<not> vd_approved (normalize_resume resumed)))"
proof (cases "max_budget_usd s")
  case None
  then show ?thesis using assms
    by (simp add: run_finops_node_def route_after_finops_def)
next
  case (Some m)
  then show ?thesis using assms
    by (cases "m < current_cost_usd s"; cases "vd_approved (normalize_resume resumed)")
      (simp_all add: run_finops_node_def route_after_finops_def request_graph_approval_def Let_def)
qed

theorem finops_gate_exact_witness:
  "\<exists>d. run_finops_node (\<lambda>_. []) (Some (JBool False))
         (fresh_state\<lparr>max_budget_usd := Some 1, current_cost_usd := 2\<rparr>) = Done d
     \<and> route_after_finops (apply_delta d (fresh_state\<lparr>max_budget_usd := Some 1, current_cost_usd := 2\<rparr>))
       = ''__end__''"
  using finops_gate_exact [of "fresh_state\<lparr>max_budget_usd := Some 1, current_cost_usd := 2\<rparr>"
      "\<lambda>_. []" "JBool False"]
  by (simp add: fresh_state_def normalize_resume_def)

text \<open>
  Reserving and committing a dispatch. An admitted reservation keeps the booked spend
  within the budget, and after the commit the net booking is the smaller of the reservation
  and the actual spend, so a refund never gifts headroom and never exceeds the reservation;
  a full refund of a wave that never ran restores the spend exactly.
\<close>

theorem dispatch_reservation_nets_actual:
  assumes "reserve_dispatch_budget task batch estimate current (Some max_budget) = Some r"
  shows "current \<le> current + dr_reserved_usd r
    \<and> current + dr_reserved_usd r \<le> max_budget
    \<and> current + dr_reserved_usd r - commit_dispatch_actual r actual
        = current + min (dr_reserved_usd r) (max 0 actual)
    \<and> current + dr_reserved_usd r - refund_dispatch_reservation r = current"
  using assms
  by (auto simp: reserve_dispatch_budget_def commit_dispatch_actual_def
      refund_dispatch_reservation_def Let_def split: if_splits)

theorem dispatch_reservation_nets_actual_witness:
  "(1 :: rat) + 2 - commit_dispatch_actual \<lparr>dr_task_id = ''t'', dr_batch_id = ''b'', dr_reserved_usd = 2\<rparr> 1 = 2"
  using dispatch_reservation_nets_actual [of "''t''" "''b''" 2 1 4
      "\<lparr>dr_task_id = ''t'', dr_batch_id = ''b'', dr_reserved_usd = 2\<rparr>" 1]
  by (simp add: reserve_dispatch_budget_def)

text \<open>
  The cloud surgeon is called at most once: whatever states the breaker is evaluated in,
  the counter never passes one, the breaker trips exactly on the first evaluation with a
  streak of three that no out-of-memory rescue pre-empts, and later ones only report
  exhaustion.
\<close>

theorem cloud_surgeon_once:
  assumes "0 \<le> cloud_surgeon_invocations s" and "cloud_surgeon_invocations s \<le> 1"
  shows "cloud_surgeon_invocations (apply_delta (evaluate_circuit_breaker s) s) \<le> 1
    \<and> (cloud_surgeon_invocations (apply_delta (evaluate_circuit_breaker s) s)
          \<noteq> cloud_surgeon_invocations s \<longleftrightarrow>
        \<not> oom_fallback_active s \<and> 3 \<le> error_streak s \<and> cloud_surgeon_invocations s = 0)
    \<and> (cloud_surgeon_invocations s = 1 \<and> 3 \<le> error_streak s \<and> \<not> oom_fallback_active s \<longrightarrow>
        ''CLOUD_SURGEON_EXHAUSTED'' \<in> set (security_flags (apply_delta (evaluate_circuit_breaker s) s)))"
  using assms
  by (cases "cloud_surgeon_invocations s = 0")
    (auto simp: evaluate_circuit_breaker_def MAX_CLOUD_SURGEON_def CIRCUIT_BREAKER_THRESHOLD_def)

theorem cloud_surgeon_once_witness:
  "cloud_surgeon_invocations (apply_delta (evaluate_circuit_breaker (fresh_state\<lparr>error_streak := 3\<rparr>))
     (fresh_state\<lparr>error_streak := 3\<rparr>)) \<le> 1"
  using cloud_surgeon_once [of "fresh_state\<lparr>error_streak := 3\<rparr>"] by (simp add: fresh_state_def)

end
