(* ===== verification/ToolDispatch.thy ===== *)
theory ToolDispatch
  imports Budget
begin

text \<open>
  The runtime tool loop (\<open>core/tool_dispatch.py\<close>): parsing the model's envelope, the gate of one
  call, its execution and the bounded reason-call-observe loop, with the promotion of an
  allowlisted observation to a graph channel and the approval function of the live channel
  (with the session trust of \<open>tools/mcp_adapter.py\<close>). The model is the parameter \<open>reasoner\<close>, the
  JSON parser the parameter \<open>loads\<close> (its error text on the left), and a tool sees the calls that ran before it, so
  that a stateful tool is covered. Telemetry and the timeline are left out. The arrow between a
  tool's name and its observation has no place in the code page and is written 0x1A.
\<close>

subsection \<open>Calls and tools\<close>

definition MAX_OBSERVATION :: nat where "MAX_OBSERVATION = 4000"
definition MAX_JSON_PARSE_CHARS :: nat where "MAX_JSON_PARSE_CHARS = 50000"

record tool_call =
  tc_name :: string
  tc_args :: "(string, json) dict"

datatype tool_outcome = ToolText string | ArgumentError string | ToolFault string

record registered_tool =
  rt_run :: "tool_call list \<Rightarrow> (string, json) dict \<Rightarrow> tool_outcome"
  rt_tier :: tier
  rt_allowed_roles :: "string list"

record dispatch_result =
  dr_observation :: string
  dr_executed :: bool
  dr_state_delta :: "(string \<times> json) option"

definition STATE_PROMOTERS :: "(string, string) dict" where
  "STATE_PROMOTERS = [(''todo_write'', ''agent_todos'')]"

text \<open>A TODO item as its model accepts and dumps it.\<close>

definition todo_item :: "json \<Rightarrow> json option" where
  "todo_item item =
     (case item of
        JObj d \<Rightarrow>
          (case (jget d ''content'', jget d ''status'', jget d ''active_form'') of
             (JStr content, JStr status, JStr active_form) \<Rightarrow>
               if content \<noteq> [] \<and> active_form \<noteq> []
                  \<and> status \<in> {''pending'', ''in_progress'', ''completed''}
               then Some (JObj [(''content'', JStr content), (''status'', JStr status),
                                (''active_form'', JStr active_form)])
               else None
           | _ \<Rightarrow> None)
      | _ \<Rightarrow> None)"

definition promote_tool_state ::
  "(string \<Rightarrow> string + json) \<Rightarrow> string \<Rightarrow> string \<Rightarrow> (string \<times> json) option" where
  "promote_tool_state loads tool_name raw =
     (case dget STATE_PROMOTERS tool_name of
        None \<Rightarrow> None
      | Some channel \<Rightarrow>
          if MAX_JSON_PARSE_CHARS < length raw then None
          else (case loads raw of
                  Inr (JObj payload) \<Rightarrow>
                    (case jget payload channel of
                       JArr raw_items \<Rightarrow>
                         (let items = map todo_item raw_items in
                          if None \<in> set items then None else Some (channel, JArr (map the items)))
                     | _ \<Rightarrow> None)
                | _ \<Rightarrow> None))"

subsection \<open>The envelope\<close>

text \<open>\<open>text[text.find("{") : text.rfind("}") + 1]\<close>, when there is such a span.\<close>

definition json_span :: "string \<Rightarrow> string option" where
  "json_span text =
     (let from_open = dropWhile (\<lambda>c. c \<noteq> CHR ''{'') text;
          body = rev (dropWhile (\<lambda>c. c \<noteq> CHR ''}'') (rev from_open))
      in if from_open = [] \<or> length body \<le> 1 then None else Some body)"

definition parse_tool_call_envelope ::
  "(string \<Rightarrow> string + json) \<Rightarrow> string \<Rightarrow> string + tool_call list" where
  "parse_tool_call_envelope loads text =
     (if strip text = [] then Inl (''empty response '' @ [CHR 0x97] @ '' emit a JSON tool-call envelope or {}'')
      else (case json_span text of
              None \<Rightarrow> Inl (''no JSON object found '' @ [CHR 0x97] @ '' respond with ONLY the tool-call envelope'')
            | Some body \<Rightarrow>
                (case loads body of
                   Inl msg \<Rightarrow> Inl (''invalid JSON ('' @ msg @ '') '' @ [CHR 0x97] @ '' re-emit ONLY the tool-call envelope'')
                 | Inr (JObj envelope) \<Rightarrow>
                     (case dget_default envelope ''tool_calls'' (JArr []) of
                        JArr raw_calls \<Rightarrow>
                          Inr (concat (map (\<lambda>raw. case raw of
                              JObj d \<Rightarrow> (case (jget d ''name'', dget_default d ''args'' (JObj [])) of
                                  (JStr name, JObj args) \<Rightarrow> [\<lparr>tc_name = name, tc_args = args\<rparr>]
                                | _ \<Rightarrow> [])
                            | _ \<Rightarrow> []) raw_calls))
                      | _ \<Rightarrow> Inl ([CHR 0x27] @ ''tool_calls'' @ [CHR 0x27] @ '' must be an array''))
                 | Inr _ \<Rightarrow> Inl (''envelope must be a JSON object with a '' @ [CHR 0x27] @ ''tool_calls''
                              @ [CHR 0x27] @ '' array''))))"

subsection \<open>The gate and one dispatch\<close>

text \<open>What the approval callback comes to: an answer, or an exception with its text.\<close>

datatype approval = Answered bool | ApprovalRaised string

record dispatcher =
  di_tools :: "(string, registered_tool) dict"
  di_active_role :: string
  di_session_mode :: session_mode
  di_agent_permission :: permission_mode
  di_approval_fn :: "(tool_call list \<Rightarrow> tool_call \<Rightarrow> registered_tool \<Rightarrow> approval) option"
  di_loads :: "string \<Rightarrow> string + json"

definition in_quotes :: "string \<Rightarrow> string" where
  "in_quotes s = [CHR 0x27] @ s @ [CHR 0x27]"

definition classify :: "dispatcher \<Rightarrow> tool_call \<Rightarrow> registered_tool option \<times> decision \<times> string option" where
  "classify self call =
     (case dget (di_tools self) (tc_name call) of
        None \<Rightarrow>
          (let available = join '', '' (sort (dkeys (di_tools self))) in
           (None, DENY, Some (''tool '' @ in_quotes (tc_name call) @ '' not found. Available tools: ''
              @ (if available = [] then ''(none)'' else available) @ ''.'')))
      | Some reg \<Rightarrow>
          if di_active_role self \<notin> set (rt_allowed_roles reg)
          then (Some reg, DENY, Some (''DENIED '' @ [CHR 0x97] @ '' role '' @ in_quotes (di_active_role self)
                 @ '' may not call '' @ in_quotes (tc_name call) @ ''.''))
          else (case evaluate_action (di_session_mode self) (rt_tier reg) (di_agent_permission self) of
                  DENY \<Rightarrow> (Some reg, DENY, Some (''DENIED '' @ [CHR 0x97] @ '' '' @ in_quotes (tc_name call)
                     @ '' ('' @ tier_value (rt_tier reg) @ '') is not permitted under the current session policy.''))
                | HITL \<Rightarrow> (Some reg, HITL, Some (in_quotes (tc_name call)
                     @ '' ('' @ tier_value (rt_tier reg) @ '') requires human approval.''))
                | ALLOW \<Rightarrow> (Some reg, ALLOW, None)))"

definition not_executed :: "string \<Rightarrow> dispatch_result" where
  "not_executed observation =
     \<lparr>dr_observation = observation, dr_executed = False, dr_state_delta = None\<rparr>"

definition execute_tool :: "dispatcher \<Rightarrow> tool_call list \<Rightarrow> tool_call \<Rightarrow> registered_tool \<Rightarrow> dispatch_result" where
  "execute_tool self history call reg =
     (case rt_run reg history (tc_args call) of
        ToolText text \<Rightarrow>
          \<lparr>dr_observation = (if MAX_OBSERVATION < length text
              then take MAX_OBSERVATION text @ [CHR 0x0A, CHR 0x85] @ ''[truncated]'' else text),
           dr_executed = True, dr_state_delta = promote_tool_state (di_loads self) (tc_name call) text\<rparr>
      | ArgumentError exc \<Rightarrow>
          not_executed (''[dispatch] '' @ in_quotes (tc_name call) @ '' argument error: '' @ exc)
      | ToolFault exc \<Rightarrow> not_executed (''[dispatch] '' @ in_quotes (tc_name call) @ '' failed: '' @ exc))"

text \<open>The result, with the calls that have entered their tool so far.\<close>

definition dispatch :: "dispatcher \<Rightarrow> tool_call list \<Rightarrow> tool_call \<Rightarrow> dispatch_result \<times> tool_call list" where
  "dispatch self history call =
     (let (reg, decision, reason) = classify self call in
      case reg of
        None \<Rightarrow> (not_executed (''[dispatch] '' @ or_else reason []), history)
      | Some r \<Rightarrow>
          (case decision of
             DENY \<Rightarrow> (not_executed (''[dispatch] '' @ or_else reason []), history)
           | ALLOW \<Rightarrow> (execute_tool self history call r, history @ [call])
           | HITL \<Rightarrow>
               (case di_approval_fn self of
                  None \<Rightarrow> (not_executed (''[dispatch] '' @ or_else reason []
                            @ '', but no approval channel is available '' @ [CHR 0x97] @ '' denied.''), history)
                | Some approve \<Rightarrow>
                    (case approve history call r of
                       ApprovalRaised exc \<Rightarrow> (not_executed (''[dispatch] '' @ in_quotes (tc_name call)
                         @ '' approval channel failed: '' @ exc), history)
                     | Answered False \<Rightarrow> (not_executed (''[dispatch] '' @ in_quotes (tc_name call)
                         @ '' was not approved '' @ [CHR 0x97] @ '' skipped.''), history)
                     | Answered True \<Rightarrow> (execute_tool self history call r, history @ [call])))))"

subsection \<open>The loop\<close>

definition system_message :: "string \<Rightarrow> message" where
  "system_message content = \<lparr>msg_replace = False, msg_role = ''system'', msg_content = content\<rparr>"

text \<open>The calls of one envelope, in order: the observations, the trace and the history grow.\<close>

fun dispatch_calls ::
  "dispatcher \<Rightarrow> tool_call list \<Rightarrow> tool_call list \<Rightarrow> tool_call list \<Rightarrow> string list
   \<Rightarrow> string list \<times> tool_call list \<times> tool_call list" where
  "dispatch_calls self [] history trace observations = (observations, trace, history)"
| "dispatch_calls self (call # calls) history trace observations =
     (let (result, history') = dispatch self history call in
      dispatch_calls self calls history' (if dr_executed result then trace @ [call] else trace)
        (observations @ [tc_name call @ '' '' @ [CHR 0x1A] @ '' '' @ dr_observation result]))"

text \<open>
  \<open>reasoner k messages\<close> is the model's reply at iteration \<open>k\<close>, \<open>None\<close> when the call fails; the
  first argument counts the iterations left.
\<close>

fun loop_steps ::
  "dispatcher \<Rightarrow> (nat \<Rightarrow> message list \<Rightarrow> string option) \<Rightarrow> nat \<Rightarrow> message list \<Rightarrow> tool_call list \<Rightarrow> tool_call list
   \<Rightarrow> message list \<times> tool_call list \<times> tool_call list" where
  "loop_steps self reasoner 0 msgs trace history = (msgs, trace, history)"
| "loop_steps self reasoner (Suc k) msgs trace history =
     (case reasoner k msgs of
        None \<Rightarrow> (msgs, trace, history)
      | Some text \<Rightarrow>
          (case parse_tool_call_envelope (di_loads self) text of
             Inl err \<Rightarrow>
               loop_steps self reasoner k (msgs @ [system_message (''[dispatch] '' @ err)]) trace history
           | Inr [] \<Rightarrow> (msgs, trace, history)
           | Inr calls \<Rightarrow>
               (let (observations, trace', history') = dispatch_calls self calls history trace []
                in loop_steps self reasoner k
                     (msgs @ [system_message (''[tool observations]'' @ [CHR 0x0A]
                        @ join [CHR 0x0A] observations)]) trace' history')))"

definition run_loop ::
  "dispatcher \<Rightarrow> (nat \<Rightarrow> message list \<Rightarrow> string option) \<Rightarrow> int \<Rightarrow> message list
   \<Rightarrow> message list \<times> tool_call list \<times> tool_call list" where
  "run_loop self reasoner max_iters msgs = loop_steps self reasoner (nat (max 0 max_iters)) msgs [] []"

subsection \<open>The live approval channel\<close>

text \<open>
  The gateway reasoner: a transport failure is swallowed and comes back as the empty text.
\<close>

definition gateway_reasoner :: "(nat \<Rightarrow> message list \<Rightarrow> string option) \<Rightarrow> nat \<Rightarrow> message list \<Rightarrow> string option" where
  "gateway_reasoner gateway k msgs = Some (or_else (gateway k msgs) [])"

type_synonym trust = "(string \<times> string) list"

text \<open>
  \<open>resume\<close> is the operator's reply when the run has one: without it \<open>interrupt()\<close> raises, and
  the callback's caller receives that exception (its text is the parameter \<open>interrupt_text\<close>).
\<close>

definition websocket_approve ::
  "string \<Rightarrow> string \<Rightarrow> json option \<Rightarrow> trust \<Rightarrow> tool_call \<Rightarrow> registered_tool \<Rightarrow> approval \<times> trust" where
  "websocket_approve interrupt_text session_id resume trusted call reg =
     (if session_id = [] then (Answered False, trusted)
      else if (session_id, tc_name call) \<in> set trusted then (Answered True, trusted)
      else (case resume of
              None \<Rightarrow> (ApprovalRaised interrupt_text, trusted)
            | Some reply \<Rightarrow>
                if vd_approved (normalize_resume reply)
                then (Answered True, List.insert (session_id, tc_name call) trusted)
                else (Answered False, trusted)))"

subsection \<open>Lemmas on the loop\<close>

text \<open>What admits a call, given the calls that ran before it.\<close>

definition admitted :: "dispatcher \<Rightarrow> tool_call list \<Rightarrow> tool_call \<Rightarrow> bool" where
  "admitted self history call \<longleftrightarrow>
     (\<exists>reg. dget (di_tools self) (tc_name call) = Some reg
        \<and> di_active_role self \<in> set (rt_allowed_roles reg)
        \<and> (case evaluate_action (di_session_mode self) (rt_tier reg) (di_agent_permission self) of
             ALLOW \<Rightarrow> True
           | HITL \<Rightarrow> (case di_approval_fn self of None \<Rightarrow> False
                      | Some approve \<Rightarrow> approve history call reg = Answered True)
           | DENY \<Rightarrow> False))"

lemma admitted_not_denied:
  assumes "admitted self history call"
  obtains reg where "dget (di_tools self) (tc_name call) = Some reg"
    "evaluate_action (di_session_mode self) (rt_tier reg) (di_agent_permission self) \<noteq> DENY"
proof -
  from assms obtain reg where reg: "dget (di_tools self) (tc_name call) = Some reg"
    and "case evaluate_action (di_session_mode self) (rt_tier reg) (di_agent_permission self) of
      ALLOW \<Rightarrow> True | HITL \<Rightarrow> (case di_approval_fn self of None \<Rightarrow> False
        | Some approve \<Rightarrow> approve history call reg = Answered True) | DENY \<Rightarrow> False"
    unfolding admitted_def by blast
  then show ?thesis by (intro that [OF reg]) auto
qed

definition all_admitted :: "dispatcher \<Rightarrow> tool_call list \<Rightarrow> bool" where
  "all_admitted self history \<longleftrightarrow> (\<forall>i<length history. admitted self (take i history) (history ! i))"

lemma all_admitted_Nil [simp]: "all_admitted self []"
  by (simp add: all_admitted_def)

lemma all_admitted_snoc:
  "all_admitted self history \<Longrightarrow> admitted self history call \<Longrightarrow> all_admitted self (history @ [call])"
  by (auto simp: all_admitted_def nth_append less_Suc_eq)

lemma dispatch_runs_admitted:
  "snd (dispatch self history call) = (if admitted self history call then history @ [call] else history)"
  by (auto simp: dispatch_def classify_def admitted_def Let_def
      split: option.split decision.split approval.split bool.split)

lemma dispatch_executed:
  "dr_executed (fst (dispatch self history call)) \<Longrightarrow> admitted self history call"
  by (auto simp: dispatch_def classify_def admitted_def not_executed_def Let_def
      split: option.splits decision.splits approval.splits bool.splits if_splits)

text \<open>The loop keeps that every call in the history was admitted when it ran, and traces only such calls.\<close>

definition loop_ok :: "dispatcher \<Rightarrow> tool_call list \<times> tool_call list \<Rightarrow> bool" where
  "loop_ok self th \<longleftrightarrow> all_admitted self (snd th) \<and> set (fst th) \<subseteq> set (snd th)"

lemma dispatch_calls_ok:
  "loop_ok self (trace, history) \<Longrightarrow> loop_ok self (snd (dispatch_calls self calls history trace obs))"
proof (induction calls arbitrary: history trace obs)
  case Nil
  then show ?case by simp
next
  case (Cons call calls)
  obtain result history' where d: "dispatch self history call = (result, history')"
    by (cases "dispatch self history call")
  have h: "history' = (if admitted self history call then history @ [call] else history)"
    using dispatch_runs_admitted [of self history call] d by simp
  have "dr_executed result \<Longrightarrow> admitted self history call"
    using dispatch_executed [of self history call] d by simp
  with Cons.prems h have "loop_ok self (if dr_executed result then trace @ [call] else trace, history')"
    by (auto simp: loop_ok_def all_admitted_snoc)
  from Cons.IH [OF this] d show ?case by (simp add: Let_def)
qed

lemma loop_steps_ok:
  "loop_ok self (trace, history) \<Longrightarrow> loop_ok self (snd (loop_steps self reasoner k msgs trace history))"
proof (induction k arbitrary: msgs trace history)
  case 0
  then show ?case by simp
next
  case (Suc k)
  have "loop_ok self (snd (dispatch_calls self calls history trace []))" for calls
    using Suc.prems by (rule dispatch_calls_ok)
  with Suc show ?case
    by (simp add: split_beta del: dispatch_calls.simps split: option.split sum.split list.split)
qed

lemma loop_steps_messages:
  "\<exists>new. fst (loop_steps self reasoner k msgs trace history) = msgs @ new
     \<and> length new \<le> k \<and> list_all (\<lambda>m. msg_role m = ''system'') new"
proof (induction k arbitrary: msgs trace history)
  case 0
  then show ?case by simp
next
  case (Suc k)
  have next_step: "\<exists>new. fst (loop_steps self reasoner k (msgs @ [system_message c]) t h) = msgs @ new
      \<and> length new \<le> Suc k \<and> list_all (\<lambda>m. msg_role m = ''system'') new" for c t h
  proof -
    from Suc.IH [of "msgs @ [system_message c]" t h] obtain new
      where "fst (loop_steps self reasoner k (msgs @ [system_message c]) t h) = (msgs @ [system_message c]) @ new"
        "length new \<le> k" "list_all (\<lambda>m. msg_role m = ''system'') new" by blast
    then show ?thesis by (intro exI [of _ "system_message c # new"]) (simp add: system_message_def)
  qed
  have stop: "\<exists>new. msgs = msgs @ new \<and> length new \<le> Suc k \<and> list_all (\<lambda>m. msg_role m = ''system'') new"
    by simp
  show ?case
    using next_step by (simp add: split_beta del: dispatch_calls.simps split: option.split sum.split list.split)
qed

subsection \<open>Properties\<close>

text \<open>
  C9. Whatever the model replies, the tool loop runs only admitted calls: at the moment a call
  enters its tool, the tool is registered, the active role may call it, and the permission
  engine allows it or an approval callback just answered yes to this call. Under an identity
  without the editing permission, or in a planning or reading session, every call that ran is
  read-only. The loop is bounded: it appends at most one system message per allowed iteration,
  keeps the conversation before it, and traces only calls that ran.
\<close>

theorem tool_loop_runs_admitted:
  assumes "run_loop self reasoner max_iters msgs = (msgs', trace, history)"
  shows "(\<forall>i<length history. admitted self (take i history) (history ! i))
    \<and> set trace \<subseteq> set history
    \<and> (di_agent_permission self \<noteq> EDIT_EXECUTE_RBW
        \<or> normalize_session_mode (di_session_mode self) \<in> {MODE_READ_ONLY, PLAN_ONLY} \<longrightarrow>
        list_all (\<lambda>call. \<exists>reg. dget (di_tools self) (tc_name call) = Some reg \<and> rt_tier reg = READ_ONLY) history)
    \<and> (\<exists>new. msgs' = msgs @ new \<and> int (length new) \<le> max 0 max_iters
         \<and> list_all (\<lambda>m. msg_role m = ''system'') new)"
proof (intro conjI impI)
  have "loop_ok self ([], [])" by (simp add: loop_ok_def)
  from loop_steps_ok [OF this, of reasoner "nat (max 0 max_iters)" msgs] assms
  have ok: "all_admitted self history" and sub: "set trace \<subseteq> set history"
    by (simp_all add: run_loop_def loop_ok_def)
  from ok show admitted: "\<forall>i<length history. admitted self (take i history) (history ! i)"
    by (simp only: all_admitted_def)
  show "set trace \<subseteq> set history" by (rule sub)
  have readonly: "rt_tier reg = READ_ONLY"
    if "evaluate_action (di_session_mode self) (rt_tier reg) (di_agent_permission self) \<noteq> DENY"
      "di_agent_permission self \<noteq> EDIT_EXECUTE_RBW
        \<or> normalize_session_mode (di_session_mode self) \<in> {MODE_READ_ONLY, PLAN_ONLY}" for reg
    using engine.mutation_needs_identity [OF that(1)] engine.mutation_needs_mode [OF that(1)] that(2) by blast
  show "list_all (\<lambda>call. \<exists>reg. dget (di_tools self) (tc_name call) = Some reg \<and> rt_tier reg = READ_ONLY) history"
    if restricted: "di_agent_permission self \<noteq> EDIT_EXECUTE_RBW
        \<or> normalize_session_mode (di_session_mode self) \<in> {MODE_READ_ONLY, PLAN_ONLY}"
    unfolding list_all_length
  proof (intro allI impI)
    fix i assume "i < length history"
    with admitted have "admitted self (take i history) (history ! i)" by blast
    then obtain reg where reg: "dget (di_tools self) (tc_name (history ! i)) = Some reg"
      "evaluate_action (di_session_mode self) (rt_tier reg) (di_agent_permission self) \<noteq> DENY"
      by (rule admitted_not_denied)
    from readonly [OF reg(2) restricted] reg(1)
    show "\<exists>reg. dget (di_tools self) (tc_name (history ! i)) = Some reg \<and> rt_tier reg = READ_ONLY" by blast
  qed
  show "\<exists>new. msgs' = msgs @ new \<and> int (length new) \<le> max 0 max_iters
      \<and> list_all (\<lambda>m. msg_role m = ''system'') new"
    using loop_steps_messages [of self reasoner "nat (max 0 max_iters)" msgs "[]" "[]"] assms
    by (auto simp: run_loop_def)
qed

definition demo_tool :: registered_tool where
  "demo_tool = \<lparr>rt_run = (\<lambda>_ _. ToolText ''found''), rt_tier = READ_ONLY, rt_allowed_roles = [''analyst'']\<rparr>"

definition demo_dispatcher :: dispatcher where
  "demo_dispatcher = \<lparr>di_tools = [(''grep'', demo_tool)], di_active_role = ''analyst'',
     di_session_mode = PLAN_ONLY, di_agent_permission = PERM_READ_ONLY, di_approval_fn = None,
     di_loads = (\<lambda>_. Inr (JObj [(''tool_calls'', JArr [JObj [(''name'', JStr ''grep'')]])]))\<rparr>"

theorem tool_loop_runs_admitted_witness:
  "list_all (\<lambda>call. \<exists>reg. dget (di_tools demo_dispatcher) (tc_name call) = Some reg \<and> rt_tier reg = READ_ONLY)
     (snd (snd (run_loop demo_dispatcher (\<lambda>_ _. Some ''{}'') 2 [])))
   \<and> length (snd (snd (run_loop demo_dispatcher (\<lambda>_ _. Some ''{}'') 2 []))) = 2"
proof -
  let ?r = "run_loop demo_dispatcher (\<lambda>_ _. Some ''{}'') 2 []"
  have "?r = (fst ?r, fst (snd ?r), snd (snd ?r))" by simp
  from tool_loop_runs_admitted [OF this] have "list_all (\<lambda>call. \<exists>reg. dget (di_tools demo_dispatcher)
      (tc_name call) = Some reg \<and> rt_tier reg = READ_ONLY) (snd (snd ?r))"
    by (simp add: demo_dispatcher_def)
  moreover have "length (snd (snd ?r)) = 2" by code_simp
  ultimately show ?thesis by blast
qed

text \<open>
  The live approval channel can never ask: the callback suspends the graph by raising, and
  the dispatcher, which turns every exception of the callback into an observation, swallows
  the suspension. So a call that waits for approval and is not trusted yet is reported as a
  failed channel on its first run, and runs no tool; only a call trusted before can pass.
\<close>

theorem live_approval_never_suspends:
  assumes "dget (di_tools self) (tc_name call) = Some reg" and "di_active_role self \<in> set (rt_allowed_roles reg)"
    and "evaluate_action (di_session_mode self) (rt_tier reg) (di_agent_permission self) = HITL"
    and "di_approval_fn self = Some (\<lambda>_ c r. fst (websocket_approve exc sid None trusted c r))"
  shows "dispatch self history call =
    (if sid \<noteq> [] \<and> (sid, tc_name call) \<in> set trusted
     then (execute_tool self history call reg, history @ [call])
     else (not_executed (''[dispatch] '' @ in_quotes (tc_name call) @
             (if sid = [] then '' was not approved '' @ [CHR 0x97] @ '' skipped.''
              else '' approval channel failed: '' @ exc)), history))"
  using assms by (simp add: dispatch_def classify_def websocket_approve_def)

theorem live_approval_never_suspends_witness:
  "snd (dispatch (demo_dispatcher\<lparr>di_session_mode := ASK_ALL,
       di_approval_fn := Some (\<lambda>_ c r. fst (websocket_approve ''suspend'' ''s'' None [] c r))\<rparr>) []
     \<lparr>tc_name = ''grep'', tc_args = []\<rparr>) = []"
  by (subst live_approval_never_suspends [where reg = demo_tool and sid = "''s''" and trusted = "[]"
        and exc = "''suspend''"])
    (simp_all add: demo_dispatcher_def demo_tool_def evaluate_action_cases)

text \<open>
  A transport failure is not the soft stop the reasoner's comment promises: its empty text is
  an unparseable reply, so the loop feeds an error back and asks again until its iterations
  are spent.
\<close>

lemma failed_gateway_spends_the_loop:
  "run_loop self (gateway_reasoner (\<lambda>_ _. None)) max_iters msgs =
     (msgs @ replicate (nat (max 0 max_iters)) (system_message (''[dispatch] empty response ''
        @ [CHR 0x97] @ '' emit a JSON tool-call envelope or {}'')), [], [])"
proof -
  have parse: "parse_tool_call_envelope loads [] =
      Inl (''empty response '' @ [CHR 0x97] @ '' emit a JSON tool-call envelope or {}'')" for loads
    by (simp add: parse_tool_call_envelope_def strip_def rstrip_def lstrip_def)
  have "loop_steps self (gateway_reasoner (\<lambda>_ _. None)) k m [] [] =
      (m @ replicate k (system_message (''[dispatch] empty response '' @ [CHR 0x97]
         @ '' emit a JSON tool-call envelope or {}'')), [], [])" for k m
    by (induction k arbitrary: m) (simp_all add: gateway_reasoner_def parse)
  then show ?thesis by (simp add: run_loop_def)
qed

end
