(* ===== verification/ApplyGate.thy ===== *)
theory ApplyGate
  imports Budget
begin

text \<open>
  The incremental apply gate (\<open>brain/apply_gate.py\<close>): PREPARE computes the permission verdict of
  the current step and stages an envelope, COMMIT acts on it, asking the operator first when
  the verdict says so. A commit is a function of the resume value and returns, with its
  result, the effects it had in order: the patch hooks, the write of the files and the
  command that was run. The reader, the diff, the hooks, the writer, the shell, the parsers
  and linters and the blast-radius mapper are the fields of \<open>apply_env\<close>.
\<close>

subsection \<open>The environment\<close>

record shell_result =
  sh_exit_code :: int
  sh_stdout :: string
  sh_stderr :: string

record validation_result =
  vr_is_valid :: bool
  vr_prune_reason :: "string option"
  vr_first_line :: "nat option"

record patch_result =
  pr_ok :: bool
  pr_stale_files :: "string list"
  pr_error :: "string option"
  pr_applied_files :: "string list"

record apply_env =
  pe_read :: "string \<Rightarrow> string option"
  pe_diff :: "string \<Rightarrow> string \<Rightarrow> string \<Rightarrow> string"
  pe_internal :: "string \<Rightarrow> bool"
  pe_blast_radius :: "string list \<Rightarrow> string list option"
  pe_blast_threshold :: nat
  pe_hooks :: "string \<Rightarrow> bool \<times> string list"
  pe_patch_set :: "(string, string) dict \<Rightarrow> (string, string) dict \<Rightarrow> patch_result"
  pe_command :: "string \<Rightarrow> shell_result"
  pe_render :: "shell_result \<Rightarrow> string"
  pe_diagnose :: "string \<Rightarrow> string \<Rightarrow> string \<Rightarrow> string"
  pe_validate_ast :: "string \<Rightarrow> string \<Rightarrow> validation_result option"
  pe_validate_lsp :: "string \<Rightarrow> string \<Rightarrow> validation_result option"
  pe_content_hash :: "string \<Rightarrow> string"

datatype apply_effect =
    RanHook string
  | WroteFiles "(string, string) dict"
  | RanCommand string

definition EXEC_TAIL_CHARS :: nat where "EXEC_TAIL_CHARS = 800"

definition quoted :: "string \<Rightarrow> string" where
  "quoted p = ''`'' @ p @ ''`''"

definition target_step :: "graph_state \<Rightarrow> wbs_step option" where
  "target_step state =
     (case (mission_spec state, current_step_id state) of
        (Some mission, Some step_id) \<Rightarrow> step_of mission step_id
      | _ \<Rightarrow> None)"

definition added_lines :: "string \<Rightarrow> string" where
  "added_lines diff =
     concat (map tl (filter (\<lambda>ln. starts_with ln ''+'' \<and> \<not> starts_with ln ''+++'')
       (splitlines_keep diff)))"

definition step_error :: "int \<Rightarrow> string \<Rightarrow> string" where
  "step_error n text = ''CoderAgent step #'' @ show_int n @ '': '' @ text"

definition mark :: "graph_state \<Rightarrow> int \<Rightarrow> step_status \<Rightarrow> channel_write" where
  "mark state n status = W_mission_spec (map_option (\<lambda>m. mark_step_status m n status) (mission_spec state))"

subsection \<open>PREPARE\<close>

definition prepare_command :: "graph_state \<Rightarrow> wbs_step \<Rightarrow> string \<Rightarrow> session_mode \<Rightarrow> delta" where
  "prepare_command state step command session_mode =
     (let (verdict, risk_labels) =
            risk_intercept_guard (Some command) (gate_execute_action session_mode) session_mode;
          n = step_number step;
          pending = \<lparr>ae_step_number = n,
            ae_kind = (if risk_labels \<noteq> [] then RISK_INTERCEPT else COMMAND_EXECUTE),
            ae_decision = verdict, ae_command = Some command, ae_files = [],
            ae_risk_labels = risk_labels, ae_auto_accept = False, ae_blast_radius_files = [],
            ae_attempt = dget_default (apply_attempts state) n 0\<rparr>
      in [if verdict = HITL then mark state n awaiting_approval else W_mission_spec (mission_spec state),
          W_pending_apply (Some pending), W_current_step_id (Some n)])"

text \<open>The cumulative blast radius: the files of the steps already landed and of this one.\<close>

definition already_touched :: "graph_state \<Rightarrow> string list" where
  "already_touched state =
     concat (map (\<lambda>entry. case le_file_path entry of
         Some p \<Rightarrow> if le_status entry = completed \<and> p \<noteq> [] then [p] else []
       | None \<Rightarrow> []) (applied_files_log state))"

definition blast_affected :: "apply_env \<Rightarrow> graph_state \<Rightarrow> string list \<Rightarrow> string list" where
  "blast_affected pe state paths =
     or_else (pe_blast_radius pe (sort (remdups (already_touched state @ paths)))) []"

definition file_risk_labels :: "apply_env \<Rightarrow> graph_state \<Rightarrow> string list \<Rightarrow> string list" where
  "file_risk_labels pe state paths =
     sort (remdups (concat (map (\<lambda>p. scan_risk_patterns (Some (added_lines
       (pe_diff pe (or_else (pe_read pe p) []) (dget_default (pending_contents state) p []) p)))) paths)))"

definition write_verdict ::
  "apply_env \<Rightarrow> graph_state \<Rightarrow> string list \<Rightarrow> session_mode \<Rightarrow> decision \<times> bool" where
  "write_verdict pe state paths session_mode =
     (let verdict = evaluate_action session_mode WRITE EDIT_EXECUTE_RBW;
          auto_accept = (auto_accept_low_risk state \<and> file_risk_labels pe state paths = []
                         \<and> verdict = HITL)
      in if pe_blast_threshold pe < length (blast_affected pe state paths) then (HITL, False)
         else (verdict, auto_accept))"

definition prepare_files ::
  "apply_env \<Rightarrow> graph_state \<Rightarrow> wbs_step \<Rightarrow> string list \<Rightarrow> session_mode \<Rightarrow> delta \<times> apply_effect list" where
  "prepare_files pe state step paths0 session_mode =
     (let n = step_number step;
          internal = filter (pe_internal pe) paths0;
          paths = filter (\<lambda>p. \<not> pe_internal pe p) paths0;
          errs = (if internal = [] then []
                  else [''Skipped AILIENANT's own runtime files (they cannot be moved): ''
                        @ join '', '' (map quoted (sort internal))])
      in if paths = []
         then ([mark state n failed, W_current_step_id (Some n),
                W_errors (if errs \<noteq> [] then errs
                          else [step_error n ''no applicable file changes.''])], [])
         else (let risk_labels = file_risk_labels pe state paths;
                   affected = blast_affected pe state paths;
                   exceeded = pe_blast_threshold pe < length affected;
                   (verdict, auto_accept) = write_verdict pe state paths session_mode;
                   gated = (verdict = ALLOW \<or> auto_accept);
                   (pre_ok, pre_msgs) = pe_hooks pe ''pre_patch'';
                   effects = (if gated then [RanHook ''pre_patch''] else [])
               in if gated \<and> \<not> pre_ok
                  then ([mark state n failed, W_current_step_id (Some n),
                         W_errors (errs @ [''Changes not applied '' @ [CHR 0x97]
                           @ '' a pre_patch hook vetoed the write.''
                           @ (if pre_msgs \<noteq> [] then '' '' @ join ''; '' (take 3 pre_msgs) else [])])],
                        effects)
                  else ([if verdict = HITL \<and> \<not> auto_accept then mark state n awaiting_approval
                         else W_mission_spec (mission_spec state),
                         W_pending_apply (Some
                           \<lparr>ae_step_number = n, ae_kind = FILE_WRITE, ae_decision = verdict,
                            ae_command = None,
                            ae_files = map (\<lambda>p. \<lparr>af_file_path = p,
                               af_unified_diff = pe_diff pe (or_else (pe_read pe p) [])
                                 (dget_default (pending_contents state) p []) p,
                               af_base_hash = dget (pending_base_hash state) p\<rparr>) paths,
                            ae_risk_labels = risk_labels, ae_auto_accept = auto_accept,
                            ae_blast_radius_files = (if exceeded then affected else []),
                            ae_attempt = dget_default (apply_attempts state) n 0\<rparr>),
                         W_current_step_id (Some n)]
                        @ (if errs \<noteq> [] then [W_errors errs] else []), effects)))"

definition run_apply_prepare_node :: "apply_env \<Rightarrow> graph_state \<Rightarrow> delta \<times> apply_effect list" where
  "run_apply_prepare_node pe state =
     (case target_step state of
        None \<Rightarrow> ([], [])
      | Some step \<Rightarrow>
          if is_terminal step then ([], [])
          else (let n = step_number step;
                    paths = dget_default (pending_step_files state) n [];
                    command = dget (pending_step_command state) n
                in if paths = [] \<and> str_or command [] = []
                   then ([mark state n failed, W_current_step_id (Some n),
                          W_errors [step_error n (''reached the apply gate with neither a file nor ''
                            @ ''a command to apply '' @ [CHR 0x97] @ '' nothing was generated.'')]], [])
                   else (let session_mode = session_mode_from_channel (session_permission_mode state)
                         in case command of
                              Some c \<Rightarrow> (prepare_command state step c session_mode, [])
                            | None \<Rightarrow> prepare_files pe state step paths session_mode)))"

subsection \<open>COMMIT\<close>

definition terminal_result ::
  "graph_state \<Rightarrow> int \<Rightarrow> step_status \<Rightarrow> string list \<Rightarrow> string option \<Rightarrow> delta" where
  "terminal_result state n status errs applied_command =
     [mark state n status, W_current_step_id (Some n), W_applied_step_ids [n],
      W_applied_files_log [\<lparr>le_file_path = None, le_command = applied_command, le_status = status,
        le_exit_code = None, le_step_number = n\<rparr>],
      W_pending_apply None] @ (if errs \<noteq> [] then [W_errors errs] else [])"

definition handle_declined :: "graph_state \<Rightarrow> int \<Rightarrow> apply_envelope \<Rightarrow> verdict \<Rightarrow> delta" where
  "handle_declined state n env verdict =
     (let comment = str_or (vd_comment verdict) []; attempt = ae_attempt env in
      if comment \<noteq> [] \<and> attempt < APPLY_REJECT_MAX_ATTEMPTS
      then [mark state n revision_requested,
            W_apply_feedback (Some \<lparr>fb_step_number = n, fb_comment = comment, fb_attempt = attempt + 1\<rparr>),
            W_apply_attempts [(n, attempt + 1)], W_pending_apply None, W_current_step_id (Some n)]
      else terminal_result state n rejected
        [step_error n ((if comment \<noteq> []
            then ''revision requested but the '' @ show_int APPLY_REJECT_MAX_ATTEMPTS
                 @ ''-attempt limit was reached'' else ''declined'')
          @ '' '' @ [CHR 0x97] @ '' not applied.'')] None)"

text \<open>What a failed verification writes when it still has a correction attempt.\<close>

definition healing_delta :: "graph_state \<Rightarrow> int \<Rightarrow> string \<Rightarrow> string \<Rightarrow> string \<Rightarrow> delta" where
  "healing_delta state n trace exc_class detail =
     [mark state n failed, W_healing_required True,
      W_correction_attempts (correction_attempts state + 1), W_last_error_trace (Some trace),
      W_failed_node (Some ''apply_commit''),
      W_failure_signature (Some (normalize_signature ''apply_commit'' exc_class detail))]"

definition commit_command ::
  "apply_env \<Rightarrow> graph_state \<Rightarrow> int \<Rightarrow> apply_envelope \<Rightarrow> delta \<times> apply_effect list" where
  "commit_command pe state n env =
     (let command = or_else (ae_command env) [];
          result = pe_command pe command;
          effects = [RanCommand command]
      in if sh_exit_code result = 0
         then (terminal_result state n completed [] (Some command), effects)
         else (let diagnostics = pe_diagnose pe command (sh_stdout result) (sh_stderr result);
                   attempts = correction_attempts state;
                   ledgers = [W_current_step_id (Some n), W_applied_step_ids [n],
                     W_applied_files_log [\<lparr>le_file_path = None, le_command = Some command,
                       le_status = failed, le_exit_code = Some (sh_exit_code result),
                       le_step_number = n\<rparr>],
                     W_pending_apply None]
               in if resolve_correction_ceiling (effort_level state) \<le> attempts
                  then (mark state n failed # ledgers @
                        [W_errors [step_error n ([CHR 0x27] @ command @ [CHR 0x27] @ '' still failing after ''
                           @ show_int attempts @ '' correction attempts:'' @ [CHR 0x0A] @ diagnostics
                           @ [CHR 0x0A, CHR 0x0A] @ pe_render pe result)]], effects)
                  else (healing_delta state n diagnostics ''VerifyFailure'' command
                        @ [W_last_execution_context (Some
                             \<lparr>ec_command = command, ec_exit_code = sh_exit_code result,
                              ec_stdout_tail = last_chars EXEC_TAIL_CHARS (sh_stdout result),
                              ec_stderr_tail = last_chars EXEC_TAIL_CHARS (sh_stderr result)\<rparr>)]
                        @ ledgers, effects)))"

text \<open>A validator that faults (\<open>None\<close>) or a file without content raises no problem.\<close>

definition file_problem ::
  "(string \<Rightarrow> string \<Rightarrow> validation_result option) \<Rightarrow> string \<Rightarrow> string \<times> string \<Rightarrow> string list" where
  "file_problem validate fallback pc =
     (let (path, content) = pc in
      if content = [] then []
      else (case validate content path of
              None \<Rightarrow> []
            | Some result \<Rightarrow>
                if vr_is_valid result then []
                else [path @ (case vr_first_line result of None \<Rightarrow> []
                              | Some l \<Rightarrow> if l = 0 then [] else '':'' @ show_nat l)
                      @ '': '' @ str_or (vr_prune_reason result) fallback]))"

definition problem_report :: "string \<Rightarrow> string list \<Rightarrow> string option" where
  "problem_report header problems =
     (if problems = [] then None
      else Some (header @ [CHR 0x0A] @ join [CHR 0x0A] (map (\<lambda>p. ''- '' @ p) problems)))"

definition validate_generated_files :: "apply_env \<Rightarrow> (string, string) dict \<Rightarrow> string option" where
  "validate_generated_files pe contents =
     problem_report ''The generated code does not parse:''
       (concat (map (file_problem (pe_validate_ast pe) ''structural error'') contents))"

definition lint_generated_files :: "apply_env \<Rightarrow> (string, string) dict \<Rightarrow> string option" where
  "lint_generated_files pe contents =
     problem_report ''The generated code has lint errors:''
       (concat (map (file_problem (pe_validate_lsp pe) ''lint error'') contents))"

definition rejected_patch ::
  "graph_state \<Rightarrow> int \<Rightarrow> string \<Rightarrow> string \<Rightarrow> (string, string) dict \<Rightarrow> (int \<Rightarrow> string) \<Rightarrow> delta" where
  "rejected_patch state n trace exc_class contents exhausted =
     (let attempts = correction_attempts state in
      if resolve_correction_ceiling (effort_level state) \<le> attempts
      then terminal_result state n failed [step_error n (exhausted attempts)] None
      else healing_delta state n trace exc_class (join '','' (sort (dkeys contents)))
           @ [W_current_step_id (Some n), W_pending_apply None])"

definition commit_contents ::
  "graph_state \<Rightarrow> apply_envelope \<Rightarrow> verdict \<Rightarrow> (string, string) dict" where
  "commit_contents state env verdict =
     (let files = ae_files env;
          single_modified = (if length files = 1 then str_or (vd_modified_content verdict) [] else [])
      in dict_or [] (map (\<lambda>f. (af_file_path f,
           if single_modified \<noteq> [] then single_modified
           else dget_default (pending_contents state) (af_file_path f) [])) files))"

text \<open>The host acknowledges no file but those it was asked to write, so each has its content.\<close>

definition write_files ::
  "apply_env \<Rightarrow> graph_state \<Rightarrow> int \<Rightarrow> apply_envelope \<Rightarrow> (string, string) dict
   \<Rightarrow> delta \<times> apply_effect list" where
  "write_files pe state n env contents =
     (let base_hashes = dict_or [] (concat (map (\<lambda>f. case af_base_hash f of
            Some h \<Rightarrow> if h \<noteq> [] then [(af_file_path f, h)] else [] | None \<Rightarrow> []) (ae_files env)));
          res = pe_patch_set pe contents base_hashes
      in if \<not> pr_ok res
         then (terminal_result state n failed
                [if pr_stale_files res \<noteq> []
                 then ''Not applied '' @ [CHR 0x97] @ '' these files changed since the proposal: ''
                      @ join '', '' (map quoted (pr_stale_files res))
                      @ ''. Re-run the request to regenerate against the current code.''
                 else ''Could not apply the changes: '' @ str_or (pr_error res) ''unknown error''] None,
               [WroteFiles contents])
         else (let applied = (if pr_applied_files res \<noteq> [] then pr_applied_files res else dkeys contents);
                   post_msgs = snd (pe_hooks pe ''post_patch'')
               in ([mark state n completed, W_current_step_id (Some n), W_applied_step_ids [n],
                    W_applied_files_log (map (\<lambda>p. \<lparr>le_file_path = Some p, le_command = None,
                      le_status = completed, le_exit_code = None, le_step_number = n\<rparr>) applied),
                    W_pending_apply None,
                    W_pending_base_hash (dict_or [] (map (\<lambda>p. (p, pe_content_hash pe
                      (dget_default contents p []))) applied))]
                   @ (if post_msgs \<noteq> []
                      then [W_errors [''post_patch hook notes: '' @ join ''; '' (take 3 post_msgs)]] else []),
                   [WroteFiles contents, RanHook ''post_patch''])))"

definition commit_files ::
  "apply_env \<Rightarrow> graph_state \<Rightarrow> int \<Rightarrow> apply_envelope \<Rightarrow> verdict \<Rightarrow> delta \<times> apply_effect list" where
  "commit_files pe state n env verdict =
     (let contents = commit_contents state env verdict in
      case validate_generated_files pe contents of
        Some syntax_error \<Rightarrow>
          (rejected_patch state n syntax_error ''SyntaxError'' contents
             (\<lambda>attempts. ''the generated code still does not parse after '' @ show_int attempts
               @ '' correction attempts '' @ [CHR 0x97] @ '' nothing was written.'' @ [CHR 0x0A]
               @ syntax_error), [])
      | None \<Rightarrow>
          (case (if normalize_effort_level (effort_level state) \<in> {''balanced'', ''deep''}
                 then lint_generated_files pe contents else None) of
             Some lint_error \<Rightarrow>
               (rejected_patch state n lint_error ''LintError'' contents
                  (\<lambda>attempts. ''the generated code still has lint errors after '' @ show_int attempts
                    @ '' correction attempts.'' @ [CHR 0x0A] @ lint_error), [])
           | None \<Rightarrow>
               (let asked = (ae_decision env = HITL \<and> \<not> ae_auto_accept env);
                    (pre_ok, pre_msgs) = pe_hooks pe ''pre_patch'';
                    hooked = (if asked then [RanHook ''pre_patch''] else [])
                in if asked \<and> \<not> pre_ok
                   then (terminal_result state n failed
                          [''Changes not applied '' @ [CHR 0x97] @ '' a pre_patch hook vetoed the write.''
                           @ (if pre_msgs \<noteq> [] then '' '' @ join ''; '' (take 3 pre_msgs) else [])] None,
                         hooked)
                   else (let (d, effects) = write_files pe state n env contents
                         in (d, hooked @ effects)))))"

definition approval_for :: "graph_state \<Rightarrow> int \<Rightarrow> apply_envelope \<Rightarrow> approval_request" where
  "approval_for state n env =
     (if ae_kind env = FILE_WRITE
      then \<lparr>rq_session_id = task_id state,
            rq_action_description =
              (case ae_files env of [f] \<Rightarrow> ''Apply change to '' @ af_file_path f
               | fs \<Rightarrow> ''Apply '' @ show_nat (length fs) @ '' file change(s) for step #'' @ show_int n)
              @ (if ae_blast_radius_files env \<noteq> []
                 then '' '' @ [CHR 0x97] @ '' impacts '' @ show_nat (length (ae_blast_radius_files env))
                      @ '' dependent file(s), exceeding the blast-radius review threshold.'' else []),
            rq_proposed_content = None, rq_request_kind = ''FILE_WRITE'',
            rq_proposed_files = Some (ae_files env),
            rq_risk_patterns = (if ae_risk_labels env = [] then None else Some (ae_risk_labels env))\<rparr>
      else \<lparr>rq_session_id = task_id state,
            rq_action_description = ''COMMAND_EXECUTE: '' @ or_else (ae_command env) [],
            rq_proposed_content = ae_command env,
            rq_request_kind = (if ae_kind env = RISK_INTERCEPT then ''RISK_INTERCEPT'' else ''COMMAND_EXECUTE''),
            rq_proposed_files = None,
            rq_risk_patterns = (if ae_risk_labels env = [] then None else Some (ae_risk_labels env))\<rparr>)"

definition settle ::
  "apply_env \<Rightarrow> graph_state \<Rightarrow> int \<Rightarrow> apply_envelope \<Rightarrow> verdict \<Rightarrow> delta \<times> apply_effect list" where
  "settle pe state n env verdict =
     (if \<not> vd_approved verdict then (handle_declined state n env verdict, [])
      else if ae_kind env \<in> {COMMAND_EXECUTE, RISK_INTERCEPT} then commit_command pe state n env
      else commit_files pe state n env verdict)"

definition run_apply_commit_node ::
  "apply_env \<Rightarrow> json option \<Rightarrow> graph_state \<Rightarrow> (delta \<times> apply_effect list) node_result" where
  "run_apply_commit_node pe resume state =
     (case pending_apply state of
        None \<Rightarrow> Done ([], [])
      | Some env \<Rightarrow>
          (let n = ae_step_number env in
           if n \<in> set (applied_step_ids state) then Done ([W_pending_apply None], [])
           else if ae_decision env = DENY
           then Done (terminal_result state n failed
                  [step_error n (''DENIED '' @ [CHR 0x97] @ '' plan mode is read-only; not applied.'')] None, [])
           else if ae_decision env = HITL \<and> \<not> ae_auto_accept env
           then request_graph_approval (approval_for state n env) resume
                  (\<lambda>verdict. Done (settle pe state n env verdict))
           else Done (settle pe state n env
                  \<lparr>vd_approved = True, vd_comment = None, vd_modified_content = None\<rparr>)))"

subsection \<open>Lemmas on commits\<close>

lemma set_dkeys_dset: "set (dkeys (dset k v d)) = insert k (set (dkeys d))"
  by (simp only: dkeys_dset split: if_split) auto

lemma set_dkeys_dict_or: "set (dkeys (dict_or l r)) = set (dkeys l) \<union> set (dkeys r)"
  unfolding dict_or_def
proof (induction r arbitrary: l)
  case Nil
  then show ?case by simp
next
  case (Cons e r)
  obtain k v where e: "e = (k, v)" by (cases e)
  have "set (dkeys (fold (\<lambda>(k, v). dset k v) r (dset k v l)))
      = set (dkeys (dset k v l)) \<union> set (dkeys r)"
    by (rule Cons.IH)
  then have "set (dkeys (fold (\<lambda>(k, v). dset k v) r (dset k v l)))
      = insert k (set (dkeys l)) \<union> set (dkeys r)"
    by (simp only: set_dkeys_dset)
  then show ?case by (simp only: e fold_simps split_conv o_apply) auto
qed

definition is_execution :: "apply_effect \<Rightarrow> bool" where
  "is_execution e = (case e of RanHook _ \<Rightarrow> False | _ \<Rightarrow> True)"

lemma is_execution_simps [simp]:
  "\<not> is_execution (RanHook h)" "is_execution (WroteFiles c)" "is_execution (RanCommand k)"
  by (simp_all add: is_execution_def)

text \<open>A delta settles a step: it marks it, clears the envelope and writes no other plan.\<close>

definition settles :: "graph_state \<Rightarrow> int \<Rightarrow> step_status \<Rightarrow> delta \<Rightarrow> bool" where
  "settles s n st d \<longleftrightarrow>
     mission_spec (apply_delta d s) = map_option (\<lambda>m. mark_step_status m n st) (mission_spec s)
     \<and> pending_apply (apply_delta d s) = None"

lemma settles_terminal: "settles s n st (terminal_result s n st errs c)"
  by (simp add: settles_def terminal_result_def mark_def)

lemma terminal_result_applied [simp]:
  "applied_step_ids (apply_delta (terminal_result s n st errs c) s) = applied_step_ids s @ [n]"
  by (simp add: terminal_result_def mark_def)

lemma terminal_result_attempts [simp]:
  "apply_attempts (apply_delta (terminal_result s n st errs c) s) = apply_attempts s"
  by (simp add: terminal_result_def mark_def)

lemma declined_cases:
  "settles s n rejected (handle_declined s n env v)
   \<or> settles s n revision_requested (handle_declined s n env v)
     \<and> ae_attempt env < APPLY_REJECT_MAX_ATTEMPTS
     \<and> apply_attempts (apply_delta (handle_declined s n env v) s)
         = dict_or (apply_attempts s) [(n, ae_attempt env + 1)]"
proof (cases "str_or (vd_comment v) [] \<noteq> [] \<and> ae_attempt env < APPLY_REJECT_MAX_ATTEMPTS")
  case True
  then show ?thesis by (simp add: handle_declined_def Let_def settles_def mark_def)
next
  case False
  then have "settles s n rejected (handle_declined s n env v)"
    by (auto simp: handle_declined_def Let_def settles_terminal)
  then show ?thesis ..
qed

lemma command_settles:
  "\<exists>st \<in> {completed, failed}. settles s n st (fst (commit_command pe s n env))"
  by (auto simp: commit_command_def Let_def settles_terminal)
    (auto simp: settles_def mark_def healing_delta_def)

lemma rejected_patch_settles: "settles s n failed (rejected_patch s n tr cls contents ex)"
  by (auto simp: rejected_patch_def Let_def settles_terminal)
    (auto simp: settles_def mark_def healing_delta_def)

lemma write_settles:
  "\<exists>st \<in> {completed, failed}. settles s n st (fst (write_files pe s n env contents))"
  by (auto simp: write_files_def Let_def settles_terminal)
    (auto simp: settles_def mark_def)

lemma files_settle:
  "\<exists>st \<in> {completed, failed}. settles s n st (fst (commit_files pe s n env v))"
  using write_settles [of s n pe env "commit_contents s env v"]
  by (auto simp: commit_files_def Let_def settles_terminal rejected_patch_settles split_beta
      split: option.splits)

text \<open>An execution is recorded in the ledger of applied steps by the same delta.\<close>

lemma command_applied:
  "n \<in> set (applied_step_ids (apply_delta (fst (commit_command pe s n env)) s))"
  by (auto simp: commit_command_def Let_def) (auto simp: mark_def healing_delta_def)

lemma write_applied:
  "n \<in> set (applied_step_ids (apply_delta (fst (write_files pe s n env contents)) s))"
  by (auto simp: write_files_def Let_def)

lemma files_applied:
  assumes "\<exists>e \<in> set (snd (commit_files pe s n env v)). is_execution e"
  shows "n \<in> set (applied_step_ids (apply_delta (fst (commit_files pe s n env v)) s))"
  using assms write_applied [of n pe s env "commit_contents s env v"]
  by (auto simp: commit_files_def Let_def split_beta split: option.splits if_splits)

lemma settle_applied:
  assumes "\<exists>e \<in> set (snd (settle pe s n env v)). is_execution e"
  shows "n \<in> set (applied_step_ids (apply_delta (fst (settle pe s n env v)) s))"
  using assms command_applied files_applied [of pe s n env v]
  by (auto simp: settle_def split: if_splits)

lemma applied_write: "set (applied_step_ids s) \<subseteq> set (applied_step_ids (apply_write w s))"
  by (cases w) simp_all

lemma applied_grow: "set (applied_step_ids s) \<subseteq> set (applied_step_ids (apply_delta d s))"
proof (induction d arbitrary: s)
  case (Cons w d)
  then show ?case using applied_write [of s w] by (simp only: apply_delta_Cons) blast
qed simp

lemmas commit_defs = run_apply_commit_node_def request_graph_approval_def Let_def

lemma commit_executes:
  assumes "run_apply_commit_node pe resume s = Done (d, effects)"
    and "\<exists>e \<in> set effects. is_execution e"
  obtains env v where "pending_apply s = Some env" "ae_step_number env \<notin> set (applied_step_ids s)"
    "(d, effects) = settle pe s (ae_step_number env) env v" "vd_approved v"
    "ae_decision env = ALLOW \<or> ae_decision env = HITL
       \<and> (ae_auto_accept env \<or> (\<exists>r. resume = Some r \<and> v = normalize_resume r))"
proof (cases "pending_apply s")
  case None
  with assms show ?thesis by (simp add: commit_defs)
next
  case (Some env)
  have approved: "vd_approved v" if "\<exists>e \<in> set (snd (settle pe s n env v)). is_execution e" for n v
    using that by (auto simp: settle_def split: if_splits)
  show ?thesis
  proof (cases "ae_decision env")
    case ALLOW
    with Some assms approved that [of env "\<lparr>vd_approved = True, vd_comment = None, vd_modified_content = None\<rparr>"]
    show ?thesis by (auto simp: commit_defs split: if_splits)
  next
    case DENY
    with Some assms show ?thesis by (auto simp: commit_defs split: if_splits)
  next
    case HITL
    show ?thesis
    proof (cases "ae_auto_accept env")
      case True
      with Some assms HITL that [of env "\<lparr>vd_approved = True, vd_comment = None, vd_modified_content = None\<rparr>"]
      show ?thesis by (auto simp: commit_defs split: if_splits)
    next
      case False
      with Some assms HITL obtain r where "resume = Some r"
        by (cases resume) (auto simp: commit_defs split: if_splits)
      with Some assms HITL False
      have d: "ae_step_number env \<notin> set (applied_step_ids s)"
        "settle pe s (ae_step_number env) env (normalize_resume r) = (d, effects)"
        by (auto simp: commit_defs split: if_splits)
      with assms(2) have "vd_approved (normalize_resume r)"
        using approved [of "ae_step_number env" "normalize_resume r"] by simp
      with that [of env "normalize_resume r"] Some HITL d \<open>resume = Some r\<close>
      show ?thesis by simp
    qed
  qed
qed

subsection \<open>Properties\<close>

text \<open>
  C1. No effect before consent. If a commit writes files or runs a command, then the staged
  decision is an allow, or the change is auto-accepted, or this run was resumed with an
  approval; a denied envelope and an already applied step never execute; and what executes
  is the staged command or the files of the envelope.
\<close>

theorem apply_executes_with_consent:
  assumes "run_apply_commit_node pe resume s = Done (d, effects)"
    and "\<exists>e \<in> set effects. is_execution e"
  shows "\<exists>env. pending_apply s = Some env
    \<and> ae_step_number env \<notin> set (applied_step_ids s)
    \<and> (ae_decision env = ALLOW \<or> ae_decision env = HITL \<and>
         (ae_auto_accept env \<or> (\<exists>r. resume = Some r \<and> vd_approved (normalize_resume r))))
    \<and> (\<forall>k. RanCommand k \<in> set effects \<longrightarrow> ae_kind env \<noteq> FILE_WRITE \<and> k = or_else (ae_command env) [])
    \<and> (\<forall>c. WroteFiles c \<in> set effects \<longrightarrow> ae_kind env = FILE_WRITE
         \<and> set (dkeys c) \<subseteq> set (map af_file_path (ae_files env)))"
proof -
  from assms obtain env v where env: "pending_apply s = Some env"
      "ae_step_number env \<notin> set (applied_step_ids s)"
      "(d, effects) = settle pe s (ae_step_number env) env v" "vd_approved v"
      "ae_decision env = ALLOW \<or> ae_decision env = HITL
        \<and> (ae_auto_accept env \<or> (\<exists>r. resume = Some r \<and> v = normalize_resume r))"
    by (rule commit_executes)
  have "set (dkeys (commit_contents s env v)) \<subseteq> set (map af_file_path (ae_files env))"
    by (auto simp: commit_contents_def Let_def set_dkeys_dict_or simp del: set_map) auto
  moreover have "WroteFiles c \<in> set (snd (commit_files pe s n env v)) \<Longrightarrow> c = commit_contents s env v"
    "RanCommand k \<notin> set (snd (commit_files pe s n env v))" for c k n
    by (auto simp: commit_files_def write_files_def Let_def split_beta split: option.splits if_splits)
  moreover have "snd (commit_command pe s n env) = [RanCommand (or_else (ae_command env) [])]" for n
    by (simp add: commit_command_def Let_def)
  ultimately have content:
    "(\<forall>k. RanCommand k \<in> set (snd (settle pe s n env v)) \<longrightarrow>
        ae_kind env \<noteq> FILE_WRITE \<and> k = or_else (ae_command env) [])
     \<and> (\<forall>c. WroteFiles c \<in> set (snd (settle pe s n env v)) \<longrightarrow> ae_kind env = FILE_WRITE
        \<and> set (dkeys c) \<subseteq> set (map af_file_path (ae_files env)))" for n
    by (cases "ae_kind env"; simp add: settle_def; blast)
  have "effects = snd (settle pe s (ae_step_number env) env v)"
    using env(3) by (metis snd_conv)
  then show ?thesis using env content [of "ae_step_number env"] by blast
qed

definition demo_pe :: apply_env where
  "demo_pe = \<lparr>pe_read = (\<lambda>_. None), pe_diff = (\<lambda>_ new _. ''+'' @ new), pe_internal = (\<lambda>_. False),
     pe_blast_radius = (\<lambda>_. Some []), pe_blast_threshold = 25, pe_hooks = (\<lambda>_. (True, [])),
     pe_patch_set = (\<lambda>_ _. \<lparr>pr_ok = True, pr_stale_files = [], pr_error = None, pr_applied_files = []\<rparr>),
     pe_command = (\<lambda>_. \<lparr>sh_exit_code = 0, sh_stdout = [], sh_stderr = []\<rparr>), pe_render = (\<lambda>_. []),
     pe_diagnose = (\<lambda>_ _ _. []), pe_validate_ast = (\<lambda>_ _. None), pe_validate_lsp = (\<lambda>_ _. None),
     pe_content_hash = id\<rparr>"

definition demo_step :: wbs_step where
  "demo_step = \<lparr>step_number = 1, st_target_role = ''core_dev'', st_action = run_command,
     st_target_file = ''make'', st_description = ''build'', st_status = in_progress,
     st_requires_iteration = False, st_depends_on = None, st_agent_notes = None\<rparr>"

definition demo_mission :: mission where
  "demo_mission = \<lparr>ms_outcome = [], ms_scope = [], ms_constraints = [], ms_decisions = [],
     ms_tasks = [demo_step], ms_checks = [], ms_ubiquitous_language = [],
     ms_deep_modules_sdd = None, ms_tdd_criteria = []\<rparr>"

definition demo_envelope :: apply_envelope where
  "demo_envelope = \<lparr>ae_step_number = 1, ae_kind = COMMAND_EXECUTE, ae_decision = HITL,
     ae_command = Some ''make'', ae_files = [], ae_risk_labels = [], ae_auto_accept = False,
     ae_blast_radius_files = [], ae_attempt = 0\<rparr>"

definition demo_state :: graph_state where
  "demo_state = fresh_state\<lparr>mission_spec := Some demo_mission, current_step_id := Some 1,
     pending_apply := Some demo_envelope\<rparr>"

lemma demo_commit:
  "run_apply_commit_node demo_pe (Some (JBool True)) demo_state =
     Done (terminal_result demo_state 1 completed [] (Some ''make''), [RanCommand ''make''])"
  by (simp add: commit_defs demo_state_def demo_envelope_def demo_pe_def settle_def
      normalize_resume_def commit_command_def fresh_state_def)

theorem apply_executes_with_consent_witness:
  "\<exists>env. pending_apply demo_state = Some env \<and> ae_kind env \<noteq> FILE_WRITE
    \<and> ''make'' = or_else (ae_command env) []"
  using apply_executes_with_consent [OF demo_commit] by auto

fun executions ::
  "int \<Rightarrow> (apply_env \<times> json option \<times> delta) list \<Rightarrow> graph_state \<Rightarrow> nat" where
  "executions n [] s = 0"
| "executions n ((pe, resume, between) # rs) s =
     (case run_apply_commit_node pe resume s of
        Suspended _ \<Rightarrow> executions n rs (apply_delta between s)
      | Done (d, effects) \<Rightarrow>
          (if list_ex is_execution effects \<and> map_option ae_step_number (pending_apply s) = Some n
           then 1 else 0)
          + executions n rs (apply_delta between (apply_delta d s)))"

lemma commit_marks_applied:
  assumes "run_apply_commit_node pe resume s = Done (d, effects)" and "list_ex is_execution effects"
    and "map_option ae_step_number (pending_apply s) = Some n"
  shows "n \<notin> set (applied_step_ids s) \<and> n \<in> set (applied_step_ids (apply_delta d s))"
proof -
  from assms(2) have ex: "\<exists>e \<in> set effects. is_execution e" by (simp add: list_ex_iff)
  from assms(1) ex obtain env v where env: "pending_apply s = Some env"
      "ae_step_number env \<notin> set (applied_step_ids s)"
      "(d, effects) = settle pe s (ae_step_number env) env v"
    by (rule commit_executes)
  with assms(3) have "(d, effects) = settle pe s n env v" "n \<notin> set (applied_step_ids s)" by auto
  moreover from this ex have "\<exists>e \<in> set (snd (settle pe s n env v)). is_execution e"
    by (metis snd_conv)
  then have "n \<in> set (applied_step_ids (apply_delta (fst (settle pe s n env v)) s))"
    by (rule settle_applied)
  ultimately show ?thesis by (metis fst_conv)
qed

lemma executions_applied: "n \<in> set (applied_step_ids s) \<Longrightarrow> executions n rs s = 0"
proof (induction rs arbitrary: s)
  case (Cons r rs)
  obtain pe resume between where r: "r = (pe, resume, between)" by (cases r)
  have grown: "n \<in> set (applied_step_ids (apply_delta between (apply_delta d s)))" for d
    using Cons.prems applied_grow by blast
  show ?case
  proof (cases "run_apply_commit_node pe resume s")
    case (Suspended rq)
    with r Cons.IH [of "apply_delta between s"] grown [of "[]"] show ?thesis by simp
  next
    case (Done a)
    obtain d effects where a: "a = (d, effects)" by (cases a)
    have "\<not> (list_ex is_execution effects \<and> map_option ae_step_number (pending_apply s) = Some n)"
      using commit_marks_applied [of pe resume s d effects n] Done a Cons.prems by blast
    with r Done a Cons.IH [OF grown] show ?thesis by auto
  qed
qed simp

text \<open>
  C2. A step is executed at most once on a thread. Take any history of commits, each in its
  own environment and with its own resume value, re-delivered resumes included, and let
  other nodes and new turns write whatever they like in between: at most one of them
  executes anything for a given step.
\<close>

theorem apply_executes_at_most_once: "executions n rs s \<le> 1"
proof (induction rs arbitrary: s)
  case (Cons r rs)
  obtain pe resume between where r: "r = (pe, resume, between)" by (cases r)
  show ?case
  proof (cases "run_apply_commit_node pe resume s")
    case (Suspended rq)
    with r Cons.IH show ?thesis by simp
  next
    case (Done a)
    obtain d effects where a: "a = (d, effects)" by (cases a)
    show ?thesis
    proof (cases "list_ex is_execution effects \<and> map_option ae_step_number (pending_apply s) = Some n")
      case True
      with Done a have "n \<in> set (applied_step_ids (apply_delta between (apply_delta d s)))"
        using commit_marks_applied [of pe resume s d effects n] applied_grow by blast
      with r Done a show ?thesis by (simp add: executions_applied)
    next
      case False
      with r Done a Cons.IH [of "apply_delta between (apply_delta d s)"] show ?thesis by auto
    qed
  qed
qed simp

theorem apply_executes_at_most_once_witness:
  "executions 1 [(demo_pe, Some (JBool True), [W_pending_apply (Some demo_envelope)]),
                 (demo_pe, Some (JBool True), [])] demo_state \<le> 1"
  by (rule apply_executes_at_most_once)

lemma settle_settles:
  "\<exists>st. settles s n st (fst (settle pe s n env v))
     \<and> (st \<in> {completed, failed, rejected} \<or> st = revision_requested
        \<and> ae_attempt env < APPLY_REJECT_MAX_ATTEMPTS
        \<and> apply_attempts (apply_delta (fst (settle pe s n env v)) s)
            = dict_or (apply_attempts s) [(n, ae_attempt env + 1)])"
  using declined_cases [of s n env v] command_settles [of s n pe env] files_settle [of s n pe env v]
  unfolding settle_def by (auto split: if_split)

text \<open>
  C8. A finished commit always clears the envelope. When its step was not applied before, the step
  is then completed, failed, rejected or open for a revision, and a revision is open only while
  fewer than two were granted, each one counted, so the re-dispatch loop is bounded. When the
  ledger already contains the step, the commit executes nothing and leaves the plan as it is, the
  step included. No other step of the plan ever changes.
\<close>

theorem apply_commit_settles_step:
  assumes "pending_apply s = Some env" and "ae_step_number env = n"
    and "mission_spec s = Some m" and "step_of m n = Some st"
    and "run_apply_commit_node pe resume s = Done (d, effects)"
  shows "pending_apply (apply_delta d s) = None
    \<and> (\<exists>m' st'. mission_spec (apply_delta d s) = Some m' \<and> step_of m' n = Some st'
        \<and> (if n \<in> set (applied_step_ids s) then m' = m \<and> effects = []
           else is_terminal st' \<or> st_status st' = revision_requested
             \<and> ae_attempt env < 2
             \<and> dget_default (apply_attempts (apply_delta d s)) n 0 = ae_attempt env + 1)
        \<and> (\<forall>k. k \<noteq> n \<longrightarrow> step_of m' k = step_of m k))"
proof (cases "n \<in> set (applied_step_ids s)")
  case True
  with assms have "d = [W_pending_apply None]" "effects = []" by (auto simp: commit_defs)
  with assms(3,4) True show ?thesis by simp
next
  case new: False
  have "\<exists>stat. settles s n stat d \<and> (stat \<in> {completed, failed, rejected} \<or> stat = revision_requested
        \<and> ae_attempt env < APPLY_REJECT_MAX_ATTEMPTS
        \<and> apply_attempts (apply_delta d s) = dict_or (apply_attempts s) [(n, ae_attempt env + 1)])"
  proof (cases "ae_decision env = DENY")
    case True
    with assms new have "settles s n failed d" by (auto simp: commit_defs settles_terminal)
    then show ?thesis by blast
  next
    case False
    with assms new have "\<exists>v. settle pe s n env v = (d, effects)"
      by (cases resume) (auto simp: commit_defs split: if_splits)
    then obtain v where "d = fst (settle pe s n env v)" by (metis fst_conv)
    then show ?thesis using settle_settles [of s n pe env v] by blast
  qed
  then obtain stat where stat: "settles s n stat d"
      "stat \<in> {completed, failed, rejected} \<or> stat = revision_requested
        \<and> ae_attempt env < APPLY_REJECT_MAX_ATTEMPTS
        \<and> apply_attempts (apply_delta d s) = dict_or (apply_attempts s) [(n, ae_attempt env + 1)]"
    by blast
  let ?m = "mark_step_status m n stat" and ?st = "st\<lparr>st_status := stat\<rparr>"
  from stat(1) assms(3) have "mission_spec (apply_delta d s) = Some ?m"
      "pending_apply (apply_delta d s) = None" by (simp_all add: settles_def)
  moreover have "step_of ?m n = Some ?st" "\<forall>k. k \<noteq> n \<longrightarrow> step_of ?m k = step_of m k"
    using assms(4) by (simp_all add: step_of_mark)
  moreover have "is_terminal ?st \<or> st_status ?st = revision_requested \<and> ae_attempt env < 2
      \<and> dget_default (apply_attempts (apply_delta d s)) n 0 = ae_attempt env + 1"
    using stat(2) by (auto simp: is_terminal_def APPLY_REJECT_MAX_ATTEMPTS_def dict_or_def dget_default_dset)
  ultimately show ?thesis using new by auto
qed

theorem apply_commit_settles_step_witness:
  "pending_apply (apply_delta (terminal_result demo_state 1 completed [] (Some ''make'')) demo_state) = None"
proof -
  have "pending_apply demo_state = Some demo_envelope" "ae_step_number demo_envelope = 1"
      "mission_spec demo_state = Some demo_mission"
      "step_of demo_mission 1 = Some demo_step"
    by (simp_all add: demo_state_def demo_envelope_def fresh_state_def demo_mission_def step_of_def
        demo_step_def)
  from apply_commit_settles_step [OF this demo_commit] show ?thesis by simp
qed

lemma prepare_files_envelope:
  assumes "pending_apply s = None"
    and "pending_apply (apply_delta (fst (prepare_files pe s step ps mode)) s) = Some env"
  shows "ae_decision env = fst (write_verdict pe s (filter (\<lambda>p. \<not> pe_internal pe p) ps) mode)
    \<and> ae_auto_accept env = snd (write_verdict pe s (filter (\<lambda>p. \<not> pe_internal pe p) ps) mode)
    \<and> (ae_decision env = ALLOW \<or> ae_auto_accept env \<longrightarrow> fst (pe_hooks pe ''pre_patch''))"
proof -
  let ?paths = "filter (\<lambda>p. \<not> pe_internal pe p) ps"
  obtain verdict auto_accept where w: "write_verdict pe s ?paths mode = (verdict, auto_accept)"
    by (cases "write_verdict pe s ?paths mode")
  obtain pre_ok pre_msgs where h: "pe_hooks pe ''pre_patch'' = (pre_ok, pre_msgs)"
    by (cases "pe_hooks pe ''pre_patch''")
  show ?thesis
  proof (cases "?paths = [] \<or> (verdict = ALLOW \<or> auto_accept) \<and> \<not> pre_ok")
    case True
    then have "pending_apply (apply_delta (fst (prepare_files pe s step ps mode)) s) = pending_apply s"
      by (cases "?paths = []") (simp_all add: prepare_files_def Let_def w h mark_def)
    with assms show ?thesis by simp
  next
    case False
    then have "\<exists>e. pending_apply (apply_delta (fst (prepare_files pe s step ps mode)) s) = Some e
        \<and> ae_decision e = verdict \<and> ae_auto_accept e = auto_accept"
      by (cases "verdict = HITL \<and> \<not> auto_accept"; cases pre_ok)
        (simp_all add: prepare_files_def Let_def w h mark_def)
    with assms(2) False show ?thesis by (auto simp: w h)
  qed
qed



end
