(* ===== verification/Commands.thy ===== *)
theory Commands
  imports ApplyGate
begin

text \<open>
  The guarded shell (\<open>run_guarded_command\<close>, the dangerous-pattern interceptor and the hygiene
  filter of \<open>tools/execution_tools.py\<close>, with the pattern list of \<open>tools/control_tools.py\<close>) and the
  acceptance checks that run through it at the end of a turn (\<open>brain/checks_gate.py\<close>). The
  operator's answer to an approval and the sandbox adapter (\<open>None\<close> before start-up) are the
  environment; every guarded run reports the commands it handed to the adapter.
\<close>

subsection \<open>Dangerous patterns\<close>

definition dot :: re where
  "dot = Chr (\<lambda>c. c \<noteq> CHR 0x0A)"

definition spaces0 :: re where
  "spaces0 = Star (Chr py_space)"

text \<open>A pattern is named here where the code returns its source text.\<close>

definition DANGEROUS_COMMANDS_REGEX :: "(string \<times> re) list" where
  "DANGEROUS_COMMANDS_REGEX =
    [(''rm -rf'', seqs [WordB, lit_ci ''rm'', spaces1, lit ''-'', lit_ci ''r'', Opt (lit_ci ''f''), WordB]),
     (''sudo'', seqs [WordB, lit_ci ''sudo'', WordB]),
     (''drop'', seqs [WordB, lit_ci ''drop'', spaces1,
        alts (map lit_ci [''table'', ''database'', ''schema'']), WordB]),
     (''dd'', seqs [WordB, lit_ci ''dd'', spaces1, lit_ci ''if='', Star dot, lit_ci ''of=/dev/'']),
     (''fork bomb'', seqs [lit '':()'', spaces0, lit ''{'', Star dot, lit '':&'', spaces0, lit ''};:'']),
     (''mkfs'', seqs [WordB, lit_ci ''mkfs'', Alt (lit ''.'') (Chr py_space)]),
     (''chmod 777'', seqs [WordB, lit_ci ''chmod'', spaces1, lit_ci ''-R'', spaces1, lit ''777'', WordB]),
     (''write to disk'', seqs [lit ''>'', spaces0, lit ''/dev/sd'', Chr is_lower]),
     (''pipe to shell'', seqs [WordB, alts (map lit_ci [''curl'', ''wget'']), spaces1, Star dot, lit ''|'',
        spaces0, Opt (seqs [lit_ci ''sudo'', spaces1]),
        alts (map lit_ci [''bash'', ''sh'', ''zsh'']), WordB]),
     (''force push'', seqs [WordB, lit_ci ''git'', spaces1, lit_ci ''push'', Star dot,
        lit_ci ''--force'', WordB])]"

definition match_dangerous :: "string \<Rightarrow> string option" where
  "match_dangerous command =
     map_option fst (find (\<lambda>(source, pat). rsearch pat command) DANGEROUS_COMMANDS_REGEX)"

subsection \<open>Hygiene of a step command\<close>

definition COMMAND_PLACEHOLDER_TOKENS :: "string list" where
  "COMMAND_PLACEHOLDER_TOKENS = [''n/a'', ''na'', ''tbd'', ''todo'', ''none'', ''-'', ''--'', ''...'',
     ''<command>'', ''null'']"

definition COMMAND_MAX_LEN :: nat where "COMMAND_MAX_LEN = 4000"

definition NON_EXECUTABLE_EXTENSIONS :: "string list" where
  "NON_EXECUTABLE_EXTENSIONS = [''.py'', ''.js'', ''.jsx'', ''.ts'', ''.tsx'', ''.json'', ''.md'', ''.txt'',
     ''.yml'', ''.yaml'', ''.css'', ''.html'', ''.htm'', ''.xml'', ''.toml'', ''.ini'', ''.cfg'', ''.env'',
     ''.lock'', ''.java'', ''.go'', ''.rs'', ''.rb'', ''.php'', ''.c'', ''.cpp'', ''.h'', ''.hpp'', ''.cs'',
     ''.sql'', ''.csv'', ''.log'']"

text \<open>\<open>rpartition(".")\<close>: what follows the last dot, the whole text when there is none.\<close>

definition after_last_dot :: "string \<Rightarrow> string" where
  "after_last_dot s = rev (takeWhile (\<lambda>c. c \<noteq> CHR ''.'') (rev s))"

datatype command_refusal =
  NoCommand | EmptyCommand | PlaceholderToken | TooLong | LooksLikePath

definition validate_step_command :: "string option \<Rightarrow> command_refusal + string" where
  "validate_step_command raw =
     (case raw of
        None \<Rightarrow> Inl NoCommand
      | Some r \<Rightarrow>
          (let cmd = strip r in
           if cmd = [] then Inl EmptyCommand
           else if lower cmd \<in> set COMMAND_PLACEHOLDER_TOKENS then Inl PlaceholderToken
           else if COMMAND_MAX_LEN < length cmd then Inl TooLong
           else if (CHR ''/'' \<in> set cmd \<or> CHR 0x5C \<in> set cmd) \<and> CHR '' '' \<notin> set cmd
                   \<and> after_last_dot cmd \<noteq> []
                   \<and> CHR ''.'' # lower (after_last_dot cmd) \<in> set NON_EXECUTABLE_EXTENSIONS
           then Inl LooksLikePath
           else Inr cmd))"

subsection \<open>The guarded run\<close>

definition GUARD_REFUSED_EXIT_CODE :: int where "GUARD_REFUSED_EXIT_CODE = -9"
definition TASK_OUTPUT_TRUNC :: nat where "TASK_OUTPUT_TRUNC = 2000"

record guard_env =
  gd_approves :: "string \<Rightarrow> string \<Rightarrow> bool"
  gd_adapter :: "(string \<Rightarrow> shell_result) option"

definition refusal :: "string \<Rightarrow> shell_result" where
  "refusal text = \<lparr>sh_exit_code = GUARD_REFUSED_EXIT_CODE, sh_stdout = text, sh_stderr = []\<rparr>"

text \<open>The permission gate: a refusal, or nothing when the command may go on.\<close>

definition permission_gate ::
  "guard_env \<Rightarrow> string \<Rightarrow> string option \<Rightarrow> string option \<Rightarrow> shell_result option" where
  "permission_gate ge command session_id permission_mode =
     (case permission_mode of
        None \<Rightarrow> None
      | Some raw \<Rightarrow>
          (let session_mode = session_mode_from_channel (Some raw);
               (verdict, risk_labels) =
                 risk_intercept_guard (Some command) (gate_execute_action session_mode) session_mode
           in case verdict of
                DENY \<Rightarrow> Some (refusal (''[sandbox_bash] DENIED '' @ [CHR 0x97]
                          @ '' plan mode is read-only; command not executed.''))
              | HITL \<Rightarrow>
                  (if str_or session_id [] = []
                   then Some (refusal (''[sandbox_bash] BLOCKED '' @ [CHR 0x97]
                          @ '' command requires HITL approval but no session is available to ''
                          @ ''request it; command not executed.''))
                   else if \<not> gd_approves ge (if risk_labels \<noteq> [] then ''RISK_INTERCEPT''
                                            else ''COMMAND_EXECUTE'') command
                   then Some (refusal (''[sandbox_bash] BLOCKED '' @ [CHR 0x97]
                          @ '' command execution was not approved; command not executed.''))
                   else None)
              | ALLOW \<Rightarrow> None))"

text \<open>The last component lists the commands spawned; an adapter missing at start-up raises.\<close>

definition run_guarded_command ::
  "guard_env \<Rightarrow> string \<Rightarrow> string option \<Rightarrow> string option \<Rightarrow> (string + shell_result) \<times> string list" where
  "run_guarded_command ge command session_id permission_mode =
     (case permission_gate ge command session_id permission_mode of
        Some refused \<Rightarrow> (Inr refused, [])
      | None \<Rightarrow>
          (case match_dangerous command of
             Some pattern \<Rightarrow>
               (Inr (refusal (''[sandbox_bash] DANGEROUS_COMMAND_INTERCEPTED '' @ [CHR 0x97]
                  @ '' pattern '' @ pattern
                  @ '' matched. Use ask_user_question to request HITL approval before retrying.'')), [])
           | None \<Rightarrow>
               (case gd_adapter ge of
                  None \<Rightarrow> (Inl ''Sandbox adapter not initialized via lifespan startup.'', [])
                | Some adapter \<Rightarrow> (Inr (adapter command), [command]))))"

definition truncate_output :: "string \<Rightarrow> string" where
  "truncate_output text =
     (let n = length text in
      if n \<le> TASK_OUTPUT_TRUNC then text
      else (let head = TASK_OUTPUT_TRUNC div 2; tail = TASK_OUTPUT_TRUNC - head
            in take head text @ [CHR 0x0A] @ ''...[TRUNCATED '' @ show_nat (n - TASK_OUTPUT_TRUNC)
               @ '' BYTES]...'' @ [CHR 0x0A] @ last_chars tail text))"

definition render_guarded_command_result :: "shell_result \<Rightarrow> string" where
  "render_guarded_command_result result =
     (if sh_exit_code result = GUARD_REFUSED_EXIT_CODE then sh_stdout result
      else ''[sandbox_bash] exit='' @ show_int (sh_exit_code result) @ [CHR 0x0A]
           @ truncate_output (sh_stdout result @ sh_stderr result))"

subsection \<open>Acceptance checks\<close>

definition KNOWN_CHECK_PATTERNS :: "(re \<times> string) list" where
  "KNOWN_CHECK_PATTERNS =
    [(seqs [WordB, lit_ci ''pytest'', WordB], ''pytest''),
     (seqs [WordB, lit_ci ''mypy'', WordB], ''mypy .''),
     (Alt (seqs [WordB, lit_ci ''ruff'', spaces1, lit_ci ''check'', WordB])
          (seqs [WordB, lit_ci ''ruff'', WordB]), ''ruff check .''),
     (Alt (seqs [WordB, lit_ci ''npm'', spaces1, lit_ci ''run'', spaces1, lit_ci ''lint'', WordB])
          (seqs [WordB, lit_ci ''eslint'', WordB]), ''npm run lint''),
     (seqs [WordB, lit_ci ''npm'', spaces1, lit_ci ''run'', spaces1, lit_ci ''build'', WordB],
      ''npm run build''),
     (seqs [WordB, lit_ci ''npm'', spaces1, Opt (seqs [lit_ci ''run'', spaces1]), lit_ci ''test'', WordB],
      ''npm test'')]"

definition match_executable_command :: "string \<Rightarrow> string option" where
  "match_executable_command check_text =
     map_option snd (find (\<lambda>(pattern, command). rsearch pattern check_text) KNOWN_CHECK_PATTERNS)"

definition run_check ::
  "guard_env \<Rightarrow> graph_state \<Rightarrow> string \<Rightarrow> check_result \<times> string list" where
  "run_check ge state check_text =
     (case match_executable_command check_text of
        None \<Rightarrow> (\<lparr>cr_check = check_text, cr_command = None, cr_status = check_unverified,
                 cr_detail = None\<rparr>, [])
      | Some command \<Rightarrow>
          (let (outcome, spawned) = run_guarded_command ge command (Some (task_id state))
                 (session_permission_mode state);
               unverified = \<lparr>cr_check = check_text, cr_command = Some command,
                 cr_status = check_unverified, cr_detail = None\<rparr>
           in (case outcome of
                 Inl _ \<Rightarrow> unverified
               | Inr result \<Rightarrow>
                   if sh_exit_code result = 0 then unverified\<lparr>cr_status := check_passed\<rparr>
                   else if sh_exit_code result = GUARD_REFUSED_EXIT_CODE then unverified
                   else unverified\<lparr>cr_status := check_failed,
                          cr_detail := Some (render_guarded_command_result result)\<rparr>, spawned)))"

text \<open>\<open>repr\<close> of the check text in the error is the parameter \<open>py_repr\<close>.\<close>

definition check_error :: "(string \<Rightarrow> string) \<Rightarrow> check_result \<Rightarrow> string list" where
  "check_error py_repr r =
     (if cr_status r = check_failed
      then [''Acceptance check failed '' @ [CHR 0x97, CHR '' ''] @ py_repr (cr_check r) @ '' (''
            @ or_else (cr_command r) [] @ ''): '' @ take 300 (or_else (cr_detail r) [])]
      else [])"

definition run_checks_node ::
  "(string \<Rightarrow> string) \<Rightarrow> guard_env \<Rightarrow> graph_state \<Rightarrow> delta \<times> string list" where
  "run_checks_node py_repr ge state =
     (let checks = (case mission_spec state of None \<Rightarrow> [] | Some m \<Rightarrow> ms_checks m) in
      if checks = [] then ([], [])
      else (let runs = map (run_check ge state) checks; results = map fst runs;
                new_errors = concat (map (check_error py_repr) results)
            in (W_check_results results # (if new_errors \<noteq> [] then [W_errors new_errors] else []),
                concat (map snd runs))))"

subsection \<open>What the guard promises\<close>

text \<open>
  What the gate lets through, read off the session mode alone: an unwired caller is not
  gated, a planning or reading session never runs a command, a permissive one runs whatever
  carries no risk label, and every other command needs a session and the operator's consent.
\<close>

definition risky_command :: "session_mode \<Rightarrow> string \<Rightarrow> bool" where
  "risky_command m command \<longleftrightarrow>
     m \<in> {FULL_AUTO, STANDARD} \<and> list_ex (\<lambda>(label, r). rsearch r command) RISK_PATTERNS"

definition command_permitted ::
  "guard_env \<Rightarrow> string \<Rightarrow> string option \<Rightarrow> string option \<Rightarrow> bool" where
  "command_permitted ge command session_id permission_mode =
     (case permission_mode of
        None \<Rightarrow> True
      | Some raw \<Rightarrow>
          (let m = session_mode_from_channel (Some raw); policy = normalize_session_mode m;
               consent = (\<lambda>kind. str_or session_id [] \<noteq> [] \<and> gd_approves ge kind command)
           in if policy \<in> {MODE_READ_ONLY, PLAN_ONLY} then False
              else if policy \<in> {FULL_AUTO, STANDARD}
              then (if command \<noteq> [] \<and> risky_command m command then consent ''RISK_INTERCEPT'' else True)
              else consent ''COMMAND_EXECUTE''))"

lemma scan_risk_patterns_empty:
  "scan_risk_patterns (Some c) = [] \<longleftrightarrow> c = [] \<or> \<not> list_ex (\<lambda>(label, r). rsearch r c) RISK_PATTERNS"
  by (auto simp: scan_risk_patterns_def list_ex_iff filter_empty_conv)

lemma gate_execute_cases:
  "gate_execute_action m =
     (if normalize_session_mode m \<in> {MODE_READ_ONLY, PLAN_ONLY} then DENY
      else if normalize_session_mode m \<in> {FULL_AUTO, STANDARD} then ALLOW else HITL)"
  by (cases m) (simp_all add: gate_execute_action_def evaluate_action_cases)

lemma risk_intercept_not_allowed:
  "d \<noteq> ALLOW \<Longrightarrow> risk_intercept_guard content d m = (d, [])"
  by (simp add: risk_intercept_guard_def)

lemma risk_intercept_allowed:
  "risk_intercept_guard (Some c) ALLOW m =
     (if c \<noteq> [] \<and> risky_command m c then (HITL, scan_risk_patterns (Some c)) else (ALLOW, []))"
proof (cases "c = []")
  case True
  then show ?thesis by (simp add: risk_intercept_guard_def)
next
  case False
  then have "str_or (Some c) [] \<noteq> []" by (cases c) auto
  with False show ?thesis
    using scan_risk_patterns_empty [of c]
    by (simp add: risk_intercept_guard_def risky_command_def Let_def)
qed

lemma permission_gate_permits:
  "permission_gate ge c s m = None \<longleftrightarrow> command_permitted ge c s m"
proof (cases m)
  case None
  then show ?thesis by (simp add: permission_gate_def command_permitted_def)
next
  case (Some raw)
  let ?m = "session_mode_from_channel (Some raw)"
  consider "normalize_session_mode ?m \<in> {MODE_READ_ONLY, PLAN_ONLY}"
    | "normalize_session_mode ?m \<in> {FULL_AUTO, STANDARD}"
    | "normalize_session_mode ?m \<notin> {MODE_READ_ONLY, PLAN_ONLY}"
      "normalize_session_mode ?m \<notin> {FULL_AUTO, STANDARD}" by blast
  then show ?thesis
  proof cases
    case 1
    then have "gate_execute_action ?m = DENY" by (simp add: gate_execute_cases)
    with 1 Some show ?thesis
      by (simp add: permission_gate_def command_permitted_def risk_intercept_not_allowed Let_def)
  next
    case 2
    then have "gate_execute_action ?m = ALLOW" by (auto simp: gate_execute_cases)
    moreover have "normalize_session_mode ?m \<notin> {MODE_READ_ONLY, PLAN_ONLY}" using 2 by auto
    moreover have "risky_command ?m c \<Longrightarrow> c \<noteq> [] \<Longrightarrow> scan_risk_patterns (Some c) \<noteq> []"
      unfolding scan_risk_patterns_empty by (simp add: risky_command_def)
    ultimately show ?thesis
      using 2 Some
      by (auto simp: permission_gate_def command_permitted_def risk_intercept_allowed Let_def)
  next
    case 3
    then have "gate_execute_action ?m = HITL" by (auto simp: gate_execute_cases)
    with 3 Some show ?thesis
      by (simp add: permission_gate_def command_permitted_def risk_intercept_not_allowed Let_def)
  qed
qed

lemma permission_gate_refusal:
  "permission_gate ge c s m = Some r \<Longrightarrow> sh_exit_code r = GUARD_REFUSED_EXIT_CODE"
  by (auto simp: permission_gate_def refusal_def Let_def split_beta
      split: option.splits decision.splits if_splits)

text \<open>The three outcomes of a guarded run, as rewrite rules the consumers share.\<close>

lemma run_guarded_command_refused:
  assumes "\<not> command_permitted ge c s m \<or> match_dangerous c \<noteq> None"
  obtains r where "run_guarded_command ge c s m = (Inr r, [])"
    and "sh_exit_code r = GUARD_REFUSED_EXIT_CODE"
proof (cases "permission_gate ge c s m")
  case None
  with assms have "match_dangerous c \<noteq> None" by (simp add: permission_gate_permits)
  with None that show ?thesis by (auto simp: run_guarded_command_def refusal_def)
next
  case (Some r)
  with that permission_gate_refusal [OF Some] show ?thesis by (simp add: run_guarded_command_def)
qed

lemma run_guarded_command_permitted:
  assumes "command_permitted ge c s m" and "match_dangerous c = None"
  shows "run_guarded_command ge c s m =
    (case gd_adapter ge of
       None \<Rightarrow> (Inl ''Sandbox adapter not initialized via lifespan startup.'', [])
     | Some adapter \<Rightarrow> (Inr (adapter c), [c]))"
  using assms by (simp add: run_guarded_command_def permission_gate_permits [symmetric])

text \<open>
  The documented policy, over the canonical modes: the risk scan covers every mode that runs
  commands without asking, the deprecated alias \<open>AUTO\<close> of \<open>STANDARD\<close> included. The guard tests the
  mode as it was sent, so it departs from this policy exactly in a session still under that alias.
\<close>

definition command_policy ::
  "guard_env \<Rightarrow> string \<Rightarrow> string option \<Rightarrow> string option \<Rightarrow> bool" where
  "command_policy ge command session_id permission_mode =
     (case permission_mode of
        None \<Rightarrow> True
      | Some raw \<Rightarrow>
          (let policy = normalize_session_mode (session_mode_from_channel (Some raw));
               consent = (\<lambda>kind. str_or session_id [] \<noteq> [] \<and> gd_approves ge kind command)
           in if policy \<in> {MODE_READ_ONLY, PLAN_ONLY} then False
              else if policy \<in> {FULL_AUTO, STANDARD}
              then (if command \<noteq> [] \<and> list_ex (\<lambda>(label, r). rsearch r command) RISK_PATTERNS
                    then consent ''RISK_INTERCEPT'' else True)
              else consent ''COMMAND_EXECUTE''))"

definition legacy_auto :: "string option \<Rightarrow> bool" where
  "legacy_auto permission_mode = (map_option (\<lambda>raw. session_mode_from_channel (Some raw)) permission_mode = Some AUTO)"

lemma permitted_by_policy:
  assumes "\<not> legacy_auto m"
  shows "command_permitted ge c s m = command_policy ge c s m"
proof (cases m)
  case (Some raw)
  have "session_mode_from_channel (Some raw) \<noteq> AUTO" using assms Some by (simp add: legacy_auto_def)
  then have "normalize_session_mode (session_mode_from_channel (Some raw)) \<in> {FULL_AUTO, STANDARD} \<longleftrightarrow>
      session_mode_from_channel (Some raw) \<in> {FULL_AUTO, STANDARD}"
    by (cases "session_mode_from_channel (Some raw)") simp_all
  with Some show ?thesis by (auto simp: command_permitted_def command_policy_def risky_command_def Let_def)
qed (simp add: command_permitted_def command_policy_def)

text \<open>
  C34. The guard implements the policy exactly, in every session but one under the deprecated
  mode \<open>AUTO\<close>: in one call, a command reaches the adapter, once and unchanged, exactly when the
  session's policy permits it, with the operator's consent where the policy asks for it, no
  dangerous pattern matches it and an adapter is installed; a command that is refused carries the
  refusal exit code, and the missing adapter is an error only for a command that would have run.
  A dangerous command is refused by every call: the retry after a consent, which the refusal text
  proposes, is refused again, since the guard is given no consent to look at.
\<close>

theorem guarded_command_spawn_exact:
  assumes "\<not> legacy_auto m"
  shows "(snd (run_guarded_command ge c s m) =
      (if command_policy ge c s m \<and> match_dangerous c = None \<and> gd_adapter ge \<noteq> None
       then [c] else []))
   \<and> (isl (fst (run_guarded_command ge c s m)) \<longleftrightarrow>
        command_policy ge c s m \<and> match_dangerous c = None \<and> gd_adapter ge = None)
   \<and> (case fst (run_guarded_command ge c s m) of
        Inl _ \<Rightarrow> True
      | Inr r \<Rightarrow> (if snd (run_guarded_command ge c s m) = []
                 then sh_exit_code r = GUARD_REFUSED_EXIT_CODE
                 else r = the (gd_adapter ge) c))"
proof (cases "command_permitted ge c s m \<and> match_dangerous c = None")
  case True
  with permitted_by_policy [OF assms] show ?thesis
    by (cases "gd_adapter ge") (simp_all add: run_guarded_command_permitted)
next
  case False
  then have "\<not> command_permitted ge c s m \<or> match_dangerous c \<noteq> None" by simp
  then obtain r where "run_guarded_command ge c s m = (Inr r, [])"
    and "sh_exit_code r = GUARD_REFUSED_EXIT_CODE" by (rule run_guarded_command_refused)
  with False permitted_by_policy [OF assms] show ?thesis by auto
qed

text \<open>A cautious session with an operator who refuses.\<close>

theorem guarded_command_spawn_exact_witness:
  "snd (run_guarded_command \<lparr>gd_approves = (\<lambda>_ _. False), gd_adapter = Some (\<lambda>_. refusal [])\<rparr>
     ''ls'' (Some ''s'') (Some ''cautious'')) = []"
proof -
  let ?ge = "\<lparr>gd_approves = (\<lambda>_ _. False), gd_adapter = Some (\<lambda>_. refusal [])\<rparr>"
  have mode: "session_mode_from_channel (Some ''cautious'') = CAUTIOUS" by code_simp
  then have "\<not> legacy_auto (Some ''cautious'')" by (simp add: legacy_auto_def)
  moreover have "\<not> command_policy ?ge ''ls'' (Some ''s'') (Some ''cautious'')"
    by (simp add: command_policy_def mode Let_def)
  ultimately show ?thesis
    using guarded_command_spawn_exact [of "Some ''cautious''" ?ge "''ls''" "Some ''s''"] by simp
qed

text \<open>Whatever the operator and the mode, a command that matches a dangerous pattern never runs.\<close>

lemma consent_does_not_lift_interception:
  "match_dangerous c \<noteq> None \<Longrightarrow> snd (run_guarded_command ge c s m) = []"
  by (rule run_guarded_command_refused [of ge c s m]) auto

text \<open>Under the deprecated alias a command that carries a risk label runs without the consent of the policy.\<close>

lemma legacy_auto_runs_risky:
  assumes "legacy_auto m" and "match_dangerous c = None" and "gd_adapter ge = Some adapter"
  shows "snd (run_guarded_command ge c s m) = [c]"
proof -
  obtain raw where "m = Some raw" "session_mode_from_channel (Some raw) = AUTO"
    using assms(1) by (auto simp: legacy_auto_def)
  then have "command_permitted ge c s m" by (simp add: command_permitted_def risky_command_def Let_def)
  with assms(2,3) show ?thesis by (simp add: run_guarded_command_permitted)
qed

text \<open>The exit code of the run of a check, when it is recognised and may run.\<close>

definition check_ran :: "guard_env \<Rightarrow> graph_state \<Rightarrow> string \<Rightarrow> int option" where
  "check_ran ge state check_text =
     (case match_executable_command check_text of
        None \<Rightarrow> None
      | Some command \<Rightarrow>
          if command_permitted ge command (Some (task_id state)) (session_permission_mode state)
             \<and> match_dangerous command = None
          then map_option (\<lambda>adapter. sh_exit_code (adapter command)) (gd_adapter ge) else None)"

definition honest_result :: "guard_env \<Rightarrow> graph_state \<Rightarrow> check_result \<Rightarrow> bool" where
  "honest_result ge state r \<longleftrightarrow>
     cr_status r = (case check_ran ge state (cr_check r) of
        None \<Rightarrow> check_unverified
      | Some code \<Rightarrow> if code = 0 then check_passed
                    else if code = GUARD_REFUSED_EXIT_CODE then check_unverified else check_failed)"

lemma run_check_honest:
  "honest_result ge state (fst (run_check ge state c)) \<and> cr_check (fst (run_check ge state c)) = c
   \<and> snd (run_check ge state c) =
       (if check_ran ge state c = None then [] else [the (match_executable_command c)])"
proof (cases "match_executable_command c")
  case None
  then show ?thesis by (simp add: run_check_def honest_result_def check_ran_def)
next
  case (Some command)
  let ?perm = "command_permitted ge command (Some (task_id state)) (session_permission_mode state)
    \<and> match_dangerous command = None"
  show ?thesis
  proof (cases ?perm)
    case True
    with Some show ?thesis
      by (cases "gd_adapter ge")
        (simp_all add: run_check_def honest_result_def check_ran_def run_guarded_command_permitted
          GUARD_REFUSED_EXIT_CODE_def Let_def)
  next
    case False
    then have "\<not> command_permitted ge command (Some (task_id state)) (session_permission_mode state)
        \<or> match_dangerous command \<noteq> None" by simp
    then obtain r where "run_guarded_command ge command (Some (task_id state))
        (session_permission_mode state) = (Inr r, [])"
      and "sh_exit_code r = GUARD_REFUSED_EXIT_CODE" by (rule run_guarded_command_refused)
    with False Some show ?thesis
      by (auto simp: run_check_def honest_result_def check_ran_def GUARD_REFUSED_EXIT_CODE_def Let_def)
  qed
qed

lemma check_errors_count:
  "length (concat (map (check_error py_repr) rs)) = length (filter (\<lambda>r. cr_status r = check_failed) rs)"
  by (induction rs) (auto simp: check_error_def)

text \<open>
  The acceptance checks report honestly: one result per check of the plan, in the plan's
  order; a result says passed exactly when its check is recognised and the adapter ran its
  command with exit code zero, and failed exactly when the adapter ran it with another exit
  code than the guard's refusal code; every command run belongs to a recognised check that the
  session's policy permits, and one error is raised per failed check.
\<close>

theorem checks_report_honestly:
  assumes "mission_spec state = Some m" and "ms_checks m \<noteq> []"
  shows "\<exists>results errors.
      fst (run_checks_node py_repr ge state) =
        W_check_results results # (if errors = [] then [] else [W_errors errors])
      \<and> map cr_check results = ms_checks m
      \<and> list_all (honest_result ge state) results
      \<and> length errors = length (filter (\<lambda>r. cr_status r = check_failed) results)
      \<and> snd (run_checks_node py_repr ge state) =
          map (\<lambda>c. the (match_executable_command c))
            (filter (\<lambda>c. check_ran ge state c \<noteq> None) (ms_checks m))"
proof -
  let ?results = "map (\<lambda>c. fst (run_check ge state c)) (ms_checks m)"
  let ?errors = "concat (map (check_error py_repr) ?results)"
  have node: "run_checks_node py_repr ge state =
      (W_check_results ?results # (if ?errors \<noteq> [] then [W_errors ?errors] else []),
       concat (map (\<lambda>c. snd (run_check ge state c)) (ms_checks m)))"
    using assms by (simp add: run_checks_node_def Let_def comp_def)
  have checks: "map cr_check ?results = ms_checks m"
    by (simp add: run_check_honest comp_def)
  have honest: "list_all (honest_result ge state) ?results"
    by (simp add: list_all_iff run_check_honest)
  have "concat (map (\<lambda>c. snd (run_check ge state c)) cs) =
      map (\<lambda>c. the (match_executable_command c)) (filter (\<lambda>c. check_ran ge state c \<noteq> None) cs)" for cs
    by (induction cs) (simp_all add: run_check_honest)
  with node checks honest check_errors_count [of py_repr ?results] show ?thesis
    by (intro exI [of _ ?results] exI [of _ ?errors]) simp
qed

definition demo_guard :: guard_env where
  "demo_guard = \<lparr>gd_approves = (\<lambda>_ _. True),
     gd_adapter = Some (\<lambda>c. \<lparr>sh_exit_code = (if c = ''pytest'' then 0 else 1),
        sh_stdout = c, sh_stderr = []\<rparr>)\<rparr>"

definition demo_checks :: graph_state where
  "demo_checks = fresh_state\<lparr>mission_spec := Some (demo_mission\<lparr>ms_checks := [''pytest ok'', ''nice'', ''ruff'']\<rparr>)\<rparr>"

theorem checks_report_honestly_witness:
  "(\<exists>results. map cr_check results = [''pytest ok'', ''nice'', ''ruff'']
      \<and> list_all (honest_result demo_guard demo_checks) results)"
proof -
  have "mission_spec demo_checks = Some (demo_mission\<lparr>ms_checks := [''pytest ok'', ''nice'', ''ruff'']\<rparr>)"
    by (simp add: demo_checks_def)
  from checks_report_honestly [OF this, of "\<lambda>x. x" demo_guard]
  obtain results where "map cr_check results = [''pytest ok'', ''nice'', ''ruff'']"
    and "list_all (honest_result demo_guard demo_checks) results" by force
  then show ?thesis by (intro exI [of _ results] conjI)
qed

text \<open>
  Two gaps of the guard's tables. The exit code reserved for a refusal is also the one the
  host reports for a process killed by signal 9, so a check whose run was killed is reported as
  if it had never run and raises no error; and the interceptor of recursive deletion reads
  \<open>rm -rf\<close> and \<open>rm -r -f\<close>, while \<open>rm -fr\<close>, which does the same, matches no dangerous pattern.
\<close>

theorem guard_table_gaps:
  "(let killed = demo_guard\<lparr>gd_adapter :=
          Some (\<lambda>c. \<lparr>sh_exit_code = -9, sh_stdout = [], sh_stderr = ''Killed''\<rparr>)\<rparr>;
        r = run_check killed fresh_state ''pytest passes''
    in snd r = [''pytest''] \<and> cr_status (fst r) = check_unverified
       \<and> check_error (\<lambda>x. x) (fst r) = [])
   \<and> match_dangerous ''rm -fr /srv'' = None
   \<and> match_dangerous ''rm -rf /srv'' = Some ''rm -rf'' \<and> match_dangerous ''rm -r -f /srv'' = Some ''rm -rf''"
proof -
  have "match_dangerous ''rm -fr /srv'' = None \<and> match_dangerous ''rm -rf /srv'' = Some ''rm -rf''
      \<and> match_dangerous ''rm -r -f /srv'' = Some ''rm -rf''" by code_simp
  moreover have "let killed = demo_guard\<lparr>gd_adapter :=
          Some (\<lambda>c. \<lparr>sh_exit_code = -9, sh_stdout = [], sh_stderr = ''Killed''\<rparr>)\<rparr>;
        r = run_check killed fresh_state ''pytest passes''
    in snd r = [''pytest''] \<and> cr_status (fst r) = check_unverified \<and> check_error (\<lambda>x. x) (fst r) = []"
    by code_simp
  ultimately show ?thesis by blast
qed

end
