(* ===== verification/TurnFlow.thy ===== *)
theory TurnFlow
  imports ApplyGate
begin

text \<open>
  How a turn moves through the compiled graph: the conditional edges and the reflexion guard of
  \<open>brain/engine.py\<close>, the output guardrail and its router (\<open>brain/guardrails.py\<close>), the review of
  the model route (\<open>brain/routing_gate.py\<close>), the loop-back router of the autonomous cell, the
  dead-letter decorator (\<open>core/dead_letter.py\<close>) and the self-healing agent
  (\<open>agents/error_correction.py\<close>). Telemetry, narration and the companion's schedule have no
  effect on the state and are left out.
\<close>

subsection \<open>Edges of the spine\<close>

definition END :: string where "END = ''__end__''"

definition step_dispatch :: "graph_state \<Rightarrow> delta" where
  "step_dispatch state = []"

definition route_after_summarize :: "graph_state \<Rightarrow> string" where
  "route_after_summarize state =
     (if mission_spec state \<noteq> None then ''step_dispatch''
      else if planner_mode_active state then ''ideation_loop''
      else ''planner_agent'')"

definition route_after_ideation :: "graph_state \<Rightarrow> string" where
  "route_after_ideation state =
     (if hitl_pending state then END
      else if ideation_synthesized state then ''planner_agent''
      else END)"

definition route_after_planner :: "graph_state \<Rightarrow> string" where
  "route_after_planner state =
     (let mode = normalize_session_mode (session_mode_from_channel (session_permission_mode state)) in
      if mission_spec state = None then END
      else if mode = PLAN_ONLY then END
      else ''step_dispatch'')"

definition route_planner_dispatch :: "graph_state \<Rightarrow> string" where
  "route_planner_dispatch state =
     (let mode = normalize_session_mode (session_mode_from_channel (session_permission_mode state)) in
      if mission_spec state = None then END
      else if mode = PLAN_ONLY then END
      else if dispatch_plan_present state then ''dispatch_origin'' else ''step_dispatch'')"

definition route_researcher_dispatch :: "graph_state \<Rightarrow> string" where
  "route_researcher_dispatch state =
     (if dispatch_plan_present state then ''dispatch_origin'' else ''planner_agent'')"

definition route_after_coder :: "graph_state \<Rightarrow> string" where
  "route_after_coder state = (if healing_required state then ''error_correction'' else ''contract_guard'')"

text \<open>Of the cell's trajectory only the status of each entry matters here.\<close>

definition route_after_cell :: "string option list \<Rightarrow> string" where
  "route_after_cell trajectory =
     (case find (\<lambda>status. status \<noteq> None) (rev trajectory) of
        None \<Rightarrow> ''contract_guard''
      | Some verdict \<Rightarrow> if verdict = Some ''continue'' then ''agentic_cell'' else ''contract_guard'')"

subsection \<open>Dispatch of the steps\<close>

text \<open>A \<open>Send\<close> names the node and the state it receives.\<close>

type_synonym send = "string \<times> graph_state"

definition coder_target :: "wbs_step option \<Rightarrow> string" where
  "coder_target step =
     (case step of
        None \<Rightarrow> ''coder_agent''
      | Some s \<Rightarrow> if st_requires_iteration s then ''agentic_cell'' else ''coder_agent'')"

definition send_step :: "graph_state \<Rightarrow> wbs_step \<Rightarrow> send" where
  "send_step state step =
     (coder_target (Some step),
      state\<lparr>active_role := Some (st_target_role step), current_step_id := Some (step_number step)\<rparr>)"

definition route_to_coders :: "graph_state \<Rightarrow> send list" where
  "route_to_coders state =
     (if provider state = ''CLOUD'' \<and> parallel_tasks state \<noteq> []
      then map (send_step state) (parallel_tasks state)
      else (case (case mission_spec state of
                    None \<Rightarrow> None
                  | Some m \<Rightarrow> find (\<lambda>t. is_dispatchable t (Some (ms_tasks m))) (ms_tasks m)) of
              None \<Rightarrow> []
            | Some first_pending \<Rightarrow> [send_step state first_pending]))"

subsection \<open>The output guardrail\<close>

text \<open>\<open>validation\<close> is pydantic's verdict on the output: the text of the error, if any.\<close>

definition GUARDRAIL_MAX :: int where "GUARDRAIL_MAX = GUARDRAIL_MAX_RETRIES"

definition run_validate_output_node :: "(graph_state \<Rightarrow> string option) \<Rightarrow> graph_state \<Rightarrow> delta" where
  "run_validate_output_node validation state =
     (case validation state of
        None \<Rightarrow> [W_guardrail_failed False, W_validation_feedback None]
      | Some exc \<Rightarrow>
          (let new_retry = retry_count state + 1 in
           if GUARDRAIL_MAX < new_retry
           then [W_guardrail_failed False, W_validation_feedback None]
           else [W_guardrail_failed True,
                 W_validation_feedback (Some (''[GUARDRAIL ERROR '' @ [CHR 0x97] @ '' attempt ''
                   @ show_int new_retry @ ''/'' @ show_int GUARDRAIL_MAX @ '']: '' @ exc
                   @ ''. Correct your response and try again.'')),
                 W_retry_count new_retry]))"

text \<open>The step that just ran is in a status the loop cannot leave.\<close>

definition stalled :: "graph_state \<Rightarrow> bool" where
  "stalled state \<longleftrightarrow>
     (case (mission_spec state, current_step_id state) of
        (Some m, Some n) \<Rightarrow>
          (case step_of m n of
             None \<Rightarrow> False
           | Some just_ran \<Rightarrow> \<not> is_terminal just_ran \<and> st_status just_ran \<noteq> revision_requested)
      | _ \<Rightarrow> False)"

definition route_after_validation :: "graph_state \<Rightarrow> string" where
  "route_after_validation state =
     (if guardrail_failed state then ''coder_agent''
      else if healing_required state then ''error_correction''
      else (let tasks = (case mission_spec state of None \<Rightarrow> [] | Some m \<Rightarrow> ms_tasks m) in
            if stalled state then END
            else if list_ex (\<lambda>t. is_dispatchable t (Some tasks)) tasks then ''step_dispatch''
            else if normalize_effort_level (effort_level state) \<noteq> ''deep'' then END
            else ''run_checks''))"

subsection \<open>The review of the model route\<close>

definition MODEL_ROUTE_REVIEW_KIND :: string where "MODEL_ROUTE_REVIEW_KIND = ''MODEL_ROUTE_REVIEW''"
definition DEFAULT_ROUTING_DECISION :: string where "DEFAULT_ROUTING_DECISION = ''LOCAL_BIG''"

definition GATE_MODES :: "session_mode list" where
  "GATE_MODES = [CAUTIOUS, PLAN_ONLY]"

text \<open>\<open>dumps\<close> is the JSON text of the decision with its two scores.\<close>

definition run_model_route_node ::
  "(string \<Rightarrow> string) \<Rightarrow> json option \<Rightarrow> graph_state \<Rightarrow> delta node_result" where
  "run_model_route_node dumps resume state =
     (let session_mode = session_mode_from_channel (session_permission_mode state);
          routing_decision = str_or (context_routing_decision state) DEFAULT_ROUTING_DECISION
      in if session_mode \<notin> set GATE_MODES
         then Done [W_confirmed_routing_decision (Some routing_decision)]
         else request_graph_approval
           \<lparr>rq_session_id = task_id state,
            rq_action_description = ''Routing selected a model for this turn. Accept it, or pick a ''
              @ ''different tier from the active preset.'',
            rq_proposed_content = Some (dumps routing_decision),
            rq_request_kind = MODEL_ROUTE_REVIEW_KIND, rq_proposed_files = None,
            rq_risk_patterns = None\<rparr> resume
           (\<lambda>decision.
              if \<not> vd_approved decision
              then Done [W_confirmed_routing_decision None, W_hitl_pending True]
              else (let override = strip (str_or (vd_modified_content decision) []) in
                    Done [W_confirmed_routing_decision
                            (Some (if override \<noteq> [] then override else routing_decision)),
                          W_hitl_pending False])))"

definition route_after_model_route :: "graph_state \<Rightarrow> string" where
  "route_after_model_route state = (if hitl_pending state then END else ''planner_agent'')"

subsection \<open>Failures of a node\<close>

text \<open>
  What the body of a node comes to: a delta, an exception (its class, text and traceback), a
  native interrupt, or a cancellation.
\<close>

datatype node_outcome = Returned delta | Raised string string string | Interrupted | Cancelled

definition REFLEXION_TRACE_CAP :: nat where "REFLEXION_TRACE_CAP = 4000"

definition reflexion_guard ::
  "string \<Rightarrow> breaker \<Rightarrow> rat \<Rightarrow> graph_state \<Rightarrow> node_outcome \<Rightarrow> node_outcome" where
  "reflexion_guard node_name br now state outcome =
     (case outcome of
        Raised exc_class exc_text tb \<Rightarrow>
          (let attempts = correction_attempts state;
               signature = normalize_signature node_name exc_class exc_text
           in if CORRECTION_MAX_ATTEMPTS \<le> attempts \<or> \<not> allow br now signature then outcome
              else Returned
                [W_healing_required True, W_correction_attempts (attempts + 1),
                 W_last_error_trace (Some (take REFLEXION_TRACE_CAP tb)),
                 W_failed_node (Some node_name), W_failure_signature (Some signature)])
      | _ \<Rightarrow> outcome)"

datatype recovery = PromotedCheckpoint string | DeadLetter string string string string

text \<open>The recoveries are attempted in this order; neither can mask the exception.\<close>

definition dead_letter_decorator ::
  "string \<Rightarrow> graph_state \<Rightarrow> node_outcome \<Rightarrow> node_outcome \<times> recovery list" where
  "dead_letter_decorator node_name state outcome =
     (case outcome of
        Raised exc_class exc_text tb \<Rightarrow>
          (outcome, [PromotedCheckpoint (task_id state),
                     DeadLetter (task_id state) node_name exc_class exc_text])
      | _ \<Rightarrow> (outcome, []))"

text \<open>The wrapper stack of the coder as the engine builds it.\<close>

definition coder_entry ::
  "breaker \<Rightarrow> rat \<Rightarrow> graph_state \<Rightarrow> node_outcome \<Rightarrow> node_outcome \<times> recovery list" where
  "coder_entry br now state outcome =
     dead_letter_decorator ''coder_agent'' state
       (reflexion_guard ''coder_agent'' br now state outcome)"

subsection \<open>Lemmas on the routers\<close>

lemma find_dispatchable:
  "list_ex (\<lambda>t. is_dispatchable t (Some ts)) ts \<longleftrightarrow>
     find (\<lambda>t. is_dispatchable t (Some ts)) ts \<noteq> None"
  by (auto simp: list_ex_iff find_None_iff)

lemma relay_sends:
  assumes "provider s \<noteq> ''CLOUD'' \<or> parallel_tasks s = []" and "mission_spec s = Some m"
  shows "route_to_coders s =
    (case find (\<lambda>t. is_dispatchable t (Some (ms_tasks m))) (ms_tasks m) of
       None \<Rightarrow> [] | Some t \<Rightarrow> [send_step s t])"
  using assms by (auto simp: route_to_coders_def)

lemma relay_no_plan:
  "parallel_tasks s = [] \<Longrightarrow> mission_spec s = None \<Longrightarrow> route_to_coders s = []"
  by (simp add: route_to_coders_def)

text \<open>The wire names of the nodes differ pairwise.\<close>

lemma node_names [simp]:
  "''coder_agent'' \<noteq> ''step_dispatch''" "''error_correction'' \<noteq> ''step_dispatch''"
  "END \<noteq> ''step_dispatch''" "''run_checks'' \<noteq> ''step_dispatch''" "END \<noteq> ''run_checks''"
  "END \<noteq> ''planner_agent''"
  by (simp_all add: END_def)

lemma route_advances_iff:
  "route_after_validation s = ''step_dispatch'' \<longleftrightarrow>
     \<not> guardrail_failed s \<and> \<not> healing_required s \<and> \<not> stalled s
     \<and> (\<exists>m. mission_spec s = Some m \<and>
          list_ex (\<lambda>t. is_dispatchable t (Some (ms_tasks m))) (ms_tasks m))"
  by (cases "mission_spec s") (simp_all add: route_after_validation_def Let_def)

subsection \<open>Properties\<close>

text \<open>
  C19. With no parallel tasks pending, routing and dispatch agree on the relay: the guardrail's router loops back exactly when
  nothing failed, the step that just ran is not stuck and some step is dispatchable; and from
  the state it routes on, a loop back sends exactly one step, the first dispatchable one, to
  the surface the planner chose for it, under its own role and number. So the loop never
  dispatches nothing, and a turn that ends without a stall leaves nothing to dispatch.
\<close>

theorem advance_sends_one_step:
  assumes "parallel_tasks s = []"
  shows "(route_after_validation s = ''step_dispatch'' \<longleftrightarrow>
      \<not> guardrail_failed s \<and> \<not> healing_required s \<and> \<not> stalled s \<and> route_to_coders s \<noteq> [])
    \<and> (route_to_coders s \<noteq> [] \<longrightarrow>
        (\<exists>m i. mission_spec s = Some m \<and> i < length (ms_tasks m)
           \<and> is_dispatchable (ms_tasks m ! i) (Some (ms_tasks m))
           \<and> (\<forall>j<i. \<not> is_dispatchable (ms_tasks m ! j) (Some (ms_tasks m)))
           \<and> route_to_coders s = [send_step s (ms_tasks m ! i)]))"
proof (cases "mission_spec s")
  case None
  with assms show ?thesis by (simp add: route_advances_iff relay_no_plan)
next
  case (Some m)
  let ?f = "find (\<lambda>t. is_dispatchable t (Some (ms_tasks m))) (ms_tasks m)"
  have sends: "route_to_coders s = (case ?f of None \<Rightarrow> [] | Some t \<Rightarrow> [send_step s t])"
    using assms Some by (intro relay_sends) simp_all
  then have "route_to_coders s \<noteq> [] \<longleftrightarrow> ?f \<noteq> None" by (cases ?f) simp_all
  then have "route_after_validation s = ''step_dispatch'' \<longleftrightarrow>
      \<not> guardrail_failed s \<and> \<not> healing_required s \<and> \<not> stalled s \<and> route_to_coders s \<noteq> []"
    using Some by (simp add: route_advances_iff find_dispatchable)
  moreover have "route_to_coders s \<noteq> [] \<longrightarrow>
        (\<exists>i. i < length (ms_tasks m) \<and> is_dispatchable (ms_tasks m ! i) (Some (ms_tasks m))
           \<and> (\<forall>j<i. \<not> is_dispatchable (ms_tasks m ! j) (Some (ms_tasks m)))
           \<and> route_to_coders s = [send_step s (ms_tasks m ! i)])"
    using sends by (cases ?f) (auto simp: find_Some_iff)
  ultimately show ?thesis using Some by blast
qed

text \<open>Two pending steps, the first of which depends on the second.\<close>

definition idle_mission :: mission where
  "idle_mission = demo_mission\<lparr>ms_tasks :=
     [demo_step\<lparr>st_status := pending, st_depends_on := Some [2]\<rparr>,
      demo_step\<lparr>step_number := 2, st_status := pending\<rparr>]\<rparr>"

definition idle_state :: "int option \<Rightarrow> graph_state" where
  "idle_state step = fresh_state\<lparr>mission_spec := Some idle_mission, current_step_id := step\<rparr>"

theorem advance_sends_one_step_witness:
  "route_after_validation (idle_state None) = ''step_dispatch''"
proof -
  let ?s = "idle_state None"
  have f: "parallel_tasks ?s = []" "mission_spec ?s = Some idle_mission"
    "\<not> guardrail_failed ?s" "\<not> healing_required ?s" "\<not> stalled ?s"
    by (simp_all add: idle_state_def fresh_state_def stalled_def)
  have "route_to_coders ?s \<noteq> []"
    by (simp add: relay_sends f idle_mission_def demo_step_def is_dispatchable_def)
  with advance_sends_one_step [OF f(1)] f show ?thesis by simp
qed

text \<open>
  C26. A failure of the coder is either healed or recorded, never both and never lost: while
  the turn has correction attempts left and the signature's breaker admits it, the exception
  becomes a healing signal that consumes one attempt and writes no dead letter; otherwise it
  surfaces unchanged after exactly one promotion and one dead letter. A suspension, a
  cancellation and a normal return pass through the whole stack untouched and unrecorded.
\<close>

theorem coder_failure_healed_or_recorded:
  "(case outcome of
      Raised exc_class exc_text tb \<Rightarrow>
        (if correction_attempts s < CORRECTION_MAX_ATTEMPTS
            \<and> allow br now (normalize_signature ''coder_agent'' exc_class exc_text)
         then (\<exists>d. coder_entry br now s outcome = (Returned d, [])
                 \<and> healing_required (apply_delta d s)
                 \<and> route_after_coder (apply_delta d s) = ''error_correction''
                 \<and> correction_attempts (apply_delta d s) = correction_attempts s + 1
                 \<and> mission_spec (apply_delta d s) = mission_spec s
                 \<and> length (or_else (last_error_trace (apply_delta d s)) []) \<le> REFLEXION_TRACE_CAP)
         else coder_entry br now s outcome =
                (outcome, [PromotedCheckpoint (task_id s),
                           DeadLetter (task_id s) ''coder_agent'' exc_class exc_text]))
    | _ \<Rightarrow> coder_entry br now s outcome = (outcome, []))"
  by (cases outcome)
    (auto simp: coder_entry_def dead_letter_decorator_def reflexion_guard_def route_after_coder_def Let_def)

text \<open>A delta that raises the healing signal pays for it with one correction attempt.\<close>

definition signals :: "delta \<Rightarrow> bool" where
  "signals d \<longleftrightarrow> W_healing_required True \<in> set d"

definition pays :: "graph_state \<Rightarrow> delta \<Rightarrow> bool" where
  "pays s d \<longleftrightarrow>
     (signals d \<longrightarrow> correction_attempts s < CORRECTION_MAX_ATTEMPTS)
     \<and> correction_attempts (apply_delta d s) = correction_attempts s + (if signals d then 1 else 0)"

lemma pays_terminal: "pays s (terminal_result t n st errs c)"
  by (simp add: pays_def signals_def terminal_result_def mark_def)

lemma pays_declined: "pays s (handle_declined t n env v)"
  by (simp add: handle_declined_def Let_def pays_terminal) (simp add: pays_def signals_def mark_def)

lemma correction_ceiling: "\<not> resolve_correction_ceiling e \<le> a \<Longrightarrow> a < CORRECTION_MAX_ATTEMPTS"
  using resolve_correction_ceiling_bounds [of e] by simp

lemma pays_rejected_patch: "pays s (rejected_patch s n trace cls contents f)"
  using correction_ceiling [of "effort_level s" "correction_attempts s"]
  by (simp add: rejected_patch_def Let_def pays_terminal)
    (simp add: pays_def signals_def healing_delta_def mark_def)

lemma pays_commit_command: "pays s (fst (commit_command pe s n env))"
proof -
  let ?c = "or_else (ae_command env) []"
  consider "sh_exit_code (pe_command pe ?c) = 0"
    | "sh_exit_code (pe_command pe ?c) \<noteq> 0"
      "resolve_correction_ceiling (effort_level s) \<le> correction_attempts s"
    | "sh_exit_code (pe_command pe ?c) \<noteq> 0"
      "\<not> resolve_correction_ceiling (effort_level s) \<le> correction_attempts s" by blast
  then show ?thesis
  proof cases
    case 1
    then show ?thesis by (simp add: commit_command_def Let_def pays_terminal)
  next
    case 2
    then show ?thesis by (simp add: commit_command_def Let_def pays_def signals_def mark_def)
  next
    case 3
    then show ?thesis using correction_ceiling [OF 3(2)]
      by (simp add: commit_command_def Let_def pays_def signals_def healing_delta_def mark_def)
  qed
qed

lemma pays_write_files: "pays s (fst (write_files pe s n env contents))"
proof (cases "pr_ok (pe_patch_set pe contents (dict_or [] (concat (map (\<lambda>f. case af_base_hash f of
            Some h \<Rightarrow> if h \<noteq> [] then [(af_file_path f, h)] else [] | None \<Rightarrow> []) (ae_files env)))))")
  case True
  then show ?thesis by (simp add: write_files_def Let_def pays_def signals_def mark_def)
next
  case False
  then show ?thesis by (simp add: write_files_def Let_def pays_terminal)
qed

lemma pays_commit_files: "pays s (fst (commit_files pe s n env v))"
  by (auto simp: commit_files_def Let_def split_beta pays_rejected_patch pays_terminal pays_write_files
      split: option.split)

lemma pays_settle: "pays s (fst (settle pe s n env v))"
  by (simp add: settle_def pays_declined pays_commit_command pays_commit_files)

lemma pays_commit:
  assumes "run_apply_commit_node pe resume s = Done (d, effects)"
  shows "pays s d"
proof (cases "pending_apply s")
  case None
  with assms show ?thesis by (simp add: commit_defs pays_def signals_def)
next
  case (Some env)
  have skip: "pays s [W_pending_apply None]" by (simp add: pays_def signals_def)
  have "d = [W_pending_apply None] \<or> (\<exists>n st errs c. d = terminal_result s n st errs c)
      \<or> (\<exists>n v. d = fst (settle pe s n env v))"
    using assms Some
    by (cases resume) (auto simp: commit_defs split: if_splits, (metis fst_conv)+)
  then show ?thesis using skip pays_terminal pays_settle by blast
qed

text \<open>
  The events of a turn that touch the healing loop: the coder fails, COMMIT runs, or another
  node writes channels other than the correction budget.
\<close>

datatype turn_event =
    CoderFails breaker rat string string string
  | CommitRuns apply_env "json option"
  | OtherNode delta

definition event_delta :: "graph_state \<Rightarrow> turn_event \<Rightarrow> delta" where
  "event_delta s e =
     (case e of
        CoderFails br now exc_class exc_text tb \<Rightarrow>
          (case coder_entry br now s (Raised exc_class exc_text tb) of (Returned d, _) \<Rightarrow> d | _ \<Rightarrow> [])
      | CommitRuns pe resume \<Rightarrow>
          (case run_apply_commit_node pe resume s of Done (d, _) \<Rightarrow> d | Suspended _ \<Rightarrow> [])
      | OtherNode d \<Rightarrow>
          filter (\<lambda>w. case w of W_correction_attempts _ \<Rightarrow> False | W_healing_required v \<Rightarrow> \<not> v | _ \<Rightarrow> True) d)"

fun healing_signals :: "turn_event list \<Rightarrow> graph_state \<Rightarrow> nat" where
  "healing_signals [] s = 0"
| "healing_signals (e # es) s =
     (if signals (event_delta s e) then 1 else 0) + healing_signals es (apply_delta (event_delta s e) s)"

lemma pays_filtered:
  "pays s (filter (\<lambda>w. case w of W_correction_attempts _ \<Rightarrow> False | W_healing_required v \<Rightarrow> \<not> v | _ \<Rightarrow> True) d)"
proof -
  let ?P = "\<lambda>w. case w of W_correction_attempts _ \<Rightarrow> False | W_healing_required v \<Rightarrow> \<not> v | _ \<Rightarrow> True"
  have "correction_attempts (apply_delta (filter ?P d) t) = correction_attempts t" for t
  proof (induction d arbitrary: t)
    case (Cons w d)
    have "?P w \<Longrightarrow> correction_attempts (apply_write w t) = correction_attempts t"
      by (cases w) simp_all
    with Cons show ?case by simp
  qed simp
  then show ?thesis by (simp add: pays_def signals_def)
qed

lemma pays_event: "pays s (event_delta s e)"
proof (cases e)
  case (CoderFails br now exc_class exc_text tb)
  have "pays s []" by (simp add: pays_def signals_def)
  with CoderFails show ?thesis
    by (auto simp: event_delta_def coder_entry_def dead_letter_decorator_def reflexion_guard_def
        Let_def pays_def signals_def)
next
  case (CommitRuns pe resume)
  have "pays s []" by (simp add: pays_def signals_def)
  with CommitRuns pays_commit [of pe resume s] show ?thesis
    by (auto simp: event_delta_def split: node_result.split)
next
  case (OtherNode d)
  then show ?thesis by (simp add: event_delta_def pays_filtered)
qed

text \<open>
  C30. The self-healing loop is bounded, whatever fails and whoever fails: over any sequence of
  coder failures, commits and other nodes of a session (breaker, clock and environment moving
  arbitrarily between them), the reflexion guard and COMMIT together raise at most the healing
  signals that the correction budget still holds, so at most three.
\<close>

theorem healing_loop_bounded:
  "int (healing_signals es s) \<le> max 0 (CORRECTION_MAX_ATTEMPTS - correction_attempts s)"
proof (induction es arbitrary: s)
  case Nil
  then show ?case by simp
next
  case (Cons e es)
  let ?t = "apply_delta (event_delta s e) s"
  have "int (healing_signals es ?t) \<le> max 0 (CORRECTION_MAX_ATTEMPTS - correction_attempts ?t)"
    by (rule Cons.IH)
  moreover have "pays s (event_delta s e)" by (rule pays_event)
  ultimately show ?case by (cases "signals (event_delta s e)") (simp_all add: pays_def)
qed

text \<open>The guardrail loop: the node runs, other nodes write (not the retry counter), and so on.\<close>

fun guardrail_retries ::
  "((graph_state \<Rightarrow> string option) \<times> (graph_state \<Rightarrow> graph_state)) list \<Rightarrow> graph_state \<Rightarrow> nat" where
  "guardrail_retries [] s = 0"
| "guardrail_retries ((validation, between) # rs) s =
     (let t = apply_delta (run_validate_output_node validation s) s in
      (if route_after_validation t = ''coder_agent'' then 1 else 0)
      + guardrail_retries rs ((between t)\<lparr>retry_count := retry_count t\<rparr>))"

lemma validate_output_retry:
  assumes "t = apply_delta (run_validate_output_node validation s) s"
  shows "(route_after_validation t = ''coder_agent'' \<longleftrightarrow>
      validation s \<noteq> None \<and> retry_count s < GUARDRAIL_MAX)
    \<and> retry_count t = retry_count s + (if route_after_validation t = ''coder_agent'' then 1 else 0)"
proof -
  have "route_after_validation t = ''coder_agent'' \<longleftrightarrow> guardrail_failed t"
    by (simp add: route_after_validation_def END_def Let_def)
  then show ?thesis using assms
    by (cases "validation s") (simp_all add: run_validate_output_node_def Let_def)
qed

text \<open>
  The guardrail cannot loop: however often the coder's output is rejected and whatever the
  other nodes do in between, the router sends the step back to the coder at most as often as
  the two retries leave room for; every other pass clears the flag and lets the turn go on.
\<close>

theorem guardrail_retries_bounded:
  "int (guardrail_retries rs s) \<le> max 0 (GUARDRAIL_MAX_RETRIES - retry_count s)"
proof (induction rs arbitrary: s)
  case Nil
  then show ?case by simp
next
  case (Cons r rs)
  obtain validation between where r: "r = (validation, between)" by (cases r)
  let ?t = "apply_delta (run_validate_output_node validation s) s"
  let ?u = "(between ?t)\<lparr>retry_count := retry_count ?t\<rparr>"
  let ?again = "route_after_validation ?t = ''coder_agent''"
  have ih: "int (guardrail_retries rs ?u) \<le> max 0 (GUARDRAIL_MAX_RETRIES - retry_count ?t)"
    using Cons.IH [of ?u] by simp
  have step: "guardrail_retries (r # rs) s = (if ?again then 1 else 0) + guardrail_retries rs ?u"
    by (simp add: r Let_def)
  have room: "?again \<Longrightarrow> retry_count s < GUARDRAIL_MAX_RETRIES"
    and count: "retry_count ?t = retry_count s + (if ?again then 1 else 0)"
    using validate_output_retry [of ?t validation s] by (simp_all only: GUARDRAIL_MAX_def)
  have arith: "int n \<le> max 0 (m - c') \<Longrightarrow> (b \<Longrightarrow> c < m) \<Longrightarrow> c' = c + (if b then 1 else 0) \<Longrightarrow>
      int ((if b then 1 else 0) + n) \<le> max 0 (m - c)" for n :: nat and m c c' :: int and b
    by (cases b) (simp_all add: max_def split: if_splits)
  show ?case unfolding step using ih room count by (rule arith)
qed

text \<open>
  Where a turn stops before it executes: a planner that produced no plan ends it, and so
  does a planning session, spelled as \<open>plan_only\<close> or as the deprecated \<open>plan\<close>, in both
  topologies, which otherwise differ only in sending a dispatch plan to its subgraph. The
  review of the model route suspends exactly in the two asking modes; but it compares the mode
  without migrating it, so the deprecated \<open>default\<close> and \<open>plan\<close>, and a missing mode, which the
  permission engine treats as those same two modes, confirm the route without any review.
\<close>

theorem turn_stops_before_execution:
  "(route_after_planner s = (if mission_spec s = None
        \<or> session_mode_from_channel (session_permission_mode s) \<in> {PLAN_ONLY, PLAN}
      then END else ''step_dispatch''))
   \<and> route_planner_dispatch s = (if route_after_planner s = END then END
      else if dispatch_plan_present s then ''dispatch_origin'' else ''step_dispatch'')
   \<and> ((\<exists>rq. run_model_route_node dumps None s = Suspended rq) \<longleftrightarrow>
        session_mode_from_channel (session_permission_mode s) \<in> {CAUTIOUS, PLAN_ONLY})
   \<and> list_all (\<lambda>mode.
        normalize_session_mode (session_mode_from_channel mode) \<in> {CAUTIOUS, PLAN_ONLY}
        \<and> (\<exists>d. run_model_route_node dumps None (s\<lparr>session_permission_mode := mode\<rparr>) = Done d))
      [None, Some ''DEFAULT'', Some ''PLAN'']"
proof (intro conjI)
  let ?m = "session_mode_from_channel (session_permission_mode s)"
  have "normalize_session_mode ?m = PLAN_ONLY \<longleftrightarrow> ?m \<in> {PLAN_ONLY, PLAN}" by (cases ?m) simp_all
  then show planner: "route_after_planner s = (if mission_spec s = None \<or> ?m \<in> {PLAN_ONLY, PLAN}
      then END else ''step_dispatch'')"
    by (simp add: route_after_planner_def Let_def)
  show "route_planner_dispatch s = (if route_after_planner s = END then END
      else if dispatch_plan_present s then ''dispatch_origin'' else ''step_dispatch'')"
    by (simp add: route_planner_dispatch_def route_after_planner_def Let_def END_def)
  show "(\<exists>rq. run_model_route_node dumps None s = Suspended rq) \<longleftrightarrow> ?m \<in> {CAUTIOUS, PLAN_ONLY}"
    by (simp add: run_model_route_node_def GATE_MODES_def request_graph_approval_def Let_def)
  have modes: "session_mode_from_channel None = DEFAULT"
    "session_mode_from_channel (Some ''DEFAULT'') = DEFAULT"
    "session_mode_from_channel (Some ''PLAN'') = PLAN" by code_simp+
  then show "list_all (\<lambda>mode.
        normalize_session_mode (session_mode_from_channel mode) \<in> {CAUTIOUS, PLAN_ONLY}
        \<and> (\<exists>d. run_model_route_node dumps None (s\<lparr>session_permission_mode := mode\<rparr>) = Done d))
      [None, Some ''DEFAULT'', Some ''PLAN'']"
    by (simp add: run_model_route_node_def GATE_MODES_def Let_def)
qed

text \<open>
  What a coder that generated files for a step returns (the end of \<open>run_coder_node\<close> in
  \<open>agents/coder.py\<close>, for a call without new security flags or errors): the diffs, the contents and the
  base hashes of the files come from its model call.
\<close>

definition coder_files_delta ::
  "mission \<Rightarrow> wbs_step \<Rightarrow> (string, string) dict \<Rightarrow> (string, string) dict \<Rightarrow> (string, string) dict \<Rightarrow> delta" where
  "coder_files_delta m chosen patches contents base_hash =
     (let n = step_number chosen in
      [W_mission_spec (Some (mark_step_status m n in_progress)), W_pending_patches patches,
       W_pending_contents contents, W_pending_base_hash base_hash,
       W_pending_step_files [(n, dkeys patches)], W_current_step_id (Some n),
       W_target_role (Some (st_target_role chosen)), W_current_cost_usd 0, W_apply_feedback None])"

text \<open>
  The step pointer only grows, so a step numbered below it is generated but never
  applied: when the pointer stands at a higher number (left by the previous plan of the
  session, or by a later step that this one depends on) and that number is settled or not a
  step of this plan, the coder's files for the lower step reach an apply gate that looks at
  the pointer, stages nothing, runs nothing and reports nothing, and the stall guard, reading
  the same pointer, sees no stall.
\<close>

theorem stale_pointer_strands_step:
  assumes "current_step_id s = Some k" and "step_number step < k" and "mission_spec s = Some m"
    and "case step_of m k of None \<Rightarrow> True | Some t \<Rightarrow> is_terminal t"
  shows "let t = apply_delta (coder_files_delta m step patches contents base_hash) s in
      current_step_id t = Some k \<and> run_apply_prepare_node pe t = ([], [])
      \<and> pending_apply t = pending_apply s \<and> errors t = errors s \<and> \<not> stalled t"
proof -
  let ?t = "apply_delta (coder_files_delta m step patches contents base_hash) s"
  have f: "current_step_id ?t = Some k" "mission_spec ?t = Some (mark_step_status m (step_number step) in_progress)"
    "pending_apply ?t = pending_apply s" "errors ?t = errors s"
    using assms(1,2) by (simp_all add: coder_files_delta_def Let_def resolve_step_id_def)
  have "step_of (mark_step_status m (step_number step) in_progress) k = step_of m k"
    using assms(2) by (simp add: step_of_mark)
  with f assms(4) have "run_apply_prepare_node pe ?t = ([], [])" "\<not> stalled ?t"
    by (auto simp: run_apply_prepare_node_def target_step_def stalled_def split: option.splits)
  with f show ?thesis by (simp add: Let_def)
qed

definition demo_coder_delta :: delta where
  "demo_coder_delta = coder_files_delta idle_mission (demo_step\<lparr>step_number := 2\<rparr>)
     [(''a.py'', ''+x = 1'')] [(''a.py'', ''x = 1'')] []"

theorem stale_pointer_strands_step_witness:
  "run_apply_prepare_node demo_pe
     (apply_delta (demo_coder_delta) (idle_state (Some 5))) = ([], [])
   \<and> route_after_validation
       (apply_delta (demo_coder_delta) (idle_state (Some 5))) = END"
proof -
  let ?t = "apply_delta (demo_coder_delta) (idle_state (Some 5))"
  have "let t = ?t in current_step_id t = Some 5 \<and> run_apply_prepare_node demo_pe t = ([], [])
      \<and> pending_apply t = pending_apply (idle_state (Some 5)) \<and> errors t = errors (idle_state (Some 5))
      \<and> \<not> stalled t"
    unfolding demo_coder_delta_def
    by (rule stale_pointer_strands_step)
      (simp_all add: idle_state_def idle_mission_def step_of_def demo_step_def)
  then have t: "run_apply_prepare_node demo_pe ?t = ([], [])" "\<not> stalled ?t"
    unfolding Let_def by blast+
  have "mission_spec ?t = Some (mark_step_status idle_mission 2 in_progress)"
    "\<not> guardrail_failed ?t" "\<not> healing_required ?t" "effort_level ?t = None"
    by (simp_all add: demo_coder_delta_def coder_files_delta_def demo_step_def Let_def idle_state_def fresh_state_def)
  moreover have "\<not> list_ex (\<lambda>t. is_dispatchable t (Some (ms_tasks (mark_step_status idle_mission 2 in_progress))))
      (ms_tasks (mark_step_status idle_mission 2 in_progress))"
    by (simp add: idle_mission_def mark_step_status_def demo_step_def is_dispatchable_def)
  moreover have "normalize_effort_level None \<noteq> ''deep''" by code_simp
  ultimately have "route_after_validation ?t = END"
    using t by (simp add: route_after_validation_def)
  with t show ?thesis by simp
qed

end
