(* ===== verification/SelfHeal.thy ===== *)
theory SelfHeal
  imports TurnFlow
begin

text \<open>
  The self-healing agent (\<open>agents/error_correction.py\<close>): the files a traceback names, the one
  proposal asked of the model and the checks it must pass, the direct entry point with its
  breaker gate and the node of the graph. The path functions of the operating system, the
  firewalled reader, the model call and the hash function are fields of \<open>heal_env\<close>; the
  breaker is threaded through. Narration and the companion are left out.
\<close>

record proposal =
  pp_diagnosis :: string
  pp_filepath :: string
  pp_new_content :: string

text \<open>\<open>relpath\<close> is \<open>None\<close> where Python raises \<open>ValueError\<close>; the model call fails with a text.\<close>

record heal_env =
  he_normpath :: "string \<Rightarrow> string"
  he_relpath :: "string \<Rightarrow> string \<Rightarrow> string option"
  he_isabs :: "string \<Rightarrow> bool"
  he_read :: "string \<Rightarrow> string option"
  he_invoke :: "string \<Rightarrow> string \<Rightarrow> string \<Rightarrow> string + proposal"
  he_sha256 :: "string \<Rightarrow> string"

record correction_result =
  co_healed :: bool
  co_diagnosis :: string
  co_pending_patches :: "(string, string) dict"
  co_pending_contents :: "(string, string) dict"
  co_pending_base_hash :: "(string, string) dict"

definition TRACE_CAP :: nat where "TRACE_CAP = 4000"
definition FILE_SLICE_CAP :: nat where "FILE_SLICE_CAP = 16000"

definition PIVOT_REASONS :: "(string, string) dict" where
  "PIVOT_REASONS =
     [(''Timeout'', ''the model timed out''), (''APITimeoutError'', ''the model timed out''),
      (''APIConnectionError'', ''the connection dropped''),
      (''ConnectionError'', ''the connection dropped'')]"

definition pivot_reason :: "string \<Rightarrow> string" where
  "pivot_reason signature =
     (let parts = split_on (CHR 0x00) signature;
          exc_class = (if 1 < length parts \<and> parts ! 1 \<noteq> [] then parts ! 1 else ''error'')
      in dget_default PIVOT_REASONS exc_class (''hit a '' @ exc_class))"

text \<open>Newline normalisation before hashing: CRLF and CR become LF.\<close>

fun normalize_newlines :: "string \<Rightarrow> string" where
  "normalize_newlines [] = []"
| "normalize_newlines [c] = [if c = CHR 0x0D then CHR 0x0A else c]"
| "normalize_newlines (c # d # s) =
     (if c = CHR 0x0D \<and> d = CHR 0x0A then CHR 0x0A # normalize_newlines s
      else (if c = CHR 0x0D then CHR 0x0A else c) # normalize_newlines (d # s))"

definition content_hash :: "heal_env \<Rightarrow> string \<Rightarrow> string" where
  "content_hash he text = he_sha256 he (normalize_newlines text)"

text \<open>
  The matches of the frame pattern: the text \<open>File\<close>, a quoted non-empty path, the text
  \<open>, line\<close> and a digit.
\<close>

definition TB_OPEN :: string where "TB_OPEN = ''File '' @ [CHR 0x22]"
definition TB_CLOSE :: string where "TB_CLOSE = CHR 0x22 # '', line ''"

function tb_files :: "string \<Rightarrow> string list" where
  "tb_files [] = []"
| "tb_files (c # s) =
     (if starts_with (c # s) TB_OPEN
      then (let rest = drop (length TB_OPEN) (c # s);
                path = takeWhile (\<lambda>d. d \<noteq> CHR 0x22) rest;
                after = drop (length path) rest
            in if path \<noteq> [] \<and> starts_with after TB_CLOSE
                  \<and> (case drop (length TB_CLOSE) after of d # _ \<Rightarrow> is_digit d | [] \<Rightarrow> False)
               then path # tb_files (drop (length TB_CLOSE) after)
               else tb_files s)
      else tb_files s)"
  by pat_completeness auto
termination by (relation "measure length") auto

definition in_workspace :: "heal_env \<Rightarrow> string option \<Rightarrow> string \<Rightarrow> bool" where
  "in_workspace he ws_root raw =
     (if str_or ws_root [] = [] then True
      else (case he_relpath he raw (or_else ws_root []) of
              None \<Rightarrow> False
            | Some rel \<Rightarrow> \<not> (starts_with rel ''..'' \<or> he_isabs he rel)))"

definition note_frame ::
  "heal_env \<Rightarrow> string option \<Rightarrow> string \<Rightarrow> string list \<times> string list \<Rightarrow> string list \<times> string list" where
  "note_frame he ws_root match acc =
     (let (seen, paths) = acc; raw = he_normpath he match in
      if raw \<in> set seen then (seen, paths)
      else (seen @ [raw], if in_workspace he ws_root raw then paths @ [raw] else paths))"

definition candidate_files_from_traceback :: "heal_env \<Rightarrow> string \<Rightarrow> string option \<Rightarrow> string list" where
  "candidate_files_from_traceback he traceback_text ws_root =
     rev (snd (fold (note_frame he ws_root) (tb_files traceback_text) ([], [])))"

definition declined :: "string \<Rightarrow> correction_result" where
  "declined diagnosis = \<lparr>co_healed = False, co_diagnosis = diagnosis, co_pending_patches = [],
     co_pending_contents = [], co_pending_base_hash = []\<rparr>"

fun first_readable :: "heal_env \<Rightarrow> string list \<Rightarrow> (string \<times> string) option" where
  "first_readable he [] = None"
| "first_readable he (path # paths) =
     (case he_read he path of Some content \<Rightarrow> Some (path, content) | None \<Rightarrow> first_readable he paths)"

definition propose_fix :: "heal_env \<Rightarrow> string \<Rightarrow> string list \<Rightarrow> correction_result" where
  "propose_fix he traceback_text candidate_files =
     (case first_readable he candidate_files of
        None \<Rightarrow> declined ''no readable offending file''
      | Some (offending_path, original) \<Rightarrow>
          (case he_invoke he (take TRACE_CAP traceback_text) offending_path (take FILE_SLICE_CAP original) of
             Inl exc \<Rightarrow> declined (''correction unavailable: '' @ exc)
           | Inr prop \<Rightarrow>
               if pp_filepath prop = [] \<or> pp_new_content prop = [] then declined (pp_diagnosis prop)
               else if he_normpath he (pp_filepath prop) \<noteq> offending_path then declined (pp_diagnosis prop)
               else if pp_new_content prop = original then declined (pp_diagnosis prop)
               else \<lparr>co_healed = True, co_diagnosis = pp_diagnosis prop,
                      co_pending_patches = [(offending_path, pp_new_content prop)],
                      co_pending_contents = [(offending_path, pp_new_content prop)],
                      co_pending_base_hash = [(offending_path, content_hash he original)]\<rparr>))"

definition append_new :: "string list \<Rightarrow> string \<Rightarrow> string list" where
  "append_new candidates path = (if path \<in> set candidates then candidates else candidates @ [path])"

text \<open>The direct entry point: the class and text of the exception and its traceback are given.\<close>

definition attempt_correction ::
  "heal_env \<Rightarrow> breaker \<Rightarrow> rat \<Rightarrow> string \<Rightarrow> string \<Rightarrow> string \<Rightarrow> graph_state \<Rightarrow> string \<Rightarrow> string list
   \<Rightarrow> correction_result option \<times> breaker" where
  "attempt_correction he br now exc_class exc_text tb_text state node extra_candidates =
     (let signature = normalize_signature node exc_class exc_text in
      if CORRECTION_MAX_ATTEMPTS \<le> correction_attempts state \<or> \<not> allow br now signature then (None, br)
      else (let candidates = fold (\<lambda>p cs. append_new cs (he_normpath he p)) extra_candidates
                  (candidate_files_from_traceback he tb_text (workspace_root state));
                result = propose_fix he tb_text candidates
            in if co_healed result then (Some result, record_success br signature)
               else (None, record_failure br now signature)))"

definition node_candidates :: "heal_env \<Rightarrow> graph_state \<Rightarrow> string list" where
  "node_candidates he state =
     (let candidates = candidate_files_from_traceback he (str_or (last_error_trace state) [])
                         (workspace_root state)
      in case (mission_spec state, current_step_id state) of
           (Some mission, Some step_id) \<Rightarrow>
             fold (\<lambda>task cs. if st_target_file task \<noteq> []
                   then append_new cs (he_normpath he (st_target_file task)) else cs)
               (filter (\<lambda>task. step_number task = step_id) (ms_tasks mission)) candidates
         | _ \<Rightarrow> candidates)"

definition run_error_correction_node ::
  "heal_env \<Rightarrow> breaker \<Rightarrow> rat \<Rightarrow> graph_state \<Rightarrow> delta \<times> breaker" where
  "run_error_correction_node he br now state =
     (if \<not> healing_required state then ([], br)
      else (let node = str_or (failed_node state) ''unknown'';
                signature = str_or (failure_signature state) [];
                result = propose_fix he (str_or (last_error_trace state) []) (node_candidates he state)
            in if co_healed result
               then ([W_healing_required False, W_pending_patches (co_pending_patches result),
                      W_pending_contents (co_pending_contents result),
                      W_pending_base_hash (co_pending_base_hash result),
                      W_validation_feedback (Some (''Auto-correction applied: '' @ co_diagnosis result))],
                     if signature \<noteq> [] then record_success br signature else br)
               else ([W_healing_required False,
                      W_errors [''self-heal could not correct '' @ node @ '': '' @ co_diagnosis result]],
                     if signature \<noteq> [] then record_failure br now signature else br)))"

subsection \<open>Lemmas on corrections\<close>

lemma first_readable_Some:
  "first_readable he ps = Some (p, old) \<Longrightarrow> p \<in> set ps \<and> he_read he p = Some old"
  by (induction ps) (auto split: option.splits)

lemma candidates_in_workspace:
  assumes "p \<in> set (candidate_files_from_traceback he tb ws_root)"
  shows "in_workspace he ws_root p"
proof -
  have "\<forall>q \<in> set (snd (fold (note_frame he ws_root) (tb_files tb) ([], []))). in_workspace he ws_root q"
    by (rule fold_invariant [where Q = "\<lambda>_. True"]) (auto simp: note_frame_def Let_def split: prod.splits)
  with assms show ?thesis by (simp add: candidate_files_from_traceback_def)
qed

lemma set_append_new: "set (append_new cs p) = insert p (set cs)"
  by (auto simp: append_new_def)

lemma node_candidates_confined:
  assumes "p \<in> set (node_candidates he s)"
  shows "in_workspace he (workspace_root s) p
    \<or> (\<exists>m t. mission_spec s = Some m \<and> t \<in> set (ms_tasks m) \<and> current_step_id s = Some (step_number t)
         \<and> p = he_normpath he (st_target_file t))"
proof -
  let ?cs = "candidate_files_from_traceback he (str_or (last_error_trace s) []) (workspace_root s)"
  have targets: "set (fold (\<lambda>t cs. if st_target_file t \<noteq> [] then append_new cs (he_normpath he (st_target_file t))
        else cs) ts cs) \<subseteq> set cs \<union> (\<lambda>t. he_normpath he (st_target_file t)) ` set ts" for ts cs
  proof (induction ts arbitrary: cs)
    case (Cons t ts)
    then show ?case
      using Cons.IH [of "append_new cs (he_normpath he (st_target_file t))"] Cons.IH [of cs]
      by (auto simp: set_append_new)
  qed simp
  show ?thesis
  proof (cases "p \<in> set ?cs")
    case True
    then show ?thesis by (simp add: candidates_in_workspace)
  next
    case False
    with assms obtain m n where mn: "mission_spec s = Some m" "current_step_id s = Some n"
      by (auto simp: node_candidates_def Let_def split: option.splits)
    with assms have "p \<in> set (fold (\<lambda>t cs. if st_target_file t \<noteq> [] then
          append_new cs (he_normpath he (st_target_file t)) else cs)
        (filter (\<lambda>t. step_number t = n) (ms_tasks m)) ?cs)"
      by (simp add: node_candidates_def Let_def)
    with targets False obtain t where "t \<in> set (filter (\<lambda>t. step_number t = n) (ms_tasks m))"
      "p = he_normpath he (st_target_file t)" by blast
    with mn show ?thesis by fastforce
  qed
qed

lemma propose_fix_healed:
  assumes "co_healed (propose_fix he tb cands)"
  obtains p old new where "first_readable he cands = Some (p, old)" "new \<noteq> []" "new \<noteq> old"
    "co_pending_patches (propose_fix he tb cands) = [(p, new)]"
    "co_pending_contents (propose_fix he tb cands) = [(p, new)]"
    "co_pending_base_hash (propose_fix he tb cands) = [(p, content_hash he old)]"
  using assms
  by (auto simp: propose_fix_def declined_def split: option.splits sum.splits if_splits)

subsection \<open>Properties\<close>

text \<open>
  A correction is confined to one file it has read: the node always clears the healing
  signal and never touches the plan; it stages at most one change, to a file that is readable
  through the firewall and was named by a workspace frame of the traceback or is the target of
  the current step, with a non-empty content that differs from the one on disk and with the
  hash of exactly the content it read as the base the write will be checked against; when it
  stages nothing it says so in one error.
\<close>

theorem correction_confined:
  assumes "healing_required s"
  shows "let t = apply_delta (fst (run_error_correction_node he br now s)) s in
      \<not> healing_required t \<and> mission_spec t = mission_spec s
      \<and> ((pending_contents t = pending_contents s \<and> pending_patches t = pending_patches s
           \<and> pending_base_hash t = pending_base_hash s \<and> length (errors t) = Suc (length (errors s)))
        \<or> (\<exists>p old new. he_read he p = Some old \<and> new \<noteq> [] \<and> new \<noteq> old
             \<and> (in_workspace he (workspace_root s) p
                \<or> (\<exists>m step. mission_spec s = Some m \<and> step \<in> set (ms_tasks m)
                     \<and> current_step_id s = Some (step_number step)
                     \<and> p = he_normpath he (st_target_file step)))
             \<and> pending_contents t = dict_or (pending_contents s) [(p, new)]
             \<and> pending_patches t = dict_or (pending_patches s) [(p, new)]
             \<and> pending_base_hash t = dict_or (pending_base_hash s) [(p, content_hash he old)]
             \<and> errors t = errors s))"
proof -
  let ?r = "propose_fix he (str_or (last_error_trace s) []) (node_candidates he s)"
  show ?thesis
  proof (cases "co_healed ?r")
    case True
    then obtain p old new where staged: "first_readable he (node_candidates he s) = Some (p, old)"
      "new \<noteq> []" "new \<noteq> old" "co_pending_patches ?r = [(p, new)]" "co_pending_contents ?r = [(p, new)]"
      "co_pending_base_hash ?r = [(p, content_hash he old)]"
      by (rule propose_fix_healed)
    from first_readable_Some [OF staged(1)] have p: "p \<in> set (node_candidates he s)" "he_read he p = Some old"
      by simp_all
    let ?t = "apply_delta (fst (run_error_correction_node he br now s)) s"
    have t: "\<not> healing_required ?t" "mission_spec ?t = mission_spec s"
      "pending_contents ?t = dict_or (pending_contents s) [(p, new)]"
      "pending_patches ?t = dict_or (pending_patches s) [(p, new)]"
      "pending_base_hash ?t = dict_or (pending_base_hash s) [(p, content_hash he old)]"
      "errors ?t = errors s"
      using assms True staged by (simp_all add: run_error_correction_node_def Let_def)
    have "he_read he p = Some old \<and> new \<noteq> [] \<and> new \<noteq> old
        \<and> (in_workspace he (workspace_root s) p
            \<or> (\<exists>m step. mission_spec s = Some m \<and> step \<in> set (ms_tasks m)
                 \<and> current_step_id s = Some (step_number step)
                 \<and> p = he_normpath he (st_target_file step)))"
      using p staged(2,3) node_candidates_confined [OF p(1)] by simp
    with t show ?thesis unfolding Let_def by metis
  next
    case False
    with assms show ?thesis by (simp add: run_error_correction_node_def Let_def)
  qed
qed

definition demo_heal :: heal_env where
  "demo_heal = \<lparr>he_normpath = id, he_relpath = (\<lambda>p _. Some p), he_isabs = (\<lambda>_. False),
     he_read = (\<lambda>_. Some ''x = (''),
     he_invoke = (\<lambda>_ path _. Inr \<lparr>pp_diagnosis = ''unbalanced'', pp_filepath = path, pp_new_content = ''x = 1''\<rparr>),
     he_sha256 = id\<rparr>"

definition demo_failed :: graph_state where
  "demo_failed = demo_state\<lparr>healing_required := True, workspace_root := Some ''/w'',
     failure_signature := Some ''sig'',
     last_error_trace := Some (''  File '' @ [CHR 0x22] @ ''a.py'' @ [CHR 0x22] @ '', line 3'')\<rparr>"

theorem correction_confined_witness:
  "healing_required demo_failed
   \<and> \<not> healing_required (apply_delta (fst (run_error_correction_node demo_heal [] 0 demo_failed)) demo_failed)
   \<and> co_pending_contents (propose_fix demo_heal (or_else (last_error_trace demo_failed) [])
        (node_candidates demo_heal demo_failed)) = [(''a.py'', ''x = 1'')]"
proof -
  have h: "healing_required demo_failed" by (simp add: demo_failed_def)
  have "co_pending_contents (propose_fix demo_heal (or_else (last_error_trace demo_failed) [])
        (node_candidates demo_heal demo_failed)) = [(''a.py'', ''x = 1'')]" by code_simp
  with correction_confined [OF h, of demo_heal "[]" 0] h show ?thesis by (simp only: Let_def simp_thms)
qed

text \<open>
  The breaker stops a correction loop across turns: once a signature has already failed
  twice and a correction of it fails again, every further attempt on that signature within the
  cooldown is refused without reading a file or calling the model and leaves the breaker as it
  is, while an attempt on another signature is decided by that signature's own streak.
\<close>

theorem correction_breaker_opens:
  assumes "attempt_correction he br now cls txt tb s node extra = (None, br')" and "br' \<noteq> br"
    and "2 \<le> failure_streak br (normalize_signature node cls txt)"
  shows "(\<forall>t. t - now < COOLDOWN_S \<longrightarrow>
        attempt_correction he' br' t cls txt tb' s' node extra' = (None, br'))
    \<and> (\<forall>k. k \<noteq> normalize_signature node cls txt \<longrightarrow> failure_streak br' k = failure_streak br k)"
proof -
  let ?k = "normalize_signature node cls txt"
  from assms(1,2) have br': "br' = record_failure br now ?k"
    by (auto simp: attempt_correction_def Let_def split: if_splits)
  have "FAILURE_SIGNATURE_THRESHOLD \<le> Suc (failure_streak br ?k)"
    using assms(3) by (simp add: FAILURE_SIGNATURE_THRESHOLD_def)
  then have "t - now < COOLDOWN_S \<Longrightarrow> \<not> allow br' t ?k" for t
    unfolding br' by (simp add: signature_gate.cooling)
  then have "\<forall>t. t - now < COOLDOWN_S \<longrightarrow>
      attempt_correction he' br' t cls txt tb' s' node extra' = (None, br')"
    by (simp add: attempt_correction_def Let_def)
  moreover have "\<forall>k. k \<noteq> ?k \<longrightarrow> failure_streak br' k = failure_streak br k"
    unfolding br' by (simp add: signature_gate.other_streak)
  ultimately show ?thesis by blast
qed

theorem correction_breaker_opens_witness:
  "list_all (\<lambda>t. attempt_correction demo_heal
       (record_failure [(normalize_signature ''n'' ''E'' [], 2, 0)] 10 (normalize_signature ''n'' ''E'' []))
       t ''E'' [] [] fresh_state ''n'' [] =
       (None, record_failure [(normalize_signature ''n'' ''E'' [], 2, 0)] 10 (normalize_signature ''n'' ''E'' [])))
     [10, 100]"
proof -
  let ?k = "normalize_signature ''n'' ''E'' []"
  let ?br = "[(?k, 2, 0)] :: breaker"
  let ?br' = "record_failure ?br 10 ?k"
  have fail: "attempt_correction (demo_heal\<lparr>he_read := \<lambda>_. None\<rparr>) ?br 10 ''E'' [] [] fresh_state ''n'' []
      = (None, ?br')"
    by (simp add: attempt_correction_def candidate_files_from_traceback_def propose_fix_def declined_def
        Let_def fresh_state_def CORRECTION_MAX_ATTEMPTS_def allow_def FAILURE_SIGNATURE_THRESHOLD_def)
  have "?br' \<noteq> ?br" by (simp add: record_failure_def dget_default_def Let_def)
  moreover have "2 \<le> failure_streak ?br ?k" by (simp add: failure_streak_def dget_default_def)
  ultimately show ?thesis
    using correction_breaker_opens [OF fail, where he' = demo_heal and tb' = "[]" and s' = fresh_state
        and extra' = "[]"]
    by (simp add: COOLDOWN_S_def)
qed

subsection \<open>What becomes of a healed patch\<close>

text \<open>A commit that signals has marked its step failed and written its number to the pointer.\<close>

definition concedes :: "graph_state \<Rightarrow> int \<Rightarrow> delta \<Rightarrow> bool" where
  "concedes s n d \<longleftrightarrow>
     (signals d \<longrightarrow> settles s n failed d
        \<and> current_step_id (apply_delta d s) = resolve_step_id (current_step_id s) (Some n))"

lemma quiet_concedes: "\<not> signals d \<Longrightarrow> concedes s n d"
  by (simp add: concedes_def)

lemma quiet_terminal: "\<not> signals (terminal_result t n st errs c)"
  by (simp add: signals_def terminal_result_def mark_def)

lemma quiet_declined: "\<not> signals (handle_declined t n env v)"
  by (simp add: handle_declined_def Let_def quiet_terminal) (simp add: signals_def mark_def)

lemma quiet_write_files: "\<not> signals (fst (write_files pe s n env contents))"
  by (simp add: write_files_def Let_def quiet_terminal) (simp add: signals_def mark_def)

lemma concedes_rejected_patch: "concedes s n (rejected_patch s n trace cls contents f)"
proof (cases "resolve_correction_ceiling (effort_level s) \<le> correction_attempts s")
  case True
  then show ?thesis
    by (intro quiet_concedes) (simp add: rejected_patch_def Let_def quiet_terminal)
next
  case False
  then show ?thesis
    by (simp add: rejected_patch_def Let_def concedes_def settles_def healing_delta_def mark_def)
qed

lemma concedes_commit_command: "concedes s n (fst (commit_command pe s n env))"
proof (cases "sh_exit_code (pe_command pe (or_else (ae_command env) [])) = 0
    \<or> resolve_correction_ceiling (effort_level s) \<le> correction_attempts s")
  case True
  have "\<not> signals (fst (commit_command pe s n env))"
    using True by (auto simp: commit_command_def Let_def quiet_terminal) (simp_all add: signals_def mark_def)
  then show ?thesis by (rule quiet_concedes)
next
  case False
  then show ?thesis
    by (simp add: commit_command_def Let_def concedes_def settles_def healing_delta_def mark_def)
qed

lemma concedes_settle: "concedes s n (fst (settle pe s n env v))"
proof -
  have "concedes s n (fst (commit_files pe s n env v))"
    by (auto simp: commit_files_def Let_def split_beta concedes_rejected_patch
        intro!: quiet_concedes quiet_terminal quiet_write_files split: option.split)
  then show ?thesis
    by (simp add: settle_def quiet_concedes quiet_declined concedes_commit_command)
qed

lemma commit_concedes:
  assumes "run_apply_commit_node pe resume s = Done (d, effects)" and "pending_apply s = Some env"
  shows "concedes s (ae_step_number env) d"
proof -
  have "\<not> signals [W_pending_apply None]" by (simp add: signals_def)
  then have skip: "concedes s (ae_step_number env) [W_pending_apply None]" by (rule quiet_concedes)
  have "d = [W_pending_apply None] \<or> (\<exists>st errs c. d = terminal_result s (ae_step_number env) st errs c)
      \<or> (\<exists>v. d = fst (settle pe s (ae_step_number env) env v))"
    using assms by (cases resume) (auto simp: commit_defs split: if_splits, (metis fst_conv)+)
  then show ?thesis using skip quiet_concedes [OF quiet_terminal] concedes_settle by blast
qed

lemma correction_keeps_plan:
  "mission_spec (apply_delta (fst (run_error_correction_node he br now s)) s) = mission_spec s
   \<and> current_step_id (apply_delta (fst (run_error_correction_node he br now s)) s) = current_step_id s
   \<and> pending_apply (apply_delta (fst (run_error_correction_node he br now s)) s) = pending_apply s"
  by (simp add: run_error_correction_node_def Let_def)

text \<open>
  A correction of a failed commit is announced but never applied: a commit that asks for
  healing has already failed its step and cleared the envelope, so whatever the agent
  proposes, PREPARE, the next node to look at the plan, finds that step terminal, stages
  nothing and runs nothing, and the step stays failed. The statement covers every environment,
  every proposal and every state of the breaker.
\<close>

theorem healed_patch_never_applied:
  assumes "run_apply_commit_node pe resume s = Done (d, effects)" and "signals d"
    and "pending_apply s = Some env" and "current_step_id s = Some (ae_step_number env)"
  shows "let t = apply_delta d s; u = apply_delta (fst (run_error_correction_node he br now t)) t in
      run_apply_prepare_node pe' u = ([], []) \<and> pending_apply u = None
      \<and> (case mission_spec u of
           None \<Rightarrow> True
         | Some m \<Rightarrow> (case step_of m (ae_step_number env) of
              None \<Rightarrow> True | Some step \<Rightarrow> st_status step = failed))"
proof -
  let ?n = "ae_step_number env"
  let ?t = "apply_delta d s"
  let ?u = "apply_delta (fst (run_error_correction_node he br now ?t)) ?t"
  from commit_concedes [OF assms(1,3)] assms(2,4)
  have t: "mission_spec ?t = map_option (\<lambda>m. mark_step_status m ?n failed) (mission_spec s)"
      "pending_apply ?t = None" "current_step_id ?t = Some ?n"
    by (simp_all add: concedes_def settles_def resolve_step_id_def)
  have u: "mission_spec ?u = map_option (\<lambda>m. mark_step_status m ?n failed) (mission_spec s)"
      "pending_apply ?u = None" "current_step_id ?u = Some ?n"
    using correction_keeps_plan [of he br now ?t] t by simp_all
  show ?thesis
  proof (cases "mission_spec s")
    case None
    with u show ?thesis by (simp add: Let_def run_apply_prepare_node_def target_step_def)
  next
    case (Some m)
    then have spec: "mission_spec ?u = Some (mark_step_status m ?n failed)" using u by simp
    show ?thesis
    proof (cases "step_of m ?n")
      case None
      then have "step_of (mark_step_status m ?n failed) ?n = None" by (simp add: step_of_mark)
      with spec u(2,3) show ?thesis by (simp add: Let_def run_apply_prepare_node_def target_step_def)
    next
      case (Some step)
      then have "step_of (mark_step_status m ?n failed) ?n = Some (step\<lparr>st_status := failed\<rparr>)"
        by (simp add: step_of_mark)
      with spec u(2,3) show ?thesis
        by (simp add: Let_def run_apply_prepare_node_def target_step_def is_terminal_def)
    qed
  qed
qed

definition failing_pe :: apply_env where
  "failing_pe = demo_pe\<lparr>pe_command := \<lambda>_. \<lparr>sh_exit_code = 2, sh_stdout = [], sh_stderr = ''boom''\<rparr>\<rparr>"

theorem healed_patch_never_applied_witness:
  "\<exists>d effects. run_apply_commit_node failing_pe (Some (JBool True)) demo_state = Done (d, effects)
     \<and> signals d
     \<and> run_apply_prepare_node demo_pe (apply_delta (fst (run_error_correction_node demo_heal [] 0
         (apply_delta d demo_state))) (apply_delta d demo_state)) = ([], [])"
proof -
  let ?r = "commit_command failing_pe demo_state 1 demo_envelope"
  have run: "run_apply_commit_node failing_pe (Some (JBool True)) demo_state = Done (fst ?r, snd ?r)"
    by (simp add: commit_defs demo_state_def demo_envelope_def settle_def normalize_resume_def fresh_state_def)
  have sig: "signals (fst ?r)"
    by (simp add: commit_command_def failing_pe_def demo_envelope_def demo_state_def fresh_state_def
        healing_delta_def signals_def resolve_correction_ceiling_def EFFORT_CORRECTION_CEILING_def
        dget_default_def CORRECTION_MAX_ATTEMPTS_def Let_def)
  have "pending_apply demo_state = Some demo_envelope"
    "current_step_id demo_state = Some (ae_step_number demo_envelope)"
    by (simp_all add: demo_state_def demo_envelope_def)
  from healed_patch_never_applied [OF run sig this, of demo_heal "[]" 0 demo_pe] run sig show ?thesis
    unfolding Let_def by blast
qed

end
