(* ===== verification/TurnMachine.thy ===== *)
theory TurnMachine
  imports Commands SelfHeal
begin

text \<open>
  The compiled graph of \<open>brain/engine.py\<close> (static topology) as a step relation. A configuration
  is the node about to run, the channels and the effects so far; a step runs the node, merges
  its delta and follows its edge through the path maps of the engine. The modelled nodes run
  their definitions, with the operator's answers, the breaker and the clock chosen freely at
  each step; the nodes that consult a model (summary, aggregation, ideation, researcher,
  planner, coder, cell, contract guard) may write anything except the channels that only the
  apply gate and the turn seed write, and the researcher may also lower the session to
  plan-only. An effect carries its origin: what the apply gate wrote or ran, with the answer its
  commit was resumed with, what the acceptance checks spawned, and whatever a model node did on
  its own (tools, the verify command of competing edits), which the relation leaves arbitrary;
  the tool loop and the theory of the cell say what these may be.
\<close>

subsection \<open>The environment of a turn\<close>

record turn_env =
  te_apply :: apply_env
  te_guard :: guard_env
  te_heal :: heal_env
  te_supervisor :: supervisor_env
  te_validation :: "graph_state \<Rightarrow> string option"
  te_usd :: "rat \<Rightarrow> string"
  te_dumps :: "string \<Rightarrow> string"
  te_repr :: "string \<Rightarrow> string"

fun own_write :: "channel_write \<Rightarrow> bool" where
  "own_write (W_pending_apply _) = False"
| "own_write (W_applied_step_ids _) = False"
| "own_write (W_session_permission_mode _) = False"
| "own_write (W_auto_accept_low_risk _) = False"
| "own_write _ = True"

definition foreign_delta :: "delta \<Rightarrow> bool" where
  "foreign_delta d \<longleftrightarrow> list_all own_write d"

text \<open>The de-escalation that the researcher writes when it judges a request risky.\<close>

definition PLAN_MODE_OVERRIDE :: channel_write where
  "PLAN_MODE_OVERRIDE = W_session_permission_mode (Some ''PLAN_ONLY'')"

subsection \<open>Path maps\<close>

text \<open>The verdicts that a path map sends to another node than they name.\<close>

definition planning_entry :: "string \<Rightarrow> string" where
  "planning_entry verdict = (if verdict = ''planner_agent'' then ''researcher_agent'' else verdict)"

definition finops_path :: "string \<Rightarrow> string" where
  "finops_path verdict = (if verdict = ''apply_patch'' then ''supervisor_node'' else END)"

definition supervisor_path :: "string \<Rightarrow> string" where
  "supervisor_path verdict = (if verdict = ''apply_patch'' then ''apply_patch'' else END)"

subsection \<open>Steps\<close>

datatype turn_effect =
    Gate "json option" apply_effect
  | Checked string
  | Inside string string

type_synonym config = "string \<times> graph_state \<times> turn_effect list"

inductive turn_step :: "turn_env \<Rightarrow> config \<Rightarrow> config \<Rightarrow> bool" for te where
  summarize: "foreign_delta d \<Longrightarrow>
    turn_step te (''summarize_history'', s, effs) (''session_delta_aggregator'', apply_delta d s, effs @ map (Inside ''summarize_history'') acts)"
| aggregate: "foreign_delta d \<Longrightarrow> t = apply_delta d s \<Longrightarrow>
    turn_step te (''session_delta_aggregator'', s, effs) (planning_entry (route_after_summarize t), t, effs @ map (Inside ''session_delta_aggregator'') acts)"
| ideate: "foreign_delta d \<Longrightarrow> t = apply_delta d s \<Longrightarrow>
    turn_step te (''ideation_loop'', s, effs) (planning_entry (route_after_ideation t), t, effs @ map (Inside ''ideation_loop'') acts)"
| research: "foreign_delta d \<Longrightarrow> override = [] \<or> override = [PLAN_MODE_OVERRIDE] \<Longrightarrow>
    turn_step te (''researcher_agent'', s, effs) (''model_route_gate'', apply_delta (d @ override) s, effs @ map (Inside ''researcher_agent'') acts)"
| review_route: "run_model_route_node (te_dumps te) resume s = Done d \<Longrightarrow> t = apply_delta d s \<Longrightarrow>
    turn_step te (''model_route_gate'', s, effs) (route_after_model_route t, t, effs)"
| plan: "foreign_delta d \<Longrightarrow> t = apply_delta d s \<Longrightarrow>
    turn_step te (''planner_agent'', s, effs) (route_after_planner t, t, effs @ map (Inside ''planner_agent'') acts)"
| fan_out: "t = apply_delta (step_dispatch s) s \<Longrightarrow> route_to_coders t = [(node, payload)] \<Longrightarrow>
    turn_step te (''step_dispatch'', s, effs) (node, t, effs)"
| nothing_to_do: "t = apply_delta (step_dispatch s) s \<Longrightarrow> route_to_coders t = [] \<Longrightarrow>
    turn_step te (''step_dispatch'', s, effs) (END, t, effs)"
| code: "case outcome of Returned d' \<Rightarrow> foreign_delta d' | _ \<Rightarrow> True \<Longrightarrow>
    coder_entry br now s outcome = (Returned d, recoveries) \<Longrightarrow> t = apply_delta d s \<Longrightarrow>
    turn_step te (''coder_agent'', s, effs) (route_after_coder t, t, effs @ map (Inside ''coder_agent'') acts)"
| iterate: "foreign_delta d \<Longrightarrow> t = apply_delta d s \<Longrightarrow>
    turn_step te (''agentic_cell'', s, effs) (route_after_cell trajectory, t, effs @ map (Inside ''agentic_cell'') acts)"
| heal: "run_error_correction_node (te_heal te) br now s = (d, br') \<Longrightarrow>
    turn_step te (''error_correction'', s, effs) (''contract_guard'', apply_delta d s, effs)"
| guard: "foreign_delta d \<Longrightarrow>
    turn_step te (''contract_guard'', s, effs) (''finops_gate'', apply_delta d s, effs @ map (Inside ''contract_guard'') acts)"
| finops: "run_finops_node (te_usd te) resume s = Done d \<Longrightarrow> t = apply_delta d s \<Longrightarrow>
    turn_step te (''finops_gate'', s, effs) (finops_path (route_after_finops t), t, effs)"
| supervise: "run_supervisor_node (te_supervisor te) db_head snap s w = Inr (d, w') \<Longrightarrow> t = apply_delta d s \<Longrightarrow>
    turn_step te (''supervisor_node'', s, effs) (supervisor_path (route_after_supervisor t), t, effs)"
| prepare: "run_apply_prepare_node (te_apply te) s = (d, effects) \<Longrightarrow>
    turn_step te (''apply_patch'', s, effs) (''apply_commit'', apply_delta d s, effs @ map (Gate None) effects)"
| commit: "run_apply_commit_node (te_apply te) resume s = Done (d, effects) \<Longrightarrow>
    turn_step te (''apply_commit'', s, effs) (''validate_output'', apply_delta d s, effs @ map (Gate resume) effects)"
| validate: "t = apply_delta (run_validate_output_node (te_validation te) s) s \<Longrightarrow>
    turn_step te (''validate_output'', s, effs) (route_after_validation t, t, effs)"
| check: "run_checks_node (te_repr te) (te_guard te) s = (d, spawned) \<Longrightarrow>
    turn_step te (''run_checks'', s, effs) (END, apply_delta d s, effs @ map Checked spawned)"

inductive_cases turn_stepE: "turn_step te c c'"

abbreviation turn_run :: "turn_env \<Rightarrow> config \<Rightarrow> config \<Rightarrow> bool" where
  "turn_run te \<equiv> (turn_step te)\<^sup>*\<^sup>*"

subsection \<open>Sessions that deny mutations\<close>

definition denying :: "graph_state \<Rightarrow> bool" where
  "denying s \<longleftrightarrow> normalize_session_mode (session_mode_from_channel (session_permission_mode s))
     \<in> {MODE_READ_ONLY, PLAN_ONLY}"

text \<open>
  An envelope that such a session can hold: a denial, or a card for files whose blast radius
  exceeded the threshold.
\<close>

definition denied_envelope :: "apply_env \<Rightarrow> apply_envelope \<Rightarrow> bool" where
  "denied_envelope pe env \<longleftrightarrow>
     ae_decision env = DENY
     \<or> ae_decision env = HITL \<and> \<not> ae_auto_accept env \<and> ae_kind env = FILE_WRITE
        \<and> (\<exists>paths. pe_blast_threshold pe < length (or_else (pe_blast_radius pe paths) []))"

definition quiet_state :: "apply_env \<Rightarrow> graph_state \<Rightarrow> bool" where
  "quiet_state pe s \<longleftrightarrow> denying s \<and> (case pending_apply s of None \<Rightarrow> True | Some env \<Rightarrow> denied_envelope pe env)"

text \<open>
  The effects of the gate and of the checks that such a session may leave: no command, and hooks
  and files only past the threshold, after the operator's approval.
\<close>

definition quiet_effect :: "apply_env \<Rightarrow> turn_effect \<Rightarrow> bool" where
  "quiet_effect pe e =
     (case e of
        Gate resume act \<Rightarrow>
          (case act of RanCommand _ \<Rightarrow> False | _ \<Rightarrow> True)
          \<and> (case resume of None \<Rightarrow> False | Some r \<Rightarrow> vd_approved (normalize_resume r))
          \<and> (\<exists>paths. pe_blast_threshold pe < length (or_else (pe_blast_radius pe paths) []))
      | Checked _ \<Rightarrow> False
      | Inside _ _ \<Rightarrow> True)"

lemma own_write_keeps:
  "own_write w \<Longrightarrow> pending_apply (apply_write w s) = pending_apply s
     \<and> session_permission_mode (apply_write w s) = session_permission_mode s"
  by (cases w) simp_all

lemma own_writes_keep:
  "foreign_delta d \<Longrightarrow> pending_apply (apply_delta d s) = pending_apply s
     \<and> session_permission_mode (apply_delta d s) = session_permission_mode s"
proof (induction d arbitrary: s)
  case (Cons w d)
  then show ?case using own_write_keeps [of w s] by (simp add: foreign_delta_def)
qed (simp add: foreign_delta_def)

lemma quiet_transfer:
  "quiet_state pe s \<Longrightarrow> pending_apply t = pending_apply s \<Longrightarrow>
   session_permission_mode t = session_permission_mode s \<Longrightarrow> quiet_state pe t"
  by (simp add: quiet_state_def denying_def)

lemma quiet_foreign: "quiet_state pe s \<Longrightarrow> foreign_delta d \<Longrightarrow> quiet_state pe (apply_delta d s)"
  using own_writes_keep [of d s] by (auto intro: quiet_transfer)

subsection \<open>The modelled nodes write no foreign channel\<close>

lemma foreign_simps [simp]:
  "foreign_delta []" "foreign_delta (w # d) \<longleftrightarrow> own_write w \<and> foreign_delta d"
  "foreign_delta (d @ d') \<longleftrightarrow> foreign_delta d \<and> foreign_delta d'"
  by (simp_all add: foreign_delta_def)

lemma foreign_mark [simp]: "own_write (mark s n st)"
  by (simp add: mark_def)

lemma foreign_model_route: "run_model_route_node dumps resume s = Done d \<Longrightarrow> foreign_delta d"
  by (cases resume) (auto simp: run_model_route_node_def request_graph_approval_def Let_def split: if_splits)

lemma foreign_coder:
  assumes "case outcome of Returned d' \<Rightarrow> foreign_delta d' | _ \<Rightarrow> True"
    and "coder_entry br now s outcome = (Returned d, recoveries)"
  shows "foreign_delta d"
  using assms
  by (cases outcome) (auto simp: coder_entry_def dead_letter_decorator_def reflexion_guard_def Let_def split: if_splits)

lemma foreign_heal: "run_error_correction_node he br now s = (d, br') \<Longrightarrow> foreign_delta d"
  by (auto simp: run_error_correction_node_def Let_def split: if_splits)

lemma foreign_finops: "run_finops_node usd resume s = Done d \<Longrightarrow> foreign_delta d"
  by (cases resume) (auto simp: run_finops_node_def request_graph_approval_def Let_def split: if_splits option.splits)

lemma foreign_supervisor: "run_supervisor_node env h snap s w = Inr (d, w') \<Longrightarrow> foreign_delta d"
  by (auto simp: run_supervisor_node_def supervise_def Let_def split: if_splits option.splits)

lemma foreign_validate: "foreign_delta (run_validate_output_node v s)"
  by (auto simp: run_validate_output_node_def Let_def split: option.split)

lemma foreign_checks: "run_checks_node r ge s = (d, spawned) \<Longrightarrow> foreign_delta d"
  by (auto simp: run_checks_node_def Let_def split: if_splits)

subsection \<open>PREPARE and COMMIT in a denying session\<close>

lemma denying_decisions:
  assumes "denying s"
  defines "m \<equiv> session_mode_from_channel (session_permission_mode s)"
  shows "gate_execute_action m = DENY" and "evaluate_action m WRITE EDIT_EXECUTE_RBW = DENY"
proof -
  have m: "normalize_session_mode m \<in> {MODE_READ_ONLY, PLAN_ONLY}"
    using assms(1) by (simp add: denying_def m_def)
  show "gate_execute_action m = DENY"
    unfolding gate_execute_action_def by (rule engine.planning_is_readonly [OF m]) simp
  show "evaluate_action m WRITE EDIT_EXECUTE_RBW = DENY"
    by (rule engine.planning_is_readonly [OF m]) simp
qed

lemma denying_checks_spawn_nothing:
  assumes "denying s"
  shows "snd (run_check ge s c) = []"
proof -
  let ?mode = "session_permission_mode s"
  have mode: "?mode \<noteq> None"
  proof
    assume "?mode = None"
    moreover have "session_mode_from_channel None = DEFAULT" by code_simp
    ultimately show False using assms by (simp add: denying_def)
  qed
  then obtain raw where raw: "?mode = Some raw" by blast
  then have "\<not> command_permitted ge command (Some (task_id s)) ?mode" for command
    using assms by (auto simp: command_permitted_def denying_def Let_def)
  then have "check_ran ge s c = None"
    by (auto simp: check_ran_def split: option.split)
  then show ?thesis using run_check_honest [of ge s c] by simp
qed

lemma prepare_quiet:
  assumes "quiet_state pe s" and "run_apply_prepare_node pe s = (d, effects)"
  shows "quiet_state pe (apply_delta d s) \<and> effects = []"
proof -
  let ?m = "session_mode_from_channel (session_permission_mode s)"
  have deny: "denying s" using assms(1) by (simp add: quiet_state_def)
  have staged: "quiet_state pe (apply_delta [mk, W_pending_apply (Some env), W_current_step_id (Some n)] s)"
    if "own_write mk" "denied_envelope pe env" for mk env n
    using that own_write_keeps [OF that(1), of s] deny by (simp add: quiet_state_def denying_def)
  show ?thesis
  proof (cases "target_step s")
    case None
    with assms show ?thesis by (simp add: run_apply_prepare_node_def)
  next
    case (Some step)
    let ?n = "step_number step"
    let ?paths = "dget_default (pending_step_files s) ?n []"
    consider "is_terminal step"
      | "\<not> is_terminal step" "?paths = []" "str_or (dget (pending_step_command s) ?n) [] = []"
      | c where "\<not> is_terminal step" "\<not> (?paths = [] \<and> str_or (dget (pending_step_command s) ?n) [] = [])"
        "dget (pending_step_command s) ?n = Some c"
      | "\<not> is_terminal step" "\<not> (?paths = [] \<and> str_or (dget (pending_step_command s) ?n) [] = [])"
        "dget (pending_step_command s) ?n = None" by (cases "dget (pending_step_command s) ?n") auto
    then show ?thesis
    proof cases
      case 1
      with assms Some show ?thesis by (simp add: run_apply_prepare_node_def)
    next
      case 2
      with assms(2) Some have "foreign_delta d" "effects = []"
        by (auto simp: run_apply_prepare_node_def Let_def)
      with assms(1) show ?thesis by (simp add: quiet_foreign)
    next
      case 3
      have "risk_intercept_guard (Some c) (gate_execute_action ?m) ?m = (DENY, [])"
        by (simp add: denying_decisions [OF deny] risk_intercept_not_allowed)
      with 3 assms(2) Some obtain env where "d = [W_mission_spec (mission_spec s), W_pending_apply (Some env),
            W_current_step_id (Some ?n)]" "ae_decision env = DENY" "effects = []"
        by (auto simp: run_apply_prepare_node_def prepare_command_def Let_def)
      with staged [of "W_mission_spec (mission_spec s)" env ?n] show ?thesis
        by (simp add: denied_envelope_def)
    next
      case 4
      with assms(2) Some have run: "(d, effects) = prepare_files pe s step ?paths ?m"
        by (simp add: run_apply_prepare_node_def Let_def)
      let ?ps = "filter (\<lambda>p. \<not> pe_internal pe p) ?paths"
      have verdict: "write_verdict pe s ?ps ?m = (DENY, False)
          \<or> write_verdict pe s ?ps ?m = (HITL, False)
            \<and> pe_blast_threshold pe < length (blast_affected pe s ?ps)"
        by (simp add: write_verdict_def denying_decisions [OF deny] Let_def)
      show ?thesis
      proof (cases "?ps = []")
        case True
        with run have "foreign_delta d" "effects = []" by (simp_all add: prepare_files_def Let_def)
        with assms(1) show ?thesis by (simp add: quiet_foreign)
      next
        case False
        with run verdict obtain mk env rest where "d = [mk, W_pending_apply (Some env), W_current_step_id (Some ?n)] @ rest"
          "own_write mk" "foreign_delta rest" "effects = []" "ae_kind env = FILE_WRITE" "\<not> ae_auto_accept env"
          "ae_decision env = fst (write_verdict pe s ?ps ?m)"
          by (auto simp: prepare_files_def Let_def split_beta split: if_splits)
        moreover from this verdict have "denied_envelope pe env"
          by (auto simp: denied_envelope_def blast_affected_def)
        ultimately have "quiet_state pe (apply_delta [mk, W_pending_apply (Some env), W_current_step_id (Some ?n)] s)"
          using staged by blast
        from quiet_foreign [OF this \<open>foreign_delta rest\<close>] show ?thesis
          using \<open>d = _\<close> \<open>effects = []\<close> by (simp only: apply_delta_append)
      qed
    qed
  qed
qed

text \<open>The deltas of a settled step leave the mode of the session alone.\<close>

lemma settle_keeps_session:
  "session_permission_mode (apply_delta (fst (settle pe s n env v)) s) = session_permission_mode s"
proof -
  have terminal: "session_permission_mode (apply_delta (terminal_result s n st errs c) s)
      = session_permission_mode s" for st errs c
    by (simp add: terminal_result_def mark_def)
  have declined: "session_permission_mode (apply_delta (handle_declined s n env v) s)
      = session_permission_mode s"
    by (auto simp: handle_declined_def Let_def terminal mark_def)
  have command: "session_permission_mode (apply_delta (fst (commit_command pe s n env)) s)
      = session_permission_mode s"
    by (auto simp: commit_command_def Let_def terminal) (simp_all add: mark_def healing_delta_def)
  have reject: "session_permission_mode (apply_delta (rejected_patch s n tr cls contents ex) s)
      = session_permission_mode s" for tr cls contents ex
    by (auto simp: rejected_patch_def Let_def terminal) (simp_all add: mark_def healing_delta_def)
  have written: "session_permission_mode (apply_delta (fst (write_files pe s n env contents)) s)
      = session_permission_mode s" for contents
    by (auto simp: write_files_def Let_def terminal) (simp_all add: mark_def)
  have "session_permission_mode (apply_delta (fst (commit_files pe s n env v)) s)
      = session_permission_mode s"
    using written by (auto simp: commit_files_def Let_def terminal reject split_beta split: option.splits)
  with declined command show ?thesis by (auto simp: settle_def)
qed

lemma settle_effects:
  assumes "ae_kind env = FILE_WRITE"
  shows "list_all (\<lambda>e. case e of RanCommand _ \<Rightarrow> False | _ \<Rightarrow> True) (snd (settle pe s n env v))"
  using assms
  by (auto simp: settle_def commit_files_def write_files_def Let_def split_beta split: option.splits if_splits)

lemma commit_quiet:
  assumes "quiet_state pe s" and "run_apply_commit_node pe resume s = Done (d, effects)"
  shows "quiet_state pe (apply_delta d s) \<and> list_all (quiet_effect pe) (map (Gate resume) effects)"
proof (cases "pending_apply s")
  case None
  with assms show ?thesis by (simp add: commit_defs)
next
  case (Some env)
  let ?n = "ae_step_number env"
  have deny: "denying s" and env: "denied_envelope pe env"
    using assms(1) Some by (simp_all add: quiet_state_def)
  have cleared: "quiet_state pe (apply_delta d s)"
    if "pending_apply (apply_delta d s) = None"
      "session_permission_mode (apply_delta d s) = session_permission_mode s" for d
    using that deny by (simp add: quiet_state_def denying_def)
  consider "?n \<in> set (applied_step_ids s)" | "?n \<notin> set (applied_step_ids s)" "ae_decision env = DENY"
    | "?n \<notin> set (applied_step_ids s)" "ae_decision env = HITL" "\<not> ae_auto_accept env"
      "ae_kind env = FILE_WRITE"
      "\<exists>paths. pe_blast_threshold pe < length (or_else (pe_blast_radius pe paths) [])"
    using env by (auto simp: denied_envelope_def)
  then show ?thesis
  proof cases
    case 1
    with assms(2) Some have "d = [W_pending_apply None]" "effects = []" by (simp_all add: commit_defs)
    with cleared [of d] show ?thesis by simp
  next
    case 2
    with assms(2) Some have d: "d = terminal_result s ?n failed
          [step_error ?n (''DENIED '' @ [CHR 0x97] @ '' plan mode is read-only; not applied.'')] None"
        "effects = []" by (simp_all add: commit_defs)
    have "quiet_state pe (apply_delta d s)"
      unfolding d(1) by (rule cleared) (simp_all add: terminal_result_def mark_def)
    with d(2) show ?thesis by simp
  next
    case 3
    with assms(2) Some obtain r v where v: "resume = Some r" "v = normalize_resume r" "settle pe s ?n env v = (d, effects)"
      by (cases resume) (auto simp: commit_defs)
    have "quiet_state pe (apply_delta d s)"
      using settle_settles [of s ?n pe env v] settle_keeps_session [of pe s ?n env v]
      by (intro cleared) (auto simp: v(3) settles_def)
    moreover have "list_all (quiet_effect pe) (map (Gate resume) effects)"
    proof (cases "vd_approved v")
      case True
      have "list_all (\<lambda>e. case e of RanCommand _ \<Rightarrow> False | _ \<Rightarrow> True) effects"
        using settle_effects [OF 3(4), of pe s ?n v] v(3) by simp
      then show ?thesis
        using True 3(5) v(1,2) by (auto simp: list_all_iff quiet_effect_def split: apply_effect.splits)
    next
      case False
      then have "effects = []" using v(3) by (simp add: settle_def)
      then show ?thesis by simp
    qed
    ultimately show ?thesis ..
  qed
qed

lemma checks_quiet:
  assumes "denying s" and "run_checks_node r ge s = (d, spawned)"
  shows "spawned = []"
  using assms denying_checks_spawn_nothing [OF assms(1), of ge]
  by (auto simp: run_checks_node_def Let_def split: if_splits option.splits)

lemma override_quiet: "quiet_state pe s \<Longrightarrow> quiet_state pe (apply_write PLAN_MODE_OVERRIDE s)"
proof -
  have "normalize_session_mode (session_mode_from_channel (Some ''PLAN_ONLY'')) = PLAN_ONLY"
    by code_simp
  then show "quiet_state pe s \<Longrightarrow> quiet_state pe (apply_write PLAN_MODE_OVERRIDE s)"
    by (simp add: quiet_state_def denying_def PLAN_MODE_OVERRIDE_def)
qed

subsection \<open>Reachable configurations\<close>

fun quiet_config :: "apply_env \<Rightarrow> config \<Rightarrow> bool" where
  "quiet_config pe (_, s, effs) \<longleftrightarrow> quiet_state pe s \<and> list_all (quiet_effect pe) effs"

lemma inside_quiet: "list_all (quiet_effect pe) (map (Inside node) acts)"
  by (simp add: list_all_iff quiet_effect_def)

lemma step_quiet: "turn_step te c c' \<Longrightarrow> quiet_config (te_apply te) c \<Longrightarrow> quiet_config (te_apply te) c'"
proof (induction rule: turn_step.induct)
  case (research d override s effs)
  then have "quiet_state (te_apply te) (apply_delta d s)" by (simp add: quiet_foreign)
  with research show ?case by (auto simp: apply_delta_append override_quiet inside_quiet)
next
  case (prepare s d effects effs)
  then show ?case using prepare_quiet [of "te_apply te" s d effects] by simp
next
  case (commit resume s d effects effs)
  then show ?case using commit_quiet [of "te_apply te" s resume d effects] by simp
next
  case (check s d spawned effs)
  then show ?case using checks_quiet [of s "te_repr te" "te_guard te" d spawned] foreign_checks [OF check.hyps]
    by (simp add: quiet_foreign) (simp add: quiet_state_def)
next
  case (code outcome br now s d recoveries t effs)
  then show ?case using foreign_coder [OF code.hyps(1,2)] by (simp add: quiet_foreign inside_quiet)
qed (auto intro!: quiet_foreign foreign_validate inside_quiet
    dest: foreign_model_route foreign_heal foreign_finops foreign_supervisor
    simp: step_dispatch_def Let_def split: option.split)

lemma run_quiet: "turn_run te c c' \<Longrightarrow> quiet_config (te_apply te) c \<Longrightarrow> quiet_config (te_apply te) c'"
  by (induction rule: rtranclp_induct) (auto dest: step_quiet)


subsection \<open>The exception: an exceeded blast radius\<close>

text \<open>
  An exceeded blast radius replaces every verdict, a denial included, by a card that the
  operator can approve.
\<close>

lemma blast_radius_lifts_denial:
  "denying s \<Longrightarrow> pe_blast_threshold pe < length (blast_affected pe s ps) \<Longrightarrow>
   evaluate_action (session_mode_from_channel (session_permission_mode s)) WRITE EDIT_EXECUTE_RBW = DENY
   \<and> write_verdict pe s ps (session_mode_from_channel (session_permission_mode s)) = (HITL, False)"
  using denying_decisions(2) [of s] by (simp add: write_verdict_def Let_def)

definition wide_pe :: apply_env where
  "wide_pe = demo_pe\<lparr>pe_blast_radius := (\<lambda>_. Some [''a'']), pe_blast_threshold := 0\<rparr>"

definition plan_only_files :: graph_state where
  "plan_only_files = fresh_state\<lparr>mission_spec := Some demo_mission, current_step_id := Some 1,
     pending_step_files := [(1, [''a.py''])], pending_contents := [(''a.py'', ''x'')],
     session_permission_mode := Some ''PLAN_ONLY''\<rparr>"

definition idle_te :: turn_env where
  "idle_te = \<lparr>te_apply = demo_pe, te_guard = demo_guard, te_heal = demo_heal,
     te_supervisor = demo_supervisor, te_validation = (\<lambda>_. None), te_usd = (\<lambda>_. []),
     te_dumps = id, te_repr = id\<rparr>"

lemma prepare_files_keep_applied:
  "applied_step_ids (apply_delta (fst (prepare_files pe s step ps m)) s) = applied_step_ids s"
  by (simp add: prepare_files_def Let_def split_beta mark_def)

text \<open>
  In a plan-only session whose step touches a widely used file, one approval writes the file.
\<close>

theorem wide_change_written_in_plan_only:
  "\<exists>c. list_ex (\<lambda>e. e = WroteFiles c)
     (case run_apply_commit_node wide_pe (Some (JBool True))
         (apply_delta (fst (run_apply_prepare_node wide_pe plan_only_files)) plan_only_files) of
        Done (_, effs) \<Rightarrow> effs | Suspended _ \<Rightarrow> [])"
proof -
  let ?s = plan_only_files and ?pe = wide_pe
  let ?t = "apply_delta (fst (run_apply_prepare_node ?pe ?s)) ?s"
  have step: "target_step ?s = Some demo_step"
    by (simp add: target_step_def plan_only_files_def demo_mission_def step_of_def demo_step_def)
  have mode: "session_permission_mode ?s = Some ''PLAN_ONLY''" by (simp add: plan_only_files_def)
  have "denying ?s" unfolding denying_def mode by code_simp
  moreover have "pe_blast_threshold ?pe < length (blast_affected ?pe ?s ps)" for ps
    by (simp add: wide_pe_def blast_affected_def)
  ultimately have verdict: "write_verdict ?pe ?s ps
      (session_mode_from_channel (session_permission_mode ?s)) = (HITL, False)" for ps
    using blast_radius_lifts_denial by blast
  have "run_apply_prepare_node ?pe ?s = prepare_files ?pe ?s demo_step [''a.py'']
      (session_mode_from_channel (session_permission_mode ?s))"
    unfolding run_apply_prepare_node_def step option.case
    by (simp add: is_terminal_def demo_step_def plan_only_files_def fresh_state_def Let_def dget_default_def)
  moreover have "\<exists>env. pending_apply (apply_delta (fst (prepare_files ?pe ?s demo_step [''a.py'']
      (session_mode_from_channel (session_permission_mode ?s)))) ?s) = Some env
      \<and> ae_kind env = FILE_WRITE \<and> ae_decision env = HITL \<and> \<not> ae_auto_accept env
      \<and> ae_step_number env = 1"
    by (simp add: prepare_files_def verdict mark_def Let_def)
      (simp add: wide_pe_def demo_pe_def demo_step_def)
  ultimately obtain env where env: "pending_apply ?t = Some env" "ae_kind env = FILE_WRITE"
      "ae_decision env = HITL" "\<not> ae_auto_accept env" "ae_step_number env = 1" by auto
  have ids: "applied_step_ids ?t = []"
    unfolding \<open>run_apply_prepare_node ?pe ?s = _\<close> prepare_files_keep_applied
    by (simp add: plan_only_files_def fresh_state_def)
  have "run_apply_commit_node ?pe (Some (JBool True)) ?t
      = Done (settle ?pe ?t 1 env (normalize_resume (JBool True)))"
    using env by (simp add: commit_defs ids)
  moreover have "list_ex (\<lambda>e. e = WroteFiles c) (snd (settle ?pe ?t 1 env (normalize_resume (JBool True))))"
    if "c = commit_contents ?t env (normalize_resume (JBool True))" for c
  proof -
    have clean: "file_problem (\<lambda>_ _. None) f pc = []" for f pc
      by (cases pc) (simp add: file_problem_def)
    have "validate_generated_files ?pe cs = None" "lint_generated_files ?pe cs = None" for cs
      by (simp_all add: validate_generated_files_def lint_generated_files_def wide_pe_def demo_pe_def
          clean problem_report_def)
    moreover have "pe_hooks ?pe h = (True, [])" "pr_ok (pe_patch_set ?pe x y)" for h x y
      by (simp_all add: wide_pe_def demo_pe_def)
    ultimately show ?thesis
      using env that by (simp add: settle_def normalize_resume_def commit_files_def write_files_def Let_def)
  qed
  ultimately show ?thesis by (auto simp: split_beta)
qed

text \<open>A plan-only session that reaches the apply gate with a command to run.\<close>

definition plan_only_command :: graph_state where
  "plan_only_command = fresh_state\<lparr>mission_spec := Some demo_mission, current_step_id := Some 1,
     pending_step_command := [(1, ''make'')], session_permission_mode := Some ''PLAN_ONLY''\<rparr>"


end
