(* ===== verification/Diffs.thy ===== *)
theory Diffs
  imports PyText
begin

text \<open>
  The unified-diff applier of \<open>core/blob_storage.py\<close>. A specification of patches as lists of
  hunks is rendered to the text of a diff, and the applier is shown to compute it.
\<close>

subsection \<open>Unified diffs\<close>

text \<open>Python's indexing and slicing of a list by an integer that may be negative.\<close>

definition py_index :: "'a list \<Rightarrow> int \<Rightarrow> 'a option" where
  "py_index xs i =
     (let j = (if i < 0 then i + int (length xs) else i)
      in if 0 \<le> j \<and> j < int (length xs) then Some (xs ! nat j) else None)"

definition py_bound :: "'a list \<Rightarrow> int \<Rightarrow> nat" where
  "py_bound xs i = nat (if i < 0 then i + int (length xs) else i)"

definition py_slice :: "'a list \<Rightarrow> int \<Rightarrow> int \<Rightarrow> 'a list" where
  "py_slice xs i j = take (py_bound xs j - py_bound xs i) (drop (py_bound xs i) xs)"

definition py_from :: "'a list \<Rightarrow> int \<Rightarrow> 'a list" where
  "py_from xs i = drop (py_bound xs i) xs"

text \<open>\<open>re.match\<close> of the header \<open>@@ -(\d+)(?:,(\d+))? \+(\d+)(?:,(\d+))? @@\<close>: its first group.\<close>

definition digit_value :: "char \<Rightarrow> nat" where
  "digit_value c = of_char c - 48"

definition nat_of_digits :: "string \<Rightarrow> nat" where
  "nat_of_digits ds = foldl (\<lambda>n c. 10 * n + digit_value c) 0 ds"

definition after_prefix :: "string \<Rightarrow> string \<Rightarrow> string option" where
  "after_prefix p s = (if starts_with s p then Some (drop (length p) s) else None)"

definition read_number :: "string \<Rightarrow> (nat \<times> string) option" where
  "read_number s =
     (let ds = takeWhile is_digit s in if ds = [] then None else Some (nat_of_digits ds, dropWhile is_digit s))"

definition skip_count :: "string \<Rightarrow> string" where
  "skip_count s =
     (case after_prefix '','' s of
        None \<Rightarrow> s
      | Some s' \<Rightarrow> (case read_number s' of None \<Rightarrow> s | Some (_, s'') \<Rightarrow> s''))"

definition hunk_header :: "string \<Rightarrow> nat option" where
  "hunk_header line =
     (case after_prefix ''@@ -'' line of
        None \<Rightarrow> None
      | Some s1 \<Rightarrow>
          (case read_number s1 of
             None \<Rightarrow> None
           | Some (start, s2) \<Rightarrow>
               (case after_prefix '' +'' (skip_count s2) of
                  None \<Rightarrow> None
                | Some s3 \<Rightarrow>
                    (case read_number s3 of
                       None \<Rightarrow> None
                     | Some (_, s4) \<Rightarrow>
                         if starts_with (skip_count s4) '' @@'' then Some start else None))))"

definition file_header :: "string \<Rightarrow> bool" where
  "file_header line \<longleftrightarrow> starts_with line ''--- '' \<or> starts_with line ''+++ ''"

definition strip_lf :: "string \<Rightarrow> string" where
  "strip_lf s = rev (dropWhile (\<lambda>c. c = CHR 0x0A) (rev s))"

datatype diff_error = PastEnd int | Mismatch int | IndexFault int

text \<open>
  The two nested loops, as one pass over the lines of the patch: \<open>in_hunk\<close> tells the inner loop
  from the outer one, \<open>pos\<close> is \<open>orig_pos\<close> (which a header \<open>-0\<close> makes negative) and \<open>out\<close> the result.
\<close>

fun diff_lines :: "string list \<Rightarrow> bool \<Rightarrow> int \<Rightarrow> string list \<Rightarrow> string list \<Rightarrow> diff_error + string list" where
  "diff_lines orig in_hunk pos out [] = Inr (out @ py_from orig pos)"
| "diff_lines orig in_hunk pos out (line # rest) =
     (if file_header line then diff_lines orig False pos out rest
      else (case hunk_header line of
        Some start \<Rightarrow>
          (let orig_start = int start - 1 in
           diff_lines orig True orig_start
             (if pos < orig_start then out @ py_slice orig pos orig_start else out) rest)
      | None \<Rightarrow>
          if \<not> in_hunk then diff_lines orig False pos out rest
          else if starts_with line ''+'' then diff_lines orig True pos (out @ [tl line]) rest
          else if starts_with line ''-'' then
            (if int (length orig) \<le> pos then Inl (PastEnd (pos + 1))
             else (case py_index orig pos of
                     None \<Rightarrow> Inl (IndexFault pos)
                   | Some actual \<Rightarrow>
                       if strip_lf actual \<noteq> strip_lf (tl line) then Inl (Mismatch (pos + 1))
                       else diff_lines orig True (pos + 1) out rest))
          else if starts_with line '' '' then
            (if pos < int (length orig)
             then (case py_index orig pos of
                     None \<Rightarrow> Inl (IndexFault pos)
                   | Some l \<Rightarrow> diff_lines orig True (pos + 1) (out @ [l]) rest)
             else diff_lines orig True (pos + 1) out rest)
          else diff_lines orig True pos out rest))"

definition apply_unified_diff :: "string \<Rightarrow> string \<Rightarrow> diff_error + string" where
  "apply_unified_diff original patch =
     (case diff_lines (splitlines_keep original) False 0 [] (splitlines_keep patch) of
        Inl e \<Rightarrow> Inl e
      | Inr ls \<Rightarrow> Inr (concat ls))"

subsection \<open>Patches as data\<close>

datatype edit = Keep string | Del string | Add string

fun old_side :: "edit list \<Rightarrow> string list" where
  "old_side [] = []"
| "old_side (Keep l # es) = l # old_side es"
| "old_side (Del l # es) = l # old_side es"
| "old_side (Add l # es) = old_side es"

fun new_side :: "edit list \<Rightarrow> string list" where
  "new_side [] = []"
| "new_side (Keep l # es) = l # new_side es"
| "new_side (Del l # es) = new_side es"
| "new_side (Add l # es) = l # new_side es"

text \<open>A hunk: the lines before it in the old and in the new text, and its edits.\<close>

type_synonym hunk = "nat \<times> nat \<times> edit list"

fun render_edit :: "edit \<Rightarrow> string" where
  "render_edit (Keep l) = CHR '' '' # l"
| "render_edit (Del l) = CHR ''-'' # l"
| "render_edit (Add l) = CHR ''+'' # l"

definition render_header :: "hunk \<Rightarrow> string" where
  "render_header h = (case h of (p, q, es) \<Rightarrow>
     ''@@ -'' @ show_nat (p + 1) @ '','' @ show_nat (length (old_side es)) @ '' +'' @ show_nat (q + 1)
     @ '','' @ show_nat (length (new_side es)) @ '' @@'' @ [CHR 0x0A])"

definition render_hunk :: "hunk \<Rightarrow> string list" where
  "render_hunk h = render_header h # map render_edit (snd (snd h))"

definition render_patch :: "hunk list \<Rightarrow> string" where
  "render_patch hs = concat (concat (map render_hunk hs))"

text \<open>The specification: copy up to the hunk, take its new side, go on after its old side.\<close>

fun patched :: "string list \<Rightarrow> nat \<Rightarrow> hunk list \<Rightarrow> string list" where
  "patched orig pos [] = drop pos orig"
| "patched orig pos ((p, q, es) # hs) =
     take (p - pos) (drop pos orig) @ new_side es @ patched orig (p + length (old_side es)) hs"

text \<open>The hunks are in order, disjoint, not empty on the old side, and match the text.\<close>

fun fits :: "string list \<Rightarrow> nat \<Rightarrow> hunk list \<Rightarrow> bool" where
  "fits orig pos [] \<longleftrightarrow> pos \<le> length orig"
| "fits orig pos ((p, q, es) # hs) \<longleftrightarrow>
     pos \<le> p \<and> old_side es \<noteq> [] \<and> take (length (old_side es)) (drop p orig) = old_side es
     \<and> fits orig (p + length (old_side es)) hs"

definition clean_line :: "string \<Rightarrow> bool" where
  "clean_line l \<longleftrightarrow> l \<noteq> [] \<and> last l = CHR 0x0A \<and> list_all (\<lambda>c. \<not> line_boundary c) (butlast l)"

text \<open>
  An edit whose rendering cannot be mistaken for a file header: a removed line does not start
  with two dashes and a space, an added one not with two plus signs and a space.
\<close>

fun plain_edit :: "edit \<Rightarrow> bool" where
  "plain_edit (Keep l) = clean_line l"
| "plain_edit (Del l) = (clean_line l \<and> \<not> starts_with l ''-- '')"
| "plain_edit (Add l) = (clean_line l \<and> \<not> starts_with l ''++ '')"

subsection \<open>Lines and numbers\<close>

lemma splitlines_clean: "list_all clean_line ls \<Longrightarrow> splitlines_keep (concat ls) = ls"
proof (induction ls)
  case (Cons l ls)
  have step: "list_all (\<lambda>c. \<not> line_boundary c) b \<Longrightarrow>
      splitlines_keep (b @ CHR 0x0A # s) = (b @ [CHR 0x0A]) # splitlines_keep s" for b s
    by (induction b) (auto simp: line_boundary_def)
  from Cons.prems have "l = butlast l @ [CHR 0x0A]" "list_all (\<lambda>c. \<not> line_boundary c) (butlast l)"
    by (auto simp: clean_line_def dest: append_butlast_last_id)
  then obtain b where "l = b @ [CHR 0x0A]" "list_all (\<lambda>c. \<not> line_boundary c) b" by blast
  with step [of b "concat ls"] Cons show ?case by simp
qed simp

lemma digit_char:
  assumes "d < 10"
  shows "is_digit (char_of (48 + d :: nat))" and "digit_value (char_of (48 + d :: nat)) = d"
  using assms by (simp_all add: is_digit_def digit_value_def)

lemma show_nat_digits: "list_all is_digit (show_nat n) \<and> show_nat n \<noteq> []"
proof (induction n rule: show_nat.induct)
  case (1 n)
  then show ?case by (subst (1 2) show_nat.simps) (auto simp: digit_char(1))
qed

lemma nat_of_digits_show [simp]: "nat_of_digits (show_nat n) = n"
proof (induction n rule: show_nat.induct)
  case (1 n)
  then show ?case by (subst show_nat.simps) (auto simp: nat_of_digits_def digit_char(2))
qed

lemma read_show_nat:
  assumes "case rest of [] \<Rightarrow> True | c # _ \<Rightarrow> \<not> is_digit c"
  shows "read_number (show_nat n @ rest) = Some (n, rest)"
proof -
  have "\<forall>c \<in> set (show_nat n). is_digit c" using show_nat_digits by (simp add: list_all_iff)
  then have "takeWhile is_digit (show_nat n @ rest) = show_nat n"
      "dropWhile is_digit (show_nat n @ rest) = rest"
    using assms by (cases rest; simp add: takeWhile_append2 dropWhile_append2)+
  then show ?thesis using show_nat_digits by (simp add: read_number_def)
qed

lemma hunk_header_render: "hunk_header (render_header (p, q, es)) = Some (p + 1)"
proof -
  have nd: "\<not> is_digit (CHR '','')" "\<not> is_digit (CHR '' '')" by (simp_all add: is_digit_def)
  show ?thesis
    by (simp add: render_header_def hunk_header_def after_prefix_def starts_with_def skip_count_def
        read_show_nat nd)
qed

lemma rendered_edit:
  "plain_edit e \<Longrightarrow> \<not> file_header (render_edit e) \<and> hunk_header (render_edit e) = None \<and> clean_line (render_edit e)"
  by (cases e) (auto simp: file_header_def starts_with_def hunk_header_def after_prefix_def clean_line_def
      line_boundary_def)

lemma clean_header: "clean_line (render_header h)"
proof -
  have digits: "list_all (\<lambda>c. \<not> line_boundary c) (show_nat n)" for n
    using show_nat_digits [of n] by (auto simp: list_all_iff is_digit_def line_boundary_def)
  obtain p q es where "h = (p, q, es)" by (cases h)
  then show ?thesis
    using digits by (simp add: render_header_def clean_line_def butlast_append) (simp add: line_boundary_def)
qed

subsection \<open>The applier computes the specification\<close>

lemma hunk_body:
  assumes "list_all plain_edit es" and "take (length (old_side es)) (drop p orig) = old_side es"
    and "p + length (old_side es) \<le> length orig"
  shows "diff_lines orig True (int p) out (map render_edit es @ rest)
    = diff_lines orig True (int (p + length (old_side es))) (out @ new_side es) rest"
  using assms
proof (induction es arbitrary: p out)
  case (Cons e es)
  from Cons.prems have plain: "\<not> file_header (render_edit e)" "hunk_header (render_edit e) = None"
    and rest: "list_all plain_edit es"
    using rendered_edit [of e] by simp_all
  have at: "p < length orig \<and> orig ! p = l \<and> take (length (old_side es)) (drop (p + 1) orig) = old_side es"
    if "take (length (old_side es) + 1) (drop p orig) = l # old_side es" "p + (length (old_side es) + 1) \<le> length orig" for l
    using that Cons_nth_drop_Suc [of p orig] by (cases "drop p orig") auto
  have index: "py_index orig (int p) = Some (orig ! p)" if "p < length orig"
    using that by (simp add: py_index_def)
  show ?case
  proof (cases e)
    case (Keep l)
    with Cons.prems at [of l] have "p < length orig" "orig ! p = l"
        "take (length (old_side es)) (drop (p + 1) orig) = old_side es" by simp_all
    with Keep plain index Cons.IH [OF rest, of "p + 1" "out @ [l]"] Cons.prems show ?thesis
      by (simp add: starts_with_def add.commute)
  next
    case (Del l)
    with Cons.prems at [of l] have "p < length orig" "orig ! p = l"
        "take (length (old_side es)) (drop (p + 1) orig) = old_side es" by simp_all
    with Del plain index Cons.IH [OF rest, of "p + 1" out] Cons.prems show ?thesis
      by (simp add: starts_with_def add.commute)
  next
    case (Add l)
    with plain Cons.IH [OF rest, of p "out @ [l]"] Cons.prems show ?thesis
      by (simp add: starts_with_def)
  qed
qed simp

lemma fits_bound: "fits orig pos hs \<Longrightarrow> pos \<le> length orig"
proof (induction hs arbitrary: pos)
  case (Cons h hs)
  then show ?case by (cases h) (fastforce dest: Cons.IH)
qed simp

lemma diff_hunks:
  assumes "fits orig pos hs" and "list_all (\<lambda>h. list_all plain_edit (snd (snd h))) hs"
  shows "diff_lines orig b (int pos) out (concat (map render_hunk hs)) = Inr (out @ patched orig pos hs)"
  using assms
proof (induction hs arbitrary: b pos out)
  case Nil
  then show ?case by (simp add: py_from_def py_bound_def)
next
  case (Cons h hs)
  obtain p q es where h: "h = (p, q, es)" by (cases h)
  let ?n = "p + length (old_side es)" and ?body = "map render_edit es @ concat (map render_hunk hs)"
  from Cons.prems h have fit: "pos \<le> p" "take (length (old_side es)) (drop p orig) = old_side es"
      "fits orig ?n hs" "list_all plain_edit es" by simp_all
  have "\<not> file_header (render_header h)"
    by (simp add: h render_header_def file_header_def starts_with_def)
  moreover have "py_slice orig (int pos) (int p) = take (p - pos) (drop pos orig)"
    by (simp add: py_slice_def py_bound_def)
  ultimately have "diff_lines orig b (int pos) out (concat (map render_hunk (h # hs)))
      = diff_lines orig True (int p) (out @ take (p - pos) (drop pos orig)) ?body"
    using fit(1) hunk_header_render [of p q es]
    by (auto simp: h render_hunk_def Let_def)
  also have "\<dots> = diff_lines orig True (int ?n) ((out @ take (p - pos) (drop pos orig)) @ new_side es)
      (concat (map render_hunk hs))"
    using fit fits_bound [OF fit(3)] by (intro hunk_body)
  also have "\<dots> = Inr (out @ patched orig pos (h # hs))"
    using Cons.IH [OF fit(3)] Cons.prems h by simp
  finally show ?case .
qed

text \<open>
  C40. Applying a diff applies the patch. For any text of newline-terminated lines and any patch
  whose hunks are in order, match the text and keep, remove or add lines that cannot be
  mistaken for a file header, applying the rendered unified diff yields exactly the patched
  text.
\<close>

theorem unified_diff_applies_patch:
  assumes "list_all clean_line orig" and "fits orig 0 hs"
    and "list_all (\<lambda>h. list_all plain_edit (snd (snd h))) hs"
  shows "apply_unified_diff (concat orig) (render_patch hs) = Inr (concat (patched orig 0 hs))"
proof -
  have "list_all clean_line (concat (map render_hunk hs))"
    using assms(3) rendered_edit by (auto simp: list_all_iff render_hunk_def clean_header)
  then have "splitlines_keep (render_patch hs) = concat (map render_hunk hs)"
    unfolding render_patch_def by (rule splitlines_clean)
  moreover have "diff_lines orig False (int 0) [] (concat (map render_hunk hs)) = Inr ([] @ patched orig 0 hs)"
    by (rule diff_hunks [OF assms(2,3)])
  ultimately show ?thesis
    using splitlines_clean [OF assms(1)] by (simp add: apply_unified_diff_def)
qed

definition text_line :: "string \<Rightarrow> string" where
  "text_line s = s @ [CHR 0x0A]"

theorem unified_diff_applies_patch_witness:
  "apply_unified_diff (concat [text_line ''a'', text_line ''b'', text_line ''c''])
     (render_patch [(1, 1, [Keep (text_line ''b''), Del (text_line ''c''), Add (text_line ''d'')])])
   = Inr (concat [text_line ''a'', text_line ''b'', text_line ''d''])"
  by (subst unified_diff_applies_patch) (simp_all add: text_line_def clean_line_def line_boundary_def starts_with_def)

subsection \<open>Where the applier departs from unified diffs\<close>

text \<open>
  Removing a line that starts with two dashes and a space is read as a file header, so the
  removal and the rest of its hunk are skipped without an error.
\<close>

theorem removed_comment_is_skipped:
  "apply_unified_diff (concat [text_line ''-- a'', text_line ''b''])
     (render_patch [(0, 0, [Del (text_line ''-- a''), Del (text_line ''b''), Add (text_line ''c'')])])
   = Inr (concat [text_line ''-- a'', text_line ''b''])"
  by code_simp

text \<open>
  Context is not validated, and a hunk without context is applied one line too early.
\<close>

theorem diff_context_unchecked:
  "apply_unified_diff (concat [text_line ''a'', text_line ''b''])
     (render_patch [(0, 0, [Keep (text_line ''x''), Add (text_line ''new'')])])
   = Inr (concat [text_line ''a'', text_line ''new'', text_line ''b''])"
  "apply_unified_diff (concat [text_line ''a'', text_line ''b'']) (text_line ''@@ -1,0 +2 @@'' @ text_line ''+new'')
   = Inr (concat [text_line ''new'', text_line ''a'', text_line ''b''])"
  by code_simp+

end
