(* ===== verification/Blobs.thy ===== *)
theory Blobs
  imports Diffs
begin

text \<open>
  Content-addressable storage (\<open>core/blob_storage.py\<close>): the bounded store of blobs keyed by their
  hash, which also applies diffs to what it stores. The BLAKE2b digest is the parameter \<open>blake2b\<close>. The locale
  \<open>bounded_store\<close> is what a client of a bounded cache may rely on; the store of blobs and, in
  its own theory, the response cache interpret it.
\<close>

subsection \<open>The store\<close>

record cas =
  cas_store :: "(string, string) dict"
  cas_max_entries :: nat

text \<open>\<open>None\<close> is the \<open>KeyError\<close> of \<open>popitem\<close> on an empty store without capacity.\<close>

definition cas_put :: "(string \<Rightarrow> string) \<Rightarrow> string \<Rightarrow> cas \<Rightarrow> (string \<times> cas) option" where
  "cas_put blake2b content s =
     (let h = blake2b content in
      if dget (cas_store s) h \<noteq> None
      then Some (h, s\<lparr>cas_store := move_to_end h (cas_store s)\<rparr>)
      else if cas_max_entries s \<le> length (cas_store s)
      then (case cas_store s of
              [] \<Rightarrow> None
            | _ # kept \<Rightarrow> Some (h, s\<lparr>cas_store := dset h content kept\<rparr>))
      else Some (h, s\<lparr>cas_store := dset h content (cas_store s)\<rparr>))"

definition cas_get :: "cas \<Rightarrow> string \<Rightarrow> string option" where
  "cas_get s blob_hash = dget (cas_store s) blob_hash"

definition cas_apply_patch ::
  "(string \<Rightarrow> string) \<Rightarrow> string \<Rightarrow> string \<Rightarrow> cas \<Rightarrow> string option \<times> cas" where
  "cas_apply_patch blake2b blob_hash diff_patch s =
     (case apply_unified_diff (dget_default (cas_store s) blob_hash []) diff_patch of
        Inl _ \<Rightarrow> (None, s)
      | Inr content \<Rightarrow>
          (case cas_put blake2b content s of None \<Rightarrow> (None, s) | Some (h, s') \<Rightarrow> (Some h, s')))"

subsection \<open>What a bounded store promises\<close>

locale bounded_store =
  fixes look :: "'s \<Rightarrow> 'k \<Rightarrow> 'v option"
    and insert_entry :: "'k \<Rightarrow> 'v \<Rightarrow> 's \<Rightarrow> 's"
    and valid :: "'s \<Rightarrow> bool"
    and entries :: "'s \<Rightarrow> nat"
    and capacity :: "'s \<Rightarrow> nat"
    and legal :: "'k \<Rightarrow> 'v \<Rightarrow> bool"
  assumes insert_valid: "valid s \<Longrightarrow> legal k v \<Longrightarrow> valid (insert_entry k v s)"
    and insert_capacity: "capacity (insert_entry k v s) = capacity s"
    and bounded: "valid s \<Longrightarrow> entries s \<le> capacity s"
    and look_inserted: "valid s \<Longrightarrow> legal k v \<Longrightarrow> look (insert_entry k v s) k = Some v"
    and look_kept: "valid s \<Longrightarrow> legal k v \<Longrightarrow> k' \<noteq> k \<Longrightarrow> look (insert_entry k v s) k' = Some w \<Longrightarrow>
      look s k' = Some w"
begin

definition inserts :: "('k \<times> 'v) list \<Rightarrow> 's \<Rightarrow> 's" where
  "inserts kvs s = fold (\<lambda>(k, v). insert_entry k v) kvs s"

lemma inserts_valid:
  "valid s \<Longrightarrow> list_all (\<lambda>(k, v). legal k v) kvs \<Longrightarrow>
   valid (inserts kvs s) \<and> capacity (inserts kvs s) = capacity s"
  unfolding inserts_def
proof (induction kvs arbitrary: s)
  case (Cons kv kvs)
  then show ?case
    by (cases kv) (simp add: insert_valid insert_capacity)
qed simp

text \<open>A store never grows past its capacity and never makes up an entry.\<close>

lemma inserts_bounded:
  "valid s \<Longrightarrow> list_all (\<lambda>(k, v). legal k v) kvs \<Longrightarrow> entries (inserts kvs s) \<le> capacity s"
  using inserts_valid bounded by metis

lemma inserts_look:
  assumes "valid s" "list_all (\<lambda>(k, v). legal k v) kvs" "look (inserts kvs s) k = Some v"
  shows "map_of (rev kvs) k = Some v \<or> map_of (rev kvs) k = None \<and> look s k = Some v"
  using assms
proof (induction kvs arbitrary: s)
  case Nil
  then show ?case by (simp add: inserts_def)
next
  case (Cons kv kvs)
  obtain k' v' where kv: "kv = (k', v')" by (cases kv)
  with Cons.prems have legal: "legal k' v'" by simp
  have "map_of (rev kvs) k = Some v
      \<or> map_of (rev kvs) k = None \<and> look (insert_entry k' v' s) k = Some v"
    using Cons.prems kv insert_valid [OF Cons.prems(1) legal] by (intro Cons.IH) (simp_all add: inserts_def)
  then show ?case
    using kv look_inserted [OF Cons.prems(1) legal] look_kept [OF Cons.prems(1) legal]
    by (auto simp: map_add_def split: option.splits)
qed

lemma inserts_last: "valid s \<Longrightarrow> legal k v \<Longrightarrow> list_all (\<lambda>(k, v). legal k v) kvs \<Longrightarrow>
  look (inserts (kvs @ [(k, v)]) s) k = Some v"
  using inserts_valid [of s kvs] look_inserted by (simp add: inserts_def)

end

subsection \<open>The store keeps its most recent contents\<close>

definition last_n :: "nat \<Rightarrow> 'a list \<Rightarrow> 'a list" where
  "last_n n xs = drop (length xs - n) xs"

lemma last_n_append: "length ys \<le> n \<Longrightarrow> last_n n (xs @ ys) = last_n (n - length ys) xs @ ys"
  by (simp add: last_n_def)

lemma set_last_n: "set (last_n n xs) \<subseteq> set xs"
  by (simp add: last_n_def set_drop_subset)

lemma distinct_last_n: "distinct xs \<Longrightarrow> distinct (last_n n xs)"
  by (simp add: last_n_def)

lemma length_last_n: "length (last_n n xs) = min n (length xs)"
  by (simp add: last_n_def)

lemma last_n_split: obtains ys where "xs = ys @ last_n n xs" "ys = [] \<or> length (last_n n xs) = n"
proof -
  have "xs = take (length xs - n) xs @ last_n n xs" by (simp add: last_n_def)
  moreover have "take (length xs - n) xs = [] \<or> length (last_n n xs) = n" by (auto simp: last_n_def)
  ultimately show thesis using that by blast
qed

abbreviation without :: "'a \<Rightarrow> 'a list \<Rightarrow> 'a list" where
  "without x xs \<equiv> filter (\<lambda>y. y \<noteq> x) xs"

lemma without_absent: "x \<notin> set xs \<Longrightarrow> without x xs = xs"
  by (auto simp: filter_id_conv)

lemma remdups_snoc: "remdups (xs @ [x]) = without x (remdups xs) @ [x]"
  by (induction xs) auto

text \<open>One use of \<open>x\<close> in a store that holds at most \<open>m\<close> keys, most recent last.\<close>

definition lru_use :: "nat \<Rightarrow> 'a \<Rightarrow> 'a list \<Rightarrow> 'a list" where
  "lru_use m x ks =
     (if x \<in> set ks then without x ks @ [x] else if m \<le> length ks then tl ks @ [x] else ks @ [x])"

lemma lru_use_last_n:
  assumes "distinct xs" and "1 \<le> m"
  shows "lru_use m x (last_n m xs) = last_n m (without x xs @ [x])"
proof -
  obtain ys where ys: "xs = ys @ last_n m xs" "ys = [] \<or> length (last_n m xs) = m" by (rule last_n_split)
  let ?B = "last_n m xs"
  have B: "distinct ?B" "length ?B \<le> m" using assms by (simp_all add: distinct_last_n length_last_n)
  have split: "without x xs @ [x] = without x ys @ without x ?B @ [x]"
    using ys(1) by (metis append.assoc filter_append)
  show ?thesis
  proof (cases "x \<in> set ?B")
    case True
    with assms(1) ys(1) have "x \<notin> set ys" by (metis disjoint_iff distinct_append)
    with split without_absent [of x ys] have "without x xs @ [x] = ys @ (without x ?B @ [x])" by metis
    moreover have "length (without x ?B @ [x]) = length ?B"
      using length_filter_remove1 [OF B(1) True] by simp
    ultimately have "last_n m (without x xs @ [x]) = last_n (m - length ?B) ys @ without x ?B @ [x]"
      using last_n_append B(2) by metis
    moreover have "last_n (m - length ?B) ys = []" using ys(2) by (auto simp: last_n_def)
    ultimately show ?thesis using True by (simp add: lru_use_def)
  next
    case False
    with split without_absent [of x ?B] have rem: "without x xs @ [x] = without x ys @ ?B @ [x]" by metis
    show ?thesis
    proof (cases "length ?B = m")
      case True
      then obtain b bs where b: "?B = b # bs" using assms(2) by (cases ?B) auto
      have m: "length (bs @ [x]) = m" using True b by simp
      have "last_n m ((without x ys @ [b]) @ (bs @ [x])) = bs @ [x]"
        using last_n_append [of "bs @ [x]" m "without x ys @ [b]"] m by (simp add: last_n_def)
      with rem b False True show ?thesis by (simp add: lru_use_def)
    next
      case short: False
      with ys(2) B(2) have nil: "ys = []" "length (?B @ [x]) \<le> m" by auto
      with rem have "last_n m (without x xs @ [x]) = ?B @ [x]"
        by (simp only: filter.simps append_Nil) (simp add: last_n_def)
      with short False B(2) show ?thesis by (simp add: lru_use_def)
    qed
  qed
qed

definition cas_insert :: "(string \<Rightarrow> string) \<Rightarrow> string \<Rightarrow> string \<Rightarrow> cas \<Rightarrow> cas" where
  "cas_insert blake2b h content s =
     (case cas_put blake2b content s of None \<Rightarrow> s | Some (_, s') \<Rightarrow> s')"

definition cas_legal :: "(string \<Rightarrow> string) \<Rightarrow> string set \<Rightarrow> string \<Rightarrow> string \<Rightarrow> bool" where
  "cas_legal blake2b known h content \<longleftrightarrow> h = blake2b content \<and> content \<in> known \<and> inj_on blake2b known"

definition cas_valid :: "(string \<Rightarrow> string) \<Rightarrow> string set \<Rightarrow> cas \<Rightarrow> bool" where
  "cas_valid blake2b known s \<longleftrightarrow>
     distinct (dkeys (cas_store s)) \<and> length (cas_store s) \<le> cas_max_entries s \<and> 1 \<le> cas_max_entries s
     \<and> (\<forall>h c. dget (cas_store s) h = Some c \<longrightarrow> h = blake2b c \<and> c \<in> known)"

lemma dkeys_lru:
  assumes "cas_valid blake2b known s"
  shows "dkeys (cas_store (cas_insert blake2b h c s)) = lru_use (cas_max_entries s) (blake2b c) (dkeys (cas_store s))"
    and "cas_max_entries (cas_insert blake2b h c s) = cas_max_entries s"
proof -
  have keys: "(dget (cas_store s) k = None) = (k \<notin> set (dkeys (cas_store s)))" for k by (rule dget_None_iff)
  show "dkeys (cas_store (cas_insert blake2b h c s)) = lru_use (cas_max_entries s) (blake2b c) (dkeys (cas_store s))"
  proof (cases "blake2b c \<in> set (dkeys (cas_store s))")
    case True
    with keys have "cas_store (cas_insert blake2b h c s) = move_to_end (blake2b c) (cas_store s)"
      by (simp add: cas_insert_def cas_put_def Let_def)
    with True show ?thesis by (simp only: dkeys_move_to_end lru_use_def if_True)
  next
    case False
    with keys [of "blake2b c"] have new: "dget (cas_store s) (blake2b c) = None" by blast
    show ?thesis
    proof (cases "cas_store s")
      case Nil
      then show ?thesis using assms
        by (simp add: cas_insert_def cas_put_def Let_def cas_valid_def lru_use_def)
    next
      case (Cons e kept)
      with False have "blake2b c \<notin> set (dkeys kept)" "blake2b c \<noteq> fst e" by auto
      with Cons new show ?thesis
        by (simp add: cas_insert_def cas_put_def Let_def lru_use_def dkeys_dset del: update.simps) 
    qed
  qed
  show "cas_max_entries (cas_insert blake2b h c s) = cas_max_entries s"
    by (auto simp: cas_insert_def cas_put_def Let_def split: option.split list.split)
qed

lemma cas_put_Some:
  "1 \<le> cas_max_entries s \<Longrightarrow> cas_put blake2b c s = Some (blake2b c, cas_insert blake2b (blake2b c) c s)"
  by (auto simp: cas_insert_def cas_put_def Let_def split: list.split)

lemma cas_insert_get:
  assumes "cas_valid blake2b known s"
  shows "k \<noteq> blake2b c \<Longrightarrow> cas_get (cas_insert blake2b h c s) k = Some w \<Longrightarrow> cas_get s k = Some w"
    and "cas_get (cas_insert blake2b h c s) (blake2b c)
      = (case cas_get s (blake2b c) of None \<Rightarrow> Some c | Some w \<Rightarrow> Some w)"
proof -
  have tail: "dget kept k = Some w \<Longrightarrow> dget (e # kept) k = Some w"
    if "distinct (dkeys (e # kept))" for e :: "string \<times> string" and kept k w
    using that by (cases e) (auto dest: map_of_SomeD intro: image_eqI [of _ fst "(k, w)"])
  have d: "distinct (dkeys (cas_store s))" and cap: "1 \<le> cas_max_entries s"
    using assms by (simp_all add: cas_valid_def)
  show "k \<noteq> blake2b c \<Longrightarrow> cas_get (cas_insert blake2b h c s) k = Some w \<Longrightarrow> cas_get s k = Some w"
    using tail [of "hd (cas_store s)" "tl (cas_store s)" k w] d
    by (cases "cas_store s")
      (auto simp: cas_get_def cas_insert_def cas_put_def Let_def dget_move_to_end dget_dset
        split: if_splits option.splits)
  show "cas_get (cas_insert blake2b h c s) (blake2b c)
      = (case cas_get s (blake2b c) of None \<Rightarrow> Some c | Some w \<Rightarrow> Some w)"
    using cap by (cases "cas_store s")
      (auto simp: cas_get_def cas_insert_def cas_put_def Let_def dget_move_to_end dget_dset
        split: option.split)
qed

lemma cas_insert_valid:
  assumes "cas_valid blake2b known s" and "c \<in> known"
  shows "cas_valid blake2b known (cas_insert blake2b h c s)"
proof -
  have d: "distinct (dkeys (cas_store s))" "length (dkeys (cas_store s)) \<le> cas_max_entries s"
      "1 \<le> cas_max_entries s"
    using assms(1) by (simp_all add: cas_valid_def)
  have "distinct (lru_use m x ks) \<and> length (lru_use m x ks) \<le> m"
    if "distinct ks" "length ks \<le> m" "1 \<le> m" for m and x :: string and ks
    using that length_filter_remove1 [of ks x]
    by (cases ks) (auto simp: lru_use_def)
  from this [OF d] have "distinct (dkeys (cas_store (cas_insert blake2b h c s)))"
      "length (dkeys (cas_store (cas_insert blake2b h c s))) \<le> cas_max_entries s"
    by (simp_all only: dkeys_lru [OF assms(1)])
  moreover have "k = blake2b w \<and> w \<in> known"
    if "dget (cas_store (cas_insert blake2b h c s)) k = Some w" for k w
  proof (cases "k = blake2b c")
    case True
    then show ?thesis
      using that cas_insert_get(2) [OF assms(1), of h c] assms
      by (auto simp: cas_get_def cas_valid_def split: option.splits)
  next
    case False
    then show ?thesis
      using that cas_insert_get(1) [OF assms(1) False, of h w] assms(1)
      by (auto simp: cas_get_def cas_valid_def)
  qed
  ultimately show ?thesis
    using d(3) unfolding cas_valid_def by (simp add: dkeys_lru(2) [OF assms(1)])
qed

interpretation blobs: bounded_store cas_get "cas_insert blake2b" "cas_valid blake2b known"
    "\<lambda>s. length (cas_store s)" cas_max_entries "cas_legal blake2b known"
  for blake2b :: "string \<Rightarrow> string" and known :: "string set"
proof (unfold_locales, goal_cases)
  case (1 s h c)
  then show ?case by (simp add: cas_insert_valid cas_legal_def)
next
  case (2 h c s)
  then show ?case by (auto simp: cas_insert_def cas_put_def Let_def split: option.split list.split)
next
  case (3 s)
  then show ?case by (simp add: cas_valid_def)
next
  case (4 s h c)
  then have h: "h = blake2b c" and c: "c \<in> known" "inj_on blake2b known" by (simp_all add: cas_legal_def)
  have "w = c" if "cas_get s (blake2b c) = Some w" for w
  proof -
    have "blake2b c = blake2b w" "w \<in> known"
      using that 4(1) by (simp_all add: cas_get_def cas_valid_def)
    with c show ?thesis by (auto dest: inj_onD)
  qed
  then show ?case
    unfolding h cas_insert_get(2) [OF 4(1)] by (auto split: option.split)
next
  case (5 s h c k w)
  then show ?case using cas_insert_get(1) [of blake2b known s k c h w] by (simp add: cas_legal_def)
qed

text \<open>A history of stored contents.\<close>

definition cas_history :: "(string \<Rightarrow> string) \<Rightarrow> nat \<Rightarrow> string list \<Rightarrow> cas" where
  "cas_history blake2b m contents =
     fold (\<lambda>c. cas_insert blake2b (blake2b c) c) contents \<lparr>cas_store = [], cas_max_entries = m\<rparr>"

lemma cas_history_valid:
  "1 \<le> m \<Longrightarrow> set contents \<subseteq> known \<Longrightarrow> cas_valid blake2b known (cas_history blake2b m contents)
     \<and> cas_max_entries (cas_history blake2b m contents) = m"
proof (induction contents rule: rev_induct)
  case Nil
  then show ?case by (simp add: cas_history_def cas_valid_def)
next
  case (snoc c cs)
  then have "cas_valid blake2b known (cas_history blake2b m cs)" "cas_max_entries (cas_history blake2b m cs) = m"
    by simp_all
  with snoc.prems show ?case
    using cas_insert_valid [of blake2b known "cas_history blake2b m cs" c "blake2b c"]
      dkeys_lru(2) [of blake2b known "cas_history blake2b m cs" "blake2b c" c]
    by (simp add: cas_history_def)
qed

text \<open>
  The blob store is a least-recently-stored cache. After any history of stored contents
  the keys it holds are the hashes of the most recently stored distinct contents, as many as
  its capacity, and a key it holds returns a content that was stored under it, the very
  content when no two of the stored contents collide.
\<close>

theorem blob_store_is_lru:
  assumes "1 \<le> m"
  shows "dkeys (cas_store (cas_history blake2b m contents)) = last_n m (remdups (map blake2b contents))
    \<and> (\<forall>h c. cas_get (cas_history blake2b m contents) h = Some c \<longrightarrow> h = blake2b c \<and> c \<in> set contents)"
proof -
  have "dkeys (cas_store (cas_history blake2b m contents)) = last_n m (remdups (map blake2b contents))"
  proof (induction contents rule: rev_induct)
    case Nil
    then show ?case by (simp add: cas_history_def last_n_def)
  next
    case (snoc c cs)
    have valid: "cas_valid blake2b (set cs) (cas_history blake2b m cs)"
        "cas_max_entries (cas_history blake2b m cs) = m"
      using cas_history_valid [OF assms, of cs "set cs" blake2b] by simp_all
    have "dkeys (cas_store (cas_history blake2b m (cs @ [c])))
        = lru_use m (blake2b c) (dkeys (cas_store (cas_history blake2b m cs)))"
      using dkeys_lru(1) [OF valid(1), of "blake2b c" c] valid(2) by (simp add: cas_history_def)
    also have "\<dots> = last_n m (without (blake2b c) (remdups (map blake2b cs)) @ [blake2b c])"
      using snoc lru_use_last_n [OF distinct_remdups assms] by metis
    finally show ?case by (simp only: map_append list.map remdups_snoc)
  qed
  moreover have "\<forall>h c. cas_get (cas_history blake2b m contents) h = Some c \<longrightarrow> h = blake2b c \<and> c \<in> set contents"
    using cas_history_valid [OF assms, of contents "set contents" blake2b]
    by (simp add: cas_valid_def cas_get_def)
  ultimately show ?thesis ..
qed

theorem blob_store_is_lru_witness:
  "dkeys (cas_store (cas_history id 2 [''a'', ''b'', ''a'', ''c''])) = [''a'', ''c'']"
  using blob_store_is_lru [of 2 id "[''a'', ''b'', ''a'', ''c'']", THEN conjunct1]
  by (simp add: last_n_def)

text \<open>
  Patching a blob that was evicted does not report the failure that the caller is promised: the
  diff is applied to the empty text, and the hash of the remainder is returned.
\<close>

theorem evicted_blob_patched_as_empty:
  "cas_apply_patch id ''gone'' (render_patch [(0, 0, [Keep (text_line ''a''), Add (text_line ''b'')])])
     \<lparr>cas_store = [], cas_max_entries = 1\<rparr>
   = (Some (text_line ''b''), \<lparr>cas_store = [(text_line ''b'', text_line ''b'')], cas_max_entries = 1\<rparr>)"
  by code_simp

end
