(* ===== verification/ResponseCache.thy ===== *)
theory ResponseCache
  imports Blobs "HOL-Library.Char_ord" "HOL-Library.List_Lexorder" "HOL-Library.Product_Lexorder"
begin

text \<open>
  The response cache of the model calls (\<open>core/response_cache.py\<close>): keys derived from a request,
  a bounded least-recently-used table with an expiry, and the reverse index that lets a saved
  file evict what was derived from it. The two digests are parameters, the clock is an
  argument, and a Python set is a list without order. The table refines an abstract map of
  live responses.
\<close>

subsection \<open>Keys\<close>

definition NUL :: char where "NUL = CHR 0x00"

definition key_payload ::
  "(string \<Rightarrow> string) \<Rightarrow> string \<Rightarrow> (string \<times> string) list \<Rightarrow> string \<Rightarrow> string \<Rightarrow> string" where
  "key_payload ast_hash intent context project_id model =
     ''v1'' @ [NUL] @ project_id @ [NUL] @ model @ [NUL] @ intent
     @ concat (map (\<lambda>(path, content). [NUL] @ path @ [NUL] @ ast_hash content) (sort context))"

definition build_key ::
  "(string \<Rightarrow> string) \<Rightarrow> (string \<Rightarrow> string) \<Rightarrow> string \<Rightarrow> (string \<times> string) list \<Rightarrow> string \<Rightarrow> string \<Rightarrow> string" where
  "build_key digest ast_hash intent context project_id model =
     digest (key_payload ast_hash intent context project_id model)"

subsection \<open>The table\<close>

record rcache =
  rc_max_entries :: nat
  rc_ttl :: rat
  rc_cache :: "(string, rat \<times> string) dict"
  rc_paths :: "(string, string list) dict"
  rc_key_paths :: "(string, string list) dict"

definition empty_cache :: "nat \<Rightarrow> rat \<Rightarrow> rcache" where
  "empty_cache m ttl = \<lparr>rc_max_entries = m, rc_ttl = ttl, rc_cache = [], rc_paths = [], rc_key_paths = []\<rparr>"

definition scrub :: "string \<Rightarrow> string \<Rightarrow> (string, string list) dict \<Rightarrow> (string, string list) dict" where
  "scrub key path paths =
     (case dget paths path of
        None \<Rightarrow> paths
      | Some referrers \<Rightarrow>
          (let left = removeAll key referrers in
           if left = [] then AList.delete path paths else dset path left paths))"

definition drop_locked :: "string \<Rightarrow> rcache \<Rightarrow> rcache" where
  "drop_locked key s =
     s\<lparr>rc_cache := AList.delete key (rc_cache s),
       rc_key_paths := AList.delete key (rc_key_paths s),
       rc_paths := fold (scrub key) (dget_default (rc_key_paths s) key []) (rc_paths s)\<rparr>"

definition probe :: "rat \<Rightarrow> string \<Rightarrow> rcache \<Rightarrow> string option \<times> rcache" where
  "probe now key s =
     (case dget (rc_cache s) key of
        None \<Rightarrow> (None, s)
      | Some (stored_at, value) \<Rightarrow>
          if rc_ttl s < now - stored_at then (None, drop_locked key s)
          else (Some value, s\<lparr>rc_cache := move_to_end key (rc_cache s)\<rparr>))"

definition register_path :: "string \<Rightarrow> string \<Rightarrow> rcache \<Rightarrow> rcache" where
  "register_path key path s =
     (if path = [] then s
      else s\<lparr>rc_key_paths := dset key (List.insert path (dget_default (rc_key_paths s) key [])) (rc_key_paths s),
             rc_paths := dset path (List.insert key (dget_default (rc_paths s) path [])) (rc_paths s)\<rparr>)"

lemma length_delete_hd: "xs \<noteq> [] \<Longrightarrow> length (AList.delete (fst (hd xs)) xs) < length xs"
proof (cases xs)
  case (Cons x ys)
  have "length (AList.delete (fst x) ys) \<le> length ys" by (rule length_delete_le)
  with Cons show ?thesis by (cases x) simp
qed simp

function evict :: "rcache \<Rightarrow> rcache" where
  "evict s =
     (if rc_max_entries s < length (rc_cache s)
      then evict (drop_locked (fst (hd (rc_cache s))) s) else s)"
  by pat_completeness auto

termination
  by (relation "measure (\<lambda>s. length (rc_cache s))")
    (auto simp: drop_locked_def intro!: length_delete_hd)

declare evict.simps [simp del]

definition store :: "rat \<Rightarrow> string \<Rightarrow> string \<Rightarrow> string list \<Rightarrow> rcache \<Rightarrow> rcache" where
  "store now key value paths s =
     evict (fold (register_path key) paths
       (s\<lparr>rc_cache := move_to_end key (dset key (now, value) (rc_cache s)),
          rc_key_paths := setdefault key [] (rc_key_paths s)\<rparr>))"

definition invalidate_path :: "string \<Rightarrow> rcache \<Rightarrow> rcache" where
  "invalidate_path path s = fold drop_locked (dget_default (rc_paths s) path []) s"

definition clear_cache :: "rcache \<Rightarrow> rcache" where
  "clear_cache s = s\<lparr>rc_cache := [], rc_paths := [], rc_key_paths := []\<rparr>"

subsection \<open>The invariant of the index\<close>

abbreviation refs :: "(string, string list) dict \<Rightarrow> string \<Rightarrow> string set" where
  "refs d x \<equiv> set (dget_default d x [])"

text \<open>
  The table and the index of paths per key have the same keys, the two indexes are inverse to
  each other, and no path is kept without a referrer.
\<close>

definition indexed :: "rcache \<Rightarrow> bool" where
  "indexed s \<longleftrightarrow>
     distinct (dkeys (rc_cache s)) \<and> distinct (dkeys (rc_key_paths s)) \<and> distinct (dkeys (rc_paths s))
     \<and> (\<forall>k. dget (rc_cache s) k = None \<longleftrightarrow> dget (rc_key_paths s) k = None)
     \<and> (\<forall>p k. k \<in> refs (rc_paths s) p \<longleftrightarrow> p \<in> refs (rc_key_paths s) k)
     \<and> (\<forall>p. dget (rc_paths s) p \<noteq> Some [])"

declare map_of_eq_Some_iff [simp del] Some_eq_map_of_iff [simp del]

lemma refs_simps [simp]:
  "refs (AList.delete k d) x = (if x = k then {} else refs d x)"
  "refs (dset k v d) x = (if x = k then set v else refs d x)"
  "refs (setdefault k [] d) x = refs d x"
proof -
  have "dget_default (AList.delete k d) x w = (if x = k then w else dget_default d x w)" for w
    by (simp only: dget_default_def dget_delete_other split: if_split) simp
  then show "refs (AList.delete k d) x = (if x = k then {} else refs d x)" by simp
  show "refs (dset k v d) x = (if x = k then set v else refs d x)" by (simp add: dget_default_dset)
  have "dget_default (setdefault k [] d) x [] = dget_default d x []"
    by (simp only: dget_default_def dget_setdefault split: if_split) simp
  then show "refs (setdefault k [] d) x = refs d x" by simp
qed

lemma refs_scrub: "refs (scrub key p d) x = (if x = p then refs d x - {key} else refs d x)"
proof (cases "dget d p")
  case None
  then have "dget_default d p [] = []" "scrub key p d = d" by (simp_all add: dget_default_def scrub_def)
  then show ?thesis by simp
next
  case (Some ks)
  then have "refs d p = set ks" "scrub key p d =
      (if removeAll key ks = [] then AList.delete p d else dset p (removeAll key ks) d)"
    by (simp_all add: dget_default_def scrub_def Let_def)
  moreover have "set (removeAll key ks) = set ks - {key}" by simp
  ultimately show ?thesis by (cases "removeAll key ks = []") (simp_all only: refs_simps if_True if_False, auto)
qed

lemma scrub_wf:
  "distinct (dkeys d) \<Longrightarrow> \<forall>p. dget d p \<noteq> Some [] \<Longrightarrow>
   distinct (dkeys (scrub key p d)) \<and> (\<forall>q. dget (scrub key p d) q \<noteq> Some [])"
  by (auto simp: scrub_def Let_def dict_simps simp del: distinct_map split: option.splits if_splits)

lemma scrubs:
  assumes "distinct (dkeys d)" "\<forall>p. dget d p \<noteq> Some []"
  shows "distinct (dkeys (fold (scrub key) ps d)) \<and> (\<forall>q. dget (fold (scrub key) ps d) q \<noteq> Some [])
    \<and> (\<forall>x. refs (fold (scrub key) ps d) x = (if x \<in> set ps then refs d x - {key} else refs d x))"
  using assms
proof (induction ps arbitrary: d)
  case (Cons p ps)
  from scrub_wf [OF Cons.prems, of key p] Cons.IH [of "scrub key p d"] show ?case
    by (auto simp: refs_scrub simp del: distinct_map)
qed simp

lemma drop_refs:
  assumes "indexed s"
  shows "refs (rc_paths (drop_locked key s)) p = refs (rc_paths s) p - {key}"
    and "refs (rc_key_paths (drop_locked key s)) k = (if k = key then {} else refs (rc_key_paths s) k)"
    and "dget (rc_cache (drop_locked key s)) k = (if k = key then None else dget (rc_cache s) k)"
  using assms scrubs [of "rc_paths s" key "dget_default (rc_key_paths s) key []"]
  by (auto simp: drop_locked_def indexed_def dict_simps simp del: distinct_map)

lemma drop_indexed: "indexed s \<Longrightarrow> indexed (drop_locked key s)"
  using drop_refs [of s key] scrubs [of "rc_paths s" key "dget_default (rc_key_paths s) key []"]
  unfolding indexed_def [of "drop_locked key s"]
  by (auto simp: indexed_def drop_locked_def dict_simps simp del: distinct_map)

lemma list_insert_ne: "List.insert x xs \<noteq> []"
  by (auto simp: List.insert_def)

lemma register_indexed:
  assumes "indexed s" and "dget (rc_cache s) key \<noteq> None"
  shows "indexed (register_path key path s) \<and> rc_cache (register_path key path s) = rc_cache s
    \<and> refs (rc_key_paths (register_path key path s)) k
        = refs (rc_key_paths s) k \<union> (if k = key then {path} - {[]} else {})"
proof (cases "path = []")
  case False
  let ?t = "register_path key path s"
  have kp: "refs (rc_key_paths ?t) k = (if k = key then insert path (refs (rc_key_paths s) k) else refs (rc_key_paths s) k)"
    and ps: "refs (rc_paths ?t) x = (if x = path then insert key (refs (rc_paths s) x) else refs (rc_paths s) x)"
    and cache: "rc_cache ?t = rc_cache s" for k x
    using False by (simp_all add: register_path_def)
  moreover have "distinct (dkeys (rc_key_paths ?t)) \<and> distinct (dkeys (rc_paths ?t))"
    using assms(1) False by (simp add: indexed_def register_path_def distinct_dset del: distinct_map)
  moreover have "dget (rc_key_paths ?t) x = None \<longleftrightarrow> dget (rc_key_paths s) x = None" for x
    using assms False by (simp add: indexed_def register_path_def dget_dset)
  moreover have "dget (rc_paths ?t) x \<noteq> Some []" for x
    using assms(1) False by (simp add: indexed_def register_path_def dget_dset list_insert_ne)
  ultimately have "indexed ?t"
    using assms(1) unfolding indexed_def by (simp del: distinct_map)
  with kp cache False show ?thesis by simp
qed (simp add: register_path_def assms(1))

lemma registers:
  assumes "indexed s" and "dget (rc_cache s) key \<noteq> None"
  shows "indexed (fold (register_path key) paths s) \<and> rc_cache (fold (register_path key) paths s) = rc_cache s
    \<and> refs (rc_key_paths (fold (register_path key) paths s)) k
        = refs (rc_key_paths s) k \<union> (if k = key then set paths - {[]} else {})"
  using assms
proof (induction paths arbitrary: s)
  case (Cons path paths)
  from register_indexed [OF Cons.prems, of path] Cons.prems
  have step: "indexed (register_path key path s)" "rc_cache (register_path key path s) = rc_cache s"
      "\<And>k. refs (rc_key_paths (register_path key path s)) k
        = refs (rc_key_paths s) k \<union> (if k = key then {path} - {[]} else {})" by blast+
  with Cons.prems Cons.IH [of "register_path key path s"] show ?case by (auto split: if_splits)
qed simp

text \<open>Eviction only drops entries, until the capacity holds.\<close>

lemma evict_drops:
  assumes "P s" and "\<And>s key. P s \<Longrightarrow> P (drop_locked key s)"
  shows "P (evict s) \<and> length (rc_cache (evict s)) \<le> rc_max_entries (evict s)"
  using assms(1)
proof (induction s rule: evict.induct)
  case (1 s)
  then show ?case using assms(2) by (subst (1 2 3) evict.simps) auto
qed

subsection \<open>Operations and the live responses\<close>

datatype cache_op = Probe rat string | Store rat string string "string list" | Invalidate string | Clear

fun cache_step :: "cache_op \<Rightarrow> rcache \<Rightarrow> string option \<times> rcache" where
  "cache_step (Probe now key) s = probe now key s"
| "cache_step (Store now key v paths) s = (None, store now key v paths s)"
| "cache_step (Invalidate path) s = (None, invalidate_path path s)"
| "cache_step Clear s = (None, clear_cache s)"

text \<open>
  The specification: for every key the last response stored under it, with its time and the
  paths given with it, until one of those paths is invalidated or the cache is cleared.
\<close>

type_synonym live = "string \<Rightarrow> (rat \<times> string \<times> string set) option"

fun live_step :: "cache_op \<Rightarrow> live \<Rightarrow> live" where
  "live_step (Probe _ _) m = m"
| "live_step (Store now key v paths) m = m(key \<mapsto> (now, v, set paths - {[]}))"
| "live_step (Invalidate path) m =
     (\<lambda>k. case m k of None \<Rightarrow> None | Some (t, v, ps) \<Rightarrow> if path \<in> ps then None else Some (t, v, ps))"
| "live_step Clear m = (\<lambda>_. None)"

definition refines :: "rcache \<Rightarrow> live \<Rightarrow> bool" where
  "refines s m \<longleftrightarrow> indexed s \<and>
     (\<forall>k t v. dget (rc_cache s) k = Some (t, v) \<longrightarrow>
        (\<exists>ps. m k = Some (t, v, ps) \<and> ps \<subseteq> refs (rc_key_paths s) k))"

lemma drop_refines: "refines s m \<Longrightarrow> refines (drop_locked key s) m"
  unfolding refines_def by (simp add: drop_indexed drop_refs)

lemma drops_refine:
  "refines s m \<Longrightarrow> refines (fold drop_locked ks s) m
     \<and> (\<forall>k e. dget (rc_cache (fold drop_locked ks s)) k = Some e \<longrightarrow>
          k \<notin> set ks \<and> dget (rc_cache s) k = Some e)"
proof (induction ks arbitrary: s)
  case (Cons x ks)
  have "indexed s" using Cons.prems by (simp add: refines_def)
  from drop_refs(3) [OF this, of x] Cons.IH [OF drop_refines [OF Cons.prems, of x]] show ?case
    by (auto split: if_splits)
qed simp

lemma invalidate_refines:
  assumes "refines s m"
  shows "refines (invalidate_path path s) (live_step (Invalidate path) m)"
proof -
  let ?t = "invalidate_path path s"
  have t: "refines ?t m" "\<And>k e. dget (rc_cache ?t) k = Some e \<Longrightarrow>
      k \<notin> refs (rc_paths s) path \<and> dget (rc_cache s) k = Some e"
    using drops_refine [OF assms, of "dget_default (rc_paths s) path []"]
    by (auto simp: invalidate_path_def)
  have inverse: "k \<in> refs (rc_paths s) path \<longleftrightarrow> path \<in> refs (rc_key_paths s) k" for k
    using assms by (simp add: refines_def indexed_def)
  have "live_step (Invalidate path) m k = m k" if "dget (rc_cache ?t) k = Some (u, v)" for k u v
  proof -
    from t(2) [OF that] inverse have "path \<notin> refs (rc_key_paths s) k" "dget (rc_cache s) k = Some (u, v)"
      by simp_all
    with assms obtain ps where "m k = Some (u, v, ps)" "path \<notin> ps"
      unfolding refines_def by blast
    then show ?thesis by simp
  qed
  with t(1) show ?thesis unfolding refines_def by metis
qed

lemma store_refines:
  assumes "refines s m"
  shows "refines (store now key v paths s) (live_step (Store now key v paths) m)
    \<and> length (rc_cache (store now key v paths s)) \<le> rc_max_entries (store now key v paths s)"
proof -
  let ?m = "live_step (Store now key v paths) m"
  let ?s1 = "s\<lparr>rc_cache := move_to_end key (dset key (now, v) (rc_cache s)),
    rc_key_paths := setdefault key [] (rc_key_paths s)\<rparr>"
  let ?s2 = "fold (register_path key) paths ?s1"
  have s: "indexed s" using assms by (simp add: refines_def)
  have cache: "dget (rc_cache ?s1) k = (if k = key then Some (now, v) else dget (rc_cache s) k)" for k
    by (simp add: dget_move_to_end dget_dset)
  have "dget (rc_key_paths ?s1) k = None \<longleftrightarrow> k \<noteq> key \<and> dget (rc_key_paths s) k = None" for k
    by (auto simp: dget_setdefault)
  moreover have "distinct (dkeys (rc_cache ?s1)) \<and> distinct (dkeys (rc_key_paths ?s1))"
    using s by (auto simp: indexed_def distinct_move_to_end distinct_dset setdefault_def
        simp del: distinct_map split: option.split)
  ultimately have "indexed ?s1" using s cache unfolding indexed_def by (simp del: distinct_map)
  moreover have present: "dget (rc_cache ?s1) key \<noteq> None" using cache by simp
  ultimately have s2: "indexed ?s2" "rc_cache ?s2 = rc_cache ?s1"
      "\<And>k. refs (rc_key_paths ?s2) k = refs (rc_key_paths ?s1) k \<union> (if k = key then set paths - {[]} else {})"
    using registers [of ?s1 key paths] by blast+
  have "\<exists>ps. ?m k = Some (t, w, ps) \<and> ps \<subseteq> refs (rc_key_paths ?s2) k"
    if "dget (rc_cache ?s2) k = Some (t, w)" for k t w
  proof (cases "k = key")
    case True
    with that cache s2 show ?thesis by auto
  next
    case False
    with that cache [of k] have "dget (rc_cache s) k = Some (t, w)" by (simp only: s2(2) if_False)
    with assms False s2(3) [of k] show ?thesis unfolding refines_def by auto
  qed
  with s2(1) have "refines ?s2 ?m" unfolding refines_def by blast
  from evict_drops [of "\<lambda>s. refines s ?m", OF this drop_refines] show ?thesis
    unfolding store_def by blast
qed

lemma move_refines: "refines s m \<Longrightarrow> refines (s\<lparr>rc_cache := move_to_end key (rc_cache s)\<rparr>) m"
  by (simp add: refines_def indexed_def dget_move_to_end distinct_move_to_end del: distinct_map)

lemma probe_refines: "refines s m \<Longrightarrow> refines (snd (probe now key s)) m"
  by (auto simp: probe_def drop_refines move_refines split: option.split)

lemma clear_refines: "refines (clear_cache s) (\<lambda>_. None)"
  by (simp add: refines_def indexed_def clear_cache_def dget_default_def)

definition within_capacity :: "rcache \<Rightarrow> bool" where
  "within_capacity s \<longleftrightarrow> length (rc_cache s) \<le> rc_max_entries s"

lemma drop_shrinks: "within_capacity s \<Longrightarrow> within_capacity (drop_locked key s)"
  using length_delete_le [of key "rc_cache s"] by (simp add: within_capacity_def drop_locked_def)

lemma drops_shrink: "within_capacity s \<Longrightarrow> within_capacity (fold drop_locked ks s)"
  by (induction ks arbitrary: s) (simp_all add: drop_shrinks)

lemma step_refines:
  assumes "refines s m" and "within_capacity s"
  shows "refines (snd (cache_step oper s)) (live_step oper m) \<and> within_capacity (snd (cache_step oper s))"
proof (cases oper)
  case (Probe now key)
  have "distinct (dkeys (rc_cache s))" using assms(1) by (simp add: refines_def indexed_def)
  then have "length (move_to_end key (rc_cache s)) = length (rc_cache s)" by (rule length_move_to_end)
  then have "within_capacity (snd (probe now key s))"
    using assms(2) drop_shrinks [OF assms(2), of key]
    by (auto simp: probe_def within_capacity_def split: option.split)
  with Probe probe_refines [OF assms(1)] show ?thesis by simp
next
  case (Store now key v paths)
  with store_refines [OF assms(1), of now key v paths] show ?thesis by (simp add: within_capacity_def)
next
  case (Invalidate path)
  with invalidate_refines [OF assms(1), of path] drops_shrink [OF assms(2)] show ?thesis
    by (simp add: invalidate_path_def)
next
  case Clear
  then show ?thesis by (simp add: clear_refines) (simp add: within_capacity_def clear_cache_def)
qed

lemma empty_refines: "refines (empty_cache m ttl) (\<lambda>_. None)"
  by (simp add: refines_def indexed_def empty_cache_def dget_default_def)

definition cache_run :: "cache_op list \<Rightarrow> rcache \<Rightarrow> rcache" where
  "cache_run ops s = fold (\<lambda>oper s. snd (cache_step oper s)) ops s"

lemma run_refines:
  "refines s m \<Longrightarrow> within_capacity s \<Longrightarrow>
   refines (cache_run ops s) (fold live_step ops m) \<and> within_capacity (cache_run ops s)"
proof (induction ops arbitrary: s m)
  case (Cons oper ops)
  from step_refines [OF Cons.prems, of oper]
    Cons.IH [of "snd (cache_step oper s)" "live_step oper m"] show ?case
    by (simp add: cache_run_def)
qed (simp add: cache_run_def)

lemma drop_conf: "rc_ttl (drop_locked key s) = rc_ttl s" "rc_max_entries (drop_locked key s) = rc_max_entries s"
  by (simp_all add: drop_locked_def)

lemma conf_folds: 
  "rc_ttl (fold drop_locked ks s) = rc_ttl s \<and> rc_max_entries (fold drop_locked ks s) = rc_max_entries s"
  "rc_ttl (fold (register_path key) ps s) = rc_ttl s \<and> rc_max_entries (fold (register_path key) ps s) = rc_max_entries s"
  "rc_ttl (evict s) = rc_ttl s \<and> rc_max_entries (evict s) = rc_max_entries s"
proof -
  show "rc_ttl (fold drop_locked ks s) = rc_ttl s \<and> rc_max_entries (fold drop_locked ks s) = rc_max_entries s"
    by (induction ks arbitrary: s) (simp_all add: drop_conf)
  show "rc_ttl (fold (register_path key) ps s) = rc_ttl s \<and> rc_max_entries (fold (register_path key) ps s) = rc_max_entries s"
    by (induction ps arbitrary: s) (simp_all add: register_path_def)
  show "rc_ttl (evict s) = rc_ttl s \<and> rc_max_entries (evict s) = rc_max_entries s"
    using evict_drops [of "\<lambda>t. rc_ttl t = rc_ttl s \<and> rc_max_entries t = rc_max_entries s" s]
    by (simp add: drop_conf)
qed

lemma step_conf: "rc_ttl (snd (cache_step oper s)) = rc_ttl s \<and> rc_max_entries (snd (cache_step oper s)) = rc_max_entries s"
  by (cases oper) (auto simp: probe_def store_def invalidate_path_def clear_cache_def conf_folds drop_conf
      split: option.split)

lemma run_conf: "rc_ttl (cache_run ops s) = rc_ttl s \<and> rc_max_entries (cache_run ops s) = rc_max_entries s"
  unfolding cache_run_def by (induction ops arbitrary: s) (simp_all add: step_conf)

text \<open>
  C38. The cache refines a map of live responses. After any history of probes, stores,
  invalidations and clears from the empty cache, the two indexes are inverse to each other and
  to the table, the table is within its capacity, and a hit returns the last response stored
  under that key, not older than the expiry, none of whose paths was invalidated since.
\<close>

theorem cache_refines_live_responses:
  assumes "s = cache_run ops (empty_cache m ttl)"
  shows "indexed s \<and> length (rc_cache s) \<le> m
    \<and> (\<forall>now key v. fst (probe now key s) = Some v \<longrightarrow>
         (\<exists>t ps. fold live_step ops (\<lambda>_. None) key = Some (t, v, ps) \<and> now - t \<le> ttl))"
proof -
  have "refines s (fold live_step ops (\<lambda>_. None)) \<and> within_capacity s"
    unfolding assms by (rule run_refines [OF empty_refines]) (simp add: within_capacity_def empty_cache_def)
  moreover have "rc_ttl s = ttl" "rc_max_entries s = m"
    using run_conf [of ops "empty_cache m ttl"] assms by (simp_all add: empty_cache_def)
  ultimately show ?thesis
    by (fastforce simp: refines_def within_capacity_def probe_def split: option.splits if_splits)
qed

theorem cache_refines_live_responses_witness:
  "fold live_step [Store 0 ''k'' ''v'' [''a.py''], Invalidate ''b.py''] (\<lambda>_. None) ''k'' = Some (0, ''v'', {''a.py''})
   \<and> fst (probe 5 ''k'' (cache_run [Store 0 ''k'' ''v'' [''a.py''], Invalidate ''b.py''] (empty_cache 2 10))) = Some ''v''"
proof -
  let ?ops = "[Store 0 ''k'' ''v'' [''a.py''], Invalidate ''b.py'']"
  have hit: "fst (probe 5 ''k'' (cache_run ?ops (empty_cache 2 10))) = Some ''v''"
    by (simp add: cache_run_def empty_cache_def store_def register_path_def evict.simps invalidate_path_def
        probe_def move_to_end_def setdefault_def dget_default_def)
  have "fold live_step ?ops (\<lambda>_. None) ''k'' = Some (0, ''v'', {''a.py''})" by simp
  with hit cache_refines_live_responses [OF refl, of ?ops 2 10] show ?thesis by blast
qed

lemma evict_keeps_last:
  assumes "distinct (dkeys (rc_cache s))" "1 \<le> rc_max_entries s" "rc_cache s \<noteq> []" "last (rc_cache s) = e"
  shows "distinct (dkeys (rc_cache (evict s))) \<and> rc_cache (evict s) \<noteq> [] \<and> last (rc_cache (evict s)) = e"
  using assms
proof (induction s rule: evict.induct)
  case (1 s)
  show ?case
  proof (cases "rc_max_entries s < length (rc_cache s)")
    case True
    then obtain x y rest where xs: "rc_cache s = x # y # rest"
      using 1(3) by (cases "rc_cache s"; cases "tl (rc_cache s)") auto
    with 1(2) have "fst x \<notin> fst ` set (y # rest)" by simp
    then have "AList.delete (fst x) (y # rest) = y # rest" by (rule delete_id)
    moreover have "AList.delete (fst x) (x # zs) = AList.delete (fst x) zs" for zs by (cases x) simp
    ultimately have "rc_cache (drop_locked (fst (hd (rc_cache s))) s) = y # rest"
      using xs by (simp only: drop_locked_def list.sel) simp
    with 1 True xs show ?thesis by (subst (1 2 3) evict.simps) (simp add: drop_conf)
  next
    case False
    with 1 show ?thesis by (subst (1 2 3) evict.simps) simp
  qed
qed

lemma evict_subset: "dget (rc_cache (evict s)) k = Some e \<Longrightarrow> dget (rc_cache s) k = Some e"
proof -
  have "\<forall>k e. dget (rc_cache (evict s)) k = Some e \<longrightarrow> dget (rc_cache s) k = Some e"
    by (rule evict_drops [THEN conjunct1]) (auto simp: drop_locked_def dget_delete_other split: if_splits)
  then show "dget (rc_cache (evict s)) k = Some e \<Longrightarrow> dget (rc_cache s) k = Some e" by blast
qed

lemma register_cache: "rc_cache (fold (register_path key) ps s) = rc_cache s"
  by (induction ps arbitrary: s) (simp_all add: register_path_def)

lemma store_look:
  assumes "indexed s" "1 \<le> rc_max_entries s"
  shows "dget (rc_cache (store now key v paths s)) key = Some (now, v)"
    and "k \<noteq> key \<Longrightarrow> dget (rc_cache (store now key v paths s)) k = Some e \<Longrightarrow> dget (rc_cache s) k = Some e"
proof -
  let ?c = "move_to_end key (dset key (now, v) (rc_cache s))"
  let ?s2 = "fold (register_path key) paths
    (s\<lparr>rc_cache := ?c, rc_key_paths := setdefault key [] (rc_key_paths s)\<rparr>)"
  have s2: "rc_cache ?s2 = ?c" "rc_max_entries ?s2 = rc_max_entries s"
    by (simp_all add: register_cache conf_folds)
  have c: "distinct (dkeys ?c)" "?c \<noteq> [] \<and> last ?c = (key, now, v)"
    using assms(1) by (simp_all only: indexed_def distinct_move_to_end distinct_dset)
      (simp add: move_to_end_def dget_dset)
  have "distinct (dkeys (rc_cache (evict ?s2))) \<and> rc_cache (evict ?s2) \<noteq> []
      \<and> last (rc_cache (evict ?s2)) = (key, now, v)"
    by (rule evict_keeps_last) (use c s2 assms(2) in \<open>simp_all del: distinct_map\<close>)
  then have "(key, now, v) \<in> set (rc_cache (evict ?s2))" "distinct (dkeys (rc_cache (evict ?s2)))"
    using last_in_set [of "rc_cache (evict ?s2)"] by simp_all
  then show "dget (rc_cache (store now key v paths s)) key = Some (now, v)"
    by (simp add: store_def map_of_is_SomeI del: distinct_map)
  show "k \<noteq> key \<Longrightarrow> dget (rc_cache (store now key v paths s)) k = Some e \<Longrightarrow> dget (rc_cache s) k = Some e"
    using evict_subset [of ?s2 k e] s2(1) by (simp add: store_def dget_move_to_end dget_dset)
qed

interpretation responses: bounded_store "\<lambda>s k. dget (rc_cache s) k" "\<lambda>k e. store (fst e) k (snd e) paths"
    "\<lambda>s. indexed s \<and> within_capacity s \<and> 1 \<le> rc_max_entries s" "\<lambda>s. length (rc_cache s)" rc_max_entries
    "\<lambda>_ _. True"
  for paths
proof (unfold_locales, goal_cases)
  case (1 s k e)
  have "refines s (\<lambda>k. map_option (\<lambda>(t, v). (t, v, {})) (dget (rc_cache s) k))"
    using 1 by (simp add: refines_def)
  from store_refines [OF this, of "fst e" k "snd e" paths] 1 show ?case
    using step_conf [of "Store (fst e) k (snd e) paths" s]
    by (simp add: refines_def within_capacity_def)
next
  case (2 k e s)
  then show ?case using step_conf [of "Store (fst e) k (snd e) paths" s] by simp
next
  case (3 s)
  then show ?case by (simp add: within_capacity_def)
next
  case (4 s k e)
  then show ?case using store_look(1) [of s "fst e" k "snd e" paths] by simp
next
  case (5 s k e k' w)
  then show ?case using store_look(2) [of s k' k "fst e" "snd e" paths w] by simp
qed

subsection \<open>Equal keys come from equal requests\<close>

definition key_fields ::
  "(string \<Rightarrow> string) \<Rightarrow> string \<Rightarrow> (string \<times> string) list \<Rightarrow> string \<Rightarrow> string \<Rightarrow> string list" where
  "key_fields ast_hash intent context project_id model =
     [''v1'', project_id, model, intent]
     @ concat (map (\<lambda>(path, content). [path, ast_hash content]) (sort context))"

lemma key_payload_join:
  "key_payload ast_hash intent context project_id model = join [NUL] (key_fields ast_hash intent context project_id model)"
proof -
  have "join [NUL] (w # concat (map (\<lambda>(path, content). [path, ast_hash content]) cs))
      = w @ concat (map (\<lambda>(path, content). [NUL] @ path @ [NUL] @ ast_hash content) cs)" for w cs
    by (induction cs arbitrary: w) auto
  then show ?thesis by (simp add: key_payload_def key_fields_def)
qed

definition nul_free :: "string \<Rightarrow> bool" where
  "nul_free s \<longleftrightarrow> NUL \<notin> set s"

text \<open>
  A cache key identifies its request. When the digests of the two requests do not collide
  and their fields contain no NUL, two requests with the same key have the same project, model
  and intent and the same context files, whatever order they were retrieved in.
\<close>

theorem equal_keys_equal_requests:
  assumes "build_key digest ast_hash i c p m = build_key digest ast_hash i' c' p' m'"
    and "inj_on digest {key_payload ast_hash i c p m, key_payload ast_hash i' c' p' m'}"
    and "inj_on ast_hash (snd ` set (c @ c'))"
    and "list_all nul_free ([i, p, m, i', p', m'] @ map fst (c @ c') @ map (ast_hash \<circ> snd) (c @ c'))"
  shows "p = p' \<and> m = m' \<and> i = i' \<and> sort c = sort c'"
proof -
  have fields: "split_on NUL (key_payload ast_hash i c p m) = key_fields ast_hash i c p m"
    if "list_all nul_free ([i, p, m] @ map fst c @ map (ast_hash \<circ> snd) c)" for i c p m
    unfolding key_payload_join
    using that by (intro split_on_join)
      (auto simp: nul_free_def [abs_def] key_fields_def list_all_iff split_beta NUL_def)
  have "key_payload ast_hash i c p m = key_payload ast_hash i' c' p' m'"
    using assms(1,2) by (auto simp: build_key_def dest: inj_onD)
  moreover have "list_all nul_free ([i, p, m] @ map fst c @ map (ast_hash \<circ> snd) c)"
      "list_all nul_free ([i', p', m'] @ map fst c' @ map (ast_hash \<circ> snd) c')"
    using assms(4) by simp_all
  ultimately have eq: "key_fields ast_hash i c p m = key_fields ast_hash i' c' p' m'"
    using fields by metis
  have "cs = cs'" if "concat (map (\<lambda>(path, content). [path, ast_hash content]) cs)
      = concat (map (\<lambda>(path, content). [path, ast_hash content]) cs')"
    "inj_on ast_hash (snd ` (set cs \<union> set cs'))" for cs cs'
    using that
  proof (induction cs arbitrary: cs')
    case Nil
    then show ?case by (cases cs') auto
  next
    case (Cons x cs)
    obtain y ys where cs': "cs' = y # ys" using Cons.prems(1) by (cases cs'; cases x) auto
    with Cons.prems(1) have "fst x = fst y" "ast_hash (snd x) = ast_hash (snd y)"
      "concat (map (\<lambda>(path, content). [path, ast_hash content]) cs)
        = concat (map (\<lambda>(path, content). [path, ast_hash content]) ys)" by (auto simp: case_prod_unfold)
    moreover have "inj_on ast_hash (snd ` (set cs \<union> set ys))"
      using Cons.prems(2) cs' by (auto intro: inj_on_subset)
    moreover have "snd x = snd y"
      by (rule inj_onD [OF Cons.prems(2) \<open>ast_hash (snd x) = ast_hash (snd y)\<close>]) (simp_all add: cs')
    ultimately show ?case using Cons.IH [of ys] cs' by (simp add: prod_eq_iff)
  qed
  with eq assms(3) show ?thesis by (auto simp: key_fields_def)
qed

theorem equal_keys_equal_requests_witness:
  "build_key id id ''i'' [(''b'', ''2''), (''a'', ''1'')] ''p'' ''m''
     = build_key id id ''i'' [(''a'', ''1''), (''b'', ''2'')] ''p'' ''m''
   \<and> sort [(''b'', ''2''), (''a'', ''1'')] = sort [(''a'', ''1''), (''b'', ''2'')]"
proof -
  have key: "build_key id id ''i'' [(''b'', ''2''), (''a'', ''1'')] ''p'' ''m''
     = build_key id id ''i'' [(''a'', ''1''), (''b'', ''2'')] ''p'' ''m''" by code_simp
  with equal_keys_equal_requests [OF key] show ?thesis by (simp add: nul_free_def NUL_def)
qed

end
