(* ===== verification/AuditLog.thy ===== *)
theory AuditLog
  imports Diffs
begin

text \<open>
  The append-only ledger of operator decisions (\<open>core/audit.py\<close>) and its verification endpoint
  (\<open>api/audit.py\<close>). The table is the list of its rows in insertion order. BLAKE2b, the scrubber of
  secrets and the operator's address are parameters; the lock of the code makes an append
  atomic, as it is here. The field separator has no place in the code page and is written 0x1F.
\<close>

subsection \<open>Rows and hashes\<close>

record audit_row =
  au_audit_id :: string
  au_session_id :: string
  au_request_kind :: string
  au_action_description :: string
  au_scrubbed :: string
  au_content_hash :: string
  au_resolution :: string
  au_comment :: "string option"
  au_operator :: "string option"
  au_prev :: "string option"
  au_chain :: string
  au_resolved_at :: int
  au_project :: "string option"

definition SEP :: char where "SEP = CHR 0x1F"

definition KIND_SENTINELS :: "string list" where
  "KIND_SENTINELS = [''BUDGET_OVERFLOW'', ''TOKEN_SPIKE'', ''SANDBOX_DEGRADED_EXEC'',
     ''DANGEROUS_COMMAND_INTERCEPT'', ''COMMAND_EXECUTE'', ''DRIFT_DETECTED'', ''RESOURCE_CONTENTION'']"

definition classify_kind :: "string \<Rightarrow> string" where
  "classify_kind action_description =
     (case find (\<lambda>kind. find_sub kind (upper action_description) \<noteq> None) KIND_SENTINELS of
        Some kind \<Rightarrow> kind
      | None \<Rightarrow> ''OTHER'')"

definition chain_fields ::
  "string option \<Rightarrow> string \<Rightarrow> string \<Rightarrow> string \<Rightarrow> string \<Rightarrow> string \<Rightarrow> string \<Rightarrow> int \<Rightarrow> string list" where
  "chain_fields prev audit_id session_id request_kind action_description content_hash resolution resolved_at =
     [str_or prev [], audit_id, session_id, request_kind, action_description, content_hash, resolution,
      show_int resolved_at]"

definition compute_chain_hash ::
  "(string \<Rightarrow> string) \<Rightarrow> string option \<Rightarrow> string \<Rightarrow> string \<Rightarrow> string \<Rightarrow> string \<Rightarrow> string \<Rightarrow> string \<Rightarrow> int \<Rightarrow> string" where
  "compute_chain_hash blake2b prev audit_id session_id request_kind action_description content_hash resolution
       resolved_at =
     blake2b (join [SEP] (chain_fields prev audit_id session_id request_kind action_description content_hash
       resolution resolved_at))"

subsection \<open>Operations\<close>

type_synonym audit_table = "audit_row list"

definition session_rows :: "string \<Rightarrow> audit_table \<Rightarrow> audit_table" where
  "session_rows sid t = filter (\<lambda>r. au_session_id r = sid) t"

definition get_chain_head :: "string \<Rightarrow> audit_table \<Rightarrow> string option" where
  "get_chain_head sid t = (case rev (session_rows sid t) of [] \<Rightarrow> None | r # _ \<Rightarrow> Some (au_chain r))"

record audit_event =
  ev_session_id :: string
  ev_action_description :: string
  ev_proposed_content :: "string option"
  ev_resolution :: string
  ev_comment :: "string option"
  ev_audit_id :: string
  ev_project :: "string option"
  ev_time :: int

record audit_env =
  av_blake2b :: "string \<Rightarrow> string"
  av_scrub :: "string \<Rightarrow> string"
  av_operator :: string

text \<open>The row an event appends; \<open>ev_audit_id\<close> is the fresh identifier when the caller gives none.\<close>

definition event_row :: "audit_env \<Rightarrow> audit_event \<Rightarrow> audit_table \<Rightarrow> audit_row" where
  "event_row env e t =
     (let kind = classify_kind (ev_action_description e);
          scrubbed = av_scrub env (or_else (ev_proposed_content e) []);
          content_hash = av_blake2b env scrubbed;
          prev = get_chain_head (ev_session_id e) t
      in \<lparr>au_audit_id = ev_audit_id e, au_session_id = ev_session_id e, au_request_kind = kind,
          au_action_description = ev_action_description e, au_scrubbed = scrubbed,
          au_content_hash = content_hash, au_resolution = ev_resolution e, au_comment = ev_comment e,
          au_operator = (if av_operator env = [] then None else Some (av_operator env)), au_prev = prev,
          au_chain = compute_chain_hash (av_blake2b env) prev (ev_audit_id e) (ev_session_id e) kind
            (ev_action_description e) content_hash (ev_resolution e) (ev_time e),
          au_resolved_at = ev_time e,
          au_project = (if or_else (ev_project e) [] = [] then None else ev_project e)\<rparr>)"

text \<open>An identifier that is already in the table violates the primary key: nothing is inserted.\<close>

definition log_audit_event :: "audit_env \<Rightarrow> audit_event \<Rightarrow> audit_table \<Rightarrow> string option \<times> audit_table" where
  "log_audit_event env e t =
     (if ev_audit_id e \<in> set (map au_audit_id t) then (None, t)
      else (let row = event_row env e t in (Some (au_chain row), t @ [row])))"

record chain_broken =
  cb_state_head :: string
  cb_db_head :: string
  cb_task_id :: string

definition recompute :: "(string \<Rightarrow> string) \<Rightarrow> string \<Rightarrow> string option \<Rightarrow> audit_row \<Rightarrow> string" where
  "recompute blake2b sid expected_prev r =
     compute_chain_hash blake2b expected_prev (au_audit_id r) sid (au_request_kind r)
       (au_action_description r) (au_content_hash r) (au_resolution r) (au_resolved_at r)"

fun verify_rows ::
  "(string \<Rightarrow> string) \<Rightarrow> string \<Rightarrow> string option \<Rightarrow> audit_row list \<Rightarrow> chain_broken + bool" where
  "verify_rows blake2b sid expected_prev [] = Inr True"
| "verify_rows blake2b sid expected_prev (r # rs) =
     (let recomputed = recompute blake2b sid expected_prev r in
      if au_prev r \<noteq> expected_prev \<or> au_chain r \<noteq> recomputed
      then Inl \<lparr>cb_state_head = recomputed, cb_db_head = au_chain r, cb_task_id = sid\<rparr>
      else verify_rows blake2b sid (Some (au_chain r)) rs)"

definition verify_chain :: "(string \<Rightarrow> string) \<Rightarrow> string \<Rightarrow> audit_table \<Rightarrow> chain_broken + bool" where
  "verify_chain blake2b sid t = verify_rows blake2b sid None (session_rows sid t)"

fun verify_sessions :: "(string \<Rightarrow> string) \<Rightarrow> audit_table \<Rightarrow> nat \<Rightarrow> string list \<Rightarrow> bool \<times> nat" where
  "verify_sessions blake2b t checked [] = (True, checked)"
| "verify_sessions blake2b t checked (sid # sids) =
     (case verify_chain blake2b sid t of
        Inl _ \<Rightarrow> (False, checked)
      | Inr _ \<Rightarrow> verify_sessions blake2b t (checked + 1) sids)"

text \<open>The order in which SQLite lists distinct sessions does not matter here.\<close>

definition verify_audit_chain :: "(string \<Rightarrow> string) \<Rightarrow> audit_table \<Rightarrow> bool \<times> nat" where
  "verify_audit_chain blake2b t = verify_sessions blake2b t 0 (remdups (map au_session_id t))"

subsection \<open>Honest histories verify\<close>

lemma verify_append:
  "verify_rows h sid p (xs @ ys) = Inr True \<longleftrightarrow> verify_rows h sid p xs = Inr True
     \<and> verify_rows h sid (if xs = [] then p else Some (au_chain (last xs))) ys = Inr True"
  by (induction xs arbitrary: p) (auto simp: Let_def)

lemma head_last:
  "get_chain_head sid t = (if session_rows sid t = [] then None else Some (au_chain (last (session_rows sid t))))"
  by (cases "session_rows sid t" rule: rev_cases) (simp_all add: get_chain_head_def)

lemma log_verifies:
  assumes "verify_chain (av_blake2b env) sid t = Inr True"
  shows "verify_chain (av_blake2b env) sid (snd (log_audit_event env e t)) = Inr True"
proof (cases "ev_audit_id e \<in> set (map au_audit_id t) \<or> ev_session_id e \<noteq> sid")
  case True
  then show ?thesis
    using assms by (auto simp: log_audit_event_def verify_chain_def session_rows_def event_row_def Let_def)
next
  case False
  let ?r = "event_row env e t"
  have "session_rows sid (t @ [?r]) = session_rows sid t @ [?r]"
    using False by (simp add: session_rows_def event_row_def Let_def)
  moreover have "verify_rows (av_blake2b env) sid (get_chain_head sid t) [?r] = Inr True"
    using False by (simp add: event_row_def recompute_def Let_def)
  ultimately show ?thesis
    using False assms by (simp add: log_audit_event_def verify_chain_def verify_append head_last Let_def)
qed

definition audit_history :: "audit_env \<Rightarrow> audit_event list \<Rightarrow> audit_table" where
  "audit_history env es = fold (\<lambda>e t. snd (log_audit_event env e t)) es []"

lemma history_verifies: "verify_chain (av_blake2b env) sid (audit_history env es) = Inr True"
proof (induction es rule: rev_induct)
  case Nil
  then show ?case by (simp add: audit_history_def verify_chain_def session_rows_def)
next
  case (snoc e es)
  then show ?case by (simp add: audit_history_def log_verifies)
qed

lemma sessions_valid:
  "(\<And>sid. verify_chain h sid t = Inr True) \<Longrightarrow> verify_sessions h t n sids = (True, n + length sids)"
  by (induction sids arbitrary: n) simp_all

text \<open>
  An honest ledger verifies. Whatever decisions are logged, for whatever sessions and with
  whatever identifiers, repeated ones included, the endpoint finds every chain intact, and a
  logged event becomes the head of its session's chain without changing an earlier row.
\<close>

theorem honest_ledger_verifies:
  "verify_audit_chain (av_blake2b env) (audit_history env es)
     = (True, length (remdups (map au_session_id (audit_history env es))))
   \<and> (case log_audit_event env e (audit_history env es) of
        (None, t) \<Rightarrow> t = audit_history env es
      | (Some h, t) \<Rightarrow> take (length (audit_history env es)) t = audit_history env es
          \<and> get_chain_head (ev_session_id e) t = Some h)"
proof -
  have "get_chain_head (ev_session_id e) (t @ [event_row env e t]) = Some (au_chain (event_row env e t))" for t
    by (simp add: get_chain_head_def session_rows_def event_row_def Let_def)
  then show ?thesis
    using sessions_valid [OF history_verifies, of env es 0]
    by (simp add: verify_audit_chain_def log_audit_event_def Let_def)
qed

subsection \<open>Tampering\<close>

text \<open>The columns a link covers.\<close>

definition covered :: "audit_row \<Rightarrow> string \<times> string \<times> string \<times> string \<times> string \<times> int" where
  "covered r = (au_audit_id r, au_request_kind r, au_action_description r, au_content_hash r,
     au_resolution r, au_resolved_at r)"

text \<open>The texts of a row that the link joins without escaping the separator.\<close>

definition separable :: "audit_row \<Rightarrow> bool" where
  "separable r \<longleftrightarrow> list_all (\<lambda>f. SEP \<notin> set f)
     [au_audit_id r, au_request_kind r, au_action_description r, au_content_hash r, au_resolution r, au_chain r]
   \<and> au_chain r \<noteq> []"

definition payload :: "string \<Rightarrow> audit_row \<Rightarrow> string" where
  "payload sid r = join [SEP] (chain_fields (au_prev r) (au_audit_id r) sid (au_request_kind r)
     (au_action_description r) (au_content_hash r) (au_resolution r) (au_resolved_at r))"

lemma show_nat_chars: "\<not> is_digit c \<Longrightarrow> c \<notin> set (show_nat n)"
  using show_nat_digits [of n] by (auto simp: list_all_iff)

lemma show_int_sep: "SEP \<notin> set (show_int i)"
proof -
  have "\<not> is_digit SEP" "SEP \<noteq> CHR ''-''" by (simp_all add: SEP_def is_digit_def)
  then show ?thesis by (simp add: show_int_def show_nat_chars)
qed

lemma show_int_inj: "show_int i = show_int j \<longleftrightarrow> i = j"
proof -
  have "\<not> is_digit (CHR ''-'')" by (simp add: is_digit_def)
  from show_nat_chars [OF this] have minus: "show_nat n \<noteq> CHR ''-'' # s" for n s
    by (metis list.set_intros(1))
  have eq: "show_nat n = show_nat m \<longleftrightarrow> n = m" for n m
    using nat_of_digits_show by metis
  show ?thesis
    by (cases "i < 0"; cases "j < 0") (auto simp: show_int_def minus minus [symmetric] eq)
qed

lemma payload_inj:
  assumes "payload sid r = payload sid r'" and "separable r" "separable r'" "SEP \<notin> set sid"
    and "SEP \<notin> set (str_or (au_prev r) [])" "SEP \<notin> set (str_or (au_prev r') [])"
  shows "covered r = covered r' \<and> str_or (au_prev r) [] = str_or (au_prev r') []"
proof -
  have "split_on SEP (payload sid r) = chain_fields (au_prev r) (au_audit_id r) sid (au_request_kind r)
     (au_action_description r) (au_content_hash r) (au_resolution r) (au_resolved_at r)"
    if "separable r" "SEP \<notin> set (str_or (au_prev r) [])" for r
    unfolding payload_def using that assms(4)
    by (intro split_on_join) (simp_all add: separable_def chain_fields_def show_int_sep)
  from this [of r] this [of r'] assms have "chain_fields (au_prev r) (au_audit_id r) sid (au_request_kind r)
     (au_action_description r) (au_content_hash r) (au_resolution r) (au_resolved_at r)
   = chain_fields (au_prev r') (au_audit_id r') sid (au_request_kind r')
     (au_action_description r') (au_content_hash r') (au_resolution r') (au_resolved_at r')" by metis
  then show ?thesis by (simp add: chain_fields_def covered_def show_int_inj)
qed

lemma verified_snoc:
  assumes "verify_rows h sid None (xs @ [r]) = Inr True"
  shows "verify_rows h sid None xs = Inr True" and "au_chain r = h (payload sid r)"
    and "au_prev r = (if xs = [] then None else Some (au_chain (last xs)))"
  using assms
  by (auto simp: verify_append payload_def recompute_def compute_chain_hash_def Let_def split: if_splits)

lemma same_head_same_rows:
  assumes "verify_rows h sid None xs = Inr True" "verify_rows h sid None ys = Inr True"
    and "map au_chain (rev xs) = [] \<longleftrightarrow> ys = []" "xs \<noteq> [] \<Longrightarrow> au_chain (last xs) = au_chain (last ys)"
    and "inj_on h (payload sid ` (set xs \<union> set ys))" "list_all separable (xs @ ys)" "SEP \<notin> set sid"
  shows "map covered xs = map covered ys"
  using assms
proof (induction xs arbitrary: ys rule: rev_induct)
  case (snoc r xs)
  then obtain ys' r' where ys: "ys = ys' @ [r']" by (cases ys rule: rev_cases) auto
  note r = verified_snoc [OF snoc.prems(1)]
  note r' = verified_snoc [OF snoc.prems(2) [unfolded ys]]
  from snoc.prems(6) ys have sep: "separable r" "separable r'" "list_all separable (xs @ ys')" by simp_all
  have chain: "SEP \<notin> set (au_chain q) \<and> au_chain q \<noteq> []" if "q \<in> set (xs @ ys')" for q
    using sep(3) that by (simp add: list_all_iff separable_def)
  have prev: "SEP \<notin> set (str_or (au_prev r) [])" "SEP \<notin> set (str_or (au_prev r') [])"
    using chain [of "last xs"] chain [of "last ys'"] by (auto simp: r(3) r'(3) str_or_def)
  have "h (payload sid r) = h (payload sid r')" using snoc.prems(4) ys r(2) r'(2) by simp
  then have "payload sid r = payload sid r'"
    by (rule inj_onD [OF snoc.prems(5)]) (simp_all add: ys)
  then have eq: "covered r = covered r'" "str_or (au_prev r) [] = str_or (au_prev r') []"
    using payload_inj [OF _ sep(1,2) snoc.prems(7) prev] by blast+
  have "xs = [] \<longleftrightarrow> ys' = []" "xs \<noteq> [] \<Longrightarrow> au_chain (last xs) = au_chain (last ys')"
    using eq(2) chain [of "last xs"] chain [of "last ys'"] by (auto simp: r(3) r'(3) str_or_def split: if_splits)
  moreover have "inj_on h (payload sid ` (set xs \<union> set ys'))"
    using snoc.prems(5) ys by (auto intro: inj_on_subset)
  ultimately have "map covered xs = map covered ys'"
    using snoc.IH [OF r(1) r'(1)] sep(3) snoc.prems(7) by simp
  with eq(1) ys show ?case by simp
qed simp

text \<open>
  C31. The head of a chain commits to it. If two states of the table verify for a session and
  have the same chain head, then the session's rows agree in every covered column, provided
  the digests do not collide and no covered text contains the field separator. This is what
  the supervisor's comparison of the checkpointed head with the head of the table relies on.
\<close>

theorem chain_head_commits:
  assumes "verify_chain blake2b sid t = Inr True" and "verify_chain blake2b sid t' = Inr True"
    and "get_chain_head sid t = get_chain_head sid t'"
    and "inj_on blake2b (payload sid ` (set (session_rows sid t) \<union> set (session_rows sid t')))"
    and "list_all separable (session_rows sid t @ session_rows sid t')" and "SEP \<notin> set sid"
  shows "map covered (session_rows sid t) = map covered (session_rows sid t')"
  using assms by (intro same_head_same_rows) (auto simp: verify_chain_def head_last split: if_splits)

definition demo_event :: "string \<Rightarrow> string \<Rightarrow> audit_event" where
  "demo_event aid action = \<lparr>ev_session_id = ''s'', ev_action_description = action, ev_proposed_content = None,
     ev_resolution = ''approved'', ev_comment = None, ev_audit_id = aid, ev_project = None, ev_time = 7\<rparr>"

text \<open>A digest for examples: it escapes the separator, so it is injective and separable.\<close>

definition demo_digest :: "string \<Rightarrow> string" where
  "demo_digest s = CHR ''h'' # map (\<lambda>c. if c = SEP then CHR ''/'' else c) s"

definition demo_audit :: audit_env where
  "demo_audit = \<lparr>av_blake2b = demo_digest, av_scrub = id, av_operator = []\<rparr>"

definition demo_ledger :: audit_table where
  "demo_ledger = audit_history demo_audit [demo_event ''a1'' ''COMMAND_EXECUTE: make'', demo_event ''a2'' ''write'']"

definition recommented :: "audit_table \<Rightarrow> audit_table" where
  "recommented t = map (\<lambda>r. r\<lparr>au_comment := Some ''fine'', au_operator := Some ''x'', au_scrubbed := ''y''\<rparr>) t"

text \<open>
  The columns that are not covered can be rewritten in place, and rows cut from the end,
  without the verification noticing.
\<close>

theorem uncovered_columns_unchecked:
  "verify_chain h sid (recommented t) = verify_chain h sid t"
  "verify_chain h sid (recommented t) = Inr True \<and> get_chain_head sid (recommented t) = get_chain_head sid t
     \<longleftrightarrow> verify_chain h sid t = Inr True"
proof -
  have rows: "session_rows sid (recommented t) = recommented (session_rows sid t)"
    by (simp add: session_rows_def recommented_def filter_map comp_def)
  have "verify_rows h sid p (recommented rs) = verify_rows h sid p rs" for p rs
    by (induction rs arbitrary: p) (simp_all add: recommented_def recompute_def Let_def)
  then show same: "verify_chain h sid (recommented t) = verify_chain h sid t"
    by (simp add: verify_chain_def rows)
  have "get_chain_head sid (recommented t) = get_chain_head sid t"
    by (simp add: head_last rows) (simp add: recommented_def last_map)
  with same show "verify_chain h sid (recommented t) = Inr True \<and> get_chain_head sid (recommented t) = get_chain_head sid t
     \<longleftrightarrow> verify_chain h sid t = Inr True" by simp
qed

lemma truncated_tail_verifies:
  "verify_chain h sid (t @ t') = Inr True \<Longrightarrow> verify_chain h sid t = Inr True"
  by (simp add: verify_chain_def session_rows_def verify_append)

text \<open>A separator in a covered text lets two rows with different texts share their link.\<close>

theorem separator_moves_between_fields:
  "let r = event_row demo_audit (demo_event ''a'' (''rm x'' @ [SEP] @ ''ok'')) [];
       r' = r\<lparr>au_action_description := ''rm x'', au_content_hash := ''ok'' @ [SEP] @ au_content_hash r\<rparr>
   in covered r \<noteq> covered r' \<and> payload ''s'' r = payload ''s'' r'
      \<and> verify_chain demo_digest ''s'' [r] = Inr True \<and> verify_chain demo_digest ''s'' [r'] = Inr True"
  by code_simp

theorem chain_head_commits_witness:
  "map covered (session_rows ''s'' (recommented demo_ledger)) = map covered (session_rows ''s'' demo_ledger)
   \<and> recommented demo_ledger \<noteq> demo_ledger"
proof -
  have blake: "av_blake2b demo_audit = demo_digest" by (simp add: demo_audit_def)
  have ok: "verify_chain demo_digest ''s'' demo_ledger = Inr True"
    using history_verifies [of demo_audit] by (simp add: demo_ledger_def blake)
  then have ok': "verify_chain demo_digest ''s'' (recommented demo_ledger) = Inr True"
      "get_chain_head ''s'' (recommented demo_ledger) = get_chain_head ''s'' demo_ledger"
    using uncovered_columns_unchecked(2) [of demo_digest "''s''" demo_ledger] by simp_all
  have "distinct (map demo_digest (map (payload ''s'') (session_rows ''s'' demo_ledger)))"
      "map (payload ''s'') (session_rows ''s'' (recommented demo_ledger)) = map (payload ''s'') (session_rows ''s'' demo_ledger)"
    by code_simp+
  then have "inj_on demo_digest (payload ''s'' ` (set (session_rows ''s'' (recommented demo_ledger))
      \<union> set (session_rows ''s'' demo_ledger)))"
    by (metis (no_types, lifting) distinct_map image_Un list.set_map sup.idem)
  moreover have "list_all separable (session_rows ''s'' (recommented demo_ledger) @ session_rows ''s'' demo_ledger)"
      "SEP \<notin> set ''s''" "recommented demo_ledger \<noteq> demo_ledger"
    by code_simp+
  ultimately show ?thesis
    using chain_head_commits [OF ok'(1) ok ok'(2)] by blast
qed

end
