(* ===== verification/Streams.thy ===== *)
theory Streams
  imports Diffs "HOL-Library.Sublist"
begin

text \<open>
  The stages a stream of model text passes: the splitter of scaffolded reasoning
  (\<open>tools/thinking_demux.py\<close>), the coalescer of tokens and the budget of narration
  (\<open>transport/token_batcher.py\<close>) and the framing of command boundaries
  (\<open>core/command_boundary.py\<close>). Every stage is a function of its state and the next piece; the
  clock is read from the input.
\<close>

subsection \<open>Splitting reasoning from the answer\<close>

definition OPEN_TAG :: string where "OPEN_TAG = ''<thinking>''"
definition CLOSE_TAG :: string where "CLOSE_TAG = ''</thinking>''"

datatype demux_state = SEEKING_OPEN | INSIDE | AFTER_CLOSE

text \<open>The largest proper prefix of the tag that the text ends with.\<close>

fun suffix_prefix_from :: "string \<Rightarrow> string \<Rightarrow> nat \<Rightarrow> nat" where
  "suffix_prefix_from s tag 0 = 0"
| "suffix_prefix_from s tag (Suc k) =
     (if last_chars (Suc k) s = take (Suc k) tag then Suc k else suffix_prefix_from s tag k)"

definition suffix_prefix_len :: "string \<Rightarrow> string \<Rightarrow> nat" where
  "suffix_prefix_len s tag = suffix_prefix_from s tag (min (length s) (length tag - 1))"

text \<open>
  The loop of \<open>feed\<close>: the reasoning and the answer it emits, the next state and the carry.
\<close>

function demux_loop :: "demux_state \<Rightarrow> string \<Rightarrow> string \<times> string \<times> demux_state \<times> string" where
  "demux_loop state work =
     (if work = [] then ([], [], state, [])
      else case state of
        SEEKING_OPEN \<Rightarrow>
          (case find_sub OPEN_TAG work of
             None \<Rightarrow> ([], [], SEEKING_OPEN, work)
           | Some idx \<Rightarrow> demux_loop INSIDE (drop (idx + length OPEN_TAG) work))
      | INSIDE \<Rightarrow>
          (case find_sub CLOSE_TAG work of
             None \<Rightarrow>
               (let keep = suffix_prefix_len work CLOSE_TAG in
                (take (length work - keep) work, [], INSIDE, drop (length work - keep) work))
           | Some idx \<Rightarrow>
               (let (thinking, answer, state', carry) =
                      demux_loop AFTER_CLOSE (drop (idx + length CLOSE_TAG) work)
                in (take idx work @ thinking, answer, state', carry)))
      | AFTER_CLOSE \<Rightarrow> ([], work, AFTER_CLOSE, []))"
  by pat_completeness auto

termination
  by (relation "measure (\<lambda>(_, work). length work)") (auto simp: OPEN_TAG_def CLOSE_TAG_def)

declare demux_loop.simps [simp del]

record demuxer =
  dx_state :: demux_state
  dx_carry :: string

definition new_demuxer :: demuxer where
  "new_demuxer = \<lparr>dx_state = SEEKING_OPEN, dx_carry = []\<rparr>"

definition feed :: "string \<Rightarrow> demuxer \<Rightarrow> (string \<times> string) \<times> demuxer" where
  "feed chunk d =
     (let (thinking, answer, state, carry) = demux_loop (dx_state d) (dx_carry d @ chunk)
      in ((thinking, answer), \<lparr>dx_state = state, dx_carry = carry\<rparr>))"

definition finish :: "demuxer \<Rightarrow> string \<times> string" where
  "finish d =
     (case dx_state d of
        SEEKING_OPEN \<Rightarrow> ([], dx_carry d)
      | INSIDE \<Rightarrow> (dx_carry d, [])
      | AFTER_CLOSE \<Rightarrow> ([], dx_carry d))"

fun demux_stream :: "string list \<Rightarrow> demuxer \<Rightarrow> string \<times> string" where
  "demux_stream [] d = finish d"
| "demux_stream (chunk # chunks) d =
     (let ((thinking, answer), d') = feed chunk d; (thinking', answer') = demux_stream chunks d'
      in (thinking @ thinking', answer @ answer'))"

text \<open>What the whole text means, without chunks.\<close>

definition demux_text :: "string \<Rightarrow> string \<times> string" where
  "demux_text text =
     (case find_sub OPEN_TAG text of
        None \<Rightarrow> ([], text)
      | Some i \<Rightarrow>
          (let body = drop (i + length OPEN_TAG) text in
           case find_sub CLOSE_TAG body of
             None \<Rightarrow> (body, [])
           | Some j \<Rightarrow> (take j body, drop (j + length CLOSE_TAG) body)))"

lemma suffix_prefix_from_le: "suffix_prefix_from s tag n \<le> n"
  by (induction n) auto

lemma suffix_prefix_from_max:
  "suffix_prefix_from s tag n < k \<Longrightarrow> k \<le> n \<Longrightarrow> last_chars k s \<noteq> take k tag"
proof (induction n)
  case (Suc n)
  then show ?case by (cases "k = Suc n") (auto split: if_splits)
qed simp

lemma find_sub_offset:
  assumes "\<And>p. p < length e \<Longrightarrow> \<not> starts_with (drop p (e @ s)) t"
  shows "find_sub t (e @ s) = map_option (\<lambda>i. length e + i) (find_sub t s)"
  using assms
proof (induction e)
  case Nil
  then show ?case by (simp add: option.map_ident)
next
  case (Cons c e)
  have "\<not> starts_with (c # e @ s) t" using Cons.prems [of 0] by simp
  moreover have "find_sub t (e @ s) = map_option (\<lambda>i. length e + i) (find_sub t s)"
    using Cons.prems [of "Suc _"] by (intro Cons.IH) simp
  ultimately show ?case by (simp add: option.map_comp comp_def)
qed

text \<open>
  Emitted reasoning \<open>e\<close> with carry \<open>c\<close>: no close tag can start inside \<open>e\<close>, whatever follows.
\<close>

definition settled :: "string \<Rightarrow> string \<Rightarrow> bool" where
  "settled e c \<longleftrightarrow> (\<forall>p < length e. drop p (e @ c) \<parallel> CLOSE_TAG)"

lemma starts_with_prefix: "starts_with s t \<longleftrightarrow> prefix t s"
  by (auto simp: starts_with_iff prefix_def)

lemma settled_extend: "settled e c \<Longrightarrow> p < length e \<Longrightarrow> drop p (e @ c @ s) \<parallel> CLOSE_TAG"
proof -
  assume a: "settled e c" "p < length e"
  then have "drop p (e @ c) \<parallel> CLOSE_TAG" by (simp add: settled_def)
  then have "drop p (e @ c) @ s \<parallel> CLOSE_TAG @ []" by (rule parallel_append)
  with a(2) show ?thesis by simp
qed

lemma settled_find:
  "settled e c \<Longrightarrow> find_sub CLOSE_TAG (e @ c @ s) = map_option (\<lambda>i. length e + i) (find_sub CLOSE_TAG (c @ s))"
  by (rule find_sub_offset) (auto simp: starts_with_prefix parallel_def dest!: settled_extend)

lemma settled_step:
  assumes "settled e c" and "find_sub CLOSE_TAG (c @ s) = None"
    and "k = suffix_prefix_len (c @ s) CLOSE_TAG" and "n = length (c @ s) - k"
  shows "settled (e @ take n (c @ s)) (drop n (c @ s))"
proof -
  let ?w = "c @ s"
  have "drop p (e @ ?w) \<parallel> CLOSE_TAG" if p: "p < length e + n" "length e \<le> p" for p
  proof -
    let ?q = "p - length e"
    have q: "drop p (e @ ?w) = drop ?q ?w" "?q < n" using p by auto
    have none: "\<not> prefix CLOSE_TAG (drop ?q ?w)"
    proof
      assume "prefix CLOSE_TAG (drop ?q ?w)"
      then obtain r where "drop ?q ?w = CLOSE_TAG @ r" by (auto simp: prefix_def)
      then have "?w = take ?q ?w @ CLOSE_TAG @ r" by (metis append_take_drop_id)
      with assms(2) show False by (metis find_sub_None)
    qed
    have "\<not> prefix (drop ?q ?w) CLOSE_TAG"
    proof
      assume pre: "prefix (drop ?q ?w) CLOSE_TAG"
      let ?m = "length ?w - ?q"
      have "strict_prefix (drop ?q ?w) CLOSE_TAG"
        using pre none by (metis prefix_order.order_refl strict_prefix_def)
      then have "?m < length CLOSE_TAG" using prefix_length_less by fastforce
      moreover have "k < ?m" "?m \<le> length ?w" using q(2) assms(4) by auto
      ultimately have "?m \<le> min (length ?w) (length CLOSE_TAG - 1)" "k < ?m" by linarith+
      then have "last_chars ?m ?w \<noteq> take ?m CLOSE_TAG"
        unfolding assms(3) suffix_prefix_len_def by (rule suffix_prefix_from_max [rotated])
      moreover have "last_chars ?m ?w = drop ?q ?w" using q(2) assms(4) by (simp add: last_chars_def)
      moreover have "drop ?q ?w = take ?m CLOSE_TAG"
        using pre by (metis append_eq_conv_conj length_drop prefix_def)
      ultimately show False by simp
    qed
    with none q(1) show ?thesis by (simp add: parallel_def)
  qed
  then have "drop p (e @ ?w) \<parallel> CLOSE_TAG" if "p < length e + n" for p
    using that settled_extend [OF assms(1), of p s] by (cases "p < length e") auto
  moreover have "(e @ take n ?w) @ drop n ?w = e @ ?w" by (simp only: append_assoc append_take_drop_id)
  moreover have "length (e @ take n ?w) = length e + n" using assms(4) by auto
  ultimately show ?thesis unfolding settled_def by simp
qed

lemma find_sub_append: "find_sub t x = Some i \<Longrightarrow> find_sub t (x @ y) = Some i"
proof (induction x arbitrary: i)
  case Nil
  then show ?case by (cases y) (auto simp: starts_with_def split: if_splits)
next
  case (Cons c x)
  have "starts_with (c # x) t \<Longrightarrow> starts_with (c # x @ y) t"
    by (metis append_Cons append_assoc starts_with_iff)
  moreover have "starts_with (c # x @ y) t \<Longrightarrow> find_sub t (c # x @ y) = Some 0" by simp
  moreover have "\<not> starts_with (c # x @ y) t"
    if "\<not> starts_with (c # x) t" "find_sub t x = Some j" for j
  proof
    assume "starts_with (c # x @ y) t"
    then have "take (length t) (c # x @ y) = t" by (simp add: starts_with_def)
    moreover have "length t \<le> length x" using find_sub_Some [OF that(2)] by simp
    ultimately show False using that(1) by (simp add: starts_with_def take_append [of _ "c # x", simplified])
  qed
  ultimately show ?case using Cons by (auto split: if_splits)
qed

lemma loop_after: "demux_loop AFTER_CLOSE w = ([], w, AFTER_CLOSE, [])"
  by (simp add: demux_loop.simps)

lemma loop_inside:
  assumes "settled th c"
  shows "case find_sub CLOSE_TAG (th @ c @ s) of
      None \<Rightarrow> (\<exists>t c'. demux_loop INSIDE (c @ s) = (t, [], INSIDE, c') \<and> settled (th @ t) c' \<and> t @ c' = c @ s)
    | Some j \<Rightarrow> (\<exists>t. demux_loop INSIDE (c @ s) = (t, drop (j + length CLOSE_TAG) (th @ c @ s), AFTER_CLOSE, [])
        \<and> th @ t = take j (th @ c @ s))"
proof (cases "c @ s = []")
  case True
  moreover have "find_sub CLOSE_TAG (th @ []) = map_option (\<lambda>i. length th + i) (find_sub CLOSE_TAG [])"
    using settled_find [OF assms, of "[]"] True by simp
  ultimately show ?thesis
    using assms by (simp add: demux_loop.simps CLOSE_TAG_def)
next
  case False
  show ?thesis
  proof (cases "find_sub CLOSE_TAG (c @ s)")
    case None
    let ?n = "length (c @ s) - suffix_prefix_len (c @ s) CLOSE_TAG"
    have "settled (th @ take ?n (c @ s)) (drop ?n (c @ s))"
      by (rule settled_step [OF assms None refl refl])
    moreover have "demux_loop INSIDE (c @ s) = (take ?n (c @ s), [], INSIDE, drop ?n (c @ s))"
      using False None by (subst demux_loop.simps) (simp add: Let_def)
    ultimately show ?thesis
      unfolding settled_find [OF assms] None option.map option.case by (metis append_take_drop_id)
  next
    case (Some i)
    have "demux_loop INSIDE (c @ s) = (take i (c @ s), drop (i + length CLOSE_TAG) (c @ s), AFTER_CLOSE, [])"
      using False Some by (subst demux_loop.simps) (simp add: loop_after)
    then show ?thesis
      unfolding settled_find [OF assms] Some option.map option.case by simp
  qed
qed

text \<open>What a demuxer has made of the text it has read.\<close>

fun demuxed :: "demuxer \<Rightarrow> string \<Rightarrow> string \<Rightarrow> string \<Rightarrow> bool" where
  "demuxed d seen th an =
     (case dx_state d of
        SEEKING_OPEN \<Rightarrow> th = [] \<and> an = [] \<and> dx_carry d = seen \<and> find_sub OPEN_TAG seen = None
      | INSIDE \<Rightarrow> an = [] \<and> settled th (dx_carry d) \<and> find_sub CLOSE_TAG (th @ dx_carry d) = None
          \<and> (\<exists>i. find_sub OPEN_TAG seen = Some i \<and> drop (i + length OPEN_TAG) seen = th @ dx_carry d)
      | AFTER_CLOSE \<Rightarrow> dx_carry d = [] \<and>
          (\<exists>i j. find_sub OPEN_TAG seen = Some i
            \<and> find_sub CLOSE_TAG (drop (i + length OPEN_TAG) seen) = Some j
            \<and> th = take j (drop (i + length OPEN_TAG) seen)
            \<and> an = drop (j + length CLOSE_TAG) (drop (i + length OPEN_TAG) seen)))"

lemma inside_demuxed:
  assumes "settled th c" and "find_sub OPEN_TAG seen = Some i"
    and "drop (i + length OPEN_TAG) seen = th @ c @ s"
    and "demux_loop INSIDE (c @ s) = (t, a, st, c')"
  shows "demuxed \<lparr>dx_state = st, dx_carry = c'\<rparr> seen (th @ t) a"
proof (cases "find_sub CLOSE_TAG (th @ c @ s)")
  case None
  with loop_inside [OF assms(1), of s] assms(4)
  have "a = []" "st = INSIDE" "settled (th @ t) c'" "t @ c' = c @ s" by auto
  with assms(2,3) None show ?thesis by simp
next
  case (Some j)
  with loop_inside [OF assms(1), of s] assms(4)
  have "a = drop (j + length CLOSE_TAG) (th @ c @ s)" "st = AFTER_CLOSE" "c' = []" "th @ t = take j (th @ c @ s)"
    by auto
  with assms(2) Some show ?thesis
    unfolding assms(3) [symmetric] by (simp del: drop_drop)
qed

lemma feed_demuxed:
  assumes "demuxed d seen th an" and "feed s d = ((t, a), d')"
  shows "demuxed d' (seen @ s) (th @ t) (an @ a)"
proof -
  obtain st c' where lp: "demux_loop (dx_state d) (dx_carry d @ s) = (t, a, st, c')"
      and d': "d' = \<lparr>dx_state = st, dx_carry = c'\<rparr>"
    using assms(2) by (auto simp: feed_def split: prod.splits)
  show ?thesis
  proof (cases "dx_state d")
    case SEEKING_OPEN
    with assms(1) have now: "th = []" "an = []" "dx_carry d = seen" by simp_all
    show ?thesis
    proof (cases "find_sub OPEN_TAG (seen @ s)")
      case None
      then have "demux_loop SEEKING_OPEN (seen @ s) = ([], [], SEEKING_OPEN, seen @ s)"
        by (subst demux_loop.simps) simp
      with lp d' now SEEKING_OPEN None show ?thesis by simp
    next
      case (Some i)
      then have ne: "seen @ s \<noteq> []" by (auto simp: OPEN_TAG_def)
      have "demux_loop INSIDE (drop (i + length OPEN_TAG) (seen @ s)) = (t, a, st, c')"
        using lp unfolding SEEKING_OPEN now(3) demux_loop.simps [of SEEKING_OPEN] by (simp only: ne Some) simp
      with Some d' now show ?thesis
        using inside_demuxed [of "[]" "[]" "seen @ s" i "drop (i + length OPEN_TAG) (seen @ s)"]
        by (simp add: settled_def)
    qed
  next
    case INSIDE
    with assms(1) obtain i where i: "an = []" "settled th (dx_carry d)" "find_sub OPEN_TAG seen = Some i"
        "drop (i + length OPEN_TAG) seen = th @ dx_carry d" by auto
    have "i + length OPEN_TAG \<le> length seen" using find_sub_Some [OF i(3)] by simp
    with i(4) have "drop (i + length OPEN_TAG) (seen @ s) = th @ dx_carry d @ s" by simp
    from inside_demuxed [OF i(2) find_sub_append [OF i(3)] this] lp INSIDE d' i(1) show ?thesis by simp
  next
    case AFTER_CLOSE
    with assms(1) obtain i j where ij: "dx_carry d = []" "find_sub OPEN_TAG seen = Some i"
        "find_sub CLOSE_TAG (drop (i + length OPEN_TAG) seen) = Some j"
        "th = take j (drop (i + length OPEN_TAG) seen)"
        "an = drop (j + length CLOSE_TAG) (drop (i + length OPEN_TAG) seen)" by auto
    have len: "i + length OPEN_TAG \<le> length seen" using find_sub_Some [OF ij(2)] by simp
    then have body: "drop (i + length OPEN_TAG) (seen @ s) = drop (i + length OPEN_TAG) seen @ s" by simp
    have "j + length CLOSE_TAG \<le> length (drop (i + length OPEN_TAG) seen)"
      using find_sub_Some [OF ij(3)] by simp
    moreover have "t = []" "a = s" "st = AFTER_CLOSE" "c' = []" using lp AFTER_CLOSE ij(1) by (auto simp: loop_after)
    ultimately show ?thesis
      using d' find_sub_append [OF ij(2), of s] find_sub_append [OF ij(3), of s] ij(4,5) body by simp
  qed
qed

lemma finish_demuxed: "demuxed d seen th an \<Longrightarrow> (th @ fst (finish d), an @ snd (finish d)) = demux_text seen"
  by (cases "dx_state d") (auto simp: finish_def demux_text_def Let_def)

lemma stream_demuxed:
  "demuxed d seen th an \<Longrightarrow> (th @ fst (demux_stream chunks d), an @ snd (demux_stream chunks d))
     = demux_text (seen @ concat chunks)"
proof (induction chunks arbitrary: d seen th an)
  case Nil
  then show ?case using finish_demuxed by simp
next
  case (Cons chunk chunks)
  obtain t a d' where f: "feed chunk d = ((t, a), d')" by (metis surj_pair)
  from Cons.IH [OF feed_demuxed [OF Cons.prems f]] show ?case
    by (simp add: f split_beta)
qed

text \<open>
  C37. The splitter does not depend on the chunks. However a text is cut into chunks, the
  emitted reasoning and the emitted answer are those of the whole text: what precedes the
  first open tag is dropped, what lies before the next close tag is reasoning and the rest is
  the answer; without an open tag everything is the answer, without a close tag the answer is
  empty.
\<close>

theorem demuxer_ignores_chunks: "demux_stream chunks new_demuxer = demux_text (concat chunks)"
  using stream_demuxed [of new_demuxer "[]" "[]" "[]" chunks]
  by (simp add: new_demuxer_def OPEN_TAG_def)

subsection \<open>Coalescing tokens\<close>

text \<open>
  A delta comes with two readings of the clock: the one that measures the window, and the one
  that starts the next window when the frame is flushed.
\<close>

fun batch_tokens :: "rat \<Rightarrow> nat \<Rightarrow> string list \<Rightarrow> nat \<Rightarrow> rat \<Rightarrow> (string \<times> rat \<times> rat) list \<Rightarrow> string list" where
  "batch_tokens threshold_s max_chars buffer buffered window_start [] =
     (if buffer = [] then [] else [concat buffer])"
| "batch_tokens threshold_s max_chars buffer buffered window_start ((delta, now, after) # source) =
     (if delta = [] then batch_tokens threshold_s max_chars buffer buffered window_start source
      else (let buffer' = buffer @ [delta]; buffered' = buffered + length delta in
            if threshold_s \<le> now - window_start \<or> max_chars \<le> buffered'
            then concat buffer' # batch_tokens threshold_s max_chars [] 0 after source
            else batch_tokens threshold_s max_chars buffer' buffered' window_start source))"

lemma batch_concat:
  "concat (batch_tokens th mx buffer n w source) = concat buffer @ concat (map fst source)"
  by (induction th mx buffer n w source rule: batch_tokens.induct) (simp_all add: Let_def)

lemma batch_frames:
  assumes "list_all (\<lambda>x. length (fst x) \<le> l) source" "list_all (\<lambda>b. b \<noteq> []) buffer"
    "n = length (concat buffer)" "n < mx"
  shows "list_all (\<lambda>f. f \<noteq> [] \<and> length f < mx + l) (batch_tokens th mx buffer n w source)"
  using assms
proof (induction th mx buffer n w source rule: batch_tokens.induct)
  case (1 th mx buffer n w)
  then show ?case by (cases buffer) auto
next
  case (2 th mx buffer n w delta now after source)
  then show ?case by (auto simp: Let_def)
qed

text \<open>
  Coalescing loses nothing. Whatever the clock does, the frames are the text of the
  deltas in order, none is empty, and none is longer than the size bound by more than one
  delta.
\<close>

theorem batching_lossless:
  assumes "list_all (\<lambda>x. length (fst x) \<le> l) source" and "0 < max_chars"
  shows "concat (batch_tokens th max_chars [] 0 w source) = concat (map fst source)
    \<and> list_all (\<lambda>f. f \<noteq> [] \<and> length f < max_chars + l) (batch_tokens th max_chars [] 0 w source)"
  using batch_frames [OF assms(1), of "[]" 0 max_chars th w] assms(2) by (simp add: batch_concat)

theorem batching_lossless_witness:
  "concat (batch_tokens (1/25) 4096 [] 0 0 [(''a'', 0, 0), ([], 0, 0), (''b'', 1, 1)]) = ''ab''"
  using batching_lossless [of 1 "[(''a'', 0, 0), ([], 0, 0), (''b'', 1, 1)]" 4096 "1/25" 0] by simp

subsection \<open>The budget of narration\<close>

record narration_gate =
  ng_max_ratio :: rat
  ng_answer_bytes :: int
  ng_narration_bytes :: int

definition record_answer :: "int \<Rightarrow> narration_gate \<Rightarrow> narration_gate" where
  "record_answer n g = (if 0 < n then g\<lparr>ng_answer_bytes := ng_answer_bytes g + n\<rparr> else g)"

definition allow_narration :: "int \<Rightarrow> narration_gate \<Rightarrow> bool \<times> narration_gate" where
  "allow_narration n g =
     (if ng_answer_bytes g = 0 then (True, g)
      else (let projected = ng_narration_bytes g + n; total = ng_answer_bytes g + projected in
            if total = 0 then (True, g)
            else if of_int projected / of_int total \<le> ng_max_ratio g
            then (True, g\<lparr>ng_narration_bytes := projected\<rparr>) else (False, g)))"

datatype narration_op = Answer int | Narrate nat

fun narration_step :: "narration_op \<Rightarrow> narration_gate \<Rightarrow> narration_gate" where
  "narration_step (Answer n) g = record_answer n g"
| "narration_step (Narrate n) g = snd (allow_narration (int n) g)"

definition within_budget :: "narration_gate \<Rightarrow> bool" where
  "within_budget g \<longleftrightarrow> 0 \<le> ng_max_ratio g \<and> 0 \<le> ng_answer_bytes g \<and> 0 \<le> ng_narration_bytes g
     \<and> of_int (ng_narration_bytes g) \<le> ng_max_ratio g * of_int (ng_answer_bytes g + ng_narration_bytes g)"

lemma step_within_budget: "within_budget g \<Longrightarrow> within_budget (narration_step oper g)"
proof (cases oper)
  case (Answer n)
  assume g: "within_budget g"
  show ?thesis
  proof (cases "0 < n")
    case True
    have "ng_max_ratio g * of_int (ng_answer_bytes g + ng_narration_bytes g)
        \<le> ng_max_ratio g * of_int (ng_answer_bytes g + n + ng_narration_bytes g)"
      using g True by (intro mult_left_mono) (simp_all add: within_budget_def)
    with g True Answer show ?thesis by (simp add: within_budget_def record_answer_def)
  qed (use g Answer in \<open>simp add: record_answer_def\<close>)
next
  case (Narrate n)
  assume g: "within_budget g"
  show ?thesis
  proof (cases "ng_answer_bytes g = 0")
    case False
    let ?p = "ng_narration_bytes g + int n" and ?t = "ng_answer_bytes g + (ng_narration_bytes g + int n)"
    have pos: "0 < ?t" "0 \<le> ?p" using g False by (auto simp: within_budget_def)
    have "(of_int ?p :: rat) \<le> ng_max_ratio g * of_int ?t" if "of_int ?p / of_int ?t \<le> ng_max_ratio g"
    proof -
      have "(of_int ?p :: rat) = of_int ?p / of_int ?t * of_int ?t" using pos(1) by simp
      also have "\<dots> \<le> ng_max_ratio g * of_int ?t"
        using that pos(1) by (intro mult_right_mono) auto
      finally show ?thesis .
    qed
    with g pos Narrate False show ?thesis
      by (auto simp: within_budget_def allow_narration_def Let_def)
  qed (use g Narrate in \<open>simp add: allow_narration_def\<close>)
qed

text \<open>
  Narration stays within its share. From a fresh gate with a ratio that is not negative,
  after any history of answer bytes and narration packets, the charged narration is at most
  that ratio of the charged volume; and before the first answer byte every packet is allowed
  and none is charged.
\<close>

theorem narration_within_share:
  assumes "0 \<le> r" and "g = fold narration_step ops \<lparr>ng_max_ratio = r, ng_answer_bytes = 0, ng_narration_bytes = 0\<rparr>"
  shows "of_int (ng_narration_bytes g) \<le> r * of_int (ng_answer_bytes g + ng_narration_bytes g)
    \<and> (ng_answer_bytes g = 0 \<longrightarrow> allow_narration n g = (True, g))"
proof -
  have "within_budget (fold narration_step ops g0) \<and> ng_max_ratio (fold narration_step ops g0) = ng_max_ratio g0"
    if "within_budget g0" for g0
    using that
  proof (induction ops arbitrary: g0)
    case (Cons oper ops)
    have "ng_max_ratio (narration_step oper g0) = ng_max_ratio g0"
      by (cases oper) (simp_all add: record_answer_def allow_narration_def Let_def)
    with Cons.IH [OF step_within_budget [OF Cons.prems]] show ?case by simp
  qed simp
  moreover have "within_budget \<lparr>ng_max_ratio = r, ng_answer_bytes = 0, ng_narration_bytes = 0\<rparr>"
    using assms(1) by (simp add: within_budget_def)
  ultimately have "within_budget g \<and> ng_max_ratio g = r" unfolding assms(2) by force
  then show ?thesis by (auto simp: within_budget_def allow_narration_def)
qed

theorem narration_within_share_witness:
  "let g = fold narration_step [Narrate 50, Answer 100, Narrate 10, Narrate 10]
       \<lparr>ng_max_ratio = 15/100, ng_answer_bytes = 0, ng_narration_bytes = 0\<rparr>
   in of_int (ng_narration_bytes g) \<le> (15/100 :: rat) * of_int (ng_answer_bytes g + ng_narration_bytes g)"
  unfolding Let_def by (rule narration_within_share [OF _ refl, THEN conjunct1]) simp

subsection \<open>Command boundaries\<close>

definition compose :: "bool \<Rightarrow> string \<Rightarrow> string \<Rightarrow> string" where
  "compose is_cmd marker command =
     (if is_cmd
      then command @ [CHR 0x0D, CHR 0x0A] @ ''echo '' @ marker @ ''%ERRORLEVEL%'' @ [CHR 0x0D, CHR 0x0A]
      else command @ [CHR 0x0A] @ ''printf '' @ [CHR 0x27] @ [CHR 0x5C] @ ''n'' @ marker @ ''%d'' @ [CHR 0x5C] @ ''n''
           @ [CHR 0x27] @ '' '' @ [CHR 0x22] @ ''$?'' @ [CHR 0x22, CHR 0x0A])"

text \<open>A match of the marker, digits, an optional CR and an LF at the start: the code and the rest.\<close>

definition match_boundary :: "string \<Rightarrow> string \<Rightarrow> (nat \<times> string) option" where
  "match_boundary marker s =
     (case after_prefix marker s of
        None \<Rightarrow> None
      | Some r \<Rightarrow>
          (case read_number r of
             None \<Rightarrow> None
           | Some (code, rest) \<Rightarrow>
               (case (if starts_with rest [CHR 0x0D] then tl rest else rest) of
                  c # rest' \<Rightarrow> if c = CHR 0x0A then Some (code, rest') else None
                | [] \<Rightarrow> None)))"

fun search_boundary :: "string \<Rightarrow> string \<Rightarrow> (string \<times> nat \<times> string) option" where
  "search_boundary marker [] = None"
| "search_boundary marker (c # s) =
     (case match_boundary marker (c # s) of
        Some (code, rest) \<Rightarrow> Some ([], code, rest)
      | None \<Rightarrow> map_option (\<lambda>(before, r). (c # before, r)) (search_boundary marker s))"

lemma match_boundary_shorter: "match_boundary marker s = Some (code, rest) \<Longrightarrow> length rest < length s"
proof -
  have number: "read_number r = Some (n, r') \<Longrightarrow> length r' \<le> length r" for r n r'
    by (auto simp: read_number_def Let_def length_dropWhile_le split: if_splits)
  assume "match_boundary marker s = Some (code, rest)"
  then obtain r n r' where *: "after_prefix marker s = Some r" "read_number r = Some (n, r')"
      "(if starts_with r' [CHR 0x0D] then tl r' else r') = CHR 0x0A # rest"
    by (auto simp: match_boundary_def split: option.splits list.splits if_splits)
  from *(1) have "length r \<le> length s" by (auto simp: after_prefix_def split: if_splits)
  moreover have "Suc (length rest) \<le> length r'"
    using arg_cong [OF *(3), of length] by (auto split: if_splits)
  ultimately show "length rest < length s" using number [OF *(2)] by simp
qed

lemma search_boundary_shorter: "search_boundary marker s = Some (before, code, rest) \<Longrightarrow> length rest < length s"
proof (induction s arbitrary: before)
  case (Cons c s)
  then show ?case
    by (fastforce split: option.splits dest: match_boundary_shorter)
qed simp

function drain_boundaries :: "string \<Rightarrow> string \<Rightarrow> string \<times> string \<times> nat list" where
  "drain_boundaries marker buf =
     (case search_boundary marker buf of
        None \<Rightarrow>
          (let cut = length buf - suffix_prefix_from buf marker (min (length buf) (length marker))
           in (take cut buf, drop cut buf, []))
      | Some (before, code, rest) \<Rightarrow>
          (let (emit, remaining, codes) = drain_boundaries marker rest
           in (before @ emit, remaining, code # codes)))"
  by pat_completeness auto

termination
  by (relation "measure (\<lambda>(_, buf). length buf)") (auto dest: search_boundary_shorter)

declare drain_boundaries.simps [simp del]

text \<open>The output of a session: for each command its text, its exit code and whether the line ends in CR LF.\<close>

definition framed :: "string \<Rightarrow> string \<times> nat \<times> bool \<Rightarrow> string" where
  "framed marker c = (case c of (out, code, crlf) \<Rightarrow>
     out @ marker @ show_nat code @ (if crlf then [CHR 0x0D] else []) @ [CHR 0x0A])"

lemma match_framed:
  "match_boundary marker (marker @ show_nat code @ (if crlf then [CHR 0x0D] else []) @ [CHR 0x0A] @ s) = Some (code, s)"
proof -
  have nd: "\<not> is_digit (CHR 0x0D)" "\<not> is_digit (CHR 0x0A)" by (simp_all add: is_digit_def)
  show ?thesis
    by (simp add: match_boundary_def after_prefix_def starts_with_def read_show_nat nd)
qed

lemma match_other_head: "m \<noteq> c \<Longrightarrow> match_boundary (m # marker) (c # s) = None"
  by (simp add: match_boundary_def after_prefix_def starts_with_def)

lemma search_after: 
  assumes "m \<notin> set out" and "match_boundary (m # marker) s = Some (code, rest)" and "s \<noteq> []"
  shows "search_boundary (m # marker) (out @ s) = Some (out, code, rest)"
  using assms(1)
proof (induction out)
  case Nil
  then show ?case using assms(2,3) by (cases s) simp_all
next
  case (Cons c out)
  then show ?case using match_other_head [of m c marker] by simp
qed

lemma search_none: "m \<notin> set s \<Longrightarrow> search_boundary (m # marker) s = None"
  by (induction s) (simp_all add: match_other_head)

lemma suffix_prefix_free: "m \<notin> set s \<Longrightarrow> suffix_prefix_from s (m # marker) n = 0"
proof (induction n)
  case (Suc n)
  have "last_chars (Suc n) s \<noteq> m # take n marker"
    using Suc.prems set_drop_subset [of "length s - Suc n" s] by (auto simp: last_chars_def)
  with Suc show ?case by simp
qed simp

text \<open>
  Framing is read back. When the marker's first byte does not occur in the output of the
  commands nor in what follows them, draining their framed output returns exactly the
  outputs, the exit codes in order, and no withheld text.
\<close>

theorem framer_reads_back:
  assumes "list_all (\<lambda>(out, _, _). m \<notin> set out) commands" and "m \<notin> set tail"
  shows "drain_boundaries (m # marker) (concat (map (framed (m # marker)) commands) @ tail)
    = (concat (map fst commands) @ tail, [], map (fst \<circ> snd) commands)"
  using assms
proof (induction commands)
  case Nil
  then show ?case
    by (subst drain_boundaries.simps) (simp add: search_none suffix_prefix_free)
next
  case (Cons c commands)
  obtain out code crlf where c: "c = (out, code, crlf)" by (cases c)
  let ?rest = "concat (map (framed (m # marker)) commands) @ tail"
  have "search_boundary (m # marker) (out @ (m # marker) @ show_nat code @ (if crlf then [CHR 0x0D] else []) @ [CHR 0x0A] @ ?rest)
      = Some (out, code, ?rest)"
    using Cons.prems(1) c by (intro search_after match_framed) simp_all
  then have "search_boundary (m # marker) (concat (map (framed (m # marker)) (c # commands)) @ tail) = Some (out, code, ?rest)"
    by (simp add: framed_def c)
  with Cons.IH [OF _ Cons.prems(2)] Cons.prems(1) c show ?case
    by (subst drain_boundaries.simps) simp
qed

theorem framer_reads_back_witness:
  "drain_boundaries ([CHR 0x01, CHR 0x02] @ ''ab'') (framed ([CHR 0x01, CHR 0x02] @ ''ab'') (''ok'', 12, False) @ ''$ '')
   = (''ok$ '', [], [12])"
  using framer_reads_back [of "CHR 0x01" "[(''ok'', 12, False)]" "''$ ''" "CHR 0x02 # ''ab''"] by simp

text \<open>
  A boundary that is cut after its marker, between the digits and the line end, is emitted as
  output, and its exit code is never reported.
\<close>

theorem split_boundary_is_lost:
  "let marker = [CHR 0x01, CHR 0x02] @ ''ab'' in
   drain_boundaries marker (marker @ ''0'' @ [CHR 0x0A]) = ([], [], [0])
   \<and> drain_boundaries marker (marker @ ''0'') = (marker @ ''0'', [], [])
   \<and> drain_boundaries marker [CHR 0x0A] = ([CHR 0x0A], [], [])"
  by code_simp

end
