(* ===== verification/PyPath.thy ===== *)
theory PyPath
  imports PyText
begin

text \<open>
  Paths as texts: the parts and the suffix of \<open>pathlib\<close>, the normalisation and the join of
  \<open>posixpath\<close>, and the replacement of one text by another.
\<close>

subsection \<open>Replacements\<close>

text \<open>\<open>p.replace("\\", "/")\<close>, the form in which the program compares paths.\<close>

definition fwd :: "string \<Rightarrow> string" where
  "fwd p = map (\<lambda>c. if c = CHR 0x5C then CHR ''/'' else c) p"

text \<open>\<open>s.replace(old, new)\<close> for a text \<open>old\<close> that is not empty.\<close>

function str_replace :: "string \<Rightarrow> string \<Rightarrow> string \<Rightarrow> string" where
  "str_replace old new s =
     (if old = [] \<or> s = [] then s
      else if starts_with s old then new @ str_replace old new (drop (length old) s)
      else hd s # str_replace old new (tl s))"
  by pat_completeness auto
termination
  by (relation "measure (\<lambda>(old, new, s). length s)") (auto simp: Suc_diff_Suc)

declare str_replace.simps [simp del]

text \<open>The text before the last slash, if there is one, and the text after it.\<close>

definition basename :: "string \<Rightarrow> string" where
  "basename p = rev (takeWhile (\<lambda>c. c \<noteq> CHR ''/'') (rev p))"

definition dirname_of :: "string \<Rightarrow> string" where
  "dirname_of p = (if CHR ''/'' \<in> set p then rev (tl (dropWhile (\<lambda>c. c \<noteq> CHR ''/'') (rev p))) else [])"

text \<open>\<open>nf[nf.rfind("."):]\<close>, if there is a dot.\<close>

definition from_last_dot :: "string \<Rightarrow> string option" where
  "from_last_dot s =
     (if CHR ''.'' \<in> set s then Some (CHR ''.'' # rev (takeWhile (\<lambda>c. c \<noteq> CHR ''.'') (rev s))) else None)"

definition rstrip_slash :: "string \<Rightarrow> string" where
  "rstrip_slash s = rev (dropWhile (\<lambda>c. c = CHR ''/'') (rev s))"

subsection \<open>Parts\<close>

definition path_parts :: "string \<Rightarrow> string list" where
  "path_parts p = filter (\<lambda>w. w \<noteq> [] \<and> w \<noteq> ''.'') (split_on (CHR ''/'') p)"

text \<open>\<open>Path(path).suffix\<close>: from the last dot of the name, unless the name starts or ends with it.\<close>

definition path_suffix :: "string \<Rightarrow> string" where
  "path_suffix p =
     (case rev (path_parts p) of
        [] \<Rightarrow> []
      | name # _ \<Rightarrow>
          (let ext = rev (takeWhile (\<lambda>c. c \<noteq> CHR ''.'') (rev name)) in
           if length ext + 1 < length name \<and> ext \<noteq> [] then CHR ''.'' # ext else []))"

subsection \<open>Normal forms\<close>

text \<open>\<open>posixpath.normpath\<close>.\<close>

fun norm_comps :: "bool \<Rightarrow> string list \<Rightarrow> string list \<Rightarrow> string list" where
  "norm_comps rooted acc [] = acc"
| "norm_comps rooted acc (w # ws) =
     (if w = [] \<or> w = ''.'' then norm_comps rooted acc ws
      else if w \<noteq> ''..'' \<or> (\<not> rooted \<and> acc = []) \<or> (acc \<noteq> [] \<and> last acc = ''..'') then norm_comps rooted (acc @ [w]) ws
      else norm_comps rooted (butlast acc) ws)"

definition normpath :: "string \<Rightarrow> string" where
  "normpath p =
     (let slashes = (if starts_with p ''//'' \<and> \<not> starts_with p ''///'' then ''//'' else if starts_with p ''/'' then ''/'' else []);
          path = slashes @ join ''/'' (norm_comps (slashes \<noteq> []) [] (split_on (CHR ''/'') p))
      in if path = [] then ''.'' else path)"

definition posix_join :: "string \<Rightarrow> string \<Rightarrow> string" where
  "posix_join a b = (if starts_with b ''/'' then b else if a = [] \<or> ends_with a ''/'' then a @ b else a @ ''/'' @ b)"

end
