(* ===== verification/WorkspaceSync.thy ===== *)
theory WorkspaceSync
  imports PlanFlow Blobs PyPath
begin

text \<open>
  Synchronisation of the virtual file system with the work surface of a sandbox
  (\<open>core/workspace_sync.py\<close>): the push with its snapshot, the pull with its version guard, the
  local surface and the listing of the container surface. A surface is a record of functions,
  as the abstract class of the code is; the locale \<open>sync_surface\<close> states what the two functions
  need of it and the local directory interprets it. UTF-8 and SHA-256 are parameters, bytes are
  texts; the local directory has no symbolic links and no empty directories.
\<close>

subsection \<open>Kinds of files\<close>

definition BINARY_EXTENSIONS :: "string list" where
  "BINARY_EXTENSIONS = [''.png'', ''.jpg'', ''.jpeg'', ''.gif'', ''.bmp'', ''.ico'', ''.webp'', ''.svg'', ''.pdf'',
     ''.zip'', ''.tar'', ''.gz'', ''.7z'', ''.rar'', ''.exe'', ''.dll'', ''.so'', ''.dylib'', ''.wasm'', ''.ttf'',
     ''.otf'', ''.woff'', ''.woff2'', ''.mp3'', ''.mp4'', ''.wav'', ''.ogg'', ''.flac'', ''.db'', ''.sqlite'',
     ''.pyc'', ''.class'']"

definition is_binary_extension :: "string \<Rightarrow> bool" where
  "is_binary_extension p \<longleftrightarrow> lower (path_suffix p) \<in> set BINARY_EXTENSIONS"

definition MAX_SURFACE_FILE_BYTES :: nat where "MAX_SURFACE_FILE_BYTES = 500 * 1024"

subsection \<open>Surfaces\<close>

text \<open>A write that raises is \<open>None\<close>; so is a read that raises, and a read finds a file or not.\<close>

record 's surface =
  sf_write :: "string \<Rightarrow> string \<Rightarrow> 's \<Rightarrow> 's option"
  sf_read :: "'s \<Rightarrow> string \<Rightarrow> string option option"
  sf_hashes :: "'s \<Rightarrow> (string, string) dict"

record sync_env =
  sy_sha256 :: "string \<Rightarrow> string"
  sy_encode :: "string \<Rightarrow> string"
  sy_decode :: "string \<Rightarrow> string"
  sy_blake2b :: "string \<Rightarrow> string"

record snapshot =
  ws_files :: "(string, string) dict"
  ws_version_ids :: "(string, string) dict"

definition sync_content_hash :: "sync_env \<Rightarrow> string \<Rightarrow> string" where
  "sync_content_hash env s = sy_sha256 env (sy_encode env (normalize_eol s))"

subsection \<open>Push\<close>

fun push_files ::
  "'s surface \<Rightarrow> sync_env \<Rightarrow> cas \<Rightarrow> (string, string) dict \<Rightarrow> (string \<times> vfs_file) list \<Rightarrow> snapshot \<Rightarrow> 's
   \<Rightarrow> snapshot \<times> 's" where
  "push_files sf env blobs version_ids [] snap s = (snap, s)"
| "push_files sf env blobs version_ids ((path, file) # files) snap s =
     (case cas_get blobs (vf_blob_hash file) of
        None \<Rightarrow> push_files sf env blobs version_ids files snap s
      | Some content \<Rightarrow>
          (let raw = sy_encode env content in
           case sf_write sf path raw s of
             None \<Rightarrow> push_files sf env blobs version_ids files snap s
           | Some s' \<Rightarrow>
               push_files sf env blobs version_ids files
                 \<lparr>ws_files = dset path (sy_sha256 env raw) (ws_files snap),
                  ws_version_ids = dset path (dget_default version_ids path (vf_document_version_id file))
                    (ws_version_ids snap)\<rparr> s'))"

definition push_vfs_to_surface ::
  "'s surface \<Rightarrow> sync_env \<Rightarrow> cas \<Rightarrow> (string, string) dict \<Rightarrow> (string, vfs_file) dict \<Rightarrow> 's \<Rightarrow> snapshot \<times> 's" where
  "push_vfs_to_surface sf env blobs version_ids vfs_files s =
     push_files sf env blobs version_ids vfs_files \<lparr>ws_files = [], ws_version_ids = []\<rparr> s"

subsection \<open>Pull\<close>

record pulled =
  pl_new_files :: "(string, vfs_file) dict"
  pl_conflicts :: "string list"
  pl_deleted :: "string list"
  pl_blobs :: cas

text \<open>The version guard: the ids are compared as texts.\<close>

definition bumped :: "snapshot \<Rightarrow> (string, string) dict \<Rightarrow> string \<Rightarrow> bool" where
  "bumped before current path \<longleftrightarrow>
     dget_default (ws_version_ids before) path [] < dget_default current path []"

fun pull_changed ::
  "'s surface \<Rightarrow> sync_env \<Rightarrow> 's \<Rightarrow> snapshot \<Rightarrow> (string, string) dict \<Rightarrow> (string \<times> string) list \<Rightarrow> pulled
   \<Rightarrow> pulled option" where
  "pull_changed sf env s before current [] r = Some r"
| "pull_changed sf env s before current ((path, after_hash) # rest) r =
     (if dget (ws_files before) path = Some after_hash then pull_changed sf env s before current rest r
      else if bumped before current path
      then pull_changed sf env s before current rest (r\<lparr>pl_conflicts := pl_conflicts r @ [path]\<rparr>)
      else if is_binary_extension path then pull_changed sf env s before current rest r
      else (case sf_read sf s path of
              None \<Rightarrow> None
            | Some None \<Rightarrow> pull_changed sf env s before current rest r
            | Some (Some raw) \<Rightarrow>
                if MAX_SURFACE_FILE_BYTES < length raw then pull_changed sf env s before current rest r
                else (let content = sy_decode env raw in
                      case cas_put (sy_blake2b env) content (pl_blobs r) of
                        None \<Rightarrow> None
                      | Some (new_blob, blobs') \<Rightarrow>
                          pull_changed sf env s before current rest
                            (r\<lparr>pl_blobs := blobs', pl_new_files := dset path
                               \<lparr>vf_blob_hash = new_blob, vf_document_version_id = sync_content_hash env content,
                                vf_is_dirty = True\<rparr> (pl_new_files r)\<rparr>))))"

fun pull_deleted ::
  "snapshot \<Rightarrow> (string, string) dict \<Rightarrow> (string, string) dict \<Rightarrow> string list \<Rightarrow> pulled \<Rightarrow> pulled" where
  "pull_deleted before current after [] r = r"
| "pull_deleted before current after (path # paths) r =
     (if dget after path \<noteq> None then pull_deleted before current after paths r
      else if bumped before current path
      then pull_deleted before current after paths (r\<lparr>pl_conflicts := pl_conflicts r @ [path]\<rparr>)
      else pull_deleted before current after paths (r\<lparr>pl_deleted := pl_deleted r @ [path]\<rparr>))"

definition pull_surface_to_vfs ::
  "'s surface \<Rightarrow> sync_env \<Rightarrow> snapshot \<Rightarrow> (string, string) dict \<Rightarrow> cas \<Rightarrow> 's \<Rightarrow> pulled option" where
  "pull_surface_to_vfs sf env before current blobs s =
     (let after = sf_hashes sf s in
      map_option (pull_deleted before current after (dkeys (ws_files before)))
        (pull_changed sf env s before current after
           \<lparr>pl_new_files = [], pl_conflicts = [], pl_deleted = [], pl_blobs = blobs\<rparr>))"

subsection \<open>The local directory\<close>

record local_fs =
  lf_base :: "string list"
  lf_files :: "(string, string) dict"

fun resolve_parts :: "string list \<Rightarrow> string list \<Rightarrow> string list" where
  "resolve_parts acc [] = acc"
| "resolve_parts acc (w # ws) =
     (if w = ''..'' then resolve_parts (butlast acc) ws else resolve_parts (acc @ [w]) ws)"

text \<open>The path below the base as its parts; \<open>None\<close> is the rejection of a traversal.\<close>

definition safe_path :: "local_fs \<Rightarrow> string \<Rightarrow> string list option" where
  "safe_path fs rel_path =
     (let rel = fwd (dropWhile (\<lambda>c. c = CHR ''/'') rel_path);
          r = resolve_parts [] ((if starts_with rel ''/'' then [] else lf_base fs) @ path_parts rel);
          n = length (lf_base fs)
      in if CHR 0x00 \<in> set rel_path then None
         else if r = lf_base fs then Some []
         else if lf_base fs \<noteq> [] \<and> take n r = lf_base fs then Some (drop n r)
         else None)"

definition path_clash :: "string \<Rightarrow> (string, string) dict \<Rightarrow> bool" where
  "path_clash key files \<longleftrightarrow>
     list_ex (\<lambda>k. starts_with k (key @ ''/'') \<or> starts_with key (k @ ''/'')) (dkeys files)"

definition local_write :: "string \<Rightarrow> string \<Rightarrow> local_fs \<Rightarrow> local_fs option" where
  "local_write rel_path content fs =
     (case safe_path fs rel_path of
        None \<Rightarrow> None
      | Some parts \<Rightarrow>
          (let key = join ''/'' parts in
           if parts = [] \<or> path_clash key (lf_files fs) then None
           else Some (fs\<lparr>lf_files := dset key content (lf_files fs)\<rparr>)))"

definition local_read :: "local_fs \<Rightarrow> string \<Rightarrow> string option option" where
  "local_read fs rel_path =
     (case safe_path fs rel_path of
        None \<Rightarrow> None
      | Some parts \<Rightarrow> Some (dget (lf_files fs) (join ''/'' parts)))"

definition local_file_hashes :: "(string \<Rightarrow> string) \<Rightarrow> local_fs \<Rightarrow> (string, string) dict" where
  "local_file_hashes sha fs = map (\<lambda>(k, c). (k, sha c)) (lf_files fs)"

definition local_surface :: "(string \<Rightarrow> string) \<Rightarrow> local_fs surface" where
  "local_surface sha = \<lparr>sf_write = local_write, sf_read = local_read, sf_hashes = local_file_hashes sha\<rparr>"

subsection \<open>The listing of a container\<close>

text \<open>\<open>line.split(None, 1)\<close> of a stripped line: the first word and the rest, if there is one.\<close>

definition split_first :: "string \<Rightarrow> (string \<times> string) option" where
  "split_first line =
     (let word = takeWhile (\<lambda>c. \<not> py_space c) line; rest = lstrip (dropWhile (\<lambda>c. \<not> py_space c) line)
      in if word = [] \<or> rest = [] then None else Some (word, rest))"

definition listed_path :: "string \<Rightarrow> string \<Rightarrow> string" where
  "listed_path prefix path_part =
     (case after_prefix prefix path_part of
        Some rel \<Rightarrow> rel
      | None \<Rightarrow>
          (case after_prefix ''./'' path_part of
             Some cleaned \<Rightarrow> or_else (after_prefix (dropWhile (\<lambda>c. c = CHR ''/'') prefix) cleaned) cleaned
           | None \<Rightarrow> path_part))"

definition parse_line :: "string \<Rightarrow> string \<Rightarrow> (string, string) dict \<Rightarrow> (string, string) dict" where
  "parse_line prefix line result =
     (case split_first (strip line) of
        None \<Rightarrow> result
      | Some (sha, part) \<Rightarrow>
          (let path_part = strip (if starts_with part ''*'' then tl part else part);
               rel = listed_path prefix path_part
           in if rel = [] then result else dset rel sha result))"

definition parse_sha256sum_output :: "string \<Rightarrow> string \<Rightarrow> (string, string) dict" where
  "parse_sha256sum_output text workdir =
     fold (parse_line (rstrip_slash workdir @ ''/'')) (splitlines text) []"

text \<open>\<open>None\<close> is an \<open>exec_run\<close> that raises; otherwise its exit code and standard output.\<close>

definition docker_file_hashes :: "string \<Rightarrow> (int \<times> string) option \<Rightarrow> (string, string) dict" where
  "docker_file_hashes workdir outcome =
     (case outcome of
        None \<Rightarrow> []
      | Some (exit_code, stdout) \<Rightarrow>
          if exit_code \<noteq> 0 \<and> stdout = [] then [] else parse_sha256sum_output stdout workdir)"

subsection \<open>Where a pull sends each path\<close>

definition changed_since :: "snapshot \<Rightarrow> string \<times> string \<Rightarrow> bool" where
  "changed_since before = (\<lambda>(path, after_hash). dget (ws_files before) path \<noteq> Some after_hash)"

definition fetched :: "'s surface \<Rightarrow> 's \<Rightarrow> string \<Rightarrow> string option" where
  "fetched sf s path =
     (if is_binary_extension path then None
      else case sf_read sf s path of
        Some (Some raw) \<Rightarrow> if MAX_SURFACE_FILE_BYTES < length raw then None else Some raw
      | _ \<Rightarrow> None)"

lemma pull_changed_spec:
  assumes "pull_changed sf env s before current xs r = Some r'" and "distinct (dkeys xs)"
    and "set (dkeys xs) \<inter> set (dkeys (pl_new_files r)) = {}"
  shows "pl_conflicts r' = pl_conflicts r
      @ dkeys (filter (\<lambda>x. changed_since before x \<and> bumped before current (fst x)) xs)
    \<and> pl_deleted r' = pl_deleted r
    \<and> (\<forall>p. map_option vf_document_version_id (dget (pl_new_files r') p) =
         (if \<exists>h. (p, h) \<in> set xs \<and> changed_since before (p, h) \<and> \<not> bumped before current p
          then map_option (sync_content_hash env \<circ> sy_decode env) (fetched sf s p)
          else map_option vf_document_version_id (dget (pl_new_files r) p)))"
  using assms
proof (induction xs arbitrary: r)
  case (Cons x xs)
  obtain path h where x: "x = (path, h)" by (cases x)
  let ?ids = "\<lambda>r p. map_option vf_document_version_id (dget (pl_new_files r) p)"
  have new: "?ids r path = None"
    using Cons.prems(3) x by (auto simp: dget_None_iff)
  have only: "(\<exists>h'. (p, h') \<in> set (x # xs) \<and> Q p h') \<longleftrightarrow> (if p = path then Q path h else \<exists>h'. (p, h') \<in> set xs \<and> Q p h')"
    for p Q
    using Cons.prems(2) x by (force simp: image_iff)
  have out: "(path, h') \<notin> set xs" for h' using Cons.prems(2) x by force
  have disj: "set (dkeys xs) \<inter> set (dkeys (pl_new_files r)) = {}" "distinct (dkeys xs)"
    using Cons.prems(2,3) by auto
  let ?kept = "pull_changed sf env s before current xs r = Some r'
      \<and> (\<not> (changed_since before x \<and> \<not> bumped before current path) \<or> fetched sf s path = None)
      \<and> \<not> (changed_since before x \<and> bumped before current path)"
  let ?conflict = "changed_since before x \<and> bumped before current path
      \<and> pull_changed sf env s before current xs (r\<lparr>pl_conflicts := pl_conflicts r @ [path]\<rparr>) = Some r'"
  let ?new = "\<exists>raw blobs' f. changed_since before x \<and> \<not> bumped before current path \<and> fetched sf s path = Some raw
      \<and> vf_document_version_id f = sync_content_hash env (sy_decode env raw)
      \<and> pull_changed sf env s before current xs
          (r\<lparr>pl_blobs := blobs', pl_new_files := dset path f (pl_new_files r)\<rparr>) = Some r'"
  have "?kept \<or> ?conflict \<or> ?new"
    using Cons.prems(1) x
    by (auto simp: changed_since_def fetched_def Let_def split: if_splits option.splits)
      (metis vfs_file.select_convs(2))
  then show ?case
  proof (elim disjE)
    assume ?kept
    then show ?thesis
      using Cons.IH [of r] disj new out x unfolding only by (auto split: if_splits)
  next
    assume ?conflict
    then show ?thesis
      using Cons.IH [of "r\<lparr>pl_conflicts := pl_conflicts r @ [path]\<rparr>"] disj new out x unfolding only
      by (auto split: if_splits)
  next
    assume ?new
    then obtain raw blobs' f where f: "changed_since before x" "\<not> bumped before current path"
        "fetched sf s path = Some raw" "vf_document_version_id f = sync_content_hash env (sy_decode env raw)"
        "pull_changed sf env s before current xs
          (r\<lparr>pl_blobs := blobs', pl_new_files := dset path f (pl_new_files r)\<rparr>) = Some r'" by blast
    have "set (dkeys xs) \<inter> set (dkeys (dset path f (pl_new_files r))) = {}"
      using disj out by (auto simp: dkeys_dset)
    with Cons.IH [OF f(5)] disj f(1-4) new out x show ?thesis
      unfolding only by (auto simp: dget_dset split: if_splits)
  qed
qed simp

lemma pull_deleted_spec:
  "pl_conflicts (pull_deleted before current after ps r) = pl_conflicts r
     @ filter (\<lambda>p. dget after p = None \<and> bumped before current p) ps
   \<and> pl_deleted (pull_deleted before current after ps r) = pl_deleted r
     @ filter (\<lambda>p. dget after p = None \<and> \<not> bumped before current p) ps
   \<and> pl_new_files (pull_deleted before current after ps r) = pl_new_files r"
  by (induction ps arbitrary: r) simp_all

lemma pull_sorting:
  assumes "pull_surface_to_vfs sf env before current blobs s = Some r" and "distinct (dkeys (sf_hashes sf s))"
  shows "pl_conflicts r = dkeys (filter (\<lambda>x. changed_since before x \<and> bumped before current (fst x)) (sf_hashes sf s))
      @ filter (\<lambda>p. dget (sf_hashes sf s) p = None \<and> bumped before current p) (dkeys (ws_files before))
    \<and> pl_deleted r = filter (\<lambda>p. dget (sf_hashes sf s) p = None \<and> \<not> bumped before current p) (dkeys (ws_files before))
    \<and> (\<forall>p. map_option vf_document_version_id (dget (pl_new_files r) p) =
         (if \<exists>h. (p, h) \<in> set (sf_hashes sf s) \<and> changed_since before (p, h) \<and> \<not> bumped before current p
          then map_option (sync_content_hash env \<circ> sy_decode env) (fetched sf s p) else None))"
proof -
  let ?r0 = "\<lparr>pl_new_files = [], pl_conflicts = [], pl_deleted = [], pl_blobs = blobs\<rparr>"
  obtain r1 where r1: "pull_changed sf env s before current (sf_hashes sf s) ?r0 = Some r1"
      and r: "r = pull_deleted before current (sf_hashes sf s) (dkeys (ws_files before)) r1"
    using assms(1) by (auto simp: pull_surface_to_vfs_def Let_def)
  have none: "dget (pl_new_files ?r0) p = None" for p by simp
  have "set (dkeys (sf_hashes sf s)) \<inter> set (dkeys (pl_new_files ?r0)) = {}" by simp
  note spec = pull_changed_spec [OF r1 assms(2) this, unfolded none option.map]
  show ?thesis
    unfolding r using spec by (simp add: pull_deleted_spec)
qed

subsection \<open>What a surface promises\<close>

definition contents_at :: "'s surface \<Rightarrow> 's \<Rightarrow> string \<Rightarrow> string option" where
  "contents_at sf s path = (case sf_read sf s path of Some (Some raw) \<Rightarrow> Some raw | _ \<Rightarrow> None)"

text \<open>Paths in the form in which a surface lists them.\<close>

definition plain_path :: "string \<Rightarrow> bool" where
  "plain_path p \<longleftrightarrow> path_parts p = split_on (CHR ''/'') p \<and> ''..'' \<notin> set (path_parts p)
     \<and> CHR 0x5C \<notin> set p \<and> CHR 0x00 \<notin> set p"

locale sync_surface =
  fixes sf :: "'s surface"
    and env :: sync_env
    and sound :: "'s \<Rightarrow> bool"
  assumes write_sound: "sound s \<Longrightarrow> plain_path p \<Longrightarrow> sf_write sf p raw s = Some s' \<Longrightarrow> sound s'"
    and write_read: "sound s \<Longrightarrow> plain_path p \<Longrightarrow> sf_write sf p raw s = Some s' \<Longrightarrow>
      contents_at sf s' p = Some raw"
    and write_other: "sound s \<Longrightarrow> plain_path p \<Longrightarrow> plain_path q \<Longrightarrow> q \<noteq> p \<Longrightarrow> sf_write sf p raw s = Some s' \<Longrightarrow>
      contents_at sf s' q = contents_at sf s q"
    and hashes_exact: "sound s \<Longrightarrow> plain_path p \<Longrightarrow>
      dget (sf_hashes sf s) p = map_option (sy_sha256 env) (contents_at sf s p)"
    and hashes_distinct: "sound s \<Longrightarrow> distinct (dkeys (sf_hashes sf s))"
begin

text \<open>A snapshot that describes a surface: every recorded file is there with its hash.\<close>

definition describes :: "snapshot \<Rightarrow> 's \<Rightarrow> bool" where
  "describes snap s \<longleftrightarrow> sound s \<and>
     (\<forall>p h. dget (ws_files snap) p = Some h \<longrightarrow>
        plain_path p \<and> map_option (sy_sha256 env) (contents_at sf s p) = Some h)"

lemma push_describes:
  assumes "describes snap s" and "list_all (plain_path \<circ> fst) files"
  shows "describes (fst (push_files sf env blobs vids files snap s)) (snd (push_files sf env blobs vids files snap s))"
  using assms
proof (induction files arbitrary: snap s)
  case (Cons x files)
  obtain path vf where x: "x = (path, vf)" by (cases x)
  show ?case
  proof (cases "cas_get blobs (vf_blob_hash vf)")
    case (Some content)
    let ?raw = "sy_encode env content"
    show ?thesis
    proof (cases "sf_write sf path ?raw s")
      case (Some s')
      from Cons.prems x have s: "sound s" "plain_path path" by (simp_all add: describes_def)
      note w = write_sound [OF s Some] write_read [OF s Some]
      have "describes \<lparr>ws_files = dset path (sy_sha256 env ?raw) (ws_files snap), ws_version_ids = ids\<rparr> s'" for ids
        using Cons.prems(1) w s write_other [OF s _ _ Some]
        by (simp add: describes_def dget_dset)
      with Cons.IH Cons.prems(2) x Some \<open>cas_get _ _ = Some content\<close> show ?thesis by (simp add: Let_def)
    qed (use Cons x Some in \<open>simp add: Let_def\<close>)
  qed (use Cons x in simp)
qed simp

lemma described_untouched:
  assumes "describes snap s" and "pull_surface_to_vfs sf env snap current blobs s = Some r"
    and p: "p \<in> set (dkeys (ws_files snap))"
  shows "p \<notin> set (pl_conflicts r)" and "p \<notin> set (pl_deleted r)" and "dget (pl_new_files r) p = None"
proof -
  have "sound s" using assms(1) by (simp add: describes_def)
  note d = hashes_distinct [OF this] and e = hashes_exact [OF this]
  obtain h where h: "dget (ws_files snap) p = Some h"
    using p by (cases "dget (ws_files snap) p") (auto simp: dget_None_iff)
  then have same: "dget (sf_hashes sf s) p = Some h"
    using assms(1) e [of p] by (simp add: describes_def)
  then have only: "(p, h') \<in> set (sf_hashes sf s) \<Longrightarrow> h' = h" for h'
    using d by (metis map_of_is_SomeI option.inject)
  have unchanged: "(p, h') \<in> set (sf_hashes sf s) \<Longrightarrow> \<not> changed_since snap (p, h')" for h'
    using only h by (simp add: changed_since_def)
  note spec = pull_sorting [OF assms(2) d]
  show "p \<notin> set (pl_conflicts r)" "p \<notin> set (pl_deleted r)"
    using spec unchanged same by auto
  show "dget (pl_new_files r) p = None"
    using spec unchanged by (metis map_option_is_None)
qed

end

text \<open>A surface on which the writes to a set of paths succeed.\<close>

locale writable_surface = sync_surface sf env sound
  for sf :: "'s surface" and env :: sync_env and sound :: "'s \<Rightarrow> bool" +
  fixes writable :: "'s \<Rightarrow> string set \<Rightarrow> bool"
  assumes writable_sound: "writable s P \<Longrightarrow> sound s"
    and writable_plain: "writable s P \<Longrightarrow> p \<in> P \<Longrightarrow> plain_path p"
    and write_succeeds: "writable s P \<Longrightarrow> p \<in> P \<Longrightarrow> \<exists>s'. sf_write sf p raw s = Some s' \<and> writable s' P"
begin

lemma push_writes_all:
  assumes "writable s P" and "list_all (\<lambda>(p, f). p \<in> P \<and> cas_get blobs (vf_blob_hash f) = Some (c p)) files"
    and "distinct (dkeys files)"
  shows "writable (snd (push_files sf env blobs vids files snap s)) P
    \<and> (\<forall>q. plain_path q \<longrightarrow> contents_at sf (snd (push_files sf env blobs vids files snap s)) q
        = (if q \<in> set (dkeys files) then Some (sy_encode env (c q)) else contents_at sf s q))"
  using assms
proof (induction files arbitrary: snap s)
  case (Cons x files)
  obtain path vf where x: "x = (path, vf)" by (cases x)
  have p: "path \<in> P" "cas_get blobs (vf_blob_hash vf) = Some (c path)" using Cons.prems x by simp_all
  obtain s1 where s1: "sf_write sf path (sy_encode env (c path)) s = Some s1" "writable s1 P"
    using write_succeeds [OF Cons.prems(1) p(1)] by blast
  note s = writable_sound [OF Cons.prems(1)] writable_plain [OF Cons.prems(1) p(1)]
  show ?case
    using Cons.IH [OF s1(2)] Cons.prems(2,3) x p s1(1) write_read [OF s s1(1)] write_other [OF s _ _ s1(1)]
    by (auto simp: Let_def)
qed simp

end

subsection \<open>The local directory keeps the promises\<close>

definition local_sound :: "local_fs \<Rightarrow> bool" where
  "local_sound fs \<longleftrightarrow> lf_base fs \<noteq> [] \<and> ''..'' \<notin> set (lf_base fs) \<and> distinct (dkeys (lf_files fs))"

lemma resolve_parts_plain: "''..'' \<notin> set ws \<Longrightarrow> resolve_parts acc ws = acc @ ws"
  by (induction ws arbitrary: acc) auto

lemma safe_path_plain:
  assumes "local_sound fs" and "plain_path p"
  shows "safe_path fs p = Some (path_parts p)"
proof -
  let ?ws = "path_parts p"
  have parts: "split_on (CHR ''/'') p = ?ws" and up: "''..'' \<notin> set ?ws" and bs: "CHR 0x5C \<notin> set p" and nul: "CHR 0x00 \<notin> set p"
    using assms(2) unfolding plain_path_def by auto
  have ne: "?ws \<noteq> []" using split_on_ne [of "CHR ''/''" p] parts by simp
  have words: "[] \<notin> set ?ws" by (simp add: path_parts_def)
  obtain c cs where p: "p = c # cs" using words parts by (cases p) (auto simp: path_parts_def)
  have c: "c \<noteq> CHR ''/''"
  proof
    assume "c = CHR ''/''"
    then have "hd ?ws = []" using p parts [symmetric] by simp
    with ne words show False by (metis list.set_sel(1))
  qed
  have rel: "fwd (dropWhile (\<lambda>c. c = CHR ''/'') p) = p"
    using p c bs by (auto simp: fwd_def intro: map_idI)
  have "resolve_parts [] (lf_base fs @ ?ws) = lf_base fs @ ?ws"
    using assms(1) up by (simp add: resolve_parts_plain local_sound_def)
  moreover have "\<not> starts_with p ''/''" using p c by (simp add: starts_with_iff)
  ultimately show ?thesis
    using ne nul assms(1) unfolding safe_path_def rel Let_def by (simp add: local_sound_def)
qed

lemma join_plain: "plain_path p \<Longrightarrow> join ''/'' (path_parts p) = p"
  using join_split_on [of "CHR ''/''" p] by (simp add: plain_path_def)

lemma local_write_plain:
  assumes "local_sound fs" and "plain_path p" and "local_write p raw fs = Some fs'"
  shows "fs' = fs\<lparr>lf_files := dset p raw (lf_files fs)\<rparr>"
  using assms by (simp add: local_write_def safe_path_plain join_plain Let_def split: if_splits)

lemma local_contents:
  assumes "local_sound fs" and "plain_path p"
  shows "contents_at (local_surface sha) fs p = dget (lf_files fs) p"
  using assms by (simp add: contents_at_def local_surface_def local_read_def safe_path_plain join_plain split: option.splits)

lemma dget_map_values: "dget (map (\<lambda>(k, c). (k, g c)) d) k = map_option g (dget d k)"
  by (induction d) auto

interpretation local_dir: sync_surface "local_surface (sy_sha256 env)" env local_sound for env
proof (unfold_locales, goal_cases)
  case (1 s p raw s')
  then show ?case
    using local_write_plain [of s p raw s'] by (auto simp: local_surface_def local_sound_def dict_simps)
next
  case (2 s p raw s')
  then have s': "s' = s\<lparr>lf_files := dset p raw (lf_files s)\<rparr>"
    by (simp add: local_surface_def local_write_plain)
  moreover have "local_sound s'" using 2(1) s' by (simp add: local_sound_def dict_simps)
  ultimately show ?case using 2(2) by (simp add: local_contents dget_dset)
next
  case (3 s p q raw s')
  then have s': "s' = s\<lparr>lf_files := dset p raw (lf_files s)\<rparr>"
    by (simp add: local_surface_def local_write_plain)
  moreover have "local_sound s'" using 3(1) s' by (simp add: local_sound_def dict_simps)
  ultimately show ?case using 3 by (simp add: local_contents dget_dset)
next
  case (4 s p)
  then show ?case
    unfolding local_contents [OF 4] by (simp add: local_surface_def local_file_hashes_def dget_map_values)
next
  case (5 s)
  then show ?case
    by (simp add: local_surface_def local_file_hashes_def local_sound_def comp_def case_prod_unfold)
qed

text \<open>Files that are there can be written again.\<close>

definition local_writable :: "local_fs \<Rightarrow> string set \<Rightarrow> bool" where
  "local_writable fs P \<longleftrightarrow> local_sound fs \<and> P \<subseteq> set (dkeys (lf_files fs)) \<and> (\<forall>p \<in> P. plain_path p)
     \<and> list_all (\<lambda>k. \<not> path_clash k (lf_files fs)) (dkeys (lf_files fs))"

interpretation local_write: writable_surface "local_surface (sy_sha256 env)" env local_sound local_writable for env
proof (unfold_locales, goal_cases)
  case (1 s P)
  then show ?case by (simp add: local_writable_def)
next
  case (2 s P p)
  then show ?case by (simp add: local_writable_def)
next
  case (3 s P p raw)
  then have p: "local_sound s" "plain_path p" "p \<in> set (dkeys (lf_files s))" "\<not> path_clash p (lf_files s)"
    by (auto simp: local_writable_def list_all_iff)
  have "path_parts p \<noteq> []"
    using p(2) split_on_ne [of "CHR ''/''" p] by (simp add: plain_path_def)
  then have w: "local_write p raw s = Some (s\<lparr>lf_files := dset p raw (lf_files s)\<rparr>)"
    using p by (simp add: local_write_def safe_path_plain join_plain Let_def)
  have keys: "dkeys (dset p raw (lf_files s)) = dkeys (lf_files s)"
    using p(3) by (simp add: dkeys_dset)
  from 3 have "local_writable (s\<lparr>lf_files := dset p raw (lf_files s)\<rparr>) P"
    unfolding local_writable_def local_sound_def path_clash_def by (simp add: keys)
  with w show ?case by (simp add: local_surface_def)
qed

subsection \<open>Properties\<close>

text \<open>
  A pull sorts the paths. When it returns, a path that changed on the surface since the
  snapshot, or vanished from it, is a conflict exactly if its current version id is greater
  than the recorded one; otherwise it is deleted if it vanished, and if it changed it is a new
  file exactly if it is not binary, readable and within the size limit, under the hash of its
  decoded content. An unchanged path is in none of the three.
\<close>

theorem pull_sorts_paths:
  assumes "pull_surface_to_vfs sf env before current blobs s = Some r" and "distinct (dkeys (sf_hashes sf s))"
  shows "pl_conflicts r = dkeys (filter (\<lambda>x. changed_since before x \<and> bumped before current (fst x)) (sf_hashes sf s))
      @ filter (\<lambda>p. dget (sf_hashes sf s) p = None \<and> bumped before current p) (dkeys (ws_files before))
    \<and> pl_deleted r = filter (\<lambda>p. dget (sf_hashes sf s) p = None \<and> \<not> bumped before current p) (dkeys (ws_files before))
    \<and> (\<forall>p. map_option vf_document_version_id (dget (pl_new_files r) p) =
         (if \<exists>h. (p, h) \<in> set (sf_hashes sf s) \<and> changed_since before (p, h) \<and> \<not> bumped before current p
          then map_option (sync_content_hash env \<circ> sy_decode env) (fetched sf s p) else None))"
  by (rule pull_sorting [OF assms])

definition sample_env :: sync_env where
  "sample_env = \<lparr>sy_sha256 = id, sy_encode = id, sy_decode = id, sy_blake2b = id\<rparr>"

definition sample_before :: snapshot where
  "sample_before =
     \<lparr>ws_files = [(''a.py'', ''x''), (''b.py'', ''x''), (''c.py'', ''x'')],
      ws_version_ids = [(''a.py'', ''1''), (''b.py'', ''1''), (''c.py'', ''1'')]\<rparr>"

definition sample_after :: local_fs where
  "sample_after =
     \<lparr>lf_base = [''w''], lf_files = [(''a.py'', ''x''), (''b.py'', ''y''), (''d.py'', ''z''), (''e.png'', ''z'')]\<rparr>"

definition sample_pull :: "pulled option" where
  "sample_pull =
     pull_surface_to_vfs (local_surface (sy_sha256 sample_env)) sample_env sample_before
       [(''a.py'', ''2''), (''b.py'', ''2'')] \<lparr>cas_store = [], cas_max_entries = 10\<rparr> sample_after"

lemma sample_bumped:
  "bumped sample_before [(''a.py'', ''2''), (''b.py'', ''2'')] p \<longleftrightarrow> p = ''a.py'' \<or> p = ''b.py''"
  by (auto simp: bumped_def sample_before_def dget_default_def split: if_splits)

lemma sample_fetch:
  "\<not> is_binary_extension ''d.py''" "is_binary_extension ''e.png''"
  "local_read sample_after ''d.py'' = Some (Some ''z'')"
  by code_simp+

lemma sample_projections:
  "ws_files sample_before = [(''a.py'', ''x''), (''b.py'', ''x''), (''c.py'', ''x'')]"
  "sf_hashes (local_surface (sy_sha256 sample_env)) sample_after =
     [(''a.py'', ''x''), (''b.py'', ''y''), (''d.py'', ''z''), (''e.png'', ''z'')]"
  "sf_read (local_surface (sy_sha256 sample_env)) sample_after ''d.py'' = Some (Some ''z'')"
  "sy_decode sample_env = id" "sy_blake2b sample_env = id"
  using sample_fetch by (simp_all add: sample_before_def sample_env_def local_surface_def)
    (simp add: local_file_hashes_def sample_after_def)

lemma sample_pull_runs: "sample_pull \<noteq> None"
  using sample_fetch
  by (simp add: sample_pull_def pull_surface_to_vfs_def cas_put_def Let_def sample_bumped sample_projections
      MAX_SURFACE_FILE_BYTES_def)

theorem pull_sorts_paths_witness:
  "\<exists>r. sample_pull = Some r
     \<and> pl_conflicts r = [''b.py''] \<and> pl_deleted r = [''c.py'']
     \<and> map_option vf_document_version_id (dget (pl_new_files r) ''d.py'') = Some ''z''
     \<and> dget (pl_new_files r) ''e.png'' = None"
proof -
  obtain r where r: "sample_pull = Some r" using sample_pull_runs by auto
  let ?h = "sf_hashes (local_surface (sy_sha256 sample_env)) sample_after"
  note h = sample_projections(2)
  have d: "distinct (dkeys ?h)" by (simp add: h)
  note spec = pull_sorts_paths [OF r [unfolded sample_pull_def] d, unfolded h]
  have hash: "sync_content_hash sample_env ''z'' = ''z''" by code_simp
  have new: "map_option vf_document_version_id (dget (pl_new_files r) ''d.py'') = Some ''z''"
    "dget (pl_new_files r) ''e.png'' = None"
    using spec [THEN conjunct2, THEN conjunct2, rule_format, of "''d.py''"]
      spec [THEN conjunct2, THEN conjunct2, rule_format, of "''e.png''"] sample_fetch
    by (simp_all add: changed_since_def sample_bumped sample_projections fetched_def MAX_SURFACE_FILE_BYTES_def hash)
  have "pl_conflicts r = [''b.py'']" "pl_deleted r = [''c.py'']"
    using spec by (simp_all add: changed_since_def sample_bumped sample_projections)
  with r new show ?thesis by (intro exI [of _ r] conjI)
qed

text \<open>
  C29. What was pushed and not touched is not pulled. After a push to a local directory, under
  paths in the form in which the directory lists them, a pull with any version ids reports
  no pushed path: not as a conflict, not as deleted and not as a new file.
\<close>

theorem pushed_files_pull_unchanged:
  assumes "local_sound fs" and "list_all (plain_path \<circ> fst) vfs_files"
    and "push_vfs_to_surface (local_surface (sy_sha256 env)) env blobs version_ids vfs_files fs = (snap, fs')"
    and "pull_surface_to_vfs (local_surface (sy_sha256 env)) env snap current blobs' fs' = Some r"
    and "p \<in> set (dkeys (ws_files snap))"
  shows "p \<notin> set (pl_conflicts r) \<and> p \<notin> set (pl_deleted r) \<and> dget (pl_new_files r) p = None"
proof -
  have "local_dir.describes env \<lparr>ws_files = [], ws_version_ids = []\<rparr> fs"
    using assms(1) by (simp add: local_dir.describes_def)
  from local_dir.push_describes [OF this assms(2), of blobs version_ids] assms(3)
  have "local_dir.describes env snap fs'" by (simp add: push_vfs_to_surface_def)
  from local_dir.described_untouched [OF this assms(4,5)] show ?thesis by simp
qed

definition sample_vfs :: "(string, vfs_file) dict" where
  "sample_vfs = [(''a.py'', \<lparr>vf_blob_hash = ''x'', vf_document_version_id = ''1'', vf_is_dirty = False\<rparr>)]"

definition sample_empty :: local_fs where "sample_empty = \<lparr>lf_base = [''w''], lf_files = []\<rparr>"

definition sample_push :: "snapshot \<times> local_fs" where
  "sample_push =
     push_vfs_to_surface (local_surface (sy_sha256 sample_env)) sample_env
       \<lparr>cas_store = [(''x'', ''x'')], cas_max_entries = 10\<rparr> [] sample_vfs sample_empty"

definition sample_repull :: "pulled option" where
  "sample_repull =
     pull_surface_to_vfs (local_surface (sy_sha256 sample_env)) sample_env (fst sample_push) [(''a.py'', ''2'')]
       \<lparr>cas_store = [], cas_max_entries = 10\<rparr> (snd sample_push)"

theorem pushed_files_pull_unchanged_witness:
  "\<exists>r. sample_repull = Some r \<and> ''a.py'' \<notin> set (pl_conflicts r) \<and> ''a.py'' \<notin> set (pl_deleted r)
     \<and> dget (pl_new_files r) ''a.py'' = None"
proof -
  have "ws_files (fst sample_push) = [(''a.py'', ''x'')] \<and> lf_files (snd sample_push) = [(''a.py'', ''x'')]"
    by code_simp
  then have push: "ws_files (fst sample_push) = [(''a.py'', ''x'')]"
      "sf_hashes (local_surface (sy_sha256 sample_env)) (snd sample_push) = [(''a.py'', ''x'')]"
    by (simp_all add: local_surface_def local_file_hashes_def sample_env_def)
  then obtain r where r: "sample_repull = Some r"
    by (simp add: sample_repull_def pull_surface_to_vfs_def Let_def)
  have "local_sound sample_empty" "list_all (plain_path \<circ> fst) sample_vfs" by code_simp+
  moreover have "sample_push = (fst sample_push, snd sample_push)" by simp
  moreover have "''a.py'' \<in> set (dkeys (ws_files (fst sample_push)))" using push by simp
  ultimately show ?thesis
    using pushed_files_pull_unchanged [OF _ _ sample_push_def [symmetric, THEN trans] r [unfolded sample_repull_def]] r
    by blast
qed

text \<open>
  A path that the directory lists under another name is recorded as it was pushed, so the pull
  reports it deleted and its file as new.
\<close>

definition dotted_push :: "snapshot \<times> local_fs" where
  "dotted_push =
     push_vfs_to_surface (local_surface (sy_sha256 sample_env)) sample_env
       \<lparr>cas_store = [(''x'', ''x'')], cas_max_entries = 10\<rparr> []
       [(''./a.py'', \<lparr>vf_blob_hash = ''x'', vf_document_version_id = ''1'', vf_is_dirty = False\<rparr>)] sample_empty"

lemma dotted_path_pulled_as_deleted:
  assumes "pull_surface_to_vfs (local_surface (sy_sha256 sample_env)) sample_env (fst dotted_push) [] blobs (snd dotted_push) = Some r"
  shows "pl_deleted r = [''./a.py'']"
proof -
  have "ws_files (fst dotted_push) = [(''./a.py'', ''x'')] \<and> ws_version_ids (fst dotted_push) = [(''./a.py'', ''1'')]
      \<and> lf_files (snd dotted_push) = [(''a.py'', ''x'')]"
    by code_simp
  then have push: "ws_files (fst dotted_push) = [(''./a.py'', ''x'')]" "ws_version_ids (fst dotted_push) = [(''./a.py'', ''1'')]"
      "sf_hashes (local_surface (sy_sha256 sample_env)) (snd dotted_push) = [(''a.py'', ''x'')]"
    by (simp_all add: local_surface_def local_file_hashes_def sample_env_def)
  then have "\<not> bumped (fst dotted_push) [] ''./a.py''" by (simp add: bumped_def dget_default_def)
  with pull_sorting [OF assms] push show ?thesis by simp
qed

lemma push_records_ids:
  assumes "push_files sf env blobs version_ids files snap s = (snap', s')"
    and "\<forall>p \<in> set (dkeys (ws_files snap)). \<not> bumped snap version_ids p"
    and "p \<in> set (dkeys (ws_files snap'))"
  shows "\<not> bumped snap' version_ids p"
  using assms
proof (induction files arbitrary: snap s)
  case (Cons x files)
  obtain path vf where x: "x = (path, vf)" by (cases x)
  show ?case
  proof (cases "cas_get blobs (vf_blob_hash vf)")
    case (Some content)
    note got = this
    show ?thesis
    proof (cases "sf_write sf path (sy_encode env content) s")
      case (Some s1)
      let ?snap = "\<lparr>ws_files = dset path (sy_sha256 env (sy_encode env content)) (ws_files snap),
        ws_version_ids = dset path (dget_default version_ids path (vf_document_version_id vf)) (ws_version_ids snap)\<rparr>"
      have step: "push_files sf env blobs version_ids files ?snap s1 = (snap', s')"
        using Cons.prems(1) x got Some by (simp add: Let_def)
      have least: "\<not> dget_default version_ids path d < dget_default version_ids path []" for d
        by (simp add: dget_default_def split: option.splits)
      have "\<not> bumped ?snap version_ids q" if "q \<in> set (dkeys (ws_files ?snap))" for q
      proof (cases "q = path")
        case True
        then show ?thesis using least by (simp add: bumped_def dget_default_dset)
      next
        case False
        then show ?thesis
          using that Cons.prems(2) by (auto simp: bumped_def dget_default_dset dkeys_dset split: if_splits)
      qed
      with Cons.IH [OF step] Cons.prems(3) show ?thesis by blast
    qed (use Cons x got in \<open>simp add: Let_def\<close>)
  qed (use Cons x in simp)
qed auto

text \<open>
  The guard sees nothing of what happened between push and pull if the ids it is given are the
  ones the push was given, as in the cell: whatever the surface holds by then, a conflict is
  then only a path that the push did not write.
\<close>

theorem own_ids_conflict_only_unpushed:
  assumes "push_vfs_to_surface sf env blobs version_ids vfs_files s = (snap, s1)"
    and "pull_surface_to_vfs sf env snap version_ids blobs' s2 = Some r"
    and "distinct (dkeys (sf_hashes sf s2))" and "p \<in> set (pl_conflicts r)"
  shows "p \<notin> set (dkeys (ws_files snap))"
proof
  assume p: "p \<in> set (dkeys (ws_files snap))"
  have "\<not> bumped snap version_ids p"
    using assms(1) p push_records_ids by (fastforce simp: push_vfs_to_surface_def)
  then show False using pull_sorting [OF assms(2,3)] assms(4) by auto
qed

end
