(* ===== verification/SearchTree.thy ===== *)
theory SearchTree
  imports Complex_Main GraphState
begin

text \<open>
  The search tree of competing edits (\<open>brain/mcts/tree.py\<close>) and the process-wide registry of its
  nodes (\<open>brain/mcts/registry.py\<close>): growing, pruning, collecting and the choice of the best
  child. The fresh ids of the code (\<open>uuid4\<close>) are arguments, a tree is known to the registry by
  the id of its top node, and numbers are exact where the code has floats.
\<close>

subsection \<open>Nodes, trees and the registry\<close>

record tree_node =
  nd_parent_id :: "string option"
  nd_vfs_view :: "(string, string) dict"
  nd_mission_state :: "mission option"
  nd_action :: "string option"
  nd_reward :: rat
  nd_visits :: int
  nd_total_value :: rat
  nd_children :: "string list"
  nd_is_pruned :: bool
  nd_is_stable :: bool
  nd_error_streak :: int

type_synonym registry = "(string, string) dict"

record search_tree =
  tr_nodes :: "(string, tree_node) dict"
  tr_root_id :: string
  tr_registry :: registry

definition fresh_node ::
  "string option \<Rightarrow> (string, string) dict \<Rightarrow> mission option \<Rightarrow> string option \<Rightarrow> tree_node" where
  "fresh_node parent view mission action =
     \<lparr>nd_parent_id = parent, nd_vfs_view = view, nd_mission_state = mission, nd_action = action,
      nd_reward = -1, nd_visits = 0, nd_total_value = 0, nd_children = [], nd_is_pruned = False,
      nd_is_stable = False, nd_error_streak = 0\<rparr>"

definition register_node :: "string \<Rightarrow> string \<Rightarrow> registry \<Rightarrow> registry" where
  "register_node node_id tree reg = dset node_id tree reg"

definition unregister_node :: "string \<Rightarrow> registry \<Rightarrow> registry" where
  "unregister_node node_id reg = AList.delete node_id reg"

definition get_tree_by_node :: "string \<Rightarrow> registry \<Rightarrow> string option" where
  "get_tree_by_node node_id reg = dget reg node_id"

definition new_tree :: "string \<Rightarrow> mission option \<Rightarrow> (string, string) dict \<Rightarrow> registry \<Rightarrow> search_tree" where
  "new_tree root_id state view reg =
     \<lparr>tr_nodes = [(root_id, fresh_node None view state None)], tr_root_id = root_id,
      tr_registry = register_node root_id root_id reg\<rparr>"

definition get_node :: "search_tree \<Rightarrow> string \<Rightarrow> tree_node option" where
  "get_node t node_id = dget (tr_nodes t) node_id"

text \<open>\<open>None\<close> is the \<open>KeyError\<close> on a parent that is not in the tree.\<close>

definition expand ::
  "string \<Rightarrow> string \<Rightarrow> string \<Rightarrow> (string, string) dict \<Rightarrow> mission option \<Rightarrow> search_tree \<Rightarrow> search_tree option" where
  "expand child_id parent_id action view state t =
     (case get_node t parent_id of
        None \<Rightarrow> None
      | Some parent \<Rightarrow>
          Some (t\<lparr>tr_nodes := dset parent_id (parent\<lparr>nd_children := nd_children parent @ [child_id]\<rparr>)
                    (dset child_id (fresh_node (Some parent_id) view state (Some action)) (tr_nodes t)),
                  tr_registry := register_node child_id (tr_root_id t) (tr_registry t)\<rparr>))"

definition mark_stable :: "string \<Rightarrow> search_tree \<Rightarrow> search_tree option" where
  "mark_stable node_id t =
     (case get_node t node_id of
        None \<Rightarrow> None
      | Some node \<Rightarrow> Some (t\<lparr>tr_nodes := dset node_id (node\<lparr>nd_is_stable := True\<rparr>) (tr_nodes t)\<rparr>))"

subsection \<open>Pruning\<close>

text \<open>The loop over the stack; the top of the stack is the head of the list.\<close>

definition unpruned :: "(string, tree_node) dict \<Rightarrow> nat" where
  "unpruned nodes = length (filter (\<lambda>x. \<not> nd_is_pruned (snd x)) nodes)"

definition pruned_node :: "tree_node \<Rightarrow> tree_node" where
  "pruned_node node = node\<lparr>nd_is_pruned := True, nd_vfs_view := []\<rparr>"

lemma unpruned_dset:
  "dget nodes k = Some node \<Longrightarrow> \<not> nd_is_pruned node \<Longrightarrow>
     Suc (unpruned (dset k (pruned_node node) nodes)) = unpruned nodes"
  by (induction nodes) (auto simp: unpruned_def pruned_node_def)

function prune_loop ::
  "string list \<Rightarrow> (string, tree_node) dict \<Rightarrow> registry \<Rightarrow> nat \<Rightarrow> (string, tree_node) dict \<times> registry \<times> nat" where
  "prune_loop [] nodes reg n = (nodes, reg, n)"
| "prune_loop (current_id # stack) nodes reg n =
     (case dget nodes current_id of
        None \<Rightarrow> prune_loop stack nodes reg n
      | Some node \<Rightarrow>
          if nd_is_pruned node then prune_loop stack nodes reg n
          else prune_loop (rev (nd_children node) @ stack) (dset current_id (pruned_node node) nodes)
                 (unregister_node current_id reg) (Suc n))"
  by pat_completeness auto
termination
  by (relation "inv_image (less_than <*lex*> less_than) (\<lambda>(stack, nodes, _). (unpruned nodes, length stack))")
    (auto dest: unpruned_dset)

definition prune_branch :: "string \<Rightarrow> search_tree \<Rightarrow> search_tree \<times> nat" where
  "prune_branch node_id t =
     (if get_node t node_id = None then (t, 0)
      else (case prune_loop [node_id] (tr_nodes t) (tr_registry t) 0 of
              (nodes, reg, n) \<Rightarrow> (t\<lparr>tr_nodes := nodes, tr_registry := reg\<rparr>, n)))"

definition gc_pruned :: "search_tree \<Rightarrow> search_tree \<times> nat" where
  "gc_pruned t =
     (let doomed = (\<lambda>(nid, node). nd_is_pruned node \<and> nid \<noteq> tr_root_id t)
      in (t\<lparr>tr_nodes := filter (\<lambda>x. \<not> doomed x) (tr_nodes t)\<rparr>, length (filter doomed (tr_nodes t))))"

subsection \<open>The best child\<close>

definition ucb_score :: "real \<Rightarrow> real \<Rightarrow> tree_node \<Rightarrow> real" where
  "ucb_score c log_parent child =
     real_of_rat (nd_total_value child) / real_of_int (nd_visits child)
       + c * sqrt (log_parent / real_of_int (nd_visits child))"

text \<open>The best child so far and its score; \<open>None\<close> is the score of minus infinity.\<close>

fun best_loop ::
  "(string, tree_node) dict \<Rightarrow> (tree_node \<Rightarrow> real) \<Rightarrow> string list \<Rightarrow> (string \<times> real) option \<Rightarrow> (string \<times> real) option" where
  "best_loop nodes score [] best = best"
| "best_loop nodes score (child_id # ids) best =
     (case dget nodes child_id of
        None \<Rightarrow> best_loop nodes score ids best
      | Some child \<Rightarrow>
          if nd_is_pruned child \<or> nd_visits child \<le> 0 then best_loop nodes score ids best
          else (case best of
                  None \<Rightarrow> best_loop nodes score ids (Some (child_id, score child))
                | Some (_, best_score) \<Rightarrow>
                    if best_score < score child then best_loop nodes score ids (Some (child_id, score child))
                    else best_loop nodes score ids best))"

definition select_best_child :: "search_tree \<Rightarrow> string \<Rightarrow> real \<Rightarrow> (string option) option" where
  "select_best_child t parent_id c =
     (case get_node t parent_id of
        None \<Rightarrow> None
      | Some parent \<Rightarrow>
          if nd_visits parent \<le> 0 then Some None
          else Some (map_option fst
                 (best_loop (tr_nodes t) (ucb_score c (ln (real_of_int (nd_visits parent)))) (nd_children parent) None)))"

subsection \<open>What a prune reaches\<close>

definition is_live :: "(string, tree_node) dict \<Rightarrow> string \<Rightarrow> bool" where
  "is_live nodes k \<longleftrightarrow> (case dget nodes k of None \<Rightarrow> False | Some node \<Rightarrow> \<not> nd_is_pruned node)"

definition child_edges :: "(string, tree_node) dict \<Rightarrow> (string \<times> string) set" where
  "child_edges nodes = {(a, b). \<exists>node. dget nodes a = Some node \<and> \<not> nd_is_pruned node \<and> b \<in> set (nd_children node)}"

definition reached :: "(string, tree_node) dict \<Rightarrow> string list \<Rightarrow> string set" where
  "reached nodes stack = {k. is_live nodes k \<and> (\<exists>s \<in> set stack. (s, k) \<in> (child_edges nodes)\<^sup>*)}"

lemma reach_avoiding:
  assumes "(s, k) \<in> E\<^sup>*" and "k \<noteq> x" and "E' = {(a, b) \<in> E. a \<noteq> x}"
  shows "(s, k) \<in> E'\<^sup>* \<or> (\<exists>c. (x, c) \<in> E \<and> (c, k) \<in> E'\<^sup>*)"
  using assms(1,2)
proof (induction rule: rtrancl_induct)
  case (step y z)
  show ?case
  proof (cases "y = x")
    case True
    with step.hyps(2) show ?thesis by auto
  next
    case False
    with step.hyps(2) assms(3) have "(y, z) \<in> E'" by simp
    with step.IH [OF False] show ?thesis by (meson rtrancl.rtrancl_into_rtrancl)
  qed
qed simp

lemma reached_pop_dead: "\<not> is_live nodes x \<Longrightarrow> reached nodes (x # stack) = reached nodes stack"
proof -
  assume dead: "\<not> is_live nodes x"
  then have "(x, y) \<notin> child_edges nodes" for y
    by (auto simp: child_edges_def is_live_def)
  then have "(x, k) \<in> (child_edges nodes)\<^sup>* \<Longrightarrow> k = x" for k
    by (auto elim: converse_rtranclE)
  with dead show ?thesis by (auto simp: reached_def)
qed

lemma reached_prune:
  assumes "dget nodes x = Some node" and "\<not> nd_is_pruned node"
  shows "reached nodes (x # stack) = insert x (reached (dset x (pruned_node node) nodes) (rev (nd_children node) @ stack))"
    and "x \<notin> reached (dset x (pruned_node node) nodes) stack'"
proof -
  let ?n = "dset x (pruned_node node) nodes"
  have edges: "child_edges ?n = {(a, b) \<in> child_edges nodes. a \<noteq> x}"
    by (auto simp: child_edges_def dget_dset pruned_node_def split: if_splits)
  have live: "is_live ?n k \<longleftrightarrow> is_live nodes k \<and> k \<noteq> x" for k
    by (simp add: is_live_def dget_dset pruned_node_def)
  show "x \<notin> reached ?n stack'" by (simp add: reached_def live)
  have kids: "(x, c) \<in> child_edges nodes \<longleftrightarrow> c \<in> set (nd_children node)" for c
    using assms by (simp add: child_edges_def)
  have sub: "(a, b) \<in> (child_edges ?n)\<^sup>* \<Longrightarrow> (a, b) \<in> (child_edges nodes)\<^sup>*" for a b
    using rtrancl_mono [of "child_edges ?n" "child_edges nodes"] by (auto simp: edges)
  have x: "is_live nodes x" using assms by (simp add: is_live_def)
  show "reached nodes (x # stack) = insert x (reached ?n (rev (nd_children node) @ stack))"
  proof (intro set_eqI iffI)
    fix k
    assume "k \<in> reached nodes (x # stack)"
    then obtain s where k: "is_live nodes k" and s: "s = x \<or> s \<in> set stack" "(s, k) \<in> (child_edges nodes)\<^sup>*"
      by (auto simp: reached_def)
    show "k \<in> insert x (reached ?n (rev (nd_children node) @ stack))"
    proof (cases "k = x")
      case False
      from reach_avoiding [OF s(2) False edges]
      consider "(s, k) \<in> (child_edges ?n)\<^sup>*" | c where "c \<in> set (nd_children node)" "(c, k) \<in> (child_edges ?n)\<^sup>*"
        using kids by blast
      then show ?thesis
      proof cases
        case 1
        with s(1) False have "s \<in> set stack"
          by (auto simp: edges elim: converse_rtranclE)
        with 1 k False show ?thesis by (auto simp: reached_def live)
      next
        case 2
        with k False show ?thesis by (auto simp: reached_def live)
      qed
    qed simp
  next
    fix k
    assume "k \<in> insert x (reached ?n (rev (nd_children node) @ stack))"
    then show "k \<in> reached nodes (x # stack)"
    proof (elim insertE)
      assume "k \<in> reached ?n (rev (nd_children node) @ stack)"
      then obtain s where k: "is_live nodes k" and s: "s \<in> set (nd_children node) \<union> set stack"
          "(s, k) \<in> (child_edges nodes)\<^sup>*"
        using sub by (auto simp: reached_def live)
      from s(1) have "s \<in> set stack \<or> (x, s) \<in> child_edges nodes" using kids by blast
      with s(2) have "\<exists>s \<in> set (x # stack). (s, k) \<in> (child_edges nodes)\<^sup>*"
        by (meson converse_rtrancl_into_rtrancl list.set_intros)
      with k show ?thesis by (simp add: reached_def)
    qed (use x in \<open>auto simp: reached_def\<close>)
  qed
qed

lemma finite_reached [simp]: "finite (reached nodes stack)"
proof -
  have "reached nodes stack \<subseteq> set (dkeys nodes)"
    by (auto simp: reached_def is_live_def split: option.splits dest: map_of_SomeD intro: rev_image_eqI)
  then show ?thesis by (rule finite_subset) simp
qed

lemma prune_loop_spec:
  assumes "prune_loop stack nodes reg n = (nodes', reg', n')"
  shows "(\<forall>k. dget nodes' k = (if k \<in> reached nodes stack then map_option pruned_node (dget nodes k) else dget nodes k))
    \<and> (\<forall>k. dget reg' k = (if k \<in> reached nodes stack then None else dget reg k))
    \<and> n' = n + card (reached nodes stack) \<and> dkeys nodes' = dkeys nodes"
  using assms
proof (induction stack nodes reg n rule: prune_loop.induct)
  case (1 nodes reg n)
  then show ?case by (simp add: reached_def)
next
  case (2 x stack nodes reg n)
  show ?case
  proof (cases "is_live nodes x")
    case False
    then have "prune_loop (x # stack) nodes reg n = prune_loop stack nodes reg n"
      by (simp add: is_live_def split: option.splits)
    with 2 False show ?thesis
      by (cases "dget nodes x") (simp_all add: reached_pop_dead is_live_def)
  next
    case True
    then obtain node where node: "dget nodes x = Some node" "\<not> nd_is_pruned node"
      by (auto simp: is_live_def split: option.splits)
    let ?n = "dset x (pruned_node node) nodes"
    let ?s = "rev (nd_children node) @ stack"
    have step: "prune_loop ?s ?n (unregister_node x reg) (Suc n) = (nodes', reg', n')"
      using "2.prems" node by simp
    have keys: "dkeys ?n = dkeys nodes"
      using node(1) by (simp add: dkeys_dset) (metis image_eqI fst_conv map_of_SomeD)
    have old: "x \<notin> reached ?n ?s" by (rule reached_prune(2) [OF node])
    show ?thesis
      using "2.IH"(3) [OF node step] old
      unfolding reached_prune(1) [OF node] keys
      by (auto simp: dget_dset node unregister_node_def delete_conv' keys)
  qed
qed

declare map_of_eq_Some_iff [simp del] Some_eq_map_of_iff [simp del]

subsection \<open>Well-formed trees\<close>

text \<open>
  The trees the operations produce while other trees own the entries \<open>others\<close> of the registry;
  an operation that raises leaves the tree as it was.
\<close>

inductive tree_run :: "registry \<Rightarrow> search_tree \<Rightarrow> bool" for others where
  start: "dget others root_id = None \<Longrightarrow> tree_run others (new_tree root_id state view others)"
| expands: "tree_run others t \<Longrightarrow> get_node t child_id = None \<Longrightarrow> dget others child_id = None \<Longrightarrow>
    expand child_id parent_id action view state t = Some t' \<Longrightarrow> tree_run others t'"
| prunes: "tree_run others t \<Longrightarrow> tree_run others (fst (prune_branch node_id t))"
| collects: "tree_run others t \<Longrightarrow> tree_run others (fst (gc_pruned t))"
| marks: "tree_run others t \<Longrightarrow> mark_stable node_id t = Some t' \<Longrightarrow> tree_run others t'"

definition tree_ok :: "registry \<Rightarrow> search_tree \<Rightarrow> bool" where
  "tree_ok others t \<longleftrightarrow>
     (\<forall>k. get_tree_by_node k (tr_registry t)
        = (if is_live (tr_nodes t) k then Some (tr_root_id t) else dget others k))
     \<and> (\<forall>k. get_node t k \<noteq> None \<longrightarrow> dget others k = None)
     \<and> (\<forall>k node. get_node t k = Some node \<longrightarrow> nd_is_pruned node \<longrightarrow> nd_vfs_view node = [])
     \<and> get_node t (tr_root_id t) \<noteq> None \<and> distinct (dkeys (tr_nodes t))"

lemmas tree_ok_simps = tree_ok_def get_node_def get_tree_by_node_def is_live_def

lemma is_live_dset: "is_live (dset k node nodes) j \<longleftrightarrow> (if j = k then \<not> nd_is_pruned node else is_live nodes j)"
  by (simp add: is_live_def dget_dset)

lemma reached_live: "k \<in> reached nodes stack \<Longrightarrow> is_live nodes k"
  by (simp add: reached_def)

lemma tree_ok_prune:
  assumes "tree_ok others t"
  shows "tree_ok others (fst (prune_branch node_id t))"
proof (cases "get_node t node_id")
  case (Some _)
  obtain nodes reg n where loop: "prune_loop [node_id] (tr_nodes t) (tr_registry t) 0 = (nodes, reg, n)"
    by (metis prod_cases3)
  note spec = prune_loop_spec [OF this]
  have t': "fst (prune_branch node_id t) = t\<lparr>tr_nodes := nodes, tr_registry := reg\<rparr>"
    using Some loop by (simp add: prune_branch_def)
  have live: "is_live nodes k \<longleftrightarrow> is_live (tr_nodes t) k \<and> k \<notin> reached (tr_nodes t) [node_id]" for k
    using spec by (auto simp: is_live_def pruned_node_def split: option.splits)
  have "dget others k = None" if "k \<in> reached (tr_nodes t) [node_id]" for k
    using reached_live [OF that] assms by (auto simp: tree_ok_simps split: option.splits)
  with assms spec show ?thesis
    unfolding t' tree_ok_def
    by (auto simp: live get_node_def get_tree_by_node_def pruned_node_def split: if_splits)
qed (use assms in \<open>simp add: prune_branch_def\<close>)

lemma dget_filter:
  "distinct (dkeys d) \<Longrightarrow> dget (filter P d) k = (case dget d k of None \<Rightarrow> None | Some v \<Rightarrow> if P (k, v) then Some v else None)"
  by (induction d) (auto simp: dget_None_iff split: option.splits dest: map_of_SomeD)

lemma tree_ok_gc:
  assumes "tree_ok others t"
  shows "tree_ok others (fst (gc_pruned t))"
proof -
  have d: "distinct (dkeys (tr_nodes t))" using assms by (simp add: tree_ok_def)
  let ?keep = "\<lambda>x. \<not> (case x of (nid, node) \<Rightarrow> nd_is_pruned node \<and> nid \<noteq> tr_root_id t)"
  have t': "fst (gc_pruned t) = t\<lparr>tr_nodes := filter ?keep (tr_nodes t)\<rparr>"
    by (simp add: gc_pruned_def Let_def)
  have "is_live (filter ?keep (tr_nodes t)) k \<longleftrightarrow> is_live (tr_nodes t) k" for k
    by (simp add: is_live_def dget_filter [OF d] split: option.splits)
  with assms show ?thesis
    unfolding t' tree_ok_def
    by (auto simp: get_node_def dget_filter [OF d] distinct_map_filter split: option.splits if_splits)
qed

lemma tree_ok_expand:
  assumes ok: "tree_ok others t" and fresh: "get_node t child_id = None" "dget others child_id = None"
    and step: "expand child_id parent_id action view state t = Some t'"
  shows "tree_ok others t'"
proof -
  obtain parent where parent: "get_node t parent_id = Some parent"
    using step by (auto simp: expand_def split: option.splits)
  let ?parent = "parent\<lparr>nd_children := nd_children parent @ [child_id]\<rparr>"
  let ?child = "fresh_node (Some parent_id) view state (Some action)"
  have t': "t' = t\<lparr>tr_nodes := dset parent_id ?parent (dset child_id ?child (tr_nodes t)),
      tr_registry := dset child_id (tr_root_id t) (tr_registry t)\<rparr>"
    using step parent by (simp add: expand_def register_node_def)
  have node: "get_node t' k = (if k = parent_id then Some ?parent else if k = child_id then Some ?child else get_node t k)" for k
    by (simp add: t' get_node_def dget_dset)
  have ne: "parent_id \<noteq> child_id" using parent fresh by auto
  have live: "is_live (tr_nodes t') k \<longleftrightarrow> k = child_id \<or> is_live (tr_nodes t) k" for k
    using parent ne node [of k] by (simp add: is_live_def get_node_def fresh_node_def)
  have root: "tr_root_id t' = tr_root_id t" by (simp add: t')
  have "get_tree_by_node k (tr_registry t') = (if is_live (tr_nodes t') k then Some (tr_root_id t') else dget others k)" for k
    using ok unfolding live root by (simp add: tree_ok_def t' get_tree_by_node_def dget_dset)
  moreover have "dget others k = None" if "get_node t' k \<noteq> None" for k
    using that ok fresh parent unfolding node tree_ok_def by (metis option.distinct(1))
  moreover have "nd_vfs_view n = []" if "get_node t' k = Some n" "nd_is_pruned n" for k n
  proof (cases "k = parent_id")
    case True
    with that have "n = ?parent" by (simp add: node)
    with that(2) ok parent show ?thesis by (simp add: tree_ok_def)
  next
    case False
    with that ok show ?thesis by (auto simp: node tree_ok_def fresh_node_def split: if_splits)
  qed
  moreover have "get_node t' (tr_root_id t') \<noteq> None"
    using ok unfolding node root by (simp add: tree_ok_def)
  moreover have "distinct (dkeys (tr_nodes t'))"
    using ok by (simp add: t' tree_ok_def distinct_dset)
  ultimately show ?thesis unfolding tree_ok_def by blast
qed

lemma tree_ok_update:
  assumes ok: "tree_ok others t" and old: "get_node t x = Some node"
    and same: "nd_is_pruned node' = nd_is_pruned node" "nd_vfs_view node' = nd_vfs_view node"
  shows "tree_ok others (t\<lparr>tr_nodes := dset x node' (tr_nodes t)\<rparr>)"
proof -
  let ?t = "t\<lparr>tr_nodes := dset x node' (tr_nodes t)\<rparr>"
  have node: "get_node ?t k = (if k = x then Some node' else get_node t k)" for k
    by (simp add: get_node_def dget_dset)
  have live: "is_live (dset x node' (tr_nodes t)) k \<longleftrightarrow> is_live (tr_nodes t) k" for k
    using old same(1) node [of k] by (simp add: is_live_def get_node_def)
  show ?thesis
    using ok old same unfolding tree_ok_def node
    by (auto simp: live distinct_dset split: if_splits)
qed

lemma tree_run_ok: "tree_run others t \<Longrightarrow> tree_ok others t"
proof (induction rule: tree_run.induct)
  case (start root_id state view)
  then show ?case
    by (auto simp: tree_ok_simps new_tree_def fresh_node_def register_node_def dget_dset)
next
  case (expands t child_id parent_id action view state t')
  then show ?case by (simp add: tree_ok_expand)
next
  case (marks t node_id t')
  then obtain node where "get_node t node_id = Some node"
      "t' = t\<lparr>tr_nodes := dset node_id (node\<lparr>nd_is_stable := True\<rparr>) (tr_nodes t)\<rparr>"
    by (auto simp: mark_stable_def split: option.splits)
  with tree_ok_update [OF marks.IH] show ?case by simp
qed (simp_all add: tree_ok_prune tree_ok_gc)

subsection \<open>The first child of maximal score\<close>

definition eligible :: "(string, tree_node) dict \<Rightarrow> string \<Rightarrow> bool" where
  "eligible nodes k \<longleftrightarrow>
     (case dget nodes k of None \<Rightarrow> False | Some node \<Rightarrow> \<not> nd_is_pruned node \<and> 0 < nd_visits node)"

definition first_max :: "('a::linorder) list \<Rightarrow> nat \<Rightarrow> bool" where
  "first_max xs i \<longleftrightarrow> i < length xs \<and> (\<forall>j < length xs. xs ! j \<le> xs ! i) \<and> (\<forall>j < i. xs ! j < xs ! i)"

lemma first_max_snoc:
  assumes "first_max xs i"
  shows "first_max (xs @ [x]) (if xs ! i < x then length xs else i)"
  using assms by (auto simp: first_max_def nth_append less_Suc_eq)

lemma first_max_strict_mono:
  assumes "strict_mono f"
  shows "first_max (map f xs) i \<longleftrightarrow> first_max xs i"
  using assms by (auto simp: first_max_def strict_mono_less strict_mono_less_eq)

lemma first_max_unique: "first_max xs i \<Longrightarrow> first_max xs j \<Longrightarrow> i = j"
  unfolding first_max_def by (metis linorder_neqE_nat not_less)

lemma best_loop_append: "best_loop nodes score (xs @ ys) b = best_loop nodes score ys (best_loop nodes score xs b)"
  by (induction xs arbitrary: b) (auto split: option.splits)

lemma best_loop_eligible:
  "best_loop nodes score xs b = best_loop nodes score (filter (eligible nodes) xs) b"
  by (induction xs arbitrary: b) (auto simp: eligible_def split: option.splits)

lemma best_loop_first_max:
  assumes "xs \<noteq> []" and "list_all (eligible nodes) xs"
  shows "\<exists>i. first_max (map (\<lambda>k. score (the (dget nodes k))) xs) i
    \<and> best_loop nodes score xs None = Some (xs ! i, score (the (dget nodes (xs ! i))))"
  using assms
proof (induction xs rule: rev_nonempty_induct)
  case (single x)
  then show ?case by (auto simp: eligible_def first_max_def split: option.splits)
next
  case (snoc x xs)
  let ?f = "\<lambda>k. score (the (dget nodes k))"
  obtain i where i: "first_max (map ?f xs) i" "best_loop nodes score xs None = Some (xs ! i, ?f (xs ! i))"
    using snoc by auto
  then have "i < length xs" by (simp add: first_max_def)
  with first_max_snoc [OF i(1), of "?f x"] i(2) snoc.prems show ?case
    by (intro exI [of _ "if ?f (xs ! i) < ?f x then length xs else i"])
      (auto simp: best_loop_append eligible_def nth_append split: option.splits)
qed

text \<open>
  C32. The tree stays well formed. After any run of expansions under fresh ids, prunes,
  collections and marks, the registry maps an id to the tree exactly if it is a live node of
  it, the entries of other trees are as they were, a pruned node holds no view of the files,
  and the top node is still there.
\<close>

theorem tree_stays_well_formed:
  assumes "tree_run others t"
  shows "(\<forall>k. get_tree_by_node k (tr_registry t)
        = (if is_live (tr_nodes t) k then Some (tr_root_id t) else dget others k))
    \<and> (\<forall>k. is_live (tr_nodes t) k \<longrightarrow> dget others k = None)
    \<and> (\<forall>k node. get_node t k = Some node \<longrightarrow> nd_is_pruned node \<longrightarrow> nd_vfs_view node = [])
    \<and> get_node t (tr_root_id t) \<noteq> None"
  using tree_run_ok [OF assms] by (auto simp: tree_ok_def get_node_def is_live_def split: option.splits)

definition sample_tree :: search_tree where
  "sample_tree =
     (let t = new_tree ''r'' None [(''a.py'', ''h'')] [(''z'', ''z'')];
          t1 = the (expand ''x'' ''r'' ''fix'' [(''a.py'', ''i'')] None t);
          t2 = the (expand ''y'' ''x'' ''fix'' [(''a.py'', ''j'')] None t1)
      in fst (gc_pruned (fst (prune_branch ''x'' t2))))"

theorem tree_stays_well_formed_witness:
  "get_tree_by_node ''r'' (tr_registry sample_tree) = Some ''r''
    \<and> get_tree_by_node ''y'' (tr_registry sample_tree) = None
    \<and> get_tree_by_node ''z'' (tr_registry sample_tree) = Some ''z''"
proof -
  let ?t = "new_tree ''r'' None [(''a.py'', ''h'')] [(''z'', ''z'')]"
  let ?t1 = "the (expand ''x'' ''r'' ''fix'' [(''a.py'', ''i'')] None ?t)"
  let ?t2 = "the (expand ''y'' ''x'' ''fix'' [(''a.py'', ''j'')] None ?t1)"
  have t: "tree_run [(''z'', ''z'')] ?t" by (rule start) simp
  have e1: "expand ''x'' ''r'' ''fix'' [(''a.py'', ''i'')] None ?t = Some ?t1" "get_node ?t ''x'' = None"
    by code_simp+
  have t1: "tree_run [(''z'', ''z'')] ?t1" by (rule expands [OF t e1(2) _ e1(1)]) simp
  have e2: "expand ''y'' ''x'' ''fix'' [(''a.py'', ''j'')] None ?t1 = Some ?t2" "get_node ?t1 ''y'' = None"
    by code_simp+
  have t2: "tree_run [(''z'', ''z'')] ?t2" by (rule expands [OF t1 e2(2) _ e2(1)]) simp
  have run: "tree_run [(''z'', ''z'')] sample_tree"
    unfolding sample_tree_def Let_def by (rule collects [OF prunes [OF t2]])
  have live: "is_live (tr_nodes sample_tree) ''r''" "\<not> is_live (tr_nodes sample_tree) ''y''"
      "\<not> is_live (tr_nodes sample_tree) ''z''" "tr_root_id sample_tree = ''r''"
    by code_simp+
  show ?thesis using tree_stays_well_formed [OF run] live by simp
qed

text \<open>
  Pruning reaches exactly the live part of the branch. The nodes marked and stripped of
  their view are those that are live and can be reached from the node through live ones,
  whatever the shape of the child lists; all others are untouched, the pruned ones leave the
  registry, and the returned count is their number. The loop ends on cyclic lists too.
\<close>

theorem prune_branch_exact:
  "get_node (fst (prune_branch node_id t)) k
     = (if k \<in> reached (tr_nodes t) [node_id] then map_option pruned_node (get_node t k) else get_node t k)
   \<and> get_tree_by_node k (tr_registry (fst (prune_branch node_id t)))
     = (if k \<in> reached (tr_nodes t) [node_id] then None else get_tree_by_node k (tr_registry t))
   \<and> snd (prune_branch node_id t) = card (reached (tr_nodes t) [node_id])"
proof (cases "get_node t node_id")
  case None
  then have "reached (tr_nodes t) [node_id] = {}"
    using reached_pop_dead [of "tr_nodes t" node_id "[]"]
    by (simp add: is_live_def get_node_def) (simp add: reached_def)
  with None show ?thesis by (simp add: prune_branch_def)
next
  case (Some _)
  obtain nodes reg n where loop: "prune_loop [node_id] (tr_nodes t) (tr_registry t) 0 = (nodes, reg, n)"
    by (metis prod_cases3)
  with Some prune_loop_spec [OF loop] show ?thesis
    by (simp add: prune_branch_def get_node_def get_tree_by_node_def)
qed

text \<open>
  The choice of the best child is the first of maximal score. For a visited parent the
  result is one of its children that are present, unpruned and visited, no such child has a
  greater UCB1 score and no earlier one an equal score; there is a result exactly if there is
  such a child.
\<close>

lemma best_child_step:
  assumes "get_node t parent_id = Some parent" and "0 < nd_visits parent"
  shows "let ids = filter (eligible (tr_nodes t)) (nd_children parent);
             score = (\<lambda>k. ucb_score c (ln (real_of_int (nd_visits parent))) (the (get_node t k)))
         in if ids = [] then select_best_child t parent_id c = Some None
            else \<exists>i. first_max (map score ids) i \<and> select_best_child t parent_id c = Some (Some (ids ! i))"
proof (cases "filter (eligible (tr_nodes t)) (nd_children parent) = []")
  case True
  with assms show ?thesis
    by (simp add: select_best_child_def best_loop_eligible [of _ _ "nd_children parent"] Let_def)
next
  case False
  have "list_all (eligible (tr_nodes t)) (filter (eligible (tr_nodes t)) (nd_children parent))"
    by (simp add: list_all_iff)
  from best_loop_first_max [OF False this, of "ucb_score c (ln (real_of_int (nd_visits parent)))"] False assms
  show ?thesis
    by (auto simp: select_best_child_def best_loop_eligible [of _ _ "nd_children parent"] Let_def get_node_def)
qed

end
