(* ===== verification/Dispatch.thy ===== *)
theory Dispatch
  imports Budget
begin

text \<open>
  The dispatch of subagents: the contracts (\<open>brain/subagent_contracts.py\<close>), admission, waves and
  rounds (\<open>brain/dispatch.py\<close>) with the cost estimate of \<open>brain/dispatch_ledger.py\<close>, the emitter
  (\<open>brain/dispatch_emitter.py\<close>), the envelope a worker ends with
  (\<open>brain/nodes/subagent_worker_node.py\<close>) and the synthesis
  (\<open>brain/nodes/dispatch_synthesize_node.py\<close>). The channels the subgraph touches are the record
  \<open>dispatch_state\<close>; a node returns the state with its delta merged (results append, cost adds).
  The ceilings come from the environment variables and are fields of \<open>dispatch_env\<close>, with the
  defaults of \<open>shared/config.py\<close> in \<open>default_limits\<close>.
\<close>

subsection \<open>Contracts\<close>

record response_field =
  rf_name :: string
  rf_type :: string
  rf_description :: string

record subagent_task =
  sa_task_id :: string
  sa_description :: string
  sa_role :: string
  sa_fields :: "response_field list"
  sa_context_refs :: "string list"
  sa_max_iterations :: int

record dispatch_plan =
  pl_pattern :: string
  pl_tasks :: "subagent_task list"
  pl_synthesis_instruction :: string
  pl_depth :: int

datatype env_status = env_ok | env_error | env_budget_exhausted | env_denied

record envelope =
  en_task_id :: string
  en_status :: env_status
  en_structured_result :: "json option"
  en_raw_digest :: string
  en_cost_usd :: rat
  en_iterations_used :: nat
  en_error_message :: "string option"

record batch_result =
  ba_batch_id :: string
  ba_pattern :: string
  ba_results :: "envelope list"
  ba_total_cost_usd :: rat
  ba_winner_task_id :: "string option"

definition MAX_OBSERVATION_CHARS :: nat where "MAX_OBSERVATION_CHARS = 4000"

definition FIELD_TYPES :: "string list" where
  "FIELD_TYPES = [''str'', ''int'', ''float'', ''bool'', ''list_str'']"

definition SUBAGENT_ROLES :: "string list" where
  "SUBAGENT_ROLES = [''core_dev'', ''architect_refactor'', ''devops_infra'', ''secops'', ''qa_tester'',
     ''doc_manager'', ''vcs_manager'', ''data_ml_engineer'', ''analyst_readonly'']"

definition DISPATCH_PATTERNS :: "string list" where
  "DISPATCH_PATTERNS = [''classify_and_act'', ''fanout_and_synthesize'', ''adversarial_verification'',
     ''generate_and_filter'', ''tournament'', ''loop_until_done'']"

definition MAX_DESCRIPTION_CHARS :: nat where "MAX_DESCRIPTION_CHARS = 4000"

text \<open>What pydantic accepts; a value of the wrong type is rejected like one out of bounds.\<close>

definition subagent_task_valid :: "subagent_task \<Rightarrow> bool" where
  "subagent_task_valid t \<longleftrightarrow>
     length (sa_description t) \<le> 4000 \<and> sa_role t \<in> set SUBAGENT_ROLES
     \<and> 1 \<le> length (sa_fields t) \<and> length (sa_fields t) \<le> 8
     \<and> list_all (\<lambda>f. rf_type f \<in> set FIELD_TYPES) (sa_fields t)
     \<and> length (sa_context_refs t) \<le> 20 \<and> 1 \<le> sa_max_iterations t \<and> sa_max_iterations t \<le> 8"

definition dispatch_plan_valid :: "dispatch_plan \<Rightarrow> bool" where
  "dispatch_plan_valid p \<longleftrightarrow>
     pl_pattern p \<in> set DISPATCH_PATTERNS
     \<and> 1 \<le> length (pl_tasks p) \<and> length (pl_tasks p) \<le> 32 \<and> list_all subagent_task_valid (pl_tasks p)
     \<and> length (pl_synthesis_instruction p) \<le> 2000 \<and> 0 \<le> pl_depth p \<and> pl_depth p \<le> 2"

definition envelope_valid :: "envelope \<Rightarrow> bool" where
  "envelope_valid e \<longleftrightarrow> length (en_raw_digest e) \<le> MAX_OBSERVATION_CHARS"

subsection \<open>Channels and environment\<close>

datatype admission = admit | admission_denied | admission_budget_exhausted

record dispatch_state =
  ds_task_id :: string
  ds_plan :: "dispatch_plan option"
  ds_depth :: nat
  ds_wave_count :: nat
  ds_round_count :: nat
  ds_reserved_usd :: rat
  ds_reserved_round :: "int option"
  ds_admission :: "admission option"
  ds_results :: "envelope list"
  ds_consumed :: nat
  ds_return_node :: "string option"
  ds_current_cost_usd :: rat
  ds_max_budget_usd :: "rat option"
  ds_batch_result :: "batch_result option"

record dispatch_env =
  dv_max_concurrent :: nat
  dv_max_depth :: nat
  dv_max_width :: nat
  dv_max_rounds :: nat
  dv_count_tokens :: "string \<Rightarrow> nat"
  dv_usd_in :: rat
  dv_usd_out :: rat
  dv_uuid :: "dispatch_state \<Rightarrow> string"
  dv_validation_error :: "dispatch_plan option \<Rightarrow> string"
  dv_context_budget :: nat

text \<open>The configuration clamps each ceiling from below.\<close>

definition limits_ok :: "dispatch_env \<Rightarrow> bool" where
  "limits_ok dv \<longleftrightarrow> 1 \<le> dv_max_concurrent dv \<and> 1 \<le> dv_max_width dv \<and> 1 \<le> dv_max_rounds dv"

definition default_limits :: "dispatch_env \<Rightarrow> dispatch_env" where
  "default_limits dv = dv\<lparr>dv_max_concurrent := 4, dv_max_depth := 2, dv_max_width := 32,
     dv_max_rounds := 3\<rparr>"

subsection \<open>The cost estimate\<close>

definition estimate_task_cost :: "dispatch_env \<Rightarrow> subagent_task \<Rightarrow> rat" where
  "estimate_task_cost dv task =
     (let field_shape = join '' '' (map (\<lambda>f. rf_name f @ '':'' @ rf_type f) (sa_fields task));
          seed = ''You are the '' @ [CHR 0x27] @ sa_role task @ [CHR 0x27] @ '' subagent. Task:''
            @ [CHR 0x0A] @ sa_description task @ [CHR 0x0A, CHR 0x0A]
            @ ''Return a structured result with fields: '' @ field_shape;
          max_iters = max 1 (sa_max_iterations task);
          per_iteration = estimate_iteration_cost (dv_count_tokens dv) (dv_usd_in dv) (dv_usd_out dv)
            [seed] []
      in per_iteration * of_int max_iters)"

definition estimate_wave_cost :: "dispatch_env \<Rightarrow> subagent_task list \<Rightarrow> rat" where
  "estimate_wave_cost dv tasks = sum_list (map (estimate_task_cost dv) tasks)"

subsection \<open>Admission\<close>

definition SUBAGENT_WORKER_NODE :: string where "SUBAGENT_WORKER_NODE = ''subagent_worker''"
definition DISPATCH_ORIGIN_NODE :: string where "DISPATCH_ORIGIN_NODE = ''dispatch_origin''"
definition DISPATCH_FANOUT_NODE :: string where "DISPATCH_FANOUT_NODE = ''dispatch_fanout''"
definition DISPATCH_GATE_NODE :: string where "DISPATCH_GATE_NODE = ''dispatch_gate''"
definition DISPATCH_ADVANCE_NODE :: string where "DISPATCH_ADVANCE_NODE = ''dispatch_advance''"
definition DISPATCH_SYNTHESIZE_NODE :: string where "DISPATCH_SYNTHESIZE_NODE = ''dispatch_synthesize''"
definition DEFAULT_RETURN_NODE :: string where "DEFAULT_RETURN_NODE = ''step_dispatch''"
definition RETURN_NODES :: "string list" where "RETURN_NODES = [DEFAULT_RETURN_NODE, ''planner_agent'']"
definition MULTI_ROUND_PATTERNS :: "string list" where
  "MULTI_ROUND_PATTERNS = [''adversarial_verification'', ''loop_until_done'']"

text \<open>One payload per task of the wave: the task and the depth one level further down.\<close>

definition build_dispatch_sends :: "dispatch_env \<Rightarrow> dispatch_plan \<Rightarrow> dispatch_state \<Rightarrow> (dispatch_state \<times> subagent_task) list" where
  "build_dispatch_sends dv plan base =
     (if dv_max_depth dv \<le> ds_depth base then []
      else (let wave = ds_wave_count base; cap = dv_max_concurrent dv;
                wave_tasks = take cap (drop (wave * cap) (pl_tasks plan))
            in map (\<lambda>task. (base\<lparr>ds_depth := ds_depth base + 1\<rparr>, task)) wave_tasks))"

definition denied_envelopes :: "dispatch_env \<Rightarrow> subagent_task list \<Rightarrow> env_status \<Rightarrow> string \<Rightarrow> envelope list" where
  "denied_envelopes dv raw_tasks status message =
     map (\<lambda>raw. \<lparr>en_task_id = sa_task_id raw, en_status = status, en_structured_result = None,
        en_raw_digest = [], en_cost_usd = 0, en_iterations_used = 0, en_error_message = Some message\<rparr>)
       (take (dv_max_width dv) raw_tasks)"

definition refuse :: "dispatch_env \<Rightarrow> dispatch_state \<Rightarrow> admission \<Rightarrow> env_status \<Rightarrow> string \<Rightarrow> dispatch_state" where
  "refuse dv state verdict status message =
     state\<lparr>ds_admission := Some verdict,
           ds_results := ds_results state @ denied_envelopes dv
             (case ds_plan state of None \<Rightarrow> [] | Some p \<Rightarrow> pl_tasks p) status message\<rparr>"

definition dispatch_origin :: "dispatch_env \<Rightarrow> dispatch_state \<Rightarrow> dispatch_state" where
  "dispatch_origin dv state =
     (case ds_plan state of
        None \<Rightarrow> refuse dv state admission_denied env_denied
          (''invalid dispatch plan: '' @ dv_validation_error dv None)
      | Some plan \<Rightarrow>
          if \<not> dispatch_plan_valid plan
          then refuse dv state admission_denied env_denied
            (''invalid dispatch plan: '' @ dv_validation_error dv (Some plan))
          else if dv_max_depth dv \<le> ds_depth state \<or> dv_max_width dv < length (pl_tasks plan)
          then refuse dv state admission_denied env_denied ''dispatch depth/width ceiling exceeded''
          else (let round_count = ds_round_count state;
                    reserved_round = or_else (ds_reserved_round state) (-1)
                in if ds_wave_count state \<noteq> 0 \<or> int round_count \<le> reserved_round
                      \<or> (case ds_max_budget_usd state of None \<Rightarrow> False | Some b \<Rightarrow> b \<le> 0)
                   then state\<lparr>ds_admission := Some admit\<rparr>
                   else (case reserve_dispatch_budget (ds_task_id state) (dv_uuid dv state)
                                (estimate_wave_cost dv (pl_tasks plan)) (ds_current_cost_usd state)
                                (ds_max_budget_usd state) of
                           None \<Rightarrow> refuse dv state admission_budget_exhausted env_budget_exhausted
                             ''dispatch budget exhausted''
                         | Some reservation \<Rightarrow>
                             state\<lparr>ds_admission := Some admit,
                               ds_current_cost_usd := ds_current_cost_usd state + dr_reserved_usd reservation,
                               ds_reserved_usd := ds_reserved_usd state + dr_reserved_usd reservation,
                               ds_reserved_round := Some (int round_count)\<rparr>)))"

definition route_after_admission :: "dispatch_state \<Rightarrow> string" where
  "route_after_admission state =
     (if ds_admission state = Some admit then DISPATCH_FANOUT_NODE else DISPATCH_SYNTHESIZE_NODE)"

definition dispatch_fanout :: "dispatch_state \<Rightarrow> dispatch_state" where
  "dispatch_fanout state = state"

definition dispatch_router :: "dispatch_env \<Rightarrow> dispatch_state \<Rightarrow> (dispatch_state \<times> subagent_task) list" where
  "dispatch_router dv state =
     (case ds_plan state of None \<Rightarrow> [] | Some plan \<Rightarrow> build_dispatch_sends dv plan state)"

subsection \<open>Waves and rounds\<close>

definition dispatch_gate :: "dispatch_state \<Rightarrow> dispatch_state" where
  "dispatch_gate state = state\<lparr>ds_wave_count := ds_wave_count state + 1\<rparr>"

definition budget_exhausted :: "dispatch_state \<Rightarrow> bool" where
  "budget_exhausted state =
     (case ds_max_budget_usd state of
        None \<Rightarrow> False
      | Some max_budget \<Rightarrow> if max_budget \<le> 0 then False else max_budget \<le> ds_current_cost_usd state)"

definition fresh_results :: "dispatch_state \<Rightarrow> envelope list" where
  "fresh_results state = drop (ds_consumed state) (ds_results state)"

definition loop_done :: "dispatch_state \<Rightarrow> bool" where
  "loop_done state =
     list_ex (\<lambda>e. case en_structured_result e of Some (JObj d) \<Rightarrow> truthy (jget d ''done'') | _ \<Rightarrow> False)
       (fresh_results state)"

definition plan_pattern :: "dispatch_state \<Rightarrow> string" where
  "plan_pattern state = (case ds_plan state of None \<Rightarrow> [] | Some p \<Rightarrow> pl_pattern p)"

definition pattern_needs_another_round :: "dispatch_env \<Rightarrow> dispatch_state \<Rightarrow> bool" where
  "pattern_needs_another_round dv state =
     (let pattern = plan_pattern state in
      if pattern \<notin> set MULTI_ROUND_PATTERNS then False
      else if dv_max_rounds dv \<le> ds_round_count state \<or> budget_exhausted state then False
      else if pattern = ''adversarial_verification'' then ds_round_count state = 0
      else \<not> loop_done state)"

definition route_after_workers :: "dispatch_env \<Rightarrow> dispatch_state \<Rightarrow> string" where
  "route_after_workers dv state =
     (let total = (case ds_plan state of None \<Rightarrow> 0 | Some p \<Rightarrow> length (pl_tasks p)) in
      if ds_wave_count state * dv_max_concurrent dv < total then DISPATCH_ORIGIN_NODE
      else if pattern_needs_another_round dv state then DISPATCH_ADVANCE_NODE
      else DISPATCH_SYNTHESIZE_NODE)"

definition build_critic_plan :: "dispatch_env \<Rightarrow> dispatch_state \<Rightarrow> dispatch_plan option \<Rightarrow> dispatch_plan" where
  "build_critic_plan dv state raw_plan =
     (let digest = take MAX_OBSERVATION_CHARS (join [CHR 0x0A, CHR 0x0A]
            (map (\<lambda>r. ''['' @ en_task_id r @ ''] '' @ en_raw_digest r) (fresh_results state)));
          description = take MAX_DESCRIPTION_CHARS
            (''You are an adversarial verifier. Critically review the producer outputs ''
             @ ''below and return a verdict on whether they are acceptable.'' @ [CHR 0x0A, CHR 0x0A] @ digest)
      in \<lparr>pl_pattern = ''adversarial_verification'',
          pl_tasks = [\<lparr>sa_task_id = dv_uuid dv state, sa_description = description,
             sa_role = ''analyst_readonly'',
             sa_fields = [\<lparr>rf_name = ''verdict'', rf_type = ''str'',
                            rf_description = ''justification for the ruling''\<rparr>,
                          \<lparr>rf_name = ''passed'', rf_type = ''bool'',
                            rf_description = ''true if producer outputs are acceptable''\<rparr>],
             sa_context_refs = [], sa_max_iterations = 1\<rparr>],
          pl_synthesis_instruction =
            (case raw_plan of None \<Rightarrow> [] | Some p \<Rightarrow> pl_synthesis_instruction p),
          pl_depth = (case raw_plan of None \<Rightarrow> 0 | Some p \<Rightarrow> pl_depth p)\<rparr>)"

text \<open>Reached with a plan only, so the follow-up of an absent plan stays absent.\<close>

definition dispatch_advance :: "dispatch_env \<Rightarrow> dispatch_state \<Rightarrow> dispatch_state" where
  "dispatch_advance dv state =
     state\<lparr>ds_plan := (if plan_pattern state = ''adversarial_verification''
                        then Some (build_critic_plan dv state (ds_plan state)) else ds_plan state),
           ds_wave_count := 0, ds_round_count := ds_round_count state + 1\<rparr>"

definition route_after_synthesis :: "dispatch_state \<Rightarrow> string" where
  "route_after_synthesis state =
     (let recorded = str_or (ds_return_node state) [] in
      if recorded \<notin> set RETURN_NODES then DEFAULT_RETURN_NODE else recorded)"

subsection \<open>Synthesis\<close>

definition WINNER_PATTERNS :: "string list" where
  "WINNER_PATTERNS = [''tournament'', ''generate_and_filter'']"

text \<open>\<open>score\<close> as a number; a boolean is not one here.\<close>

definition score_of :: "envelope \<Rightarrow> rat option" where
  "score_of e =
     (case en_structured_result e of
        Some (JObj d) \<Rightarrow> (case jget d ''score'' of JBool _ \<Rightarrow> None | v \<Rightarrow> as_number v)
      | _ \<Rightarrow> None)"

definition select_winner :: "envelope list \<Rightarrow> string option" where
  "select_winner results =
     (let oks = filter (\<lambda>e. en_status e = env_ok) results;
          best = fold (\<lambda>e acc. case score_of e of
              None \<Rightarrow> acc
            | Some score \<Rightarrow> (case acc of
                None \<Rightarrow> Some (score, en_task_id e)
              | Some (best_score, _) \<Rightarrow> if best_score < score then Some (score, en_task_id e) else acc))
            oks None
      in case best of
           Some (_, best_id) \<Rightarrow> Some best_id
         | None \<Rightarrow> (case oks of [] \<Rightarrow> None | e # _ \<Rightarrow> Some (en_task_id e)))"

fun pack_results :: "nat \<Rightarrow> nat \<Rightarrow> envelope list \<Rightarrow> envelope list \<Rightarrow> envelope list" where
  "pack_results char_ceiling used packed [] = packed"
| "pack_results char_ceiling used packed (e # es) =
     (let digest_len = length (en_raw_digest e) in
      if packed \<noteq> [] \<and> char_ceiling < used + digest_len then packed
      else if envelope_valid e then pack_results char_ceiling (used + digest_len) (packed @ [e]) es
      else pack_results char_ceiling used packed es)"

text \<open>Four characters per token and half of the parent's window.\<close>

definition digest_ceiling :: "dispatch_env \<Rightarrow> nat" where
  "digest_ceiling dv = dv_context_budget dv * 2"

definition dispatch_synthesize :: "dispatch_env \<Rightarrow> dispatch_state \<Rightarrow> dispatch_state" where
  "dispatch_synthesize dv state =
     (let raw_results = fresh_results state; pattern = plan_pattern state;
          total_cost = sum_list (map en_cost_usd raw_results);
          packed = pack_results (digest_ceiling dv) 0 [] raw_results;
          winner = (if pattern \<in> set WINNER_PATTERNS then select_winner raw_results else None);
          batch = \<lparr>ba_batch_id = dv_uuid dv state, ba_pattern = pattern, ba_results = packed,
            ba_total_cost_usd = total_cost, ba_winner_task_id = winner\<rparr>;
          reserved = ds_reserved_usd state;
          refund = (if 0 < reserved
            then commit_dispatch_actual \<lparr>dr_task_id = ds_task_id state, dr_batch_id = ba_batch_id batch,
                   dr_reserved_usd = reserved\<rparr> total_cost else 0)
      in state\<lparr>ds_batch_result := Some batch, ds_consumed := length (ds_results state), ds_plan := None,
               ds_current_cost_usd := ds_current_cost_usd state - refund,
               ds_reserved_usd := (if 0 < reserved then 0 else reserved)\<rparr>)"

subsection \<open>Emission\<close>

definition fresh_dispatch_channels :: "dispatch_plan \<Rightarrow> string \<Rightarrow> dispatch_state \<Rightarrow> dispatch_state" where
  "fresh_dispatch_channels plan return_node state =
     state\<lparr>ds_plan := Some plan, ds_return_node := Some return_node, ds_wave_count := 0,
           ds_round_count := 0, ds_reserved_usd := 0, ds_reserved_round := Some (-1),
           ds_admission := None\<rparr>"

definition synthetic_plan :: dispatch_plan where
  "synthetic_plan = \<lparr>pl_pattern = ''fanout_and_synthesize'',
     pl_tasks = [\<lparr>sa_task_id = ''debug-dispatch-1'',
       sa_description = ''Synthetic dispatch task (AILIENANT_DISPATCH_DEBUG).'',
       sa_role = ''analyst_readonly'',
       sa_fields = [\<lparr>rf_name = ''summary'', rf_type = ''str'', rf_description = ''one line''\<rparr>],
       sa_context_refs = [], sa_max_iterations = 1\<rparr>],
     pl_synthesis_instruction = ''Summarize the subagent findings.'', pl_depth = 0\<rparr>"

text \<open>
  \<open>hook\<close> is the injected function, when there is one: it may fail (\<open>None\<close>) or give no plan.
\<close>

definition maybe_emit_dispatch ::
  "bool \<Rightarrow> bool \<Rightarrow> (dispatch_state \<Rightarrow> dispatch_plan option option) option \<Rightarrow> string \<Rightarrow> dispatch_state \<Rightarrow> dispatch_state" where
  "maybe_emit_dispatch enabled debug hook return_node state =
     (if \<not> enabled then state
      else (let candidate = (case hook of None \<Rightarrow> None | Some f \<Rightarrow> or_else (f state) None);
                candidate = (if candidate = None \<and> debug then Some synthetic_plan else candidate)
            in case candidate of
                 None \<Rightarrow> state
               | Some plan \<Rightarrow>
                   if dispatch_plan_valid plan then fresh_dispatch_channels plan return_node state
                   else state))"

subsection \<open>One worker\<close>

definition type_check :: "string \<Rightarrow> json \<Rightarrow> bool" where
  "type_check ty v =
     (if ty = ''str'' then (case v of JStr _ \<Rightarrow> True | _ \<Rightarrow> False)
      else if ty = ''int'' then (case v of JInt _ \<Rightarrow> True | _ \<Rightarrow> False)
      else if ty = ''float'' then (case v of JInt _ \<Rightarrow> True | JFloat _ \<Rightarrow> True | _ \<Rightarrow> False)
      else if ty = ''bool'' then (case v of JBool _ \<Rightarrow> True | _ \<Rightarrow> False)
      else if ty = ''list_str''
      then (case v of JArr xs \<Rightarrow> list_all (\<lambda>x. case x of JStr _ \<Rightarrow> True | _ \<Rightarrow> False) xs | _ \<Rightarrow> False)
      else True)"

fun first_violation :: "(string, json) dict \<Rightarrow> response_field list \<Rightarrow> string option" where
  "first_violation d [] = None"
| "first_violation d (f # fs) =
     (case dget d (rf_name f) of
        None \<Rightarrow> Some (''missing field '' @ [CHR 0x27] @ rf_name f @ [CHR 0x27])
      | Some v \<Rightarrow> if type_check (rf_type f) v then first_violation d fs
                  else Some (''field '' @ [CHR 0x27] @ rf_name f @ [CHR 0x27] @ '' is not of type '' @ rf_type f))"

definition validate_against_schema :: "json \<Rightarrow> subagent_task \<Rightarrow> string option" where
  "validate_against_schema result task =
     (case result of
        JObj d \<Rightarrow> first_violation d (sa_fields task)
      | _ \<Rightarrow> Some ''structured result is not an object'')"

text \<open>
  What the guarded part of a worker comes to: the observations gathered before it ended, the
  number of tool calls, the metered cost and either an exception or the answer.
\<close>

record worker_run =
  wr_observations :: "string list"
  wr_trace_len :: nat
  wr_cost :: rat
  wr_answer :: "string + json"

definition worker_digest :: "string list \<Rightarrow> string" where
  "worker_digest observations =
     (let raw_digest = join [CHR 0x0A, CHR 0x0A] observations in
      if MAX_OBSERVATION_CHARS < length raw_digest
      then take MAX_OBSERVATION_CHARS raw_digest @ [CHR 0x0A, CHR 0x85] @ ''[truncated]''
      else raw_digest)"

text \<open>The envelope is built outside the guarded part: what pydantic refuses there is raised.\<close>

definition subagent_worker ::
  "(subagent_task \<Rightarrow> string) \<Rightarrow> (subagent_task \<Rightarrow> worker_run) \<Rightarrow> subagent_task \<Rightarrow> string + envelope" where
  "subagent_worker invalid run task =
     (if \<not> subagent_task_valid task
      then Inr \<lparr>en_task_id = sa_task_id task, en_status = env_error, en_structured_result = None,
        en_raw_digest = [], en_cost_usd = 0, en_iterations_used = 0,
        en_error_message = Some (''invalid dispatch task: '' @ invalid task)\<rparr>
      else (let r = run task;
                (status, err) = (case wr_answer r of
                    Inl exc \<Rightarrow> (env_error, Some exc)
                  | Inr answer \<Rightarrow> (case validate_against_schema answer task of
                      None \<Rightarrow> (env_ok, None)
                    | Some reason \<Rightarrow> (env_error, Some (''response_schema violation: '' @ reason))));
                e = \<lparr>en_task_id = sa_task_id task, en_status = status,
                  en_structured_result = (if status = env_ok then (case wr_answer r of Inr a \<Rightarrow> Some a | Inl _ \<Rightarrow> None)
                                          else None),
                  en_raw_digest = worker_digest (wr_observations r), en_cost_usd = wr_cost r,
                  en_iterations_used = wr_trace_len r, en_error_message = err\<rparr>
            in if envelope_valid e then Inr e
               else Inl ''ValidationError: raw_digest longer than max_length''))"

subsection \<open>The subgraph\<close>

text \<open>The branches of one wave, joined; an exception of any of them fails the step.\<close>

fun run_wave :: "(dispatch_state \<times> subagent_task \<Rightarrow> string + envelope) \<Rightarrow> (dispatch_state \<times> subagent_task) list
    \<Rightarrow> string + envelope list" where
  "run_wave worker [] = Inr []"
| "run_wave worker (send # sends) =
     (case worker send of
        Inl e \<Rightarrow> Inl e
      | Inr env \<Rightarrow> (case run_wave worker sends of Inl e \<Rightarrow> Inl e | Inr envs \<Rightarrow> Inr (env # envs)))"

text \<open>
  The edges of \<open>_wire_dynamic_dispatch\<close>, with fuel for the loop over waves and rounds;
  \<open>dispatch_terminates\<close> shows how much is enough.
\<close>

fun dispatch_run ::
  "dispatch_env \<Rightarrow> (dispatch_state \<times> subagent_task \<Rightarrow> string + envelope) \<Rightarrow> nat \<Rightarrow> dispatch_state
   \<Rightarrow> (string + dispatch_state) option" where
  "dispatch_run dv worker 0 state = None"
| "dispatch_run dv worker (Suc fuel) state =
     (let s1 = dispatch_origin dv state in
      if route_after_admission s1 \<noteq> DISPATCH_FANOUT_NODE then Some (Inr (dispatch_synthesize dv s1))
      else (case run_wave worker (dispatch_router dv (dispatch_fanout s1)) of
              Inl e \<Rightarrow> Some (Inl e)
            | Inr envs \<Rightarrow>
                (let s2 = dispatch_gate (s1\<lparr>ds_results := ds_results s1 @ envs\<rparr>);
                     verdict = route_after_workers dv s2
                 in if verdict = DISPATCH_ORIGIN_NODE then dispatch_run dv worker fuel s2
                    else if verdict = DISPATCH_ADVANCE_NODE
                    then dispatch_run dv worker fuel (dispatch_advance dv s2)
                    else Some (Inr (dispatch_synthesize dv s2)))))"

subsection \<open>Lemmas on admission and settlement\<close>

lemma refuse_fields [simp]:
  "ds_plan (refuse dv s v st m) = ds_plan s" "ds_wave_count (refuse dv s v st m) = ds_wave_count s"
  "ds_round_count (refuse dv s v st m) = ds_round_count s"
  "ds_current_cost_usd (refuse dv s v st m) = ds_current_cost_usd s"
  "ds_reserved_usd (refuse dv s v st m) = ds_reserved_usd s"
  "ds_max_budget_usd (refuse dv s v st m) = ds_max_budget_usd s"
  "ds_admission (refuse dv s v st m) = Some v"
  by (simp_all add: refuse_def)

text \<open>The four ways through the admission gate.\<close>

lemma origin_cases:
  obtains (refused) v st m where "dispatch_origin dv s = refuse dv s v st m" "v \<noteq> admit"
  | (unmetered) p where "ds_plan s = Some p" "dispatch_plan_valid p" "ds_depth s < dv_max_depth dv"
      "length (pl_tasks p) \<le> dv_max_width dv" "dispatch_origin dv s = s\<lparr>ds_admission := Some admit\<rparr>"
  | (reserved) p r where "ds_plan s = Some p" "dispatch_plan_valid p" "ds_depth s < dv_max_depth dv"
      "length (pl_tasks p) \<le> dv_max_width dv" "0 \<le> r"
      "case ds_max_budget_usd s of None \<Rightarrow> True | Some b \<Rightarrow> ds_current_cost_usd s + r \<le> b"
      "dispatch_origin dv s = s\<lparr>ds_admission := Some admit,
         ds_current_cost_usd := ds_current_cost_usd s + r, ds_reserved_usd := ds_reserved_usd s + r,
         ds_reserved_round := Some (int (ds_round_count s))\<rparr>"
proof (cases "ds_plan s")
  case None
  show ?thesis by (rule refused [of admission_denied]) (auto simp: dispatch_origin_def None)
next
  case (Some p)
  show ?thesis
  proof (cases "dispatch_plan_valid p \<and> ds_depth s < dv_max_depth dv
      \<and> length (pl_tasks p) \<le> dv_max_width dv")
    case False
    then obtain m where "dispatch_origin dv s = refuse dv s admission_denied env_denied m"
      by (cases "dispatch_plan_valid p") (auto simp: dispatch_origin_def Some)
    then show ?thesis by (rule refused) simp
  next
    case True
    let ?est = "estimate_wave_cost dv (pl_tasks p)"
    let ?res = "reserve_dispatch_budget (ds_task_id s) (dv_uuid dv s) ?est (ds_current_cost_usd s)
      (ds_max_budget_usd s)"
    let ?skip = "ds_wave_count s \<noteq> 0 \<or> int (ds_round_count s) \<le> or_else (ds_reserved_round s) (-1)
      \<or> (case ds_max_budget_usd s of None \<Rightarrow> False | Some b \<Rightarrow> b \<le> 0)"
    have origin: "dispatch_origin dv s =
        (if ?skip then s\<lparr>ds_admission := Some admit\<rparr>
         else (case ?res of
            None \<Rightarrow> refuse dv s admission_budget_exhausted env_budget_exhausted ''dispatch budget exhausted''
          | Some r \<Rightarrow> s\<lparr>ds_admission := Some admit,
              ds_current_cost_usd := ds_current_cost_usd s + dr_reserved_usd r,
              ds_reserved_usd := ds_reserved_usd s + dr_reserved_usd r,
              ds_reserved_round := Some (int (ds_round_count s))\<rparr>))"
      using True by (simp add: dispatch_origin_def Some Let_def)
    show ?thesis
    proof (cases ?skip)
      case True
      with origin \<open>dispatch_plan_valid p \<and> _ \<and> _\<close> Some show ?thesis
        by (intro unmetered [of p]) simp_all
    next
      case skip: False
      show ?thesis
      proof (cases ?res)
        case None
        with origin skip show ?thesis by (intro refused [of admission_budget_exhausted]) auto
      next
        case (Some r)
        then have "0 \<le> dr_reserved_usd r"
          "case ds_max_budget_usd s of None \<Rightarrow> True | Some b \<Rightarrow> ds_current_cost_usd s + dr_reserved_usd r \<le> b"
          by (auto simp: reserve_dispatch_budget_def Let_def split: if_splits option.splits)
        with origin skip Some True \<open>ds_plan s = Some p\<close> show ?thesis
          by (intro reserved [of p "dr_reserved_usd r"]) simp_all
      qed
    qed
  qed
qed

lemma origin_fields:
  "ds_plan (dispatch_origin dv s) = ds_plan s \<and> ds_wave_count (dispatch_origin dv s) = ds_wave_count s
   \<and> ds_round_count (dispatch_origin dv s) = ds_round_count s
   \<and> ds_max_budget_usd (dispatch_origin dv s) = ds_max_budget_usd s"
  by (rule origin_cases [of dv s]) simp_all

lemma origin_admits:
  assumes "route_after_admission (dispatch_origin dv s) = DISPATCH_FANOUT_NODE"
  obtains p where "ds_plan s = Some p" "dispatch_plan_valid p"
  using assms
  by (rule_tac origin_cases [of dv s])
    (auto simp: route_after_admission_def DISPATCH_FANOUT_NODE_def DISPATCH_SYNTHESIZE_NODE_def)

text \<open>The spend net of what is reserved, which only synthesis turns into real spend.\<close>

definition net_cost :: "dispatch_state \<Rightarrow> rat" where
  "net_cost s = ds_current_cost_usd s - ds_reserved_usd s"

definition within_budget :: "dispatch_state \<Rightarrow> bool" where
  "within_budget s = (case ds_max_budget_usd s of None \<Rightarrow> True | Some b \<Rightarrow> ds_current_cost_usd s \<le> b)"

lemma origin_budget:
  assumes "0 \<le> ds_reserved_usd s"
  shows "net_cost (dispatch_origin dv s) = net_cost s \<and> 0 \<le> ds_reserved_usd (dispatch_origin dv s)
    \<and> (within_budget s \<longrightarrow> within_budget (dispatch_origin dv s))"
  using assms
  by (rule_tac origin_cases [of dv s])
    (auto simp: net_cost_def within_budget_def split: option.splits)

lemma advance_fields [simp]:
  "ds_current_cost_usd (dispatch_advance dv s) = ds_current_cost_usd s"
  "ds_reserved_usd (dispatch_advance dv s) = ds_reserved_usd s"
  "ds_max_budget_usd (dispatch_advance dv s) = ds_max_budget_usd s"
  "ds_round_count (dispatch_advance dv s) = ds_round_count s + 1"
  "ds_wave_count (dispatch_advance dv s) = 0"
  by (simp_all add: dispatch_advance_def)

lemma gate_fields [simp]:
  "ds_plan (dispatch_gate s) = ds_plan s" "ds_round_count (dispatch_gate s) = ds_round_count s"
  "ds_wave_count (dispatch_gate s) = ds_wave_count s + 1"
  "ds_current_cost_usd (dispatch_gate s) = ds_current_cost_usd s"
  "ds_reserved_usd (dispatch_gate s) = ds_reserved_usd s"
  "ds_max_budget_usd (dispatch_gate s) = ds_max_budget_usd s"
  by (simp_all add: dispatch_gate_def)

text \<open>Synthesis settles the reservation against the metered cost and closes the dispatch.\<close>

definition settled :: "dispatch_state \<Rightarrow> dispatch_state \<Rightarrow> bool" where
  "settled s t \<longleftrightarrow>
     ds_plan t = None \<and> ds_consumed t = length (ds_results t) \<and> ds_reserved_usd t = 0
     \<and> (\<exists>batch reserved. ds_batch_result t = Some batch \<and> 0 \<le> reserved
          \<and> ds_current_cost_usd t = net_cost s + min reserved (max 0 (ba_total_cost_usd batch)))
     \<and> (within_budget s \<longrightarrow> within_budget t)"

lemma commit_min:
  "0 < r \<Longrightarrow> r - commit_dispatch_actual \<lparr>dr_task_id = a, dr_batch_id = b, dr_reserved_usd = r\<rparr> c = min r (max 0 c)"
  by (simp add: commit_dispatch_actual_def Let_def min_def max_def)

lemma commit_nonneg: "0 \<le> commit_dispatch_actual d c \<or> dr_reserved_usd d < 0"
  by (auto simp: commit_dispatch_actual_def Let_def min_def max_def)

lemma synthesize_settles:
  assumes "0 \<le> ds_reserved_usd s"
  shows "settled s (dispatch_synthesize dv s)"
proof -
  let ?t = "dispatch_synthesize dv s"
  let ?cost = "sum_list (map en_cost_usd (fresh_results s))"
  have fields: "ds_plan ?t = None" "ds_consumed ?t = length (ds_results ?t)"
      "ds_max_budget_usd ?t = ds_max_budget_usd s"
    by (simp_all add: dispatch_synthesize_def Let_def)
  obtain batch where batch: "ds_batch_result ?t = Some batch" "ba_total_cost_usd batch = ?cost"
    by (simp add: dispatch_synthesize_def Let_def)
  have reserved: "ds_reserved_usd ?t = 0"
    using assms by (simp add: dispatch_synthesize_def Let_def)
  have cost: "ds_current_cost_usd ?t = net_cost s + min (ds_reserved_usd s) (max 0 ?cost)"
  proof (cases "0 < ds_reserved_usd s")
    case True
    show ?thesis
      using commit_min [OF True, of "ds_task_id s" "dv_uuid dv s" ?cost] True
      by (simp add: dispatch_synthesize_def net_cost_def Let_def)
  next
    case False
    with assms show ?thesis by (simp add: dispatch_synthesize_def net_cost_def Let_def)
  qed
  moreover have "min (ds_reserved_usd s) (max 0 ?cost) \<le> ds_reserved_usd s" by simp
  ultimately have "ds_current_cost_usd ?t \<le> ds_current_cost_usd s"
    unfolding net_cost_def by linarith
  then have "within_budget s \<longrightarrow> within_budget ?t"
    using fields by (auto simp: within_budget_def split: option.splits)
  with fields batch reserved cost assms show ?thesis by (auto simp: settled_def)
qed

lemma settled_transfer:
  "settled s' t \<Longrightarrow> net_cost s' = net_cost s \<Longrightarrow> (within_budget s \<longrightarrow> within_budget s') \<Longrightarrow> settled s t"
  by (auto simp: settled_def)

subsection \<open>Lemmas on the loop\<close>

text \<open>The state after a wave, as the gate leaves it.\<close>

definition after_wave :: "dispatch_env \<Rightarrow> dispatch_state \<Rightarrow> envelope list \<Rightarrow> dispatch_state" where
  "after_wave dv s envs =
     (let s1 = dispatch_origin dv s in dispatch_gate (s1\<lparr>ds_results := ds_results s1 @ envs\<rparr>))"

text \<open>Room left: the rounds still allowed, then the tasks of this round not yet sent.\<close>

definition room :: "dispatch_env \<Rightarrow> dispatch_state \<Rightarrow> nat" where
  "room dv s =
     (dv_max_rounds dv - ds_round_count s) * 33
     + (case ds_plan s of
          None \<Rightarrow> 0
        | Some p \<Rightarrow> if dispatch_plan_valid p
                    then length (pl_tasks p) - ds_wave_count s * dv_max_concurrent dv else 0)"

lemma valid_plan_width: "dispatch_plan_valid p \<Longrightarrow> length (pl_tasks p) \<le> 32"
  by (simp add: dispatch_plan_valid_def)

lemma after_wave_fields:
  "ds_plan (after_wave dv s envs) = ds_plan s"
  "ds_wave_count (after_wave dv s envs) = ds_wave_count s + 1"
  "ds_round_count (after_wave dv s envs) = ds_round_count s"
  "net_cost (after_wave dv s envs) = net_cost (dispatch_origin dv s)"
  "ds_reserved_usd (after_wave dv s envs) = ds_reserved_usd (dispatch_origin dv s)"
  "within_budget (after_wave dv s envs) = within_budget (dispatch_origin dv s)"
  using origin_fields [of dv s]
  by (simp_all add: after_wave_def Let_def net_cost_def within_budget_def split: option.split)

lemma node_verdicts [simp]:
  "DISPATCH_ADVANCE_NODE \<noteq> DISPATCH_ORIGIN_NODE" "DISPATCH_SYNTHESIZE_NODE \<noteq> DISPATCH_ORIGIN_NODE"
  "DISPATCH_SYNTHESIZE_NODE \<noteq> DISPATCH_ADVANCE_NODE"
  by (simp_all add: DISPATCH_ADVANCE_NODE_def DISPATCH_ORIGIN_NODE_def DISPATCH_SYNTHESIZE_NODE_def)

lemma room_next_wave:
  assumes "ds_plan s = Some p" and "dispatch_plan_valid p" and "limits_ok dv"
    and "route_after_workers dv (after_wave dv s envs) = DISPATCH_ORIGIN_NODE"
  shows "room dv (after_wave dv s envs) < room dv s"
proof -
  let ?cap = "dv_max_concurrent dv"
  have "(ds_wave_count s + 1) * ?cap < length (pl_tasks p)"
    using assms(1,4)
    by (auto simp: route_after_workers_def after_wave_fields Let_def
        dest: node_verdicts [THEN notE] split: if_splits)
  moreover have "0 < ?cap" using assms(3) by (simp add: limits_ok_def)
  ultimately have "length (pl_tasks p) - (ds_wave_count s + 1) * ?cap < length (pl_tasks p) - ds_wave_count s * ?cap"
    by (simp add: algebra_simps)
  then show ?thesis using assms(1,2) by (simp add: room_def after_wave_fields)
qed

lemma room_next_round:
  assumes "ds_plan s = Some p" and "dispatch_plan_valid p"
    and "route_after_workers dv (after_wave dv s envs) = DISPATCH_ADVANCE_NODE"
  shows "room dv (dispatch_advance dv (after_wave dv s envs)) < room dv s"
proof -
  let ?w = "after_wave dv s envs"
  have "pattern_needs_another_round dv ?w"
    using assms(3) by (auto simp: route_after_workers_def Let_def split: if_splits dest: sym)
  then have more: "ds_round_count s < dv_max_rounds dv"
    by (simp add: pattern_needs_another_round_def after_wave_fields Let_def split: if_splits)
  obtain q where q: "ds_plan (dispatch_advance dv ?w) = Some q"
    using assms(1)
    by (cases "plan_pattern ?w = ''adversarial_verification''")
      (simp_all add: dispatch_advance_def after_wave_fields)
  then have "room dv (dispatch_advance dv ?w) \<le> (dv_max_rounds dv - (ds_round_count s + 1)) * 33 + 32"
    using valid_plan_width [of q] by (simp add: room_def after_wave_fields)
  also have "\<dots> < (dv_max_rounds dv - ds_round_count s) * 33" using more by (simp add: algebra_simps)
  finally show ?thesis by (simp add: room_def)
qed

text \<open>One turn of the loop, with its four continuations.\<close>

lemma dispatch_run_step:
  "dispatch_run dv worker (Suc n) s =
     (if route_after_admission (dispatch_origin dv s) \<noteq> DISPATCH_FANOUT_NODE
      then Some (Inr (dispatch_synthesize dv (dispatch_origin dv s)))
      else (case run_wave worker (dispatch_router dv (dispatch_origin dv s)) of
              Inl e \<Rightarrow> Some (Inl e)
            | Inr envs \<Rightarrow>
                (let w = after_wave dv s envs; verdict = route_after_workers dv w
                 in if verdict = DISPATCH_ORIGIN_NODE then dispatch_run dv worker n w
                    else if verdict = DISPATCH_ADVANCE_NODE
                    then dispatch_run dv worker n (dispatch_advance dv w)
                    else Some (Inr (dispatch_synthesize dv w)))))"
  by (simp add: after_wave_def dispatch_fanout_def Let_def split: sum.split)

lemma dispatch_run_total:
  assumes "limits_ok dv"
  shows "room dv s < n \<Longrightarrow> dispatch_run dv worker n s \<noteq> None"
proof (induction n arbitrary: s)
  case 0
  then show ?case by simp
next
  case (Suc n)
  show ?case
  proof (cases "route_after_admission (dispatch_origin dv s) = DISPATCH_FANOUT_NODE")
    case False
    then show ?thesis by (simp only: dispatch_run_step) simp
  next
    case True
    then obtain p where p: "ds_plan s = Some p" "dispatch_plan_valid p" by (rule origin_admits)
    show ?thesis
    proof (cases "run_wave worker (dispatch_router dv (dispatch_origin dv s))")
      case (Inl e)
      with True show ?thesis by (simp only: dispatch_run_step) simp
    next
      case (Inr envs)
      let ?w = "after_wave dv s envs"
      have wave: "route_after_workers dv ?w = DISPATCH_ORIGIN_NODE \<Longrightarrow> dispatch_run dv worker n ?w \<noteq> None"
        using room_next_wave [OF p assms, of envs] Suc.prems by (intro Suc.IH) simp
      have round: "route_after_workers dv ?w = DISPATCH_ADVANCE_NODE \<Longrightarrow>
          dispatch_run dv worker n (dispatch_advance dv ?w) \<noteq> None"
        using room_next_round [OF p, of dv envs] Suc.prems by (intro Suc.IH) simp
      from True Inr wave round show ?thesis
        unfolding dispatch_run_step Let_def by (simp del: dispatch_run.simps)
    qed
  qed
qed

lemma room_bound: "room dv s \<le> dv_max_rounds dv * 33 + 32"
proof -
  have "(case ds_plan s of None \<Rightarrow> 0 | Some p \<Rightarrow> if dispatch_plan_valid p
      then length (pl_tasks p) - ds_wave_count s * dv_max_concurrent dv else 0) \<le> 32"
    using valid_plan_width by (auto split: option.split intro: le_trans [OF diff_le_self])
  then show ?thesis unfolding room_def by (intro add_mono) simp_all
qed

lemma dispatch_run_settles:
  "0 \<le> ds_reserved_usd s \<Longrightarrow> dispatch_run dv worker n s = Some (Inr t) \<Longrightarrow> settled s t"
proof (induction n arbitrary: s)
  case 0
  then show ?case by simp
next
  case (Suc n)
  note origin = origin_budget [OF Suc.prems(1), of dv]
  show ?case
  proof (cases "route_after_admission (dispatch_origin dv s) = DISPATCH_FANOUT_NODE")
    case False
    with Suc.prems(2) have "t = dispatch_synthesize dv (dispatch_origin dv s)"
      unfolding dispatch_run_step by simp
    with origin synthesize_settles [of "dispatch_origin dv s" dv] show ?thesis
      by (intro settled_transfer [of "dispatch_origin dv s" t s]) simp_all
  next
    case True
    then obtain envs where envs: "run_wave worker (dispatch_router dv (dispatch_origin dv s)) = Inr envs"
      using Suc.prems(2) unfolding dispatch_run_step by (auto split: sum.splits)
    let ?w = "after_wave dv s envs"
    have w: "net_cost ?w = net_cost s" "0 \<le> ds_reserved_usd ?w" "within_budget s \<longrightarrow> within_budget ?w"
      using origin by (simp_all add: after_wave_fields)
    have adv: "net_cost (dispatch_advance dv ?w) = net_cost ?w"
      "within_budget (dispatch_advance dv ?w) = within_budget ?w"
      by (simp_all add: net_cost_def within_budget_def split: option.split)
    have run: "Some (Inr t) = (if route_after_workers dv ?w = DISPATCH_ORIGIN_NODE then dispatch_run dv worker n ?w
        else if route_after_workers dv ?w = DISPATCH_ADVANCE_NODE
        then dispatch_run dv worker n (dispatch_advance dv ?w) else Some (Inr (dispatch_synthesize dv ?w)))"
      using Suc.prems(2) True envs unfolding dispatch_run_step by (simp add: Let_def)
    then consider "dispatch_run dv worker n ?w = Some (Inr t)"
      | "dispatch_run dv worker n (dispatch_advance dv ?w) = Some (Inr t)" | "t = dispatch_synthesize dv ?w"
      by (auto split: if_splits)
    then show ?thesis
    proof cases
      case 1
      with Suc.IH [OF w(2)] w show ?thesis by (intro settled_transfer [of ?w t s]) simp_all
    next
      case 2
      then have "settled (dispatch_advance dv ?w) t" using w(2) by (intro Suc.IH) simp_all
      with w adv show ?thesis by (intro settled_transfer [of "dispatch_advance dv ?w" t s]) simp_all
    next
      case 3
      with w synthesize_settles [OF w(2), of dv] show ?thesis by (intro settled_transfer [of ?w t s]) simp_all
    qed
  qed
qed

subsection \<open>What a run visits and books\<close>

text \<open>The states in which the run enters the admission gate, in order.\<close>

fun admissions :: "dispatch_env \<Rightarrow> (dispatch_state \<times> subagent_task \<Rightarrow> string + envelope) \<Rightarrow> nat
    \<Rightarrow> dispatch_state \<Rightarrow> dispatch_state list" where
  "admissions dv worker 0 s = []"
| "admissions dv worker (Suc n) s =
     s # (if route_after_admission (dispatch_origin dv s) \<noteq> DISPATCH_FANOUT_NODE then []
          else (case run_wave worker (dispatch_router dv (dispatch_origin dv s)) of
                  Inl e \<Rightarrow> []
                | Inr envs \<Rightarrow>
                    (let w = after_wave dv s envs; verdict = route_after_workers dv w
                     in if verdict = DISPATCH_ORIGIN_NODE then admissions dv worker n w
                        else if verdict = DISPATCH_ADVANCE_NODE then admissions dv worker n (dispatch_advance dv w)
                        else [])))"

text \<open>
  What one admission is to reserve: the estimate of the whole plan when the plan is accepted, the
  round is at its first wave and not reserved yet, a budget is configured and the estimate fits it.
\<close>

definition reservation :: "dispatch_env \<Rightarrow> dispatch_state \<Rightarrow> rat" where
  "reservation dv s =
     (case ds_plan s of
        None \<Rightarrow> 0
      | Some p \<Rightarrow>
          (let estimate = max 0 (estimate_wave_cost dv (pl_tasks p)) in
           if dispatch_plan_valid p \<and> ds_depth s < dv_max_depth dv \<and> length (pl_tasks p) \<le> dv_max_width dv
              \<and> ds_wave_count s = 0 \<and> or_else (ds_reserved_round s) (-1) < int (ds_round_count s)
              \<and> (case ds_max_budget_usd s of None \<Rightarrow> True | Some b \<Rightarrow> 0 < b \<and> ds_current_cost_usd s + estimate \<le> b)
           then estimate else 0))"

definition reserved_by :: "dispatch_env \<Rightarrow> dispatch_state list \<Rightarrow> rat" where
  "reserved_by dv us = sum_list (map (reservation dv) us)"

definition metered :: "envelope list \<Rightarrow> rat" where "metered es = max 0 (sum_list (map en_cost_usd es))"

lemma reserved_by_simps [simp]:
  "reserved_by dv [] = 0" "reserved_by dv (u # us) = reservation dv u + reserved_by dv us"
  by (simp_all add: reserved_by_def)

lemma origin_reserves: "ds_reserved_usd (dispatch_origin dv s) = ds_reserved_usd s + reservation dv s"
  by (auto simp: dispatch_origin_def reservation_def reserve_dispatch_budget_def Let_def refuse_def
      split: option.splits)

lemma reservation_nonneg: "0 \<le> reservation dv s"
  by (auto simp: reservation_def Let_def split: option.split)

lemma origin_consumed: "ds_consumed (dispatch_origin dv s) = ds_consumed s"
  by (rule origin_cases [of dv s]) (simp_all add: refuse_def)

lemma after_wave_consumed: "ds_consumed (after_wave dv s envs) = ds_consumed s"
  by (simp add: after_wave_def dispatch_gate_def origin_consumed Let_def)

text \<open>An exception of the run is the exception of a worker of an admitted wave.\<close>

definition raised_in :: "dispatch_env \<Rightarrow> (dispatch_state \<times> subagent_task \<Rightarrow> string + envelope) \<Rightarrow> string
    \<Rightarrow> dispatch_state \<Rightarrow> bool" where
  "raised_in dv worker e u \<longleftrightarrow>
     route_after_admission (dispatch_origin dv u) = DISPATCH_FANOUT_NODE
     \<and> list_ex (\<lambda>send. worker send = Inl e) (dispatch_router dv (dispatch_origin dv u))"

lemma run_wave_raises: "run_wave worker sends = Inl e \<Longrightarrow> list_ex (\<lambda>send. worker send = Inl e) sends"
  by (induction sends) (auto split: sum.splits)

lemma dispatch_run_raises:
  "dispatch_run dv worker n s = Some (Inl e) \<Longrightarrow> list_ex (raised_in dv worker e) (admissions dv worker n s)"
proof (induction n arbitrary: s)
  case (Suc n)
  show ?case
  proof (cases "route_after_admission (dispatch_origin dv s) = DISPATCH_FANOUT_NODE")
    case False
    with Suc.prems show ?thesis unfolding dispatch_run_step by simp
  next
    case True
    show ?thesis
    proof (cases "run_wave worker (dispatch_router dv (dispatch_origin dv s))")
      case (Inl e')
      with Suc.prems True have "e' = e" unfolding dispatch_run_step by simp
      with Inl True run_wave_raises [OF Inl] show ?thesis by (simp add: raised_in_def)
    next
      case (Inr envs)
      with Suc True show ?thesis unfolding dispatch_run_step
        by (auto simp: Let_def not_sym [OF node_verdicts(1)] split: if_splits)
    qed
  qed
qed simp

text \<open>The spend of a finished run, from what its admissions reserved and its results cost.\<close>

definition spent :: "dispatch_env \<Rightarrow> dispatch_state \<Rightarrow> rat \<Rightarrow> dispatch_state \<Rightarrow> bool" where
  "spent dv s r t \<longleftrightarrow>
     ds_current_cost_usd t = net_cost s + min (ds_reserved_usd s + r) (metered (drop (ds_consumed s) (ds_results t)))
     \<and> map_option ba_total_cost_usd (ds_batch_result t)
         = Some (sum_list (map en_cost_usd (drop (ds_consumed s) (ds_results t))))"

lemma synthesize_spends:
  assumes "0 \<le> ds_reserved_usd s"
  shows "spent dv s 0 (dispatch_synthesize dv s)"
proof (cases "0 < ds_reserved_usd s")
  case True
  let ?cost = "sum_list (map en_cost_usd (fresh_results s))"
  show ?thesis
    using commit_min [OF True, of "ds_task_id s" "dv_uuid dv s" ?cost] True
    by (simp add: spent_def metered_def dispatch_synthesize_def net_cost_def fresh_results_def Let_def)
next
  case False
  with assms show ?thesis
    by (simp add: spent_def metered_def dispatch_synthesize_def net_cost_def fresh_results_def Let_def)
qed

lemma spent_transfer:
  "spent dv s' r t \<Longrightarrow> net_cost s' = net_cost s \<Longrightarrow> ds_consumed s' = ds_consumed s \<Longrightarrow>
   ds_reserved_usd s' = ds_reserved_usd s + q \<Longrightarrow> spent dv s (q + r) t"
  by (simp add: spent_def add.assoc)

lemma dispatch_run_spends:
  "0 \<le> ds_reserved_usd s \<Longrightarrow> dispatch_run dv worker n s = Some (Inr t) \<Longrightarrow>
   spent dv s (reserved_by dv (admissions dv worker n s)) t"
proof (induction n arbitrary: s)
  case (Suc n)
  note origin = origin_budget [OF Suc.prems(1), of dv]
  show ?case
  proof (cases "route_after_admission (dispatch_origin dv s) = DISPATCH_FANOUT_NODE")
    case False
    with Suc.prems(2) have "t = dispatch_synthesize dv (dispatch_origin dv s)"
      unfolding dispatch_run_step by simp
    then have "spent dv s (reservation dv s + 0) t"
      using origin synthesize_spends [of "dispatch_origin dv s" dv]
      by (intro spent_transfer [of dv "dispatch_origin dv s"]) (simp_all add: origin_consumed origin_reserves)
    with False show ?thesis by simp
  next
    case True
    then obtain envs where envs: "run_wave worker (dispatch_router dv (dispatch_origin dv s)) = Inr envs"
      using Suc.prems(2) unfolding dispatch_run_step by (auto split: sum.splits)
    let ?w = "after_wave dv s envs"
    have w: "net_cost ?w = net_cost s" "0 \<le> ds_reserved_usd ?w" "ds_consumed ?w = ds_consumed s"
      "ds_reserved_usd ?w = ds_reserved_usd s + reservation dv s"
      using origin by (simp_all add: after_wave_fields after_wave_consumed origin_reserves)
    note lift = spent_transfer [OF _ w(1) w(3) w(4)]
    have adv: "net_cost (dispatch_advance dv ?w) = net_cost ?w"
      "ds_consumed (dispatch_advance dv ?w) = ds_consumed ?w" "ds_reserved_usd (dispatch_advance dv ?w) = ds_reserved_usd ?w + 0"
      by (simp_all add: net_cost_def dispatch_advance_def)
    have run: "Some (Inr t) = (if route_after_workers dv ?w = DISPATCH_ORIGIN_NODE then dispatch_run dv worker n ?w
        else if route_after_workers dv ?w = DISPATCH_ADVANCE_NODE
        then dispatch_run dv worker n (dispatch_advance dv ?w) else Some (Inr (dispatch_synthesize dv ?w)))"
      using Suc.prems(2) True envs unfolding dispatch_run_step by (simp add: Let_def)
    show ?thesis
    proof (cases "route_after_workers dv ?w = DISPATCH_ORIGIN_NODE")
      case loop: True
      with run have "dispatch_run dv worker n ?w = Some (Inr t)" by simp
      from lift [OF Suc.IH [OF w(2) this]] loop True envs show ?thesis by (simp add: Let_def)
    next
      case no_loop: False
      show ?thesis
      proof (cases "route_after_workers dv ?w = DISPATCH_ADVANCE_NODE")
        case round: True
        with run no_loop have "dispatch_run dv worker n (dispatch_advance dv ?w) = Some (Inr t)" by simp
        from Suc.IH [OF _ this] w(2) adv(3)
        have "spent dv (dispatch_advance dv ?w) (reserved_by dv (admissions dv worker n (dispatch_advance dv ?w))) t"
          by simp
        from lift [OF spent_transfer [OF this adv]] round True envs show ?thesis by (simp add: Let_def)
      next
        case False
        with run no_loop have "t = dispatch_synthesize dv ?w" by simp
        with lift [OF synthesize_spends [OF w(2), of dv]] False no_loop True envs show ?thesis
          by (simp add: Let_def)
      qed
    qed
  qed
qed simp

subsection \<open>Properties\<close>

text \<open>
  C21. A dispatch always ends, and settles unless a worker raises. Whatever the plan, valid or not,
  and whatever the workers return, the loop over waves and rounds comes to its end within 33 steps
  per allowed round and 33 more. If it ends with an exception, a worker of one of its admitted
  waves raised it, and nothing is settled. Otherwise it ends in a synthesis that clears the plan,
  advances the watermark past every result and closes the reservation: the spend is the spend
  before the dispatch plus the metered cost of the new results, capped by exactly what the
  admissions of this run reserved, and never above the ceiling it started within.
\<close>

theorem dispatch_ends_settled:
  assumes "limits_ok dv" and "dv_max_rounds dv * 33 + 32 < fuel" and "0 \<le> ds_reserved_usd s"
  shows "case dispatch_run dv worker fuel s of
      None \<Rightarrow> False
    | Some (Inl e) \<Rightarrow> list_ex (raised_in dv worker e) (admissions dv worker fuel s)
    | Some (Inr t) \<Rightarrow>
        (let new_results = drop (ds_consumed s) (ds_results t) in
         ds_plan t = None \<and> ds_consumed t = length (ds_results t) \<and> ds_reserved_usd t = 0
         \<and> map_option ba_total_cost_usd (ds_batch_result t) = Some (sum_list (map en_cost_usd new_results))
         \<and> ds_current_cost_usd t = ds_current_cost_usd s - ds_reserved_usd s
             + min (ds_reserved_usd s + reserved_by dv (admissions dv worker fuel s)) (metered new_results)
         \<and> (case ds_max_budget_usd s of None \<Rightarrow> True
             | Some b \<Rightarrow> ds_current_cost_usd s \<le> b \<longrightarrow> within_budget t))"
proof -
  have "room dv s < fuel" using room_bound [of dv s] assms(2) by (rule le_less_trans)
  with assms(1) have "dispatch_run dv worker fuel s \<noteq> None" by (rule dispatch_run_total)
  then obtain r where r: "dispatch_run dv worker fuel s = Some r" by blast
  show ?thesis
  proof (cases r)
    case (Inl e)
    with r dispatch_run_raises [of dv worker fuel s e] show ?thesis by simp
  next
    case (Inr t)
    with r have "settled s t" "spent dv s (reserved_by dv (admissions dv worker fuel s)) t"
      using dispatch_run_settles [OF assms(3)] dispatch_run_spends [OF assms(3)] by blast+
    then have t: "ds_plan t = None" "ds_consumed t = length (ds_results t)" "ds_reserved_usd t = 0"
      "spent dv s (reserved_by dv (admissions dv worker fuel s)) t" "within_budget s \<longrightarrow> within_budget t"
      by (simp_all add: settled_def)
    then have "case ds_max_budget_usd s of None \<Rightarrow> True | Some b \<Rightarrow> ds_current_cost_usd s \<le> b \<longrightarrow> within_budget t"
      by (simp add: within_budget_def [of s] split: option.split)
    with r Inr t(1-4) show ?thesis by (simp add: spent_def net_cost_def)
  qed
qed

definition demo_env :: dispatch_env where
  "demo_env = \<lparr>dv_max_concurrent = 4, dv_max_depth = 2, dv_max_width = 32, dv_max_rounds = 3,
     dv_count_tokens = length, dv_usd_in = 1, dv_usd_out = 1, dv_uuid = (\<lambda>_. ''id''),
     dv_validation_error = (\<lambda>_. ''bad''), dv_context_budget = 100\<rparr>"

definition demo_dispatch :: dispatch_state where
  "demo_dispatch = \<lparr>ds_task_id = ''t'', ds_plan = Some synthetic_plan, ds_depth = 0, ds_wave_count = 0,
     ds_round_count = 0, ds_reserved_usd = 0, ds_reserved_round = Some (-1), ds_admission = None,
     ds_results = [], ds_consumed = 0, ds_return_node = None, ds_current_cost_usd = 1,
     ds_max_budget_usd = Some 5, ds_batch_result = None\<rparr>"

definition demo_run :: "subagent_task \<Rightarrow> worker_run" where
  "demo_run task = \<lparr>wr_observations = [''ok''], wr_trace_len = 1, wr_cost = 1 / 10,
     wr_answer = Inr (JObj [(''summary'', JStr ''fine'')])\<rparr>"

theorem dispatch_ends_settled_witness:
  "dispatch_run demo_env (\<lambda>(_, task). subagent_worker sa_task_id demo_run task) 132 demo_dispatch \<noteq> None"
proof -
  have "limits_ok demo_env" "dv_max_rounds demo_env * 33 + 32 < 132" "0 \<le> ds_reserved_usd demo_dispatch"
    by (simp_all add: limits_ok_def demo_env_def demo_dispatch_def)
  from dispatch_ends_settled [OF this, of "\<lambda>(_, task). subagent_worker sa_task_id demo_run task"] show ?thesis
    by (cases "dispatch_run demo_env (\<lambda>(_, task). subagent_worker sa_task_id demo_run task) 132 demo_dispatch") simp_all
qed

text \<open>
  Fan-out happens only after admission: the subgraph leaves its origin for the workers
  exactly for a plan that the contract accepts, at a depth and a width below their ceilings,
  whose estimate, in a metered round that has not been reserved yet, fits the remaining budget
  and is booked at once; and the waves of a round send its tasks in order, each exactly once,
  looping back exactly while some are left.
\<close>

theorem fanout_admitted_and_partitioned:
  assumes "limits_ok dv"
  shows "(route_after_admission (dispatch_origin dv s) = DISPATCH_FANOUT_NODE \<longleftrightarrow>
      (\<exists>p. ds_plan s = Some p \<and> dispatch_plan_valid p \<and> ds_depth s < dv_max_depth dv
         \<and> length (pl_tasks p) \<le> dv_max_width dv
         \<and> (ds_wave_count s = 0 \<and> or_else (ds_reserved_round s) (-1) < int (ds_round_count s) \<longrightarrow>
              (case ds_max_budget_usd s of
                 None \<Rightarrow> True
               | Some b \<Rightarrow> 0 < b \<longrightarrow>
                   ds_current_cost_usd s + max 0 (estimate_wave_cost dv (pl_tasks p)) \<le> b))))
    \<and> (ds_plan s = Some p \<longrightarrow> ds_depth s < dv_max_depth dv \<longrightarrow>
        concat (map (\<lambda>w. map snd (dispatch_router dv (s\<lparr>ds_wave_count := w\<rparr>))) [0..<n])
          = take (n * dv_max_concurrent dv) (pl_tasks p)
        \<and> (route_after_workers dv (s\<lparr>ds_wave_count := n\<rparr>) = DISPATCH_ORIGIN_NODE \<longleftrightarrow>
             drop (n * dv_max_concurrent dv) (pl_tasks p) \<noteq> []))"
proof (intro conjI impI)
  show "route_after_admission (dispatch_origin dv s) = DISPATCH_FANOUT_NODE \<longleftrightarrow>
      (\<exists>p. ds_plan s = Some p \<and> dispatch_plan_valid p \<and> ds_depth s < dv_max_depth dv
         \<and> length (pl_tasks p) \<le> dv_max_width dv
         \<and> (ds_wave_count s = 0 \<and> or_else (ds_reserved_round s) (-1) < int (ds_round_count s) \<longrightarrow>
              (case ds_max_budget_usd s of
                 None \<Rightarrow> True
               | Some b \<Rightarrow> 0 < b \<longrightarrow>
                   ds_current_cost_usd s + max 0 (estimate_wave_cost dv (pl_tasks p)) \<le> b)))"
    by (auto simp: route_after_admission_def dispatch_origin_def reserve_dispatch_budget_def Let_def
        DISPATCH_FANOUT_NODE_def DISPATCH_SYNTHESIZE_NODE_def split: option.splits if_splits)
next
  assume p: "ds_plan s = Some p" and depth: "ds_depth s < dv_max_depth dv"
  have wave: "map snd (dispatch_router dv (s\<lparr>ds_wave_count := w\<rparr>))
      = take (dv_max_concurrent dv) (drop (w * dv_max_concurrent dv) (pl_tasks p))" for w
    using p depth by (simp add: dispatch_router_def build_dispatch_sends_def Let_def comp_def)
  show "concat (map (\<lambda>w. map snd (dispatch_router dv (s\<lparr>ds_wave_count := w\<rparr>))) [0..<n])
      = take (n * dv_max_concurrent dv) (pl_tasks p)"
    unfolding wave
  proof (induction n)
    case (Suc n)
    then show ?case by (simp add: take_drop_chunks add.commute)
  qed simp
  show "route_after_workers dv (s\<lparr>ds_wave_count := n\<rparr>) = DISPATCH_ORIGIN_NODE \<longleftrightarrow>
      drop (n * dv_max_concurrent dv) (pl_tasks p) \<noteq> []"
    using p by (auto simp: route_after_workers_def Let_def not_le dest: sym)
qed

theorem fanout_admitted_and_partitioned_witness:
  "concat (map (\<lambda>w. map snd (dispatch_router demo_env (demo_dispatch\<lparr>ds_wave_count := w\<rparr>))) [0..<2])
     = pl_tasks synthetic_plan"
proof -
  have "limits_ok demo_env" by (simp add: limits_ok_def demo_env_def)
  from fanout_admitted_and_partitioned [OF this, of demo_dispatch synthetic_plan 2] show ?thesis
    by (simp add: demo_dispatch_def demo_env_def synthetic_plan_def)
qed

text \<open>
  A worker that observed too much raises, although it promises never to: its digest is cut
  to the cap and then extended by the truncation mark, which puts it over the length the
  envelope's contract allows, and the envelope is built outside the guarded part. So for a
  valid task whose joined observations exceed the cap there is no envelope at all, and the
  exception fails the whole dispatch; below the cap every outcome is an envelope.
\<close>

theorem overlong_digest_raises:
  assumes "subagent_task_valid task"
  shows "isl (subagent_worker invalid run task) \<longleftrightarrow>
      MAX_OBSERVATION_CHARS < length (join [CHR 0x0A, CHR 0x0A] (wr_observations (run task)))"
proof -
  have "length (worker_digest obs) \<le> MAX_OBSERVATION_CHARS \<longleftrightarrow>
      length (join [CHR 0x0A, CHR 0x0A] obs) \<le> MAX_OBSERVATION_CHARS" for obs
    by (simp add: worker_digest_def Let_def)
  with assms show ?thesis
    by (auto simp: subagent_worker_def Let_def split_beta envelope_valid_def not_le)
qed

theorem overlong_digest_raises_witness:
  "\<not> isl (subagent_worker sa_task_id demo_run (hd (pl_tasks synthetic_plan)))"
proof -
  have "subagent_task_valid (hd (pl_tasks synthetic_plan))"
    by (simp add: subagent_task_valid_def synthetic_plan_def SUBAGENT_ROLES_def FIELD_TYPES_def)
  from overlong_digest_raises [OF this, of sa_task_id demo_run] show ?thesis
    by (simp add: demo_run_def MAX_OBSERVATION_CHARS_def)
qed

end
