(* ===== verification/Tournament.thy ===== *)
theory Tournament
  imports WorkspaceSync SearchTree Dispatch
begin

text \<open>
  The tournament of competing edits on a shared work surface
  (\<open>brain/subagent_tournament.py\<close>): every candidate is pushed, verified and rolled back, the
  winner is chosen by the search tree and pushed again. The verify command is a parameter that
  may raise (\<open>None\<close>) and may change the surface; the ids of the tree's nodes are \<open>uuid 0\<close>,
  \<open>uuid 1\<close> and so on.
\<close>

subsection \<open>Rewards and contents\<close>

definition verdict_reward :: "int \<Rightarrow> string \<Rightarrow> rat" where
  "verdict_reward exit_code diagnostics =
     (if exit_code = 0 then (if strip diagnostics = [] then 1 else 1 / 2)
      else - (1 / 5) - 4 / 5 * (of_nat (min (length diagnostics) 4000) / 4000))"

definition vfs_to_view :: "(string, vfs_file) dict \<Rightarrow> (string, string) dict" where
  "vfs_to_view vfs_files = map (\<lambda>(path, vf). (path, vf_blob_hash vf)) vfs_files"

text \<open>The hash of the coder also drops a byte order mark, which texts here cannot hold.\<close>

definition content_hash :: "sync_env \<Rightarrow> string \<Rightarrow> string" where
  "content_hash env s = sy_sha256 env (sy_encode env (normalize_eol s))"

fun content_to_vfs ::
  "sync_env \<Rightarrow> (string \<times> string) list \<Rightarrow> (string, vfs_file) dict \<Rightarrow> cas \<Rightarrow> ((string, vfs_file) dict \<times> cas) option" where
  "content_to_vfs env [] vfs blobs = Some (vfs, blobs)"
| "content_to_vfs env ((path, content) # rest) vfs blobs =
     (case cas_put (sy_blake2b env) content blobs of
        None \<Rightarrow> None
      | Some (h, blobs') \<Rightarrow>
          content_to_vfs env rest
            (dset path \<lparr>vf_blob_hash = h, vf_document_version_id = content_hash env content, vf_is_dirty = True\<rparr> vfs)
            blobs')"

definition version_ids_of :: "(string, vfs_file) dict \<Rightarrow> (string, string) dict" where
  "version_ids_of vfs = map (\<lambda>(p, vf). (p, vf_document_version_id vf)) vfs"

subsection \<open>The tournament\<close>

type_synonym content = "(string, string) dict"

record 's arena =
  an_tree :: search_tree
  an_child_ids :: "string list"
  an_blobs :: cas
  an_surface :: 's

definition push_content ::
  "'s surface \<Rightarrow> sync_env \<Rightarrow> cas \<Rightarrow> (string, vfs_file) dict \<Rightarrow> 's \<Rightarrow> 's" where
  "push_content sf env blobs vfs s = snd (push_vfs_to_surface sf env blobs (version_ids_of vfs) vfs s)"

definition score_child :: "string \<Rightarrow> rat \<Rightarrow> search_tree \<Rightarrow> search_tree" where
  "score_child child_id reward t =
     (case get_node t child_id of
        None \<Rightarrow> t
      | Some child \<Rightarrow>
          t\<lparr>tr_nodes := dset child_id (child\<lparr>nd_reward := reward, nd_visits := 1, nd_total_value := reward\<rparr>) (tr_nodes t)\<rparr>)"

definition tournament_round ::
  "'s surface \<Rightarrow> sync_env \<Rightarrow> ('s \<Rightarrow> ((int \<times> string) \<times> 's) option) \<Rightarrow> (nat \<Rightarrow> string) \<Rightarrow> mission option
   \<Rightarrow> (string, vfs_file) dict \<Rightarrow> nat \<Rightarrow> content \<Rightarrow> 's arena \<Rightarrow> 's arena option" where
  "tournament_round sf env run_verify uuid mission_state base_vfs index candidate a =
     (case content_to_vfs env candidate [] (an_blobs a) of
        None \<Rightarrow> None
      | Some (cand_vfs, blobs) \<Rightarrow>
          (case run_verify (push_content sf env blobs cand_vfs (an_surface a)) of
             None \<Rightarrow> None
           | Some ((exit_code, diagnostics), s) \<Rightarrow>
               (let reward = verdict_reward exit_code diagnostics;
                    child_id = uuid (Suc index)
                in case expand child_id (tr_root_id (an_tree a)) (''candidate_'' @ show_int (int index))
                          (vfs_to_view cand_vfs) mission_state (an_tree a) of
                     None \<Rightarrow> None
                   | Some t \<Rightarrow>
                       Some \<lparr>an_tree = score_child child_id reward t, an_child_ids = an_child_ids a @ [child_id],
                             an_blobs = blobs, an_surface = push_content sf env blobs base_vfs s\<rparr>)))"

fun tournament_rounds ::
  "'s surface \<Rightarrow> sync_env \<Rightarrow> ('s \<Rightarrow> ((int \<times> string) \<times> 's) option) \<Rightarrow> (nat \<Rightarrow> string) \<Rightarrow> mission option
   \<Rightarrow> (string, vfs_file) dict \<Rightarrow> nat \<Rightarrow> content list \<Rightarrow> 's arena \<Rightarrow> 's arena option" where
  "tournament_rounds sf env run_verify uuid mission_state base_vfs index [] a = Some a"
| "tournament_rounds sf env run_verify uuid mission_state base_vfs index (candidate # candidates) a =
     (case tournament_round sf env run_verify uuid mission_state base_vfs index candidate a of
        None \<Rightarrow> None
      | Some a' \<Rightarrow> tournament_rounds sf env run_verify uuid mission_state base_vfs (Suc index) candidates a')"

definition index_of :: "'a \<Rightarrow> 'a list \<Rightarrow> nat option" where
  "index_of x xs = (let n = length (takeWhile (\<lambda>y. y \<noteq> x) xs) in if n < length xs then Some n else None)"

definition visit_root :: "nat \<Rightarrow> search_tree \<Rightarrow> search_tree" where
  "visit_root n t =
     (case get_node t (tr_root_id t) of
        None \<Rightarrow> t
      | Some node \<Rightarrow> t\<lparr>tr_nodes := dset (tr_root_id t) (node\<lparr>nd_visits := int n\<rparr>) (tr_nodes t)\<rparr>)"

definition winner_index :: "'s arena \<Rightarrow> nat" where
  "winner_index a =
     (let t = visit_root (length (an_child_ids a)) (an_tree a)
      in case select_best_child t (tr_root_id t) (1414 / 1000) of
           Some (Some best_id) \<Rightarrow> (case index_of best_id (an_child_ids a) of None \<Rightarrow> 0 | Some i \<Rightarrow> i)
         | _ \<Rightarrow> 0)"

text \<open>The winner comes with the surface and with the store that now holds the contents.\<close>

definition run_tournament_stored ::
  "'s surface \<Rightarrow> sync_env \<Rightarrow> ('s \<Rightarrow> ((int \<times> string) \<times> 's) option) \<Rightarrow> (nat \<Rightarrow> string) \<Rightarrow> registry \<Rightarrow> mission option
   \<Rightarrow> content \<Rightarrow> content list \<Rightarrow> cas \<Rightarrow> 's \<Rightarrow> ((nat \<times> content) \<times> 's \<times> cas) option" where
  "run_tournament_stored sf env run_verify uuid reg mission_state clean_base_content candidates blob_store s =
     (case content_to_vfs env clean_base_content [] blob_store of
        None \<Rightarrow> None
      | Some (base_vfs, blobs) \<Rightarrow>
          (case tournament_rounds sf env run_verify uuid mission_state base_vfs 0 candidates
                  \<lparr>an_tree = new_tree (uuid 0) mission_state (vfs_to_view base_vfs) reg, an_child_ids = [],
                   an_blobs = blobs, an_surface = s\<rparr> of
             None \<Rightarrow> None
           | Some a \<Rightarrow>
               (let w = winner_index a
                in if length candidates \<le> w then None
                   else (case content_to_vfs env (candidates ! w) [] (an_blobs a) of
                           None \<Rightarrow> None
                         | Some (winner_vfs, blobs') \<Rightarrow>
                             Some ((w, candidates ! w), push_content sf env blobs' winner_vfs (an_surface a), blobs')))))"

definition run_tournament ::
  "'s surface \<Rightarrow> sync_env \<Rightarrow> ('s \<Rightarrow> ((int \<times> string) \<times> 's) option) \<Rightarrow> (nat \<Rightarrow> string) \<Rightarrow> registry \<Rightarrow> mission option
   \<Rightarrow> content \<Rightarrow> content list \<Rightarrow> cas \<Rightarrow> 's \<Rightarrow> ((nat \<times> content) \<times> 's) option" where
  "run_tournament sf env run_verify uuid reg mission_state clean_base_content candidates blob_store s =
     map_option (\<lambda>(won, s', blobs). (won, s'))
       (run_tournament_stored sf env run_verify uuid reg mission_state clean_base_content candidates blob_store s)"

subsection \<open>From a dispatch batch\<close>

definition default_candidate_from_envelope :: "envelope \<Rightarrow> content option" where
  "default_candidate_from_envelope e =
     (if en_status e \<noteq> env_ok then None
      else case en_structured_result e of
        Some (JObj obj) \<Rightarrow>
          (let patch = List.map_filter (\<lambda>(k, v). case v of JStr c \<Rightarrow> Some (k, c) | _ \<Rightarrow> None) obj
           in if patch = [] then None else Some patch)
      | _ \<Rightarrow> None)"

definition batch_candidates :: "(envelope \<Rightarrow> content option) \<Rightarrow> envelope list \<Rightarrow> (string \<times> content) list" where
  "batch_candidates extract results =
     List.map_filter (\<lambda>e. case extract e of
        None \<Rightarrow> None
      | Some patch \<Rightarrow> if patch = [] then None else Some (en_task_id e, patch)) results"

text \<open>\<open>None\<close>: the batch yields no candidate (\<open>ValueError\<close>), or the tournament raises.\<close>

definition run_tournament_from_dispatch ::
  "batch_result \<Rightarrow> (envelope \<Rightarrow> content option) option \<Rightarrow> 's surface \<Rightarrow> sync_env
   \<Rightarrow> ('s \<Rightarrow> ((int \<times> string) \<times> 's) option) \<Rightarrow> (nat \<Rightarrow> string) \<Rightarrow> registry \<Rightarrow> mission option \<Rightarrow> content \<Rightarrow> cas \<Rightarrow> 's
   \<Rightarrow> ((nat \<times> content \<times> string) \<times> 's) option" where
  "run_tournament_from_dispatch batch candidate_extractor sf env run_verify uuid reg mission_state
       clean_base_content blob_store s =
     (let extract = (case candidate_extractor of None \<Rightarrow> default_candidate_from_envelope | Some f \<Rightarrow> f);
          cands = batch_candidates extract (ba_results batch)
      in if cands = [] then None
         else (case run_tournament sf env run_verify uuid reg mission_state clean_base_content (map snd cands) blob_store s of
                 None \<Rightarrow> None
               | Some ((w, winner_content), s') \<Rightarrow> Some ((w, winner_content, fst (cands ! w)), s')))"

declare map_of_eq_Some_iff [simp del] Some_eq_map_of_iff [simp del]

lemma index_of_nth:
  assumes "distinct xs" and "i < length xs"
  shows "index_of (xs ! i) xs = Some i"
proof -
  have "takeWhile (\<lambda>y. y \<noteq> xs ! i) xs = take i xs"
    using assms by (intro takeWhile_eq_take_P_nth) (auto simp: nth_eq_iff_index_eq)
  with assms show ?thesis by (simp add: index_of_def Let_def)
qed

subsection \<open>Stores with room for every content\<close>

definition roomy :: "sync_env \<Rightarrow> string set \<Rightarrow> cas \<Rightarrow> bool" where
  "roomy env known blobs \<longleftrightarrow> cas_valid (sy_blake2b env) known blobs \<and> finite known \<and> card known \<le> cas_max_entries blobs
     \<and> inj_on (sy_blake2b env) known"

lemma roomy_put:
  assumes room: "roomy env known blobs" and c: "c \<in> known"
  shows "\<exists>blobs'. cas_put (sy_blake2b env) c blobs = Some (sy_blake2b env c, blobs') \<and> roomy env known blobs'
    \<and> cas_get blobs' (sy_blake2b env c) = Some c
    \<and> (\<forall>k w. cas_get blobs k = Some w \<longrightarrow> cas_get blobs' k = Some w)"
proof -
  let ?h = "sy_blake2b env" let ?blobs' = "cas_insert ?h (?h c) c blobs"
  have v: "cas_valid ?h known blobs" and fin: "finite known" and cap: "card known \<le> cas_max_entries blobs"
      and inj: "inj_on ?h known"
    using room by (simp_all add: roomy_def)
  have put: "cas_put ?h c blobs = Some (?h c, ?blobs')"
    using v by (intro cas_put_Some) (simp add: cas_valid_def)
  have room': "roomy env known ?blobs'"
    using cas_insert_valid [OF v c] fin cap inj dkeys_lru(2) [OF v] by (simp add: roomy_def)
  have keys: "set (dkeys (cas_store blobs)) \<subseteq> ?h ` known"
  proof
    fix k
    assume "k \<in> set (dkeys (cas_store blobs))"
    then obtain w where "dget (cas_store blobs) k = Some w"
      by (cases "dget (cas_store blobs) k") (auto simp: dget_None_iff)
    then have "k = ?h w \<and> w \<in> known" using v unfolding cas_valid_def by blast
    then show "k \<in> ?h ` known" by blast
  qed
  have kept: "cas_get ?blobs' k = Some w" if old: "cas_get blobs k = Some w" for k w
  proof (cases "?h c \<in> set (dkeys (cas_store blobs))")
    case True
    then have "dget (cas_store blobs) (?h c) \<noteq> None" by (simp add: dget_None_iff)
    with old show ?thesis by (auto simp: cas_insert_def cas_put_def Let_def cas_get_def dget_move_to_end)
  next
    case False
    then have none: "dget (cas_store blobs) (?h c) = None" by (simp add: dget_None_iff)
    have "set (dkeys (cas_store blobs)) \<subset> ?h ` known" using keys False c by blast
    then have "card (set (dkeys (cas_store blobs))) < card (?h ` known)"
      using fin by (intro psubset_card_mono) auto
    moreover have "card (set (dkeys (cas_store blobs))) = length (cas_store blobs)"
      using v distinct_card [of "dkeys (cas_store blobs)"] by (simp add: cas_valid_def)
    ultimately have "\<not> cas_max_entries blobs \<le> length (cas_store blobs)"
      using cap card_image [OF inj] by simp
    with none old show ?thesis by (auto simp: cas_insert_def cas_put_def Let_def cas_get_def dget_dset)
  qed
  have "cas_get ?blobs' (?h c) = Some c"
  proof (cases "cas_get blobs (?h c)")
    case (Some w)
    then have "?h c = ?h w" "w \<in> known" using v by (auto simp: cas_valid_def cas_get_def)
    with inj c have "w = c" by (auto dest: inj_onD)
    with kept [OF Some] show ?thesis by simp
  qed (simp add: cas_insert_get(2) [OF v])
  with put room' kept show ?thesis by blast
qed

definition blob_file :: "sync_env \<Rightarrow> string \<Rightarrow> vfs_file" where
  "blob_file env c =
     \<lparr>vf_blob_hash = sy_blake2b env c, vf_document_version_id = content_hash env c, vf_is_dirty = True\<rparr>"

definition as_vfs :: "sync_env \<Rightarrow> content \<Rightarrow> (string, vfs_file) dict" where
  "as_vfs env content = map (\<lambda>(p, c). (p, blob_file env c)) content"

definition holds :: "sync_env \<Rightarrow> content \<Rightarrow> cas \<Rightarrow> bool" where
  "holds env content blobs \<longleftrightarrow> (\<forall>c \<in> snd ` set content. cas_get blobs (sy_blake2b env c) = Some c)"

definition keeps :: "cas \<Rightarrow> cas \<Rightarrow> bool" where
  "keeps blobs blobs' \<longleftrightarrow> (\<forall>k w. cas_get blobs k = Some w \<longrightarrow> cas_get blobs' k = Some w)"

lemma holds_kept: "holds env content blobs \<Longrightarrow> keeps blobs blobs' \<Longrightarrow> holds env content blobs'"
  by (auto simp: holds_def keeps_def)

lemma dset_fresh: "k \<notin> set (dkeys d) \<Longrightarrow> dset k v d = d @ [(k, v)]"
  by (induction d) auto

lemma content_to_vfs_spec:
  assumes "roomy env known blobs" and "snd ` set content \<subseteq> known" and "distinct (dkeys (as_vfs env done @ as_vfs env content))"
  shows "\<exists>blobs'. content_to_vfs env content (as_vfs env done) blobs = Some (as_vfs env (done @ content), blobs')
    \<and> roomy env known blobs' \<and> keeps blobs blobs' \<and> holds env content blobs'"
  using assms
proof (induction content arbitrary: blobs "done")
  case Nil
  then show ?case by (simp add: keeps_def holds_def)
next
  case (Cons x content)
  obtain p c where x: "x = (p, c)" by (cases x)
  obtain b1 where b1: "cas_put (sy_blake2b env) c blobs = Some (sy_blake2b env c, b1)" "roomy env known b1"
      "cas_get b1 (sy_blake2b env c) = Some c" "keeps blobs b1"
    using roomy_put [OF Cons.prems(1), of c] Cons.prems(2) x by (auto simp: keeps_def)
  have fresh: "dset p (blob_file env c) (as_vfs env done) = as_vfs env (done @ [x])"
    using Cons.prems(3) x by (subst dset_fresh) (auto simp: as_vfs_def)
  obtain b2 where b2: "content_to_vfs env content (as_vfs env (done @ [x])) b1 = Some (as_vfs env ((done @ [x]) @ content), b2)"
      "roomy env known b2" "keeps b1 b2" "holds env content b2"
    using Cons.IH [OF b1(2), of "done @ [x]"] Cons.prems(2,3) by (auto simp: as_vfs_def)
  have "content_to_vfs env (x # content) (as_vfs env done) blobs = Some (as_vfs env (done @ x # content), b2)"
    using b1(1) b2(1) fresh by (simp add: x blob_file_def)
  moreover have "keeps blobs b2" using b1(4) b2(3) by (simp add: keeps_def)
  moreover have "holds env (x # content) b2" using b1(3) b2(3,4) by (simp add: holds_def keeps_def x)
  ultimately show ?case using b2(2) by blast
qed

subsection \<open>The tree of the candidates\<close>

text \<open>The tree after some candidates: the top node has them as children, scored and unpruned.\<close>

definition scored_tree :: "(nat \<Rightarrow> string) \<Rightarrow> rat list \<Rightarrow> search_tree \<Rightarrow> bool" where
  "scored_tree uuid rs t \<longleftrightarrow> tr_root_id t = uuid 0
     \<and> map_option nd_children (get_node t (uuid 0)) = Some (map (uuid \<circ> Suc) [0..<length rs])
     \<and> (\<forall>j < length rs. \<exists>node. get_node t (uuid (Suc j)) = Some node \<and> \<not> nd_is_pruned node
          \<and> nd_visits node = 1 \<and> nd_total_value node = rs ! j)"

lemma scored_tree_step:
  assumes "inj uuid" and "scored_tree uuid rs t"
  shows "\<exists>t'. expand (uuid (Suc (length rs))) (tr_root_id t) action view ms t = Some t'
    \<and> scored_tree uuid (rs @ [r]) (score_child (uuid (Suc (length rs))) r t')"
proof -
  let ?id = "uuid (Suc (length rs))"
  obtain rn where rn: "get_node t (uuid 0) = Some rn" "nd_children rn = map (uuid \<circ> Suc) [0..<length rs]"
    using assms(2) by (auto simp: scored_tree_def)
  have root: "tr_root_id t = uuid 0" using assms(2) by (simp add: scored_tree_def)
  have ids: "uuid i = uuid j \<longleftrightarrow> i = j" for i j using assms(1) by (auto dest: injD)
  obtain t' where t': "expand ?id (tr_root_id t) action view ms t = Some t'"
      "tr_root_id t' = uuid 0"
      "\<And>k. get_node t' k = (if k = uuid 0 then Some (rn\<lparr>nd_children := nd_children rn @ [?id]\<rparr>)
        else if k = ?id then Some (fresh_node (Some (uuid 0)) view ms (Some action)) else get_node t k)"
    using rn root by (auto simp: expand_def get_node_def dget_dset)
  have node: "get_node (score_child ?id r t') k =
      (if k = uuid 0 then Some (rn\<lparr>nd_children := nd_children rn @ [?id]\<rparr>)
       else if k = ?id then Some (fresh_node (Some (uuid 0)) view ms (Some action)\<lparr>nd_reward := r, nd_visits := 1, nd_total_value := r\<rparr>)
       else get_node t k)" for k
    using t'(3) ids by (auto simp: score_child_def) (auto simp: get_node_def dget_dset)
  have "scored_tree uuid (rs @ [r]) (score_child ?id r t')"
    using assms(2) t'(2) rn(2) unfolding scored_tree_def node
    by (auto simp: ids nth_append less_Suc_eq fresh_node_def score_child_def split: option.splits)
  with t'(1) show ?thesis by blast
qed

lemma strict_mono_ucb: "strict_mono (\<lambda>r. real_of_rat r + K)"
  by (simp add: strict_mono_def of_rat_less)

lemma winner_index_first_max:
  assumes "inj uuid" and tree: "scored_tree uuid rs (an_tree a)" and "rs \<noteq> []"
    and ids: "an_child_ids a = map (uuid \<circ> Suc) [0..<length rs]"
  shows "first_max rs (winner_index a)"
proof -
  let ?n = "length rs" let ?t = "visit_root ?n (an_tree a)" let ?ids = "map (uuid \<circ> Suc) [0..<?n]"
  have inj: "uuid i = uuid j \<longleftrightarrow> i = j" for i j using assms(1) by (auto dest: injD)
  obtain rn where rn: "get_node (an_tree a) (uuid 0) = Some rn" "nd_children rn = ?ids"
    using tree by (auto simp: scored_tree_def)
  have root: "tr_root_id ?t = uuid 0" and top: "get_node ?t (uuid 0) = Some (rn\<lparr>nd_visits := int ?n\<rparr>)"
    using tree rn(1) by (auto simp: scored_tree_def visit_root_def get_node_def dget_dset)
  have child: "\<exists>node. get_node ?t (uuid (Suc j)) = Some node \<and> \<not> nd_is_pruned node \<and> nd_visits node = 1
      \<and> nd_total_value node = rs ! j" if "j < ?n" for j
    using tree rn(1) that inj by (auto simp: scored_tree_def visit_root_def get_node_def dget_dset)
  have "eligible (tr_nodes ?t) (uuid (Suc j))" if "j < ?n" for j
    using child [OF that] by (auto simp: eligible_def get_node_def)
  then have "list_all (eligible (tr_nodes ?t)) ?ids" by (simp add: list_all_iff)
  then have all: "filter (eligible (tr_nodes ?t)) ?ids = ?ids"
    by (simp add: list_all_iff filter_id_conv)
  let ?score = "\<lambda>k. ucb_score (1414 / 1000) (ln (real ?n)) (the (get_node ?t k))"
  let ?K = "1414 / 1000 * sqrt (ln (real ?n))"
  have "map ?score ?ids = map (\<lambda>r. real_of_rat r + ?K) rs"
  proof (rule nth_equalityI)
    fix j
    assume "j < length (map ?score ?ids)"
    then have "j < ?n" by simp
    from child [OF this] this show "map ?score ?ids ! j = map (\<lambda>r. real_of_rat r + ?K) rs ! j"
      by (auto simp: ucb_score_def)
  qed simp
  with best_child_step [OF top, of "1414 / 1000"] all rn(2) \<open>rs \<noteq> []\<close>
  obtain i where i: "first_max (map (\<lambda>r. real_of_rat r + ?K) rs) i"
      "select_best_child ?t (uuid 0) (1414 / 1000) = Some (Some (?ids ! i))"
    by (auto simp: Let_def)
  then have max: "first_max rs i" by (simp add: first_max_strict_mono [OF strict_mono_ucb])
  then have "i < ?n" by (simp add: first_max_def)
  have "distinct ?ids" using inj by (auto simp: distinct_map inj_on_def)
  with \<open>i < ?n\<close> have "index_of (?ids ! i) ?ids = Some i" by (intro index_of_nth) simp_all
  with i(2) max show ?thesis by (simp add: winner_index_def ids root Let_def)
qed

subsection \<open>What the candidates see\<close>

text \<open>The files of a surface at plain paths, and the files after a push on top of them.\<close>

definition plain_contents :: "'s surface \<Rightarrow> 's \<Rightarrow> string \<Rightarrow> string option" where
  "plain_contents sf s = (\<lambda>p. if plain_path p then contents_at sf s p else None)"

definition overlay :: "sync_env \<Rightarrow> content \<Rightarrow> (string \<Rightarrow> string option) \<Rightarrow> string \<Rightarrow> string option" where
  "overlay env content v = (\<lambda>p. case dget content p of None \<Rightarrow> v p | Some c \<Rightarrow> Some (sy_encode env c))"

text \<open>A working set over the paths of the base whose contents the store has room for.\<close>

definition fits :: "content \<Rightarrow> string set \<Rightarrow> content \<Rightarrow> bool" where
  "fits base known cand \<longleftrightarrow> distinct (dkeys cand) \<and> set (dkeys cand) \<subseteq> set (dkeys base) \<and> snd ` set cand \<subseteq> known"

lemma overlay_restores:
  assumes "overlay env base v = v" and "set (dkeys cand) \<subseteq> set (dkeys base)"
  shows "overlay env base (overlay env cand v) = v"
proof
  fix p
  show "overlay env base (overlay env cand v) p = v p"
  proof (cases "dget base p")
    case None
    with assms(2) have "dget cand p = None" by (auto simp: dget_None_iff)
    with None show ?thesis by (simp add: overlay_def)
  next
    case (Some c)
    with fun_cong [OF assms(1), of p] show ?thesis by (simp add: overlay_def)
  qed
qed

context writable_surface
begin

lemma push_content_overlay:
  assumes "writable s P" and "holds env content blobs" and "distinct (dkeys content)" and "set (dkeys content) \<subseteq> P"
  shows "writable (push_content sf env blobs (as_vfs env content) s) P"
    and "plain_contents sf (push_content sf env blobs (as_vfs env content) s) = overlay env content (plain_contents sf s)"
proof -
  have keys: "dkeys (as_vfs env content) = dkeys content"
    by (simp add: as_vfs_def comp_def case_prod_unfold)
  have "list_all (\<lambda>(p, f). p \<in> P \<and> cas_get blobs (vf_blob_hash f) = Some (the (dget content p))) (as_vfs env content)"
    using assms(2,3,4)
    by (fastforce simp: list_all_iff as_vfs_def blob_file_def holds_def map_of_is_SomeI)
  from push_writes_all [OF assms(1) this] assms(3) keys
  have push: "writable (push_content sf env blobs (as_vfs env content) s) P"
      "plain_path q \<Longrightarrow> contents_at sf (push_content sf env blobs (as_vfs env content) s) q
        = (if q \<in> set (dkeys content) then Some (sy_encode env (the (dget content q))) else contents_at sf s q)" for q
    by (simp_all add: push_content_def push_vfs_to_surface_def)
  show "writable (push_content sf env blobs (as_vfs env content) s) P" by (rule push(1))
  have "p \<in> set (dkeys content) \<Longrightarrow> plain_path p" for p
    using assms(1,4) writable_plain by blast
  moreover have "p \<in> set (dkeys content) \<longleftrightarrow> dget content p \<noteq> None" for p
    by (simp add: dget_None_iff)
  ultimately show "plain_contents sf (push_content sf env blobs (as_vfs env content) s) = overlay env content (plain_contents sf s)"
    using push(2) unfolding fun_eq_iff plain_contents_def overlay_def by (auto simp del: set_map split: option.splits)
qed

text \<open>The state between two rounds.\<close>

definition arena_ok :: "(nat \<Rightarrow> string) \<Rightarrow> content \<Rightarrow> string set \<Rightarrow> (string \<Rightarrow> string option) \<Rightarrow> rat list \<Rightarrow> 's arena \<Rightarrow> bool" where
  "arena_ok uuid base known v rs a \<longleftrightarrow> scored_tree uuid rs (an_tree a)
     \<and> an_child_ids a = map (uuid \<circ> Suc) [0..<length rs]
     \<and> roomy env known (an_blobs a) \<and> holds env base (an_blobs a)
     \<and> writable (an_surface a) (set (dkeys base)) \<and> plain_contents sf (an_surface a) = v"

lemma round_isolated:
  assumes ok: "arena_ok uuid base known v rs a" and "inj uuid" and base: "overlay env base v = v" "distinct (dkeys base)"
    and cand: "fits base known cand"
    and verify: "\<And>s. run_verify s = Some (verdict (plain_contents sf s), s)"
  shows "\<exists>a'. tournament_round sf env run_verify uuid ms (as_vfs env base) (length rs) cand a = Some a'
    \<and> arena_ok uuid base known v (rs @ [case_prod verdict_reward (verdict (overlay env cand v))]) a'"
proof -
  let ?P = "set (dkeys base)"
  have a: "scored_tree uuid rs (an_tree a)" "roomy env known (an_blobs a)" "holds env base (an_blobs a)"
      "writable (an_surface a) ?P" "plain_contents sf (an_surface a) = v"
    using ok by (simp_all add: arena_ok_def)
  have c: "distinct (dkeys cand)" "set (dkeys cand) \<subseteq> ?P" "snd ` set cand \<subseteq> known"
    using cand by (simp_all add: fits_def)
  have "distinct (dkeys (as_vfs env [] @ as_vfs env cand))"
    using c(1) by (simp add: as_vfs_def comp_def case_prod_unfold)
  from content_to_vfs_spec [OF a(2) c(3) this] obtain blobs where
    blobs: "content_to_vfs env cand [] (an_blobs a) = Some (as_vfs env cand, blobs)" "roomy env known blobs"
      "keeps (an_blobs a) blobs" "holds env cand blobs" by (auto simp: as_vfs_def)
  have held: "holds env base blobs" by (rule holds_kept [OF a(3) blobs(3)])
  let ?s = "push_content sf env blobs (as_vfs env cand) (an_surface a)"
  note pushed = push_content_overlay [OF a(4) blobs(4) c(1,2), unfolded a(5)]
  note restored = push_content_overlay [OF pushed(1) held base(2) order_refl, unfolded pushed(2) overlay_restores [OF base(1) c(2)]]
  obtain code diag where v: "verdict (overlay env cand v) = (code, diag)" by fastforce
  obtain t where t: "expand (uuid (Suc (length rs))) (tr_root_id (an_tree a)) (''candidate_'' @ show_int (int (length rs)))
        (vfs_to_view (as_vfs env cand)) ms (an_tree a) = Some t"
      "scored_tree uuid (rs @ [verdict_reward code diag]) (score_child (uuid (Suc (length rs))) (verdict_reward code diag) t)"
    using scored_tree_step [OF assms(2) a(1)] by blast
  show ?thesis
    using blobs(1,2) held restored t ok verify [of ?s] pushed(2) v
    by (simp add: tournament_round_def arena_ok_def Let_def)
qed

lemma rounds_isolated:
  assumes "arena_ok uuid base known v rs a" and "inj uuid" and "overlay env base v = v" "distinct (dkeys base)"
    and "list_all (fits base known) cands"
    and "\<And>s. run_verify s = Some (verdict (plain_contents sf s), s)"
  shows "\<exists>a'. tournament_rounds sf env run_verify uuid ms (as_vfs env base) (length rs) cands a = Some a'
    \<and> arena_ok uuid base known v (rs @ map (\<lambda>cand. case_prod verdict_reward (verdict (overlay env cand v))) cands) a'"
  using assms(1,5)
proof (induction cands arbitrary: rs a)
  case (Cons cand cands)
  obtain a1 where a1: "tournament_round sf env run_verify uuid ms (as_vfs env base) (length rs) cand a = Some a1"
      "arena_ok uuid base known v (rs @ [case_prod verdict_reward (verdict (overlay env cand v))]) a1"
    using round_isolated [OF Cons.prems(1) assms(2,3,4) _ assms(6)] Cons.prems(2) by auto
  from Cons.IH [OF a1(2)] Cons.prems(2) a1(1) show ?case by simp
qed simp

lemma tournament_isolated:
  assumes s: "writable s (set (dkeys base))" and base: "overlay env base (plain_contents sf s) = plain_contents sf s"
    and store: "roomy env known blobs" and fit: "list_all (fits base known) (base # cands)" and "cands \<noteq> []"
    and "inj uuid" and verify: "\<And>s. run_verify s = Some (verdict (plain_contents sf s), s)"
  shows "\<exists>w s'. run_tournament sf env run_verify uuid reg ms base cands blobs s = Some ((w, cands ! w), s')
    \<and> first_max (map (\<lambda>cand. case_prod verdict_reward (verdict (overlay env cand (plain_contents sf s)))) cands) w
    \<and> plain_contents sf s' = overlay env (cands ! w) (plain_contents sf s)"
proof -
  let ?v = "plain_contents sf s" let ?rs = "map (\<lambda>cand. case_prod verdict_reward (verdict (overlay env cand ?v))) cands"
  have b: "distinct (dkeys base)" "snd ` set base \<subseteq> known" and fits: "list_all (fits base known) cands"
    using fit by (simp_all add: fits_def)
  have vfs: "distinct (dkeys (as_vfs env [] @ as_vfs env c))" if "distinct (dkeys c)" for c
    using that by (simp add: as_vfs_def comp_def case_prod_unfold)
  from content_to_vfs_spec [OF store b(2) vfs [OF b(1)]] obtain blobs1 where
    blobs1: "content_to_vfs env base [] blobs = Some (as_vfs env base, blobs1)" "roomy env known blobs1" "holds env base blobs1"
    by (auto simp: as_vfs_def)
  let ?a = "\<lparr>an_tree = new_tree (uuid 0) ms (vfs_to_view (as_vfs env base)) reg, an_child_ids = [],
      an_blobs = blobs1, an_surface = s\<rparr>"
  have "arena_ok uuid base known ?v [] ?a"
    using blobs1 s by (simp add: arena_ok_def scored_tree_def new_tree_def get_node_def fresh_node_def)
  from rounds_isolated [OF this assms(6) base b(1) fits, of run_verify verdict ms] verify obtain a where
    a: "tournament_rounds sf env run_verify uuid ms (as_vfs env base) 0 cands ?a = Some a"
      "arena_ok uuid base known ?v ?rs a" by auto
  have max: "first_max ?rs (winner_index a)"
    using a(2) \<open>cands \<noteq> []\<close> by (intro winner_index_first_max [OF assms(6)]) (simp_all add: arena_ok_def)
  then have w: "winner_index a < length cands" by (simp add: first_max_def)
  let ?c = "cands ! winner_index a"
  have c: "fits base known ?c" using fits w by (simp add: list_all_length)
  then have c': "distinct (dkeys ?c)" "set (dkeys ?c) \<subseteq> set (dkeys base)" "snd ` set ?c \<subseteq> known"
    by (simp_all add: fits_def)
  have room: "roomy env known (an_blobs a)" and sur: "writable (an_surface a) (set (dkeys base))"
      "plain_contents sf (an_surface a) = ?v"
    using a(2) by (simp_all add: arena_ok_def)
  from content_to_vfs_spec [OF room c'(3) vfs [OF c'(1)]] obtain blobs2 where
    blobs2: "content_to_vfs env ?c [] (an_blobs a) = Some (as_vfs env ?c, blobs2)" "holds env ?c blobs2"
    by (auto simp: as_vfs_def)
  have "run_tournament sf env run_verify uuid reg ms base cands blobs s
      = Some ((winner_index a, ?c), push_content sf env blobs2 (as_vfs env ?c) (an_surface a))"
    using blobs1(1) a(1) w blobs2(1) by (simp add: run_tournament_def run_tournament_stored_def Let_def)
  with max push_content_overlay(2) [OF sur(1) blobs2(2) c'(1,2)] sur(2) show ?thesis by auto
qed

end

subsection \<open>Properties\<close>

text \<open>
  C25. The tournament is a fair comparison. On a local directory that holds the base, with
  candidates over the paths of the base, a verify command that only reads the files and a
  store with room for all the contents involved, the tournament returns, and its winner is the
  first candidate of the greatest reward among the verdicts that the candidates get alone on
  top of the base: no candidate sees what another one wrote. The surface then holds the base
  with the winner on top.
\<close>

theorem tournament_picks_best_alone:
  assumes "local_writable fs (set (dkeys base))"
    and "overlay env base (plain_contents (local_surface (sy_sha256 env)) fs) = plain_contents (local_surface (sy_sha256 env)) fs"
    and "roomy env known blobs" and "list_all (fits base known) (base # cands)" and "cands \<noteq> []" and "inj uuid"
  shows "\<exists>w fs'. run_tournament (local_surface (sy_sha256 env)) env
        (\<lambda>s. Some (verdict (plain_contents (local_surface (sy_sha256 env)) s), s)) uuid reg ms base cands blobs fs
      = Some ((w, cands ! w), fs')
    \<and> first_max (map (\<lambda>cand. case_prod verdict_reward
        (verdict (overlay env cand (plain_contents (local_surface (sy_sha256 env)) fs)))) cands) w
    \<and> plain_contents (local_surface (sy_sha256 env)) fs'
      = overlay env (cands ! w) (plain_contents (local_surface (sy_sha256 env)) fs)"
  by (rule local_write.tournament_isolated [OF assms refl])

definition sample_arena_fs :: local_fs where
  "sample_arena_fs = \<lparr>lf_base = [''w''], lf_files = [(''a.py'', ''x'')]\<rparr>"

definition sample_uuid :: "nat \<Rightarrow> string" where "sample_uuid n = replicate n CHR ''u''"

definition sample_verdict :: "(string \<Rightarrow> string option) \<Rightarrow> int \<times> string" where
  "sample_verdict v = (if v ''a.py'' = Some ''z'' then (0, []) else (1, ''error''))"

theorem tournament_picks_best_alone_witness:
  "\<exists>fs'. run_tournament (local_surface (sy_sha256 sample_env)) sample_env
      (\<lambda>s. Some (sample_verdict (plain_contents (local_surface (sy_sha256 sample_env)) s), s)) sample_uuid [] None
      [(''a.py'', ''x'')] [[(''a.py'', ''y'')], [(''a.py'', ''z'')]] \<lparr>cas_store = [], cas_max_entries = 3\<rparr> sample_arena_fs
    = Some ((1, [(''a.py'', ''z'')]), fs')"
proof -
  let ?v = "plain_contents (local_surface (sy_sha256 sample_env)) sample_arena_fs"
  have w: "local_writable sample_arena_fs {''a.py''}"
    unfolding local_writable_def by (intro conjI; code_simp)
  have "plain_path ''a.py''" "contents_at (local_surface (sy_sha256 sample_env)) sample_arena_fs ''a.py'' = Some ''x''"
    by code_simp+
  then have v: "overlay sample_env [(''a.py'', ''x'')] ?v = ?v"
    by (auto simp: fun_eq_iff overlay_def plain_contents_def sample_env_def)
  have r: "roomy sample_env {''x'', ''y'', ''z''} \<lparr>cas_store = [], cas_max_entries = 3\<rparr>"
    by (simp add: roomy_def cas_valid_def sample_env_def)
  have f: "list_all (fits [(''a.py'', ''x'')] {''x'', ''y'', ''z''}) [[(''a.py'', ''x'')], [(''a.py'', ''y'')], [(''a.py'', ''z'')]]"
    by (simp add: fits_def)
  have u: "inj sample_uuid" by (auto simp: inj_def sample_uuid_def replicate_eq_replicate)
  have keys: "set (dkeys [(''a.py'', ''x'')]) = {''a.py''}" by simp
  have rewards: "map (\<lambda>cand. case_prod verdict_reward (sample_verdict (overlay sample_env cand ?v)))
      [[(''a.py'', ''y'')], [(''a.py'', ''z'')]] = [verdict_reward 1 ''error'', verdict_reward 0 []]"
    by (simp add: overlay_def sample_verdict_def sample_env_def)
  have "verdict_reward 1 ''error'' < verdict_reward 0 []" by code_simp
  then have "first_max [verdict_reward 1 ''error'', verdict_reward 0 []] 1"
    by (auto simp: first_max_def less_Suc_eq)
  with tournament_picks_best_alone [OF w [folded keys] v r f _ u, of sample_verdict "[]" None] rewards show ?thesis
    using first_max_unique by fastforce
qed

text \<open>
  Room in the store is needed: a base blob that was evicted when the candidate's was stored is
  not written back, and the next candidate starts on top of the last.
\<close>

lemma rollback_needs_base_blobs:
  "map_option (\<lambda>a. lf_files (an_surface a))
     (tournament_round (local_surface (sy_sha256 sample_env)) sample_env (\<lambda>s. Some ((1, ''error''), s)) sample_uuid None
       (as_vfs sample_env [(''a.py'', ''x'')]) 0 [(''a.py'', ''y'')]
       \<lparr>an_tree = new_tree (sample_uuid 0) None [] [], an_child_ids = [],
        an_blobs = \<lparr>cas_store = [(''x'', ''x'')], cas_max_entries = 1\<rparr>, an_surface = sample_arena_fs\<rparr>)
   = Some [(''a.py'', ''y'')]"
  by code_simp

text \<open>
  A tournament without candidates or with a failing verify run does not return: an empty
  list of candidates raises, and so does a batch of envelopes that yields no edit.
\<close>

lemma tournament_needs_candidates:
  "run_tournament sf env run_verify uuid reg ms base [] blobs s = None"
  "batch_candidates extract (ba_results batch) = [] \<Longrightarrow>
     run_tournament_from_dispatch batch (Some extract) sf env run_verify uuid reg ms base blobs s = None"
  by (simp_all add: run_tournament_def run_tournament_stored_def run_tournament_from_dispatch_def Let_def winner_index_def split: option.split prod.split)

end
