(* ===== verification/ImportGraph.thy ===== *)
theory ImportGraph
  imports ApplyGate PyPath
begin

text \<open>
  The graph of imports: the resolver of module names (\<open>core/module_resolver.py\<close>), the resolution
  of an edge to files (\<open>brain/memory.py\<close>, \<open>core/blast_radius.py\<close>), the blast radius of a change
  and the scan for dead files (\<open>core/dead_code.py\<close>). The edges and the indexed files are
  arguments; reading a file and matching the allowlist (\<open>pathspec\<close>) are parameters.
\<close>

subsection \<open>Families of languages\<close>

datatype granularity = by_file | by_directory

record family_config =
  fc_extensions :: "string list"
  fc_separator :: string
  fc_granularity :: granularity
  fc_strip_basenames :: "string list"

definition FAMILY_TABLE :: "(string, family_config) dict" where
  "FAMILY_TABLE =
     [(''python'', \<lparr>fc_extensions = [''.py''], fc_separator = ''.'', fc_granularity = by_file, fc_strip_basenames = [''__init__'']\<rparr>),
      (''java'', \<lparr>fc_extensions = [''.java''], fc_separator = ''.'', fc_granularity = by_file, fc_strip_basenames = []\<rparr>),
      (''kotlin'', \<lparr>fc_extensions = [''.kt''], fc_separator = ''.'', fc_granularity = by_file, fc_strip_basenames = []\<rparr>),
      (''scala'', \<lparr>fc_extensions = [''.scala''], fc_separator = ''.'', fc_granularity = by_file, fc_strip_basenames = []\<rparr>),
      (''csharp'', \<lparr>fc_extensions = [''.cs''], fc_separator = ''.'', fc_granularity = by_file, fc_strip_basenames = []\<rparr>),
      (''rust'', \<lparr>fc_extensions = [''.rs''], fc_separator = ''::'', fc_granularity = by_file, fc_strip_basenames = []\<rparr>),
      (''go'', \<lparr>fc_extensions = [''.go''], fc_separator = ''/'', fc_granularity = by_directory, fc_strip_basenames = []\<rparr>),
      (''lua'', \<lparr>fc_extensions = [''.lua''], fc_separator = ''.'', fc_granularity = by_file, fc_strip_basenames = []\<rparr>),
      (''elixir'', \<lparr>fc_extensions = [''.ex'', ''.exs''], fc_separator = ''.'', fc_granularity = by_file, fc_strip_basenames = []\<rparr>),
      (''haskell'', \<lparr>fc_extensions = [''.hs''], fc_separator = ''.'', fc_granularity = by_file, fc_strip_basenames = []\<rparr>),
      (''php'', \<lparr>fc_extensions = [''.php''], fc_separator = [CHR 0x5C], fc_granularity = by_file, fc_strip_basenames = []\<rparr>)]"

definition EXT_TO_FAMILY :: "(string, string) dict" where
  "EXT_TO_FAMILY = concat (map (\<lambda>(family, cfg). map (\<lambda>ext. (ext, family)) (fc_extensions cfg)) FAMILY_TABLE)"

definition family_for_source :: "string \<Rightarrow> string option" where
  "family_for_source source_file =
     (case from_last_dot (fwd source_file) of None \<Rightarrow> None | Some ext \<Rightarrow> dget EXT_TO_FAMILY (lower ext))"

subsection \<open>Suffix indices\<close>

type_synonym suffix_index = "(string, string list) dict"

text \<open>The first basename that matches is stripped.\<close>

fun strip_base :: "string list \<Rightarrow> string \<Rightarrow> string" where
  "strip_base [] stem = stem"
| "strip_base (b # bases) stem =
     (if ends_with stem (CHR ''/'' # b) then take (length stem - Suc (length b)) stem else strip_base bases stem)"

text \<open>The segments under which a file is registered; \<open>None\<close> if it is not.\<close>

definition stem_parts :: "string list \<Rightarrow> string \<Rightarrow> string \<Rightarrow> string list" where
  "stem_parts strips ext nf = split_on (CHR ''/'') (strip_base strips (take (length nf - length ext) nf))"

definition dir_parts :: "string \<Rightarrow> string list option" where
  "dir_parts nf = (if dirname_of nf = [] then None else Some (split_on (CHR ''/'') (dirname_of nf)))"

definition matched_ext :: "string list \<Rightarrow> string \<Rightarrow> string option" where
  "matched_ext extensions nf = List.find (ends_with nf) extensions"

definition register_suffixes :: "string \<Rightarrow> string list \<Rightarrow> suffix_index \<Rightarrow> suffix_index" where
  "register_suffixes nf parts idx =
     fold (\<lambda>i idx. let key = join ''/'' (drop i parts) in dset key (dget_default idx key [] @ [nf]) idx)
       [0..<length parts] idx"

definition index_file :: "string list \<Rightarrow> granularity \<Rightarrow> string list \<Rightarrow> string \<Rightarrow> suffix_index \<Rightarrow> suffix_index" where
  "index_file extensions gran strips f idx =
     (let nf = fwd f in
      case matched_ext extensions nf of
        None \<Rightarrow> idx
      | Some ext \<Rightarrow>
          (case gran of
             by_file \<Rightarrow> register_suffixes nf (stem_parts strips ext nf) idx
           | by_directory \<Rightarrow> (case dir_parts nf of None \<Rightarrow> idx | Some parts \<Rightarrow> register_suffixes nf parts idx)))"

definition build_suffix_index :: "string list \<Rightarrow> string list \<Rightarrow> granularity \<Rightarrow> string list \<Rightarrow> suffix_index" where
  "build_suffix_index indexed_files extensions gran strips = fold (index_file extensions gran strips) indexed_files []"

text \<open>One file in the single pass over all families.\<close>

definition index_file_any :: "string \<Rightarrow> (string, suffix_index) dict \<Rightarrow> (string, suffix_index) dict" where
  "index_file_any f out =
     (let nf = fwd f in
      case family_for_source f of
        None \<Rightarrow> out
      | Some family \<Rightarrow>
          (case dget FAMILY_TABLE family of
             None \<Rightarrow> out
           | Some cfg \<Rightarrow>
               (case (case fc_granularity cfg of
                        by_file \<Rightarrow> map_option (\<lambda>ext. stem_parts (fc_strip_basenames cfg) ext nf) (matched_ext (fc_extensions cfg) nf)
                      | by_directory \<Rightarrow> dir_parts nf) of
                  None \<Rightarrow> out
                | Some parts \<Rightarrow> dset family (register_suffixes nf parts (dget_default out family [])) out)))"

definition build_all_family_indices :: "string list \<Rightarrow> (string, suffix_index) dict" where
  "build_all_family_indices indexed_files =
     fold index_file_any indexed_files (map (\<lambda>(family, cfg). (family, [])) FAMILY_TABLE)"

definition resolve_via_suffix_index :: "string \<Rightarrow> string \<Rightarrow> suffix_index \<Rightarrow> string list" where
  "resolve_via_suffix_index target separator idx =
     dget_default idx (if separator \<noteq> ''/'' then str_replace separator ''/'' target else target) []"

subsection \<open>From an edge to files\<close>

definition ECMASCRIPT_SUFFIXES :: "string list" where
  "ECMASCRIPT_SUFFIXES = [''.ts'', ''.tsx'', ''.js'', ''.jsx'']"

definition candidate_paths :: "string \<Rightarrow> string list" where
  "candidate_paths target =
     target # map (\<lambda>ext. target @ ext) ECMASCRIPT_SUFFIXES @ map (\<lambda>ext. target @ ''/index'' @ ext) ECMASCRIPT_SUFFIXES"

text \<open>\<open>{f.replace("\\", "/"): f for f in indexed_files}\<close>: the last file wins.\<close>

definition norm_index :: "string list \<Rightarrow> (string, string) dict" where
  "norm_index indexed_files = fold (\<lambda>f. dset (fwd f) f) indexed_files []"

definition resolve_target_to_file :: "string \<Rightarrow> string list \<Rightarrow> (string, string) dict \<Rightarrow> string option" where
  "resolve_target_to_file target indexed norm_indexed =
     (if target \<in> set indexed then Some target
      else case List.find (\<lambda>c. dget norm_indexed c \<noteq> None) (candidate_paths (fwd target)) of
        None \<Rightarrow> None
      | Some hit \<Rightarrow> dget norm_indexed hit)"

definition resolved_target_files_polyglot ::
  "string \<Rightarrow> string \<Rightarrow> string list \<Rightarrow> (string, string) dict \<Rightarrow> (string, suffix_index) dict \<Rightarrow> string list" where
  "resolved_target_files_polyglot source target indexed norm_indexed family_indices =
     (case resolve_target_to_file target indexed norm_indexed of
        Some direct \<Rightarrow> [fwd direct]
      | None \<Rightarrow>
          (case family_for_source source of
             None \<Rightarrow> []
           | Some family \<Rightarrow>
               (case dget FAMILY_TABLE family of
                  None \<Rightarrow> []
                | Some cfg \<Rightarrow>
                    resolve_via_suffix_index target (fc_separator cfg) (dget_default family_indices family []))))"

definition resolved_target_files ::
  "string \<Rightarrow> string list \<Rightarrow> (string, string) dict \<Rightarrow> suffix_index \<Rightarrow> string list" where
  "resolved_target_files target indexed norm_indexed py_index =
     (case resolve_target_to_file target indexed norm_indexed of
        Some direct \<Rightarrow> [fwd direct]
      | None \<Rightarrow>
          if CHR ''/'' \<notin> set target \<and> CHR 0x5C \<notin> set target
          then dget_default py_index (str_replace ''.'' ''/'' target) [] else [])"

subsection \<open>The blast radius\<close>

definition MAX_BLAST_EDGES :: nat where "MAX_BLAST_EDGES = 20000"

definition DEFAULT_DEPTH :: int where "DEFAULT_DEPTH = 3"

type_synonym adjacency = "(string, string list) dict"

definition add_dependent :: "string \<Rightarrow> string \<Rightarrow> adjacency \<Rightarrow> adjacency" where
  "add_dependent source resolved rev_adj = dset resolved (List.insert source (dget_default rev_adj resolved [])) rev_adj"

definition build_reverse_adjacency :: "(string \<times> string) list \<Rightarrow> string list \<Rightarrow> adjacency" where
  "build_reverse_adjacency edges indexed_files =
     (let norm_indexed = norm_index indexed_files; family_indices = build_all_family_indices indexed_files
      in fold (\<lambda>(source, target). fold (add_dependent (fwd source))
           (resolved_target_files_polyglot source target indexed_files norm_indexed family_indices)) edges [])"

text \<open>The forms are a set in the code; only the order of the result depends on their order.\<close>

definition seed_forms :: "string \<Rightarrow> string \<Rightarrow> string list" where
  "seed_forms seed workspace =
     (let ns = fwd seed in
      if workspace \<noteq> [] \<and> \<not> starts_with ns ''/'' \<and> \<not> (1 < length ns \<and> ns ! 1 = CHR '':'')
      then List.insert ns [normpath (posix_join (fwd workspace) ns)] else [ns])"

definition seed_frontier :: "string list \<Rightarrow> string \<Rightarrow> string list" where
  "seed_frontier seeds workspace =
     fold (\<lambda>form visited. if form \<in> set visited then visited else visited @ [form])
       (concat (map (\<lambda>seed. seed_forms seed workspace) seeds)) []"

fun visit :: "string list \<Rightarrow> string list \<Rightarrow> string list \<Rightarrow> string list \<times> string list" where
  "visit [] visited found = (visited, found)"
| "visit (dep # ds) visited found =
     (if dep \<in> set visited then visit ds visited found
      else visit ds (visited @ [dep]) (found @ [dep]))"

text \<open>One hop: the dependents of every node of the frontier, in order.\<close>

definition hop :: "adjacency \<Rightarrow> string list \<Rightarrow> string list \<Rightarrow> string list \<times> string list" where
  "hop rev_adj frontier visited =
     visit (concat (map (\<lambda>node. sort (dget_default rev_adj node [])) frontier)) visited []"

fun walk :: "nat \<Rightarrow> adjacency \<Rightarrow> string list \<Rightarrow> string list \<Rightarrow> string list" where
  "walk 0 rev_adj visited frontier = []"
| "walk (Suc d) rev_adj visited frontier =
     (if frontier = [] then []
      else case hop rev_adj frontier visited of (visited', found) \<Rightarrow> found @ walk d rev_adj visited' found)"

definition compute_blast_radius ::
  "string list \<Rightarrow> (string \<times> string) list \<Rightarrow> string list \<Rightarrow> int \<Rightarrow> string \<Rightarrow> string list" where
  "compute_blast_radius seeds edges indexed_files depth workspace =
     (if MAX_BLAST_EDGES < length edges then []
      else (let frontier = seed_frontier seeds workspace
            in walk (nat depth) (build_reverse_adjacency edges indexed_files) frontier frontier))"

subsection \<open>Dead files\<close>

definition ENTRYPOINT_CONTENT_MARKERS :: "string list" where
  "ENTRYPOINT_CONTENT_MARKERS =
     [''@app.get('', ''@app.post('', ''@app.put('', ''@app.delete('', ''@app.websocket('', ''@app.middleware('',
      ''@router.get('', ''@router.post('', ''@router.put('', ''@router.delete('', ''@router.websocket('',
      ''if __name__ == '' @ [CHR 0x22] @ ''__main__'' @ [CHR 0x22],
      ''if __name__ == '' @ [CHR 0x27] @ ''__main__'' @ [CHR 0x27],
      ''register_tool('', ''register_analyst_tools('', ''register_schema('']"

definition to_relpath :: "string \<Rightarrow> string \<Rightarrow> string" where
  "to_relpath file_path workspace =
     (let norm_file = fwd file_path; norm_root = rstrip_slash (fwd workspace)
      in if norm_root \<noteq> [] \<and> norm_file = norm_root then []
         else if norm_root \<noteq> [] \<and> starts_with norm_file (norm_root @ ''/'') then drop (Suc (length norm_root)) norm_file
         else norm_file)"

text \<open>The patterns \<open>test_*.py\<close>, \<open>*_test.py\<close> and \<open>conftest.py\<close> beside \<open>main.py\<close>.\<close>

definition is_filename_entrypoint :: "string \<Rightarrow> bool" where
  "is_filename_entrypoint file_path =
     (let base = basename (fwd file_path)
      in base = ''main.py'' \<or> (starts_with base ''test_'' \<and> ends_with base ''.py'')
         \<or> ends_with base ''_test.py'' \<or> base = ''conftest.py'')"

definition matches_content_markers :: "string option \<Rightarrow> bool" where
  "matches_content_markers content =
     (case content of
        None \<Rightarrow> False
      | Some c \<Rightarrow> list_ex (\<lambda>marker. find_sub marker c \<noteq> None) ENTRYPOINT_CONTENT_MARKERS)"

definition is_allowlisted :: "(string list \<Rightarrow> string \<Rightarrow> bool) \<Rightarrow> string list \<Rightarrow> string \<Rightarrow> bool" where
  "is_allowlisted match_file patterns rel \<longleftrightarrow> patterns \<noteq> [] \<and> match_file patterns rel"

definition resolve_in_degree :: "(string \<times> string) list \<Rightarrow> string list \<Rightarrow> (string, nat) dict" where
  "resolve_in_degree edges indexed_files =
     (let norm_indexed = norm_index indexed_files;
          py_index = build_suffix_index indexed_files [''.py''] by_file [''__init__'']
      in fold (\<lambda>(source, target). fold (\<lambda>resolved d. dset resolved (dget_default d resolved 0 + 1) d)
           (resolved_target_files target indexed_files norm_indexed py_index)) edges
         (fold (\<lambda>f. dset f 0) indexed_files []))"

definition compute_dead_code ::
  "(string list \<Rightarrow> string \<Rightarrow> bool) \<Rightarrow> (string \<Rightarrow> string option) \<Rightarrow> (string \<times> string) list \<Rightarrow> string list
   \<Rightarrow> string \<Rightarrow> string list \<Rightarrow> string list" where
  "compute_dead_code match_file content_reader edges indexed_files workspace patterns =
     map (\<lambda>f. to_relpath f workspace)
       (filter (\<lambda>f. dget_default (resolve_in_degree edges indexed_files) f 0 = 0
            \<and> \<not> is_filename_entrypoint f
            \<and> \<not> is_allowlisted match_file patterns (to_relpath f workspace)
            \<and> \<not> matches_content_markers (content_reader f)) (sort indexed_files))"

subsection \<open>The single pass agrees with the index of each family\<close>

lemma lower_dot [simp]: "lower (CHR ''.'' # s) = CHR ''.'' # lower s"
  by (simp add: lower_def lower_char_def is_upper_def)

lemma from_last_dot_ext:
  assumes "CHR ''.'' \<notin> set e"
  shows "from_last_dot s = Some (CHR ''.'' # e) \<longleftrightarrow> ends_with s (CHR ''.'' # e)"
proof
  assume "from_last_dot s = Some (CHR ''.'' # e)"
  then have dot: "CHR ''.'' \<in> set s" and e: "rev e = takeWhile (\<lambda>c. c \<noteq> CHR ''.'') (rev s)"
    by (auto simp: from_last_dot_def split: if_splits)
  obtain x r where x: "dropWhile (\<lambda>c. c \<noteq> CHR ''.'') (rev s) = x # r"
    using dot by (cases "dropWhile (\<lambda>c. c \<noteq> CHR ''.'') (rev s)") (auto simp: dropWhile_eq_Nil_conv)
  then have "x = CHR ''.''" by (simp add: dropWhile_eq_Cons_conv)
  with x have r: "dropWhile (\<lambda>c. c \<noteq> CHR ''.'') (rev s) = CHR ''.'' # r" by simp
  have "rev s = rev e @ CHR ''.'' # r"
    using takeWhile_dropWhile_id [of "\<lambda>c. c \<noteq> CHR ''.''" "rev s"] e r by simp
  then have "s = rev (rev e @ CHR ''.'' # r)" by (metis rev_rev_ident)
  then show "ends_with s (CHR ''.'' # e)" by (auto simp: ends_with_iff)
next
  assume "ends_with s (CHR ''.'' # e)"
  then obtain r where s: "s = r @ CHR ''.'' # e" by (auto simp: ends_with_iff)
  have "takeWhile (\<lambda>c. c \<noteq> CHR ''.'') (rev e @ CHR ''.'' # rev r) = rev e"
    using assms by (subst takeWhile_append2) auto
  with s show "from_last_dot s = Some (CHR ''.'' # e)" by (simp add: from_last_dot_def)
qed

lemma family_extensions:
  "list_all (\<lambda>(fam, cfg). list_all (\<lambda>e. starts_with e ''.'' \<and> CHR ''.'' \<notin> set (tl e) \<and> lower e = e
      \<and> dget EXT_TO_FAMILY e = Some fam) (fc_extensions cfg)) FAMILY_TABLE"
  by code_simp

lemma matched_family:
  assumes "dget FAMILY_TABLE fam = Some cfg" and "matched_ext (fc_extensions cfg) (fwd f) = Some e"
  shows "family_for_source f = Some fam"
proof -
  have e: "e \<in> set (fc_extensions cfg)" "ends_with (fwd f) e"
    using assms(2) by (auto simp: matched_ext_def find_Some_iff)
  have "(fam, cfg) \<in> set FAMILY_TABLE" using assms(1) by (rule map_of_SomeD)
  with e(1) have facts: "starts_with e ''.''" "CHR ''.'' \<notin> set (tl e)" "lower e = e" "dget EXT_TO_FAMILY e = Some fam"
    using family_extensions unfolding list_all_iff by fastforce+
  then have "e = CHR ''.'' # tl e" by (auto simp: starts_with_iff)
  with from_last_dot_ext [OF facts(2)] e(2) have "from_last_dot (fwd f) = Some e" by simp
  with facts show ?thesis by (simp add: family_for_source_def)
qed

lemma index_file_any_family:
  assumes table: "dget FAMILY_TABLE fam = Some cfg" and out: "dget out fam = Some idx"
    and dir: "fc_granularity cfg = by_directory \<Longrightarrow> family_for_source f = Some fam \<Longrightarrow>
      matched_ext (fc_extensions cfg) (fwd f) \<noteq> None"
  shows "dget (index_file_any f out) fam
    = Some (index_file (fc_extensions cfg) (fc_granularity cfg) (fc_strip_basenames cfg) f idx)"
proof (cases "family_for_source f = Some fam")
  case True
  then show ?thesis
    using table out dir
    by (cases "fc_granularity cfg")
      (auto simp: index_file_any_def index_file_def Let_def dget_dset dget_default_def split: option.splits)
next
  case False
  then have "matched_ext (fc_extensions cfg) (fwd f) = None"
    using matched_family [OF table] by (cases "matched_ext (fc_extensions cfg) (fwd f)") auto
  with False out show ?thesis
    by (auto simp: index_file_any_def index_file_def Let_def dget_dset split: option.splits)
qed

lemma single_pass_fold:
  assumes "dget FAMILY_TABLE fam = Some cfg" and "dget out fam = Some idx"
    and "\<And>f. f \<in> set files \<Longrightarrow> fc_granularity cfg = by_directory \<Longrightarrow> family_for_source f = Some fam \<Longrightarrow>
      matched_ext (fc_extensions cfg) (fwd f) \<noteq> None"
  shows "dget (fold index_file_any files out) fam
    = Some (fold (index_file (fc_extensions cfg) (fc_granularity cfg) (fc_strip_basenames cfg)) files idx)"
  using assms(2,3)
proof (induction files arbitrary: out idx)
  case (Cons f files)
  from index_file_any_family [OF assms(1) Cons.prems(1), of f] Cons.prems(2)
  have "dget (index_file_any f out) fam
    = Some (index_file (fc_extensions cfg) (fc_granularity cfg) (fc_strip_basenames cfg) f idx)" by auto
  from Cons.IH [OF this] Cons.prems(2) show ?case by simp
qed simp

subsection \<open>The walk and its hops\<close>

definition importers :: "adjacency \<Rightarrow> (string \<times> string) set" where
  "importers rev_adj = {(a, b). b \<in> set (dget_default rev_adj a [])}"

definition within_hops :: "('a \<times> 'a) set \<Rightarrow> nat \<Rightarrow> 'a set \<Rightarrow> 'a set" where
  "within_hops R d S = {y. \<exists>k \<le> d. \<exists>s \<in> S. (s, y) \<in> R ^^ k}"

lemma within_hops_0 [simp]: "within_hops R 0 S = S"
  by (auto simp: within_hops_def)

lemma within_hops_Suc: "within_hops R (Suc d) S = within_hops R d (S \<union> R `` S)"
proof (intro set_eqI iffI)
  fix y
  assume "y \<in> within_hops R (Suc d) S"
  then obtain k s where k: "k \<le> Suc d" "s \<in> S" "(s, y) \<in> R ^^ k" by (auto simp: within_hops_def)
  show "y \<in> within_hops R d (S \<union> R `` S)"
  proof (cases k)
    case 0
    with k show ?thesis by (auto simp: within_hops_def intro!: exI [of _ 0])
  next
    case (Suc j)
    with k(3) obtain z where "(s, z) \<in> R" "(z, y) \<in> R ^^ j" by (meson relpow_Suc_D2)
    with k(1,2) Suc show ?thesis by (auto simp: within_hops_def)
  qed
next
  fix y
  assume "y \<in> within_hops R d (S \<union> R `` S)"
  then obtain k z where k: "k \<le> d" "z \<in> S \<union> R `` S" "(z, y) \<in> R ^^ k" by (auto simp: within_hops_def)
  show "y \<in> within_hops R (Suc d) S"
  proof (cases "z \<in> S")
    case True
    with k show ?thesis by (auto simp: within_hops_def intro!: exI [of _ k])
  next
    case False
    with k(2) obtain s where "s \<in> S" "(s, z) \<in> R" by auto
    with k show ?thesis by (auto simp: within_hops_def intro!: exI [of _ "Suc k"] relpow_Suc_I2)
  qed
qed

lemma within_hops_closed: "R `` S \<subseteq> S \<Longrightarrow> within_hops R d S = S"
  by (induction d) (simp_all add: within_hops_Suc Un_absorb2)

lemma subset_within_hops: "S \<subseteq> within_hops R d S"
  by (auto simp: within_hops_def intro!: exI [of _ 0])

lemma visit_spec:
  "\<exists>new. visit ds visited found = (visited @ new, found @ new) \<and> distinct new \<and> set new = set ds - set visited"
proof (induction ds arbitrary: visited found)
  case (Cons x ds)
  show ?case
  proof (cases "x \<in> set visited")
    case True
    with Cons.IH [of visited found] show ?thesis by auto
  next
    case False
    obtain new where "visit ds (visited @ [x]) (found @ [x]) = ((visited @ [x]) @ new, (found @ [x]) @ new)"
        "distinct new" "set new = set ds - set (visited @ [x])"
      using Cons.IH by blast
    with False show ?thesis by (intro exI [of _ "x # new"]) auto
  qed
qed simp

lemma walk_spec:
  assumes "set frontier \<subseteq> set visited" and "importers rev_adj `` (set visited - set frontier) \<subseteq> set visited"
  shows "distinct (walk d rev_adj visited frontier)
    \<and> set (walk d rev_adj visited frontier) = within_hops (importers rev_adj) d (set visited) - set visited"
  using assms
proof (induction d arbitrary: visited frontier)
  case (Suc d)
  let ?R = "importers rev_adj"
  show ?case
  proof (cases "frontier = []")
    case True
    with Suc.prems have "?R `` set visited \<subseteq> set visited" by simp
    with True show ?thesis by (simp add: within_hops_closed)
  next
    case False
    let ?ds = "concat (map (\<lambda>node. sort (dget_default rev_adj node [])) frontier)"
    have ds: "set ?ds = ?R `` set frontier" by (auto simp: importers_def)
    obtain new where "visit ?ds visited [] = (visited @ new, [] @ new)" "distinct new" "set new = set ?ds - set visited"
      using visit_spec by blast
    then have new: "hop rev_adj frontier visited = (visited @ new, new)" "distinct new"
        "set new = ?R `` set frontier - set visited"
      unfolding ds by (simp_all add: hop_def)
    have all: "set (visited @ new) = set visited \<union> ?R `` set visited"
      unfolding set_append new(3) using Suc.prems by blast
    have "distinct (walk d rev_adj (visited @ new) new)
      \<and> set (walk d rev_adj (visited @ new) new) = within_hops ?R d (set (visited @ new)) - set (visited @ new)"
      using all new(3) by (intro Suc.IH) auto
    moreover have "set new \<subseteq> within_hops ?R d (set (visited @ new))"
      using subset_within_hops [of "set (visited @ new)" ?R d] by auto
    ultimately show ?thesis
      using new False unfolding within_hops_Suc all [symmetric] by auto
  qed
qed simp

text \<open>An edge of the graph from a file to the file that imports it.\<close>

definition imported_by :: "(string \<times> string) list \<Rightarrow> string list \<Rightarrow> (string \<times> string) set" where
  "imported_by edges files =
     {(a, b). \<exists>(source, target) \<in> set edges. b = fwd source
        \<and> a \<in> set (resolved_target_files_polyglot source target files (norm_index files) (build_all_family_indices files))}"

lemma importers_add: "importers (add_dependent source a rev_adj) = insert (a, source) (importers rev_adj)"
  by (auto simp: importers_def add_dependent_def dget_default_dset split: if_splits)

lemma importers_add_all:
  "importers (fold (add_dependent source) xs rev_adj) = importers rev_adj \<union> (\<lambda>a. (a, source)) ` set xs"
  by (induction xs arbitrary: rev_adj) (auto simp: importers_add)

lemma importers_reverse_adjacency: "importers (build_reverse_adjacency edges files) = imported_by edges files"
proof -
  have "importers (fold (\<lambda>(source, target). fold (add_dependent (fwd source)) (res source target)) es rev_adj)
      = importers rev_adj \<union> {(a, b). \<exists>(source, target) \<in> set es. b = fwd source \<and> a \<in> set (res source target)}"
    for res es rev_adj
    by (induction es arbitrary: rev_adj) (auto simp: importers_add_all)
  from this [of "\<lambda>source target. resolved_target_files_polyglot source target files (norm_index files)
      (build_all_family_indices files)" edges "[]"] show ?thesis
    by (simp add: build_reverse_adjacency_def imported_by_def Let_def) (simp add: importers_def dget_default_def)
qed

lemma set_seed_frontier:
  "set (seed_frontier seeds ws) = (\<Union>seed \<in> set seeds. set (seed_forms seed ws))"
proof -
  have "set (fold (\<lambda>form visited. if form \<in> set visited then visited else visited @ [form]) xs acc) = set acc \<union> set xs"
    for xs acc :: "string list"
    by (induction xs arbitrary: acc) auto
  then show ?thesis by (simp add: seed_frontier_def)
qed

text \<open>The number of edges that name a file, counted over the texts of their targets.\<close>

definition names_file :: "(string \<times> string) list \<Rightarrow> string list \<Rightarrow> string \<Rightarrow> bool" where
  "names_file edges files f \<longleftrightarrow> (\<exists>(source, target) \<in> set edges.
     f \<in> set (resolved_target_files target files (norm_index files)
       (build_suffix_index files [''.py''] by_file [''__init__''])))"

lemma counts_zero:
  "dget_default (fold (\<lambda>(source, target). fold (\<lambda>r d. dset r (dget_default d r 0 + 1) d) (res target)) edges d) f (0 :: nat) = 0
    \<longleftrightarrow> dget_default d f 0 = 0 \<and> (\<forall>(source, target) \<in> set edges. f \<notin> set (res target))"
proof (induction edges arbitrary: d)
  case (Cons e edges)
  have "dget_default (fold (\<lambda>r d. dset r (dget_default d r 0 + 1) d) rs d) f (0 :: nat) = 0
      \<longleftrightarrow> dget_default d f 0 = 0 \<and> f \<notin> set rs" for rs d
    by (induction rs arbitrary: d) (auto simp: dget_default_dset)
  with Cons show ?case by (cases e) auto
qed simp

lemma in_degree_zero: "dget_default (resolve_in_degree edges files) f 0 = 0 \<longleftrightarrow> \<not> names_file edges files f"
proof -
  have "dget_default (fold (\<lambda>f. dset f 0) fs d) f (0 :: nat) = 0" if "dget_default d f 0 = 0" for fs d
    using that by (induction fs arbitrary: d) (auto simp: dget_default_dset)
  then have base: "dget_default (fold (\<lambda>f. dset f 0) files []) f (0 :: nat) = 0"
    by (simp add: dget_default_def)
  show ?thesis
    unfolding resolve_in_degree_def Let_def counts_zero names_file_def base by blast
qed

subsection \<open>Properties\<close>

text \<open>
  C33. The blast radius is exact. On a graph within the ceiling of edges the result lists,
  without repetition, exactly the files that reach a form of a seed over at most \<open>depth\<close> edges
  of imports, each resolved to files as the resolver does, and are not seeds themselves;
  cycles of imports do no harm.
\<close>

theorem blast_radius_exact:
  assumes "length edges \<le> MAX_BLAST_EDGES"
  shows "distinct (compute_blast_radius seeds edges files d ws)
    \<and> set (compute_blast_radius seeds edges files d ws)
      = within_hops (imported_by edges files) (nat d) (\<Union>seed \<in> set seeds. set (seed_forms seed ws))
        - (\<Union>seed \<in> set seeds. set (seed_forms seed ws))"
  using walk_spec [of "seed_frontier seeds ws" "seed_frontier seeds ws" "build_reverse_adjacency edges files" "nat d"] assms
  unfolding importers_reverse_adjacency set_seed_frontier by (simp add: compute_blast_radius_def Let_def)

definition demo_edges :: "(string \<times> string) list" where
  "demo_edges = [(''/w/b.py'', ''a''), (''/w/c.py'', ''b''), (''/w/a.py'', ''c'')]"

definition demo_files :: "string list" where
  "demo_files = [''/w/a.py'', ''/w/b.py'', ''/w/c.py'']"

lemma demo_walk: "compute_blast_radius [''a.py''] demo_edges demo_files 3 ''/w'' = [''/w/b.py'', ''/w/c.py'']"
  by code_simp

lemma demo_forms: "(\<Union>seed \<in> set [''a.py'']. set (seed_forms seed ''/w'')) = {''a.py'', ''/w/a.py''}"
proof -
  have "seed_forms ''a.py'' ''/w'' = [''a.py'', ''/w/a.py'']" by code_simp
  then show ?thesis by simp
qed

theorem blast_radius_exact_witness:
  "within_hops (imported_by demo_edges demo_files) 3 {''a.py'', ''/w/a.py''} - {''a.py'', ''/w/a.py''}
     = {''/w/b.py'', ''/w/c.py''}"
proof -
  have "length demo_edges \<le> MAX_BLAST_EDGES" by (simp add: demo_edges_def MAX_BLAST_EDGES_def)
  from blast_radius_exact [OF this, of "[''a.py'']" demo_files 3 "''/w''"] show ?thesis
    unfolding demo_walk demo_forms by simp
qed

text \<open>
  C6. A wide change waits for the operator. With the mapper on the project's graph in the
  place of the gate's parameter, and on a graph within the ceiling of edges, past which the mapper
  reports no dependents, a commit whose files, together with those the mission has already
  written, are imported within three hops by strictly more files than the threshold is never
  allowed on its own and never auto-accepted, in any session mode; a change that reaches the
  threshold exactly is left to the mode.
\<close>

theorem wide_change_reviewed:
  assumes "pe_blast_radius pe = (\<lambda>paths. Some (compute_blast_radius paths edges files DEFAULT_DEPTH ws))"
    and "length edges \<le> MAX_BLAST_EDGES"
    and "S = (\<Union>p \<in> set (already_touched state @ paths). set (seed_forms p ws))"
    and "pe_blast_threshold pe < card (within_hops (imported_by edges files) 3 S - S)"
  shows "write_verdict pe state paths mode = (HITL, False)"
proof -
  let ?r = "compute_blast_radius (sort (remdups (already_touched state @ paths))) edges files DEFAULT_DEPTH ws"
  have "distinct ?r" "set ?r = within_hops (imported_by edges files) 3 S - S"
    using walk_spec [of "seed_frontier (sort (remdups (already_touched state @ paths))) ws"
        "seed_frontier (sort (remdups (already_touched state @ paths))) ws" "build_reverse_adjacency edges files" 3]
      assms(2,3)
    unfolding importers_reverse_adjacency set_seed_frontier
    by (simp_all add: compute_blast_radius_def DEFAULT_DEPTH_def Let_def)
  then have "length ?r = card (within_hops (imported_by edges files) 3 S - S)"
    by (metis distinct_card)
  with assms(1,4) show ?thesis by (simp add: write_verdict_def blast_affected_def Let_def)
qed

definition demo_gate :: apply_env where
  "demo_gate = demo_pe\<lparr>pe_blast_threshold := 1,
     pe_blast_radius := (\<lambda>paths. Some (compute_blast_radius paths demo_edges demo_files DEFAULT_DEPTH ''/w''))\<rparr>"

theorem wide_change_reviewed_witness:
  "write_verdict demo_gate demo_state [''a.py''] FULL_AUTO = (HITL, False)"
proof (rule wide_change_reviewed)
  show "pe_blast_radius demo_gate = (\<lambda>paths. Some (compute_blast_radius paths demo_edges demo_files DEFAULT_DEPTH ''/w''))"
    by (simp add: demo_gate_def)
  show small: "length demo_edges \<le> MAX_BLAST_EDGES" by (simp add: demo_edges_def MAX_BLAST_EDGES_def)
  have "already_touched demo_state = []"
    by (simp add: already_touched_def demo_state_def fresh_state_def)
  then show "{''a.py'', ''/w/a.py''} = (\<Union>p \<in> set (already_touched demo_state @ [''a.py'']). set (seed_forms p ''/w''))"
    using demo_forms by simp
  have "set (walk 3 (build_reverse_adjacency demo_edges demo_files) (seed_frontier [''a.py''] ''/w'')
      (seed_frontier [''a.py''] ''/w'')) = {''/w/b.py'', ''/w/c.py''}"
    using demo_walk small by (simp add: compute_blast_radius_def Let_def)
  then have "within_hops (imported_by demo_edges demo_files) 3 {''a.py'', ''/w/a.py''} - {''a.py'', ''/w/a.py''}
      = {''/w/b.py'', ''/w/c.py''}"
    using walk_spec [of "seed_frontier [''a.py''] ''/w''" "seed_frontier [''a.py''] ''/w''"
        "build_reverse_adjacency demo_edges demo_files" 3]
    unfolding importers_reverse_adjacency set_seed_frontier demo_forms by simp
  then show "pe_blast_threshold demo_gate
      < card (within_hops (imported_by demo_edges demo_files) 3 {''a.py'', ''/w/a.py''} - {''a.py'', ''/w/a.py''})"
    by (simp add: demo_gate_def)
qed

text \<open>
  The single pass builds the index of every family. For each language of the table the
  index that the one pass over all files builds is the one that the family's own pass builds;
  for the family indexed by directory this needs its files to carry the extension in lower case.
\<close>

theorem single_pass_builds_family_index:
  assumes "dget FAMILY_TABLE fam = Some cfg"
    and "\<And>f. f \<in> set files \<Longrightarrow> fc_granularity cfg = by_directory \<Longrightarrow> family_for_source f = Some fam \<Longrightarrow>
      matched_ext (fc_extensions cfg) (fwd f) \<noteq> None"
  shows "dget (build_all_family_indices files) fam
    = Some (build_suffix_index files (fc_extensions cfg) (fc_granularity cfg) (fc_strip_basenames cfg))"
proof -
  have "dget t fam = Some cfg \<Longrightarrow> dget (map (\<lambda>(family, cfg). (family, [])) t) fam = Some ([] :: suffix_index)"
    for t :: "(string, family_config) dict"
    by (induction t) (auto split: if_splits)
  from single_pass_fold [OF assms(1) this [OF assms(1)] assms(2)] show ?thesis
    by (simp add: build_all_family_indices_def build_suffix_index_def)
qed

theorem single_pass_builds_family_index_witness:
  "dget (build_all_family_indices [''/w/pkg/a.go'', ''/w/b.py'']) ''go''
     = Some (build_suffix_index [''/w/pkg/a.go'', ''/w/b.py''] [''.go''] by_directory [])"
proof -
  let ?cfg = "\<lparr>fc_extensions = [''.go''], fc_separator = ''/'', fc_granularity = by_directory, fc_strip_basenames = []\<rparr>"
  have table: "dget FAMILY_TABLE ''go'' = Some ?cfg" by (simp add: FAMILY_TABLE_def)
  have ext: "matched_ext [''.go''] (fwd ''/w/pkg/a.go'') \<noteq> None" "family_for_source ''/w/b.py'' = Some ''python''"
    by code_simp+
  have lower: "matched_ext (fc_extensions ?cfg) (fwd f) \<noteq> None"
    if "f \<in> set [''/w/pkg/a.go'', ''/w/b.py'']" "family_for_source f = Some ''go''" for f
  proof (cases "f = ''/w/pkg/a.go''")
    case False
    with that(1) have "f = ''/w/b.py''" by simp
    with that(2) ext(2) show ?thesis by simp
  qed (use ext(1) in simp)
  have "dget (build_all_family_indices [''/w/pkg/a.go'', ''/w/b.py'']) ''go''
    = Some (build_suffix_index [''/w/pkg/a.go'', ''/w/b.py''] (fc_extensions ?cfg) (fc_granularity ?cfg) (fc_strip_basenames ?cfg))"
    by (rule single_pass_builds_family_index [OF table]) (rule lower)
  then show ?thesis by (simp only: family_config.select_convs)
qed

text \<open>
  The dead files are exact. What is reported are the paths, relative to the workspace, of
  exactly those indexed files that no edge names after resolution, whose name is not that of an
  entry point, that the allowlist does not match and whose readable content holds no marker.
\<close>

theorem dead_code_exact:
  "set (compute_dead_code match_file content_reader edges files ws patterns)
     = {to_relpath f ws | f. f \<in> set files \<and> \<not> names_file edges files f \<and> \<not> is_filename_entrypoint f
         \<and> \<not> (patterns \<noteq> [] \<and> match_file patterns (to_relpath f ws))
         \<and> \<not> (\<exists>c marker. content_reader f = Some c \<and> marker \<in> set ENTRYPOINT_CONTENT_MARKERS \<and> find_sub marker c \<noteq> None)}"
  unfolding compute_dead_code_def in_degree_zero is_allowlisted_def
  by (auto simp: matches_content_markers_def list_ex_iff split: option.splits)

text \<open>
  A file that cannot be read is an orphan even where its content is an entry point, and a file
  that is indexed with backslashes is one however often it is imported.
\<close>

lemma unreadable_entrypoint_reported:
  "compute_dead_code m (\<lambda>_. None) [] [''/w/routes.py''] ''/w'' [] = [''routes.py'']
   \<and> compute_dead_code m (\<lambda>_. Some ''@app.get('') [] [''/w/routes.py''] ''/w'' [] = []"
  by code_simp

lemma backslash_file_always_reported:
  "compute_dead_code m (\<lambda>_. None) [(''/w/main.py'', ''a'')] [''/w'' @ [CHR 0x5C] @ ''a.py'', ''/w/main.py''] ''/w'' [] = [''a.py'']
   \<and> compute_dead_code m (\<lambda>_. None) [(''/w/main.py'', ''a'')] [''/w/a.py'', ''/w/main.py''] ''/w'' [] = []"
  by code_simp

end
