(* ===== verification/IndexQueue.thy ===== *)
theory IndexQueue
  imports PyText
begin

text \<open>
  The two queues in front of the indexer: the debouncer of file events (\<open>core/io_coalescer.py\<close>)
  and the single-flight coordinator per file (\<open>SingleFlightCoordinator\<close> of \<open>core/indexer.py\<close>). Both
  are state machines over the events of the loop: a submit, the end of the debounce sleep, the end
  of an awaited call. A submit cancels the flush task; a cancelled call does not end normally.
\<close>

subsection \<open>The debouncer\<close>

definition UNLINK_SENTINEL :: string where "UNLINK_SENTINEL = ''__UNLINK__''"

definition MASS_THRESHOLD :: nat where "MASS_THRESHOLD = 100"

text \<open>What the flush awaits: an indexing call, the mass handler, a progress notification.\<close>

datatype flush_call =
    Dispatch (call_path: string) (call_content: string) (call_project: string)
  | MassHandler string
  | Progress string nat nat

datatype flush_task = Idle | Sleeping | Flushing "flush_call list"

type_synonym pending = "(string, string \<times> string) dict"

record coalescer =
  co_pending :: pending
  co_timer :: flush_task
  co_has_dispatch :: bool
  co_has_mass_handler :: bool
  co_completed :: "flush_call list"

definition is_critical_file :: "string \<Rightarrow> bool" where
  "is_critical_file filepath =
     (let name = rev (takeWhile (\<lambda>c. c \<noteq> CHR ''/'') (rev filepath))
      in name \<in> {''.env'', ''config.py'', ''settings.py'', ''secrets.py''} \<or> starts_with name ''.env'')"

text \<open>Whatever the task was doing is cancelled and a new one sleeps.\<close>

definition submit :: "string \<Rightarrow> string \<Rightarrow> string \<Rightarrow> coalescer \<Rightarrow> coalescer" where
  "submit filepath content project_id s =
     s\<lparr>co_pending := dset filepath (content, project_id) (co_pending s), co_timer := Sleeping\<rparr>"

definition submit_unlink :: "string \<Rightarrow> string \<Rightarrow> coalescer \<Rightarrow> coalescer" where
  "submit_unlink filepath project_id s =
     s\<lparr>co_pending := dset filepath (UNLINK_SENTINEL, project_id) (co_pending s), co_timer := Sleeping\<rparr>"

definition unlinks_of :: "pending \<Rightarrow> pending" where
  "unlinks_of batch = filter (\<lambda>(fp, c, pid). c = UNLINK_SENTINEL) batch"

definition updates_of :: "pending \<Rightarrow> pending" where
  "updates_of batch = filter (\<lambda>(fp, c, pid). c \<noteq> UNLINK_SENTINEL) batch"

definition project_total :: "pending \<Rightarrow> string \<Rightarrow> nat" where
  "project_total updates project_id = length (filter (\<lambda>(fp, c, pid). pid = project_id) updates)"

text \<open>The sequential dispatch: a project with several files is told of its progress after each.\<close>

fun update_calls :: "bool \<Rightarrow> (string \<Rightarrow> nat) \<Rightarrow> (string \<Rightarrow> nat) \<Rightarrow> pending \<Rightarrow> flush_call list" where
  "update_calls has_dispatch tot done [] = []"
| "update_calls has_dispatch tot done ((fp, content, pid) # rest) =
     (if has_dispatch
      then Dispatch fp content pid
        # (if pid \<noteq> [] \<and> 1 < tot pid then [Progress pid (done pid + 1) (tot pid)] else [])
        @ update_calls has_dispatch tot (done(pid := done pid + 1)) rest
      else update_calls has_dispatch tot done rest)"

definition flush_calls :: "bool \<Rightarrow> bool \<Rightarrow> pending \<Rightarrow> flush_call list" where
  "flush_calls has_dispatch has_mass batch =
     (let updates = updates_of batch
      in (if has_dispatch then map (\<lambda>(fp, c, pid). Dispatch fp UNLINK_SENTINEL pid) (unlinks_of batch) else [])
         @ (if MASS_THRESHOLD < length updates
            then (if has_mass then map MassHandler (remdups (map (\<lambda>(fp, c, pid). pid) updates)) else [])
            else update_calls has_dispatch (project_total updates) (\<lambda>_. 0) updates))"

definition flushing :: "flush_call list \<Rightarrow> flush_task" where
  "flushing calls = (if calls = [] then Idle else Flushing calls)"

text \<open>The end of the sleep, and the end of the call in flight, with or without an error.\<close>

definition flush_after_debounce :: "coalescer \<Rightarrow> coalescer" where
  "flush_after_debounce s =
     (case co_timer s of
        Sleeping \<Rightarrow>
          s\<lparr>co_pending := [], co_timer := flushing (flush_calls (co_has_dispatch s) (co_has_mass_handler s) (co_pending s))\<rparr>
      | _ \<Rightarrow> s)"

definition call_done :: "coalescer \<Rightarrow> coalescer" where
  "call_done s =
     (case co_timer s of
        Flushing (c # cs) \<Rightarrow> s\<lparr>co_timer := flushing cs, co_completed := co_completed s @ [c]\<rparr>
      | _ \<Rightarrow> s)"

datatype file_event = Saved string string string | Unlinked string string | Wake | CallDone

fun on_event :: "file_event \<Rightarrow> coalescer \<Rightarrow> coalescer" where
  "on_event (Saved fp content pid) s = submit fp content pid s"
| "on_event (Unlinked fp pid) s = submit_unlink fp pid s"
| "on_event Wake s = flush_after_debounce s"
| "on_event CallDone s = call_done s"

definition new_coalescer :: coalescer where
  "new_coalescer =
     \<lparr>co_pending = [], co_timer = Idle, co_has_dispatch = True, co_has_mass_handler = True, co_completed = []\<rparr>"

subsection \<open>Single flight\<close>

text \<open>Per key the factory in flight and the one queued behind it; the requests that ended normally.\<close>

record 'f single_flight =
  sg_running :: "(string, 'f) dict"
  sg_pending :: "(string, 'f) dict"
  sg_ended :: "(string \<times> 'f) list"

definition run :: "string \<Rightarrow> 'f \<Rightarrow> 'f single_flight \<Rightarrow> 'f single_flight" where
  "run key factory s =
     (if dget (sg_running s) key \<noteq> None then s\<lparr>sg_pending := dset key factory (sg_pending s)\<rparr>
      else s\<lparr>sg_running := dset key factory (sg_running s)\<rparr>)"

text \<open>The awaited factory ends: normally the queued one follows, an exception leaves it queued.\<close>

definition ended :: "string \<Rightarrow> bool \<Rightarrow> 'f single_flight \<Rightarrow> 'f single_flight" where
  "ended key ok s =
     (case dget (sg_running s) key of
        None \<Rightarrow> s
      | Some f \<Rightarrow>
          if \<not> ok then s\<lparr>sg_running := AList.delete key (sg_running s)\<rparr>
          else (case dget (sg_pending s) key of
                  None \<Rightarrow> s\<lparr>sg_running := AList.delete key (sg_running s), sg_ended := sg_ended s @ [(key, f)]\<rparr>
                | Some g \<Rightarrow>
                    s\<lparr>sg_running := dset key g (sg_running s), sg_pending := AList.delete key (sg_pending s),
                      sg_ended := sg_ended s @ [(key, f)]\<rparr>))"

datatype 'f flight_event = Request string 'f | Ended string bool

fun on_flight :: "'f flight_event \<Rightarrow> 'f single_flight \<Rightarrow> 'f single_flight" where
  "on_flight (Request key f) s = run key f s"
| "on_flight (Ended key ok) s = ended key ok s"

definition new_single_flight :: "'f single_flight" where
  "new_single_flight = \<lparr>sg_running = [], sg_pending = [], sg_ended = []\<rparr>"

subsection \<open>One dispatch per file\<close>

declare map_of_eq_Some_iff [simp del] Some_eq_map_of_iff [simp del]

definition last_event :: "string \<Rightarrow> (string \<times> string \<times> string) list \<Rightarrow> (string \<times> string) option" where
  "last_event fp evs = dget (rev evs) fp"

definition saves :: "(string \<times> string \<times> string) list \<Rightarrow> file_event list" where
  "saves evs = map (\<lambda>(fp, c, pid). if c = UNLINK_SENTINEL then Unlinked fp pid else Saved fp c pid) evs"

lemma saves_pending:
  "fold on_event (saves evs) s
     = s\<lparr>co_pending := fold (\<lambda>(fp, v). dset fp v) evs (co_pending s),
         co_timer := if evs = [] then co_timer s else Sleeping\<rparr>"
  by (induction evs arbitrary: s) (auto simp: saves_def submit_def submit_unlink_def)

lemma dget_last_event: "dget (fold (\<lambda>(fp, v). dset fp v) evs d) fp = (case last_event fp evs of None \<Rightarrow> dget d fp | Some v \<Rightarrow> Some v)"
proof (induction evs arbitrary: d)
  case (Cons e evs)
  then show ?case
    by (cases e) (auto simp: last_event_def dget_dset map_add_def split: option.splits)
qed (simp add: last_event_def)

lemma calls_done:
  "co_timer s = flushing cs \<Longrightarrow> fold on_event (replicate (length cs) CallDone) s
     = s\<lparr>co_timer := Idle, co_completed := co_completed s @ cs\<rparr>"
proof (induction cs arbitrary: s)
  case Nil
  then show ?case by (simp add: flushing_def)
next
  case (Cons c cs)
  then have "call_done s = s\<lparr>co_timer := flushing cs, co_completed := co_completed s @ [c]\<rparr>"
    by (simp add: call_done_def flushing_def)
  with Cons.IH [of "call_done s"] show ?case by simp
qed

lemma dget_key: "dget d k = Some v \<Longrightarrow> k \<in> fst ` set d"
  by (metis dget_None_iff option.distinct(1) set_map)

lemma filter_update_calls:
  assumes "distinct (dkeys upd)"
  shows "filter (\<lambda>c. is_Dispatch c \<and> call_path c = fp) (update_calls True tot dn upd)
    = (case dget upd fp of None \<Rightarrow> [] | Some (c, pid) \<Rightarrow> [Dispatch fp c pid])"
  using assms
proof (induction True tot dn upd rule: update_calls.induct)
  case (2 tot dn p c pid rest)
  then show ?case by (auto simp: dget_None_iff split: option.splits dest: dget_key)
qed simp

lemma dget_filter_value:
  "distinct (dkeys d) \<Longrightarrow> dget (filter (\<lambda>(k, v). P v) d) k = (case dget d k of None \<Rightarrow> None | Some v \<Rightarrow> if P v then Some v else None)"
  by (induction d) (auto simp: dget_None_iff split: option.splits)

lemma filter_unlink_calls:
  assumes "distinct (dkeys ul)"
  shows "filter (\<lambda>c. is_Dispatch c \<and> call_path c = fp) (map (\<lambda>(fp, c, pid). Dispatch fp UNLINK_SENTINEL pid) ul)
    = (case dget ul fp of None \<Rightarrow> [] | Some (c, pid) \<Rightarrow> [Dispatch fp UNLINK_SENTINEL pid])"
  using assms by (induction ul) (auto simp: dget_None_iff split: option.splits dest: dget_key)

lemma distinct_filter_keys: "distinct (dkeys d) \<Longrightarrow> distinct (dkeys (filter P d))"
  by (simp add: distinct_map_filter)

lemma filter_flush_calls:
  assumes "distinct (dkeys batch)" and "length (updates_of batch) \<le> MASS_THRESHOLD"
  shows "filter (\<lambda>c. is_Dispatch c \<and> call_path c = fp) (flush_calls True m batch)
    = (case dget batch fp of None \<Rightarrow> [] | Some (c, pid) \<Rightarrow> [Dispatch fp c pid])"
proof -
  have u: "dget (unlinks_of batch) fp = (case dget batch fp of None \<Rightarrow> None | Some v \<Rightarrow> if fst v = UNLINK_SENTINEL then Some v else None)"
    using dget_filter_value [OF assms(1), of "\<lambda>v. fst v = UNLINK_SENTINEL"]
    by (simp add: unlinks_of_def case_prod_unfold)
  have v: "dget (updates_of batch) fp = (case dget batch fp of None \<Rightarrow> None | Some v \<Rightarrow> if fst v \<noteq> UNLINK_SENTINEL then Some v else None)"
    using dget_filter_value [OF assms(1), of "\<lambda>v. fst v \<noteq> UNLINK_SENTINEL"]
    by (simp add: updates_of_def case_prod_unfold)
  have d: "distinct (dkeys (unlinks_of batch))" "distinct (dkeys (updates_of batch))"
    unfolding unlinks_of_def updates_of_def by (rule distinct_filter_keys [OF assms(1)])+
  show ?thesis
    using assms(2) u v filter_unlink_calls [OF d(1)] filter_update_calls [OF d(2)]
    by (auto simp: flush_calls_def Let_def split: option.splits if_splits)
qed

lemma no_unlink_in_updates:
  "list_all (\<lambda>(fp, c, pid). c \<noteq> UNLINK_SENTINEL) upd \<Longrightarrow>
     list_all (\<lambda>c. \<not> (is_Dispatch c \<and> call_content c = UNLINK_SENTINEL)) (update_calls has tot dn upd)"
  by (induction has tot dn upd rule: update_calls.induct) auto

subsection \<open>Properties\<close>

text \<open>
  A burst of events is dispatched once per file. After any burst of saves and deletions, a
  quiet window and the end of the awaited calls, the debouncer is idle with nothing pending,
  every file of the burst was dispatched exactly once with its last event, no other file was,
  and the deletions came before all other calls; this is for at most \<open>MASS_THRESHOLD\<close> updated files.
\<close>

theorem burst_dispatched_once:
  assumes "evs \<noteq> []" and batch: "batch = fold (\<lambda>(fp, v). dset fp v) evs []"
    and "length (updates_of batch) \<le> MASS_THRESHOLD"
    and s': "s' = fold on_event (saves evs @ Wake # replicate (length (flush_calls True True batch)) CallDone) new_coalescer"
  shows "co_timer s' = Idle \<and> co_pending s' = []
    \<and> (\<forall>fp. filter (\<lambda>c. is_Dispatch c \<and> call_path c = fp) (co_completed s')
        = (case last_event fp evs of None \<Rightarrow> [] | Some (c, pid) \<Rightarrow> [Dispatch fp c pid]))
    \<and> (\<exists>us vs. co_completed s' = us @ vs \<and> list_all (\<lambda>c. is_Dispatch c \<and> call_content c = UNLINK_SENTINEL) us
        \<and> list_all (\<lambda>c. \<not> (is_Dispatch c \<and> call_content c = UNLINK_SENTINEL)) vs)"
proof -
  let ?calls = "flush_calls True True batch"
  have "fold on_event (saves evs @ [Wake]) new_coalescer = new_coalescer\<lparr>co_timer := flushing ?calls\<rparr>"
    using assms(1) by (simp add: saves_pending new_coalescer_def flush_after_debounce_def batch)
  then have end': "s' = new_coalescer\<lparr>co_timer := Idle, co_completed := ?calls\<rparr>"
    using calls_done [of "new_coalescer\<lparr>co_timer := flushing ?calls\<rparr>" ?calls] s' by (simp add: new_coalescer_def)
  have keys: "distinct (dkeys batch)"
  proof -
    have "distinct (dkeys d) \<Longrightarrow> distinct (dkeys (fold (\<lambda>(fp, v). dset fp v) xs d))" for xs :: "(string \<times> string \<times> string) list" and d
      by (induction xs arbitrary: d) (auto simp: distinct_dset split: prod.splits)
    then show ?thesis by (simp add: batch)
  qed
  have "dget batch fp = last_event fp evs" for fp
    by (simp add: batch dget_last_event split: option.split)
  with filter_flush_calls [OF keys assms(3)] have "filter (\<lambda>c. is_Dispatch c \<and> call_path c = fp) ?calls
      = (case last_event fp evs of None \<Rightarrow> [] | Some (c, pid) \<Rightarrow> [Dispatch fp c pid])" for fp by simp
  moreover have "list_all (\<lambda>c. \<not> (is_Dispatch c \<and> call_content c = UNLINK_SENTINEL))
      (update_calls True (project_total (updates_of batch)) (\<lambda>_. 0) (updates_of batch))"
    by (rule no_unlink_in_updates) (auto simp: updates_of_def list_all_iff)
  then have "\<exists>us vs. ?calls = us @ vs \<and> list_all (\<lambda>c. is_Dispatch c \<and> call_content c = UNLINK_SENTINEL) us
      \<and> list_all (\<lambda>c. \<not> (is_Dispatch c \<and> call_content c = UNLINK_SENTINEL)) vs"
    using assms(3) unfolding flush_calls_def Let_def
    by (intro exI [of _ "map (\<lambda>(fp, c, pid). Dispatch fp UNLINK_SENTINEL pid) (unlinks_of batch)"] exI conjI)
      (auto simp: list_all_iff)
  ultimately show ?thesis by (simp add: end' new_coalescer_def)
qed

definition demo_burst :: "(string \<times> string \<times> string) list" where
  "demo_burst = [(''a.py'', ''1'', ''p''), (''b.py'', UNLINK_SENTINEL, ''p''), (''a.py'', ''2'', ''p'')]"

theorem burst_dispatched_once_witness:
  "filter (\<lambda>c. is_Dispatch c \<and> call_path c = ''a.py'')
     (co_completed (fold on_event (saves demo_burst @ Wake
        # replicate (length (flush_calls True True (fold (\<lambda>(fp, v). dset fp v) demo_burst []))) CallDone) new_coalescer))
   = [Dispatch ''a.py'' ''2'' ''p'']"
proof -
  let ?batch = "fold (\<lambda>(fp, v). dset fp v) demo_burst []"
  have "demo_burst \<noteq> []" "length (updates_of ?batch) \<le> MASS_THRESHOLD"
    by (simp_all add: demo_burst_def updates_of_def MASS_THRESHOLD_def)
  moreover have "last_event ''a.py'' demo_burst = Some (''2'', ''p'')"
    by (simp add: last_event_def demo_burst_def)
  ultimately show ?thesis using burst_dispatched_once [of demo_burst, OF _ refl _ refl] by simp
qed

text \<open>
  A save while a flush is under way cancels it: the batch was already taken from the pending
  files, so the files whose turn had not come are not indexed by it and not by the next flush.
\<close>

lemma save_during_flush_loses_batch:
  "let s = fold on_event [Saved ''a.py'' ''1'' ''p'', Saved ''b.py'' ''1'' ''p'', Wake, CallDone, Saved ''c.py'' ''1'' ''p'',
        Wake, CallDone] new_coalescer
   in co_timer s = Idle \<and> co_pending s = []
      \<and> co_completed s = [Dispatch ''a.py'' ''1'' ''p'', Dispatch ''c.py'' ''1'' ''p'']"
  by code_simp

definition last_request :: "string \<Rightarrow> 'f flight_event list \<Rightarrow> 'f option" where
  "last_request key evs =
     fold (\<lambda>e acc. case e of Request k f \<Rightarrow> if k = key then Some f else acc | Ended _ _ \<Rightarrow> acc) evs None"

text \<open>
  The freshest request wins. As long as no factory fails, whatever the requests and
  completions interleave to, the last factory requested for a key is the one queued for it, or
  else in flight, or else the last that ended; and nothing is queued for a key that is not in
  flight.
\<close>

theorem freshest_request_wins:
  assumes "\<forall>k. Ended k False \<notin> set evs" and "s = fold on_flight evs new_single_flight"
  shows "last_request key evs
      = (case dget (sg_pending s) key of Some g \<Rightarrow> Some g
         | None \<Rightarrow> (case dget (sg_running s) key of Some f \<Rightarrow> Some f | None \<Rightarrow> dget (rev (sg_ended s)) key))
    \<and> (dget (sg_running s) key = None \<longrightarrow> dget (sg_pending s) key = None)"
  using assms
proof (induction evs arbitrary: s rule: rev_induct)
  case Nil
  then show ?case by (simp add: last_request_def new_single_flight_def)
next
  case (snoc e evs)
  let ?s = "fold on_flight evs new_single_flight"
  have IH: "last_request key evs
      = (case dget (sg_pending ?s) key of Some g \<Rightarrow> Some g
         | None \<Rightarrow> (case dget (sg_running ?s) key of Some f \<Rightarrow> Some f | None \<Rightarrow> dget (rev (sg_ended ?s)) key))
      \<and> (dget (sg_running ?s) key = None \<longrightarrow> dget (sg_pending ?s) key = None)"
    using snoc.prems(1) by (intro snoc.IH) auto
  have s: "s = on_flight e ?s" using snoc.prems(2) by simp
  show ?case
  proof (cases e)
    case (Request k f)
    with IH show ?thesis
      by (auto simp: s run_def last_request_def dget_dset split: option.splits)
  next
    case (Ended k ok)
    with snoc.prems(1) have "ok" by auto
    with Ended IH show ?thesis
      by (auto simp: s ended_def last_request_def dget_dset dget_delete_other split: option.splits)
  qed
qed

theorem freshest_request_wins_witness:
  "dget (sg_pending (fold on_flight [Request ''k'' (1 :: nat), Request ''k'' 2, Request ''k'' 3] new_single_flight)) ''k'' = Some 3"
proof -
  let ?evs = "[Request ''k'' (1 :: nat), Request ''k'' 2, Request ''k'' 3]"
  have "dget (sg_pending (fold on_flight ?evs new_single_flight)) ''k'' \<noteq> None" by code_simp
  then obtain g where g: "dget (sg_pending (fold on_flight ?evs new_single_flight)) ''k'' = Some g" by blast
  have "\<forall>k. Ended k False \<notin> set ?evs" by simp
  from freshest_request_wins [OF this refl, of "''k''", THEN conjunct1]
  have "last_request ''k'' ?evs = Some g" unfolding g option.case .
  moreover have "last_request ''k'' ?evs = Some 3" by code_simp
  ultimately show ?thesis using g by (simp only: option.inject)
qed

text \<open>
  With a failure it does not: the queued factory stays behind, and the next request for the
  key runs it after its own, so that the older content is the last one written.
\<close>

lemma stale_request_after_failure:
  "map snd (sg_ended (fold on_flight
       [Request ''k'' (1 :: nat), Request ''k'' 2, Ended ''k'' False, Request ''k'' 3, Ended ''k'' True, Ended ''k'' True]
       new_single_flight)) = [3, 2]"
  by code_simp

end
