(* ===== verification/Patches.thy ===== *)
theory Patches
  imports PyText
begin

text \<open>
  Search-and-replace patches: the text engine (\<open>core/patcher.py\<close>), the patch of one file with its
  version check and fuzzy fallback (\<open>tools/patch_tool.py\<close>) and the write tools on top of it, the batch
  with its write buffer among them (\<open>tools/mutation_tools.py\<close>). The digest, the similarity ratio and
  the diff of \<open>difflib\<close> and the Python parser are the fields of \<open>patch_env\<close>; the virtual file
  system is a dictionary.
\<close>

subsection \<open>The text engine\<close>

definition normalize_lines :: "string \<Rightarrow> string" where
  "normalize_lines s = join [CHR 0x0A] (map rstrip (split_on (CHR 0x0A) (normalize_eol s)))"

text \<open>\<open>s.count(t)\<close>: occurrences that do not overlap.\<close>

function count_sub :: "string \<Rightarrow> string \<Rightarrow> nat" where
  "count_sub t s =
     (if t = [] then Suc (length s)
      else case find_sub t s of
        None \<Rightarrow> 0
      | Some i \<Rightarrow> Suc (count_sub t (drop (i + length t) s)))"
  by pat_completeness auto
termination
proof (relation "measure (\<lambda>(t, s). length s)"; clarsimp)
  fix t s :: string and i
  assume "t \<noteq> []" and "find_sub t s = Some i"
  from find_sub_Some [OF this(2)] this(1) show "length s - (i + length t) < length s"
    by (cases t) auto
qed

declare count_sub.simps [simp del]

definition replace_first :: "string \<Rightarrow> string \<Rightarrow> string \<Rightarrow> string" where
  "replace_first old new s =
     (case find_sub old s of None \<Rightarrow> s | Some i \<Rightarrow> take i s @ new @ drop (i + length old) s)"

datatype patch_error =
    Ambiguous_exact nat
  | Ambiguous_normalized nat
  | Block_not_found string
  | Fuzzy_empty
  | Fuzzy_not_found
  | File_not_found
  | Syntax_error

definition first_line_snippet :: "string \<Rightarrow> string" where
  "first_line_snippet search =
     (case splitlines search of [] \<Rightarrow> ''(empty search block)'' | l # _ \<Rightarrow> take 80 l)"

definition apply_search_replace :: "string \<Rightarrow> string \<Rightarrow> string \<Rightarrow> patch_error + string" where
  "apply_search_replace content search replace =
     (let exact = count_sub search content in
      if exact = 1 then Inr (replace_first search replace content)
      else if 1 < exact then Inl (Ambiguous_exact exact)
      else (let norm_content = normalize_lines content; norm_search = normalize_lines search;
                n = count_sub norm_search norm_content
            in if n = 1 then Inr (replace_first norm_search (normalize_lines replace) norm_content)
               else if 1 < n then Inl (Ambiguous_normalized n)
               else Inl (Block_not_found (first_line_snippet search))))"

subsection \<open>One file\<close>

record patch_env =
  pt_sha256 :: "string \<Rightarrow> string"
  pt_ratio :: "string \<Rightarrow> string \<Rightarrow> rat"
  pt_parses :: "string \<Rightarrow> bool"
  pt_unified_diff :: "string \<Rightarrow> string \<Rightarrow> string \<Rightarrow> string"

definition FUZZY_THRESHOLD :: rat where "FUZZY_THRESHOLD = 9 / 10"

text \<open>\<open>AtomicPatchInput\<close> refuses a search block that is too short.\<close>

definition valid_search_block :: "string \<Rightarrow> bool" where
  "valid_search_block v \<longleftrightarrow> \<not> length (strip v) < 10"

fun best_window :: "(nat \<Rightarrow> rat) \<Rightarrow> nat list \<Rightarrow> rat \<times> nat option \<Rightarrow> rat \<times> nat option" where
  "best_window ratio [] best = best"
| "best_window ratio (i # is) best =
     (if fst best < ratio i then best_window ratio is (ratio i, Some i) else best_window ratio is best)"

text \<open>The start \<open>-1\<close> of the code, when no window has a positive ratio, is below the threshold.\<close>

definition fuzzy_find_and_replace :: "patch_env \<Rightarrow> string \<Rightarrow> string \<Rightarrow> string \<Rightarrow> patch_error + string" where
  "fuzzy_find_and_replace env content search replace =
     (let lines = splitlines_keep content; n = length (splitlines_keep search)
      in if n = 0 \<or> lines = [] then Inl Fuzzy_empty
         else (case best_window (\<lambda>i. pt_ratio env (concat (take n (drop i lines))) search)
                    [0..<max 1 (length lines + 1 - n)] (0, None) of
                 (ratio, start) \<Rightarrow>
                   if ratio < FUZZY_THRESHOLD then Inl Fuzzy_not_found
                   else (case start of
                           None \<Rightarrow> Inl Fuzzy_not_found
                         | Some i \<Rightarrow>
                             Inr (concat (take i lines)
                               @ replace @ (if replace \<noteq> [] \<and> \<not> ends_with replace [CHR 0x0A] then [CHR 0x0A] else [])
                               @ concat (drop (i + n) lines)))))"

definition syntax_ok :: "patch_env \<Rightarrow> string \<Rightarrow> string \<Rightarrow> bool" where
  "syntax_ok env patched file_path \<longleftrightarrow> (ends_with file_path ''.py'' \<longrightarrow> pt_parses env patched)"

datatype patch_failure = Stale_file | Failed patch_error

definition patched_text :: "patch_env \<Rightarrow> string \<Rightarrow> string \<Rightarrow> string \<Rightarrow> patch_error + string" where
  "patched_text env content search replace =
     (case apply_search_replace content search replace of
        Inr patched \<Rightarrow> Inr patched
      | Inl (Block_not_found _) \<Rightarrow> fuzzy_find_and_replace env content search replace
      | Inl e \<Rightarrow> Inl e)"

text \<open>
  The read is a function, the write the returned text: the tool, the batch and the coder pass
  different stores.
\<close>

definition patch_read ::
  "patch_env \<Rightarrow> (string \<Rightarrow> string option) \<Rightarrow> string \<Rightarrow> string \<Rightarrow> string \<Rightarrow> string option
   \<Rightarrow> patch_failure + (string \<times> string)" where
  "patch_read env vfs_read file_path search replace expected_hash =
     (case vfs_read file_path of
        None \<Rightarrow> Inl (Failed File_not_found)
      | Some content \<Rightarrow>
          if (case expected_hash of None \<Rightarrow> False | Some h \<Rightarrow> pt_sha256 env content \<noteq> h) then Inl Stale_file
          else (case patched_text env content search replace of
                  Inl e \<Rightarrow> Inl (Failed e)
                | Inr patched \<Rightarrow>
                    if \<not> syntax_ok env patched file_path then Inl (Failed Syntax_error)
                    else Inr (patched, pt_unified_diff env file_path content patched)))"

type_synonym vfs = "(string, string) dict"

definition apply_patch_to_vfs ::
  "patch_env \<Rightarrow> string \<Rightarrow> string \<Rightarrow> string \<Rightarrow> string option \<Rightarrow> vfs \<Rightarrow> (patch_failure + string) \<times> vfs" where
  "apply_patch_to_vfs env file_path search replace expected_hash vfs =
     (case patch_read env (dget vfs) file_path search replace expected_hash of
        Inl e \<Rightarrow> (Inl e, vfs)
      | Inr (patched, diff) \<Rightarrow> (Inr diff, dset file_path patched vfs))"

subsection \<open>The batch and the full write\<close>

record edit_item =
  ei_file_path :: string
  ei_document_version_id :: string
  ei_search_block :: string
  ei_replace_block :: string

datatype batch_outcome = No_items | Batch_stale "string list" | Batch_failed nat string patch_failure | Batch_ok "string list"

definition stale_paths :: "patch_env \<Rightarrow> vfs \<Rightarrow> edit_item list \<Rightarrow> string list" where
  "stale_paths env vfs items =
     map ei_file_path (filter (\<lambda>it. pt_sha256 env (dget_default vfs (ei_file_path it) []) \<noteq> ei_document_version_id it) items)"

text \<open>Phase 2: reads see the buffer before the store.\<close>

fun buffer_items ::
  "patch_env \<Rightarrow> vfs \<Rightarrow> nat \<Rightarrow> edit_item list \<Rightarrow> vfs \<Rightarrow> string list \<Rightarrow> batch_outcome + (vfs \<times> string list)" where
  "buffer_items env vfs idx [] buf ds = Inr (buf, ds)"
| "buffer_items env vfs idx (it # items) buf ds =
     (case patch_read env (\<lambda>p. case dget buf p of Some c \<Rightarrow> Some c | None \<Rightarrow> dget vfs p)
             (ei_file_path it) (ei_search_block it) (ei_replace_block it) None of
        Inl e \<Rightarrow> Inl (Batch_failed idx (ei_file_path it) e)
      | Inr (patched, diff) \<Rightarrow>
          buffer_items env vfs (Suc idx) items (dset (ei_file_path it) patched buf) (ds @ [diff]))"

definition batch_semantic_edit :: "patch_env \<Rightarrow> edit_item list \<Rightarrow> vfs \<Rightarrow> batch_outcome \<times> vfs" where
  "batch_semantic_edit env items vfs =
     (if items = [] then (No_items, vfs)
      else if stale_paths env vfs items \<noteq> [] then (Batch_stale (stale_paths env vfs items), vfs)
      else (case buffer_items env vfs 1 items [] [] of
              Inl failure \<Rightarrow> (failure, vfs)
            | Inr (buf, ds) \<Rightarrow> (Batch_ok ds, fold (\<lambda>(path, content). dset path content) buf vfs)))"

definition file_write ::
  "patch_env \<Rightarrow> string \<Rightarrow> string \<Rightarrow> string option \<Rightarrow> vfs \<Rightarrow> (patch_failure + nat) \<times> vfs" where
  "file_write env file_path content expected_hash vfs =
     (if (case expected_hash of None \<Rightarrow> False | Some h \<Rightarrow> pt_sha256 env (dget_default vfs file_path []) \<noteq> h)
      then (Inl Stale_file, vfs)
      else if \<not> syntax_ok env content file_path then (Inl (Failed Syntax_error), vfs)
      else (Inr (length content), dset file_path content vfs))"

subsection \<open>Occurrences\<close>

lemma count_sub_zero: "count_sub t s = 0 \<longleftrightarrow> \<not> (\<exists>p q. s = p @ t @ q)"
proof (cases "t = []")
  case True
  then show ?thesis by (simp add: count_sub.simps) (metis append_Nil)
next
  case False
  then show ?thesis
    using find_sub_None [of t s] by (subst count_sub.simps) (auto split: option.splits)
qed

lemma replace_first_once:
  assumes "count_sub t s = 1"
  obtains p q where "s = p @ t @ q" and "replace_first t r s = p @ r @ q"
    and "\<not> (\<exists>p' q'. q = p' @ t @ q') \<or> t = []"
proof -
  have "find_sub t s \<noteq> None" using assms count_sub_zero [of t s] find_sub_None [of t s] by auto
  then obtain i where i: "find_sub t s = Some i" by blast
  have "s = take i s @ t @ drop (i + length t) s" by (rule find_sub_split [OF i])
  moreover have "replace_first t r s = take i s @ r @ drop (i + length t) s"
    by (simp add: replace_first_def i)
  moreover have "\<not> (\<exists>p' q'. drop (i + length t) s = p' @ t @ q') \<or> t = []"
    using assms i count_sub_zero by (subst (asm) count_sub.simps) (auto split: if_splits)
  ultimately show ?thesis by (rule that)
qed

text \<open>
  A patch replaces its one anchor. When it succeeds, either the search block occurs in the
  content, and not again after its first occurrence, and exactly that occurrence is replaced,
  or it does not occur at all and the same holds of the normalised texts; it fails with
  "not found" exactly if neither text holds the block, and as ambiguous otherwise.
\<close>

theorem search_replace_exact:
  assumes "search \<noteq> []"
  shows "case apply_search_replace content search replace of
      Inr r \<Rightarrow>
        (\<exists>p q. content = p @ search @ q \<and> r = p @ replace @ q \<and> \<not> (\<exists>p' q'. q = p' @ search @ q'))
        \<or> (\<not> (\<exists>p q. content = p @ search @ q)
           \<and> (\<exists>p q. normalize_lines content = p @ normalize_lines search @ q \<and> r = p @ normalize_lines replace @ q))
    | Inl (Block_not_found _) \<Rightarrow>
        \<not> (\<exists>p q. content = p @ search @ q)
        \<and> \<not> (\<exists>p q. normalize_lines content = p @ normalize_lines search @ q)
    | Inl (Ambiguous_exact n) \<Rightarrow> 1 < n \<and> (\<exists>p q. content = p @ search @ q)
    | Inl (Ambiguous_normalized n) \<Rightarrow>
        1 < n \<and> \<not> (\<exists>p q. content = p @ search @ q)
        \<and> (\<exists>p q. normalize_lines content = p @ normalize_lines search @ q)
    | Inl _ \<Rightarrow> False"
proof -
  let ?n = "count_sub search content" and ?m = "count_sub (normalize_lines search) (normalize_lines content)"
  have z: "?n = 0 \<longleftrightarrow> \<not> (\<exists>p q. content = p @ search @ q)"
      "?m = 0 \<longleftrightarrow> \<not> (\<exists>p q. normalize_lines content = p @ normalize_lines search @ q)"
    by (rule count_sub_zero)+
  consider "?n = 1" | "1 < ?n" | "?n = 0" "?m = 1" | "?n = 0" "1 < ?m" | "?n = 0" "?m = 0" by linarith
  then show ?thesis
  proof cases
    case 1
    then have "apply_search_replace content search replace = Inr (replace_first search replace content)"
      by (simp add: apply_search_replace_def)
    moreover obtain p q where "content = p @ search @ q" "replace_first search replace content = p @ replace @ q"
        "\<not> (\<exists>p' q'. q = p' @ search @ q')"
      using replace_first_once [OF 1] assms by metis
    ultimately show ?thesis by auto
  next
    case 2
    with z show ?thesis by (simp add: apply_search_replace_def Let_def)
  next
    case 3
    then have r: "apply_search_replace content search replace
        = Inr (replace_first (normalize_lines search) (normalize_lines replace) (normalize_lines content))"
      by (simp add: apply_search_replace_def Let_def)
    obtain p q where "normalize_lines content = p @ normalize_lines search @ q"
        "replace_first (normalize_lines search) (normalize_lines replace) (normalize_lines content) = p @ normalize_lines replace @ q"
      by (rule replace_first_once [OF 3(2)])
    with 3(1) z(1) show ?thesis unfolding r by auto
  next
    case 4
    with z show ?thesis by (simp add: apply_search_replace_def Let_def)
  next
    case 5
    with z show ?thesis by (simp add: apply_search_replace_def Let_def)
  qed
qed

theorem search_replace_exact_witness:
  "\<exists>r. apply_search_replace ''let x = 1 in x'' ''x = 1'' ''x = 2'' = Inr r
     \<and> (\<exists>p q. ''let x = 1 in x'' = p @ ''x = 1'' @ q \<and> r = p @ ''x = 2'' @ q)"
proof -
  have occurs: "''let x = 1 in x'' = ''let '' @ ''x = 1'' @ '' in x''" by simp
  have "apply_search_replace ''let x = 1 in x'' ''x = 1'' ''x = 2'' = Inr ''let x = 2 in x''" by code_simp
  note r = this
  from search_replace_exact [of "''x = 1''" "''let x = 1 in x''" "''x = 2''", unfolded r sum.case] occurs
  have "\<exists>p q. ''let x = 1 in x'' = p @ ''x = 1'' @ q \<and> ''let x = 2 in x'' = p @ ''x = 2'' @ q"
    by blast
  with r show ?thesis by blast
qed

text \<open>
  Occurrences that overlap count once, so an anchor that fits at two places is taken as unique;
  and when only the normalised texts match, lines far from the anchor lose their carriage
  returns and their trailing blanks as well.
\<close>

lemma overlapping_anchor_taken_as_unique:
  "apply_search_replace ''0,0,0'' ''0,0'' ''1'' = Inr ''1,0''"
  by code_simp

lemma normalized_patch_rewrites_other_lines:
  "apply_search_replace (''a  '' @ [CHR 0x0D, CHR 0x0A] @ ''b'') ''b  '' ''c''
     = Inr (''a'' @ [CHR 0x0A] @ ''c'')"
  by code_simp

subsection \<open>The batch against the store\<close>

text \<open>The reference: the items applied one after the other to the store itself.\<close>

fun sequential ::
  "patch_env \<Rightarrow> nat \<Rightarrow> edit_item list \<Rightarrow> vfs \<Rightarrow> string list \<Rightarrow> batch_outcome + (vfs \<times> string list)" where
  "sequential env idx [] vfs ds = Inr (vfs, ds)"
| "sequential env idx (it # items) vfs ds =
     (case apply_patch_to_vfs env (ei_file_path it) (ei_search_block it) (ei_replace_block it) None vfs of
        (Inl e, _) \<Rightarrow> Inl (Batch_failed idx (ei_file_path it) e)
      | (Inr d, vfs') \<Rightarrow> sequential env (Suc idx) items vfs' (ds @ [d]))"

definition flush :: "vfs \<Rightarrow> vfs \<Rightarrow> vfs" where
  "flush buf vfs = fold (\<lambda>(path, content). dset path content) buf vfs"

lemma dget_flush:
  assumes "distinct (dkeys buf)"
  shows "dget (flush buf vfs) p = (case dget buf p of Some c \<Rightarrow> Some c | None \<Rightarrow> dget vfs p)"
  using assms
proof (induction buf arbitrary: vfs)
  case (Cons x buf)
  have "fst x \<notin> set (dkeys buf)" using Cons.prems by simp
  then have "dget buf (fst x) = None" by (simp only: dget_None_iff not_False_eq_True)
  with Cons show ?case by (cases x) (auto simp: flush_def dget_dset split: option.splits)
qed (simp add: flush_def)

lemma buffer_sequential:
  assumes "distinct (dkeys buf)" and "\<And>p. dget v p = dget (flush buf vfs) p"
  shows "case sequential env idx items v ds of
      Inl f \<Rightarrow> buffer_items env vfs idx items buf ds = Inl f
    | Inr (v', ds') \<Rightarrow> \<exists>buf'. buffer_items env vfs idx items buf ds = Inr (buf', ds') \<and> (\<forall>p. dget v' p = dget (flush buf' vfs) p)"
  using assms
proof (induction items arbitrary: idx buf v ds)
  case (Cons it items)
  have reads: "(\<lambda>p. case dget buf p of Some c \<Rightarrow> Some c | None \<Rightarrow> dget vfs p) = dget v"
    using Cons.prems by (simp add: fun_eq_iff dget_flush)
  show ?case
  proof (cases "patch_read env (dget v) (ei_file_path it) (ei_search_block it) (ei_replace_block it) None")
    case (Inl e)
    then show ?thesis by (simp add: apply_patch_to_vfs_def reads)
  next
    case (Inr r)
    obtain patched d where r: "r = (patched, d)" by (cases r)
    let ?buf = "dset (ei_file_path it) patched buf" and ?v = "dset (ei_file_path it) patched v"
    have keys: "distinct (dkeys ?buf)" using Cons.prems(1) by (simp add: distinct_dset)
    have reads': "dget ?v p = dget (flush ?buf vfs) p" for p
      using Cons.prems(2) [of p] by (simp add: dget_flush [OF keys] dget_flush [OF Cons.prems(1)] dget_dset)
    have step: "buffer_items env vfs idx (it # items) buf ds = buffer_items env vfs (Suc idx) items ?buf (ds @ [d])"
      "sequential env idx (it # items) v ds = sequential env (Suc idx) items ?v (ds @ [d])"
      using Inr r by (simp_all add: apply_patch_to_vfs_def reads)
    show ?thesis unfolding step by (rule Cons.IH [OF keys reads'])
  qed
qed (auto intro: exI)

text \<open>
  C27. The batch is one transaction. Without items, or when some version id is stale, the store
  is untouched. Otherwise the batch behaves as the items applied one after the other to the
  store itself: if one of them fails it reports that item and leaves the store untouched, and
  if all succeed it commits exactly what they give.
\<close>

theorem batch_is_transactional:
  "if items \<noteq> [] \<and> stale_paths env vfs items = []
   then (case sequential env 1 items vfs [] of
           Inl failure \<Rightarrow> batch_semantic_edit env items vfs = (failure, vfs)
         | Inr (v, ds) \<Rightarrow> fst (batch_semantic_edit env items vfs) = Batch_ok ds
             \<and> (\<forall>p. dget (snd (batch_semantic_edit env items vfs)) p = dget v p))
   else snd (batch_semantic_edit env items vfs) = vfs"
proof -
  have "case sequential env 1 items vfs [] of
      Inl f \<Rightarrow> buffer_items env vfs 1 items [] [] = Inl f
    | Inr (v', ds') \<Rightarrow> \<exists>buf'. buffer_items env vfs 1 items [] [] = Inr (buf', ds') \<and> (\<forall>p. dget v' p = dget (flush buf' vfs) p)"
    by (rule buffer_sequential) (simp_all add: flush_def)
  then show ?thesis
    by (auto simp: batch_semantic_edit_def flush_def split: sum.splits prod.splits)
qed

end
