(* ===== verification/CoderEdits.thy ===== *)
theory CoderEdits
  imports Patches PyRegex
begin

text \<open>
  The edits of the coder (\<open>agents/coder.py\<close>): the parser of the SEARCH/REPLACE blocks that the
  model writes, and the application of the parsed edits to in-memory copies of the files, from
  which the patches, contents and base hashes for the apply gate are staged.
\<close>

subsection \<open>The blocks\<close>

definition EDIT_HEADER :: string where "EDIT_HEADER = ''### EDIT''"
definition SR_SEARCH :: string where "SR_SEARCH = ''<<<<<<< SEARCH''"
definition SR_DIVIDER :: string where "SR_DIVIDER = ''=======''"
definition SR_REPLACE :: string where "SR_REPLACE = ''>>>>>>> REPLACE''"
definition FENCE :: string where "FENCE = replicate 3 CHR 0x60"

definition strip_nl :: "string \<Rightarrow> string" where
  "strip_nl s = rev (dropWhile (\<lambda>c. c = CHR 0x0A) (rev (dropWhile (\<lambda>c. c = CHR 0x0A) s)))"

definition fence_open :: "string \<Rightarrow> bool" where
  "fence_open s \<longleftrightarrow> starts_with s FENCE \<and> list_all (\<lambda>c. word_char c \<or> c = CHR ''-'') (drop 3 s)"

definition fenced :: "string list \<Rightarrow> bool" where
  "fenced parts \<longleftrightarrow> 2 \<le> length parts \<and> fence_open (strip (hd parts)) \<and> strip (last parts) = FENCE"

definition clean_block :: "string list \<Rightarrow> string" where
  "clean_block ls =
     (let s = strip_nl (join [CHR 0x0A] ls); parts = splitlines s
      in if fenced parts then strip_nl (join [CHR 0x0A] (butlast (tl parts))) else s)"

definition split_glued_terminator :: "string \<Rightarrow> string option" where
  "split_glued_terminator line =
     (let stripped = rstrip line in
      if stripped \<noteq> SR_REPLACE \<and> ends_with stripped SR_REPLACE
      then Some (take (length stripped - length SR_REPLACE) stripped) else None)"

text \<open>The replacement up to its terminator and the lines after it; \<open>None\<close> if it is cut off.\<close>

fun take_replacement :: "string list \<Rightarrow> (string list \<times> string list) option" where
  "take_replacement [] = None"
| "take_replacement (l # ls) =
     (if strip l = SR_REPLACE then Some ([], ls)
      else case split_glued_terminator l of
        Some code \<Rightarrow> Some ([code], ls)
      | None \<Rightarrow> map_option (\<lambda>(r, rest). (l # r, rest)) (take_replacement ls))"

lemma take_replacement_shorter: "take_replacement ls = Some (r, rest) \<Longrightarrow> length rest < length ls"
  by (induction ls arbitrary: r) (auto split: if_splits option.splits)

record edit =
  ed_file_path :: string
  ed_search_block :: string
  ed_replace_block :: string

definition header_path :: "string \<Rightarrow> string option" where
  "header_path line =
     (if starts_with (strip line) EDIT_HEADER then Some (strip (drop (length EDIT_HEADER) (strip line))) else None)"

text \<open>One block after its header: its two lists of lines and the lines after it.\<close>

definition parse_block :: "string list \<Rightarrow> ((string list \<times> string list) \<times> string list) option" where
  "parse_block ls =
     (case dropWhile (\<lambda>l. strip l \<noteq> SR_SEARCH) ls of
        [] \<Rightarrow> None
      | _ # body \<Rightarrow>
          (case dropWhile (\<lambda>l. strip l \<noteq> SR_DIVIDER) body of
             [] \<Rightarrow> None
           | _ # tail \<Rightarrow>
               map_option (\<lambda>(replace, rest). ((takeWhile (\<lambda>l. strip l \<noteq> SR_DIVIDER) body, replace), rest))
                 (take_replacement tail)))"

lemma parse_block_shorter: "parse_block ls = Some (b, rest) \<Longrightarrow> length rest < length ls"
proof -
  assume "parse_block ls = Some (b, rest)"
  then obtain x body y tail r where "dropWhile (\<lambda>l. strip l \<noteq> SR_SEARCH) ls = x # body"
      "dropWhile (\<lambda>l. strip l \<noteq> SR_DIVIDER) body = y # tail" "take_replacement tail = Some (r, rest)"
    by (auto simp: parse_block_def split: list.splits)
  moreover from this have "length (x # body) \<le> length ls" "length (y # tail) \<le> length body"
    by (metis length_dropWhile_le)+
  ultimately show ?thesis using take_replacement_shorter by fastforce
qed

function parse_lines :: "string list \<Rightarrow> edit list" where
  "parse_lines [] = []"
| "parse_lines (l # ls) =
     (case header_path l of
        None \<Rightarrow> parse_lines ls
      | Some file_path \<Rightarrow>
          (case parse_block ls of
             None \<Rightarrow> []
           | Some ((search, replace), rest) \<Rightarrow>
               (if file_path = [] then []
                else [\<lparr>ed_file_path = file_path, ed_search_block = clean_block search, ed_replace_block = clean_block replace\<rparr>])
               @ parse_lines rest))"
  by pat_completeness auto
termination
  by (relation "measure length") (auto dest: parse_block_shorter)

definition parse_search_replace_blocks :: "string \<Rightarrow> edit list" where
  "parse_search_replace_blocks text = parse_lines (splitlines text)"

subsection \<open>Applying the edits\<close>

record coder_copies =
  cc_local :: vfs
  cc_originals :: vfs
  cc_errors :: "string list"

text \<open>\<open>_read\<close>: the copy of this run, else the latest text of an earlier step, else the file.\<close>

definition coder_read :: "vfs \<Rightarrow> vfs \<Rightarrow> string \<Rightarrow> coder_copies \<Rightarrow> string \<times> coder_copies" where
  "coder_read files prior p s =
     (case dget (cc_local s) p of
        Some c \<Rightarrow> (c, s)
      | None \<Rightarrow>
          (let file = dget_default files p []
           in (dget_default prior p file, s\<lparr>cc_originals := setdefault p file (cc_originals s)\<rparr>)))"

definition coder_edit :: "patch_env \<Rightarrow> vfs \<Rightarrow> vfs \<Rightarrow> edit \<Rightarrow> coder_copies \<Rightarrow> coder_copies" where
  "coder_edit env files prior e s =
     (let fp = strip (ed_file_path e); sb = ed_search_block e; rb = ed_replace_block e in
      if fp = [] then s\<lparr>cc_errors := cc_errors s @ [''CoderAgent: edit missing file_path skipped.'']\<rparr>
      else (case coder_read files prior fp s of
              (content, s') \<Rightarrow>
                if length (strip sb) < 10 then s'\<lparr>cc_local := dset fp rb (cc_local s')\<rparr>
                else (case patch_read env (\<lambda>_. Some content) fp sb rb None of
                        Inl _ \<Rightarrow> s'\<lparr>cc_errors := cc_errors s' @ [''CoderAgent: edit to '' @ fp @ '' failed'']\<rparr>
                      | Inr (patched, _) \<Rightarrow> s'\<lparr>cc_local := dset fp patched (cc_local s')\<rparr>)))"

definition coder_edits :: "patch_env \<Rightarrow> vfs \<Rightarrow> vfs \<Rightarrow> edit list \<Rightarrow> coder_copies" where
  "coder_edits env files prior edits =
     fold (coder_edit env files prior) edits \<lparr>cc_local = [], cc_originals = [], cc_errors = []\<rparr>"

record staged =
  sd_patches :: vfs
  sd_contents :: vfs
  sd_base_hash :: vfs

text \<open>What is staged: the files whose diff against the committed text is not empty.\<close>

definition stage_copies :: "patch_env \<Rightarrow> (string \<Rightarrow> string) \<Rightarrow> coder_copies \<Rightarrow> staged" where
  "stage_copies env content_hash s =
     (let orig = (\<lambda>p. dget_default (cc_originals s) p []);
          changed = filter (\<lambda>(p, final). pt_unified_diff env p (orig p) final \<noteq> []) (cc_local s)
      in \<lparr>sd_patches = map (\<lambda>(p, final). (p, pt_unified_diff env p (orig p) final)) changed,
          sd_contents = changed,
          sd_base_hash = map (\<lambda>(p, final). (p, content_hash (orig p))) changed\<rparr>)"

subsection \<open>Lines of a text\<close>

definition plain_line :: "string \<Rightarrow> bool" where
  "plain_line l \<longleftrightarrow> list_all (\<lambda>c. \<not> line_boundary c) l"

lemma splitlines_keep_plain: "plain_line l \<Longrightarrow> splitlines_keep l = (if l = [] then [] else [l])"
proof (induction l)
  case (Cons c l)
  then have "c \<noteq> CHR 0x0D" by (auto simp: plain_line_def line_boundary_def)
  with Cons show ?case by (cases l) (auto simp: plain_line_def)
qed simp

lemma splitlines_keep_line: "plain_line l \<Longrightarrow> splitlines_keep (l @ CHR 0x0A # s) = (l @ [CHR 0x0A]) # splitlines_keep s"
proof (induction l)
  case (Cons c l)
  then have "c \<noteq> CHR 0x0D" by (auto simp: plain_line_def line_boundary_def)
  with Cons show ?case by (auto simp: plain_line_def)
qed (simp add: line_boundary_def)

lemma chomp_plain: "plain_line l \<Longrightarrow> chomp l = l" "plain_line l \<Longrightarrow> chomp (l @ [CHR 0x0A]) = l"
proof -
  assume l: "plain_line l"
  have no: "l \<noteq> [] \<Longrightarrow> \<not> line_boundary (last l)"
    using l by (simp add: plain_line_def list_all_iff)
  then show "chomp l = l" by (cases "l = []") (simp_all add: chomp_def)
  have "l \<noteq> [] \<Longrightarrow> last l \<noteq> CHR 0x0D" using no by (auto simp: line_boundary_def)
  then show "chomp (l @ [CHR 0x0A]) = l" by (auto simp: chomp_def line_boundary_def Let_def)
qed

lemma splitlines_join:
  assumes "list_all plain_line ls" and "ls \<noteq> []" and "last ls \<noteq> []"
  shows "splitlines (join [CHR 0x0A] ls) = ls"
proof -
  have "splitlines_keep (join [CHR 0x0A] ls) = map (\<lambda>l. l @ [CHR 0x0A]) (butlast ls) @ [last ls]"
    using assms
  proof (induction ls)
    case (Cons l ls)
    show ?case
    proof (cases ls)
      case Nil
      with Cons.prems show ?thesis by (simp add: splitlines_keep_plain)
    next
      case (Cons l' ls')
      with Cons.IH Cons.prems show ?thesis by (simp add: splitlines_keep_line)
    qed
  qed simp
  then have "splitlines (join [CHR 0x0A] ls) = map (\<lambda>l. chomp (l @ [CHR 0x0A])) (butlast ls) @ [chomp (last ls)]"
    by (simp add: splitlines_def)
  also have "map (\<lambda>l. chomp (l @ [CHR 0x0A])) (butlast ls) = butlast ls"
    using assms(1) by (intro map_idI) (auto simp: list_all_iff chomp_plain dest: in_set_butlastD)
  also have "chomp (last ls) = last ls"
    using assms(1,2) by (simp add: list_all_iff chomp_plain)
  finally show ?thesis using assms(2) by simp
qed

subsection \<open>Rendered blocks are parsed back\<close>

record block =
  bk_file_path :: string
  bk_search :: "string list"
  bk_replace :: "string list"

definition render_block :: "block \<Rightarrow> string list" where
  "render_block b =
     (EDIT_HEADER @ '' '' @ bk_file_path b) # SR_SEARCH # bk_search b @ SR_DIVIDER # bk_replace b @ [SR_REPLACE]"

definition bordered :: "string list \<Rightarrow> bool" where
  "bordered ls \<longleftrightarrow> list_all plain_line ls \<and> (ls \<noteq> [] \<longrightarrow> hd ls \<noteq> [] \<and> last ls \<noteq> []) \<and> \<not> fenced ls"

definition well_formed_block :: "block \<Rightarrow> bool" where
  "well_formed_block b \<longleftrightarrow>
     strip (bk_file_path b) = bk_file_path b \<and> bk_file_path b \<noteq> [] \<and> plain_line (bk_file_path b)
     \<and> bordered (bk_search b) \<and> list_all (\<lambda>l. strip l \<noteq> SR_DIVIDER) (bk_search b)
     \<and> bordered (bk_replace b) \<and> list_all (\<lambda>l. strip l \<noteq> SR_REPLACE \<and> split_glued_terminator l = None) (bk_replace b)"

definition block_edit :: "block \<Rightarrow> edit" where
  "block_edit b =
     \<lparr>ed_file_path = bk_file_path b, ed_search_block = join [CHR 0x0A] (bk_search b),
      ed_replace_block = join [CHR 0x0A] (bk_replace b)\<rparr>"

lemma join_ends:
  assumes "ls \<noteq> []" and "hd ls \<noteq> []" and "last ls \<noteq> []"
  shows "join sep ls \<noteq> [] \<and> hd (join sep ls) = hd (hd ls) \<and> last (join sep ls) = last (last ls)"
  using assms
proof (induction ls)
  case (Cons l ls)
  show ?case
  proof (cases ls)
    case (Cons l' ls')
    have "join sep (l' # ls') \<noteq> [] \<and> last (join sep (l' # ls')) = last (last (l' # ls'))"
    proof -
      have "last ks \<noteq> [] \<Longrightarrow> ks \<noteq> [] \<Longrightarrow> join sep ks \<noteq> [] \<and> last (join sep ks) = last (last ks)" for ks
      proof (induction ks)
        case (Cons k ks)
        then show ?case by (cases ks) auto
      qed simp
      with Cons.prems Cons show ?thesis by simp
    qed
    with Cons Cons.prems show ?thesis by simp
  qed (use Cons.prems in simp)
qed simp

lemma strip_nl_fixed:
  assumes "s \<noteq> []" and "hd s \<noteq> CHR 0x0A" and "last s \<noteq> CHR 0x0A"
  shows "strip_nl s = s"
proof -
  have "dropWhile (\<lambda>c. c = CHR 0x0A) s = s" using assms(1,2) by (cases s) simp_all
  moreover have "dropWhile (\<lambda>c. c = CHR 0x0A) (rev s) = rev s"
    using assms(1,3) by (cases "rev s") (simp_all add: hd_rev [symmetric])
  ultimately show ?thesis by (simp add: strip_nl_def)
qed

lemma clean_bordered:
  assumes "bordered ls"
  shows "clean_block ls = join [CHR 0x0A] ls"
proof (cases "ls = []")
  case True
  then show ?thesis by (simp add: clean_block_def strip_nl_def fenced_def splitlines_def Let_def)
next
  case False
  have b: "list_all plain_line ls" "hd ls \<noteq> []" "last ls \<noteq> []" "\<not> fenced ls"
    using assms False by (simp_all add: bordered_def)
  let ?s = "join [CHR 0x0A] ls"
  have ends: "?s \<noteq> []" "hd ?s = hd (hd ls)" "last ?s = last (last ls)"
    using join_ends [OF False b(2,3)] by auto
  have "plain_line (hd ls)" "plain_line (last ls)" using b(1) False by (auto simp: list_all_iff)
  then have "\<not> line_boundary (hd (hd ls))" "\<not> line_boundary (last (last ls))"
    using b(2,3) by (simp_all add: plain_line_def list_all_iff)
  then have "hd (hd ls) \<noteq> CHR 0x0A" "last (last ls) \<noteq> CHR 0x0A"
    by (auto simp: line_boundary_def)
  with ends have "strip_nl ?s = ?s" by (intro strip_nl_fixed) simp_all
  then show ?thesis
    using splitlines_join [OF b(1) False b(3)] b(4) by (simp add: clean_block_def Let_def)
qed

lemma last_strip:
  assumes "strip p = p" and "p \<noteq> []"
  shows "\<not> py_space (last p)"
proof -
  have "rev p = dropWhile py_space (rev (lstrip p))"
    using assms(1) by (simp add: strip_def rstrip_def) (metis rev_rev_ident)
  with assms(2) have "\<not> py_space (hd (rev p))"
    by (metis hd_dropWhile rev_is_Nil_conv)
  then show ?thesis by (simp add: hd_rev)
qed

lemma strip_fixed:
  assumes "s \<noteq> []" and "\<not> py_space (hd s)" and "\<not> py_space (last s)"
  shows "strip s = s"
proof -
  have "lstrip s = s" using assms(1,2) by (cases s) (simp_all add: lstrip_def)
  moreover have "dropWhile py_space (rev s) = rev s"
    using assms(1,3) by (cases "rev s") (simp_all add: hd_rev [symmetric])
  ultimately show ?thesis by (simp add: strip_def rstrip_def)
qed

lemma header_path_rendered:
  assumes "strip p = p" and "p \<noteq> []"
  shows "header_path (EDIT_HEADER @ '' '' @ p) = Some p"
proof -
  have "strip (EDIT_HEADER @ '' '' @ p) = EDIT_HEADER @ '' '' @ p"
    using last_strip [OF assms] assms(2) by (intro strip_fixed) (simp_all add: EDIT_HEADER_def py_space_def)
  moreover have "strip ('' '' @ p) = p"
    using assms(1) by (simp add: strip_def lstrip_def py_space_def)
  ultimately show ?thesis by (simp add: header_path_def starts_with_iff)
qed

lemma marker_strips: "strip SR_SEARCH = SR_SEARCH" "strip SR_DIVIDER = SR_DIVIDER" "strip SR_REPLACE = SR_REPLACE"
  by code_simp+

lemma take_replacement_rendered:
  "list_all (\<lambda>l. strip l \<noteq> SR_REPLACE \<and> split_glued_terminator l = None) ls \<Longrightarrow>
     take_replacement (ls @ SR_REPLACE # rest) = Some (ls, rest)"
  by (induction ls) (simp_all add: marker_strips)

lemma parse_block_rendered:
  assumes "list_all (\<lambda>l. strip l \<noteq> SR_DIVIDER) search"
    and "list_all (\<lambda>l. strip l \<noteq> SR_REPLACE \<and> split_glued_terminator l = None) replace"
  shows "parse_block (SR_SEARCH # search @ SR_DIVIDER # replace @ SR_REPLACE # rest) = Some ((search, replace), rest)"
proof -
  have "dropWhile (\<lambda>l. strip l \<noteq> SR_DIVIDER) (search @ SR_DIVIDER # tail) = SR_DIVIDER # tail"
    "takeWhile (\<lambda>l. strip l \<noteq> SR_DIVIDER) (search @ SR_DIVIDER # tail) = search" for tail
    using assms(1) by (induction search) (simp_all add: marker_strips)
  then show ?thesis
    using take_replacement_rendered [OF assms(2)] by (simp add: parse_block_def marker_strips)
qed

lemma parse_lines_rendered:
  "list_all well_formed_block bs \<Longrightarrow> parse_lines (concat (map render_block bs)) = map block_edit bs"
proof (induction bs)
  case (Cons b bs)
  then have b: "well_formed_block b" and bs: "list_all well_formed_block bs" by simp_all
  have "header_path (EDIT_HEADER @ '' '' @ bk_file_path b) = Some (bk_file_path b)"
    using b by (intro header_path_rendered) (simp_all add: well_formed_block_def)
  moreover have "parse_block (SR_SEARCH # bk_search b @ SR_DIVIDER # bk_replace b @ SR_REPLACE # rest)
      = Some ((bk_search b, bk_replace b), rest)" for rest
    using b by (intro parse_block_rendered) (simp_all add: well_formed_block_def)
  moreover have "clean_block (bk_search b) = join [CHR 0x0A] (bk_search b)"
    "clean_block (bk_replace b) = join [CHR 0x0A] (bk_replace b)"
    using b by (simp_all add: well_formed_block_def clean_bordered)
  ultimately show ?case
    using b Cons.IH [OF bs] by (simp add: render_block_def block_edit_def well_formed_block_def)
qed simp

lemma plain_rendered:
  assumes "well_formed_block b"
  shows "list_all plain_line (render_block b)"
proof -
  have "plain_line SR_SEARCH" "plain_line SR_DIVIDER" "plain_line SR_REPLACE" "plain_line (EDIT_HEADER @ '' '')"
    by code_simp+
  then show ?thesis
    using assms by (simp add: render_block_def well_formed_block_def bordered_def plain_line_def)
qed

text \<open>
  Written blocks are read back. For edits whose code holds no line that reads as a
  closing marker and does not start or end with an empty line or stand in a fence, the text of
  the blocks is parsed back into exactly these edits, in order, with the code verbatim.
\<close>

theorem edit_blocks_read_back:
  assumes "list_all well_formed_block bs"
  shows "parse_search_replace_blocks (join [CHR 0x0A] (concat (map render_block bs))) = map block_edit bs"
proof (cases "bs = []")
  case True
  then show ?thesis by (simp add: parse_search_replace_blocks_def splitlines_def)
next
  case False
  let ?ls = "concat (map render_block bs)"
  have "list_all plain_line ?ls"
    using assms plain_rendered by (auto simp: list_all_iff)
  moreover have "?ls \<noteq> []" using False by (cases bs) (simp_all add: render_block_def)
  moreover have "last ?ls = SR_REPLACE"
    using False by (induction bs) (auto simp: render_block_def)
  ultimately have "splitlines (join [CHR 0x0A] ?ls) = ?ls"
    by (intro splitlines_join) (simp_all add: SR_REPLACE_def)
  then show ?thesis
    using parse_lines_rendered [OF assms] by (simp add: parse_search_replace_blocks_def)
qed

definition demo_block :: block where
  "demo_block = \<lparr>bk_file_path = ''a.py'', bk_search = [''def f():'', [], ''  return 1''], bk_replace = []\<rparr>"

theorem edit_blocks_read_back_witness:
  "parse_search_replace_blocks (join [CHR 0x0A] (render_block demo_block @ render_block demo_block))
     = [block_edit demo_block, block_edit demo_block]"
proof -
  have "list_all well_formed_block [demo_block, demo_block]" by code_simp
  from edit_blocks_read_back [OF this] show ?thesis by simp
qed

text \<open>
  The code between the markers is not quite taken verbatim: a line of equals signs ends the
  search block early, and a form feed inside the code comes back as a line end. And a header
  without its own block takes the block of the next file.
\<close>

lemma heading_splits_search_block:
  "parse_search_replace_blocks (join [CHR 0x0A] (render_block
     \<lparr>bk_file_path = ''a.rst'', bk_search = [''Title'', ''======='', ''text''], bk_replace = [''new'']\<rparr>))
   = [\<lparr>ed_file_path = ''a.rst'', ed_search_block = ''Title'',
       ed_replace_block = join [CHR 0x0A] [''text'', ''======='', ''new'']\<rparr>]"
  by code_simp

lemma header_takes_next_block:
  "parse_lines ([''### EDIT a.py''] @ render_block
     \<lparr>bk_file_path = ''b.py'', bk_search = [''old text''], bk_replace = [''new'']\<rparr>)
   = [\<lparr>ed_file_path = ''a.py'', ed_search_block = ''old text'', ed_replace_block = ''new''\<rparr>]"
  by code_simp

subsection \<open>The copies and what is staged\<close>

declare map_of_eq_Some_iff [simp del] Some_eq_map_of_iff [simp del]

definition copies_ok :: "vfs \<Rightarrow> string set \<Rightarrow> coder_copies \<Rightarrow> bool" where
  "copies_ok files paths s \<longleftrightarrow> distinct (dkeys (cc_local s)) \<and> set (dkeys (cc_local s)) \<subseteq> paths
     \<and> (\<forall>p. dget (cc_originals s) p = Some (dget_default files p [])
          \<or> dget (cc_originals s) p = None \<and> dget (cc_local s) p = None)"

lemma coder_read_ok:
  assumes "copies_ok files paths s" and "coder_read files prior p s = (content, s')"
  shows "copies_ok files paths s' \<and> cc_local s' = cc_local s \<and> cc_errors s' = cc_errors s
    \<and> dget (cc_originals s') p = Some (dget_default files p [])"
proof (cases "dget (cc_local s) p")
  case None
  then have "s' = s\<lparr>cc_originals := setdefault p (dget_default files p []) (cc_originals s)\<rparr>"
    using assms(2) by (simp add: coder_read_def Let_def)
  moreover have "dget (cc_originals s) q = Some (dget_default files q []) \<or> dget (cc_originals s) q = None" for q
    using assms(1) [unfolded copies_ok_def, THEN conjunct2, THEN conjunct2, rule_format, of q] by auto
  ultimately show ?thesis
    using assms(1) by (auto simp: copies_ok_def dget_setdefault)
next
  case (Some c)
  then have "s' = s" using assms(2) by (simp add: coder_read_def)
  moreover have "dget (cc_originals s) p = Some (dget_default files p [])"
    using assms(1) Some unfolding copies_ok_def by (metis option.distinct(1))
  ultimately show ?thesis using assms(1) by simp
qed

lemma copies_ok_write:
  assumes "copies_ok files paths s" and "dget (cc_originals s) p = Some (dget_default files p [])"
  shows "copies_ok files (insert p paths) (s\<lparr>cc_local := dset p c (cc_local s)\<rparr>)"
  using assms by (auto simp: copies_ok_def dget_dset distinct_dset dkeys_dset split: if_splits)

lemma copies_ok_mono: "copies_ok files paths s \<Longrightarrow> copies_ok files (insert p paths) s"
  by (auto simp: copies_ok_def)

lemma copies_ok_errors: "copies_ok files paths s \<Longrightarrow> copies_ok files paths (s\<lparr>cc_errors := es\<rparr>)"
  by (simp add: copies_ok_def)

lemma coder_edit_ok:
  assumes "copies_ok files paths s"
  shows "copies_ok files (insert (strip (ed_file_path e)) paths) (coder_edit env files prior e s)"
proof -
  obtain content s' where r: "coder_read files prior (strip (ed_file_path e)) s = (content, s')" by fastforce
  note ok = coder_read_ok [OF assms r]
  then have s': "copies_ok files paths s'" "dget (cc_originals s') (strip (ed_file_path e)) = Some (dget_default files (strip (ed_file_path e)) [])"
    by simp_all
  show ?thesis
    unfolding coder_edit_def Let_def r
    using copies_ok_write [OF s'] copies_ok_errors [OF copies_ok_mono [OF s'(1)]] copies_ok_errors [OF copies_ok_mono [OF assms]]
    by (auto split: sum.split)
qed

lemma coder_edits_ok: "copies_ok files ((strip \<circ> ed_file_path) ` set edits) (coder_edits env files prior edits)"
proof -
  have "copies_ok files paths s \<Longrightarrow> copies_ok files ((strip \<circ> ed_file_path) ` set es \<union> paths) (fold (coder_edit env files prior) es s)"
    for es paths s
  proof (induction es arbitrary: paths s)
    case (Cons e es)
    from Cons.IH [OF coder_edit_ok [OF Cons.prems]] show ?case by simp
  qed simp
  from this [of "{}" _ edits] show ?thesis by (simp add: coder_edits_def copies_ok_def)
qed

text \<open>
  What the coder stages is anchored in the files. Every staged file was named by an edit
  of the response, its diff is the non-empty diff from the committed text of the file to the
  staged text, and its base hash is the hash of that committed text, even where an edit was made
  on top of an earlier step's text.
\<close>

theorem staged_files_anchored:
  assumes "dget (sd_contents (stage_copies env content_hash (coder_edits env files prior edits))) p = Some c"
  shows "p \<in> (strip \<circ> ed_file_path) ` set edits
    \<and> dget (sd_base_hash (stage_copies env content_hash (coder_edits env files prior edits))) p
      = Some (content_hash (dget_default files p []))
    \<and> dget (sd_patches (stage_copies env content_hash (coder_edits env files prior edits))) p
      = Some (pt_unified_diff env p (dget_default files p []) c)
    \<and> pt_unified_diff env p (dget_default files p []) c \<noteq> []"
proof -
  let ?s = "coder_edits env files prior edits"
  let ?orig = "\<lambda>p. dget_default (cc_originals ?s) p []"
  have ok: "copies_ok files ((strip \<circ> ed_file_path) ` set edits) ?s" by (rule coder_edits_ok)
  let ?changed = "filter (\<lambda>(p, final). pt_unified_diff env p (?orig p) final \<noteq> []) (cc_local ?s)"
  have c: "dget ?changed p = Some c" using assms by (simp add: stage_copies_def Let_def)
  then have "(p, c) \<in> set ?changed" by (rule map_of_SomeD)
  then have in': "(p, c) \<in> set (cc_local ?s)" and diff: "pt_unified_diff env p (?orig p) c \<noteq> []" by auto
  have "dget (cc_local ?s) p = Some c"
    using ok in' by (simp add: copies_ok_def map_of_is_SomeI)
  with ok have "dget (cc_originals ?s) p = Some (dget_default files p [])"
    unfolding copies_ok_def by (metis option.distinct(1))
  then have orig: "?orig p = dget_default files p []" by (simp only: dget_default_def option.case)
  have "p \<in> (strip \<circ> ed_file_path) ` set edits"
    using ok in' by (force simp: copies_ok_def)
  moreover have "dget (map (\<lambda>(p, final). (p, g p final)) d) p = map_option (g p) (dget d p)"
    for g :: "string \<Rightarrow> string \<Rightarrow> string" and d :: vfs
    by (induction d) auto
  ultimately show ?thesis
    using c orig diff by (simp add: stage_copies_def Let_def)
qed

text \<open>
  A short anchor replaces the whole file. An edit whose search block has fewer than ten
  characters once stripped is not refused as the patch tool would refuse it: whatever the file
  holds, its copy becomes the replacement block alone, and no error is recorded.
\<close>

theorem short_anchor_replaces_file:
  assumes "strip (ed_file_path e) \<noteq> []" and "\<not> valid_search_block (ed_search_block e)"
  shows "dget (cc_local (coder_edit env files prior e s)) (strip (ed_file_path e)) = Some (ed_replace_block e)
    \<and> cc_errors (coder_edit env files prior e s) = cc_errors s"
proof -
  obtain content s' where r: "coder_read files prior (strip (ed_file_path e)) s = (content, s')" by fastforce
  then have "cc_errors s' = cc_errors s"
    by (auto simp: coder_read_def Let_def split: option.splits)
  with assms r show ?thesis
    by (simp add: coder_edit_def Let_def valid_search_block_def dget_dset)
qed

definition demo_patch_env :: patch_env where
  "demo_patch_env =
     \<lparr>pt_sha256 = id, pt_ratio = (\<lambda>_ _. 0), pt_parses = (\<lambda>_. True), pt_unified_diff = (\<lambda>_ old new. if old = new then [] else new)\<rparr>"

definition demo_short_edit :: edit where
  "demo_short_edit = \<lparr>ed_file_path = ''a.py'', ed_search_block = ''x = 1'', ed_replace_block = ''x = 2''\<rparr>"

theorem short_anchor_replaces_file_witness:
  "dget (cc_local (coder_edit demo_patch_env [(''a.py'', ''import os; x = 1; main()'')] [] demo_short_edit
     \<lparr>cc_local = [], cc_originals = [], cc_errors = []\<rparr>)) ''a.py'' = Some ''x = 2''"
proof -
  have "strip (ed_file_path demo_short_edit) = ''a.py''" "\<not> valid_search_block (ed_search_block demo_short_edit)"
    "ed_replace_block demo_short_edit = ''x = 2''"
    by code_simp+
  then show ?thesis using short_anchor_replaces_file [of demo_short_edit] by simp
qed

theorem staged_files_anchored_witness:
  "dget (sd_base_hash (stage_copies demo_patch_env id
     (coder_edits demo_patch_env [(''a.py'', ''x = 1'')] [(''a.py'', ''x = 3'')] [demo_short_edit]))) ''a.py'' = Some ''x = 1''"
proof -
  have "dget (sd_contents (stage_copies demo_patch_env id
     (coder_edits demo_patch_env [(''a.py'', ''x = 1'')] [(''a.py'', ''x = 3'')] [demo_short_edit]))) ''a.py'' = Some ''x = 2''"
    by code_simp
  from staged_files_anchored [OF this, THEN conjunct2, THEN conjunct1] show ?thesis
    by (simp only: dget_default_def map_of.simps fst_conv snd_conv fun_upd_same option.case id_apply)
qed

end
