(* ===== verification/ToolCatalog.thy ===== *)
theory ToolCatalog
  imports ToolDispatch "HOL-Library.Product_Lexorder"
begin

text \<open>
  The catalogue of tools and what of it a turn sees: the store of schemas with its retrieval
  (\<open>core/tool_rag.py\<close>), the choice between the whole visible catalogue and a retrieved part
  (\<open>core/deferred_tool_loader.py\<close>), and the bridge from schemas to callables
  (\<open>core/tool_registry.py\<close>). The embedder, which may fail (\<open>None\<close>), and the vector search of
  the database are parameters; the table is the list of its rows. The families of tools that
  the bridge builds are an argument.
\<close>

subsection \<open>Schemas and rows\<close>

record tool_schema =
  ts_name :: string
  ts_description :: string
  ts_json_schema :: string
  ts_tier :: tier
  ts_roles :: "string list"
  ts_embedding :: "rat list option"

record tool_row =
  rw_name :: string
  rw_description :: string
  rw_json_schema :: string
  rw_tier :: tier
  rw_roles_csv :: string
  rw_vector :: "rat list"

definition roles_to_csv :: "string list \<Rightarrow> string" where
  "roles_to_csv roles = (if roles = [] then '','' else '','' @ join '','' (sort (remdups roles)) @ '','')"

definition roles_from_csv :: "string \<Rightarrow> string list" where
  "roles_from_csv csv =
     remdups (filter (\<lambda>r. r \<noteq> [])
       (split_on (CHR '','') (rev (dropWhile (\<lambda>c. c = CHR '','') (rev (dropWhile (\<lambda>c. c = CHR '','') csv))))))"

definition stricter_tier :: "tier \<Rightarrow> tier \<Rightarrow> tier" where
  "stricter_tier a b = (if TIER_SEVERITY b \<le> TIER_SEVERITY a then a else b)"

definition row_to_schema :: "tool_row \<Rightarrow> tool_schema" where
  "row_to_schema r =
     \<lparr>ts_name = rw_name r, ts_description = rw_description r, ts_json_schema = rw_json_schema r,
      ts_tier = rw_tier r, ts_roles = roles_from_csv (rw_roles_csv r), ts_embedding = None\<rparr>"

subsection \<open>The store\<close>

text \<open>The neighbours of a vector in a table, with their distances, up to a limit.\<close>

record rag_env =
  rg_embed :: "string \<Rightarrow> rat list option"
  rg_dim :: nat
  rg_search :: "tool_row list \<Rightarrow> rat list \<Rightarrow> nat \<Rightarrow> (tool_row \<times> rat) list"

definition merge_with_existing :: "tool_row list \<Rightarrow> tool_schema \<Rightarrow> string list \<times> tier" where
  "merge_with_existing rows s =
     (case find (\<lambda>r. rw_name r = ts_name s) rows of
        None \<Rightarrow> (ts_roles s, ts_tier s)
      | Some r \<Rightarrow> (List.union (ts_roles s) (roles_from_csv (rw_roles_csv r)), stricter_tier (rw_tier r) (ts_tier s)))"

text \<open>\<open>None\<close>: the embedder failed or the vector has the wrong dimension; the table is untouched.\<close>

definition register_schema :: "rag_env \<Rightarrow> tool_schema \<Rightarrow> tool_row list \<Rightarrow> tool_row list option" where
  "register_schema env s rows =
     (case (case ts_embedding s of Some v \<Rightarrow> Some v | None \<Rightarrow> rg_embed env (ts_description s)) of
        None \<Rightarrow> None
      | Some vec \<Rightarrow>
          if length vec \<noteq> rg_dim env then None
          else (case merge_with_existing rows s of
                  (roles, merged_tier) \<Rightarrow>
                    Some (filter (\<lambda>r. rw_name r \<noteq> ts_name s) rows
                      @ [\<lparr>rw_name = ts_name s, rw_description = ts_description s, rw_json_schema = ts_json_schema s,
                          rw_tier = merged_tier, rw_roles_csv = roles_to_csv roles, rw_vector = vec\<rparr>])))"

definition all_schemas :: "tool_row list \<Rightarrow> tool_schema list" where
  "all_schemas rows = map row_to_schema rows"

text \<open>The rows that a role may see in a session.\<close>

definition visible_rows :: "string \<Rightarrow> session_mode \<Rightarrow> tool_row list \<Rightarrow> tool_row list" where
  "visible_rows role mode rows =
     (let rbac = filter (\<lambda>r. role \<in> set (roles_from_csv (rw_roles_csv r))) rows
      in if normalize_session_mode mode = PLAN_ONLY then filter (\<lambda>r. rw_tier r = READ_ONLY) rbac else rbac)"

definition rank_rows :: "(tool_row \<times> rat) list \<Rightarrow> (tool_row \<times> rat) list" where
  "rank_rows hits = sort_key (\<lambda>(r, d). (d, rw_name r)) hits"

definition ensure_read_only :: "(tool_row \<times> rat) list \<Rightarrow> (tool_row \<times> rat) list \<Rightarrow> (tool_row \<times> rat) list" where
  "ensure_read_only ranked front =
     (if list_ex (\<lambda>(r, d). rw_tier r = READ_ONLY) front then front
      else case find (\<lambda>(r, d). rw_tier r = READ_ONLY) ranked of
        None \<Rightarrow> front
      | Some best \<Rightarrow> rank_rows (butlast front @ [best]))"

text \<open>\<open>xs[:k]\<close>; a negative bound counts from the end.\<close>

definition py_take :: "int \<Rightarrow> 'a list \<Rightarrow> 'a list" where
  "py_take k xs = (if 0 \<le> k then take (nat k) xs else take (length xs - nat (- k)) xs)"

definition select_tools ::
  "rag_env \<Rightarrow> string \<Rightarrow> int \<Rightarrow> string \<Rightarrow> session_mode \<Rightarrow> tool_row list \<Rightarrow> tool_schema list option" where
  "select_tools env intent k role mode rows =
     (let survivors = visible_rows role mode rows
      in if rows = [] \<or> survivors = [] then Some []
         else (case rg_embed env intent of
                 None \<Rightarrow> None
               | Some query \<Rightarrow>
                   (let hits = filter (\<lambda>(r, d). rw_name r \<in> set (map rw_name survivors))
                                 (rg_search env rows query (nat (max (k * 4) 32)));
                        ranked = rank_rows (if hits = [] then map (\<lambda>r. (r, 0)) survivors else hits)
                    in Some (map (row_to_schema \<circ> fst) (ensure_read_only ranked (py_take k ranked))))))"

subsection \<open>The whole catalogue or a part of it\<close>

definition TOOL_RAG_TOP_K :: int where "TOOL_RAG_TOP_K = 5"
definition TOOL_SEARCH_NAME :: string where "TOOL_SEARCH_NAME = ''tool_search''"
definition DEFAULT_CONTEXT_WINDOW :: int where "DEFAULT_CONTEXT_WINDOW = 8192"

datatype load_mode = Eager | Deferred

record load_decision =
  ld_mode :: load_mode
  ld_schemas :: "tool_schema list"
  ld_eager_count :: nat
  ld_eager_chars :: nat
  ld_threshold_chars :: int
  ld_reduction_ratio :: rat

definition visible_eager :: "tool_row list \<Rightarrow> string \<Rightarrow> session_mode \<Rightarrow> tool_schema list" where
  "visible_eager rows role mode =
     filter (\<lambda>s. role \<in> set (ts_roles s)
         \<and> (normalize_session_mode mode \<noteq> PLAN_ONLY \<or> ts_tier s = READ_ONLY)) (all_schemas rows)"

definition schema_chars :: "tool_schema list \<Rightarrow> nat" where
  "schema_chars ss = sum_list (map (length \<circ> ts_json_schema) ss)"

definition prompt_reduction :: "tool_schema list \<Rightarrow> tool_schema list \<Rightarrow> rat" where
  "prompt_reduction eager selected =
     (if schema_chars eager = 0 then 0
      else max 0 (1 - of_nat (schema_chars selected) / of_nat (schema_chars eager)))"

text \<open>\<open>int()\<close> truncates towards zero; a window and the fraction of the environment are not negative.\<close>

definition threshold_chars :: "rat \<Rightarrow> int \<Rightarrow> int" where
  "threshold_chars share context_window = \<lfloor>of_int context_window * 4 * share\<rfloor>"

definition resolve_catalog ::
  "rag_env \<Rightarrow> rat \<Rightarrow> string \<Rightarrow> string \<Rightarrow> session_mode \<Rightarrow> int \<Rightarrow> int \<Rightarrow> tool_row list \<Rightarrow> load_decision option" where
  "resolve_catalog env share intent role mode context_window k rows =
     (let eager = visible_eager rows role mode;
          threshold = threshold_chars share context_window;
          hatch = find (\<lambda>s. ts_name s = TOOL_SEARCH_NAME) eager;
          chosen =
            (if int (schema_chars eager) \<le> threshold then Some (Eager, eager)
             else if k \<le> 1 then Some (Deferred, (case hatch of None \<Rightarrow> [] | Some h \<Rightarrow> [h]))
             else map_option (\<lambda>ss. (Deferred, case hatch of
                      None \<Rightarrow> ss
                    | Some h \<Rightarrow> if list_ex (\<lambda>s. ts_name s = TOOL_SEARCH_NAME) ss then ss else ss @ [h]))
                    (select_tools env intent (k - 1) role mode rows))
      in map_option (\<lambda>(load, schemas).
           \<lparr>ld_mode = load, ld_schemas = schemas, ld_eager_count = length eager,
            ld_eager_chars = schema_chars eager, ld_threshold_chars = threshold,
            ld_reduction_ratio = prompt_reduction eager schemas\<rparr>) chosen)"

text \<open>
  The discovery tool (\<open>tools/meta_tools.py\<close>): the configuration of the run carries role and
  session mode; the listing is the names and descriptions of what is found.
\<close>

definition DEFAULT_ROLE_NAME :: string where "DEFAULT_ROLE_NAME = ''core_dev''"

definition tool_search_role :: "string option \<Rightarrow> string" where
  "tool_search_role configured = str_or configured DEFAULT_ROLE_NAME"

definition tool_search_mode :: "string option \<Rightarrow> string option \<Rightarrow> session_mode" where
  "tool_search_mode configured ambient =
     (let raw = str_or (case configured of None \<Rightarrow> ambient | Some _ \<Rightarrow> configured) []
      in if raw = [] then DEFAULT else or_else (session_mode_of_value (lower raw)) DEFAULT)"

definition tool_search ::
  "rag_env \<Rightarrow> string \<Rightarrow> int \<Rightarrow> string option \<Rightarrow> string option \<Rightarrow> string option \<Rightarrow> tool_row list
   \<Rightarrow> (string \<times> string) list option" where
  "tool_search env query k role_cfg mode_cfg ambient rows =
     map_option (map (\<lambda>s. (ts_name s, ts_description s)))
       (select_tools env query (min k TOOL_RAG_TOP_K) (tool_search_role role_cfg) (tool_search_mode mode_cfg ambient) rows)"

subsection \<open>From schemas to callables\<close>

definition INTENTIONALLY_UNREGISTERED :: "string list" where
  "INTENTIONALLY_UNREGISTERED =
     [''atomic_code_patch'', ''batch_semantic_edit'', ''file_write'', ''generate_docstring'', ''guard_env_file'',
      ''list_capabilities'', ''skill_invoke'']"

definition NO_AUTONOMOUS_LOOP :: "string list" where
  "NO_AUTONOMOUS_LOOP = [''toggle_plan_mode'']"

definition filter_resolvable :: "tool_schema list \<Rightarrow> tool_schema list" where
  "filter_resolvable schemas = filter (\<lambda>s. ts_name s \<notin> set INTENTIONALLY_UNREGISTERED) schemas"

definition filter_loop_safe :: "tool_schema list \<Rightarrow> tool_schema list" where
  "filter_loop_safe schemas = filter (\<lambda>s. ts_name s \<notin> set NO_AUTONOMOUS_LOOP) schemas"

type_synonym tool_body = "tool_call list \<Rightarrow> (string, json) dict \<Rightarrow> tool_outcome"
type_synonym tool_map = "(string, registered_tool) dict"

definition merge_registered :: "tool_map \<Rightarrow> tool_map \<Rightarrow> tool_map" where
  "merge_registered dst src =
     fold (\<lambda>(name, incoming) d.
         case dget d name of
           None \<Rightarrow> dset name incoming d
         | Some current \<Rightarrow>
             dset name \<lparr>rt_run = rt_run current, rt_tier = stricter_tier (rt_tier current) (rt_tier incoming),
               rt_allowed_roles = List.union (rt_allowed_roles current) (rt_allowed_roles incoming)\<rparr> d) src dst"

definition wrap_with_schema :: "(string, tool_schema) dict \<Rightarrow> (string \<times> tool_body) list \<Rightarrow> tool_map" where
  "wrap_with_schema by_name tools =
     fold (\<lambda>(name, body) out.
         case dget by_name name of
           None \<Rightarrow> out
         | Some s \<Rightarrow> dset name \<lparr>rt_run = body, rt_tier = ts_tier s, rt_allowed_roles = ts_roles s\<rparr> out) tools []"

text \<open>
  The factories: the families that come with tier and roles, the lists of bare tools and the
  single factories by name.
\<close>

record tool_families =
  tf_registered :: "tool_map list"
  tf_bare :: "(string \<times> tool_body) list list"
  tf_simple :: "(string, tool_body) dict"

definition add_simple :: "(string, tool_schema) dict \<Rightarrow> string \<times> tool_body \<Rightarrow> tool_map \<Rightarrow> tool_map" where
  "add_simple by_name = (\<lambda>(name, body) d.
     case dget by_name name of
       None \<Rightarrow> d
     | Some s \<Rightarrow>
         if dget d name \<noteq> None then d
         else dset name \<lparr>rt_run = body, rt_tier = ts_tier s, rt_allowed_roles = ts_roles s\<rparr> d)"

text \<open>The missing names on the left are the \<open>KeyError\<close>.\<close>

definition resolve_tools :: "tool_families \<Rightarrow> tool_schema list \<Rightarrow> string list + tool_map" where
  "resolve_tools fams schemas =
     (let by_name = fold (\<lambda>s. dset (ts_name s) s) schemas [];
          wanted = dkeys by_name;
          resolved = fold (add_simple by_name) (tf_simple fams)
            (fold (\<lambda>tools d. merge_registered d (wrap_with_schema by_name tools)) (tf_bare fams)
              (fold (\<lambda>family d. merge_registered d family) (tf_registered fams) []));
          missing = filter (\<lambda>n. dget resolved n = None \<and> n \<notin> set INTENTIONALLY_UNREGISTERED) wanted
      in if wanted = [] then Inr []
         else if missing \<noteq> [] then Inl missing
         else Inr (List.map_filter (\<lambda>n. map_option (\<lambda>t. (n, t)) (dget resolved n)) wanted))"

subsection \<open>Roles survive the table\<close>

declare map_of_eq_Some_iff [simp del] Some_eq_map_of_iff [simp del]

definition plain_role :: "string \<Rightarrow> bool" where
  "plain_role r \<longleftrightarrow> r \<noteq> [] \<and> CHR '','' \<notin> set r"

lemma plain_role_ends: "plain_role r \<Longrightarrow> hd r \<noteq> CHR '','' \<and> last r \<noteq> CHR '','' "
  unfolding plain_role_def by (metis hd_in_set last_in_set)

lemma join_ends_plain:
  assumes "ws \<noteq> []" and "list_all plain_role ws"
  shows "join '','' ws \<noteq> [] \<and> hd (join '','' ws) \<noteq> CHR '','' \<and> last (join '','' ws) \<noteq> CHR '','' "
  using assms
proof (induction "'',''" ws rule: join.induct)
  case (2 x)
  then show ?case using plain_role_ends by (simp add: plain_role_def)
next
  case (3 x y ys)
  then show ?case using plain_role_ends [of x] by (simp add: plain_role_def)
qed simp

lemma roles_csv_roundtrip:
  assumes "list_all plain_role roles"
  shows "set (roles_from_csv (roles_to_csv roles)) = set roles"
proof (cases "roles = []")
  case True
  then show ?thesis by (simp add: roles_to_csv_def roles_from_csv_def)
next
  case False
  let ?ws = "sort (remdups roles)" and ?j = "join '','' (sort (remdups roles))"
  have "set ?ws = set roles" by simp
  with False assms have ws: "?ws \<noteq> []" "list_all plain_role ?ws"
    unfolding list_all_iff by (metis set_empty, metis)
  note ends = join_ends_plain [OF ws]
  have left: "dropWhile (\<lambda>c. c = CHR '','') ('','' @ ?j @ '','') = ?j @ '','' "
    using ends by (cases ?j) auto
  have right: "rev (dropWhile (\<lambda>c. c = CHR '','') (rev (?j @ '',''))) = ?j"
    using ends by (cases ?j rule: rev_cases) auto
  have "split_on (CHR '','') ?j = ?ws"
    using ws by (intro split_on_join) (auto simp: list_all_iff plain_role_def)
  moreover have "filter (\<lambda>r. r \<noteq> []) ?ws = ?ws"
    using ws(2) by (auto simp: list_all_iff plain_role_def intro: filter_True)
  ultimately show ?thesis
    using False left right by (simp add: roles_to_csv_def roles_from_csv_def)
qed

subsection \<open>Registration shares a tool\<close>

lemma stricter_tier_max: "stricter_tier a b = max a b"
  by (auto simp: stricter_tier_def max_def less_eq_tier_def dest: TIER_SEVERITY_inj)

text \<open>A history of registrations on an empty table that all succeed.\<close>

definition registered :: "rag_env \<Rightarrow> tool_schema list \<Rightarrow> tool_row list option" where
  "registered env ss = fold (\<lambda>s rows. Option.bind rows (register_schema env s)) ss (Some [])"

definition under_name :: "string \<Rightarrow> tool_schema list \<Rightarrow> tool_schema list" where
  "under_name n ss = filter (\<lambda>s. ts_name s = n) ss"

definition shared_row :: "tool_schema list \<Rightarrow> tool_row \<Rightarrow> bool" where
  "shared_row ss r \<longleftrightarrow> under_name (rw_name r) ss \<noteq> []
     \<and> set (roles_from_csv (rw_roles_csv r)) = \<Union> (set ` ts_roles ` set (under_name (rw_name r) ss))
     \<and> rw_tier r = Max (ts_tier ` set (under_name (rw_name r) ss))
     \<and> rw_description r = ts_description (last (under_name (rw_name r) ss))"

definition catalog_ok :: "tool_schema list \<Rightarrow> tool_row list \<Rightarrow> bool" where
  "catalog_ok ss rows \<longleftrightarrow> distinct (map rw_name rows) \<and> rw_name ` set rows = ts_name ` set ss
     \<and> list_all (shared_row ss) rows"

lemma under_name_snoc: "under_name n (ss @ [s]) = under_name n ss @ (if ts_name s = n then [s] else [])"
  by (simp add: under_name_def)

lemma under_name_empty: "under_name n ss = [] \<longleftrightarrow> n \<notin> ts_name ` set ss"
  by (auto simp: under_name_def filter_empty_conv)

lemma find_name:
  assumes "distinct (map rw_name rows)"
  shows "find (\<lambda>r. rw_name r = n) rows = Some r \<longleftrightarrow> r \<in> set rows \<and> rw_name r = n"
  using assms by (induction rows) (auto split: if_splits)

lemma merged_values:
  assumes ok: "catalog_ok ss rows"
    and m: "merge_with_existing rows s = (roles, merged)"
  shows "set roles = \<Union> (set ` ts_roles ` set (under_name (ts_name s) (ss @ [s])))
    \<and> merged = Max (ts_tier ` set (under_name (ts_name s) (ss @ [s])))"
proof (cases "find (\<lambda>r. rw_name r = ts_name s) rows")
  case None
  then have "ts_name s \<notin> rw_name ` set rows" by (auto simp: find_None_iff)
  then have "under_name (ts_name s) ss = []" using ok by (simp add: catalog_ok_def under_name_empty)
  with None m show ?thesis by (simp add: merge_with_existing_def under_name_snoc)
next
  case (Some r)
  then have r: "r \<in> set rows" "rw_name r = ts_name s"
    using ok by (simp_all add: catalog_ok_def find_name)
  then have "shared_row ss r" using ok by (simp add: catalog_ok_def list_all_iff)
  then have row: "under_name (ts_name s) ss \<noteq> []"
      "set (roles_from_csv (rw_roles_csv r)) = \<Union> (set ` ts_roles ` set (under_name (ts_name s) ss))"
      "rw_tier r = Max (ts_tier ` set (under_name (ts_name s) ss))"
    using r(2) by (simp_all add: shared_row_def)
  from Some m have rm: "roles = List.union (ts_roles s) (roles_from_csv (rw_roles_csv r))"
      "merged = stricter_tier (rw_tier r) (ts_tier s)"
    by (simp_all add: merge_with_existing_def)
  have "Max (ts_tier ` set (under_name (ts_name s) ss @ [s])) = max (Max (ts_tier ` set (under_name (ts_name s) ss))) (ts_tier s)"
    using row(1) by (simp add: Max_insert max.commute)
  then show ?thesis
    using row rm by (simp add: under_name_snoc stricter_tier_max)
qed

lemma register_catalog_ok:
  assumes ok: "catalog_ok ss rows" and plain: "list_all plain_role (concat (map ts_roles (ss @ [s])))"
    and reg: "register_schema env s rows = Some rows'"
  shows "catalog_ok (ss @ [s]) rows'"
proof -
  obtain roles merged where m: "merge_with_existing rows s = (roles, merged)" by fastforce
  note v = merged_values [OF ok m]
  let ?keep = "filter (\<lambda>r. rw_name r \<noteq> ts_name s) rows"
  obtain r where rows': "rows' = ?keep @ [r]" and r: "rw_name r = ts_name s" "rw_tier r = merged"
      "rw_roles_csv r = roles_to_csv roles" "rw_description r = ts_description s"
    using reg m by (auto simp: register_schema_def split: option.splits if_splits)
  have "list_all plain_role roles"
    using plain v by (fastforce simp: list_all_iff under_name_def)
  then have "shared_row (ss @ [s]) r"
    using r v by (simp add: shared_row_def roles_csv_roundtrip under_name_snoc)
  moreover have "shared_row (ss @ [s]) q" if "q \<in> set ?keep" for q
    using that ok by (auto simp: catalog_ok_def list_all_iff shared_row_def under_name_snoc)
  moreover have "distinct (map rw_name rows')"
    using ok r by (auto simp: catalog_ok_def rows' distinct_map_filter)
  moreover have "rw_name ` set ?keep = rw_name ` set rows - {ts_name s}" by auto
  then have "rw_name ` set rows' = ts_name ` set (ss @ [s])"
    using ok r by (auto simp: catalog_ok_def rows')
  ultimately show ?thesis by (simp add: catalog_ok_def list_all_iff rows')
qed

lemma registered_catalog_ok:
  assumes "registered env ss = Some rows" and "list_all plain_role (concat (map ts_roles ss))"
  shows "catalog_ok ss rows"
  using assms
proof (induction ss arbitrary: rows rule: rev_induct)
  case Nil
  then show ?case by (simp add: registered_def catalog_ok_def)
next
  case (snoc s ss)
  then obtain rows0 where "registered env ss = Some rows0" "register_schema env s rows0 = Some rows"
    by (auto simp: registered_def bind_eq_Some_conv)
  with snoc show ?case by (intro register_catalog_ok [of ss rows0]) auto
qed

text \<open>
  Registering a tool never narrows it. After any history of registrations, whatever their
  order, there is one row per registered name; its roles are those of all the registrations
  of the name together, its tier is the strictest of them, and its description the last.
\<close>

theorem registration_shares_roles:
  assumes "registered env ss = Some rows" and "list_all plain_role (concat (map ts_roles ss))"
  shows "distinct (map rw_name rows) \<and> rw_name ` set rows = ts_name ` set ss
    \<and> list_all (\<lambda>r. set (ts_roles (row_to_schema r)) = \<Union> (set ` ts_roles ` set (under_name (rw_name r) ss))
        \<and> ts_tier (row_to_schema r) = Max (ts_tier ` set (under_name (rw_name r) ss))
        \<and> ts_description (row_to_schema r) = ts_description (last (under_name (rw_name r) ss))) rows"
  using registered_catalog_ok [OF assms]
  by (auto simp: catalog_ok_def list_all_iff shared_row_def row_to_schema_def)

definition demo_rag :: rag_env where
  "demo_rag = \<lparr>rg_embed = (\<lambda>_. Some [0]), rg_dim = 1, rg_search = (\<lambda>rows _ n. map (\<lambda>r. (r, 0)) (take n rows))\<rparr>"

definition demo_schema :: "string \<Rightarrow> tier \<Rightarrow> string list \<Rightarrow> tool_schema" where
  "demo_schema n t roles =
     \<lparr>ts_name = n, ts_description = ''d'', ts_json_schema = ''{}'', ts_tier = t, ts_roles = roles, ts_embedding = None\<rparr>"

definition demo_history :: "tool_schema list" where
  "demo_history =
     [demo_schema ''glob'' READ_ONLY [''researcher''], demo_schema ''run'' EXECUTE [''core_dev''],
      demo_schema ''glob'' WRITE [''core_dev'', ''analyst'']]"

theorem registration_shares_roles_witness:
  "list_all (\<lambda>r. rw_name r = ''glob'' \<longrightarrow> set (ts_roles (row_to_schema r)) = {''researcher'', ''core_dev'', ''analyst''}
      \<and> ts_tier (row_to_schema r) = WRITE) (the (registered demo_rag demo_history))"
proof -
  have r: "registered demo_rag demo_history = Some (the (registered demo_rag demo_history))" by code_simp
  have p: "list_all plain_role (concat (map ts_roles demo_history))" by code_simp
  have u: "under_name ''glob'' demo_history
      = [demo_schema ''glob'' READ_ONLY [''researcher''], demo_schema ''glob'' WRITE [''core_dev'', ''analyst'']]"
    by code_simp
  have "Max {READ_ONLY, WRITE} = WRITE" by (simp add: max_def)
  with u registration_shares_roles [OF r p] show ?thesis
    by (auto simp: list_all_iff demo_schema_def)
qed

subsection \<open>What a turn sees\<close>

text \<open>Documented behaviour of the vector search: neighbours are rows of the table, none twice.\<close>

definition search_ok :: "rag_env \<Rightarrow> bool" where
  "search_ok env \<longleftrightarrow> (\<forall>rows q n. set (map fst (rg_search env rows q n)) \<subseteq> set rows
     \<and> (distinct (map rw_name rows) \<longrightarrow> distinct (map (rw_name \<circ> fst) (rg_search env rows q n))))"

lemma visible_eager_rows: "visible_eager rows r mode = map row_to_schema (visible_rows r mode rows)"
  by (auto simp: visible_eager_def visible_rows_def all_schemas_def filter_map o_def row_to_schema_def Let_def
      intro: filter_cong)

lemma set_rank_rows [simp]: "set (rank_rows hits) = set hits"
  by (simp add: rank_rows_def)

lemma distinct_rank_rows: "distinct (map (rw_name \<circ> fst) (rank_rows hits)) \<longleftrightarrow> distinct (map (rw_name \<circ> fst) hits)"
  by (simp add: rank_rows_def distinct_map)

lemma length_rank_rows [simp]: "length (rank_rows hits) = length hits"
  by (simp add: rank_rows_def)

lemma ensure_read_only_take:
  assumes "distinct (map (rw_name \<circ> fst) ranked)" and "ranked \<noteq> []" and "0 < k"
  shows "set (ensure_read_only ranked (take k ranked)) \<subseteq> set ranked
    \<and> distinct (map (rw_name \<circ> fst) (ensure_read_only ranked (take k ranked)))
    \<and> length (ensure_read_only ranked (take k ranked)) = min k (length ranked)
    \<and> (list_ex (\<lambda>(r, d). rw_tier r = READ_ONLY) ranked
        \<longrightarrow> list_ex (\<lambda>(r, d). rw_tier r = READ_ONLY) (ensure_read_only ranked (take k ranked)))"
proof -
  let ?ro = "\<lambda>(r, d). rw_tier r = READ_ONLY" and ?front = "take k ranked"
  have dist: "distinct (map (rw_name \<circ> fst) ?front)"
    using assms(1) by (simp add: take_map [symmetric])
  show ?thesis
  proof (cases "list_ex ?ro ?front \<or> find ?ro ranked = None")
    case True
    then have "ensure_read_only ranked ?front = ?front" by (auto simp: ensure_read_only_def)
    moreover have "list_ex ?ro ranked \<longrightarrow> list_ex ?ro ?front"
      using True by (auto simp: find_None_iff list_ex_iff)
    ultimately show ?thesis using dist by (simp add: set_take_subset min.commute)
  next
    case False
    then obtain best where best: "find ?ro ranked = Some best" by auto
    then have b: "best \<in> set ranked" "?ro best" by (metis find_Some_iff nth_mem)+
    with False have "best \<notin> set ?front" by (auto simp: list_ex_iff)
    have inj: "inj_on (rw_name \<circ> fst) (set ranked)" using assms(1) by (simp only: distinct_map)
    have "(rw_name \<circ> fst) best \<notin> (rw_name \<circ> fst) ` set ?front"
    proof
      assume "(rw_name \<circ> fst) best \<in> (rw_name \<circ> fst) ` set ?front"
      then obtain x where x: "(rw_name \<circ> fst) best = (rw_name \<circ> fst) x" "x \<in> set ?front" by (rule imageE)
      from inj_onD [OF inj x(1) b(1) in_set_takeD [OF x(2)]] x(2) \<open>best \<notin> set ?front\<close>
      show False by simp
    qed
    then have "distinct (map (rw_name \<circ> fst) (butlast ?front @ [best]))"
      using dist by (auto simp: map_butlast distinct_butlast dest: in_set_butlastD)
    moreover have "?front \<noteq> []" using assms by simp
    moreover have "ensure_read_only ranked ?front = rank_rows (butlast ?front @ [best])"
      using False best by (simp add: ensure_read_only_def)
    moreover have "set (butlast ?front) \<subseteq> set ranked"
      using set_take_subset [of k ranked] by (auto dest: in_set_butlastD)
    ultimately show ?thesis
      using b by (simp add: distinct_rank_rows list_ex_iff min.commute)
  qed
qed

lemma select_tools_spec:
  assumes "search_ok env" and "distinct (map rw_name rows)" and "0 < k"
    and "select_tools env intent k r mode rows = Some ss"
  shows "set ss \<subseteq> set (visible_eager rows r mode) \<and> distinct (map ts_name ss) \<and> int (length ss) \<le> k"
proof (cases "rows = [] \<or> visible_rows r mode rows = []")
  case True
  then show ?thesis using assms by (auto simp: select_tools_def Let_def)
next
  case False
  let ?surv = "visible_rows r mode rows"
  obtain q where q: "rg_embed env intent = Some q" using assms(4) False by (auto simp: select_tools_def Let_def split: option.splits)
  define found where "found = rg_search env rows q (nat (max (k * 4) 32))"
  define hits where "hits = filter (\<lambda>(r, d). rw_name r \<in> set (map rw_name ?surv)) found"
  define cand where "cand = (if hits = [] then map (\<lambda>r. (r, 0)) ?surv else hits)"
  have surv: "set ?surv \<subseteq> set rows" "distinct (map rw_name ?surv)"
    using assms(2) by (auto simp: visible_rows_def Let_def distinct_map_filter)
  have found: "set (map fst found) \<subseteq> set rows"
    using assms(1) unfolding search_ok_def found_def by (elim allE conjE)
  have found': "distinct (map (rw_name \<circ> fst) found)"
    using assms(1) unfolding search_ok_def found_def by (elim allE conjE) (rule mp [OF _ assms(2)])
  have "fst x \<in> set ?surv" if x: "x \<in> set hits" for x
  proof -
    have "fst x \<in> set rows" "rw_name (fst x) \<in> rw_name ` set ?surv"
      using x found by (auto simp: hits_def)
    then show ?thesis using assms(2) surv(1) by (auto simp: distinct_map dest: inj_onD)
  qed
  then have cand: "fst ` set cand \<subseteq> set ?surv" "distinct (map (rw_name \<circ> fst) cand)" "cand \<noteq> []"
  proof -
    have "distinct (map (rw_name \<circ> fst) hits)"
      using found' unfolding hits_def by (rule distinct_map_filter)
    moreover have "map (rw_name \<circ> fst) (map (\<lambda>r. (r, 0 :: rat)) ?surv) = map rw_name ?surv" by simp
    ultimately show "distinct (map (rw_name \<circ> fst) cand)"
      using surv(2) by (cases "hits = []") (simp_all only: cand_def if_True if_False simp_thms)
  qed (use False in \<open>auto simp: cand_def\<close>)
  have ss: "ss = map (row_to_schema \<circ> fst) (ensure_read_only (rank_rows cand) (take (nat k) (rank_rows cand)))"
    using assms(3,4) False q unfolding cand_def hits_def found_def select_tools_def py_take_def Let_def by simp
  have "rank_rows cand \<noteq> []" "0 < nat k" "distinct (map (rw_name \<circ> fst) (rank_rows cand))"
    using cand assms(3) by (simp_all add: distinct_rank_rows flip: length_greater_0_conv)
  note spec = ensure_read_only_take [OF this(3,1,2)]
  have names: "map ts_name ss = map (rw_name \<circ> fst) (ensure_read_only (rank_rows cand) (take (nat k) (rank_rows cand)))"
    by (simp add: ss row_to_schema_def)
  have "distinct (map ts_name ss)" using spec by (simp only: names)
  moreover have "int (length ss) \<le> k" using spec assms(3) by (simp add: ss)
  moreover have "set ss \<subseteq> row_to_schema ` set ?surv"
  proof -
    have "set ss \<subseteq> (row_to_schema \<circ> fst) ` set cand" using spec by (auto simp: ss)
    also have "\<dots> = row_to_schema ` fst ` set cand" by (simp add: image_comp)
    finally show ?thesis using cand(1) by blast
  qed
  ultimately show ?thesis by (simp add: visible_eager_rows)
qed

lemma list_ex_name: "list_ex (\<lambda>s. ts_name s = n) ss \<longleftrightarrow> n \<in> ts_name ` set ss"
  by (auto simp: list_ex_iff)

text \<open>The discovery tool is kept: what \<open>ss\<close> becomes when a visible one is appended unless it is there.\<close>

lemma keep_hatch:
  assumes "out = (case find (\<lambda>s. ts_name s = n) eager of None \<Rightarrow> ss
      | Some h \<Rightarrow> if list_ex (\<lambda>s. ts_name s = n) ss then ss else ss @ [h])"
    and "set ss \<subseteq> set eager" and "distinct (map ts_name ss)"
  shows "set out \<subseteq> set eager \<and> distinct (map ts_name out) \<and> length out \<le> Suc (length ss)
    \<and> (n \<in> ts_name ` set eager \<longleftrightarrow> n \<in> ts_name ` set out)"
proof (cases "find (\<lambda>s. ts_name s = n) eager")
  case None
  then have "out = ss" using assms(1) by simp
  moreover have "n \<notin> ts_name ` set eager" using None by (auto simp: find_None_iff)
  moreover from this assms(2) have "n \<notin> ts_name ` set ss" by blast
  ultimately show ?thesis using assms(2,3) by simp
next
  case (Some h)
  then have h: "h \<in> set eager" "ts_name h = n" by (auto simp: find_Some_iff)
  then have "n \<in> ts_name ` set eager" by blast
  with Some h assms show ?thesis by (simp add: list_ex_name)
qed

text \<open>
  What a turn sees of the catalogue. The loader injects the whole visible catalogue exactly
  if its schemas fit the threshold. Otherwise it injects at most \<open>k\<close> of them (one, if \<open>k\<close> is less),
  each visible to the role in the session and none twice, and among them the discovery tool
  if that is visible.
\<close>

theorem injected_tools_visible:
  assumes "search_ok env" and "distinct (map rw_name rows)"
    and "resolve_catalog env share intent r mode window k rows = Some d"
  shows "set (ld_schemas d) \<subseteq> set (visible_eager rows r mode) \<and> distinct (map ts_name (ld_schemas d))
    \<and> (if int (schema_chars (visible_eager rows r mode)) \<le> threshold_chars share window
       then ld_mode d = Eager \<and> ld_schemas d = visible_eager rows r mode
       else ld_mode d = Deferred \<and> int (length (ld_schemas d)) \<le> max 1 k
         \<and> (TOOL_SEARCH_NAME \<in> ts_name ` set (visible_eager rows r mode)
            \<longleftrightarrow> TOOL_SEARCH_NAME \<in> ts_name ` set (ld_schemas d)))"
proof -
  let ?eager = "visible_eager rows r mode"
  have dist: "distinct (map ts_name ?eager)"
  proof -
    have "map ts_name ?eager = map rw_name (visible_rows r mode rows)"
      by (simp add: visible_eager_rows row_to_schema_def)
    then show ?thesis using assms(2) by (simp add: visible_rows_def Let_def distinct_map_filter)
  qed
  consider (eager) "int (schema_chars ?eager) \<le> threshold_chars share window"
    | (one) "\<not> int (schema_chars ?eager) \<le> threshold_chars share window" "k \<le> 1"
    | (some) "\<not> int (schema_chars ?eager) \<le> threshold_chars share window" "1 < k" by linarith
  then show ?thesis
  proof cases
    case eager
    then show ?thesis using assms(3) dist by (auto simp: resolve_catalog_def Let_def)
  next
    case one
    then have d: "ld_mode d = Deferred" "ld_schemas d = (case find (\<lambda>s. ts_name s = TOOL_SEARCH_NAME) ?eager of
        None \<Rightarrow> [] | Some h \<Rightarrow> if list_ex (\<lambda>s. ts_name s = TOOL_SEARCH_NAME) [] then [] else [] @ [h])"
      using assms(3) by (auto simp: resolve_catalog_def Let_def split: option.split)
    have "length (ld_schemas d) \<le> 1" using keep_hatch [OF d(2)] by simp
    then have "int (length (ld_schemas d)) \<le> max 1 k" by linarith
    with one(1) keep_hatch [OF d(2)] d(1) show ?thesis by simp
  next
    case some
    then obtain ss where ss: "select_tools env intent (k - 1) r mode rows = Some ss"
      and d: "ld_mode d = Deferred" "ld_schemas d = (case find (\<lambda>s. ts_name s = TOOL_SEARCH_NAME) ?eager of
        None \<Rightarrow> ss | Some h \<Rightarrow> if list_ex (\<lambda>s. ts_name s = TOOL_SEARCH_NAME) ss then ss else ss @ [h])"
      using assms(3) by (auto simp: resolve_catalog_def Let_def)
    have "0 < k - 1" using some(2) by simp
    note spec = select_tools_spec [OF assms(1,2) this ss]
    from spec keep_hatch [OF d(2)] some d(1) show ?thesis by simp
  qed
qed

definition demo_table :: "tool_row list" where
  "demo_table = the (registered demo_rag (demo_schema ''tool_search'' READ_ONLY [''core_dev''] # demo_history))"

theorem injected_tools_visible_witness:
  "\<exists>d. resolve_catalog demo_rag (1 / 10) ''run it'' ''core_dev'' STANDARD 8 3 demo_table = Some d
     \<and> ld_mode d = Deferred \<and> TOOL_SEARCH_NAME \<in> ts_name ` set (ld_schemas d)"
proof -
  let ?d = "resolve_catalog demo_rag (1 / 10) ''run it'' ''core_dev'' STANDARD 8 3 demo_table"
  have d: "?d = Some (the ?d)" by code_simp
  have s: "search_ok demo_rag"
    by (auto simp: search_ok_def demo_rag_def o_def dest: in_set_takeD) (simp add: take_map [symmetric])
  have n: "distinct (map rw_name demo_table)" by code_simp
  have big: "\<not> int (schema_chars (visible_eager demo_table ''core_dev'' STANDARD)) \<le> threshold_chars (1 / 10) 8"
    by code_simp
  have v: "TOOL_SEARCH_NAME \<in> ts_name ` set (visible_eager demo_table ''core_dev'' STANDARD)" by code_simp
  from injected_tools_visible [OF s n d] big v d show ?thesis by (intro exI [of _ "the ?d"]) simp
qed

text \<open>
  The guarantee of a READ_ONLY tool reaches only as far as the search: a visible one that is
  not among the nearest neighbours is not swapped in.
\<close>

definition far_table :: "tool_row list" where
  "far_table = map (\<lambda>i. \<lparr>rw_name = [char_of (65 + i :: nat)], rw_description = [], rw_json_schema = [],
       rw_tier = (if i = 32 then READ_ONLY else EXECUTE), rw_roles_csv = '',core_dev,'', rw_vector = [0]\<rparr>) [0..<33]"

lemma read_only_beyond_the_search:
  "list_ex (\<lambda>s. ts_tier s = READ_ONLY) (visible_eager far_table ''core_dev'' STANDARD)
   \<and> (case select_tools demo_rag [] 5 ''core_dev'' STANDARD far_table of
        Some ss \<Rightarrow> length ss = 5 \<and> \<not> list_ex (\<lambda>s. ts_tier s = READ_ONLY) ss | None \<Rightarrow> False)"
  by code_simp

text \<open>
  The discovery tool is called past its argument schema, and a negative \<open>k\<close> is a slice: the
  listing then holds more than the cap.
\<close>

lemma negative_k_exceeds_cap:
  "(case tool_search demo_rag [] (-1) None None None far_table of
      Some ms \<Rightarrow> TOOL_RAG_TOP_K < int (length ms) | None \<Rightarrow> False)"
  by code_simp

lemma fst_set_dset: "fst ` set (dset k v d) = insert k (fst ` set d)"
proof -
  have "set (dkeys (dset k v d)) = insert k (set (dkeys d))"
    by (cases "k \<in> set (dkeys d)") (auto simp add: dkeys_dset simp del: set_map)
  then show ?thesis by (simp only: set_map)
qed

lemma dkeys_fold_schemas:
  "set (dkeys (fold (\<lambda>s. dset (ts_name s) s) ss d)) = ts_name ` set ss \<union> set (dkeys d)
   \<and> (distinct (dkeys d) \<longrightarrow> distinct (dkeys (fold (\<lambda>s. dset (ts_name s) s) ss d)))"
  by (induction ss arbitrary: d) (simp_all add: fst_set_dset distinct_dset)

lemma map_filter_all:
  assumes "\<And>n. n \<in> set ns \<Longrightarrow> g n \<noteq> None"
  shows "dkeys (List.map_filter (\<lambda>n. map_option (\<lambda>t. (n, t)) (g n)) ns) = ns"
  using assms by (induction ns) (auto simp: List.map_filter_simps split: option.splits)

text \<open>
  What is advertised can be called. When the schemas of a turn resolve, each name that
  remains after the filter of the resolvable ones has exactly one callable.
\<close>

theorem advertised_tools_resolve:
  assumes "resolve_tools fams (filter_resolvable schemas) = Inr m"
  shows "distinct (dkeys m) \<and> set (dkeys m) = ts_name ` set (filter_resolvable schemas)"
proof -
  let ?names = "dkeys (fold (\<lambda>s. dset (ts_name s) s) (filter_resolvable schemas) [])"
  have names: "set ?names = ts_name ` set (filter_resolvable schemas)" "distinct ?names"
    using dkeys_fold_schemas [of "filter_resolvable schemas" "[]"] by simp_all
  then have unreg: "n \<in> set ?names \<Longrightarrow> n \<notin> set INTENTIONALLY_UNREGISTERED" for n
    by (auto simp: filter_resolvable_def)
  show ?thesis
  proof (cases "?names = []")
    case True
    then show ?thesis using assms names by (simp add: resolve_tools_def Let_def)
  next
    case False
    obtain resolved where none: "filter (\<lambda>n. dget resolved n = None \<and> n \<notin> set INTENTIONALLY_UNREGISTERED) ?names = []"
      and m: "m = List.map_filter (\<lambda>n. map_option (\<lambda>t. (n, t)) (dget resolved n)) ?names"
      using assms False by (auto simp: resolve_tools_def Let_def split: if_splits)
    have "dkeys m = ?names"
      unfolding m by (rule map_filter_all) (use none unreg in \<open>auto simp: filter_empty_conv\<close>)
    then show ?thesis using names by simp
  qed
qed

definition demo_families :: tool_families where
  "demo_families = \<lparr>tf_registered = [], tf_bare = [[(''glob'', \<lambda>_ _. ToolText [])]],
     tf_simple = [(''run'', \<lambda>_ _. ToolText [])]\<rparr>"

theorem advertised_tools_resolve_witness:
  "\<exists>m. resolve_tools demo_families (filter_resolvable (demo_schema ''file_write'' WRITE [] # demo_history)) = Inr m
     \<and> set (dkeys m) = {''glob'', ''run''}"
proof -
  let ?ss = "demo_schema ''file_write'' WRITE [] # demo_history"
  let ?r = "resolve_tools demo_families (filter_resolvable ?ss)"
  have "\<not> isl ?r" by code_simp
  then have r: "?r = Inr (projr ?r)" by simp
  have "map ts_name (filter_resolvable ?ss) = [''glob'', ''run'', ''glob'']" by code_simp
  then have "ts_name ` set (filter_resolvable ?ss) = {''glob'', ''run''}"
    by (simp only: set_map [symmetric]) auto
  with advertised_tools_resolve [OF r] r show ?thesis by (intro exI [of _ "projr ?r"]) simp
qed

end
