(* ===== verification/AgenticCell.thy ===== *)
theory AgenticCell
  imports Tournament ToolCatalog Patches TurnFlow Commands
begin

text \<open>
  The autonomous cell (\<open>brain/agentic_cell.py\<close>, with \<open>core/redaction.py\<close> for its retrieval
  intent): one visit of \<open>run_agentic_cell_node\<close> with its four phases, the registry of terminal
  sessions, the audit of tool calls, the three primitives, the fall-back to registered tools, the
  tournament of competing edits and the governor. A visit maps the cell's channels and the
  process-wide world (sessions, blobs, what has run) to a delta and a new world.

  Parameters are the terminal session, the reasoner, the catalogue's embedder and search, the
  firewalled reader, the parser of diagnostics, the skeleton extractor, the secret scrubber,
  Python's \<open>str\<close> and \<open>repr\<close> of values, token counts and the clock. The approval callbacks of the
  configuration are options; without one the native interrupt raises on a first visit and answers
  when the graph resumes. Events for the user interface and the references that join them are
  left out, and the tools of a state are rebuilt at each call rather than kept for the iteration.
\<close>

subsection \<open>Channels and trajectory\<close>

declare map_of_eq_Some_iff [simp del] Some_eq_map_of_iff [simp del]

record cell_record =
  ce_iteration :: int
  ce_edits :: "string list"
  ce_occ_conflicts :: "string list"
  ce_exit_code :: "int option"
  ce_diagnostics :: string
  ce_status :: string
  ce_axis :: "axis option"

text \<open>A concession carries its reason; a message has a role and a content and no status.\<close>

datatype cell_entry = Verdict cell_record | Conceded int string | Remark string string

fun entry_status :: "cell_entry \<Rightarrow> string option" where
  "entry_status (Verdict r) = Some (ce_status r)"
| "entry_status (Conceded i reason) = Some ''concede''"
| "entry_status (Remark role content) = None"

record tool_audit =
  ta_tool :: string
  ta_args :: "(string \<times> string) list"
  ta_decision :: string
  ta_reason :: string

record cell_state =
  cs_graph :: graph_state
  cs_user_input :: string
  cs_iteration :: int
  cs_trajectory :: "cell_entry list"
  cs_audit :: "tool_audit list"
  cs_consumed :: "string list"
  cs_exec :: "string option"
  cs_tool :: "tool_call option"
  cs_question :: json
  cs_query :: "string option"

text \<open>
  What a visit writes: \<open>None\<close> leaves a channel as it is; lists, dictionaries and the cost go
  through the reducers, so that an empty one stands for a key that is absent.
\<close>

record cell_delta =
  cd_iteration :: int
  cd_trajectory :: "cell_entry list"
  cd_errors :: "string list"
  cd_exec :: "string option option"
  cd_tool :: "tool_call option option"
  cd_question :: "json option"
  cd_query :: "string option option"
  cd_vfs :: "(string, vfs_file) dict"
  cd_contents :: "(string, string) dict"
  cd_flags :: "string list"
  cd_audit :: "tool_audit list"
  cd_consumed :: "string list"
  cd_cost :: rat
  cd_promoted :: "(string, json) dict"

definition plain_delta :: "int \<Rightarrow> cell_entry list \<Rightarrow> cell_delta" where
  "plain_delta iteration trajectory =
     \<lparr>cd_iteration = iteration + 1, cd_trajectory = trajectory, cd_errors = [], cd_exec = None, cd_tool = None,
      cd_question = None, cd_query = None, cd_vfs = [], cd_contents = [], cd_flags = [], cd_audit = [],
      cd_consumed = [], cd_cost = 0, cd_promoted = []\<rparr>"

definition todo_content :: "json \<Rightarrow> string" where
  "todo_content item = (case item of JObj d \<Rightarrow> or_else (as_text (jget d ''content'')) [] | _ \<Rightarrow> [])"

definition promoted_writes :: "(string, json) dict \<Rightarrow> delta" where
  "promoted_writes promotions =
     List.map_filter (\<lambda>(channel, v). case v of
         JArr items \<Rightarrow> (if channel = ''agent_todos'' then Some (W_agent_todos (Some (map todo_content items))) else None)
       | _ \<Rightarrow> None) promotions"

definition merge_delta :: "cell_delta \<Rightarrow> cell_state \<Rightarrow> cell_state" where
  "merge_delta d s = s\<lparr>
     cs_graph := apply_delta ([W_errors (cd_errors d), W_vfs_buffer (cd_vfs d), W_pending_contents (cd_contents d),
         W_security_flags (cd_flags d), W_current_cost_usd (cd_cost d)] @ promoted_writes (cd_promoted d)) (cs_graph s),
     cs_iteration := cd_iteration d,
     cs_trajectory := cs_trajectory s @ cd_trajectory d,
     cs_audit := cs_audit s @ cd_audit d,
     cs_consumed := cs_consumed s @ cd_consumed d,
     cs_exec := or_else (cd_exec d) (cs_exec s),
     cs_tool := or_else (cd_tool d) (cs_tool s),
     cs_question := or_else (cd_question d) (cs_question s),
     cs_query := or_else (cd_query d) (cs_query s)\<rparr>"

subsection \<open>The world of a visit\<close>

datatype run_outcome = Exited int string | Timed_out | Run_raised string

record 's cell_session =
  cx_surface :: 's
  cx_start :: rat

text \<open>What has run: a command of the model, the runs of one tournament, a registered tool.\<close>

datatype cell_effect = Ran string | Verified string | Called tool_call

record 's cell_world =
  cw_sessions :: "(string, 's cell_session) dict"
  cw_blobs :: cas
  cw_effects :: "cell_effect list"

record 's cell_env =
  ev_surface :: "'s surface"
  ev_sync :: sync_env
  ev_patch :: patch_env
  ev_adapter :: "(string \<Rightarrow> string + 's) option"
  ev_run :: "string \<Rightarrow> 's \<Rightarrow> run_outcome \<times> 's"
  ev_verdict :: "string \<Rightarrow> string \<Rightarrow> string"
  ev_skeleton :: "string \<Rightarrow> string \<Rightarrow> string"
  ev_read :: "string \<Rightarrow> string option"
  ev_reasoner :: "(string \<times> string) list \<Rightarrow> string + tool_call list"
  ev_scrub :: "string \<Rightarrow> string"
  ev_str :: "json \<Rightarrow> string"
  ev_repr :: "string \<Rightarrow> string"
  ev_count :: "string \<Rightarrow> nat"
  ev_dump :: "tool_call \<Rightarrow> string"
  ev_loads :: "string \<Rightarrow> string + json"
  ev_rag :: rag_env
  ev_rows :: "tool_row list"
  ev_share :: rat
  ev_window :: int
  ev_families :: tool_families
  ev_asked :: "(string, json) dict \<Rightarrow> json"
  ev_queue :: "(string \<times> string) list option"
  ev_exec_approval :: "(string \<Rightarrow> string + bool) option"
  ev_tool_approval :: "(tool_call \<Rightarrow> string + bool) option"
  ev_clarification :: "(json \<Rightarrow> string + (string, json) dict) option"
  ev_resume :: "json option"
  ev_interrupt :: string
  ev_verify_command :: string
  ev_uuid :: "nat \<Rightarrow> string"
  ev_registry :: registry
  ev_now :: rat
  ev_max_steps :: "int option"
  ev_max_cost :: "rat option"
  ev_ceiling_injected :: bool
  ev_max_elapsed :: "rat option"
  ev_local_timeout :: rat

definition RUN_TERMINAL :: string where "RUN_TERMINAL = ''run_terminal''"
definition READ_FILE_AST :: string where "READ_FILE_AST = ''read_file_ast''"
definition APPLY_EDIT :: string where "APPLY_EDIT = ''apply_granular_edit''"
definition MAX_EDIT_FILE_BYTES :: nat where "MAX_EDIT_FILE_BYTES = 500 * 1024"
definition READ_FALLBACK_MAX_CHARS :: nat where "READ_FALLBACK_MAX_CHARS = 2000"
definition READ_OBSERVATION_MAX_CHARS :: nat where "READ_OBSERVATION_MAX_CHARS = 6000"
definition STEERING_ITERATION_GRANT :: nat where "STEERING_ITERATION_GRANT = 2"

text \<open>\<open>str(args.get(key, ""))\<close>.\<close>

definition str_arg :: "'s cell_env \<Rightarrow> (string, json) dict \<Rightarrow> string \<Rightarrow> string" where
  "str_arg env args key =
     (case dget args key of None \<Rightarrow> [] | Some (JStr s) \<Rightarrow> s | Some v \<Rightarrow> ev_str env v)"

text \<open>The wall clock floor covers two attempts of one call on local hardware.\<close>

definition cell_elapsed_floor :: "'s cell_env \<Rightarrow> rat" where
  "cell_elapsed_floor env = max AGENTIC_CELL_MAX_ELAPSED_S (ev_local_timeout env * 2)"

subsection \<open>The audit of a call\<close>

definition audit_tool_args :: "'s cell_env \<Rightarrow> tool_call \<Rightarrow> bool \<times> tool_audit" where
  "audit_tool_args env call =
     (let scrubbed = map (\<lambda>(k, v). (k, ev_scrub env (case v of JStr s \<Rightarrow> s | _ \<Rightarrow> ev_str env v))) (tc_args call);
          hit = (if tc_name call = RUN_TERMINAL then match_dangerous (str_arg env (tc_args call) ''command'') else None);
          allowed = (hit = None)
      in (allowed,
          \<lparr>ta_tool = tc_name call, ta_args = scrubbed, ta_decision = (if allowed then ''allow'' else ''reject''),
           ta_reason = (case hit of None \<Rightarrow> ''allowed'' | Some h \<Rightarrow> ''dangerous_command:'' @ h)\<rparr>))"

subsection \<open>Sessions\<close>

definition close_cell :: "string \<Rightarrow> 's cell_world \<Rightarrow> 's cell_world" where
  "close_cell tid w = w\<lparr>cw_sessions := AList.delete tid (cw_sessions w)\<rparr>"

definition sweep_orphaned_sessions :: "string list \<Rightarrow> 's cell_world \<Rightarrow> nat \<times> 's cell_world" where
  "sweep_orphaned_sessions live_task_ids w =
     (let orphans = filter (\<lambda>tid. tid \<notin> set live_task_ids) (dkeys (cw_sessions w))
      in (length orphans, fold close_cell orphans w))"

text \<open>
  Keystrokes and the interrupt reach the terminal of a session: whether there is one, and
  what the terminal is sent. A fault of the terminal is answered as no session.
\<close>

definition signal_session ::
  "('s \<Rightarrow> 's option) \<Rightarrow> string \<Rightarrow> 's cell_world \<Rightarrow> bool \<times> 's cell_world" where
  "signal_session send session_id w =
     (case dget (cw_sessions w) session_id of
        None \<Rightarrow> (False, w)
      | Some cell \<Rightarrow>
          (case send (cx_surface cell) of
             None \<Rightarrow> (False, w)
           | Some s \<Rightarrow> (True, w\<lparr>cw_sessions := dset session_id (cell\<lparr>cx_surface := s\<rparr>) (cw_sessions w)\<rparr>)))"

definition run_on_surface :: "'s cell_env \<Rightarrow> string \<Rightarrow> 's \<Rightarrow> (string + int \<times> string) \<times> 's" where
  "run_on_surface env command s =
     (case ev_run env command s of
        (Exited exit_code output, s') \<Rightarrow> (Inr (exit_code, output), s')
      | (Timed_out, s') \<Rightarrow> (Inr (-1, ''[command timed out]''), s')
      | (Run_raised exc, s') \<Rightarrow> (Inl exc, s'))"

subsection \<open>Roles, intent and messages\<close>

definition current_step :: "cell_state \<Rightarrow> wbs_step option" where
  "current_step s =
     (case (mission_spec (cs_graph s), current_step_id (cs_graph s)) of
        (Some m, Some i) \<Rightarrow> find (\<lambda>t. step_number t = i) (ms_tasks m)
      | _ \<Rightarrow> None)"

definition cell_active_role :: "cell_state \<Rightarrow> string" where
  "cell_active_role s =
     (case current_step s of None \<Rightarrow> ''core_dev'' | Some t \<Rightarrow> str_or (Some (st_target_role t)) ''core_dev'')"

definition truncate_middle :: "string \<Rightarrow> nat \<Rightarrow> string" where
  "truncate_middle s cap =
     (if length s \<le> cap then s
      else (let half = cap div 2 in
            take half s @ [CHR 0x0A, CHR 0x85] @ ''['' @ show_nat (length s - half * 2)
            @ '' chars truncated]'' @ [CHR 0x85, CHR 0x0A]
            @ (if half = 0 then s else last_chars half s)))"

fun action_value :: "step_action \<Rightarrow> string" where
  "action_value read_file = ''read_file''"
| "action_value write_file = ''write_file''"
| "action_value edit_file = ''edit_file''"
| "action_value run_command = ''run_command''"

fun entry_diagnostics :: "cell_entry \<Rightarrow> string" where
  "entry_diagnostics (Verdict r) = ce_diagnostics r"
| "entry_diagnostics _ = []"

fun entry_edits :: "cell_entry \<Rightarrow> string list" where
  "entry_edits (Verdict r) = ce_edits r"
| "entry_edits _ = []"

definition CELL_INTENT_MAX_CHARS :: nat where "CELL_INTENT_MAX_CHARS = 600"
definition CELL_INTENT_DIAGNOSTIC_CHARS :: nat where "CELL_INTENT_DIAGNOSTIC_CHARS = 200"

text \<open>\<open>xs[-n:]\<close> of a list.\<close>

definition last_items :: "nat \<Rightarrow> 'a list \<Rightarrow> 'a list" where
  "last_items n xs = drop (length xs - n) xs"

definition compose_cell_intent :: "cell_state \<Rightarrow> string" where
  "compose_cell_intent s =
     (let step = (case current_step s of
                    None \<Rightarrow> []
                  | Some t \<Rightarrow> [action_value (st_action t) @ '' '' @ st_target_file t @ '' '' @ st_description t]);
          verdicts = map (\<lambda>d. truncate_middle d CELL_INTENT_DIAGNOSTIC_CHARS)
            (filter (\<lambda>d. d \<noteq> []) (map entry_diagnostics (last_items 2 (cs_trajectory s))));
          edited = fold (\<lambda>p ps. if p \<in> set ps then ps else ps @ [p]) (concat (map entry_edits (cs_trajectory s))) [];
          edits = (if edited = [] then [] else [join '' '' (last_items 3 edited)])
      in truncate_middle (join '' '' (filter (\<lambda>p. p \<noteq> []) ([cs_user_input s] @ step @ verdicts @ edits)))
           CELL_INTENT_MAX_CHARS)"

text \<open>Verdicts are replayed as the user, observations as the system, steering as the user.\<close>

fun entry_message :: "cell_entry \<Rightarrow> (string \<times> string) list" where
  "entry_message (Remark role content) =
     (if role = ''system'' \<or> role = ''user'' then [(role, content)] else [])"
| "entry_message (Verdict r) =
     (if ce_diagnostics r \<noteq> [] then [(''user'', ''Verdict: '' @ ce_diagnostics r)] else [])"
| "entry_message (Conceded i reason) = []"

definition build_messages :: "cell_state \<Rightarrow> (string \<times> string) list" where
  "build_messages s =
     [(''system'', ''You are an autonomous coding agent driving a live terminal. Run ''
        @ ''commands, read the structured verdict, edit, and re-run until the task passes.'')]
     @ (case mission_spec (cs_graph s) of
          None \<Rightarrow> []
        | Some m \<Rightarrow> (let block = to_context_block m 6 600 in if block = [] then [] else [(''system'', block)]))
     @ [(''user'', cs_user_input s)]
     @ concat (map entry_message (cs_trajectory s))"

definition format_fallback_tools_hint :: "tool_schema list \<Rightarrow> load_mode \<Rightarrow> string" where
  "format_fallback_tools_hint schemas mode =
     ''Additional tools are available beyond '' @ join ''/'' [RUN_TERMINAL, READ_FILE_AST, APPLY_EDIT] @ '' ''
     @ [CHR 0x97] @ '' call one by name with args matching its purpose if it fits better than the 3 primitives:''
     @ [CHR 0x0A] @ join [CHR 0x0A] (map (\<lambda>s. ''- '' @ ts_name s @ '': '' @ ts_description s) schemas) @ [CHR 0x0A]
     @ ''Reading: prefer read_file_ast for structure. When you need the exact text of an anchor to patch, ''
     @ ''escalate to read_file with offset/limit for just that range '' @ [CHR 0x97]
     @ '' never to dump a whole file.'' @ [CHR 0x0A]
     @ (if mode = Eager
        then ''This is your COMPLETE tool set for this role '' @ [CHR 0x97] @ '' nothing further exists to discover.''
        else ''More tools exist beyond this list; call tool_search to discover them.'')"

subsection \<open>Steering\<close>

definition steering_step_grant :: "cell_state \<Rightarrow> string list \<Rightarrow> nat" where
  "steering_step_grant s newly_consumed =
     card (set (cs_consumed s) \<union> set newly_consumed) * STEERING_ITERATION_GRANT"

definition drain_steering :: "'s cell_env \<Rightarrow> cell_state \<Rightarrow> cell_entry list \<times> string list" where
  "drain_steering env s =
     (if task_id (cs_graph s) = [] then ([], [])
      else (let fresh = filter (\<lambda>(i, text). i \<notin> set (cs_consumed s)) (or_else (ev_queue env) [])
            in (map (\<lambda>(i, text). Remark ''user'' text) fresh, map fst fresh)))"

subsection \<open>Reading and editing\<close>

definition resolve_read_source :: "'s cell_env \<Rightarrow> (string, string) dict \<Rightarrow> string \<Rightarrow> string option" where
  "resolve_read_source env working path =
     (case dget working path of Some content \<Rightarrow> Some content | None \<Rightarrow> ev_read env path)"

definition read_file_skeleton :: "'s cell_env \<Rightarrow> string \<Rightarrow> string \<Rightarrow> string" where
  "read_file_skeleton env content path =
     str_or (Some (ev_skeleton env path content)) (take READ_FALLBACK_MAX_CHARS content)"

definition read_observation :: "'s cell_env \<Rightarrow> (string, string) dict \<Rightarrow> string \<Rightarrow> cell_entry" where
  "read_observation env working path =
     Remark ''system'' (''[read_file_ast] '' @ path @ [CHR 0x0A]
       @ (case resolve_read_source env working path of
            None \<Rightarrow> ''NOT FOUND '' @ [CHR 0x97] @ '' no such file, or the workspace read firewall ''
              @ ''declined it (ignored, binary, oversized, or outside the ''
              @ ''workspace). Check the path before patching it.''
          | Some source \<Rightarrow>
              str_or (Some (take READ_OBSERVATION_MAX_CHARS (read_file_skeleton env source path))) ''(file is empty)''))"

definition occ_diagnostic :: "string \<Rightarrow> cell_entry" where
  "occ_diagnostic path =
     Remark ''system'' (''Tool failed: OCC conflict on '' @ path @ ''. The file was modified concurrently ''
       @ [CHR 0x97] @ '' call '' @ READ_FILE_AST @ '' on it again before patching.'')"

text \<open>The token of the coder: the hash of the text with its line ends normalised.\<close>

definition coder_token :: "patch_env \<Rightarrow> string \<Rightarrow> string" where
  "coder_token env s = pt_sha256 env (normalize_eol s)"

definition compute_edit :: "patch_env \<Rightarrow> string \<Rightarrow> string \<Rightarrow> string \<Rightarrow> string \<Rightarrow> patch_failure + string" where
  "compute_edit env base path search replace =
     (if base = [] \<and> strip search = [] then Inr replace
      else map_sum id fst
        (patch_read env (dget [(path, base)]) path search replace (Some (coder_token env base))))"

subsection \<open>The local variables of an iteration\<close>

record 's cell_vars =
  cv_vfs :: "(string, vfs_file) dict"
  cv_version_ids :: "(string, string) dict"
  cv_working :: "(string, string) dict"
  cv_surface :: 's
  cv_blobs :: cas
  cv_record :: cell_record
  cv_audit :: "tool_audit list"
  cv_flags :: "string list"
  cv_occ_messages :: "cell_entry list"
  cv_reads :: "cell_entry list"
  cv_contents :: "(string, string) dict"
  cv_candidates :: "(string, string list) dict"
  cv_edited :: "string list"
  cv_observations :: "cell_entry list"
  cv_promotions :: "(string, json) dict"
  cv_tool_query :: "string option"
  cv_history :: "tool_call list"
  cv_effects :: "cell_effect list"

text \<open>What stays fixed while the calls of one reply are worked off.\<close>

record cell_context =
  cc_clean :: "(string, string) dict"
  cc_steering :: "cell_entry list"
  cc_consumed :: "string list"
  cc_schemas :: "tool_schema list"
  cc_role :: string
  cc_mode :: session_mode
  cc_graph :: graph_state

definition fresh_record :: "int \<Rightarrow> cell_record" where
  "fresh_record iteration =
     \<lparr>ce_iteration = iteration, ce_edits = [], ce_occ_conflicts = [], ce_exit_code = None, ce_diagnostics = [],
      ce_status = ''continue'', ce_axis = None\<rparr>"

datatype deferral = DeferCommand string | DeferTool tool_call | DeferQuestion json

text \<open>A call goes on to the next one, ends the visit with a deferral, or raises.\<close>

datatype 's call_result = Next "'s cell_vars" | Defer deferral "'s cell_vars" | Fault string "'s cell_vars"

fun vars_of :: "'s call_result \<Rightarrow> 's cell_vars" where
  "vars_of (Next v) = v"
| "vars_of (Defer what v) = v"
| "vars_of (Fault exc v) = v"

subsection \<open>The terminal\<close>

definition classify_execute :: "graph_state \<Rightarrow> decision" where
  "classify_execute g =
     evaluate_action (session_mode_from_channel (session_permission_mode g)) EXECUTE EDIT_EXECUTE_RBW"

definition command_decision :: "graph_state \<Rightarrow> string \<Rightarrow> decision" where
  "command_decision g command =
     (case classify_execute g of
        ALLOW \<Rightarrow>
          (if fst (risk_intercept_guard (Some command) ALLOW (session_mode_from_channel (session_permission_mode g))) = HITL
           then HITL else ALLOW)
      | d \<Rightarrow> d)"

text \<open>Push, run, pull: a command of the model on the surface.\<close>

definition terminal_run :: "'s cell_env \<Rightarrow> string \<Rightarrow> 's cell_vars \<Rightarrow> 's call_result" where
  "terminal_run env command v =
     (let (snap, s) = push_vfs_to_surface (ev_surface env) (ev_sync env) (cv_blobs v) (cv_version_ids v) (cv_vfs v)
            (cv_surface v) in
      case run_on_surface env command s of
        (Inl exc, s') \<Rightarrow> Fault exc (v\<lparr>cv_surface := s', cv_effects := cv_effects v @ [Ran command]\<rparr>)
      | (Inr (exit_code, output), s') \<Rightarrow>
          (let v' = v\<lparr>cv_surface := s', cv_effects := cv_effects v @ [Ran command],
                 cv_record := (cv_record v)\<lparr>ce_exit_code := Some exit_code, ce_diagnostics := ev_verdict env command output\<rparr>\<rparr>
           in case pull_surface_to_vfs (ev_surface env) (ev_sync env) snap (cv_version_ids v) (cv_blobs v) s' of
                None \<Rightarrow> Fault ''pull'' v'
              | Some p \<Rightarrow>
                  Next (v'\<lparr>
                    cv_blobs := pl_blobs p,
                    cv_vfs := fold (\<lambda>(path, vf). dset path vf) (pl_new_files p) (cv_vfs v),
                    cv_version_ids := fold (\<lambda>(path, vf). dset path (vf_document_version_id vf)) (pl_new_files p) (cv_version_ids v),
                    cv_working := fold (\<lambda>(path, vf) wk.
                        dset path (str_or (cas_get (pl_blobs p) (vf_blob_hash vf)) (dget_default wk path [])) wk)
                      (pl_new_files p) (cv_working v),
                    cv_record := (cv_record v')\<lparr>ce_occ_conflicts := ce_occ_conflicts (cv_record v') @ pl_conflicts p\<rparr>,
                    cv_occ_messages := cv_occ_messages v @ map occ_diagnostic (pl_conflicts p)\<rparr>)))"

subsection \<open>The calls of one reply\<close>

definition edit_base :: "cell_context \<Rightarrow> 's cell_vars \<Rightarrow> string \<Rightarrow> string" where
  "edit_base cx v path =
     (if dget (cv_candidates v) path \<noteq> None then dget_default (cc_clean cx) path []
      else dget_default (cv_working v) path (dget_default (cc_clean cx) path []))"

definition apply_edit :: "'s cell_env \<Rightarrow> cell_context \<Rightarrow> tool_call \<Rightarrow> 's cell_vars \<Rightarrow> 's call_result" where
  "apply_edit env cx call v =
     (let path = str_arg env (tc_args call) ''path''; search = str_arg env (tc_args call) ''search'';
          replace = str_arg env (tc_args call) ''replace''
      in case compute_edit (ev_patch env) (edit_base cx v path) path search replace of
           Inl Stale_file \<Rightarrow>
             Next (v\<lparr>cv_record := (cv_record v)\<lparr>ce_occ_conflicts := ce_occ_conflicts (cv_record v) @ [path]\<rparr>,
               cv_occ_messages := cv_occ_messages v @ [occ_diagnostic path]\<rparr>)
         | Inl (Failed e) \<Rightarrow> Fault ''PatchError'' v
         | Inr new_content \<Rightarrow>
             (let v' = v\<lparr>
                cv_candidates := dset path (dget_default (cv_candidates v) path [] @ [new_content]) (cv_candidates v),
                cv_edited := (if path \<in> set (cv_edited v) then cv_edited v else cv_edited v @ [path]),
                cv_record := (cv_record v)\<lparr>ce_edits := ce_edits (cv_record v) @ [path]\<rparr>,
                cv_working := dset path new_content (cv_working v)\<rparr>
              in case content_to_vfs (ev_sync env) [(path, new_content)] [] (cv_blobs v) of
                   None \<Rightarrow> Fault ''KeyError'' v'
                 | Some (vfs, blobs) \<Rightarrow>
                     Next (v'\<lparr>cv_blobs := blobs,
                       cv_vfs := fold (\<lambda>(p, vf). dset p vf) vfs (cv_vfs v),
                       cv_version_ids := fold (\<lambda>(p, vf). dset p (vf_document_version_id vf)) vfs (cv_version_ids v),
                       cv_contents := dset path new_content (cv_contents v)\<rparr>)))"

definition fallback_dispatcher :: "'s cell_env \<Rightarrow> cell_context \<Rightarrow> tool_map \<Rightarrow> dispatcher" where
  "fallback_dispatcher env cx tools =
     \<lparr>di_tools = tools, di_active_role = cc_role cx, di_session_mode = cc_mode cx,
      di_agent_permission = EDIT_EXECUTE_RBW, di_approval_fn = None, di_loads = ev_loads env\<rparr>"

definition TOOL_QUESTION :: string where "TOOL_QUESTION = ''ask_user_question''"

definition fallback_call :: "'s cell_env \<Rightarrow> cell_context \<Rightarrow> tool_call \<Rightarrow> 's cell_vars \<Rightarrow> 's call_result" where
  "fallback_call env cx call v =
     (case resolve_tools (ev_families env) (cc_schemas cx) of
        Inl missing \<Rightarrow> Fault ''KeyError'' v
      | Inr tools \<Rightarrow>
          (let self = fallback_dispatcher env cx tools in
           case classify self call of (reg, decision, reason) \<Rightarrow>
             if decision = HITL then Defer (DeferTool call) v
             else (case dispatch self (cv_history v) call of (result, history) \<Rightarrow>
               (let v' = v\<lparr>cv_history := history,
                      cv_effects := cv_effects v @ (if history \<noteq> cv_history v then [Called call] else [])\<rparr>;
                    asked = (if tc_name call = TOOL_QUESTION \<and> dr_executed result then ev_asked env (tc_args call) else JNull)
                in if truthy asked then Defer (DeferQuestion asked) v'
                   else Next (v'\<lparr>
                     cv_observations := cv_observations v
                       @ [Remark ''system'' (''['' @ tc_name call @ ''] '' @ dr_observation result)],
                     cv_tool_query :=
                       (if tc_name call = TOOL_SEARCH_NAME \<and> truthy (jget (tc_args call) ''query'')
                        then Some (str_arg env (tc_args call) ''query'') else cv_tool_query v),
                     cv_promotions := (case dr_state_delta result of None \<Rightarrow> cv_promotions v
                       | Some (channel, value) \<Rightarrow> dset channel value (cv_promotions v))\<rparr>)))))"

definition cell_call :: "'s cell_env \<Rightarrow> cell_context \<Rightarrow> tool_call \<Rightarrow> 's cell_vars \<Rightarrow> 's call_result" where
  "cell_call env cx call v0 =
     (case audit_tool_args env call of (allowed, entry) \<Rightarrow>
        (let v = v0\<lparr>cv_audit := cv_audit v0 @ [entry]\<rparr> in
         if \<not> allowed then Next (v\<lparr>cv_flags := cv_flags v @ [''SECURITY_TOOL_ARG_REJECTED'']\<rparr>)
         else if tc_name call = RUN_TERMINAL then
           (let command = str_arg env (tc_args call) ''command'' in
            case command_decision (cc_graph cx) command of
              DENY \<Rightarrow> Next (v\<lparr>cv_flags := cv_flags v @ [''EXECUTE_TIER_DENIED'']\<rparr>)
            | HITL \<Rightarrow> Defer (DeferCommand command) v
            | ALLOW \<Rightarrow> terminal_run env command v)
         else if tc_name call = READ_FILE_AST then
           Next (v\<lparr>cv_reads := cv_reads v @ [read_observation env (cv_working v) (str_arg env (tc_args call) ''path'')]\<rparr>)
         else if tc_name call = APPLY_EDIT then apply_edit env cx call v
         else fallback_call env cx call v))"

fun cell_calls :: "'s cell_env \<Rightarrow> cell_context \<Rightarrow> tool_call list \<Rightarrow> 's cell_vars \<Rightarrow> 's call_result" where
  "cell_calls env cx [] v = Next v"
| "cell_calls env cx (call # calls) v =
     (case cell_call env cx call v of Next v' \<Rightarrow> cell_calls env cx calls v' | r \<Rightarrow> r)"

subsection \<open>Competing edits\<close>

text \<open>A path with two candidates or more is decided by the tournament, one path after the other.\<close>

fun govern_branches ::
  "'s cell_env \<Rightarrow> cell_context \<Rightarrow> (string \<times> string list) list \<Rightarrow> 's cell_vars \<Rightarrow> 's call_result" where
  "govern_branches env cx [] v = Next v"
| "govern_branches env cx ((path, replacements) # rest) v =
     (if length replacements < 2 then govern_branches env cx rest v
      else (let v1 = v\<lparr>cv_effects := cv_effects v @ [Verified (ev_verify_command env)]\<rparr> in
        case run_tournament_stored (ev_surface env) (ev_sync env)
               (\<lambda>s. case run_on_surface env (ev_verify_command env) s of
                      (Inl exc, s') \<Rightarrow> None
                    | (Inr (exit_code, output), s') \<Rightarrow>
                        Some ((exit_code, ev_verdict env (ev_verify_command env) output), s'))
               (ev_uuid env) (ev_registry env) (mission_spec (cc_graph cx)) (cc_clean cx)
               (map (\<lambda>rep. dset path rep (cc_clean cx)) replacements) (cv_blobs v) (cv_surface v) of
          None \<Rightarrow> Fault ''tournament'' v1
        | Some ((w, winner), s, blobs) \<Rightarrow>
            (let chosen = dget_default winner path [] in
             case content_to_vfs (ev_sync env) [(path, chosen)] [] blobs of
               None \<Rightarrow> Fault ''KeyError'' v1
             | Some (vfs, blobs') \<Rightarrow>
                 govern_branches env cx rest (v1\<lparr>
                   cv_surface := s, cv_blobs := blobs',
                   cv_working := dset path chosen (cv_working v),
                   cv_vfs := fold (\<lambda>(p, vf). dset p vf) vfs (cv_vfs v),
                   cv_version_ids := fold (\<lambda>(p, vf). dset p (vf_document_version_id vf)) vfs (cv_version_ids v),
                   cv_contents := dset path chosen (cv_contents v)\<rparr>))))"

subsection \<open>The phases that resume a deferral\<close>

text \<open>
  How a phase ends: it raises, or it returns a delta and whether the visit is terminal. The
  session and the world that it leaves come with it.
\<close>

type_synonym 's phase_result = "(string + cell_delta \<times> bool) \<times> 's cell_session \<times> 's cell_world"

text \<open>The injected callback, or the native interrupt: it raises until the graph resumes.\<close>

definition ask_operator :: "'s cell_env \<Rightarrow> (string + bool) option \<Rightarrow> string + bool" where
  "ask_operator env injected =
     (case injected of
        Some answer \<Rightarrow> answer
      | None \<Rightarrow> (case ev_resume env of
                   None \<Rightarrow> Inl (ev_interrupt env)
                 | Some resumed \<Rightarrow> Inr (vd_approved (normalize_resume resumed))))"

definition approve_exec :: "'s cell_env \<Rightarrow> string \<Rightarrow> string + bool" where
  "approve_exec env command = ask_operator env (map_option (\<lambda>f. f command) (ev_exec_approval env))"

definition approve_tool_call :: "'s cell_env \<Rightarrow> tool_call \<Rightarrow> string + bool" where
  "approve_tool_call env call = ask_operator env (map_option (\<lambda>f. f call) (ev_tool_approval env))"

definition exec_phase ::
  "'s cell_env \<Rightarrow> cell_state \<Rightarrow> string \<Rightarrow> 's cell_session \<Rightarrow> 's cell_world \<Rightarrow> 's phase_result" where
  "exec_phase env s command cell w =
     (let rec0 = fresh_record (cs_iteration s) in
      case approve_exec env command of
        Inl exc \<Rightarrow> (Inl exc, cell, w)
      | Inr False \<Rightarrow>
          (Inr ((plain_delta (cs_iteration s)
              [Verdict rec0, Remark ''system'' (''Tool denied: the run_terminal command was not approved by the ''
                 @ ''operator. Choose a different approach.'')])
              \<lparr>cd_exec := Some None, cd_flags := [''EXECUTE_TIER_HITL_DENIED'']\<rparr>, False), cell, w)
      | Inr True \<Rightarrow>
          (let vfs = vfs_buffer (cs_graph s); vids = version_ids_of vfs;
               (snap, sur) = push_vfs_to_surface (ev_surface env) (ev_sync env) (cw_blobs w) vids vfs (cx_surface cell);
               w1 = w\<lparr>cw_effects := cw_effects w @ [Ran command]\<rparr>
           in case run_on_surface env command sur of
                (Inl exc, sur') \<Rightarrow> (Inl exc, cell\<lparr>cx_surface := sur'\<rparr>, w1)
              | (Inr (exit_code, output), sur') \<Rightarrow>
                  (case pull_surface_to_vfs (ev_surface env) (ev_sync env) snap vids (cw_blobs w) sur' of
                     None \<Rightarrow> (Inl ''pull'', cell\<lparr>cx_surface := sur'\<rparr>, w1)
                   | Some p \<Rightarrow>
                       (Inr ((plain_delta (cs_iteration s)
                          (Verdict (rec0\<lparr>ce_exit_code := Some exit_code, ce_diagnostics := ev_verdict env command output,
                             ce_occ_conflicts := pl_conflicts p,
                             ce_status := (if exit_code = 0 then ''green'' else ''continue'')\<rparr>)
                           # map occ_diagnostic (pl_conflicts p)))
                          \<lparr>cd_exec := Some None, cd_vfs := pl_new_files p\<rparr>, exit_code = 0),
                        cell\<lparr>cx_surface := sur'\<rparr>, w1\<lparr>cw_blobs := pl_blobs p\<rparr>))))"

text \<open>The dispatcher of an approved call admits it without a second question.\<close>

definition approved_dispatcher :: "'s cell_env \<Rightarrow> cell_state \<Rightarrow> tool_map \<Rightarrow> dispatcher" where
  "approved_dispatcher env s tools =
     \<lparr>di_tools = tools, di_active_role = cell_active_role s,
      di_session_mode = session_mode_from_channel (session_permission_mode (cs_graph s)),
      di_agent_permission = EDIT_EXECUTE_RBW, di_approval_fn = Some (\<lambda>_ _ _. Answered True), di_loads = ev_loads env\<rparr>"

definition tool_phase ::
  "'s cell_env \<Rightarrow> cell_state \<Rightarrow> tool_call \<Rightarrow> 's cell_session \<Rightarrow> 's cell_world \<Rightarrow> 's phase_result" where
  "tool_phase env s call cell w =
     (let returns = (\<lambda>observation. (plain_delta (cs_iteration s)
            [Verdict (fresh_record (cs_iteration s)), Remark ''system'' observation])\<lparr>cd_tool := Some None\<rparr>) in
      case approve_tool_call env call of
        Inl exc \<Rightarrow> (Inl exc, cell, w)
      | Inr False \<Rightarrow>
          (Inr ((returns (''Tool denied: the '' @ in_quotes (tc_name call) @ '' call was not approved by ''
              @ ''the operator. Choose a different approach.''))\<lparr>cd_flags := [''TOOL_CALL_HITL_DENIED'']\<rparr>, False), cell, w)
      | Inr True \<Rightarrow>
          (case find (\<lambda>t. ts_name t = tc_name call) (filter_loop_safe (all_schemas (ev_rows env))) of
             None \<Rightarrow>
               (Inr (returns (''['' @ tc_name call @ ''] tool no longer resolves (catalog changed since ''
                  @ ''the request was made) '' @ [CHR 0x97] @ '' choose a different approach.''), False), cell, w)
           | Some schema \<Rightarrow>
               (case resolve_tools (ev_families env) [schema] of
                  Inl missing \<Rightarrow> (Inl ''KeyError'', cell, w)
                | Inr tools \<Rightarrow>
                    (case dispatch (approved_dispatcher env s tools) [] call of (result, history) \<Rightarrow>
                       (Inr ((returns (''['' @ tc_name call @ ''] '' @ dr_observation result))
                          \<lparr>cd_promoted := (case dr_state_delta result of None \<Rightarrow> [] | Some pr \<Rightarrow> [pr])\<rparr>, False),
                        cell, w\<lparr>cw_effects := cw_effects w @ map Called history\<rparr>)))))"

text \<open>The answers of a batch are folded into one line, each under the header of its question.\<close>

definition obj_of :: "json \<Rightarrow> (string, json) dict" where
  "obj_of v = (case v of JObj d \<Rightarrow> d | _ \<Rightarrow> [])"

definition items_of :: "json \<Rightarrow> json list" where
  "items_of v = (case v of JArr xs \<Rightarrow> xs | _ \<Rightarrow> [])"

definition text_of :: "'s cell_env \<Rightarrow> json \<Rightarrow> string" where
  "text_of env v = (case v of JStr t \<Rightarrow> t | _ \<Rightarrow> ev_str env v)"

definition batch_answer :: "'s cell_env \<Rightarrow> json list \<Rightarrow> json list \<Rightarrow> string" where
  "batch_answer env questions answers =
     join ''; '' (map (\<lambda>a.
       (let i = jget (obj_of a) ''id'';
            asked = filter (\<lambda>q. jget (obj_of q) ''id'' = i) questions;
            header = (if asked = [] then i else dget_default (obj_of (last asked)) ''header'' i);
            labels = join '', '' (map (text_of env) (items_of (jget (obj_of a) ''selected_labels'')));
            free = jget (obj_of a) ''free_text''
        in text_of env header @ '': ''
           @ (if labels \<noteq> [] then labels else if truthy free then text_of env free else ''(no answer)''))) answers)"

definition clarified :: "'s cell_env \<Rightarrow> json \<Rightarrow> (string, json) dict \<Rightarrow> string \<times> string" where
  "clarified env question resolved =
     (let questions = items_of (jget (obj_of question) ''questions'') in
      if truthy (jget resolved ''answers'')
      then (join ''; '' (map (\<lambda>q. (let t = jget (obj_of q) ''question'' in if truthy t then text_of env t else [])) questions),
            batch_answer env questions (items_of (jget resolved ''answers'')))
      else (let q = jget (obj_of question) ''question'' in
            (if truthy q then text_of env q else [],
             if truthy (jget resolved ''answer'') then text_of env (jget resolved ''answer'')
             else if truthy (jget resolved ''selected_option'') then text_of env (jget resolved ''selected_option'')
             else ''(the operator gave no answer)'')))"

definition clarification_phase ::
  "'s cell_env \<Rightarrow> cell_state \<Rightarrow> json \<Rightarrow> 's cell_session \<Rightarrow> 's cell_world \<Rightarrow> 's phase_result" where
  "clarification_phase env s question cell w =
     (case (case ev_clarification env of
              Some f \<Rightarrow> f question
            | None \<Rightarrow> (case ev_resume env of None \<Rightarrow> Inl (ev_interrupt env) | Some resumed \<Rightarrow> Inr (obj_of resumed))) of
        Inl exc \<Rightarrow> (Inl exc, cell, w)
      | Inr resolved \<Rightarrow>
          (case clarified env question resolved of (question_text, answer) \<Rightarrow>
             (Inr ((plain_delta (cs_iteration s)
                [Verdict (fresh_record (cs_iteration s)),
                 Remark ''system'' (''[ask_user_question] Q: '' @ ev_repr env question_text @ '' '' @ [CHR 0x97]
                   @ '' operator answered: '' @ ev_repr env answer)])\<lparr>cd_question := Some JNull\<rparr>, False), cell, w)))"

subsection \<open>One iteration of reasoning\<close>

text \<open>The schemas of an iteration: what the loader injects, then the replay of a discovery query.\<close>

definition iteration_schemas :: "'s cell_env \<Rightarrow> cell_state \<Rightarrow> (load_mode \<times> tool_schema list) option" where
  "iteration_schemas env s =
     (let active = cell_active_role s; mode = session_mode_from_channel (session_permission_mode (cs_graph s)) in
      case resolve_catalog (ev_rag env) (ev_share env) (compose_cell_intent s) active mode (ev_window env)
             (TOOL_RAG_TOP_K + 1) (ev_rows env) of
        None \<Rightarrow> None
      | Some d \<Rightarrow>
          map_option (\<lambda>replayed. (ld_mode d, filter_loop_safe (filter_resolvable (ld_schemas d
              @ filter (\<lambda>t. ts_name t \<notin> ts_name ` set (ld_schemas d)) replayed))))
            (if str_or (cs_query s) [] = [] then Some []
             else select_tools (ev_rag env) (str_or (cs_query s) []) TOOL_RAG_TOP_K active mode (ev_rows env)))"

definition iteration_messages ::
  "cell_state \<Rightarrow> load_mode \<Rightarrow> tool_schema list \<Rightarrow> cell_entry list \<Rightarrow> (string \<times> string) list" where
  "iteration_messages s mode schemas steering =
     build_messages s @ concat (map entry_message steering)
     @ (if schemas = [] then [] else [(''system'', format_fallback_tools_hint schemas mode)])"

definition working_set :: "'s cell_env \<Rightarrow> cas \<Rightarrow> (string, vfs_file) dict \<Rightarrow> (string, string) dict" where
  "working_set env blobs vfs =
     fold (\<lambda>(path, vf) wk. case cas_get blobs (vf_blob_hash vf) of
         None \<Rightarrow> wk
       | Some content \<Rightarrow>
           if length (sy_encode (ev_sync env) content) \<le> MAX_EDIT_FILE_BYTES then dset path content wk else wk) vfs []"

definition iteration_cost :: "'s cell_env \<Rightarrow> (string \<times> string) list \<Rightarrow> tool_call list \<Rightarrow> rat" where
  "iteration_cost env msgs calls =
     estimate_iteration_cost (ev_count env) USD_PER_K_CLOUD USD_PER_K_CLOUD_OUT (map snd msgs) (map (ev_dump env) calls)"

text \<open>
  An injected ceiling of \<open>None\<close> is the infinite one, which no cost reaches; a state in which none was
  injected falls back to the ceiling of the cell.
\<close>

definition governor_axis ::
  "'s cell_env \<Rightarrow> cell_state \<Rightarrow> string list \<Rightarrow> rat \<Rightarrow> 's cell_session \<Rightarrow> axis option" where
  "governor_axis env s consumed cost cell =
     (let spent = current_cost_usd (cs_graph s) + cost;
          ceiling = (case ev_max_cost env of
              Some c \<Rightarrow> Some c
            | None \<Rightarrow> (case max_budget_usd (cs_graph s) of
                Some c \<Rightarrow> Some c
              | None \<Rightarrow> if ev_ceiling_injected env then None else Some AGENTIC_CELL_MAX_COST_USD))
      in check_governor (cs_iteration s + 1) spent (ev_now env - cx_start cell)
           (or_else (ev_max_steps env) AGENTIC_CELL_MAX_ITERATIONS + int (steering_step_grant s consumed))
           (or_else ceiling (spent + 1))
           (or_else (ev_max_elapsed env) (cell_elapsed_floor env)))"

text \<open>What every delta of an iteration carries of its local variables.\<close>

definition carried :: "cell_context \<Rightarrow> 's cell_vars \<Rightarrow> cell_delta \<Rightarrow> cell_delta" where
  "carried cx v d = d\<lparr>
     cd_vfs := List.map_filter (\<lambda>p. map_option (\<lambda>vf. (p, vf)) (dget (cv_vfs v) p)) (cv_edited v),
     cd_contents := cv_contents v, cd_audit := cv_audit v, cd_flags := cv_flags v, cd_promoted := cv_promotions v,
     cd_consumed := cc_consumed cx\<rparr>"

definition deferred_delta :: "cell_context \<Rightarrow> int \<Rightarrow> deferral \<Rightarrow> 's cell_vars \<Rightarrow> cell_delta" where
  "deferred_delta cx iteration what v =
     (let d = carried cx v (plain_delta iteration
            (Verdict ((fresh_record iteration)\<lparr>ce_edits := ce_edits (cv_record v)\<rparr>) # cc_steering cx @ cv_reads v))
      in case what of
           DeferCommand command \<Rightarrow> d\<lparr>cd_exec := Some (Some command)\<rparr>
         | DeferTool call \<Rightarrow> d\<lparr>cd_tool := Some (Some call), cd_query := Some (cv_tool_query v)\<rparr>
         | DeferQuestion request \<Rightarrow> d\<lparr>cd_question := Some request, cd_query := Some (cv_tool_query v)\<rparr>)"

fun axis_value :: "axis \<Rightarrow> string" where
  "axis_value STEPS = ''budget_steps''"
| "axis_value TOKENS = ''budget_tokens''"
| "axis_value TIME = ''budget_time''"

definition finished_delta ::
  "'s cell_env \<Rightarrow> cell_state \<Rightarrow> cell_context \<Rightarrow> rat \<Rightarrow> 's cell_session \<Rightarrow> 's cell_vars \<Rightarrow> cell_delta \<times> bool" where
  "finished_delta env s cx cost cell v =
     (let success = (ce_exit_code (cv_record v) = Some 0);
          axis = (if success then None else governor_axis env s (cc_consumed cx) cost cell);
          rec1 = (cv_record v)\<lparr>ce_axis := axis,
            ce_status := (if success then ''green'' else if axis \<noteq> None then ''budget'' else ''continue'')\<rparr>
      in ((carried cx v (plain_delta (cs_iteration s)
              (Verdict rec1 # cc_steering cx @ cv_occ_messages v @ cv_reads v @ cv_observations v)))
            \<lparr>cd_cost := cost, cd_query := Some (cv_tool_query v)\<rparr>,
          success \<or> axis \<noteq> None))"

definition initial_vars :: "'s cell_env \<Rightarrow> cell_state \<Rightarrow> 's \<Rightarrow> cas \<Rightarrow> 's cell_vars" where
  "initial_vars env s sur blobs =
     (let vfs = vfs_buffer (cs_graph s) in
      \<lparr>cv_vfs = vfs, cv_version_ids = version_ids_of vfs, cv_working = working_set env blobs vfs,
       cv_surface = snd (push_vfs_to_surface (ev_surface env) (ev_sync env) blobs (version_ids_of vfs) vfs sur),
       cv_blobs = blobs, cv_record = fresh_record (cs_iteration s), cv_audit = [], cv_flags = [], cv_occ_messages = [],
       cv_reads = [], cv_contents = [], cv_candidates = [], cv_edited = [], cv_observations = [], cv_promotions = [],
       cv_tool_query = None, cv_history = [], cv_effects = []\<rparr>)"

definition leave_iteration :: "'s cell_vars \<Rightarrow> 's cell_session \<Rightarrow> 's cell_world \<Rightarrow> 's cell_session \<times> 's cell_world" where
  "leave_iteration v cell w =
     (cell\<lparr>cx_surface := cv_surface v\<rparr>, w\<lparr>cw_blobs := cv_blobs v, cw_effects := cw_effects w @ cv_effects v\<rparr>)"

definition iteration_context :: "cell_state \<Rightarrow> (string, string) dict \<Rightarrow> tool_schema list \<Rightarrow> cell_entry list \<Rightarrow> string list \<Rightarrow> cell_context" where
  "iteration_context s clean schemas steering consumed =
     \<lparr>cc_clean = clean, cc_steering = steering, cc_consumed = consumed, cc_schemas = schemas,
      cc_role = cell_active_role s, cc_mode = session_mode_from_channel (session_permission_mode (cs_graph s)),
      cc_graph = cs_graph s\<rparr>"

text \<open>The calls, then the competing edits.\<close>

definition work_off :: "'s cell_env \<Rightarrow> cell_context \<Rightarrow> tool_call list \<Rightarrow> 's cell_vars \<Rightarrow> 's call_result" where
  "work_off env cx calls v =
     (case cell_calls env cx calls v of
        Next v' \<Rightarrow> govern_branches env cx (cv_candidates v') v'
      | r \<Rightarrow> r)"

definition conclude ::
  "'s cell_env \<Rightarrow> cell_state \<Rightarrow> cell_context \<Rightarrow> rat \<Rightarrow> 's cell_session \<Rightarrow> 's call_result \<Rightarrow> string + cell_delta \<times> bool" where
  "conclude env s cx cost cell r =
     (case r of
        Fault exc v \<Rightarrow> Inl exc
      | Defer what v \<Rightarrow> Inr (deferred_delta cx (cs_iteration s) what v, False)
      | Next v \<Rightarrow> Inr (finished_delta env s cx cost cell v))"

definition iteration_phase :: "'s cell_env \<Rightarrow> cell_state \<Rightarrow> 's cell_session \<Rightarrow> 's cell_world \<Rightarrow> 's phase_result" where
  "iteration_phase env s cell w =
     (let v = initial_vars env s (cx_surface cell) (cw_blobs w) in
      case iteration_schemas env s of
        None \<Rightarrow> (Inl ''catalogue'', leave_iteration v cell w)
      | Some (mode, schemas) \<Rightarrow>
          (case drain_steering env s of (steering, consumed) \<Rightarrow>
            (let msgs = iteration_messages s mode schemas steering;
                 cx = iteration_context s (cv_working v) schemas steering consumed
             in case ev_reasoner env msgs of
                  Inl exc \<Rightarrow> (Inl exc, leave_iteration v cell w)
                | Inr calls \<Rightarrow>
                    (let r = work_off env cx calls v
                     in (conclude env s cx (iteration_cost env msgs calls) cell r, leave_iteration (vars_of r) cell w)))))"

subsection \<open>The node\<close>

definition concede :: "int \<Rightarrow> string \<Rightarrow> cell_delta" where
  "concede iteration reason =
     (plain_delta iteration [Conceded iteration reason])\<lparr>cd_errors := [''AgenticCell conceded: '' @ reason]\<rparr>"

definition open_cell :: "'s cell_env \<Rightarrow> string \<Rightarrow> 's cell_world \<Rightarrow> string + 's cell_session" where
  "open_cell env tid w =
     (case dget (cw_sessions w) tid of
        Some cell \<Rightarrow> Inr cell
      | None \<Rightarrow>
          (case ev_adapter env of
             None \<Rightarrow> Inl ''no session-capable sandbox adapter''
           | Some open_session \<Rightarrow>
               (case open_session tid of
                  Inl exc \<Rightarrow> Inl (''exception: '' @ exc)
                | Inr sur \<Rightarrow> Inr \<lparr>cx_surface = sur, cx_start = ev_now env\<rparr>)))"

text \<open>The phases exclude each other: the first channel that is set decides.\<close>

definition cell_phase :: "'s cell_env \<Rightarrow> cell_state \<Rightarrow> 's cell_session \<Rightarrow> 's cell_world \<Rightarrow> 's phase_result" where
  "cell_phase env s cell w =
     (if str_or (cs_exec s) [] \<noteq> [] then exec_phase env s (str_or (cs_exec s) []) cell w
      else case cs_tool s of
        Some call \<Rightarrow> tool_phase env s call cell w
      | None \<Rightarrow> if truthy (cs_question s) then clarification_phase env s (cs_question s) cell w
                else iteration_phase env s cell w)"

definition run_agentic_cell_node ::
  "'s cell_env \<Rightarrow> cell_state \<Rightarrow> 's cell_world \<Rightarrow> cell_delta \<times> 's cell_world" where
  "run_agentic_cell_node env s w =
     (let tid = task_id (cs_graph s);
          ended = (\<lambda>w. if tid \<noteq> [] then close_cell tid w else w)
      in case open_cell env tid w of
           Inl reason \<Rightarrow> (concede (cs_iteration s) reason, ended w)
         | Inr cell \<Rightarrow>
             (case cell_phase env s cell w of
                (Inl exc, cell', w') \<Rightarrow>
                  (concede (cs_iteration s) (''exception: '' @ exc),
                   ended (w'\<lparr>cw_sessions := dset tid cell' (cw_sessions w')\<rparr>))
              | (Inr (d, terminal), cell', w') \<Rightarrow>
                  (let w'' = w'\<lparr>cw_sessions := dset tid cell' (cw_sessions w')\<rparr>
                   in (d, if terminal then ended w'' else w''))))"

text \<open>The loop of the graph over the cell, with fuel: the router sends the state back or on.\<close>

definition cell_route :: "cell_state \<Rightarrow> string" where
  "cell_route s = route_after_cell (map entry_status (cs_trajectory s))"

fun cell_loop :: "(nat \<Rightarrow> 's cell_env) \<Rightarrow> nat \<Rightarrow> cell_state \<Rightarrow> 's cell_world \<Rightarrow> (cell_state \<times> 's cell_world) option" where
  "cell_loop envs 0 s w = None"
| "cell_loop envs (Suc n) s w =
     (case run_agentic_cell_node (envs n) s w of
        (d, w') \<Rightarrow>
          (let s' = merge_delta d s in
           if cell_route s' = ''agentic_cell'' then cell_loop envs n s' w' else Some (s', w')))"

subsection \<open>What runs is justified\<close>

definition grows_by :: "('a \<Rightarrow> bool) \<Rightarrow> 'a list \<Rightarrow> 'a list \<Rightarrow> bool" where
  "grows_by P xs ys \<longleftrightarrow> (\<exists>new. ys = xs @ new \<and> list_all P new)"

lemma grows_by_refl [simp]: "grows_by P xs xs"
  by (auto simp: grows_by_def)

lemma grows_by_snoc [simp]: "grows_by P xs (xs @ new) \<longleftrightarrow> list_all P new"
  by (auto simp: grows_by_def)

lemma grows_by_trans: "grows_by P xs ys \<Longrightarrow> grows_by P ys zs \<Longrightarrow> grows_by P xs zs"
  by (auto simp: grows_by_def)

text \<open>A tool that resolves and that the role may call, with what the session decides about it.\<close>

definition resolved_tool :: "'s cell_env \<Rightarrow> cell_state \<Rightarrow> tool_call \<Rightarrow> registered_tool \<Rightarrow> bool" where
  "resolved_tool env s call reg \<longleftrightarrow>
     (\<exists>schemas tools. resolve_tools (ev_families env) schemas = Inr tools \<and> dget tools (tc_name call) = Some reg)
     \<and> cell_active_role s \<in> set (rt_allowed_roles reg)"

definition cell_mode :: "cell_state \<Rightarrow> session_mode" where
  "cell_mode s = session_mode_from_channel (session_permission_mode (cs_graph s))"

fun justified :: "'s cell_env \<Rightarrow> cell_state \<Rightarrow> cell_effect \<Rightarrow> bool" where
  "justified env s (Ran c) \<longleftrightarrow>
     cs_exec s = Some c \<and> approve_exec env c = Inr True
     \<or> match_dangerous c = None \<and> evaluate_action (cell_mode s) EXECUTE EDIT_EXECUTE_RBW = ALLOW
       \<and> fst (risk_intercept_guard (Some c) ALLOW (cell_mode s)) \<noteq> HITL"
| "justified env s (Verified c) \<longleftrightarrow> c = ev_verify_command env"
| "justified env s (Called call) \<longleftrightarrow>
     (\<exists>reg. resolved_tool env s call reg
       \<and> (evaluate_action (cell_mode s) (rt_tier reg) EDIT_EXECUTE_RBW = ALLOW
          \<or> evaluate_action (cell_mode s) (rt_tier reg) EDIT_EXECUTE_RBW = HITL
            \<and> cs_tool s = Some call \<and> approve_tool_call env call = Inr True))"

lemma dispatch_history:
  assumes "dispatch self h call = (result, h')" and "h' \<noteq> h"
  shows "h' = h @ [call] \<and> (\<exists>reg. dget (di_tools self) (tc_name call) = Some reg
    \<and> di_active_role self \<in> set (rt_allowed_roles reg)
    \<and> fst (snd (classify self call)) = evaluate_action (di_session_mode self) (rt_tier reg) (di_agent_permission self)
    \<and> fst (snd (classify self call)) \<noteq> DENY)"
  using assms
  by (auto simp: dispatch_def classify_def Let_def split: option.splits decision.splits if_splits approval.splits bool.splits)

definition context_of :: "cell_state \<Rightarrow> cell_context \<Rightarrow> bool" where
  "context_of s cx \<longleftrightarrow> cc_role cx = cell_active_role s \<and> cc_mode cx = cell_mode s \<and> cc_graph cx = cs_graph s"

lemma terminal_run_effects: "cv_effects (vars_of (terminal_run env command v)) = cv_effects v @ [Ran command]"
  by (auto simp: terminal_run_def Let_def split: prod.splits sum.splits option.splits)

lemma apply_edit_effects: "cv_effects (vars_of (apply_edit env cx call v)) = cv_effects v"
  by (auto simp: apply_edit_def Let_def split: sum.splits patch_failure.splits option.splits prod.splits)

lemma fallback_call_effects:
  assumes "context_of s cx"
  shows "grows_by (justified env s) (cv_effects v) (cv_effects (vars_of (fallback_call env cx call v)))"
proof (cases "resolve_tools (ev_families env) (cc_schemas cx)")
  case (Inl missing)
  then show ?thesis by (simp add: fallback_call_def)
next
  case (Inr tools)
  let ?self = "fallback_dispatcher env cx tools"
  obtain result h' where d: "dispatch ?self (cv_history v) call = (result, h')" by fastforce
  obtain reg dec reason where c: "classify ?self call = (reg, dec, reason)" by (cases "classify ?self call") auto
  show ?thesis
  proof (cases "dec = HITL \<or> h' = cv_history v")
    case True
    with Inr c d show ?thesis by (auto simp: fallback_call_def Let_def)
  next
    case False
    with dispatch_history [OF d] c obtain r where r: "dget tools (tc_name call) = Some r"
        "cc_role cx \<in> set (rt_allowed_roles r)" "evaluate_action (cc_mode cx) (rt_tier r) EDIT_EXECUTE_RBW = dec"
        "dec \<noteq> DENY" by (auto simp: fallback_dispatcher_def)
    with False have "dec = ALLOW" by (cases dec) auto
    with r Inr assms have "justified env s (Called call)"
      unfolding justified.simps resolved_tool_def context_of_def by auto
    then show ?thesis using Inr c d by (auto simp: fallback_call_def Let_def)
  qed
qed

lemma command_decision_cases:
  assumes "context_of s cx" and "fst (audit_tool_args env call)" and "tc_name call = RUN_TERMINAL"
    and "command_decision (cc_graph cx) (str_arg env (tc_args call) ''command'') = ALLOW"
  shows "justified env s (Ran (str_arg env (tc_args call) ''command''))"
  using assms
  by (auto simp: audit_tool_args_def Let_def context_of_def command_decision_def classify_execute_def cell_mode_def
      split: decision.splits if_splits)

lemma cell_call_effects:
  assumes "context_of s cx"
  shows "grows_by (justified env s) (cv_effects v) (cv_effects (vars_of (cell_call env cx call v)))"
proof -
  obtain allowed entry where a: "audit_tool_args env call = (allowed, entry)" by fastforce
  let ?v = "v\<lparr>cv_audit := cv_audit v @ [entry]\<rparr>"
  let ?c = "str_arg env (tc_args call) ''command''"
  consider "\<not> allowed" | (run) "allowed" "tc_name call = RUN_TERMINAL"
    | (other) "allowed" "tc_name call \<noteq> RUN_TERMINAL" by blast
  then show ?thesis
  proof cases
    case run
    show ?thesis
    proof (cases "command_decision (cc_graph cx) ?c")
      case ALLOW
      then have "justified env s (Ran ?c)"
        by (intro command_decision_cases [OF assms _ run(2)]) (simp_all add: a run(1))
      then show ?thesis using a run ALLOW terminal_run_effects [of env ?c ?v]
        by (simp add: cell_call_def del: justified.simps)
    qed (use a run in \<open>simp_all add: cell_call_def Let_def\<close>)
  next
    case other
    then show ?thesis
      using a apply_edit_effects [of env cx call ?v] fallback_call_effects [OF assms, of env ?v call]
      by (simp add: cell_call_def Let_def)
  qed (use a in \<open>simp add: cell_call_def\<close>)
qed

lemma cell_calls_effects:
  assumes "context_of s cx"
  shows "grows_by (justified env s) (cv_effects v) (cv_effects (vars_of (cell_calls env cx calls v)))"
proof (induction calls arbitrary: v)
  case (Cons call calls)
  show ?case
  proof (cases "cell_call env cx call v")
    case (Next v')
    with cell_call_effects [OF assms, of env v call] Cons [of v'] show ?thesis by (auto intro: grows_by_trans)
  qed (use cell_call_effects [OF assms, of env v call] in simp_all)
qed simp

lemma govern_branches_effects:
  "grows_by (justified env s) (cv_effects v) (cv_effects (vars_of (govern_branches env cx cands v)))"
proof (induction cands arbitrary: v)
  case (Cons cand cands)
  then show ?case
    by (cases cand)
      (auto simp: Let_def split: option.splits prod.splits intro!: grows_by_trans [OF _ Cons.IH])
qed simp

lemma exec_phase_effects:
  assumes "cs_exec s = Some command"
  shows "grows_by (justified env s) (cw_effects w) (cw_effects (snd (snd (exec_phase env s command cell w))))"
  using assms by (auto simp: exec_phase_def Let_def split: sum.splits bool.splits prod.splits option.splits)

lemma tool_phase_effects:
  assumes "cs_tool s = Some call"
  shows "grows_by (justified env s) (cw_effects w) (cw_effects (snd (snd (tool_phase env s call cell w))))"
proof (cases "approve_tool_call env call = Inr True")
  case approved: True
  note p = tool_phase_def approved Let_def
  show ?thesis
  proof (cases "find (\<lambda>t. ts_name t = tc_name call) (filter_loop_safe (all_schemas (ev_rows env)))")
    case None
    then show ?thesis by (simp add: p)
  next
    case schema: (Some schema)
    show ?thesis
    proof (cases "resolve_tools (ev_families env) [schema]")
      case (Inl missing)
      with schema show ?thesis by (simp add: p)
    next
      case tools: (Inr tools)
      obtain result h where d: "dispatch (approved_dispatcher env s tools) [] call = (result, h)" by fastforce
      have "list_all (justified env s) (map Called h)"
      proof (cases "h = []")
        case False
        with dispatch_history [OF d] obtain r where h: "h = [call]" and r: "dget tools (tc_name call) = Some r"
            "cell_active_role s \<in> set (rt_allowed_roles r)"
            "evaluate_action (cell_mode s) (rt_tier r) EDIT_EXECUTE_RBW \<noteq> DENY"
          by (auto simp: approved_dispatcher_def cell_mode_def)
        then have "resolved_tool env s call r" using tools unfolding resolved_tool_def by blast
        with r(3) h assms approved show ?thesis
          by (cases "evaluate_action (cell_mode s) (rt_tier r) EDIT_EXECUTE_RBW") auto
      qed simp
      then show ?thesis using schema tools d by (simp add: p)
    qed
  qed
next
  case False
  then show ?thesis by (auto simp: tool_phase_def Let_def split: sum.splits bool.splits)
qed

lemma clarification_phase_world: "snd (snd (clarification_phase env s question cell w)) = w"
  by (auto simp: clarification_phase_def Let_def split: sum.splits option.splits prod.splits)

text \<open>How an iteration ends: before the reply, or as the reply is worked off.\<close>

lemma iteration_cases:
  obtains exc where "iteration_phase env s cell w
      = (Inl exc, leave_iteration (initial_vars env s (cx_surface cell) (cw_blobs w)) cell w)"
  | mode schemas calls cx r where
      "iteration_schemas env s = Some (mode, schemas)"
      "cx = iteration_context s (cv_working (initial_vars env s (cx_surface cell) (cw_blobs w))) schemas
         (fst (drain_steering env s)) (snd (drain_steering env s))"
      "context_of s cx"
      "ev_reasoner env (iteration_messages s mode schemas (fst (drain_steering env s))) = Inr calls"
      "r = work_off env cx calls (initial_vars env s (cx_surface cell) (cw_blobs w))"
      "iteration_phase env s cell w
       = (conclude env s cx (iteration_cost env (iteration_messages s mode schemas (fst (drain_steering env s))) calls) cell r,
          leave_iteration (vars_of r) cell w)"
proof (cases "iteration_schemas env s")
  case None
  then show ?thesis by (intro that(1)) (simp add: iteration_phase_def Let_def)
next
  case (Some ms)
  obtain mode schemas where ms: "ms = (mode, schemas)" by fastforce
  obtain steering consumed where st: "drain_steering env s = (steering, consumed)" by fastforce
  show ?thesis
  proof (cases "ev_reasoner env (iteration_messages s mode schemas steering)")
    case (Inl exc)
    with Some ms st show ?thesis by (intro that(1)) (simp add: iteration_phase_def Let_def)
  next
    case (Inr calls)
    show ?thesis
      by (rule that(2) [OF _ refl _ _ refl])
        (simp_all add: Some ms st Inr iteration_phase_def Let_def context_of_def iteration_context_def cell_mode_def)
  qed
qed

lemma work_off_effects:
  assumes "context_of s cx"
  shows "grows_by (justified env s) (cv_effects v) (cv_effects (vars_of (work_off env cx calls v)))"
proof (cases "cell_calls env cx calls v")
  case (Next v')
  with cell_calls_effects [OF assms, of env v calls] govern_branches_effects [of env s v' cx "cv_candidates v'"]
  show ?thesis by (auto simp: work_off_def intro: grows_by_trans)
qed (use cell_calls_effects [OF assms, of env v calls] in \<open>simp_all add: work_off_def\<close>)

lemma iteration_phase_effects:
  "grows_by (justified env s) (cw_effects w) (cw_effects (snd (snd (iteration_phase env s cell w))))"
proof (cases rule: iteration_cases [of env s cell w])
  case (1 exc)
  then show ?thesis by (simp add: leave_iteration_def initial_vars_def Let_def)
next
  case (2 mode schemas calls cx r)
  let ?v = "initial_vars env s (cx_surface cell) (cw_blobs w)"
  have "list_all (justified env s) (cv_effects (vars_of r))"
    using work_off_effects [OF 2(3), of env ?v calls]
    by (auto simp: 2(5) grows_by_def initial_vars_def Let_def)
  then show ?thesis by (simp add: 2(6) leave_iteration_def)
qed

lemma cell_phase_effects:
  "grows_by (justified env s) (cw_effects w) (cw_effects (snd (snd (cell_phase env s cell w))))"
proof -
  have "cs_exec s = Some (str_or (cs_exec s) [])" if "str_or (cs_exec s) [] \<noteq> []"
    using that by (cases "cs_exec s") (auto simp: str_or_def)
  then show ?thesis
    using exec_phase_effects tool_phase_effects iteration_phase_effects
    by (auto simp: cell_phase_def clarification_phase_world split: option.split)
qed

lemma cell_phase_sessions: "cw_sessions (snd (snd (cell_phase env s cell w))) = cw_sessions w"
proof -
  have "cw_sessions (snd (snd (iteration_phase env s cell w))) = cw_sessions w"
    by (cases rule: iteration_cases [of env s cell w]) (simp_all add: leave_iteration_def)
  moreover have "cw_sessions (snd (snd (exec_phase env s c cell w))) = cw_sessions w" for c
    by (auto simp: exec_phase_def Let_def split: sum.splits bool.splits prod.splits option.splits)
  moreover have "cw_sessions (snd (snd (tool_phase env s c cell w))) = cw_sessions w" for c
    by (auto simp: tool_phase_def Let_def split: sum.splits bool.splits prod.splits option.splits)
  ultimately show ?thesis
    by (auto simp: cell_phase_def clarification_phase_world split: option.split)
qed

text \<open>
  C7. Nothing runs unasked. What one visit of the cell adds to the history is justified: a
  command is one that the operator has just approved, or one that matches no dangerous pattern
  and that session policy and risk scan both allow; a registered tool resolves, its role list
  names the role of the step, and the session allows its tier or the operator has just approved
  this call; the only other thing that runs is the configured verify command of a tournament.
\<close>

theorem cell_runs_justified:
  "\<exists>new. cw_effects (snd (run_agentic_cell_node env s w)) = cw_effects w @ new \<and> list_all (justified env s) new"
proof (cases "open_cell env (task_id (cs_graph s)) w")
  case (Inl reason)
  then show ?thesis by (simp add: run_agentic_cell_node_def Let_def close_cell_def)
next
  case (Inr cell)
  obtain r cell' w' where p: "cell_phase env s cell w = (r, cell', w')" by (cases "cell_phase env s cell w") auto
  have "cw_effects (snd (run_agentic_cell_node env s w)) = cw_effects w'"
    using Inr p by (auto simp: run_agentic_cell_node_def Let_def close_cell_def split: sum.splits prod.splits)
  with cell_phase_effects [of env s w cell] p show ?thesis by (simp add: grows_by_def)
qed

subsection \<open>The session ends with the loop\<close>

text \<open>A delta opens with its verdict; nothing after it has a status.\<close>

definition led_by :: "string \<Rightarrow> cell_delta \<Rightarrow> bool" where
  "led_by status d \<longleftrightarrow> (\<exists>e rest. cd_trajectory d = e # rest \<and> entry_status e = Some status
     \<and> list_all (\<lambda>x. entry_status x = None) rest)"

lemma led_by_route:
  assumes "led_by status d"
  shows "cell_route (merge_delta d s) = (if status = ''continue'' then ''agentic_cell'' else ''contract_guard'')"
proof -
  obtain e rest where d: "cd_trajectory d = e # rest" "entry_status e = Some status"
      "list_all (\<lambda>x. entry_status x = None) rest" using assms by (auto simp: led_by_def)
  have "find (\<lambda>st. st \<noteq> None) (rev (map entry_status rest) @ xs) = find (\<lambda>st. st \<noteq> None) xs" for xs
    using d(3) by (induction rest arbitrary: xs) simp_all
  then show ?thesis using d by (simp add: cell_route_def route_after_cell_def merge_delta_def)
qed

definition remarks :: "cell_entry list \<Rightarrow> bool" where
  "remarks es \<longleftrightarrow> list_all (\<lambda>x. entry_status x = None) es"

definition vars_remark :: "'s cell_vars \<Rightarrow> bool" where
  "vars_remark v \<longleftrightarrow> remarks (cv_occ_messages v) \<and> remarks (cv_reads v) \<and> remarks (cv_observations v)"

lemma remarks_simps [simp]:
  "remarks []" "remarks (e # es) \<longleftrightarrow> entry_status e = None \<and> remarks es" "remarks (es @ fs) \<longleftrightarrow> remarks es \<and> remarks fs"
  "remarks (map occ_diagnostic ps)" "entry_status (occ_diagnostic p) = None"
  by (auto simp: remarks_def occ_diagnostic_def list_all_iff)

lemma drain_remarks: "remarks (fst (drain_steering env s))"
  by (auto simp: drain_steering_def remarks_def list_all_iff Let_def)

lemma terminal_run_remark: "vars_remark v \<Longrightarrow> vars_remark (vars_of (terminal_run env command v))"
  by (simp add: terminal_run_def vars_remark_def Let_def split: prod.split sum.split option.split)

lemma apply_edit_remark: "vars_remark v \<Longrightarrow> vars_remark (vars_of (apply_edit env cx call v))"
  by (simp add: apply_edit_def vars_remark_def Let_def split: prod.split sum.split option.split patch_failure.split)

lemma fallback_call_remark: "vars_remark v \<Longrightarrow> vars_remark (vars_of (fallback_call env cx call v))"
  by (simp add: fallback_call_def vars_remark_def Let_def split: prod.split sum.split)

lemma cell_call_remark:
  assumes "vars_remark v"
  shows "vars_remark (vars_of (cell_call env cx call v))"
proof -
  obtain allowed entry where a: "audit_tool_args env call = (allowed, entry)" by fastforce
  let ?v = "v\<lparr>cv_audit := cv_audit v @ [entry]\<rparr>"
  have v: "vars_remark ?v" "vars_remark (?v\<lparr>cv_flags := fs\<rparr>)"
      "vars_remark (?v\<lparr>cv_reads := cv_reads v @ [read_observation env wk path]\<rparr>)" for fs wk path
    using assms by (simp_all add: vars_remark_def read_observation_def)
  show ?thesis
    using a v terminal_run_remark [OF v(1)] apply_edit_remark [OF v(1)] fallback_call_remark [OF v(1)]
    by (simp add: cell_call_def Let_def split: decision.split)
qed

lemma cell_calls_remark: "vars_remark v \<Longrightarrow> vars_remark (vars_of (cell_calls env cx calls v))"
proof (induction calls arbitrary: v)
  case (Cons call calls)
  with cell_call_remark [OF Cons.prems, of env cx call] show ?case by (cases "cell_call env cx call v") simp_all
qed simp

lemma vars_remark_update:
  "vars_remark (v\<lparr>cv_effects := a, cv_surface := b, cv_blobs := c, cv_working := d, cv_vfs := e, cv_version_ids := f,
     cv_contents := g\<rparr>) = vars_remark v" "vars_remark (v\<lparr>cv_effects := a\<rparr>) = vars_remark v"
  by (simp_all add: vars_remark_def)

lemma govern_branches_remark: "vars_remark v \<Longrightarrow> vars_remark (vars_of (govern_branches env cx cands v))"
proof (induction cands arbitrary: v)
  case (Cons cand cands)
  from Cons.prems show ?case
    by (cases cand) (auto simp: Let_def vars_remark_update split: option.splits prod.splits intro!: Cons.IH)
qed simp

lemma work_off_remark: "vars_remark v \<Longrightarrow> vars_remark (vars_of (work_off env cx calls v))"
  using cell_calls_remark [of v env cx calls] govern_branches_remark
  by (cases "cell_calls env cx calls v") (simp_all add: work_off_def)

lemma initial_remark: "vars_remark (initial_vars env s sur blobs)"
  by (simp add: initial_vars_def vars_remark_def Let_def)

lemma concede_led: "led_by ''concede'' (concede i reason)"
  by (simp add: led_by_def concede_def plain_delta_def)

text \<open>A phase that returns is terminal exactly when its verdict does not say to go on.\<close>

lemma deferred_led:
  assumes "vars_remark v" and "remarks (cc_steering cx)"
  shows "led_by ''continue'' (deferred_delta cx i what v)"
  using assms by (cases what)
    (simp_all add: led_by_def deferred_delta_def carried_def plain_delta_def fresh_record_def vars_remark_def Let_def flip: remarks_def)

lemma finished_led:
  assumes "vars_remark v" and "remarks (cc_steering cx)" and "finished_delta env s cx cost cell v = (d, terminal)"
  shows "\<exists>st. led_by st d \<and> (st = ''continue'' \<longleftrightarrow> \<not> terminal)"
  using assms
  by (cases "ce_exit_code (cv_record v) = Some 0"; cases "governor_axis env s (cc_consumed cx) cost cell")
    (auto simp: led_by_def finished_delta_def carried_def plain_delta_def vars_remark_def Let_def simp flip: remarks_def)

lemma iteration_led:
  assumes "iteration_phase env s cell w = (Inr (d, terminal), cell', w')"
  shows "\<exists>st. led_by st d \<and> (st = ''continue'' \<longleftrightarrow> \<not> terminal)"
proof (cases rule: iteration_cases [of env s cell w])
  case (1 exc)
  with assms show ?thesis by simp
next
  case (2 mode schemas calls cx r)
  have v: "vars_remark (vars_of r)" unfolding 2(5) by (intro work_off_remark initial_remark)
  have st: "remarks (cc_steering cx)" by (simp add: 2(2) iteration_context_def drain_remarks)
  from 2(6) assms have "conclude env s cx (iteration_cost env (iteration_messages s mode schemas (fst (drain_steering env s))) calls)
      cell r = Inr (d, terminal)" by (simp add: leave_iteration_def)
  then show ?thesis
    using v st deferred_led finished_led by (cases r) (fastforce simp: conclude_def)+
qed

lemma exec_led:
  assumes "exec_phase env s command cell w = (Inr (d, terminal), cell', w')"
  shows "\<exists>st. led_by st d \<and> (st = ''continue'' \<longleftrightarrow> \<not> terminal)"
  using assms
  by (auto simp: exec_phase_def led_by_def plain_delta_def fresh_record_def Let_def list_all_iff occ_diagnostic_def
      split: sum.splits bool.splits prod.splits option.splits)

lemma tool_led:
  assumes "tool_phase env s call cell w = (Inr (d, terminal), cell', w')"
  shows "\<exists>st. led_by st d \<and> (st = ''continue'' \<longleftrightarrow> \<not> terminal)"
  using assms
  by (auto simp: tool_phase_def led_by_def plain_delta_def fresh_record_def Let_def
      split: sum.splits bool.splits prod.splits option.splits)

lemma clarification_led:
  assumes "clarification_phase env s question cell w = (Inr (d, terminal), cell', w')"
  shows "\<exists>st. led_by st d \<and> (st = ''continue'' \<longleftrightarrow> \<not> terminal)"
  using assms
  by (auto simp: clarification_phase_def led_by_def plain_delta_def fresh_record_def Let_def
      split: sum.splits prod.splits option.splits)

lemma cell_phase_led:
  assumes "cell_phase env s cell w = (Inr (d, terminal), cell', w')"
  shows "\<exists>st. led_by st d \<and> (st = ''continue'' \<longleftrightarrow> \<not> terminal)"
  using assms exec_led tool_led clarification_led iteration_led
  by (auto simp: cell_phase_def split: if_splits option.splits)

text \<open>
  The terminal session lives as long as the loop. After a visit the registry holds a session
  for the task exactly if the router sends the task back to the cell, whatever happened in
  between: a green verdict, a spent budget, a missing adapter and any exception close it. The
  sessions of other tasks are untouched.
\<close>

theorem cell_session_lives_with_loop:
  assumes "task_id (cs_graph s) \<noteq> []" and "run_agentic_cell_node env s w = (d, w')"
  shows "(dget (cw_sessions w') (task_id (cs_graph s)) \<noteq> None \<longleftrightarrow> cell_route (merge_delta d s) = ''agentic_cell'')
    \<and> (\<forall>t. t = task_id (cs_graph s) \<or> dget (cw_sessions w') t = dget (cw_sessions w) t)"
proof (cases "open_cell env (task_id (cs_graph s)) w")
  case (Inl reason)
  then have "d = concede (cs_iteration s) reason" "w' = close_cell (task_id (cs_graph s)) w"
    using assms by (simp_all add: run_agentic_cell_node_def Let_def)
  then show ?thesis using led_by_route [OF concede_led] by (simp add: close_cell_def delete_conv)
next
  case cell: (Inr cell)
  obtain r cell' w1 where p: "cell_phase env s cell w = (r, cell', w1)" by (cases "cell_phase env s cell w") auto
  have w1: "cw_sessions w1 = cw_sessions w" using cell_phase_sessions [of env s cell w] p by simp
  show ?thesis
  proof (cases r)
    case (Inl exc)
    then have "d = concede (cs_iteration s) (''exception: '' @ exc)"
        "cw_sessions w' = AList.delete (task_id (cs_graph s)) (dset (task_id (cs_graph s)) cell' (cw_sessions w))"
      using assms cell p w1 by (auto simp: run_agentic_cell_node_def Let_def close_cell_def)
    then show ?thesis using led_by_route [OF concede_led] by (simp add: delete_conv dget_dset)
  next
    case (Inr dt)
    obtain d0 terminal where dt: "dt = (d0, terminal)" by fastforce
    obtain st where st: "led_by st d0" "st = ''continue'' \<longleftrightarrow> \<not> terminal" using cell_phase_led p Inr dt by blast
    have "d = d0" "cw_sessions w' = (if terminal then AList.delete (task_id (cs_graph s)) else id)
        (dset (task_id (cs_graph s)) cell' (cw_sessions w))"
      using assms cell p w1 Inr dt by (auto simp: run_agentic_cell_node_def Let_def close_cell_def)
    then show ?thesis using led_by_route [OF st(1)] st(2) by (simp add: delete_conv dget_dset)
  qed
qed

subsection \<open>Deferrals\<close>

definition pending_count :: "cell_state \<Rightarrow> nat" where
  "pending_count s = (if str_or (cs_exec s) [] \<noteq> [] then 1 else 0) + (if cs_tool s \<noteq> None then 1 else 0)
     + (if truthy (cs_question s) then 1 else 0)"

fun cell_visits :: "'s cell_env list \<Rightarrow> cell_state \<times> 's cell_world \<Rightarrow> cell_state \<times> 's cell_world" where
  "cell_visits [] c = c"
| "cell_visits (env # envs) (s, w) =
     (case run_agentic_cell_node env s w of (d, w') \<Rightarrow> cell_visits envs (merge_delta d s, w'))"

lemma merge_channels [simp]:
  "cs_exec (merge_delta d s) = or_else (cd_exec d) (cs_exec s)"
  "cs_tool (merge_delta d s) = or_else (cd_tool d) (cs_tool s)"
  "cs_question (merge_delta d s) = or_else (cd_question d) (cs_question s)"
  "cs_iteration (merge_delta d s) = cd_iteration d"
  "cs_consumed (merge_delta d s) = cs_consumed s @ cd_consumed d"
  by (simp_all add: merge_delta_def)

lemma plain_delta_channels [simp]:
  "cd_exec (plain_delta i t) = None" "cd_tool (plain_delta i t) = None" "cd_question (plain_delta i t) = None"
  "cd_iteration (plain_delta i t) = i + 1" "cd_consumed (plain_delta i t) = []"
  by (simp_all add: plain_delta_def)

lemma concede_channels [simp]:
  "cd_exec (concede i r) = None" "cd_tool (concede i r) = None" "cd_question (concede i r) = None"
  "cd_iteration (concede i r) = i + 1" "cd_consumed (concede i r) = []"
  by (simp_all add: concede_def)

lemma finished_channels [simp]:
  "cd_exec (fst (finished_delta env s cx cost cell v)) = None"
  "cd_tool (fst (finished_delta env s cx cost cell v)) = None"
  "cd_question (fst (finished_delta env s cx cost cell v)) = None"
  "cd_iteration (fst (finished_delta env s cx cost cell v)) = cs_iteration s + 1"
  "cd_consumed (fst (finished_delta env s cx cost cell v)) = cc_consumed cx"
  by (simp_all add: finished_delta_def carried_def Let_def)

lemma deferred_channels [simp]:
  "cd_iteration (deferred_delta cx i what v) = i + 1" "cd_consumed (deferred_delta cx i what v) = cc_consumed cx"
  by (cases what; simp add: deferred_delta_def carried_def)+

lemma deferred_pending:
  assumes "pending_count s = 0"
  shows "pending_count (merge_delta (deferred_delta cx i what v) s) \<le> 1"
  using assms by (cases what) (auto simp: pending_count_def deferred_delta_def carried_def or_else_def split: if_splits)

lemma unset_pending:
  assumes "cd_exec d = None" and "cd_tool d = None" and "cd_question d = None"
  shows "pending_count (merge_delta d s) = pending_count s"
  using assms by (simp add: pending_count_def or_else_def)

lemma iteration_pending:
  assumes "pending_count s = 0" and "iteration_phase env s cell w = (Inr (d, terminal), cell', w')"
  shows "pending_count (merge_delta d s) \<le> 1"
proof (cases rule: iteration_cases [of env s cell w])
  case (1 exc)
  with assms show ?thesis by simp
next
  case (2 mode schemas calls cx r)
  from 2(6) assms(2) have c: "conclude env s cx (iteration_cost env (iteration_messages s mode schemas (fst (drain_steering env s))) calls)
      cell r = Inr (d, terminal)" by (simp add: leave_iteration_def)
  show ?thesis
  proof (cases r)
    case (Next v)
    with c have "d = fst (finished_delta env s cx (iteration_cost env
        (iteration_messages s mode schemas (fst (drain_steering env s))) calls) cell v)" by (simp add: conclude_def)
    then show ?thesis using assms(1) by (simp add: unset_pending)
  next
    case (Defer what v)
    with c have "d = deferred_delta cx (cs_iteration s) what v" by (simp add: conclude_def)
    then show ?thesis using deferred_pending [OF assms(1)] by simp
  qed (use c in \<open>simp add: conclude_def\<close>)
qed

lemma exec_channels:
  "exec_phase env s c cell w = (Inr (d, terminal), cell', w') \<Longrightarrow>
     cd_exec d = Some None \<and> cd_tool d = None \<and> cd_question d = None"
  by (auto simp: exec_phase_def Let_def split: sum.splits bool.splits prod.splits option.splits)

lemma tool_channels:
  "tool_phase env s c cell w = (Inr (d, terminal), cell', w') \<Longrightarrow>
     cd_exec d = None \<and> cd_tool d = Some None \<and> cd_question d = None"
  by (auto simp: tool_phase_def Let_def split: sum.splits bool.splits prod.splits option.splits)

lemma clarification_channels:
  "clarification_phase env s q cell w = (Inr (d, terminal), cell', w') \<Longrightarrow>
     cd_exec d = None \<and> cd_tool d = None \<and> cd_question d = Some JNull"
  by (auto simp: clarification_phase_def Let_def split: sum.splits prod.splits option.splits)

lemma cell_phase_pending:
  assumes "pending_count s \<le> 1" and "cell_phase env s cell w = (Inr (d, terminal), cell', w')"
  shows "pending_count (merge_delta d s) \<le> (if pending_count s = 0 then 1 else 0)"
proof -
  consider (exec) "str_or (cs_exec s) [] \<noteq> []"
    | (tool) c where "str_or (cs_exec s) [] = []" "cs_tool s = Some c"
    | (question) "str_or (cs_exec s) [] = []" "cs_tool s = None" "truthy (cs_question s)"
    | (none) "str_or (cs_exec s) [] = []" "cs_tool s = None" "\<not> truthy (cs_question s)" by auto
  then show ?thesis
  proof cases
    case exec
    with assms exec_channels show ?thesis
      by (fastforce simp: cell_phase_def pending_count_def or_else_def str_or_def split: if_splits)
  next
    case tool
    with assms tool_channels show ?thesis
      by (fastforce simp: cell_phase_def pending_count_def or_else_def split: if_splits)
  next
    case question
    with assms clarification_channels show ?thesis
      by (fastforce simp: cell_phase_def pending_count_def or_else_def split: if_splits)
  next
    case none
    then have "pending_count s = 0" by (simp add: pending_count_def)
    moreover have "iteration_phase env s cell w = (Inr (d, terminal), cell', w')"
      using none assms(2) by (simp add: cell_phase_def)
    ultimately show ?thesis using iteration_pending [of s env cell w] by simp
  qed
qed

text \<open>What a visit comes to: a concession, or the delta of its phase.\<close>

lemma visit_cases:
  assumes "run_agentic_cell_node env s w = (d, w')"
  obtains r where "d = concede (cs_iteration s) r"
  | cell terminal cell' w1 where "open_cell env (task_id (cs_graph s)) w = Inr cell"
      "cell_phase env s cell w = (Inr (d, terminal), cell', w1)"
  using assms
  by (cases "open_cell env (task_id (cs_graph s)) w")
    (auto simp: run_agentic_cell_node_def Let_def split: sum.splits prod.splits)

lemma visit_pending:
  assumes "pending_count s \<le> 1" and "run_agentic_cell_node env s w = (d, w')"
  shows "pending_count (merge_delta d s) \<le> 1"
proof (rule visit_cases [OF assms(2)])
  fix r assume "d = concede (cs_iteration s) r"
  then show ?thesis using assms(1) by (simp add: unset_pending)
next
  fix cell terminal cell' w1
  assume "cell_phase env s cell w = (Inr (d, terminal), cell', w1)"
  from cell_phase_pending [OF assms(1) this] show ?thesis by (auto split: if_splits)
qed

text \<open>
  One question at a time. However often the cell is visited, at most one of the three
  deferrals (a command, a tool call, a question) is waiting for the operator.
\<close>

theorem one_deferral_pending:
  assumes "pending_count s \<le> 1"
  shows "pending_count (fst (cell_visits envs (s, w))) \<le> 1"
  using assms
proof (induction envs arbitrary: s w)
  case (Cons env envs)
  obtain d w' where r: "run_agentic_cell_node env s w = (d, w')" by fastforce
  with Cons.IH [OF visit_pending [OF Cons.prems r]] show ?case by simp
qed simp

subsection \<open>The loop ends when nothing is asked\<close>

lemma command_decision_policy:
  "session_permission_mode g = session_permission_mode g' \<Longrightarrow> command_decision g c = command_decision g' c"
  by (simp add: command_decision_def classify_execute_def)

text \<open>A call that the session of these channels could put to the operator.\<close>

definition may_ask :: "'s cell_env \<Rightarrow> graph_state \<Rightarrow> tool_call \<Rightarrow> bool" where
  "may_ask env g call \<longleftrightarrow>
     (if tc_name call = RUN_TERMINAL then command_decision g (str_arg env (tc_args call) ''command'') = HITL
      else tc_name call \<notin> {READ_FILE_AST, APPLY_EDIT}
        \<and> (tc_name call = TOOL_QUESTION
           \<or> (\<exists>schemas tools reg. resolve_tools (ev_families env) schemas = Inr tools
                \<and> dget tools (tc_name call) = Some reg
                \<and> evaluate_action (session_mode_from_channel (session_permission_mode g)) (rt_tier reg) EDIT_EXECUTE_RBW
                  = HITL)))"

lemma may_ask_policy:
  "session_permission_mode g = session_permission_mode g' \<Longrightarrow> may_ask env g call = may_ask env g' call"
  using command_decision_policy [of g g'] by (simp add: may_ask_def)

lemma terminal_run_no_defer: "terminal_run env command v \<noteq> Defer what v'"
  by (simp add: terminal_run_def Let_def split: prod.split sum.split option.split)

lemma apply_edit_no_defer: "apply_edit env cx call v \<noteq> Defer what v'"
  by (simp add: apply_edit_def Let_def split: prod.split sum.split option.split patch_failure.split)

lemma classify_hitl:
  "classify self call = (reg, HITL, reason) \<Longrightarrow> \<exists>r. dget (di_tools self) (tc_name call) = Some r
     \<and> evaluate_action (di_session_mode self) (rt_tier r) (di_agent_permission self) = HITL"
  by (auto simp: classify_def Let_def split: option.splits if_splits decision.splits)

lemma fallback_call_defer:
  assumes "fallback_call env cx call v = Defer what v'" and "context_of s cx"
  shows "tc_name call = TOOL_QUESTION \<or> (\<exists>schemas tools reg. resolve_tools (ev_families env) schemas = Inr tools
    \<and> dget tools (tc_name call) = Some reg \<and> evaluate_action (cell_mode s) (rt_tier reg) EDIT_EXECUTE_RBW = HITL)"
proof (cases "resolve_tools (ev_families env) (cc_schemas cx)")
  case (Inl missing)
  with assms show ?thesis by (simp add: fallback_call_def)
next
  case (Inr tools)
  let ?self = "fallback_dispatcher env cx tools"
  obtain reg dec reason where c: "classify ?self call = (reg, dec, reason)" by (cases "classify ?self call") auto
  obtain result h where d: "dispatch ?self (cv_history v) call = (result, h)" by fastforce
  show ?thesis
  proof (cases "dec = HITL")
    case True
    with classify_hitl [of ?self call] c Inr assms(2) show ?thesis
      by (fastforce simp: fallback_dispatcher_def context_of_def)
  next
    case False
    with assms(1) Inr c d show ?thesis by (auto simp: fallback_call_def Let_def split: if_splits)
  qed
qed

lemma cell_call_defer:
  assumes "cell_call env cx call v = Defer what v'" and "context_of s cx"
  shows "may_ask env (cs_graph s) call"
proof -
  obtain allowed entry where a: "audit_tool_args env call = (allowed, entry)" by fastforce
  note [simp] = terminal_run_no_defer apply_edit_no_defer
  show ?thesis
  proof (cases "tc_name call = RUN_TERMINAL")
    case True
    with assms a show ?thesis
      by (auto simp: cell_call_def may_ask_def context_of_def Let_def split: if_splits decision.splits)
  next
    case False
    with assms(1) a have "tc_name call \<notin> {READ_FILE_AST, APPLY_EDIT}"
        and "\<exists>v. fallback_call env cx call v = Defer what v'"
      by (auto simp: cell_call_def Let_def split: if_splits)
    then obtain v1 where "fallback_call env cx call v1 = Defer what v'" by blast
    from fallback_call_defer [OF this assms(2)] False \<open>tc_name call \<notin> {READ_FILE_AST, APPLY_EDIT}\<close>
    show ?thesis by (simp add: may_ask_def cell_mode_def)
  qed
qed

lemma cell_calls_defer:
  assumes "cell_calls env cx calls v = Defer what v'" and "context_of s cx"
  shows "\<not> list_all (\<lambda>c. \<not> may_ask env (cs_graph s) c) calls"
  using assms(1)
proof (induction calls arbitrary: v)
  case (Cons call calls)
  then show ?case
    using cell_call_defer [OF _ assms(2), of env call v] by (cases "cell_call env cx call v") auto
qed simp

lemma govern_branches_no_defer: "govern_branches env cx cands v \<noteq> Defer what v'"
proof (induction cands arbitrary: v)
  case (Cons cand cands)
  then show ?case by (cases cand) (auto simp: Let_def split: option.split prod.split)
qed simp

lemma work_off_defer:
  assumes "work_off env cx calls v = Defer what v'" and "context_of s cx"
  shows "\<not> list_all (\<lambda>c. \<not> may_ask env (cs_graph s) c) calls"
proof (cases "cell_calls env cx calls v")
  case (Defer what1 v1)
  from cell_calls_defer [OF this assms(2)] show ?thesis .
qed (use assms(1) in \<open>simp_all add: work_off_def govern_branches_no_defer\<close>)

text \<open>The limit of steps, with what steering has earned.\<close>

definition step_limit :: "'s cell_env \<Rightarrow> cell_state \<Rightarrow> string list \<Rightarrow> int" where
  "step_limit env s consumed =
     or_else (ev_max_steps env) AGENTIC_CELL_MAX_ITERATIONS + int (steering_step_grant s consumed)"

lemma finished_continues:
  assumes "finished_delta env s cx cost cell v = (d, False)"
  shows "cs_iteration s + 1 < step_limit env s (cc_consumed cx)"
  using assms
  by (auto simp: finished_delta_def governor_axis_def check_governor_def step_limit_def Let_def split: if_splits)

lemma quiet_iteration:
  assumes "iteration_phase env s cell w = (Inr (d, terminal), cell', w')"
    and quiet: "\<And>msgs calls. ev_reasoner env msgs = Inr calls \<Longrightarrow> list_all (\<lambda>c. \<not> may_ask env (cs_graph s) c) calls"
  shows "cd_exec d = None \<and> cd_tool d = None \<and> cd_question d = None
    \<and> cd_consumed d = snd (drain_steering env s)
    \<and> (terminal \<or> cs_iteration s + 1 < step_limit env s (snd (drain_steering env s)))"
proof (cases rule: iteration_cases [of env s cell w])
  case (1 exc)
  with assms show ?thesis by simp
next
  case (2 mode schemas calls cx r)
  let ?cost = "iteration_cost env (iteration_messages s mode schemas (fst (drain_steering env s))) calls"
  from 2(6) assms(1) have c: "conclude env s cx ?cost cell r = Inr (d, terminal)" by (simp add: leave_iteration_def)
  show ?thesis
  proof (cases r)
    case (Next v)
    with c have f: "finished_delta env s cx ?cost cell v = (d, terminal)" by (simp add: conclude_def)
    have cx: "cc_consumed cx = snd (drain_steering env s)" by (simp add: 2(2) iteration_context_def)
    have "cd_exec d = None \<and> cd_tool d = None \<and> cd_question d = None \<and> cd_consumed d = cc_consumed cx"
      using finished_channels [of env s cx ?cost cell v] f by (simp del: finished_channels)
    with cx f finished_continues [of env s cx ?cost cell v d] show ?thesis by (cases terminal) simp_all
  next
    case (Defer what v)
    then have "work_off env cx calls (initial_vars env s (cx_surface cell) (cw_blobs w)) = Defer what v" using 2(5) by simp
    from work_off_defer [OF this 2(3)] quiet [OF 2(4)] show ?thesis by simp
  qed (use c in \<open>simp add: conclude_def\<close>)
qed

lemma promoted_keeps_policy:
  "session_permission_mode (apply_delta (promoted_writes ps) g) = session_permission_mode g"
proof (induction ps arbitrary: g)
  case (Cons p ps)
  then show ?case
    by (cases p) (auto simp: promoted_writes_def List.map_filter_simps split: json.splits option.splits)
qed (simp add: promoted_writes_def List.map_filter_simps)

lemma promoted_keeps_task: "task_id (apply_delta (promoted_writes ps) g) = task_id g"
proof (induction ps arbitrary: g)
  case (Cons p ps)
  then show ?case
    by (cases p) (auto simp: promoted_writes_def List.map_filter_simps split: json.splits option.splits)
qed (simp add: promoted_writes_def List.map_filter_simps)

lemma merge_keeps_policy [simp]:
  "session_permission_mode (cs_graph (merge_delta d s)) = session_permission_mode (cs_graph s)"
  by (simp add: merge_delta_def apply_delta_append promoted_keeps_policy)

lemma drained_ids: "set (snd (drain_steering env s)) \<subseteq> set (map fst (or_else (ev_queue env) []))"
  by (auto simp: drain_steering_def Let_def)

lemma steering_grant_bound:
  assumes "set (cs_consumed s) \<union> set consumed \<subseteq> set ids"
  shows "steering_step_grant s consumed \<le> card (set ids) * STEERING_ITERATION_GRANT"
  using card_mono [OF finite_set assms] by (simp add: steering_step_grant_def)

text \<open>A visit with nothing to ask: it ends the loop, or the counter is still below the limit.\<close>

lemma quiet_visit:
  assumes "pending_count s = 0" and "run_agentic_cell_node env s w = (d, w')"
    and quiet: "\<And>msgs calls. ev_reasoner env msgs = Inr calls \<Longrightarrow> list_all (\<lambda>c. \<not> may_ask env (cs_graph s) c) calls"
    and goes_on: "cell_route (merge_delta d s) = ''agentic_cell''"
  shows "pending_count (merge_delta d s) = 0 \<and> cs_iteration (merge_delta d s) = cs_iteration s + 1
    \<and> cd_consumed d = snd (drain_steering env s) \<and> cs_iteration s + 1 < step_limit env s (snd (drain_steering env s))"
proof (rule visit_cases [OF assms(2)])
  fix r assume "d = concede (cs_iteration s) r"
  with led_by_route [OF concede_led] goes_on show ?thesis by simp
next
  fix cell terminal cell' w1
  assume p: "cell_phase env s cell w = (Inr (d, terminal), cell', w1)"
  moreover have "cell_phase env s cell w = iteration_phase env s cell w"
    using assms(1) by (auto simp: cell_phase_def pending_count_def split: if_splits option.split)
  ultimately have i: "iteration_phase env s cell w = (Inr (d, terminal), cell', w1)" by simp
  obtain st where "led_by st d" "st = ''continue'' \<longleftrightarrow> \<not> terminal" using cell_phase_led [OF p] by blast
  with led_by_route [of st d s] goes_on have "\<not> terminal" by (auto split: if_splits)
  moreover have "cd_iteration d = cs_iteration s + 1"
    using i by (cases rule: iteration_cases [of env s cell w])
      (auto simp: conclude_def leave_iteration_def finished_channels [THEN sym] split: call_result.splits dest!: arg_cong [of _ _ fst])
  ultimately show ?thesis
    using quiet_iteration [OF i quiet] unset_pending [of d s] assms(1) by simp
qed

text \<open>
  C20. The loop ends. If the model proposes nothing that the session would put to the operator,
  then, whatever it proposes and whatever fails, the graph leaves the cell after at most as many
  visits as the step budget and the steering messages grant.
\<close>

theorem quiet_loop_ends:
  assumes "pending_count s = 0" and "0 < n"
    and "\<And>k msgs calls. ev_reasoner (envs k) msgs = Inr calls \<Longrightarrow>
          list_all (\<lambda>c. \<not> may_ask (envs k) (cs_graph s) c) calls"
    and "\<And>k. ev_max_steps (envs k) = None \<and> set (map fst (or_else (ev_queue (envs k)) [])) \<subseteq> set ids"
    and "set (cs_consumed s) \<subseteq> set ids"
    and "AGENTIC_CELL_MAX_ITERATIONS + int (card (set ids) * STEERING_ITERATION_GRANT) - cs_iteration s \<le> int n"
  shows "\<exists>s' w'. cell_loop envs n s w = Some (s', w') \<and> cell_route s' = ''contract_guard''"
  using assms
proof (induction n arbitrary: s w)
  case (Suc n)
  obtain d w1 where r: "run_agentic_cell_node (envs n) s w = (d, w1)" by fastforce
  show ?case
  proof (cases "cell_route (merge_delta d s) = ''agentic_cell''")
    case False
    then have "cell_route (merge_delta d s) = ''contract_guard''"
      by (auto simp: cell_route_def route_after_cell_def split: option.splits if_splits)
    with False r show ?thesis by simp
  next
    case True
    have v: "pending_count (merge_delta d s) = 0 \<and> cs_iteration (merge_delta d s) = cs_iteration s + 1
        \<and> cd_consumed d = snd (drain_steering (envs n) s)
        \<and> cs_iteration s + 1 < step_limit (envs n) s (snd (drain_steering (envs n) s))"
      by (rule quiet_visit [OF Suc.prems(1) r _ True]) (rule Suc.prems(3))
    have ids: "set (cs_consumed s) \<union> set (snd (drain_steering (envs n) s)) \<subseteq> set ids"
      using Suc.prems(4,5) drained_ids [of "envs n" s] by blast
    have "step_limit (envs n) s (snd (drain_steering (envs n) s))
        \<le> AGENTIC_CELL_MAX_ITERATIONS + int (card (set ids) * STEERING_ITERATION_GRANT)"
    proof -
      have "int (steering_step_grant s (snd (drain_steering (envs n) s))) \<le> int (card (set ids) * STEERING_ITERATION_GRANT)"
        using steering_grant_bound [OF ids] by (simp only: of_nat_le_iff)
      then show ?thesis using Suc.prems(4) by (simp add: step_limit_def or_else_def)
    qed
    with v Suc.prems(6) have bound: "AGENTIC_CELL_MAX_ITERATIONS + int (card (set ids) * STEERING_ITERATION_GRANT)
        - cs_iteration (merge_delta d s) \<le> int n" "0 < n" by simp_all
    have "\<exists>s' w'. cell_loop envs n (merge_delta d s) w1 = Some (s', w') \<and> cell_route s' = ''contract_guard''"
    proof (rule Suc.IH)
      show "pending_count (merge_delta d s) = 0" using v by simp
      show "list_all (\<lambda>c. \<not> may_ask (envs k) (cs_graph (merge_delta d s)) c) calls"
        if "ev_reasoner (envs k) msgs = Inr calls" for k msgs calls
        using Suc.prems(3) [OF that] may_ask_policy [OF merge_keeps_policy, of "envs k" d s] by simp
      show "set (cs_consumed (merge_delta d s)) \<subseteq> set ids" using ids v by simp
    qed (use Suc.prems(4) bound in simp_all)
    with r True show ?thesis by simp
  qed
qed simp

definition demo_cell :: "tool_call list \<Rightarrow> local_fs cell_env" where
  "demo_cell calls =
     \<lparr>ev_surface = local_surface id, ev_sync = sample_env,
      ev_patch = \<lparr>pt_sha256 = id, pt_ratio = (\<lambda>_ _. 0), pt_parses = (\<lambda>_. True), pt_unified_diff = (\<lambda>_ _ _. [])\<rparr>,
      ev_adapter = Some (\<lambda>_. Inr \<lparr>lf_base = [''w''], lf_files = []\<rparr>), ev_run = (\<lambda>c fs. (Exited 1 [], fs)),
      ev_verdict = (\<lambda>_ output. output), ev_skeleton = (\<lambda>_ _. []), ev_read = (\<lambda>_. None), ev_reasoner = (\<lambda>_. Inr calls),
      ev_scrub = id, ev_str = (\<lambda>_. []), ev_repr = id, ev_count = length, ev_dump = tc_name, ev_loads = (\<lambda>_. Inl []),
      ev_rag = demo_rag, ev_rows = [], ev_share = 1 / 10, ev_window = 8192, ev_families = demo_families,
      ev_asked = (\<lambda>_. JNull), ev_queue = None, ev_exec_approval = Some (\<lambda>_. Inr False), ev_tool_approval = None,
      ev_clarification = None, ev_resume = None, ev_interrupt = ''interrupt'', ev_verify_command = ''pytest'',
      ev_uuid = show_nat, ev_registry = [], ev_now = 0, ev_max_steps = None, ev_max_cost = None, ev_ceiling_injected = True, ev_max_elapsed = None,
      ev_local_timeout = 100\<rparr>"

definition demo_cell_state :: cell_state where
  "demo_cell_state =
     \<lparr>cs_graph = fresh_state\<lparr>task_id := ''t''\<rparr>, cs_user_input = ''fix it'', cs_iteration = 0, cs_trajectory = [],
      cs_audit = [], cs_consumed = [], cs_exec = None, cs_tool = None, cs_question = JNull, cs_query = None\<rparr>"

definition demo_cell_world :: "local_fs cell_world" where
  "demo_cell_world = \<lparr>cw_sessions = [], cw_blobs = \<lparr>cas_store = [], cas_max_entries = 4\<rparr>, cw_effects = []\<rparr>"

definition list_command :: tool_call where
  "list_command = \<lparr>tc_name = RUN_TERMINAL, tc_args = [(''command'', JStr ''ls'')]\<rparr>"

theorem quiet_loop_ends_witness:
  "\<exists>s' w'. cell_loop (\<lambda>_. demo_cell []) 6 demo_cell_state demo_cell_world = Some (s', w') \<and> cell_route s' = ''contract_guard''"
  by (rule quiet_loop_ends [where ids = "[]"])
    (simp_all add: demo_cell_def demo_cell_state_def pending_count_def str_or_def or_else_def AGENTIC_CELL_MAX_ITERATIONS_def
      STEERING_ITERATION_GRANT_def)

subsection \<open>Commands that wait for the operator\<close>

text \<open>A session in which every reply is one command that has to be approved.\<close>

definition insists :: "'s cell_env \<Rightarrow> cell_state \<Rightarrow> tool_call \<Rightarrow> string \<Rightarrow> bool" where
  "insists env s call c \<longleftrightarrow> c \<noteq> [] \<and> tc_name call = RUN_TERMINAL \<and> str_arg env (tc_args call) ''command'' = c
     \<and> match_dangerous c = None \<and> command_decision (cs_graph s) c = HITL
     \<and> ev_reasoner env = (\<lambda>_. Inr [call]) \<and> ev_rows env = [] \<and> 0 \<le> threshold_chars (ev_share env) (ev_window env)"

lemma empty_catalogue:
  assumes "ev_rows env = []" and "0 \<le> threshold_chars (ev_share env) (ev_window env)"
  shows "\<exists>mode. iteration_schemas env s = Some (mode, [])"
  using assms
  by (simp add: iteration_schemas_def resolve_catalog_def visible_eager_def all_schemas_def schema_chars_def
      select_tools_def visible_rows_def filter_resolvable_def filter_loop_safe_def Let_def)

lemma insisted_iteration:
  assumes i: "insists env s call c" and "pending_count s = 0" and "open_cell env (task_id (cs_graph s)) w = Inr cell"
    and "run_agentic_cell_node env s w = (d, w')"
  shows "cd_exec d = Some (Some c) \<and> cd_tool d = None \<and> cd_question d = None \<and> cd_cost d = 0
    \<and> cell_route (merge_delta d s) = ''agentic_cell'' \<and> dget (cw_sessions w') (task_id (cs_graph s)) \<noteq> None"
proof -
  obtain mode where m: "iteration_schemas env s = Some (mode, [])"
    using i empty_catalogue unfolding insists_def by blast
  obtain steering consumed where st: "drain_steering env s = (steering, consumed)" by fastforce
  let ?v = "initial_vars env s (cx_surface cell) (cw_blobs w)"
  let ?cx = "iteration_context s (cv_working ?v) [] steering consumed"
  obtain v' where off: "work_off env ?cx [call] ?v = Defer (DeferCommand c) v'"
    using i by (simp add: work_off_def cell_call_def audit_tool_args_def insists_def iteration_context_def Let_def)
  have ph: "cell_phase env s cell w
      = (Inr (deferred_delta ?cx (cs_iteration s) (DeferCommand c) v', False), leave_iteration v' cell w)"
    using assms(2) i m st off
    by (simp add: cell_phase_def pending_count_def iteration_phase_def insists_def conclude_def Let_def split: if_splits option.split)
  from assms(3,4) ph have d: "d = deferred_delta ?cx (cs_iteration s) (DeferCommand c) v'"
      "dget (cw_sessions w') (task_id (cs_graph s)) \<noteq> None"
    by (auto simp: run_agentic_cell_node_def Let_def leave_iteration_def dget_dset)
  have "\<exists>st. led_by st d \<and> st = ''continue''"
    using cell_phase_led [of env s cell w d False] ph d(1) by (auto simp: leave_iteration_def)
  with led_by_route have "cell_route (merge_delta d s) = ''agentic_cell''" by fastforce
  with d show ?thesis by (simp add: deferred_delta_def carried_def plain_delta_def Let_def)
qed

lemma refused_visit:
  assumes "cs_exec s = Some c" and "c \<noteq> []" and "ev_exec_approval env = Some (\<lambda>_. Inr False)"
    and "open_cell env (task_id (cs_graph s)) w = Inr cell" and "run_agentic_cell_node env s w = (d, w')"
  shows "cd_exec d = Some None \<and> cd_tool d = None \<and> cd_question d = None
    \<and> cell_route (merge_delta d s) = ''agentic_cell'' \<and> dget (cw_sessions w') (task_id (cs_graph s)) \<noteq> None"
proof -
  have ph: "cell_phase env s cell w = exec_phase env s c cell w" using assms(1,2) by (simp add: cell_phase_def str_or_def)
  obtain d0 where e: "exec_phase env s c cell w = (Inr (d0, False), cell, w)"
    using assms(3) by (simp add: exec_phase_def approve_exec_def ask_operator_def Let_def)
  then have d: "d = d0" "dget (cw_sessions w') (task_id (cs_graph s)) \<noteq> None"
    using assms(4,5) ph by (auto simp: run_agentic_cell_node_def Let_def dget_dset)
  obtain st where "led_by st d0" "st = ''continue''" using exec_led [OF e] by auto
  with led_by_route d(1) have "cell_route (merge_delta d s) = ''agentic_cell''" by simp
  with exec_channels [OF e] d show ?thesis by simp
qed

text \<open>
  No budget ends the refusals: when every reply is one command that has to be approved and the
  operator refuses each time, the loop does not end, whatever the limits of steps, cost and time.
\<close>

lemma refusals_escape_governor:
  assumes "insists env s call c" and "ev_exec_approval env = Some (\<lambda>_. Inr False)"
    and "open_cell env (task_id (cs_graph s)) w = Inr cell"
    and "pending_count s = 0 \<or> cs_exec s = Some c \<and> cs_tool s = None \<and> \<not> truthy (cs_question s)"
  shows "cell_loop (\<lambda>_. env) n s w = None"
  using assms(1,3,4)
proof (induction n arbitrary: s w cell)
  case (Suc n)
  obtain d w' where r: "run_agentic_cell_node env s w = (d, w')" by fastforce
  have c: "c \<noteq> []" using Suc.prems(1) by (simp add: insists_def)
  have v: "cell_route (merge_delta d s) = ''agentic_cell'' \<and> dget (cw_sessions w') (task_id (cs_graph s)) \<noteq> None
      \<and> (pending_count (merge_delta d s) = 0
         \<or> cs_exec (merge_delta d s) = Some c \<and> cs_tool (merge_delta d s) = None \<and> \<not> truthy (cs_question (merge_delta d s)))"
  proof (cases "pending_count s = 0")
    case True
    with insisted_iteration [OF Suc.prems(1) True Suc.prems(2) r] show ?thesis
      by (auto simp: or_else_def pending_count_def split: if_splits)
  next
    case False
    with Suc.prems(3) have s: "cs_exec s = Some c" "cs_tool s = None" "\<not> truthy (cs_question s)" by simp_all
    from refused_visit [OF s(1) c assms(2) Suc.prems(2) r] s show ?thesis
      by (auto simp: or_else_def pending_count_def str_or_def)
  qed
  have task: "task_id (cs_graph (merge_delta d s)) = task_id (cs_graph s)"
    by (simp add: merge_delta_def apply_delta_append promoted_keeps_task)
  from v obtain cell' where "open_cell env (task_id (cs_graph (merge_delta d s))) w' = Inr cell'"
    by (auto simp: open_cell_def task simp del: dget_None_iff)
  moreover have "insists env (merge_delta d s) call c"
    using Suc.prems(1) command_decision_policy [OF merge_keeps_policy] by (simp add: insists_def)
  ultimately have "cell_loop (\<lambda>_. env) n (merge_delta d s) w' = None" using v by (intro Suc.IH) simp_all
  with r v show ?case by simp
qed simp

text \<open>
  Without an injected callback the approval interrupts the graph, but the interrupt is caught as
  an exception: the visit concedes, the session is closed, nothing ran, and the command stays pending.
\<close>

lemma native_approval_concedes:
  assumes "cs_exec s = Some c" and "c \<noteq> []" and "ev_exec_approval env = None" and "ev_resume env = None"
    and "open_cell env (task_id (cs_graph s)) w = Inr cell" and "task_id (cs_graph s) \<noteq> []"
    and "run_agentic_cell_node env s w = (d, w')"
  shows "d = concede (cs_iteration s) (''exception: '' @ ev_interrupt env) \<and> cs_exec (merge_delta d s) = Some c
    \<and> cw_effects w' = cw_effects w \<and> dget (cw_sessions w') (task_id (cs_graph s)) = None"
proof -
  have "cell_phase env s cell w = (Inl (ev_interrupt env), cell, w)"
    using assms by (simp add: cell_phase_def exec_phase_def approve_exec_def ask_operator_def str_or_def Let_def)
  then have "d = concede (cs_iteration s) (''exception: '' @ ev_interrupt env)"
      "w' = close_cell (task_id (cs_graph s)) (w\<lparr>cw_sessions := dset (task_id (cs_graph s)) cell (cw_sessions w)\<rparr>)"
    using assms(5-7) by (simp_all add: run_agentic_cell_node_def Let_def)
  then show ?thesis using assms(1) by (simp add: close_cell_def delete_conv or_else_def)
qed

text \<open>The observations of tools that ran before a deferral are dropped with it.\<close>

lemma deferral_drops_observations:
  "deferred_delta cx i what (v\<lparr>cv_observations := os\<rparr>) = deferred_delta cx i what v"
  by (cases what) (simp_all add: deferred_delta_def carried_def Let_def)

text \<open>
  A question that had to be approved as a tool call is lost: the phase that runs it writes
  no question, and the session that asks for everything sends even read-only tools there.
\<close>

lemma approved_question_lost:
  "evaluate_action ASK_ALL READ_ONLY EDIT_EXECUTE_RBW = HITL
   \<and> (tool_phase env s call cell w = (Inr (d, terminal), cell', w') \<longrightarrow> cd_question d = None)"
proof (intro conjI impI)
  show "evaluate_action ASK_ALL READ_ONLY EDIT_EXECUTE_RBW = HITL" by code_simp
qed (use tool_channels in blast)

text \<open>What a command changes is pulled into the iteration and dropped by its delta, unless an edit names it.\<close>

lemma terminal_run_keeps_edits:
  "cv_edited (vars_of (terminal_run env c v)) = cv_edited v \<and> cv_contents (vars_of (terminal_run env c v)) = cv_contents v"
  by (simp add: terminal_run_def Let_def split: prod.split sum.split option.split)

lemma fallback_call_keeps_edits:
  "cv_edited (vars_of (fallback_call env cx call v)) = cv_edited v
   \<and> cv_contents (vars_of (fallback_call env cx call v)) = cv_contents v"
  by (simp add: fallback_call_def Let_def split: prod.split sum.split)

lemma command_changes_dropped:
  assumes "list_all (\<lambda>c. tc_name c \<noteq> APPLY_EDIT) calls" and "cv_edited v = []" and "cv_contents v = []"
  shows "cd_vfs (carried cx (vars_of (cell_calls env cx calls v)) d) = []
    \<and> cd_contents (carried cx (vars_of (cell_calls env cx calls v)) d) = []"
  using assms
proof (induction calls arbitrary: v)
  case (Cons call calls)
  have "cv_edited (vars_of (cell_call env cx call v)) = [] \<and> cv_contents (vars_of (cell_call env cx call v)) = []"
    using Cons.prems
    by (auto simp: cell_call_def Let_def terminal_run_keeps_edits fallback_call_keeps_edits split: prod.split decision.split)
  with Cons.IH Cons.prems show ?case
    by (cases "cell_call env cx call v") (simp_all add: carried_def List.map_filter_simps)
qed (simp add: carried_def List.map_filter_simps)

subsection \<open>Edits\<close>

text \<open>
  The guard of an edit compares two hashes of one text, the plain one and the coder's: it says
  nothing about a change of the file, only whether the line ends are normalised.
\<close>

lemma cell_edit_exact:
  assumes "base \<noteq> [] \<or> strip search \<noteq> []"
  shows "compute_edit env base path search replace =
    (if pt_sha256 env base \<noteq> pt_sha256 env (normalize_eol base) then Inl Stale_file
     else case patched_text env base search replace of
            Inl e \<Rightarrow> Inl (Failed e)
          | Inr t \<Rightarrow> if syntax_ok env t path then Inr t else Inl (Failed Syntax_error))"
  using assms by (auto simp: compute_edit_def patch_read_def coder_token_def split: sum.split)

text \<open>A file with Windows line ends can never be edited, a hash collision apart.\<close>

lemma crlf_edit_always_stale:
  assumes "pt_sha256 env base = pt_sha256 env (normalize_eol base) \<Longrightarrow> base = normalize_eol base"
    and "normalize_eol base \<noteq> base" and "base \<noteq> []"
  shows "compute_edit env base path search replace = Inl Stale_file"
  using assms by (subst cell_edit_exact) auto

lemma set_normalize_eol: "c \<in> set s \<Longrightarrow> \<not> py_space c \<Longrightarrow> c \<in> set (normalize_eol s)"
  by (induction s) (auto simp: py_space_def)

lemma set_split_on: "c \<in> set s \<Longrightarrow> c \<noteq> d \<Longrightarrow> \<exists>w \<in> set (split_on d s). c \<in> set w"
  by (induction s) (auto split: list.splits)

lemma set_rstrip: "c \<in> set s \<Longrightarrow> \<not> py_space c \<Longrightarrow> c \<in> set (rstrip s)"
proof -
  assume "c \<in> set s" "\<not> py_space c"
  then have "c \<in> set (dropWhile py_space (rev s))"
    by (metis UnE set_append set_rev set_takeWhileD takeWhile_dropWhile_id)
  then show ?thesis by (simp add: rstrip_def)
qed

lemma set_join: "c \<in> set w \<Longrightarrow> w \<in> set ws \<Longrightarrow> c \<in> set (join sep ws)"
  by (induction sep ws rule: join.induct) auto

lemma normalize_lines_keeps: "c \<in> set s \<Longrightarrow> \<not> py_space c \<Longrightarrow> c \<in> set (normalize_lines s)"
proof -
  assume c: "c \<in> set s" "\<not> py_space c"
  then have "c \<noteq> CHR 0x0A" by (auto simp: py_space_def)
  with c set_normalize_eol set_split_on obtain w where "w \<in> set (split_on (CHR 0x0A) (normalize_eol s))" "c \<in> set w"
    by metis
  with c(2) set_rstrip set_join show ?thesis unfolding normalize_lines_def by (metis image_eqI set_map)
qed

text \<open>
  An edit of a file that the turn has not opened raises, though the file can be read: its base
  is the empty text, in which no anchor is found, and the fault ends the loop.
\<close>

lemma unopened_edit_fails:
  assumes "strip search \<noteq> []"
  shows "\<exists>e. compute_edit env [] path search replace = Inl (Failed e)"
proof -
  obtain c where c: "c \<in> set search" "\<not> py_space c"
    using assms by (auto simp: strip_def lstrip_def rstrip_def dropWhile_eq_Nil_conv dest: set_dropWhileD)
  then have "search \<noteq> []" "normalize_lines search \<noteq> []" using normalize_lines_keeps by fastforce+
  moreover have "normalize_lines [] = []" by (simp add: normalize_lines_def rstrip_def)
  ultimately have "apply_search_replace [] search replace = Inl (Block_not_found (first_line_snippet search))"
    by (simp add: apply_search_replace_def count_sub.simps Let_def)
  then have "patched_text env [] search replace = Inl Fuzzy_empty"
    by (simp add: patched_text_def fuzzy_find_and_replace_def Let_def)
  then show ?thesis using assms by (simp add: cell_edit_exact)
qed

text \<open>Two candidates for one path run the verify command, also in a session that denies every command.\<close>

lemma competing_edits_run_verify:
  assumes "2 \<le> length replacements"
  shows "Verified (ev_verify_command env) \<in> set (cv_effects (vars_of (govern_branches env cx ((path, replacements) # cands) v)))
    \<and> evaluate_action PLAN_ONLY EXECUTE EDIT_EXECUTE_RBW = DENY"
proof
  have "Verified (ev_verify_command env) \<in> set (cv_effects (vars_of (govern_branches env cx cands v')))"
    if "Verified (ev_verify_command env) \<in> set (cv_effects v')" for v'
    using govern_branches_effects [of env undefined v' cx cands] that by (auto simp: grows_by_def)
  with assms show "Verified (ev_verify_command env) \<in> set (cv_effects (vars_of (govern_branches env cx ((path, replacements) # cands) v)))"
    by (auto simp: Let_def split: option.split prod.split)
  show "evaluate_action PLAN_ONLY EXECUTE EDIT_EXECUTE_RBW = DENY" by code_simp
qed

theorem cell_session_lives_with_loop_witness:
  "dget (cw_sessions (snd (run_agentic_cell_node (demo_cell [list_command]) demo_cell_state demo_cell_world))) ''t'' \<noteq> None
   \<and> dget (cw_sessions (snd (run_agentic_cell_node ((demo_cell [])\<lparr>ev_adapter := None\<rparr>) demo_cell_state demo_cell_world))) ''t'' = None"
proof -
  have t: "task_id (cs_graph demo_cell_state) = ''t''" "task_id (cs_graph demo_cell_state) \<noteq> []"
    by (simp_all add: demo_cell_state_def)
  have "insists (demo_cell [list_command]) demo_cell_state list_command ''ls''"
  proof -
    have "match_dangerous ''ls'' = None" "command_decision (cs_graph demo_cell_state) ''ls'' = HITL"
      by (code_simp, code_simp)
    then show ?thesis
      by (simp add: insists_def demo_cell_def list_command_def str_arg_def threshold_chars_def)
  qed
  moreover have "pending_count demo_cell_state = 0" by (simp add: demo_cell_state_def pending_count_def str_or_def)
  moreover have "\<exists>cell. open_cell (demo_cell [list_command]) (task_id (cs_graph demo_cell_state)) demo_cell_world = Inr cell"
    by (simp add: open_cell_def demo_cell_def demo_cell_world_def)
  ultimately have "cell_route (merge_delta (fst (run_agentic_cell_node (demo_cell [list_command]) demo_cell_state demo_cell_world))
      demo_cell_state) = ''agentic_cell''"
    by (metis insisted_iteration prod.collapse)
  with cell_session_lives_with_loop [OF t(2), of "demo_cell [list_command]" demo_cell_world] t(1)
  have "dget (cw_sessions (snd (run_agentic_cell_node (demo_cell [list_command]) demo_cell_state demo_cell_world))) ''t'' \<noteq> None"
    by (metis prod.collapse)
  moreover have "dget (cw_sessions (snd (run_agentic_cell_node ((demo_cell [])\<lparr>ev_adapter := None\<rparr>) demo_cell_state demo_cell_world))) ''t'' = None"
    by (simp add: run_agentic_cell_node_def open_cell_def demo_cell_def demo_cell_world_def close_cell_def Let_def)
  ultimately show ?thesis by (rule conjI)
qed

theorem one_deferral_pending_witness:
  "pending_count (fst (cell_visits [demo_cell [list_command], demo_cell []] (demo_cell_state, demo_cell_world))) \<le> 1"
  by (rule one_deferral_pending) (simp add: demo_cell_state_def pending_count_def str_or_def)

end
