(* ===== verification/UrlGuard.thy ===== *)
theory UrlGuard
  imports PyPath "HOL-Library.Word" "HOL-Library.Char_ord" "HOL-Library.List_Lexorder"
begin

text \<open>
  The guard over outbound fetches (\<open>core/url_guard.py\<close>) and the tool that fetches through it
  (\<open>WebFetchTool\<close> in \<open>tools/perception_tools.py\<close>), which follows redirects by hand.

  Addresses are words of 32 and 128 bits, classified by the tables of Python's \<open>ipaddress\<close>
  (an IPv6 address that maps an IPv4 one is classified as that one, as since Python 3.13). The
  parsers of URLs and addresses, the join of a redirect and the converter to Markdown are
  arguments; \<open>ne_lookup\<close> is the name server, whose answer may change from one question to the
  next, so it takes the number of questions asked before. The port of a parsed URL is computed
  when it is read, and reading it can raise.
\<close>

unbundle bit_operations_syntax
declare map_of_eq_Some_iff [simp del] Some_eq_map_of_iff [simp del]

subsection \<open>Addresses\<close>

datatype ip = V4 "32 word" | V6 "128 word"

definition in_net :: "'a::len word \<Rightarrow> 'a word \<times> nat \<Rightarrow> bool" where
  "in_net a net = (case net of (base, n) \<Rightarrow> drop_bit (LENGTH('a) - n) a = drop_bit (LENGTH('a) - n) base)"

definition octets :: "nat \<Rightarrow> nat \<Rightarrow> nat \<Rightarrow> nat \<Rightarrow> 32 word" where
  "octets a b c d = of_nat (((a * 256 + b) * 256 + c) * 256 + d)"

definition private_nets4 :: "(32 word \<times> nat) list" where
  "private_nets4 =
     [(octets 0 0 0 0, 8), (octets 10 0 0 0, 8), (octets 127 0 0 0, 8), (octets 169 254 0 0, 16),
      (octets 172 16 0 0, 12), (octets 192 0 0 0, 24), (octets 192 0 0 170, 31), (octets 192 0 2 0, 24),
      (octets 192 168 0 0, 16), (octets 198 18 0 0, 15), (octets 198 51 100 0, 24), (octets 203 0 113 0, 24),
      (octets 240 0 0 0, 4), (octets 255 255 255 255, 32)]"

definition private_exceptions4 :: "(32 word \<times> nat) list" where
  "private_exceptions4 = [(octets 192 0 0 9, 32), (octets 192 0 0 10, 32)]"

definition word_at :: "nat \<Rightarrow> 128 word \<Rightarrow> 128 word" where
  "word_at i x = push_bit (112 - 16 * i) x"

definition private_nets6 :: "(128 word \<times> nat) list" where
  "private_nets6 =
     [(1, 128), (0, 128), (word_at 5 0xFFFF, 96), (word_at 0 0x64 OR word_at 1 0xFF9B OR word_at 2 1, 48),
      (word_at 0 0x100, 64), (word_at 0 0x2001, 23), (word_at 0 0x2001 OR word_at 1 0xDB8, 32),
      (word_at 0 0x2002, 16), (word_at 0 0xFC00, 7), (word_at 0 0xFE80, 10)]"

definition private_exceptions6 :: "(128 word \<times> nat) list" where
  "private_exceptions6 =
     [(word_at 0 0x2001 OR word_at 1 1 OR 1, 128), (word_at 0 0x2001 OR word_at 1 1 OR 2, 128),
      (word_at 0 0x2001 OR word_at 1 3, 32), (word_at 0 0x2001 OR word_at 1 4 OR word_at 2 0x112, 48),
      (word_at 0 0x2001 OR word_at 1 0x20, 28), (word_at 0 0x2001 OR word_at 1 0x30, 28)]"

definition reserved_nets6 :: "(128 word \<times> nat) list" where
  "reserved_nets6 =
     [(0, 8), (word_at 0 0x100, 8), (word_at 0 0x200, 7), (word_at 0 0x400, 6), (word_at 0 0x800, 5),
      (word_at 0 0x1000, 4), (word_at 0 0x4000, 3), (word_at 0 0x6000, 3), (word_at 0 0x8000, 3),
      (word_at 0 0xA000, 3), (word_at 0 0xC000, 3), (word_at 0 0xE000, 4), (word_at 0 0xF000, 5),
      (word_at 0 0xF800, 6), (word_at 0 0xFE00, 9)]"

definition is_private4 :: "32 word \<Rightarrow> bool" where
  "is_private4 a \<longleftrightarrow> list_ex (in_net a) private_nets4 \<and> \<not> list_ex (in_net a) private_exceptions4"

datatype ip_reason = Loopback | LinkLocal | PrivateNetwork | ReservedAddress

definition classify4 :: "bool \<Rightarrow> 32 word \<Rightarrow> ip_reason option" where
  "classify4 allow_loopback a =
     (if in_net a (octets 127 0 0 0, 8) then (if allow_loopback then None else Some Loopback)
      else if in_net a (octets 169 254 0 0, 16) then Some LinkLocal
      else if is_private4 a then Some PrivateNetwork
      else if in_net a (octets 240 0 0 0, 4) \<or> in_net a (octets 224 0 0 0, 4) \<or> a = 0 then Some ReservedAddress
      else None)"

definition classify6 :: "bool \<Rightarrow> 128 word \<Rightarrow> ip_reason option" where
  "classify6 allow_loopback a =
     (if a = 1 then (if allow_loopback then None else Some Loopback)
      else if in_net a (word_at 0 0xFE80, 10) then Some LinkLocal
      else if list_ex (in_net a) private_nets6 \<and> \<not> list_ex (in_net a) private_exceptions6 then Some PrivateNetwork
      else if list_ex (in_net a) reserved_nets6 \<or> in_net a (word_at 0 0xFF00, 8) \<or> a = 0 then Some ReservedAddress
      else None)"

text \<open>\<open>_classify_ip\<close>: the reason an address is not public, if it is not.\<close>

fun classify_ip :: "bool \<Rightarrow> ip \<Rightarrow> ip_reason option" where
  "classify_ip allow_loopback (V4 a) = classify4 allow_loopback a"
| "classify_ip allow_loopback (V6 a) =
     (if drop_bit 32 a = 0xFFFF then classify4 allow_loopback (ucast a) else classify6 allow_loopback a)"

subsection \<open>URLs\<close>

record parsed_url =
  pu_scheme :: string
  pu_hostname :: "string option"
  pu_username :: "string option"
  pu_port :: "nat option option"
  pu_path :: string
  pu_params :: string
  pu_query :: string
  pu_fragment :: string

text \<open>The parts of the environment that are not this code; a \<open>None\<close> of a parser is an exception.\<close>

record net_env =
  ne_allow_loopback :: bool
  ne_urlparse :: "string \<Rightarrow> parsed_url option"
  ne_ip :: "string \<Rightarrow> ip option"
  ne_str :: "ip \<Rightarrow> string"
  ne_lookup :: "nat \<Rightarrow> string \<Rightarrow> ip list option"
  ne_join :: "string \<Rightarrow> string \<Rightarrow> string option"
  ne_markdown :: "string \<Rightarrow> string option"

definition ALLOWED_SCHEMES :: "string list" where "ALLOWED_SCHEMES = [''http'', ''https'']"

definition INTERNAL_SUFFIXES :: "string list" where
  "INTERNAL_SUFFIXES = [''.internal'', ''.local'', ''.localdomain'', ''.cluster.local'']"

definition USES_NETLOC :: "string list" where
  "USES_NETLOC =
     [[], ''ftp'', ''http'', ''gopher'', ''nntp'', ''telnet'', ''imap'', ''wais'', ''file'', ''mms'', ''https'', ''shttp'',
      ''snews'', ''prospero'', ''rtsp'', ''rtsps'', ''rtspu'', ''rsync'', ''svn'', ''svn+ssh'', ''sftp'', ''nfs'', ''git'',
      ''git+ssh'', ''ws'', ''wss'', ''itms-services'']"

text \<open>\<open>urllib.parse.urlunparse\<close>.\<close>

definition urlunparse :: "string \<Rightarrow> string \<Rightarrow> string \<Rightarrow> string \<Rightarrow> string \<Rightarrow> string \<Rightarrow> string" where
  "urlunparse scheme netloc path params query fragment =
     (let url = (if params = [] then path else path @ '';'' @ params);
          url = (if netloc \<noteq> [] then ''//'' @ netloc @ (if url \<noteq> [] \<and> \<not> starts_with url ''/'' then ''/'' else []) @ url
                 else if starts_with url ''//'' then ''//'' @ url
                 else if scheme \<noteq> [] \<and> scheme \<in> set USES_NETLOC \<and> (url = [] \<or> starts_with url ''/'') then ''//'' @ url
                 else url);
          url = (if scheme = [] then url else scheme @ '':'' @ url);
          url = (if query = [] then url else url @ ''?'' @ query)
      in if fragment = [] then url else url @ ''#'' @ fragment)"

text \<open>\<open>parsed.port\<close> where it is read for its truth value: absent and zero count as no port.\<close>

definition with_port :: "string \<Rightarrow> nat option \<Rightarrow> string" where
  "with_port netloc port = (case port of Some (Suc n) \<Rightarrow> netloc @ '':'' @ show_nat (Suc n) | _ \<Rightarrow> netloc)"

definition pinned_url :: "parsed_url \<Rightarrow> string \<Rightarrow> string option" where
  "pinned_url parsed address =
     (let literal = (if CHR '':'' \<in> set address then ''['' @ address @ '']'' else address) in
      case pu_port parsed of
        None \<Rightarrow> None
      | Some port \<Rightarrow>
          Some (urlunparse (pu_scheme parsed) (with_port literal port) (pu_path parsed) (pu_params parsed)
                  (pu_query parsed) (pu_fragment parsed)))"

subsection \<open>The guard\<close>

datatype fetch_denial =
    MalformedUrl
  | SchemeNotAllowed string
  | NoHost
  | InternalNamespace string
  | LiteralAddress ip_reason
  | CouldNotResolve string
  | NoAddresses string
  | ResolvedAddress ip_reason string

record fetch_target =
  ft_host :: string
  ft_address :: string
  ft_connect_url :: string

datatype guard_answer = Denied fetch_denial | Approved fetch_target | PortRaised

definition rstrip_dots :: "string \<Rightarrow> string" where
  "rstrip_dots s = rev (dropWhile (\<lambda>c. c = CHR ''.'') (rev s))"

definition first_reason :: "bool \<Rightarrow> ip list \<Rightarrow> ip_reason option" where
  "first_reason allow_loopback addresses =
     (case List.map_filter (classify_ip allow_loopback) addresses of [] \<Rightarrow> None | r # _ \<Rightarrow> Some r)"

definition resolved_target :: "net_env \<Rightarrow> parsed_url \<Rightarrow> string \<Rightarrow> ip list option \<Rightarrow> guard_answer" where
  "resolved_target env parsed lowered found =
     (case found of
        None \<Rightarrow> Denied (CouldNotResolve lowered)
      | Some [] \<Rightarrow> Denied (NoAddresses lowered)
      | Some (a # as) \<Rightarrow>
          (case first_reason (ne_allow_loopback env) (a # as) of
             Some r \<Rightarrow> Denied (ResolvedAddress r lowered)
           | None \<Rightarrow>
               (case pinned_url parsed (ne_str env a) of
                  None \<Rightarrow> PortRaised
                | Some u \<Rightarrow> Approved \<lparr>ft_host = lowered, ft_address = ne_str env a, ft_connect_url = u\<rparr>)))"

text \<open>The answer, and the number of questions the name server has been asked afterwards.\<close>

definition resolve_fetch_target :: "net_env \<Rightarrow> string \<Rightarrow> nat \<Rightarrow> guard_answer \<times> nat" where
  "resolve_fetch_target env url t =
     (case ne_urlparse env url of
        None \<Rightarrow> (Denied MalformedUrl, t)
      | Some parsed \<Rightarrow>
          if lower (pu_scheme parsed) \<notin> set ALLOWED_SCHEMES then (Denied (SchemeNotAllowed (pu_scheme parsed)), t)
          else if str_or (pu_hostname parsed) [] = [] then (Denied NoHost, t)
          else
            (let lowered = rstrip_dots (lower (str_or (pu_hostname parsed) [])) in
             if list_ex (ends_with lowered) INTERNAL_SUFFIXES then (Denied (InternalNamespace lowered), t)
             else (case ne_ip env lowered of
                 Some a \<Rightarrow>
                   ((case classify_ip (ne_allow_loopback env) a of
                       Some r \<Rightarrow> Denied (LiteralAddress r)
                     | None \<Rightarrow> Approved \<lparr>ft_host = lowered, ft_address = ne_str env a, ft_connect_url = url\<rparr>), t)
               | None \<Rightarrow> (resolved_target env parsed lowered (ne_lookup env t lowered), Suc t))))"

subsection \<open>What is logged of a URL\<close>

definition split_pairs :: "string \<Rightarrow> string list" where
  "split_pairs query = filter (\<lambda>p. p \<noteq> []) (split_on (CHR ''&'') query)"

definition pair_key :: "string \<Rightarrow> string" where
  "pair_key p = hd (split_on (CHR ''='') p)"

definition redacted_query :: "string \<Rightarrow> string" where
  "redacted_query query =
     (if query = [] then []
      else join ''&'' (map (\<lambda>k. k @ ''=<redacted>'') (sort (remdups (map pair_key (split_pairs query))))))"

text \<open>\<open>None\<close> is the exception that reading the port raises.\<close>

definition redact_url :: "net_env \<Rightarrow> string \<Rightarrow> string option" where
  "redact_url env url =
     (case ne_urlparse env url of
        None \<Rightarrow> Some ''<unparseable url>''
      | Some parsed \<Rightarrow>
          (case pu_port parsed of
             None \<Rightarrow> None
           | Some port \<Rightarrow>
               (let host = str_or (pu_hostname parsed) [];
                    netloc = with_port (if str_or (pu_username parsed) [] \<noteq> [] then ''<redacted>@'' @ host else host) port
                in Some (urlunparse (pu_scheme parsed) netloc (pu_path parsed) [] (redacted_query (pu_query parsed)) []))))"

subsection \<open>Fetching\<close>

definition MAX_REDIRECT_HOPS :: nat where "MAX_REDIRECT_HOPS = 20"
definition WEB_FETCH_MAX_CALLS_PER_TURN :: nat where "WEB_FETCH_MAX_CALLS_PER_TURN = 10"

record http_request =
  rq_url :: string
  rq_host :: string
  rq_sni :: string

record http_response =
  rs_redirect :: bool
  rs_location :: string
  rs_status :: nat
  rs_content_type :: string
  rs_chunks :: "string list"

datatype fetch_outcome =
    FetchDenied string fetch_denial
  | NoRedirectTarget nat
  | RedirectDenied string fetch_denial
  | HttpStatus nat string
  | UnsupportedType string
  | Page string
  | TooManyRedirects
  | FetchRaised

definition TEXTUAL_CONTENT_TYPES :: "string list" where
  "TEXTUAL_CONTENT_TYPES = [''text/'', ''json'', ''xml'', ''javascript'']"

text \<open>\<open>_read_capped\<close>: chunks are taken until the cap is reached, then cut to it.\<close>

fun read_chunks :: "nat \<Rightarrow> string list \<Rightarrow> string \<Rightarrow> string" where
  "read_chunks cap [] acc = acc"
| "read_chunks cap (c # cs) acc = (if cap \<le> length (acc @ c) then acc @ c else read_chunks cap cs (acc @ c))"

definition read_capped :: "nat \<Rightarrow> string list \<Rightarrow> string" where
  "read_capped cap chunks = take cap (read_chunks cap chunks [])"

definition to_markdown :: "net_env \<Rightarrow> nat \<Rightarrow> string \<Rightarrow> string" where
  "to_markdown env cap body = (case ne_markdown env body of None \<Rightarrow> body | Some m \<Rightarrow> take cap m)"

text \<open>\<open>_host_header\<close>; a \<open>None\<close> is an exception.\<close>

definition host_header :: "net_env \<Rightarrow> string \<Rightarrow> string option" where
  "host_header env url =
     (case ne_urlparse env url of
        None \<Rightarrow> None
      | Some parsed \<Rightarrow>
          (case pu_port parsed of None \<Rightarrow> None | Some port \<Rightarrow> Some (with_port (lower (str_or (pu_hostname parsed) [])) port)))"

definition contains :: "string \<Rightarrow> string \<Rightarrow> bool" where
  "contains s t \<longleftrightarrow> find_sub t s \<noteq> None"

definition final_response :: "net_env \<Rightarrow> nat \<Rightarrow> string \<Rightarrow> http_response \<Rightarrow> fetch_outcome" where
  "final_response env cap current resp =
     (let content_type = lower (rs_content_type resp) in
      if 400 \<le> rs_status resp then
        (case redact_url env current of None \<Rightarrow> FetchRaised | Some safe \<Rightarrow> HttpStatus (rs_status resp) safe)
      else if \<not> list_ex (contains content_type) TEXTUAL_CONTENT_TYPES then UnsupportedType content_type
      else
        (let body = read_capped cap (rs_chunks resp) in
         if contains content_type ''html'' then
           (case redact_url env current of None \<Rightarrow> FetchRaised | Some _ \<Rightarrow> Page (to_markdown env cap body))
         else Page body))"

text \<open>
  The loop over the hops; \<open>serve\<close> answers the request made after so many others, or fails. The
  requests made come back with the outcome.
\<close>

fun fetch_hops :: "net_env \<Rightarrow> (nat \<Rightarrow> http_request \<Rightarrow> http_response option) \<Rightarrow> nat \<Rightarrow> nat \<Rightarrow> string \<Rightarrow> fetch_target \<Rightarrow> nat
    \<Rightarrow> http_request list \<Rightarrow> fetch_outcome \<times> http_request list \<times> nat" where
  "fetch_hops env serve cap 0 current target t sent = (TooManyRedirects, sent, t)"
| "fetch_hops env serve cap (Suc n) current target t sent =
     (case host_header env current of
        None \<Rightarrow> (FetchRaised, sent, t)
      | Some h \<Rightarrow>
          (let rq = \<lparr>rq_url = ft_connect_url target, rq_host = h, rq_sni = ft_host target\<rparr>; sent' = sent @ [rq] in
           case serve (length sent) rq of
             None \<Rightarrow> (FetchRaised, sent', t)
           | Some resp \<Rightarrow>
               if \<not> rs_redirect resp then (final_response env cap current resp, sent', t)
               else if rs_location resp = [] then (NoRedirectTarget (rs_status resp), sent', t)
               else (case ne_join env current (rs_location resp) of
                   None \<Rightarrow> (FetchRaised, sent', t)
                 | Some hop \<Rightarrow>
                     (case resolve_fetch_target env hop t of
                        (PortRaised, t) \<Rightarrow> (FetchRaised, sent', t)
                      | (Denied d, t) \<Rightarrow>
                          ((case redact_url env hop of None \<Rightarrow> FetchRaised | Some safe \<Rightarrow> RedirectDenied safe d), sent', t)
                      | (Approved target', t) \<Rightarrow> fetch_hops env serve cap n hop target' t sent'))))"

definition fetch :: "net_env \<Rightarrow> (nat \<Rightarrow> http_request \<Rightarrow> http_response option) \<Rightarrow> nat \<Rightarrow> string \<Rightarrow> nat
    \<Rightarrow> fetch_outcome \<times> http_request list \<times> nat" where
  "fetch env serve cap url t =
     (case resolve_fetch_target env url t of
        (PortRaised, t) \<Rightarrow> (FetchRaised, [], t)
      | (Denied d, t) \<Rightarrow> ((case redact_url env url of None \<Rightarrow> FetchRaised | Some safe \<Rightarrow> FetchDenied safe d), [], t)
      | (Approved target, t) \<Rightarrow> fetch_hops env serve cap MAX_REDIRECT_HOPS url target t [])"

text \<open>
  The tool with its counter of calls. \<open>late\<close> is how many requests had been made when the time limit
  struck, if it did. The first line of the tool, outside every handler, can raise.
\<close>

datatype tool_answer =
    BudgetExhausted
  | DeniedFor string fetch_denial
  | TimedOut string
  | FetchError string
  | Answer fetch_outcome
  | ToolRaised

definition web_fetch :: "net_env \<Rightarrow> (nat \<Rightarrow> http_request \<Rightarrow> http_response option) \<Rightarrow> nat \<Rightarrow> nat option \<Rightarrow> string \<Rightarrow> nat \<Rightarrow> nat
    \<Rightarrow> tool_answer \<times> http_request list \<times> nat \<times> nat" where
  "web_fetch env serve cap late url calls t =
     (case redact_url env url of
        None \<Rightarrow> (ToolRaised, [], calls, t)
      | Some safe \<Rightarrow>
          if WEB_FETCH_MAX_CALLS_PER_TURN \<le> calls then (BudgetExhausted, [], calls, t)
          else (case resolve_fetch_target env url t of
              (PortRaised, t) \<Rightarrow> (ToolRaised, [], Suc calls, t)
            | (Denied d, t) \<Rightarrow> (DeniedFor safe d, [], Suc calls, t)
            | (Approved _, t) \<Rightarrow>
                (case fetch env serve cap url t of
                   (r, sent, t) \<Rightarrow>
                     (case late of
                        Some k \<Rightarrow> (TimedOut safe, take k sent, Suc calls, t)
                      | None \<Rightarrow> (if r = FetchRaised then FetchError safe else Answer r, sent, Suc calls, t)))))"

subsection \<open>Which IPv4 addresses are public\<close>

lemma unat_octets:
  "a < 256 \<Longrightarrow> b < 256 \<Longrightarrow> c < 256 \<Longrightarrow> d < 256 \<Longrightarrow> unat (octets a b c d) = ((a * 256 + b) * 256 + c) * 256 + d"
  unfolding octets_def by (subst unat_of_nat) simp

lemma in_net_div: "in_net (x :: 32 word) (base, n) \<longleftrightarrow> unat x div 2 ^ (32 - n) = unat base div 2 ^ (32 - n)"
  by (simp only: in_net_def prod.case word_unat_eq_iff unat_drop_bit_eq) (simp add: drop_bit_eq_div)

lemma shift_octet: "(d::nat) < 256 \<Longrightarrow> (x * 256 + d) div (256 * k) = x div k"
  by (simp add: div_mult2_eq)

lemma digit_eq: "(y::nat) < m \<Longrightarrow> x * m + y = k \<longleftrightarrow> x = k div m \<and> y = k mod m"
  by (auto simp: div_mult_self_is_m)

lemma octet_divs:
  fixes a b c d :: nat
  assumes "a < 256" "b < 256" "c < 256" "d < 256"
  shows "(((a * 256 + b) * 256 + c) * 256 + d) div 268435456 = a div 16"
    and "(((a * 256 + b) * 256 + c) * 256 + d) div 16777216 = a"
    and "(((a * 256 + b) * 256 + c) * 256 + d) div 1048576 = a * 16 + b div 16"
    and "(((a * 256 + b) * 256 + c) * 256 + d) div 131072 = a * 128 + b div 2"
    and "(((a * 256 + b) * 256 + c) * 256 + d) div 65536 = a * 256 + b"
    and "(((a * 256 + b) * 256 + c) * 256 + d) div 256 = (a * 256 + b) * 256 + c"
    and "(((a * 256 + b) * 256 + c) * 256 + d) div 2 = ((a * 256 + b) * 256 + c) * 128 + d div 2"
proof -
  show "(((a * 256 + b) * 256 + c) * 256 + d) div 268435456 = a div 16"
    using assms shift_octet [of d "(a * 256 + b) * 256 + c" 1048576] shift_octet [of c "a * 256 + b" 4096] shift_octet [of b a 16] by simp
  show "(((a * 256 + b) * 256 + c) * 256 + d) div 16777216 = a"
    using assms shift_octet [of d "(a * 256 + b) * 256 + c" 65536] shift_octet [of c "a * 256 + b" 256] shift_octet [of b a 1] by simp
  show "(((a * 256 + b) * 256 + c) * 256 + d) div 1048576 = a * 16 + b div 16"
    using assms shift_octet [of d "(a * 256 + b) * 256 + c" 4096] shift_octet [of c "a * 256 + b" 16] by simp
  show "(((a * 256 + b) * 256 + c) * 256 + d) div 131072 = a * 128 + b div 2"
    using assms shift_octet [of d "(a * 256 + b) * 256 + c" 512] shift_octet [of c "a * 256 + b" 2] by simp
  show "(((a * 256 + b) * 256 + c) * 256 + d) div 65536 = a * 256 + b"
    using assms shift_octet [of d "(a * 256 + b) * 256 + c" 256] shift_octet [of c "a * 256 + b" 1] by simp
  show "(((a * 256 + b) * 256 + c) * 256 + d) div 256 = (a * 256 + b) * 256 + c"
    using assms shift_octet [of d "(a * 256 + b) * 256 + c" 1] by simp
  show "(((a * 256 + b) * 256 + c) * 256 + d) div 2 = ((a * 256 + b) * 256 + c) * 128 + d div 2"
    using assms  by simp
qed

lemma octet_nets:
  assumes "a < 256" "b < 256" "c < 256" "d < 256"
  shows "in_net (octets a b c d) (octets 0 0 0 0, 8) \<longleftrightarrow> a = 0"
    and "in_net (octets a b c d) (octets 10 0 0 0, 8) \<longleftrightarrow> a = 10"
    and "in_net (octets a b c d) (octets 127 0 0 0, 8) \<longleftrightarrow> a = 127"
    and "in_net (octets a b c d) (octets 169 254 0 0, 16) \<longleftrightarrow> a = 169 \<and> b = 254"
    and "in_net (octets a b c d) (octets 172 16 0 0, 12) \<longleftrightarrow> a = 172 \<and> 16 \<le> b \<and> b < 32"
    and "in_net (octets a b c d) (octets 192 0 0 0, 24) \<longleftrightarrow> a = 192 \<and> b = 0 \<and> c = 0"
    and "in_net (octets a b c d) (octets 192 0 0 170, 31) \<longleftrightarrow> a = 192 \<and> b = 0 \<and> c = 0 \<and> (d = 170 \<or> d = 171)"
    and "in_net (octets a b c d) (octets 192 0 2 0, 24) \<longleftrightarrow> a = 192 \<and> b = 0 \<and> c = 2"
    and "in_net (octets a b c d) (octets 192 168 0 0, 16) \<longleftrightarrow> a = 192 \<and> b = 168"
    and "in_net (octets a b c d) (octets 198 18 0 0, 15) \<longleftrightarrow> a = 198 \<and> (b = 18 \<or> b = 19)"
    and "in_net (octets a b c d) (octets 198 51 100 0, 24) \<longleftrightarrow> a = 198 \<and> b = 51 \<and> c = 100"
    and "in_net (octets a b c d) (octets 203 0 113 0, 24) \<longleftrightarrow> a = 203 \<and> b = 0 \<and> c = 113"
    and "in_net (octets a b c d) (octets 240 0 0 0, 4) \<longleftrightarrow> 240 \<le> a"
    and "in_net (octets a b c d) (octets 255 255 255 255, 32) \<longleftrightarrow> a = 255 \<and> b = 255 \<and> c = 255 \<and> d = 255"
    and "in_net (octets a b c d) (octets 192 0 0 9, 32) \<longleftrightarrow> a = 192 \<and> b = 0 \<and> c = 0 \<and> d = 9"
    and "in_net (octets a b c d) (octets 192 0 0 10, 32) \<longleftrightarrow> a = 192 \<and> b = 0 \<and> c = 0 \<and> d = 10"
    and "in_net (octets a b c d) (octets 224 0 0 0, 4) \<longleftrightarrow> 224 \<le> a \<and> a < 240"
    and "octets a b c d = 0 \<longleftrightarrow> a = 0 \<and> b = 0 \<and> c = 0 \<and> d = 0"
proof -
  note u = unat_octets [OF assms] and d = octet_divs [OF assms]
  have small: "b div 16 < 16" "b div 2 < 128" "d div 2 < 128" using assms by simp_all
  have ranges: "b div 16 = Suc 0 \<longleftrightarrow> 16 \<le> b \<and> b < 32" "b div 2 = 9 \<longleftrightarrow> b = 18 \<or> b = 19" "d div 2 = 85 \<longleftrightarrow> d = 170 \<or> d = 171"
    "a div 16 = 15 \<longleftrightarrow> 240 \<le> a" "a div 16 = 14 \<longleftrightarrow> 224 \<le> a \<and> a < 240"
    using assms by auto
  show "in_net (octets a b c d) (octets 0 0 0 0, 8) \<longleftrightarrow> a = 0"
    using assms small by (simp add: in_net_div u d unat_octets digit_eq ranges del: distrib_right_numeral)
  show "in_net (octets a b c d) (octets 10 0 0 0, 8) \<longleftrightarrow> a = 10"
    using assms small by (simp add: in_net_div u d unat_octets digit_eq ranges del: distrib_right_numeral)
  show "in_net (octets a b c d) (octets 127 0 0 0, 8) \<longleftrightarrow> a = 127"
    using assms small by (simp add: in_net_div u d unat_octets digit_eq ranges del: distrib_right_numeral)
  show "in_net (octets a b c d) (octets 169 254 0 0, 16) \<longleftrightarrow> a = 169 \<and> b = 254"
    using assms small by (simp add: in_net_div u d unat_octets digit_eq ranges del: distrib_right_numeral)
  show "in_net (octets a b c d) (octets 172 16 0 0, 12) \<longleftrightarrow> a = 172 \<and> 16 \<le> b \<and> b < 32"
    using assms small by (simp add: in_net_div u d unat_octets digit_eq ranges del: distrib_right_numeral)
  show "in_net (octets a b c d) (octets 192 0 0 0, 24) \<longleftrightarrow> a = 192 \<and> b = 0 \<and> c = 0"
    using assms small by (simp add: in_net_div u d unat_octets digit_eq ranges del: distrib_right_numeral)
  show "in_net (octets a b c d) (octets 192 0 0 170, 31) \<longleftrightarrow> a = 192 \<and> b = 0 \<and> c = 0 \<and> (d = 170 \<or> d = 171)"
    using assms small by (simp add: in_net_div u d unat_octets digit_eq ranges del: distrib_right_numeral)
  show "in_net (octets a b c d) (octets 192 0 2 0, 24) \<longleftrightarrow> a = 192 \<and> b = 0 \<and> c = 2"
    using assms small by (simp add: in_net_div u d unat_octets digit_eq ranges del: distrib_right_numeral)
  show "in_net (octets a b c d) (octets 192 168 0 0, 16) \<longleftrightarrow> a = 192 \<and> b = 168"
    using assms small by (simp add: in_net_div u d unat_octets digit_eq ranges del: distrib_right_numeral)
  show "in_net (octets a b c d) (octets 198 18 0 0, 15) \<longleftrightarrow> a = 198 \<and> (b = 18 \<or> b = 19)"
    using assms small by (simp add: in_net_div u d unat_octets digit_eq ranges del: distrib_right_numeral)
  show "in_net (octets a b c d) (octets 198 51 100 0, 24) \<longleftrightarrow> a = 198 \<and> b = 51 \<and> c = 100"
    using assms small by (simp add: in_net_div u d unat_octets digit_eq ranges del: distrib_right_numeral)
  show "in_net (octets a b c d) (octets 203 0 113 0, 24) \<longleftrightarrow> a = 203 \<and> b = 0 \<and> c = 113"
    using assms small by (simp add: in_net_div u d unat_octets digit_eq ranges del: distrib_right_numeral)
  show "in_net (octets a b c d) (octets 240 0 0 0, 4) \<longleftrightarrow> 240 \<le> a"
    using assms small by (simp add: in_net_div u d unat_octets digit_eq ranges del: distrib_right_numeral)
  show "in_net (octets a b c d) (octets 255 255 255 255, 32) \<longleftrightarrow> a = 255 \<and> b = 255 \<and> c = 255 \<and> d = 255"
    using assms small by (simp add: in_net_div u d unat_octets digit_eq ranges del: distrib_right_numeral)
  show "in_net (octets a b c d) (octets 192 0 0 9, 32) \<longleftrightarrow> a = 192 \<and> b = 0 \<and> c = 0 \<and> d = 9"
    using assms small by (simp add: in_net_div u d unat_octets digit_eq ranges del: distrib_right_numeral)
  show "in_net (octets a b c d) (octets 192 0 0 10, 32) \<longleftrightarrow> a = 192 \<and> b = 0 \<and> c = 0 \<and> d = 10"
    using assms small by (simp add: in_net_div u d unat_octets digit_eq ranges del: distrib_right_numeral)
  show "in_net (octets a b c d) (octets 224 0 0 0, 4) \<longleftrightarrow> 224 \<le> a \<and> a < 240"
    using assms small by (simp add: in_net_div u d unat_octets digit_eq ranges del: distrib_right_numeral)
  show "octets a b c d = 0 \<longleftrightarrow> a = 0 \<and> b = 0 \<and> c = 0 \<and> d = 0"
    using u by (auto simp: word_unat_eq_iff)
qed

text \<open>The textual blocks that the tables of the library amount to.\<close>

definition special_block :: "nat \<Rightarrow> nat \<Rightarrow> nat \<Rightarrow> nat \<Rightarrow> bool" where
  "special_block a b c d \<longleftrightarrow>
     a = 0 \<or> a = 10 \<or> (a = 172 \<and> 16 \<le> b \<and> b < 32) \<or> (a = 192 \<and> b = 168)
     \<or> (a = 192 \<and> b = 0 \<and> (c = 2 \<or> (c = 0 \<and> d \<noteq> 9 \<and> d \<noteq> 10)))
     \<or> (a = 198 \<and> (b = 18 \<or> b = 19 \<or> (b = 51 \<and> c = 100))) \<or> (a = 203 \<and> b = 0 \<and> c = 113) \<or> 224 \<le> a"

text \<open>
  An IPv4 address passes the classification exactly when it is in none of the special blocks,
  is not link-local, and is no loopback address unless the operator allows those; nothing else is
  refused, the shared address space of carriers in particular.
\<close>

theorem classify4_exact:
  fixes a b c d :: "8 word"
  shows "classify_ip allow (V4 (octets (unat a) (unat b) (unat c) (unat d))) = None \<longleftrightarrow>
    \<not> special_block (unat a) (unat b) (unat c) (unat d) \<and> \<not> (unat a = 169 \<and> unat b = 254) \<and> (allow \<or> unat a \<noteq> 127)"
proof -
  define A B C D where n: "A = unat a" "B = unat b" "C = unat c" "D = unat d"
  have bounds: "A < 256" "B < 256" "C < 256" "D < 256"
    using unsigned_less [of a] unsigned_less [of b] unsigned_less [of c] unsigned_less [of d] by (simp_all add: n)
  have "classify4 allow (octets A B C D) = None \<longleftrightarrow>
    \<not> special_block A B C D \<and> \<not> (A = 169 \<and> B = 254) \<and> (allow \<or> A \<noteq> 127)"
    using bounds
    by (auto simp: classify4_def is_private4_def private_nets4_def private_exceptions4_def special_block_def octet_nets [OF bounds])
  then show ?thesis by (simp add: n)
qed

text \<open>An address of the shared address space, where a cloud provider keeps its metadata endpoint.\<close>

lemma shared_space_passes: "classify_ip False (V4 (octets 100 100 100 200)) = None"
  using classify4_exact [of False "100" "100" "100" "200"] by (simp add: special_block_def)

subsection \<open>Every connection is to a vetted destination\<close>

text \<open>
  A request is vetted when some URL passed the guard for it: it is sent to the URL itself if the
  host is a literal public address, and otherwise to the first of the addresses the name server
  gave, all of them public; the header and the name for TLS are those of that URL.
\<close>

definition public_address :: "net_env \<Rightarrow> ip \<Rightarrow> bool" where
  "public_address env a \<longleftrightarrow> classify_ip (ne_allow_loopback env) a = None"

definition vetted_target :: "net_env \<Rightarrow> string \<Rightarrow> fetch_target \<Rightarrow> bool" where
  "vetted_target env url tg \<longleftrightarrow>
     (\<exists>parsed. ne_urlparse env url = Some parsed \<and> lower (pu_scheme parsed) \<in> set ALLOWED_SCHEMES
        \<and> ft_host tg = rstrip_dots (lower (str_or (pu_hostname parsed) []))
        \<and> \<not> list_ex (ends_with (ft_host tg)) INTERNAL_SUFFIXES
        \<and> (case ne_ip env (ft_host tg) of
             Some a \<Rightarrow> public_address env a \<and> ft_connect_url tg = url
           | None \<Rightarrow> (\<exists>t a as. ne_lookup env t (ft_host tg) = Some (a # as) \<and> list_all (public_address env) (a # as)
                \<and> pinned_url parsed (ne_str env a) = Some (ft_connect_url tg))))"

definition vetted_request :: "net_env \<Rightarrow> http_request \<Rightarrow> bool" where
  "vetted_request env rq \<longleftrightarrow>
     (\<exists>url tg. vetted_target env url tg \<and> rq_url rq = ft_connect_url tg \<and> rq_sni rq = ft_host tg
        \<and> host_header env url = Some (rq_host rq))"

lemma first_reason_None: "first_reason b as = None \<longleftrightarrow> list_all (\<lambda>a. classify_ip b a = None) as"
  by (induction as) (auto simp: first_reason_def map_filter_simps split: option.splits)

lemma approved_is_vetted:
  assumes "resolve_fetch_target env url t = (Approved tg, t')"
  shows "vetted_target env url tg"
proof -
  from assms obtain parsed where p: "ne_urlparse env url = Some parsed" "lower (pu_scheme parsed) \<in> set ALLOWED_SCHEMES"
    by (auto simp: resolve_fetch_target_def split: option.splits if_splits)
  define h where "h = rstrip_dots (lower (str_or (pu_hostname parsed) []))"
  have i: "\<not> list_ex (ends_with h) INTERNAL_SUFFIXES"
    using assms p by (auto simp: resolve_fetch_target_def Let_def h_def split: if_splits)
  show ?thesis
  proof (cases "ne_ip env h")
    case (Some a)
    with assms p i show ?thesis
      by (auto simp: resolve_fetch_target_def vetted_target_def public_address_def Let_def h_def [symmetric]
          split: if_splits option.splits)
  next
    case None
    with assms p i have r: "resolved_target env parsed h (ne_lookup env t h) = Approved tg"
      by (simp add: resolve_fetch_target_def Let_def h_def [symmetric] split: if_splits)
    then obtain a as where l: "ne_lookup env t h = Some (a # as)"
      by (auto simp: resolved_target_def split: option.splits list.splits)
    with r have "list_all (public_address env) (a # as) \<and> pinned_url parsed (ne_str env a) = Some (ft_connect_url tg) \<and> ft_host tg = h"
      by (auto simp: resolved_target_def first_reason_None public_address_def [abs_def] split: option.splits)
    with p i l None show ?thesis unfolding vetted_target_def h_def by auto
  qed
qed

lemma fetch_hops_vetted:
  "vetted_target env current target \<Longrightarrow> list_all (vetted_request env) sent
    \<Longrightarrow> list_all (vetted_request env) (fst (snd (fetch_hops env serve cap n current target t sent)))
      \<and> length (fst (snd (fetch_hops env serve cap n current target t sent))) \<le> length sent + n"
proof (induction n arbitrary: current target t sent)
  case (Suc n)
  show ?case
  proof (cases "host_header env current")
    case (Some h)
    define rq where "rq = \<lparr>rq_url = ft_connect_url target, rq_host = h, rq_sni = ft_host target\<rparr>"
    have "vetted_request env rq" using Suc.prems Some by (auto simp: vetted_request_def rq_def)
    then have v: "list_all (vetted_request env) (sent @ [rq])" using Suc.prems by simp
    have step: "list_all (vetted_request env) (fst (snd (fetch_hops env serve cap n hop tg t' (sent @ [rq]))))
        \<and> length (fst (snd (fetch_hops env serve cap n hop tg t' (sent @ [rq])))) \<le> Suc (length sent + n)"
      if "resolve_fetch_target env hop t = (Approved tg, t')" for hop tg t'
      using Suc.IH [OF approved_is_vetted [OF that] v, of t'] by simp
    have stop: "list_all (vetted_request env) (sent @ [rq]) \<and> length (sent @ [rq]) \<le> Suc (length sent + n)"
      using v by simp
    show ?thesis
      using step stop by (simp add: Some Let_def rq_def [symmetric] split: option.split prod.split guard_answer.split)
  qed (use Suc.prems in simp)
qed simp

text \<open>
  C11. Whatever the pages, the redirects, the name server and the clock do, a call of the fetch tool
  makes at most twenty requests, and each goes to a vetted destination: under HTTP or HTTPS, no name
  of an internal network, and the connection addresses a literal that was itself classified as public
  together with every other address of the name, so nothing is resolved a second time.
\<close>

theorem fetch_contacts_vetted_only:
  "list_all (vetted_request env) (fst (snd (web_fetch env serve cap late url calls t)))
   \<and> length (fst (snd (web_fetch env serve cap late url calls t))) \<le> MAX_REDIRECT_HOPS"
proof -
  have hops: "list_all (vetted_request env) (fst (snd (fetch env serve cap url t')))
      \<and> length (fst (snd (fetch env serve cap url t'))) \<le> MAX_REDIRECT_HOPS" for t'
    using fetch_hops_vetted [OF approved_is_vetted, of env url t' _ _ "[]" serve cap MAX_REDIRECT_HOPS]
    by (auto simp: fetch_def split: prod.split guard_answer.split)
  have cut: "list_all P (take k xs)" if "list_all P xs" for P k and xs :: "http_request list"
    using that by (auto simp: list_all_iff dest: in_set_takeD)
  show ?thesis
    using hops cut le_trans [OF min.cobounded1] unfolding web_fetch_def
    by (auto split: option.split prod.split guard_answer.split) (metis fst_conv min.coboundedI1 snd_conv)+
qed

subsection \<open>Sizes, logs and failures\<close>

lemma page_capped: "final_response env cap url resp = Page p \<Longrightarrow> length p \<le> cap"
  by (auto simp: final_response_def to_markdown_def read_capped_def Let_def split: option.splits if_splits)

lemma hops_page_capped: "fst (fetch_hops env serve cap n current target t sent) = Page p \<Longrightarrow> length p \<le> cap"
proof (induction n arbitrary: current target t sent)
  case (Suc n)
  then show ?case
    by (auto simp: Let_def page_capped split: option.splits if_splits prod.splits guard_answer.splits)
qed simp

text \<open>
  A page that the tool hands to the model is at most the cap long, after the conversion to
  Markdown too, and the counter of the turn never passes the budget by a call.
\<close>

theorem fetched_page_capped:
  "(case web_fetch env serve cap late url calls t of
      (Answer (Page p), _, calls', _) \<Rightarrow> length p \<le> cap \<and> calls' = Suc calls \<and> calls < WEB_FETCH_MAX_CALLS_PER_TURN
    | (_, sent, calls', _) \<Rightarrow> calls' = calls \<and> sent = [] \<or> calls' = Suc calls \<and> calls < WEB_FETCH_MAX_CALLS_PER_TURN)"
proof -
  have "length p \<le> cap" if "fetch env serve cap url t' = (Page p, sent, t'')" for p t' sent t''
    using that hops_page_capped [of env serve cap MAX_REDIRECT_HOPS url _ _ "[]" p]
    by (auto simp: fetch_def split: prod.splits guard_answer.splits option.splits) (metis fst_conv)+
  then show ?thesis
    by (auto simp: web_fetch_def split: prod.split option.split guard_answer.split tool_answer.split fetch_outcome.split)
qed

text \<open>What of a URL may be seen in a log.\<close>

definition logged_view :: "parsed_url \<Rightarrow> string \<times> string \<times> bool \<times> nat option option \<times> string \<times> bool \<times> string set" where
  "logged_view p =
     (pu_scheme p, str_or (pu_hostname p) [], str_or (pu_username p) [] = [], pu_port p, pu_path p,
      pu_query p = [], pair_key ` set (split_pairs (pu_query p)))"

lemma redacted_query_view:
  "(q = []) = (q' = []) \<Longrightarrow> pair_key ` set (split_pairs q) = pair_key ` set (split_pairs q') \<Longrightarrow> redacted_query q = redacted_query q'"
  by (simp add: redacted_query_def flip: sorted_list_of_set_sort_remdups)

text \<open>
  Redaction is an information barrier: two URLs that agree on scheme, host, port, path, on
  having a user name and a query, and on the names of the parameters are logged as the same text,
  whatever their user names, passwords, parameter values and fragments are.
\<close>

theorem redaction_hides_values:
  assumes "ne_urlparse env u = Some p" and "ne_urlparse env u' = Some p'" and "logged_view p = logged_view p'"
  shows "redact_url env u = redact_url env u'"
proof -
  from assms(3) have v: "pu_scheme p = pu_scheme p'" "str_or (pu_hostname p) [] = str_or (pu_hostname p') []"
      "(str_or (pu_username p) [] = []) = (str_or (pu_username p') [] = [])" "pu_port p = pu_port p'" "pu_path p = pu_path p'"
    and "redacted_query (pu_query p) = redacted_query (pu_query p')"
    by (auto simp: logged_view_def intro: redacted_query_view)
  then show ?thesis using assms(1,2) by (simp add: redact_url_def Let_def split: option.split)
qed

definition sample_url :: "string \<Rightarrow> string \<Rightarrow> parsed_url" where
  "sample_url user query =
     \<lparr>pu_scheme = ''https'', pu_hostname = Some ''example.org'', pu_username = Some user, pu_port = Some None,
      pu_path = ''/docs'', pu_params = [], pu_query = query, pu_fragment = []\<rparr>"

definition sample_net :: net_env where
  "sample_net =
     \<lparr>ne_allow_loopback = False,
      ne_urlparse = (\<lambda>u. if u = ''a'' then Some (sample_url ''alice'' ''key=sk-1&q=x'') else Some (sample_url ''bob'' ''q=y&key=sk-2'')),
      ne_ip = (\<lambda>_. None), ne_str = (\<lambda>_. []), ne_lookup = (\<lambda>_ _. None), ne_join = (\<lambda>_ _. None), ne_markdown = (\<lambda>_. None)\<rparr>"

lemma redaction_hides_values_witness:
  "redact_url sample_net ''a'' = redact_url sample_net ''b''
   \<and> redact_url sample_net ''a'' = Some ''https://<redacted>@example.org/docs?key=<redacted>&q=<redacted>''"
proof
  show "redact_url sample_net ''a'' = redact_url sample_net ''b''"
    by (rule redaction_hides_values [of _ _ "sample_url ''alice'' ''key=sk-1&q=x''" _ "sample_url ''bob'' ''q=y&key=sk-2''"])
      (simp_all add: sample_net_def logged_view_def sample_url_def split_pairs_def pair_key_def insert_commute)
  show "redact_url sample_net ''a'' = Some ''https://<redacted>@example.org/docs?key=<redacted>&q=<redacted>''"
    by code_simp
qed

text \<open>A parameter without an equals sign is its own name, so a bare token is logged as it is.\<close>

lemma bare_token_logged: "redacted_query ''sk-secret'' = ''sk-secret=<redacted>''"
  by code_simp

text \<open>A port that cannot be read makes the guard raise after it has approved the addresses, and the tool before it counts the call.\<close>

lemma bad_port_raises:
  assumes "pu_port p = None"
  shows "ne_urlparse env url = Some p \<Longrightarrow> web_fetch env serve cap late url calls t = (ToolRaised, [], calls, t)"
    and "list_all (public_address env) (a # as) \<Longrightarrow> resolved_target env p h (Some (a # as)) = PortRaised"
  using assms first_reason_None [of "ne_allow_loopback env" "a # as"]
  by (simp_all add: web_fetch_def redact_url_def resolved_target_def pinned_url_def public_address_def [abs_def])

end
