(* ===== verification/Rules.thy ===== *)
theory Rules
  imports Json PyPath "HOL-Library.Char_ord" "HOL-Library.List_Lexorder" "HOL-Library.Product_Lexorder" "HOL-Library.Multiset"
begin

text \<open>
  The resolver of project rules (\<open>core/rules.py\<close>): one file of rules per workspace and one per
  user, composed with the workspace's first, formatted for the prompt, its exclude patterns
  compiled for the read firewall, and all of it cached under the paths and modification times of
  the files that exist.

  The file system maps a path to the file there; a file's body is what \<open>json.load\<close> makes of it.
  The order in which Python iterates over a set of texts differs from one process to the next, so
  it is the argument \<open>order\<close>. The library \<open>pathspec\<close> is two parameters: which lists of patterns it
  accepts, and which paths a list matches. \<open>str\<close> and \<open>json.dumps\<close> of a value that is not a text
  are parameters too.
\<close>

declare map_of_eq_Some_iff [simp del] Some_eq_map_of_iff [simp del]

subsection \<open>Files, environment and the singleton\<close>

text \<open>\<open>_load_one\<close> turns an \<open>OSError\<close> and a JSON error into \<open>None\<close>; bytes that are not UTF-8 raise.\<close>

datatype rule_body = Parsed json | Unparsable | Undecodable

record rule_file =
  rf_mtime :: rat
  rf_body :: rule_body

type_synonym rule_store = "string \<Rightarrow> rule_file option"

record rule_env =
  re_home :: string
  re_order :: "string list \<Rightarrow> string list"
  re_str :: "json \<Rightarrow> string"
  re_dumps :: "json \<Rightarrow> string"
  re_accepts :: "string list \<Rightarrow> bool"
  re_matches :: "string list \<Rightarrow> string \<Rightarrow> bool"

record rule_manager =
  rm_key :: "(string \<times> rat) list option"
  rm_formatted :: string
  rm_exclude :: "string list option"

datatype rule_error = UnicodeDecodeError | BadPattern

definition fresh_manager :: rule_manager where
  "fresh_manager = \<lparr>rm_key = None, rm_formatted = [], rm_exclude = None\<rparr>"

text \<open>\<open>reset\<close>.\<close>

definition reset_rules :: "rule_manager \<Rightarrow> rule_manager" where
  "reset_rules m = m\<lparr>rm_key := None, rm_formatted := [], rm_exclude := None\<rparr>"

subsection \<open>Where the files are\<close>

definition RULES_FILENAME :: string where "RULES_FILENAME = ''.ailienant.json''"
definition RULES_SUBDIR :: string where "RULES_SUBDIR = ''.ailienant''"

text \<open>\<open>str(Path(base) / a / b)\<close>.\<close>

definition path_under :: "string \<Rightarrow> string list \<Rightarrow> string" where
  "path_under base names =
     (if starts_with base ''//'' \<and> \<not> starts_with base ''///'' then ''//'' else if starts_with base ''/'' then ''/'' else [])
     @ join ''/'' (path_parts base @ names)"

definition local_sub :: "string \<Rightarrow> string" where
  "local_sub ws = path_under ws [RULES_SUBDIR, RULES_FILENAME]"

definition local_flat :: "string \<Rightarrow> string" where
  "local_flat ws = path_under ws [RULES_FILENAME]"

definition global_rules_path :: "rule_env \<Rightarrow> string" where
  "global_rules_path env = path_under (re_home env) [RULES_SUBDIR, RULES_FILENAME]"

datatype rule_scope = LocalScope | GlobalScope

definition rule_candidate_paths :: "rule_env \<Rightarrow> rule_store \<Rightarrow> string \<Rightarrow> (rule_scope \<times> string) list" where
  "rule_candidate_paths env fs ws =
     (if ws \<noteq> [] then
        (if fs (local_sub ws) \<noteq> None then [(LocalScope, local_sub ws)]
         else if fs (local_flat ws) \<noteq> None then [(LocalScope, local_flat ws)] else [])
      else [])
     @ (if fs (global_rules_path env) \<noteq> None then [(GlobalScope, global_rules_path env)] else [])"

definition safe_mtime :: "rule_store \<Rightarrow> string \<Rightarrow> rat" where
  "safe_mtime fs p = (case fs p of Some f \<Rightarrow> rf_mtime f | None \<Rightarrow> 0)"

definition load_one :: "rule_store \<Rightarrow> string \<Rightarrow> rule_error + (string, json) dict option" where
  "load_one fs p =
     (case fs p of
        None \<Rightarrow> Inr None
      | Some f \<Rightarrow> (case rf_body f of
            Parsed (JObj d) \<Rightarrow> Inr (Some d)
          | Parsed _ \<Rightarrow> Inr None
          | Unparsable \<Rightarrow> Inr None
          | Undecodable \<Rightarrow> Inl UnicodeDecodeError))"

subsection \<open>Composition\<close>

text \<open>Python's \<open>==\<close>: numbers and booleans compare by value, dictionaries without their order.\<close>

lemma size_entry: "(k, v) \<in> set d \<Longrightarrow> size v \<le> size_list (size_prod (\<lambda>x. 0) size) d"
  by (induction d) auto

lemma size_jget: "size (jget d k) < Suc (size_list (size_prod (\<lambda>x. 0) size) d)"
proof (cases "dget d k")
  case (Some v)
  with size_entry [of k v d] show ?thesis by (auto dest!: map_of_SomeD simp: less_Suc_eq_le)
qed simp

function py_eq :: "json \<Rightarrow> json \<Rightarrow> bool" where
  "py_eq a b =
     (case (a, b) of
        (JNull, JNull) \<Rightarrow> True
      | (JStr s, JStr t) \<Rightarrow> s = t
      | (JArr xs, JArr ys) \<Rightarrow> length xs = length ys \<and> list_all (\<lambda>(x, y). py_eq x y) (zip xs ys)
      | (JObj d, JObj e) \<Rightarrow>
          length d = length e
          \<and> list_all (\<lambda>(k, x). (case dget e k of Some y \<Rightarrow> py_eq x y | None \<Rightarrow> False)) d
      | _ \<Rightarrow> as_number a \<noteq> None \<and> as_number a = as_number b)"
  by pat_completeness auto
termination
  by (relation "measure (\<lambda>(a, b). size a)")
    (auto dest!: set_zip_leftD simp: less_Suc_eq_le size_entry size_list_estimation')

declare py_eq.simps [simp del]

definition py_in :: "json \<Rightarrow> json list \<Rightarrow> bool" where
  "py_in x xs = list_ex (py_eq x) xs"

fun extend_new :: "json list \<Rightarrow> json list \<Rightarrow> json list" where
  "extend_new out [] = out"
| "extend_new out (x # xs) = extend_new (if py_in x out then out else out @ [x]) xs"

definition concat_dedupe :: "json list \<Rightarrow> json list \<Rightarrow> json list" where
  "concat_dedupe ls gs = extend_new ls gs"

text \<open>\<open>set(local.keys()) | set(global_.keys())\<close>, in the order the process iterates over it.\<close>

definition key_union :: "rule_env \<Rightarrow> (string, json) dict \<Rightarrow> (string, json) dict \<Rightarrow> string list" where
  "key_union env a b = re_order env (remdups (dkeys a @ dkeys b))"

function deep_merge :: "rule_env \<Rightarrow> json \<Rightarrow> json \<Rightarrow> json" where
  "deep_merge env l g =
     (case (l, g) of
        (JObj a, JObj b) \<Rightarrow> JObj (map (\<lambda>k. (k, deep_merge env (jget a k) (jget b k))) (key_union env a b))
      | (JArr xs, JArr ys) \<Rightarrow> JArr (concat_dedupe xs ys)
      | _ \<Rightarrow> if l = JNull then g else l)"
  by pat_completeness auto

termination deep_merge
  by (relation "measure (\<lambda>(env, l, g). size l)") (auto simp: size_jget)

declare deep_merge.simps [simp del]

definition merge_exclude_patterns :: "json \<Rightarrow> json \<Rightarrow> json" where
  "merge_exclude_patterns l g =
     (case (l, g) of
        (JArr xs, JArr ys) \<Rightarrow> JArr (concat_dedupe xs ys)
      | _ \<Rightarrow> if l = JNull then g else if g = JNull then l else l)"

definition merge_rules_value :: "rule_env \<Rightarrow> json \<Rightarrow> json \<Rightarrow> json" where
  "merge_rules_value env l g =
     (case (l, g) of
        (JArr xs, JArr ys) \<Rightarrow> JArr (concat_dedupe xs ys)
      | (JObj _, JObj _) \<Rightarrow> deep_merge env l g
      | _ \<Rightarrow> if l = JNull then g else if g = JNull then l else l)"

definition compose_rules :: "rule_env \<Rightarrow> (string, json) dict \<Rightarrow> (string, json) dict \<Rightarrow> (string, json) dict" where
  "compose_rules env l g =
     (if l = [] \<and> g = [] then []
      else if l = [] then g
      else if g = [] then l
      else map (\<lambda>k. (k,
             if k = ''rules'' then merge_rules_value env (jget l k) (jget g k)
             else if k = ''exclude_patterns'' then merge_exclude_patterns (jget l k) (jget g k)
             else deep_merge env (jget l k) (jget g k))) (key_union env l g))"

subsection \<open>Formatting\<close>

definition DEFAULT_RULE :: string where "DEFAULT_RULE = ''Follow standard best practices.''"
definition RULES_HEADER :: string where "RULES_HEADER = ''### Project Instructions:''"

definition str_of :: "rule_env \<Rightarrow> json \<Rightarrow> string" where
  "str_of env v = (case v of JStr s \<Rightarrow> s | _ \<Rightarrow> re_str env v)"

definition rule_line :: "rule_env \<Rightarrow> string \<times> json \<Rightarrow> string" where
  "rule_line env kv =
     ''- '' @ fst kv @ '': '' @
     (case snd kv of JObj _ \<Rightarrow> re_dumps env (snd kv) | JArr _ \<Rightarrow> re_dumps env (snd kv) | v \<Rightarrow> str_of env v)"

definition default_rules :: string where
  "default_rules = RULES_HEADER @ [CHR 0x0A] @ ''- '' @ DEFAULT_RULE"

definition format_rules :: "rule_env \<Rightarrow> (string, json) dict \<Rightarrow> string" where
  "format_rules env d =
     (case jget d ''rules'' of
        JArr (r # rs) \<Rightarrow> RULES_HEADER @ [CHR 0x0A] @ join [CHR 0x0A] (map (\<lambda>r. ''- '' @ str_of env r) (r # rs))
      | JObj (kv # kvs) \<Rightarrow> RULES_HEADER @ [CHR 0x0A] @ join [CHR 0x0A] (map (rule_line env) (kv # kvs))
      | _ \<Rightarrow> default_rules)"

subsection \<open>The cached resolver\<close>

text \<open>The loop over the candidates: a file that does not load leaves its side empty.\<close>

fun load_candidates :: "rule_store \<Rightarrow> (rule_scope \<times> string) list \<Rightarrow> (string, json) dict \<Rightarrow> (string, json) dict
    \<Rightarrow> rule_error + (string, json) dict \<times> (string, json) dict" where
  "load_candidates fs [] l g = Inr (l, g)"
| "load_candidates fs ((scope, p) # cs) l g =
     (case load_one fs p of
        Inl e \<Rightarrow> Inl e
      | Inr None \<Rightarrow> load_candidates fs cs l g
      | Inr (Some d) \<Rightarrow> (case scope of
            LocalScope \<Rightarrow> load_candidates fs cs d g
          | GlobalScope \<Rightarrow> load_candidates fs cs l d))"

definition exclude_lines :: "(string, json) dict \<Rightarrow> string list option" where
  "exclude_lines d =
     (case jget d ''exclude_patterns'' of
        JArr (p # ps) \<Rightarrow> Some (List.map_filter as_text (p # ps))
      | _ \<Rightarrow> None)"

definition cache_key :: "rule_env \<Rightarrow> rule_store \<Rightarrow> string \<Rightarrow> (string \<times> rat) list" where
  "cache_key env fs ws = sort (map (\<lambda>(_, p). (p, safe_mtime fs p)) (rule_candidate_paths env fs ws))"

definition merged_rules :: "rule_env \<Rightarrow> rule_store \<Rightarrow> string \<Rightarrow> rule_error + (string, json) dict" where
  "merged_rules env fs ws =
     (case load_candidates fs (rule_candidate_paths env fs ws) [] [] of
        Inl e \<Rightarrow> Inl e
      | Inr (l, g) \<Rightarrow> Inr (compose_rules env l g))"

text \<open>
  The key and the text are stored before the patterns are compiled, so a list that \<open>pathspec\<close>
  rejects raises with the cache already renewed and the former patterns still in it.
\<close>

definition get_combined_rules :: "rule_env \<Rightarrow> rule_store \<Rightarrow> string \<Rightarrow> rule_manager
    \<Rightarrow> (rule_error + string) \<times> rule_manager" where
  "get_combined_rules env fs ws m =
     (let key = cache_key env fs ws in
      if rm_key m = Some key \<and> rm_formatted m \<noteq> [] then (Inr (rm_formatted m), m)
      else (case merged_rules env fs ws of
          Inl e \<Rightarrow> (Inl e, m)
        | Inr merged \<Rightarrow>
            (let formatted = format_rules env merged;
                 m = m\<lparr>rm_key := Some key, rm_formatted := formatted\<rparr>
             in case exclude_lines merged of
                  None \<Rightarrow> (Inr formatted, m\<lparr>rm_exclude := None\<rparr>)
                | Some ps \<Rightarrow>
                    if re_accepts env ps then (Inr formatted, m\<lparr>rm_exclude := Some ps\<rparr>)
                    else (Inl BadPattern, m))))"

definition is_excluded :: "rule_env \<Rightarrow> rule_store \<Rightarrow> string \<Rightarrow> string \<Rightarrow> rule_manager
    \<Rightarrow> (rule_error + bool) \<times> rule_manager" where
  "is_excluded env fs filepath ws m =
     (case get_combined_rules env fs ws m of
        (Inl e, m) \<Rightarrow> (Inl e, m)
      | (Inr _, m) \<Rightarrow>
          (Inr (case rm_exclude m of None \<Rightarrow> False | Some ps \<Rightarrow> re_matches env ps (fwd filepath)), m))"

subsection \<open>Adding a rule\<close>

text \<open>The rules with a new one, or \<open>None\<close> when it is there already.\<close>

definition with_rule :: "(string, json) dict \<Rightarrow> string \<Rightarrow> (string, json) dict option" where
  "with_rule existing rule =
     (case jget existing ''rules'' of
        JNull \<Rightarrow> Some (dset ''rules'' (JArr [JStr rule]) existing)
      | JArr xs \<Rightarrow>
          if py_in (JStr rule) xs then None else Some (dset ''rules'' (JArr (xs @ [JStr rule])) existing)
      | JObj d \<Rightarrow>
          (let distilled = (case jget d ''distilled'' of JArr xs \<Rightarrow> xs | _ \<Rightarrow> []) in
           if py_in (JStr rule) distilled then None
           else Some (dset ''rules'' (JObj (dset ''distilled'' (JArr (distilled @ [JStr rule])) d)) existing))
      | _ \<Rightarrow> Some (dset ''rules'' (JArr [JStr rule]) existing))"

text \<open>
  What the operating system answers: whether the directory can be made, and the modification time
  of the replaced file, or \<open>None\<close> when the write fails.
\<close>

definition append_local_rule :: "bool \<Rightarrow> rat option \<Rightarrow> rule_store \<Rightarrow> string \<Rightarrow> string \<Rightarrow> rule_manager
    \<Rightarrow> (rule_error + bool) \<times> rule_store \<times> rule_manager" where
  "append_local_rule mkdir_ok written fs ws rule m =
     (let rule_clean = strip rule; target = local_sub ws in
      if ws = [] \<or> rule_clean = [] then (Inr False, fs, m)
      else if \<not> mkdir_ok then (Inr False, fs, m)
      else (case load_one fs target of
          Inl e \<Rightarrow> (Inl e, fs, m)
        | Inr loaded \<Rightarrow>
            (case with_rule (or_else loaded []) rule_clean of
               None \<Rightarrow> (Inr False, fs, m)
             | Some d \<Rightarrow>
                 (case written of
                    None \<Rightarrow> (Inr False, fs, m)
                  | Some t \<Rightarrow>
                      (Inr True, fs(target \<mapsto> \<lparr>rf_mtime = t, rf_body = Parsed (JObj d)\<rparr>), reset_rules m)))))"

subsection \<open>The cache is transparent\<close>

text \<open>
  Modification times identify contents: a path and a time stand for one body.
\<close>

definition obeys :: "(string \<times> rat \<Rightarrow> rule_body) \<Rightarrow> rule_store \<Rightarrow> bool" where
  "obeys content fs \<longleftrightarrow> (\<forall>p f. fs p = Some f \<longrightarrow> rf_body f = content (p, rf_mtime f))"

definition compiles :: "rule_env \<Rightarrow> rule_store \<Rightarrow> string \<Rightarrow> bool" where
  "compiles env fs ws \<longleftrightarrow>
     (case merged_rules env fs ws of
        Inl _ \<Rightarrow> True
      | Inr d \<Rightarrow> (case exclude_lines d of None \<Rightarrow> True | Some ps \<Rightarrow> re_accepts env ps))"

definition coherent :: "rule_env \<Rightarrow> (string \<times> rat \<Rightarrow> rule_body) \<Rightarrow> rule_manager \<Rightarrow> bool" where
  "coherent env content m \<longleftrightarrow>
     rm_key m = None
     \<or> (\<exists>fs ws d. obeys content fs \<and> compiles env fs ws \<and> rm_key m = Some (cache_key env fs ws)
          \<and> merged_rules env fs ws = Inr d
          \<and> rm_formatted m = format_rules env d \<and> rm_exclude m = exclude_lines d)"

text \<open>What is asked of the singleton, and what each question gets as its answer.\<close>

datatype rule_query = IsExcluded string string | CombinedRules string | LearnRule bool "rat option" string string

datatype rule_answer = Verdict "rule_error + bool" | Instructions "rule_error + string" | Learned "rule_error + bool"

fun query_root :: "rule_query \<Rightarrow> string" where
  "query_root (IsExcluded p ws) = ws"
| "query_root (CombinedRules ws) = ws"
| "query_root (LearnRule mkdir_ok written ws rule) = ws"

fun answer_query :: "rule_env \<Rightarrow> rule_store \<Rightarrow> rule_query \<Rightarrow> rule_manager \<Rightarrow> rule_answer \<times> rule_manager" where
  "answer_query env fs (IsExcluded p ws) m = map_prod Verdict id (is_excluded env fs p ws m)"
| "answer_query env fs (CombinedRules ws) m = map_prod Instructions id (get_combined_rules env fs ws m)"
| "answer_query env fs (LearnRule mkdir_ok written ws rule) m =
     (case append_local_rule mkdir_ok written fs ws rule m of (r, fs', m') \<Rightarrow> (Learned r, m'))"

fun queries_run :: "rule_env \<Rightarrow> rule_manager \<Rightarrow> (rule_store \<times> rule_query) list \<Rightarrow> rule_answer list" where
  "queries_run env m [] = []"
| "queries_run env m ((fs, q) # qs) =
     (let (r, m') = answer_query env fs q m in r # queries_run env m' qs)"

lemma format_rules_nonempty [simp]: "format_rules env d \<noteq> []"
  by (auto simp: format_rules_def RULES_HEADER_def default_rules_def split: json.splits list.splits)

definition the_locals :: "rule_env \<Rightarrow> rule_store \<Rightarrow> string \<Rightarrow> string list" where
  "the_locals env fs ws = map snd (filter (\<lambda>(sc, _). sc = LocalScope) (rule_candidate_paths env fs ws))"

lemma candidates_shape:
  obtains ls gs where
    "rule_candidate_paths env fs ws = map (Pair LocalScope) ls @ map (Pair GlobalScope) gs"
    "length ls \<le> 1" "gs = (if fs (global_rules_path env) \<noteq> None then [global_rules_path env] else [])"
    "\<forall>p \<in> set (ls @ gs). fs p \<noteq> None"
proof -
  define ls where "ls = (if ws \<noteq> [] then
        (if fs (local_sub ws) \<noteq> None then [local_sub ws]
         else if fs (local_flat ws) \<noteq> None then [local_flat ws] else []) else [])"
  define gs where "gs = (if fs (global_rules_path env) \<noteq> None then [global_rules_path env] else [])"
  have "rule_candidate_paths env fs ws = map (Pair LocalScope) ls @ map (Pair GlobalScope) gs"
    by (simp add: rule_candidate_paths_def ls_def gs_def)
  moreover have "length ls \<le> 1" "\<forall>p \<in> set (ls @ gs). fs p \<noteq> None"
    by (auto simp: ls_def gs_def split: if_splits)
  ultimately show thesis using gs_def that by blast
qed

lemma two_stamps:
  assumes "mset (map (\<lambda>p. (p, f p)) ls @ map (\<lambda>p. (p, f p)) gs) = mset (map (\<lambda>p. (p, h p)) ls' @ map (\<lambda>p. (p, h p)) gs')"
    and "length ls \<le> 1" "length ls' \<le> 1" "gs \<in> {[], [g]}" "gs' \<in> {[], [g]}"
    and alone: "g \<in> set ls \<Longrightarrow> gs = [g]" "g \<in> set ls' \<Longrightarrow> gs' = [g]"
  shows "ls = ls' \<and> gs = gs' \<and> (\<forall>x \<in> set (ls @ gs). f x = h x)"
proof -
  have L: "ls = [] \<or> (\<exists>a. ls = [a])" and L': "ls' = [] \<or> (\<exists>a. ls' = [a])"
    using assms(2,3) by (auto simp: le_Suc_eq length_Suc_conv)
  show ?thesis
    using L L' assms(1,4,5) alone
    by (elim disjE exE) (auto simp: add_eq_conv_ex)
qed

lemma key_determines_candidates:
  assumes "cache_key env fs ws = cache_key env fs' ws'"
  shows "rule_candidate_paths env fs ws = rule_candidate_paths env fs' ws'
    \<and> (\<forall>(_, p) \<in> set (rule_candidate_paths env fs ws). safe_mtime fs p = safe_mtime fs' p)"
proof -
  obtain ls gs where c: "rule_candidate_paths env fs ws = map (Pair LocalScope) ls @ map (Pair GlobalScope) gs"
      "length ls \<le> 1" "gs = (if fs (global_rules_path env) \<noteq> None then [global_rules_path env] else [])"
      "\<forall>p \<in> set (ls @ gs). fs p \<noteq> None" by (rule candidates_shape)
  obtain ls' gs' where c': "rule_candidate_paths env fs' ws' = map (Pair LocalScope) ls' @ map (Pair GlobalScope) gs'"
      "length ls' \<le> 1" "gs' = (if fs' (global_rules_path env) \<noteq> None then [global_rules_path env] else [])"
      "\<forall>p \<in> set (ls' @ gs'). fs' p \<noteq> None" by (rule candidates_shape)
  have "mset (cache_key env fs ws) = mset (cache_key env fs' ws')" using assms by simp
  then have "mset (map (\<lambda>p. (p, safe_mtime fs p)) ls @ map (\<lambda>p. (p, safe_mtime fs p)) gs)
      = mset (map (\<lambda>p. (p, safe_mtime fs' p)) ls' @ map (\<lambda>p. (p, safe_mtime fs' p)) gs')"
    by (simp add: cache_key_def c(1) c'(1) comp_def)
  then have "ls = ls' \<and> gs = gs' \<and> (\<forall>x \<in> set (ls @ gs). safe_mtime fs x = safe_mtime fs' x)"
  proof (rule two_stamps [OF _ c(2) c'(2), where g = "global_rules_path env"])
    show "gs \<in> {[], [global_rules_path env]}" "gs' \<in> {[], [global_rules_path env]}" by (simp_all add: c(3) c'(3))
    show "gs = [global_rules_path env]" if "global_rules_path env \<in> set ls"
      using c(4) that by (simp add: c(3))
    show "gs' = [global_rules_path env]" if "global_rules_path env \<in> set ls'"
      using c'(4) that by (simp add: c'(3))
  qed
  then show ?thesis by (auto simp: c(1) c'(1))
qed

lemma load_candidates_cong:
  "(\<And>sc p. (sc, p) \<in> set cs \<Longrightarrow> load_one fs p = load_one fs' p)
    \<Longrightarrow> load_candidates fs cs l g = load_candidates fs' cs l g"
proof (induction cs arbitrary: l g)
  case (Cons c cs)
  obtain sc p where c: "c = (sc, p)" by (cases c) auto
  then have "load_one fs p = load_one fs' p" by (intro Cons.prems [of sc]) simp
  moreover have "load_candidates fs cs l g = load_candidates fs' cs l g" for l g
    by (rule Cons.IH) (use Cons.prems in auto)
  ultimately show ?case by (simp add: c split: sum.split option.split rule_scope.split)
qed simp

lemma candidate_exists: "(sc, p) \<in> set (rule_candidate_paths env fs ws) \<Longrightarrow> fs p \<noteq> None"
  by (auto simp: rule_candidate_paths_def split: if_splits)

lemma key_determines_rules:
  assumes key: "cache_key env fs ws = cache_key env fs' ws'" and o: "obeys content fs" "obeys content fs'"
  shows "merged_rules env fs ws = merged_rules env fs' ws'"
proof -
  note cand = key_determines_candidates [OF key]
  have "load_one fs p = load_one fs' p" if mem: "(sc, p) \<in> set (rule_candidate_paths env fs ws)" for sc p
  proof -
    have "(sc, p) \<in> set (rule_candidate_paths env fs' ws')" using mem cand by simp
    then obtain f f' where "fs p = Some f" "fs' p = Some f'"
      using candidate_exists [OF mem] candidate_exists by blast
    moreover have "safe_mtime fs p = safe_mtime fs' p" using mem cand by auto
    ultimately show ?thesis using o by (auto simp: load_one_def safe_mtime_def obeys_def)
  qed
  then have "load_candidates fs (rule_candidate_paths env fs ws) [] [] = load_candidates fs' (rule_candidate_paths env fs ws) [] []"
    by (rule load_candidates_cong)
  then show ?thesis using cand by (simp add: merged_rules_def)
qed

lemma fresh_answer:
  "fst (is_excluded env fs p ws fresh_manager) =
     (case merged_rules env fs ws of
        Inl e \<Rightarrow> Inl e
      | Inr d \<Rightarrow> (case exclude_lines d of
            None \<Rightarrow> Inr False
          | Some ps \<Rightarrow> if re_accepts env ps then Inr (re_matches env ps (fwd p)) else Inl BadPattern))"
  by (auto simp: is_excluded_def get_combined_rules_def fresh_manager_def Let_def split: sum.splits option.splits)

lemma missed_text:
  "\<not> (rm_key m = Some (cache_key env fs ws) \<and> rm_formatted m \<noteq> []) \<Longrightarrow> compiles env fs ws \<Longrightarrow> merged_rules env fs ws = Inr d
    \<Longrightarrow> get_combined_rules env fs ws m =
      (Inr (format_rules env d),
       m\<lparr>rm_key := Some (cache_key env fs ws), rm_formatted := format_rules env d, rm_exclude := exclude_lines d\<rparr>)"
  by (auto simp: get_combined_rules_def compiles_def Let_def split: option.splits)

lemma missed_answer:
  "\<not> (rm_key m = Some (cache_key env fs ws) \<and> rm_formatted m \<noteq> []) \<Longrightarrow> compiles env fs ws \<Longrightarrow> merged_rules env fs ws = Inr d
    \<Longrightarrow> is_excluded env fs p ws m =
      (Inr (case exclude_lines d of None \<Rightarrow> False | Some ps \<Rightarrow> re_matches env ps (fwd p)),
       m\<lparr>rm_key := Some (cache_key env fs ws), rm_formatted := format_rules env d, rm_exclude := exclude_lines d\<rparr>)"
  by (simp add: is_excluded_def missed_text)

lemma fresh_key [simp]: "rm_key fresh_manager = None"
  by (simp add: fresh_manager_def)

text \<open>Whatever the cache holds, the text and the patterns it leaves in force are those of the files.\<close>

lemma coherent_text:
  assumes "obeys content fs" and "coherent env content m" and "compiles env fs ws"
  shows "coherent env content (snd (get_combined_rules env fs ws m))
    \<and> (case merged_rules env fs ws of
         Inl e \<Rightarrow> fst (get_combined_rules env fs ws m) = Inl e
       | Inr d \<Rightarrow> fst (get_combined_rules env fs ws m) = Inr (format_rules env d)
           \<and> rm_exclude (snd (get_combined_rules env fs ws m)) = exclude_lines d)"
proof (cases "rm_key m = Some (cache_key env fs ws) \<and> rm_formatted m \<noteq> []")
  case True
  then obtain fs0 ws0 d where w: "obeys content fs0" "compiles env fs0 ws0" "cache_key env fs ws = cache_key env fs0 ws0"
      "merged_rules env fs0 ws0 = Inr d" "rm_formatted m = format_rules env d" "rm_exclude m = exclude_lines d"
    using assms(2) unfolding coherent_def by auto
  have "merged_rules env fs ws = Inr d" using key_determines_rules [OF w(3) assms(1) w(1)] w(4) by simp
  moreover have "get_combined_rules env fs ws m = (Inr (format_rules env d), m)"
    using True w(5) by (simp add: get_combined_rules_def)
  ultimately show ?thesis using w(6) assms(2) by simp
next
  case False
  show ?thesis
  proof (cases "merged_rules env fs ws")
    case (Inl e)
    with False assms(2) show ?thesis by (auto simp: get_combined_rules_def Let_def)
  next
    case (Inr d)
    with False assms(1,3) show ?thesis by (auto simp: missed_text coherent_def)
  qed
qed

lemma coherent_fresh: "coherent env content fresh_manager"
  by (simp add: coherent_def)

lemma is_excluded_by_text:
  "is_excluded env fs p ws m =
     (map_sum id (\<lambda>_. case rm_exclude (snd (get_combined_rules env fs ws m)) of
          None \<Rightarrow> False | Some ps \<Rightarrow> re_matches env ps (fwd p)) (fst (get_combined_rules env fs ws m)),
      snd (get_combined_rules env fs ws m))"
  by (simp add: is_excluded_def split: prod.split sum.split)

lemma append_manager:
  "fst (append_local_rule mk wr fs ws rule m) = fst (append_local_rule mk wr fs ws rule m')
   \<and> snd (snd (append_local_rule mk wr fs ws rule m)) \<in> {m, reset_rules m}"
  by (auto simp: append_local_rule_def Let_def split: sum.split option.split)

lemma coherent_query:
  assumes "obeys content fs" and "coherent env content m" and "compiles env fs (query_root q)"
  shows "fst (answer_query env fs q m) = fst (answer_query env fs q fresh_manager)
    \<and> coherent env content (snd (answer_query env fs q m))"
proof (cases q)
  case (IsExcluded p ws)
  with assms coherent_text [OF assms(1,2), of ws] coherent_text [OF assms(1) coherent_fresh, of env ws]
  show ?thesis by (auto simp: is_excluded_by_text split: sum.splits)
next
  case (CombinedRules ws)
  with assms coherent_text [OF assms(1,2), of ws] coherent_text [OF assms(1) coherent_fresh, of env ws]
  show ?thesis by (auto split: sum.splits)
next
  case (LearnRule mk wr ws rule)
  have "coherent env content (reset_rules m)" by (simp add: coherent_def reset_rules_def)
  with LearnRule assms(2) append_manager [of mk wr fs ws rule m fresh_manager] show ?thesis
    by (auto simp: split_beta)
qed

text \<open>
  C36. The singleton's cache is never seen, while modification times identify contents and the pattern
  lists of every state of the files asked about are accepted by the pattern library: over any
  sequence of queries from any workspaces, with the files changing in between, every answer to
  whether a path is excluded, every text of the combined rules and the outcome of every learned
  rule are those of a resolver that has just started. (A list that the library rejects raises once
  and then reads as no patterns.)
\<close>

theorem rules_cache_transparent:
  assumes "list_all (\<lambda>(fs, q). obeys content fs \<and> compiles env fs (query_root q)) qs"
  shows "queries_run env fresh_manager qs = map (\<lambda>(fs, q). fst (answer_query env fs q fresh_manager)) qs"
proof -
  have "coherent env content m \<Longrightarrow>
      queries_run env m qs = map (\<lambda>(fs, q). fst (answer_query env fs q fresh_manager)) qs" for m
    using assms
  proof (induction qs arbitrary: m)
    case (Cons e qs)
    obtain fs q where e: "e = (fs, q)" by (cases e)
    with Cons.prems have "fst (answer_query env fs q m) = fst (answer_query env fs q fresh_manager)"
      "coherent env content (snd (answer_query env fs q m))"
      using coherent_query [of content fs env m q] by auto
    with Cons e show ?case by (auto simp: split_beta Let_def)
  qed simp
  then show ?thesis using coherent_fresh by blast
qed

subsection \<open>Adding a rule, and what goes wrong\<close>

definition learned_rules :: "(string, json) dict \<Rightarrow> json list" where
  "learned_rules d =
     (case jget d ''rules'' of
        JArr xs \<Rightarrow> xs
      | JObj e \<Rightarrow> (case jget e ''distilled'' of JArr xs \<Rightarrow> xs | _ \<Rightarrow> [])
      | _ \<Rightarrow> [])"

lemma py_in_self: "py_in (JStr r) (xs @ [JStr r])"
  by (simp add: py_in_def py_eq.simps)

lemma jget_dset [dict_simps]: "jget (dset k v d) k' = (if k' = k then v else jget d k')"
  by (simp add: jget_def dict_simps)

lemma with_rule_cases:
  assumes "with_rule d r = Some d'"
  obtains (replaced) "d' = dset ''rules'' (JArr [JStr r]) d"
    | (appended) xs where "jget d ''rules'' = JArr xs" "d' = dset ''rules'' (JArr (xs @ [JStr r])) d"
    | (distilled) e xs where "jget d ''rules'' = JObj e" "d' = dset ''rules'' (JObj (dset ''distilled'' (JArr (xs @ [JStr r])) e)) d"
  using assms
proof (cases "jget d ''rules''")
  case (JObj e)
  with assms show ?thesis
    by (intro distilled [of e "case jget e ''distilled'' of JArr xs \<Rightarrow> xs | _ \<Rightarrow> []"])
      (simp_all add: with_rule_def Let_def split: if_splits)
qed (use assms replaced appended in \<open>simp_all add: with_rule_def split: if_splits\<close>)

lemma with_rule_Some:
  assumes "with_rule d r = Some d'"
  shows "py_in (JStr r) (learned_rules d') \<and> d' = dset ''rules'' (jget d' ''rules'') d \<and> with_rule d' r = None"
  using assms
proof (cases rule: with_rule_cases)
  case replaced
  then show ?thesis using py_in_self [of r "[]"] by (simp add: learned_rules_def with_rule_def jget_dset)
next
  case (appended xs)
  then show ?thesis by (simp add: learned_rules_def with_rule_def jget_dset py_in_self)
next
  case (distilled e xs)
  then show ?thesis by (simp add: learned_rules_def with_rule_def jget_dset py_in_self)
qed

text \<open>
  A rule is written and read back: a successful append changes only the subdirectory file, which
  then loads as the former object with its \<open>rules\<close> replaced and the rule among the learned ones,
  and appending it again is a no-op; in every other outcome, an unreadable file included, neither
  the files nor the cache change.
\<close>

theorem appended_rule_reads_back:
  "case append_local_rule mkdir_ok written fs ws rule m of
     (Inr True, fs', m') \<Rightarrow>
       (\<exists>e d t. load_one fs (local_sub ws) = Inr e \<and> load_one fs' (local_sub ws) = Inr (Some d)
          \<and> fs' = fs(local_sub ws \<mapsto> \<lparr>rf_mtime = t, rf_body = Parsed (JObj d)\<rparr>)
          \<and> d = dset ''rules'' (jget d ''rules'') (or_else e [])
          \<and> py_in (JStr (strip rule)) (learned_rules d))
       \<and> rm_key m' = None \<and> append_local_rule mkdir_ok written fs' ws rule m' = (Inr False, fs', m')
   | (_, fs', m') \<Rightarrow> fs' = fs \<and> m' = m"
proof (cases "fst (append_local_rule mkdir_ok written fs ws rule m) = Inr True")
  case False
  then show ?thesis
    by (auto simp: append_local_rule_def Let_def split: sum.splits option.splits bool.splits prod.splits)
next
  case True
  then obtain e d t where *: "ws \<noteq> []" "strip rule \<noteq> []" "mkdir_ok" "load_one fs (local_sub ws) = Inr e"
      "with_rule (or_else e []) (strip rule) = Some d" "written = Some t"
    by (auto simp: append_local_rule_def Let_def split: sum.splits option.splits if_splits)
  note w = with_rule_Some [OF *(5)]
  let ?fs = "fs(local_sub ws \<mapsto> \<lparr>rf_mtime = t, rf_body = Parsed (JObj d)\<rparr>)"
  have l: "load_one ?fs (local_sub ws) = Inr (Some d)" by (simp add: load_one_def)
  have first: "append_local_rule mkdir_ok written fs ws rule m = (Inr True, ?fs, reset_rules m)"
    using * by (simp add: append_local_rule_def)
  have "append_local_rule mkdir_ok written ?fs ws rule (reset_rules m) = (Inr False, ?fs, reset_rules m)"
    using * w l by (simp add: append_local_rule_def)
  then show ?thesis
    unfolding first using *(4) w l by (simp only: prod.case sum.case bool.case) (auto simp: reset_rules_def)
qed

text \<open>
  A workspace whose rules are in the flat file loses them with the first rule it learns: the append
  creates the subdirectory file, which is preferred, so nothing the flat file excluded is excluded.
\<close>

lemma learning_lifts_exclusions:
  assumes "fs (local_sub ws) = None" and "fs (local_flat ws) \<noteq> None" and "fs (global_rules_path env) = None"
    and "global_rules_path env \<noteq> local_sub ws" and "ws \<noteq> []" and "strip rule \<noteq> []"
  shows "\<exists>fs' m'. append_local_rule True (Some t) fs ws rule m = (Inr True, fs', m')
    \<and> fst (is_excluded env fs' p ws m') = Inr False"
proof -
  let ?d = "[(''rules'', JArr [JStr (strip rule)])]"
  let ?fs = "fs(local_sub ws \<mapsto> \<lparr>rf_mtime = t, rf_body = Parsed (JObj ?d)\<rparr>)"
  have a: "append_local_rule True (Some t) fs ws rule m = (Inr True, ?fs, reset_rules m)"
    using assms by (simp add: append_local_rule_def load_one_def with_rule_def jget_def dget_default_def)
  have "rule_candidate_paths env ?fs ws = [(LocalScope, local_sub ws)]"
    using assms by (simp add: rule_candidate_paths_def)
  then have "merged_rules env ?fs ws = Inr ?d"
    by (simp add: merged_rules_def load_one_def compose_rules_def)
  then have "fst (is_excluded env ?fs p ws (reset_rules m)) = Inr False"
    by (subst missed_answer) (auto simp: reset_rules_def compiles_def exclude_lines_def jget_def dget_default_def)
  with a show ?thesis by blast
qed

text \<open>
  A pattern list that the library rejects makes the first query raise and every later one answer
  that nothing is excluded.
\<close>

lemma rejected_patterns_fail_open:
  assumes "merged_rules env fs ws = Inr d" and "exclude_lines d = Some ps" and "\<not> re_accepts env ps"
  shows "fst (is_excluded env fs p ws fresh_manager) = Inl BadPattern
    \<and> fst (is_excluded env fs q ws (snd (is_excluded env fs p ws fresh_manager))) = Inr False"
  using assms by (simp add: fresh_answer) (simp add: is_excluded_def get_combined_rules_def Let_def fresh_manager_def)

text \<open>A workspace can drop the patterns of the user by giving a value that is not a list.\<close>

lemma global_patterns_dropped: "merge_exclude_patterns (JStr s) (JArr gs) = JStr s"
  by (simp add: merge_exclude_patterns_def)

text \<open>When both give lists, every pattern of either side counts.\<close>

lemma py_eq_text [simp]: "py_eq (JStr s) y \<longleftrightarrow> y = JStr s"
  by (cases y) (simp_all add: py_eq.simps eq_commute)

lemma text_in_extend: "JStr s \<in> set (extend_new out gs) \<longleftrightarrow> JStr s \<in> set out \<or> JStr s \<in> set gs"
proof (induction gs arbitrary: out)
  case (Cons x gs)
  show ?case
  proof (cases "x = JStr s")
    case True
    then have "py_in x out \<longleftrightarrow> JStr s \<in> set out" by (auto simp: py_in_def list_ex_iff)
    with True show ?thesis by (auto simp: Cons.IH)
  qed (auto simp: Cons.IH)
qed simp

lemma both_pattern_lists_count:
  assumes "jget d ''exclude_patterns'' = merge_exclude_patterns (JArr ls) (JArr gs)" and "exclude_lines d = Some ps"
  shows "s \<in> set ps \<longleftrightarrow> JStr s \<in> set ls \<or> JStr s \<in> set gs"
proof -
  have "s \<in> set (List.map_filter as_text xs) \<longleftrightarrow> JStr s \<in> set xs" for xs
    by (induction xs) (auto simp: map_filter_simps as_text_def split: option.splits json.splits)
  moreover have "ps = List.map_filter as_text (concat_dedupe ls gs)"
    using assms(2) unfolding exclude_lines_def assms(1) merge_exclude_patterns_def
    by (auto split: list.splits)
  ultimately show ?thesis by (simp add: concat_dedupe_def text_in_extend)
qed

definition sample_rules :: rule_body where
  "sample_rules = Parsed (JObj [(''exclude_patterns'', JArr [JStr ''secret.txt''])])"

definition sample_rule_env :: rule_env where
  "sample_rule_env =
     \<lparr>re_home = ''/home/u'', re_order = id, re_str = (\<lambda>_. []), re_dumps = (\<lambda>_. []),
      re_accepts = (\<lambda>_. True), re_matches = (\<lambda>ps p. basename p \<in> set ps)\<rparr>"

definition sample_store :: "rat \<Rightarrow> rule_store" where
  "sample_store t = [local_flat ''/w'' \<mapsto> \<lparr>rf_mtime = t, rf_body = if t = 2 then sample_rules else Unparsable\<rparr>]"

lemma rules_cache_transparent_witness:
  "queries_run sample_rule_env fresh_manager
      [(sample_store 1, IsExcluded ''/w/secret.txt'' ''/w''), (sample_store 2, IsExcluded ''/w/secret.txt'' ''/w''),
       (sample_store 2, CombinedRules ''/w''), (sample_store 2, IsExcluded ''/w/a.py'' ''/w'')]
    = [Verdict (Inr False), Verdict (Inr True), Instructions (Inr default_rules), Verdict (Inr False)]"
proof -
  have "list_all (\<lambda>(fs, q). obeys (\<lambda>(_, t). if t = 2 then sample_rules else Unparsable) fs
        \<and> compiles sample_rule_env fs (query_root q))
      [(sample_store 1, IsExcluded ''/w/secret.txt'' ''/w''), (sample_store 2, IsExcluded ''/w/secret.txt'' ''/w''),
       (sample_store 2, CombinedRules ''/w''), (sample_store 2, IsExcluded ''/w/a.py'' ''/w'')]"
    by (auto simp: obeys_def sample_store_def compiles_def sample_rule_env_def split: sum.splits option.splits if_splits)
  from rules_cache_transparent [OF this] show ?thesis by (simp only:) code_simp
qed

end
