(* ===== verification/Firewall.thy ===== *)
theory Firewall
  imports Rules
begin

text \<open>
  The virtual file system and its firewall (\<open>core/vfs_middleware.py\<close>), the jail it starts with
  (\<open>core/path_guard.py\<close>), the project instructions that are read through it
  (\<open>core/project_instructions.py\<close>), and the pipeline that hands accepted edits to the editor
  (\<open>core/write_pipeline.py\<close>).

  The state is the process-wide singleton: the unsaved buffers of the editor, the cache of ignore
  patterns, and the resolver of rules; the parses requested and the reads logged are kept as lists.
  Resolution of symbolic links is the argument \<open>ve_resolve\<close>, which gives the components of the
  resolved path or \<open>None\<close> where \<open>Path.resolve\<close> raises; the disk maps a path to the size and the
  decoded text of the file there. Matching of ignore patterns belongs to \<open>pathspec\<close>.
\<close>

declare map_of_eq_Some_iff [simp del] Some_eq_map_of_iff [simp del]

subsection \<open>Paths\<close>

text \<open>\<open>os.path.splitext(p)[1]\<close>: leading dots of the name do not start an extension.\<close>

definition splitext_ext :: "string \<Rightarrow> string" where
  "splitext_ext p =
     (case from_last_dot (dropWhile (\<lambda>c. c = CHR ''.'') (basename p)) of None \<Rightarrow> [] | Some e \<Rightarrow> e)"

text \<open>\<open>os.path.relpath\<close>, with the working directory as an argument.\<close>

definition abs_components :: "string \<Rightarrow> string \<Rightarrow> string list" where
  "abs_components cwd p = filter (\<lambda>w. w \<noteq> []) (split_on (CHR ''/'') (normpath (posix_join cwd p)))"

fun common_length :: "'a list \<Rightarrow> 'a list \<Rightarrow> nat" where
  "common_length (x # xs) (y # ys) = (if x = y then Suc (common_length xs ys) else 0)"
| "common_length _ _ = 0"

definition relpath :: "string \<Rightarrow> string \<Rightarrow> string \<Rightarrow> string" where
  "relpath cwd p start =
     (let s = abs_components cwd start; q = abs_components cwd p; i = common_length s q;
          rel = replicate (length s - i) ''..'' @ drop i q
      in if rel = [] then ''.'' else join ''/'' rel)"

text \<open>\<open>f.readlines()\<close>: the lines with their ends, after the translation of line ends.\<close>

fun readlines :: "string \<Rightarrow> string list" where
  "readlines [] = []"
| "readlines (c # s) =
     (if c = CHR 0x0A then [c] # readlines s
      else (case readlines s of [] \<Rightarrow> [[c]] | l # ls \<Rightarrow> (c # l) # ls))"

subsection \<open>The jail\<close>

datatype deny_reason = Unresolvable string | OutsideRoot string

definition is_within :: "string list \<Rightarrow> string list \<Rightarrow> bool" where
  "is_within resolved jail \<longleftrightarrow> take (length jail) resolved = jail"

definition confine_to_root :: "(string \<Rightarrow> string list option) \<Rightarrow> string \<Rightarrow> string option \<Rightarrow> deny_reason option" where
  "confine_to_root resolve p base =
     (if str_or base [] = [] then None
      else (case (resolve p, resolve (str_or base [])) of
          (Some resolved, Some jail) \<Rightarrow>
            if resolved = jail \<or> is_within resolved jail then None else Some (OutsideRoot p)
        | _ \<Rightarrow> Some (Unresolvable p)))"

subsection \<open>State\<close>

record dirty_buffer =
  db_uri :: string
  db_content :: string
  db_version :: int
  db_language :: string

record disk_file =
  df_size :: nat
  df_text :: "string option"

record vfs_env =
  ve_rules :: rule_env
  ve_store :: rule_store
  ve_resolve :: "string \<Rightarrow> string list option"
  ve_cwd :: string
  ve_disk :: "string \<Rightarrow> disk_file option"
  ve_compiles :: "string list \<Rightarrow> bool"
  ve_ignored :: "string list \<Rightarrow> string \<Rightarrow> bool"
  ve_audits :: "(string \<times> string) list \<Rightarrow> string \<times> string \<Rightarrow> bool"

record vfs =
  ram_vfs :: "(string, string) dict"
  ignore_specs :: "(string, string list) dict"
  rule_cache :: rule_manager
  asts :: "(string \<times> string \<times> string) list"
  read_log :: "(string \<times> string) list"

datatype read_failure = FileNotFound string | IoException string

datatype vfs_error =
    PATH_ESCAPE deny_reason
  | FILE_EXCLUDED
  | FILE_IGNORED
  | BINARY_FILE
  | FILE_TOO_LARGE nat
  | READ_ERROR read_failure
  | MINIFIED

record vfs_read_result =
  vr_content :: "string option"
  vr_error :: "vfs_error option"

datatype vfs_raise = RuleRaised rule_error | IgnoreFileUnreadable string | IgnorePatternRejected | AuditInsertFailed

definition MAX_FILE_BYTES :: nat where "MAX_FILE_BYTES = 500 * 1024"
definition MAX_LINE_CHARS :: nat where "MAX_LINE_CHARS = 1000"

definition VFS_BINARY_EXTENSIONS :: "string list" where
  "VFS_BINARY_EXTENSIONS =
     [''.png'', ''.jpg'', ''.jpeg'', ''.gif'', ''.bmp'', ''.ico'', ''.webp'',
      ''.svg'', ''.pdf'', ''.zip'', ''.tar'', ''.gz'', ''.7z'', ''.rar'',
      ''.exe'', ''.dll'', ''.so'', ''.dylib'', ''.wasm'',
      ''.ttf'', ''.otf'', ''.woff'', ''.woff2'',
      ''.mp3'', ''.mp4'', ''.wav'', ''.ogg'', ''.flac'',
      ''.db'', ''.sqlite'', ''.pyc'', ''.class'']"

subsection \<open>Buffers and plain reads\<close>

definition ingest_dirty_buffers :: "dirty_buffer list \<Rightarrow> vfs \<Rightarrow> vfs" where
  "ingest_dirty_buffers bufs v =
     v\<lparr>ram_vfs := fold (\<lambda>b. dset (normpath (db_uri b)) (db_content b)) bufs [],
       asts := asts v @ map (\<lambda>b. (normpath (db_uri b), db_content b, db_language b)) bufs\<rparr>"

text \<open>Reading from the disk translates line ends, a buffer is returned as it is.\<close>

definition read_vfs :: "vfs_env \<Rightarrow> vfs \<Rightarrow> string \<Rightarrow> read_failure + string" where
  "read_vfs env v filepath =
     (let p = normpath filepath in
      case dget (ram_vfs v) p of
        Some c \<Rightarrow> Inr c
      | None \<Rightarrow>
          (case ve_disk env p of
             None \<Rightarrow> Inl (FileNotFound p)
           | Some f \<Rightarrow> (case df_text f of None \<Rightarrow> Inl (IoException p) | Some t \<Rightarrow> Inr (normalize_eol t))))"

definition snapshot_paths :: "vfs \<Rightarrow> string list" where
  "snapshot_paths v = dkeys (ram_vfs v)"

definition read_ram_only :: "vfs \<Rightarrow> string \<Rightarrow> string option" where
  "read_ram_only v p = dget (ram_vfs v) (normpath p)"

subsection \<open>The ignore patterns\<close>

definition DEFAULT_IGNORES :: "string list" where
  "DEFAULT_IGNORES = [''.ailienant_telemetry.log'', ''.ailienant_telemetry.log.*'']"

fun ignore_lines :: "vfs_env \<Rightarrow> string \<Rightarrow> string list \<Rightarrow> string list \<Rightarrow> vfs_raise + string list" where
  "ignore_lines env base [] acc = Inr acc"
| "ignore_lines env base (name # names) acc =
     (case ve_disk env (posix_join base name) of
        None \<Rightarrow> ignore_lines env base names acc
      | Some f \<Rightarrow> (case df_text f of
            None \<Rightarrow> Inl (IgnoreFileUnreadable name)
          | Some t \<Rightarrow> ignore_lines env base names (acc @ readlines (normalize_eol t))))"

definition load_ignore_spec :: "vfs_env \<Rightarrow> string \<Rightarrow> string \<Rightarrow> vfs \<Rightarrow> (vfs_raise + string list) \<times> vfs" where
  "load_ignore_spec env base project_id v =
     (case dget (ignore_specs v) project_id of
        Some spec \<Rightarrow> (Inr spec, v)
      | None \<Rightarrow>
          (case ignore_lines env base [''.gitignore'', ''.ailienantignore''] DEFAULT_IGNORES of
             Inl e \<Rightarrow> (Inl e, v)
           | Inr spec \<Rightarrow>
               if ve_compiles env spec then (Inr spec, v\<lparr>ignore_specs := dset project_id spec (ignore_specs v)\<rparr>)
               else (Inl IgnorePatternRejected, v)))"

subsection \<open>The firewalled read\<close>

definition effective_path :: "string \<Rightarrow> string option \<Rightarrow> string" where
  "effective_path filepath base =
     normpath (if \<not> starts_with filepath ''/'' \<and> str_or base [] \<noteq> [] then posix_join (str_or base []) filepath
               else filepath)"

definition refuse_read :: "vfs_error \<Rightarrow> vfs_read_result" where
  "refuse_read e = \<lparr>vr_content = None, vr_error = Some e\<rparr>"

text \<open>Layer 0b: the exclude patterns, matched against the path as it stands.\<close>

definition exclude_layer :: "vfs_env \<Rightarrow> string \<Rightarrow> string option \<Rightarrow> vfs \<Rightarrow> (vfs_raise + bool) \<times> vfs" where
  "exclude_layer env p base v =
     (if str_or base [] = [] then (Inr False, v)
      else (case is_excluded (ve_rules env) (ve_store env) p (str_or base []) (rule_cache v) of
          (Inl e, m) \<Rightarrow> (Inl (RuleRaised e), v\<lparr>rule_cache := m\<rparr>)
        | (Inr b, m) \<Rightarrow> (Inr b, v\<lparr>rule_cache := m\<rparr>)))"

text \<open>Layer 1: the ignore patterns, matched against the path relative to the root.\<close>

definition ignore_layer :: "vfs_env \<Rightarrow> string \<Rightarrow> string option \<Rightarrow> string option \<Rightarrow> vfs \<Rightarrow> (vfs_raise + bool) \<times> vfs" where
  "ignore_layer env p project_id base v =
     (if str_or project_id [] = [] \<or> str_or base [] = [] then (Inr False, v)
      else (case load_ignore_spec env (str_or base []) (str_or project_id []) v of
          (Inl e, v) \<Rightarrow> (Inl e, v)
        | (Inr spec, v) \<Rightarrow> (Inr (ve_ignored env spec (relpath (ve_cwd env) p (str_or base []))), v)))"

definition disk_size :: "vfs_env \<Rightarrow> string \<Rightarrow> nat" where
  "disk_size env p = (case ve_disk env p of None \<Rightarrow> 0 | Some f \<Rightarrow> df_size f)"

text \<open>Layers 2 and 3, and the read between the two parts of layer 3.\<close>

definition content_layers :: "vfs_env \<Rightarrow> string \<Rightarrow> vfs \<Rightarrow> vfs_read_result" where
  "content_layers env p v =
     (if lower (splitext_ext p) \<in> set VFS_BINARY_EXTENSIONS then refuse_read BINARY_FILE
      else if dget (ram_vfs v) p = None \<and> MAX_FILE_BYTES < disk_size env p then refuse_read (FILE_TOO_LARGE (disk_size env p))
      else (case read_vfs env v p of
          Inl e \<Rightarrow> refuse_read (READ_ERROR e)
        | Inr c \<Rightarrow>
            if list_ex (\<lambda>l. MAX_LINE_CHARS < length l) (splitlines c) then refuse_read MINIFIED
            else \<lparr>vr_content = Some c, vr_error = None\<rparr>))"

definition read_safe :: "vfs_env \<Rightarrow> string \<Rightarrow> string option \<Rightarrow> string option \<Rightarrow> string option \<Rightarrow> vfs
    \<Rightarrow> (vfs_raise + vfs_read_result) \<times> vfs" where
  "read_safe env filepath project_id base session_id v =
     (let p = effective_path filepath base in
      case confine_to_root (ve_resolve env) p base of
        Some reason \<Rightarrow> (Inr (refuse_read (PATH_ESCAPE reason)), v)
      | None \<Rightarrow>
          (case exclude_layer env p base v of
             (Inl e, v) \<Rightarrow> (Inl e, v)
           | (Inr True, v) \<Rightarrow> (Inr (refuse_read FILE_EXCLUDED), v)
           | (Inr False, v) \<Rightarrow>
               (case ignore_layer env p project_id base v of
                  (Inl e, v) \<Rightarrow> (Inl e, v)
                | (Inr True, v) \<Rightarrow> (Inr (refuse_read FILE_IGNORED), v)
                | (Inr False, v) \<Rightarrow>
                    (let r = content_layers env p v; row = (str_or session_id [], p) in
                     if vr_error r = None \<and> str_or session_id [] \<noteq> []
                     then (if ve_audits env (read_log v) row then (Inr r, v\<lparr>read_log := read_log v @ [row]\<rparr>)
                           else (Inl AuditInsertFailed, v))
                     else (Inr r, v)))))"

text \<open>\<open>make_safe_reader\<close>: whatever goes wrong, the caller gets \<open>None\<close>.\<close>

definition safe_reader :: "vfs_env \<Rightarrow> string option \<Rightarrow> string option \<Rightarrow> string option \<Rightarrow> vfs \<Rightarrow> string
    \<Rightarrow> string option \<times> vfs" where
  "safe_reader env project_id base session_id v p =
     (case read_safe env p project_id base session_id v of
        (Inl _, v) \<Rightarrow> (None, v)
      | (Inr r, v) \<Rightarrow> (if vr_error r = None then vr_content r else None, v))"

subsection \<open>Readers of instructions\<close>

definition INSTRUCTION_CANDIDATES :: "string list list" where
  "INSTRUCTION_CANDIDATES = [[''.ailienant'', ''AILIENANT.md''], [''AILIENANT.md'']]"

definition INSTRUCTIONS_HEADING :: string where
  "INSTRUCTIONS_HEADING = ''## Project Instructions (AILIENANT.md)''"

definition TRUNCATION_NOTE :: string where
  "TRUNCATION_NOTE = [CHR 0x0A, CHR 0x0A] @ ''[... project instructions truncated ...]''"

definition INSTRUCTIONS_MAX_CHARS :: nat where "INSTRUCTIONS_MAX_CHARS = 8000"

definition instruction_block :: "nat \<Rightarrow> string \<Rightarrow> string" where
  "instruction_block max_chars content =
     (let t = strip content in
      INSTRUCTIONS_HEADING @ [CHR 0x0A, CHR 0x0A] @
      (if max_chars < length t then rstrip (take max_chars t) @ TRUNCATION_NOTE else t))"

text \<open>The loop over the candidates, for any reader that threads a state.\<close>

fun first_instructions :: "('s \<Rightarrow> string \<Rightarrow> string option \<times> 's) \<Rightarrow> nat \<Rightarrow> string list \<Rightarrow> 's \<Rightarrow> string \<times> 's" where
  "first_instructions reader max_chars [] s = ([], s)"
| "first_instructions reader max_chars (p # ps) s =
     (case reader s p of
        (Some c, s) \<Rightarrow> if strip c = [] then first_instructions reader max_chars ps s else (instruction_block max_chars c, s)
      | (None, s) \<Rightarrow> first_instructions reader max_chars ps s)"

definition get_project_instructions :: "vfs_env \<Rightarrow> string option \<Rightarrow> string option \<Rightarrow> string option \<Rightarrow> nat \<Rightarrow> vfs
    \<Rightarrow> string \<times> vfs" where
  "get_project_instructions env project_id ws session_id max_chars v =
     (if str_or ws [] = [] then ([], v)
      else first_instructions (safe_reader env project_id ws session_id) max_chars
             (map (path_under (str_or ws [])) INSTRUCTION_CANDIDATES) v)"

subsection \<open>The pipeline of edits\<close>

record workspace_edit_item =
  we_path :: string
  we_content :: string
  we_base_hash :: "string option"

record patch_payload =
  pp_patch_id :: string
  pp_save :: bool
  pp_edits :: "workspace_edit_item list"

record edit_ack =
  ack_ok :: bool
  ack_applied :: "string list"
  ack_stale :: "string list"
  ack_error :: "string option"

definition ack_failure :: "string \<Rightarrow> edit_ack" where
  "ack_failure e = \<lparr>ack_ok = False, ack_applied = [], ack_stale = [], ack_error = Some e\<rparr>"

text \<open>
  The answer and what was sent to the editor; \<open>host\<close> is the editor's acknowledgement within the
  time limit, if any, and \<open>has_client\<close> whether one is connected.
\<close>

definition apply_patch_set :: "bool \<Rightarrow> (patch_payload \<Rightarrow> edit_ack option) \<Rightarrow> string \<Rightarrow> (string, string) dict
    \<Rightarrow> (string, string) dict \<Rightarrow> bool \<Rightarrow> edit_ack \<times> patch_payload option" where
  "apply_patch_set has_client host patch_id contents base_hash save =
     (if contents = [] then (ack_failure ''No changes to apply.'', None)
      else if \<not> has_client then (ack_failure ''No VS Code client connected to apply edits.'', None)
      else
        (let payload = \<lparr>pp_patch_id = patch_id, pp_save = save,
               pp_edits = map (\<lambda>(p, c). \<lparr>we_path = p, we_content = c, we_base_hash = dget base_hash p\<rparr>) contents\<rparr> in
         (case host payload of
            None \<Rightarrow> ack_failure ''Timed out waiting for the editor to apply the change.''
          | Some ack \<Rightarrow> ack,
          Some payload)))"

subsection \<open>What a reader may return\<close>

lemma read_vfs_ram: "ram_vfs v' = ram_vfs v \<Longrightarrow> read_vfs env v' p = read_vfs env v p"
  by (simp add: read_vfs_def)

lemma content_layers_ram: "ram_vfs v' = ram_vfs v \<Longrightarrow> content_layers env p v' = content_layers env p v"
  using read_vfs_ram [of v' v env p] by (simp add: content_layers_def)

lemma exclude_layer_keeps:
  "ram_vfs (snd (exclude_layer env p base v)) = ram_vfs v
    \<and> ignore_specs (snd (exclude_layer env p base v)) = ignore_specs v"
  by (simp add: exclude_layer_def split: prod.split sum.split)

lemma load_ignore_spec_keeps: "ram_vfs (snd (load_ignore_spec env b pid v)) = ram_vfs v"
  by (simp add: load_ignore_spec_def del: ignore_lines.simps split: sum.split option.split)

lemma load_ignore_spec_cong:
  "ignore_specs v' = ignore_specs v \<Longrightarrow> fst (load_ignore_spec env b pid v') = fst (load_ignore_spec env b pid v)"
  by (cases "dget (ignore_specs v) pid"; cases "ignore_lines env b [''.gitignore'', ''.ailienantignore''] DEFAULT_IGNORES")
    (simp_all add: load_ignore_spec_def del: ignore_lines.simps)

lemma ignore_layer_by_spec:
  "ignore_layer env p project_id base v =
     (if str_or project_id [] = [] \<or> str_or base [] = [] then (Inr False, v)
      else (case fst (load_ignore_spec env (str_or base []) (str_or project_id []) v) of
           Inl e \<Rightarrow> Inl e
         | Inr spec \<Rightarrow> Inr (ve_ignored env spec (relpath (ve_cwd env) p (str_or base []))),
         snd (load_ignore_spec env (str_or base []) (str_or project_id []) v)))"
  by (simp add: ignore_layer_def split: prod.split sum.split)

lemma ignore_layer_keeps:
  "ram_vfs (snd (ignore_layer env p project_id base v)) = ram_vfs v"
  by (simp add: ignore_layer_by_spec load_ignore_spec_keeps)

lemma ignore_layer_cong:
  "ignore_specs v' = ignore_specs v
    \<Longrightarrow> fst (ignore_layer env p project_id base v') = fst (ignore_layer env p project_id base v)"
  using load_ignore_spec_cong [of v' v] by (simp add: ignore_layer_by_spec)

lemma exclude_layer_log: "read_log (snd (exclude_layer env p base v)) = read_log v"
  by (simp add: exclude_layer_def split: prod.split sum.split)

lemma ignore_layer_log: "read_log (snd (ignore_layer env p project_id base v)) = read_log v"
  by (simp add: ignore_layer_by_spec load_ignore_spec_def del: ignore_lines.simps split: sum.split option.split)

lemma content_layers_ok:
  "(vr_error (content_layers env p v) = None \<and> vr_content (content_layers env p v) = Some c) \<longleftrightarrow>
     lower (splitext_ext p) \<notin> set VFS_BINARY_EXTENSIONS
     \<and> (if dget (ram_vfs v) p = None then disk_size env p else 0) \<le> MAX_FILE_BYTES
     \<and> read_vfs env v p = Inr c \<and> list_all (\<lambda>l. length l \<le> MAX_LINE_CHARS) (splitlines c)"
  by (auto simp: content_layers_def refuse_read_def list_all_iff list_ex_iff linorder_not_less linorder_not_le split: sum.split)

text \<open>The row of the read log that a read with a session inserts before it returns.\<close>

definition audit_accepts :: "vfs_env \<Rightarrow> string option \<Rightarrow> vfs \<Rightarrow> string \<Rightarrow> bool" where
  "audit_accepts env session_id v p \<longleftrightarrow>
     str_or session_id [] = [] \<or> ve_audits env (read_log v) (str_or session_id [], p)"

lemma safe_reader_returns:
  "fst (safe_reader env project_id base session_id v path) = Some c \<longleftrightarrow>
     (let p = effective_path path base in
      confine_to_root (ve_resolve env) p base = None
      \<and> fst (exclude_layer env p base v) = Inr False
      \<and> fst (ignore_layer env p project_id base v) = Inr False
      \<and> lower (splitext_ext p) \<notin> set VFS_BINARY_EXTENSIONS
      \<and> (if dget (ram_vfs v) p = None then disk_size env p else 0) \<le> MAX_FILE_BYTES
      \<and> read_vfs env v p = Inr c
      \<and> list_all (\<lambda>l. length l \<le> MAX_LINE_CHARS) (splitlines c)
      \<and> audit_accepts env session_id v p)"
proof -
  define p where "p = effective_path path base"
  define v1 where "v1 = snd (exclude_layer env p base v)"
  define v2 where "v2 = snd (ignore_layer env p project_id base v1)"
  have x: "exclude_layer env p base v = (fst (exclude_layer env p base v), v1)"
    and i: "ignore_layer env p project_id base v1 = (fst (ignore_layer env p project_id base v), v2)"
    using ignore_layer_cong [of v1 v env p project_id base] exclude_layer_keeps [of env p base v]
    by (simp_all add: v1_def v2_def prod_eq_iff)
  have "content_layers env p v2 = content_layers env p v"
    using exclude_layer_keeps [of env p base v] ignore_layer_keeps [of env p project_id base v1]
    by (intro content_layers_ram) (simp add: v1_def v2_def)
  moreover have log: "read_log v2 = read_log v"
    by (simp add: v1_def v2_def exclude_layer_log ignore_layer_log)
  ultimately have "fst (safe_reader env project_id base session_id v path) = Some c \<longleftrightarrow>
      confine_to_root (ve_resolve env) p base = None
      \<and> fst (exclude_layer env p base v) = Inr False \<and> fst (ignore_layer env p project_id base v) = Inr False
      \<and> (vr_error (content_layers env p v) = None \<and> vr_content (content_layers env p v) = Some c)
      \<and> audit_accepts env session_id v p"
    unfolding safe_reader_def read_safe_def Let_def p_def [symmetric]
    by (subst x) (auto simp: i refuse_read_def audit_accepts_def log split: option.split sum.split bool.split)
  then show ?thesis unfolding Let_def p_def [symmetric] content_layers_ok by blast
qed

text \<open>
  C10. The firewalled reader returns a text exactly when the path resolves inside the workspace, no
  exclude pattern and no ignore pattern in force matches it, its extension is not a binary one, it
  is an unsaved buffer or at most 500 KB, it can be read as that text, no line of it is over the
  limit, and, for a reader with a session, the row of the read audit can be inserted; every other
  outcome, a layer that raises included, is \<open>None\<close>.
\<close>

theorem safe_reader_exact:
  "fst (safe_reader env project_id base session_id v path) = Some c \<longleftrightarrow>
     (let p = effective_path path base in
      confine_to_root (ve_resolve env) p base = None
      \<and> fst (exclude_layer env p base v) = Inr False
      \<and> fst (ignore_layer env p project_id base v) = Inr False
      \<and> lower (splitext_ext p) \<notin> set VFS_BINARY_EXTENSIONS
      \<and> (if dget (ram_vfs v) p = None then disk_size env p else 0) \<le> MAX_FILE_BYTES
      \<and> read_vfs env v p = Inr c
      \<and> list_all (\<lambda>l. length l \<le> MAX_LINE_CHARS) (splitlines c)
      \<and> audit_accepts env session_id v p)"
  by (rule safe_reader_returns)

lemma confined:
  "str_or base [] \<noteq> [] \<Longrightarrow> confine_to_root resolve p base = None \<longleftrightarrow>
     (\<exists>resolved jail. resolve p = Some resolved \<and> resolve (str_or base []) = Some jail \<and> is_within resolved jail)"
  by (auto simp: confine_to_root_def is_within_def split: option.splits if_splits)

subsection \<open>Clients of a guarded reader\<close>

text \<open>
  What a caller may assume of the reader it is given: the texts it returns are granted, whatever
  the state of the file system is.
\<close>

locale guarded_reader =
  fixes reader :: "'s \<Rightarrow> string \<Rightarrow> string option \<times> 's"
    and granted :: "string \<Rightarrow> string \<Rightarrow> bool"
  assumes reads_granted: "fst (reader s p) = Some c \<Longrightarrow> granted p c"
begin

lemma instructions_granted:
  "fst (first_instructions reader n ps s) = []
   \<or> (\<exists>p \<in> set ps. \<exists>c. granted p c \<and> strip c \<noteq> [] \<and> fst (first_instructions reader n ps s) = instruction_block n c)"
proof (induction ps arbitrary: s)
  case (Cons p ps)
  obtain r s' where r: "reader s p = (r, s')" by (cases "reader s p") auto
  show ?case
  proof (cases r)
    case None
    with r Cons.IH [of s'] show ?thesis by auto
  next
    case (Some c)
    with r reads_granted [of s p c] have "granted p c" by simp
    with r Some Cons.IH [of s'] show ?thesis by (cases "strip c = []") auto
  qed
qed simp

end

text \<open>What the firewall grants under a root, whatever the buffers and caches hold.\<close>

definition firewall_grants :: "vfs_env \<Rightarrow> string option \<Rightarrow> string \<Rightarrow> string \<Rightarrow> bool" where
  "firewall_grants env base path c \<longleftrightarrow>
     confine_to_root (ve_resolve env) (effective_path path base) base = None
     \<and> lower (splitext_ext (effective_path path base)) \<notin> set VFS_BINARY_EXTENSIONS
     \<and> list_all (\<lambda>l. length l \<le> MAX_LINE_CHARS) (splitlines c)"

interpretation firewall: guarded_reader "safe_reader env project_id base session_id" "firewall_grants env base"
  for env project_id base session_id
  by unfold_locales (simp add: safe_reader_returns firewall_grants_def Let_def)

lemma length_rstrip: "length (rstrip s) \<le> length s"
  using length_dropWhile_le [of py_space "rev s"] by (simp add: rstrip_def)

lemma length_instruction_block:
  "length (instruction_block n c) \<le> length INSTRUCTIONS_HEADING + 2 + n + length TRUNCATION_NOTE"
  using length_rstrip [of "take n (strip c)"] by (auto simp: instruction_block_def Let_def)

text \<open>
  The instructions that every prompt carries are empty or made from one of the two files, whose
  resolved path lies in the workspace and which the firewall grants, and they are at most the cap
  with its heading and its note long.
\<close>

theorem project_instructions_confined:
  "let b = fst (get_project_instructions env project_id ws session_id n v) in
     length b \<le> length INSTRUCTIONS_HEADING + 2 + n + length TRUNCATION_NOTE
     \<and> (b = [] \<or> (\<exists>rel \<in> set INSTRUCTION_CANDIDATES. \<exists>c resolved jail.
           ve_resolve env (effective_path (path_under (str_or ws []) rel) ws) = Some resolved
           \<and> ve_resolve env (str_or ws []) = Some jail \<and> is_within resolved jail
           \<and> firewall_grants env ws (path_under (str_or ws []) rel) c \<and> b = instruction_block n c))"
proof (cases "str_or ws [] = []")
  case True
  then show ?thesis by (simp add: get_project_instructions_def)
next
  case False
  let ?b = "fst (get_project_instructions env project_id ws session_id n v)"
  have "?b = [] \<or> (\<exists>rel \<in> set INSTRUCTION_CANDIDATES. \<exists>c. firewall_grants env ws (path_under (str_or ws []) rel) c \<and> ?b = instruction_block n c)"
    using False firewall.instructions_granted [of env project_id ws session_id n "map (path_under (str_or ws [])) INSTRUCTION_CANDIDATES" v]
    by (auto simp: get_project_instructions_def)
  moreover have "\<exists>resolved jail. ve_resolve env (effective_path p ws) = Some resolved
      \<and> ve_resolve env (str_or ws []) = Some jail \<and> is_within resolved jail" if "firewall_grants env ws p c" for p c
    using that by (simp add: firewall_grants_def confined [OF False])
  ultimately show ?thesis
    unfolding Let_def using length_instruction_block [of n] by fastforce
qed

text \<open>
  Under a workspace root no text leaves the reader unless both the path and the root could be
  resolved and the resolved path lies in the resolved root.
\<close>

theorem no_text_from_outside:
  "fst (safe_reader env project_id base session_id v path) = None \<or> str_or base [] = []
   \<or> (\<exists>resolved jail. ve_resolve env (effective_path path base) = Some resolved
        \<and> ve_resolve env (str_or base []) = Some jail \<and> is_within resolved jail)"
proof (cases "fst (safe_reader env project_id base session_id v path)")
  case (Some c)
  then have "firewall_grants env base path c" by (rule firewall.reads_granted)
  then have "confine_to_root (ve_resolve env) (effective_path path base) base = None" by (simp add: firewall_grants_def)
  then show ?thesis by (cases "str_or base [] = []") (simp_all add: confined)
qed simp

subsection \<open>Buffers, and patterns that stay\<close>

lemma dget_fold_dset:
  "dget (fold (\<lambda>b. dset (k b) (f b)) bs d) q = (case map_of (rev (map (\<lambda>b. (k b, f b)) bs)) q of None \<Rightarrow> dget d q | Some c \<Rightarrow> Some c)"
  by (induction bs arbitrary: d) (auto simp: dget_dset map_add_def split: option.splits)

lemma distinct_fold_dset: "distinct (dkeys d) \<Longrightarrow> distinct (dkeys (fold (\<lambda>b. dset (k b) (f b)) bs d))"
  by (induction bs arbitrary: d) (auto simp: distinct_dset)

text \<open>After an ingestion the buffers are those of its list, the last of a path winning, and no others.\<close>

lemma ingest_exact:
  "read_ram_only (ingest_dirty_buffers bufs v) q
     = map_of (rev (map (\<lambda>b. (normpath (db_uri b), db_content b)) bufs)) (normpath q)
   \<and> distinct (snapshot_paths (ingest_dirty_buffers bufs v))"
  by (simp add: read_ram_only_def ingest_dirty_buffers_def dget_fold_dset snapshot_paths_def distinct_fold_dset split: option.split)

text \<open>
  The singleton is shared: a task submitted without unsaved buffers empties those of every other
  mission, so a read of a path there falls back to the disk.
\<close>

lemma other_session_loses_buffers: "read_ram_only (ingest_dirty_buffers [] v) q = None"
  by (simp add: ingest_exact)

text \<open>
  Patterns are compiled once per project identifier: whatever the ignore files say later, and from
  whatever root the identifier is used, the first list stays in force.
\<close>

lemma ignore_specs_stay:
  assumes "dget (ignore_specs v) pid = Some spec" and "pid \<noteq> []" and "str_or base [] \<noteq> []"
  shows "fst (ignore_layer env p (Some pid) base v) = Inr (ve_ignored env spec (relpath (ve_cwd env) p (str_or base [])))
    \<and> dget (ignore_specs (ingest_dirty_buffers bufs v)) pid = Some spec
    \<and> dget (ignore_specs (snd (ignore_layer env p other base v))) pid = Some spec"
  using assms
proof -
  have "dget (ignore_specs (snd (load_ignore_spec env b i v))) pid = Some spec" for b i
    using assms(1) by (auto simp: load_ignore_spec_def dget_dset simp del: ignore_lines.simps split: option.split sum.split)
  moreover have "load_ignore_spec env b pid v = (Inr spec, v)" for b
    using assms(1) by (simp add: load_ignore_spec_def)
  ultimately show ?thesis
    using assms by (cases pid) (simp_all add: ignore_layer_by_spec ingest_dirty_buffers_def)
qed

text \<open>Without a project identifier the ignore files are not consulted at all.\<close>

lemma anonymous_reads_ignore_nothing: "ignore_layer env p None base v = (Inr False, v)"
  by (simp add: ignore_layer_def)

end
