(* ===== verification/Connections.thy ===== *)
theory Connections
  imports Firewall "HOL-Library.Sublist"
begin

text \<open>
  The connection manager (\<open>api/websocket_manager.py\<close>), the bridge to a development container
  (\<open>api/devcontainer_bridge.py\<close>) and the part of the endpoint in \<open>main.py\<close> that dispatches
  replies of the editor.

  Sockets and coroutines are identities. A coroutine that waits for the editor owns an event; the
  tables of the manager hold the events of the open requests, the replies that have come in and,
  per session, the identifiers of its open requests. What a coroutine does when it is resumed is a
  step of its own, so a reply, a time limit and a closed socket may come in any order before it.
\<close>

declare map_of_eq_Some_iff [simp del] Some_eq_map_of_iff [simp del]

subsection \<open>Connections and aliases\<close>

type_synonym socket = nat

record connections =
  active :: "(string, socket) dict"
  aliases :: "(string, string list) dict"
  shutting_down :: bool

definition no_connections :: connections where
  "no_connections = \<lparr>active = [], aliases = [], shutting_down = False\<rparr>"

definition has_client :: "connections \<Rightarrow> string \<Rightarrow> bool" where
  "has_client c sid \<longleftrightarrow> dget (active c) sid \<noteq> None"

text \<open>\<open>first\<close> is the first message as its event type and token, if one came in time and parsed.\<close>

definition ws_connect :: "string \<Rightarrow> socket \<Rightarrow> string option \<Rightarrow> (string \<times> string) option \<Rightarrow> connections \<Rightarrow> bool \<times> connections" where
  "ws_connect cid sock auth_token first c =
     (if shutting_down c then (False, c)
      else if str_or auth_token [] \<noteq> [] \<and> first \<noteq> Some (''auth'', str_or auth_token []) then (False, c)
      else (True, c\<lparr>active := dset cid sock (active c)\<rparr>))"

definition register_alias :: "string \<Rightarrow> string \<Rightarrow> connections \<Rightarrow> connections" where
  "register_alias sid cid c =
     (case dget (active c) cid of
        None \<Rightarrow> c
      | Some sock \<Rightarrow>
          c\<lparr>active := dset sid sock (active c),
            aliases := dset cid (List.insert sid (dget_default (aliases c) cid [])) (aliases c)\<rparr>)"

text \<open>The ids a socket owned, and the connections without them; a stale close owns nothing.\<close>

definition disconnect :: "string \<Rightarrow> socket option \<Rightarrow> connections \<Rightarrow> string list \<times> connections" where
  "disconnect cid sock c =
     (case (sock, dget (active c) cid) of
        (Some s, Some current) \<Rightarrow> if current \<noteq> s then ([], c) else
          (let owned = List.insert cid (dget_default (aliases c) cid []) in
           (owned, c\<lparr>active := fold AList.delete owned (active c), aliases := AList.delete cid (aliases c)\<rparr>))
      | _ \<Rightarrow>
          (let owned = List.insert cid (dget_default (aliases c) cid []) in
           (owned, c\<lparr>active := fold AList.delete owned (active c), aliases := AList.delete cid (aliases c)\<rparr>)))"

definition recover_alias :: "string \<Rightarrow> connections \<Rightarrow> bool \<times> connections" where
  "recover_alias sid c =
     (let aliased = concat (map snd (aliases c));
          live = filter (\<lambda>cid. cid \<notin> set aliased) (dkeys (active c))
      in if length live \<noteq> 1 then (False, c) else (True, register_alias sid (hd live) c))"

text \<open>\<open>send_personal_message\<close>: the socket that carries the event, if any, and the stamped data.\<close>

definition route :: "string \<Rightarrow> connections \<Rightarrow> socket option \<times> connections" where
  "route sid c =
     (if has_client c sid then (dget (active c) sid, c)
      else (case recover_alias sid c of
          (False, c) \<Rightarrow> (None, c)
        | (True, c) \<Rightarrow> (dget (active c) sid, c)))"

definition stamp :: "string \<Rightarrow> (string, json) dict \<Rightarrow> (string, json) dict" where
  "stamp sid event =
     (case jget event ''data'' of
        JObj d \<Rightarrow> dset ''data'' (JObj (setdefault ''session_id'' (JStr sid) d)) event
      | _ \<Rightarrow> event)"

definition send_personal_message :: "string \<Rightarrow> (string, json) dict \<Rightarrow> connections
    \<Rightarrow> (socket \<times> (string, json) dict) option \<times> connections" where
  "send_personal_message sid event c =
     (case route sid c of (None, c) \<Rightarrow> (None, c) | (Some sock, c) \<Rightarrow> (Some (sock, stamp sid event), c))"

subsection \<open>Requests that wait for the editor\<close>

text \<open>
  The tables of one kind of request: approvals (\<open>_hitl_pending\<close>, \<open>_hitl_responses\<close>,
  \<open>_client_pending_hitl\<close>) and acknowledgements of patches have the same three. \<open>tb_set\<close> are the
  requests whose event is set; the event object stays with its coroutine.
\<close>

record 'r request_table =
  tb_pending :: "string list"
  tb_results :: "(string, 'r) dict"
  tb_open :: "(string, string list) dict"
  tb_set :: "string list"

definition empty_table :: "'r request_table" where
  "empty_table = \<lparr>tb_pending = [], tb_results = [], tb_open = [], tb_set = []\<rparr>"

definition tb_register :: "string \<Rightarrow> string \<Rightarrow> 'r request_table \<Rightarrow> 'r request_table" where
  "tb_register sid i t =
     t\<lparr>tb_pending := List.insert i (tb_pending t),
       tb_open := dset sid (List.insert i (dget_default (tb_open t) sid [])) (tb_open t)\<rparr>"

text \<open>\<open>resolve_human_approval\<close> and \<open>resolve_patch_ack\<close>: a reply to no open request is dropped.\<close>

definition tb_resolve :: "string \<Rightarrow> 'r \<Rightarrow> 'r request_table \<Rightarrow> 'r request_table" where
  "tb_resolve i r t =
     (if i \<in> set (tb_pending t) then t\<lparr>tb_results := dset i r (tb_results t), tb_set := List.insert i (tb_set t)\<rparr> else t)"

text \<open>The loop of \<open>_reap_client_state\<close> over the open requests of a session.\<close>

definition tb_reap :: "string \<Rightarrow> 'r request_table \<Rightarrow> 'r request_table" where
  "tb_reap sid t =
     (let ids = dget_default (tb_open t) sid [] in
      t\<lparr>tb_open := AList.delete sid (tb_open t),
        tb_results := fold AList.delete ids (tb_results t),
        tb_set := filter (\<lambda>i. i \<in> set (tb_pending t)) ids @ tb_set t,
        tb_pending := filter (\<lambda>i. i \<notin> set ids) (tb_pending t)\<rparr>)"

text \<open>The \<open>finally\<close> clause of the waiting coroutine.\<close>

definition tb_forget :: "string \<Rightarrow> string \<Rightarrow> 'r request_table \<Rightarrow> 'r request_table" where
  "tb_forget sid i t =
     t\<lparr>tb_pending := removeAll i (tb_pending t),
       tb_open := (case dget (tb_open t) sid of
           None \<Rightarrow> tb_open t
         | Some ids \<Rightarrow> (let ids = removeAll i ids in
             if ids = [] then AList.delete sid (tb_open t) else dset sid ids (tb_open t)))\<rparr>"

text \<open>The coroutine resumed by its event, and resumed by its time limit.\<close>

definition tb_woken :: "string \<Rightarrow> string \<Rightarrow> 'r request_table \<Rightarrow> 'r option \<times> 'r request_table" where
  "tb_woken sid i t =
     (dget (tb_results t) i, tb_forget sid i (t\<lparr>tb_results := AList.delete i (tb_results t)\<rparr>))"

definition tb_expired :: "string \<Rightarrow> string \<Rightarrow> 'r request_table \<Rightarrow> 'r option \<times> 'r request_table" where
  "tb_expired sid i t = (None, tb_forget sid i t)"

subsection \<open>The coroutines around a table\<close>

datatype wait_phase = Suspended | TimedOut

record 'r exchange =
  ex_table :: "'r request_table"
  ex_waiters :: "(string, string \<times> wait_phase) dict"
  ex_outcomes :: "(string \<times> 'r option) list"

definition fresh_exchange :: "'r exchange" where
  "fresh_exchange = \<lparr>ex_table = empty_table, ex_waiters = [], ex_outcomes = []\<rparr>"

text \<open>
  A request is made under a new identifier; a reply comes in; the time limit strikes a coroutine
  that has not been resumed (its event may be set by then); a session is reaped; the loop resumes a coroutine.
\<close>

datatype 'r exchange_event =
    AskOperator string string
  | Reply string 'r
  | TimeLimit string
  | Reap string
  | ResumeWaiter string

definition resume_waiter :: "string \<Rightarrow> 'r exchange \<Rightarrow> 'r exchange" where
  "resume_waiter i x =
     (case dget (ex_waiters x) i of
        None \<Rightarrow> x
      | Some (sid, Suspended) \<Rightarrow>
          if i \<in> set (tb_set (ex_table x)) then
            (case tb_woken sid i (ex_table x) of (r, t) \<Rightarrow>
               x\<lparr>ex_table := t, ex_waiters := AList.delete i (ex_waiters x), ex_outcomes := ex_outcomes x @ [(i, r)]\<rparr>)
          else x
      | Some (sid, TimedOut) \<Rightarrow>
          (case tb_expired sid i (ex_table x) of (r, t) \<Rightarrow>
             x\<lparr>ex_table := t, ex_waiters := AList.delete i (ex_waiters x), ex_outcomes := ex_outcomes x @ [(i, r)]\<rparr>))"

fun exchange_step :: "'r exchange_event \<Rightarrow> 'r exchange \<Rightarrow> 'r exchange" where
  "exchange_step (AskOperator sid i) x =
     (if i \<in> set (dkeys (ex_waiters x)) \<union> fst ` set (ex_outcomes x) then x
      else x\<lparr>ex_table := tb_register sid i (ex_table x), ex_waiters := dset i (sid, Suspended) (ex_waiters x)\<rparr>)"
| "exchange_step (Reply i r) x =
     x\<lparr>ex_table := tb_resolve i r (ex_table x)\<rparr>"
| "exchange_step (TimeLimit i) x =
     (case dget (ex_waiters x) i of
        Some (sid, Suspended) \<Rightarrow> x\<lparr>ex_waiters := dset i (sid, TimedOut) (ex_waiters x)\<rparr>
      | _ \<Rightarrow> x)"
| "exchange_step (Reap sid) x = x\<lparr>ex_table := tb_reap sid (ex_table x)\<rparr>"
| "exchange_step (ResumeWaiter i) x = resume_waiter i x"

definition exchange_run :: "'r exchange_event list \<Rightarrow> 'r exchange" where
  "exchange_run es = fold exchange_step es fresh_exchange"

subsection \<open>What the tables guarantee\<close>

definition opened :: "'r request_table \<Rightarrow> string \<Rightarrow> string \<Rightarrow> bool" where
  "opened t sid i \<longleftrightarrow> i \<in> set (dget_default (tb_open t) sid [])"

lemma opened_empty [simp]: "opened empty_table s j = False"
  by (simp add: opened_def empty_table_def dget_default_def)

lemma opened_register [simp]:
  "opened (tb_register sid i t) s j \<longleftrightarrow> opened t s j \<or> s = sid \<and> j = i"
  by (auto simp: opened_def tb_register_def dget_default_def dget_dset)

lemma opened_resolve [simp]: "opened (tb_resolve i r t) s j \<longleftrightarrow> opened t s j"
  by (simp add: opened_def tb_resolve_def)

lemma opened_reap [simp]: "opened (tb_reap sid t) s j \<longleftrightarrow> s \<noteq> sid \<and> opened t s j"
  by (simp add: opened_def tb_reap_def Let_def dget_default_def delete_conv')

lemma opened_forget [simp]: "opened (tb_forget sid i t) s j \<longleftrightarrow> opened t s j \<and> (s = sid \<longrightarrow> j \<noteq> i)"
  by (auto simp: opened_def tb_forget_def Let_def dget_default_def dget_dset delete_conv' filter_empty_conv
      removeAll_filter_not_eq split: option.splits if_splits)

lemma opened_results [simp]: "opened (t\<lparr>tb_results := rs\<rparr>) s j \<longleftrightarrow> opened t s j"
  by (simp add: opened_def)

lemma dget_fold_delete: "dget (fold AList.delete ks d) k = (if k \<in> set ks then None else dget d k)"
  by (induction ks arbitrary: d) (auto simp: delete_conv')

lemma default_dset: "dget_default (dset k v d) k' w = (if k' = k then v else dget_default d k' w)"
  by (simp add: dget_default_def dget_dset)

lemma table_register [simp]:
  "set (tb_pending (tb_register sid i t)) = insert i (set (tb_pending t))"
  "tb_results (tb_register sid i t) = tb_results t" "tb_set (tb_register sid i t) = tb_set t"
  by (simp_all add: tb_register_def)

lemma table_reap [simp]:
  "set (tb_pending (tb_reap sid t)) = {i \<in> set (tb_pending t). \<not> opened t sid i}"
  "dget (tb_results (tb_reap sid t)) i = (if opened t sid i then None else dget (tb_results t) i)"
  "set (tb_set (tb_reap sid t)) = {i \<in> set (tb_pending t). opened t sid i} \<union> set (tb_set t)"
  by (auto simp: tb_reap_def Let_def opened_def dget_fold_delete)

lemma table_forget [simp]:
  "set (tb_pending (tb_forget sid i t)) = set (tb_pending t) - {i}"
  "tb_results (tb_forget sid i t) = tb_results t" "tb_set (tb_forget sid i t) = tb_set t"
  by (auto simp: tb_forget_def)

text \<open>
  What one request sees: a machine over the events of its own identifier and the reaps of its own
  session. No other request, reply or session occurs in it.
\<close>

datatype 'r request_state =
    Unasked
  | Open string "'r option"
  | Freed string
  | Expired string
  | Answered "'r option"

fun request_step :: "string \<Rightarrow> 'r exchange_event \<Rightarrow> 'r request_state \<Rightarrow> 'r request_state" where
  "request_step i (AskOperator sid j) Unasked = (if j = i then Open sid None else Unasked)"
| "request_step i (Reply j r) (Open sid v) = (if j = i then Open sid (Some r) else Open sid v)"
| "request_step i (TimeLimit j) (Open sid v) = (if j = i then Expired sid else Open sid v)"
| "request_step i (TimeLimit j) (Freed sid) = (if j = i then Expired sid else Freed sid)"
| "request_step i (Reap s) (Open sid v) = (if s = sid then Freed sid else Open sid v)"
| "request_step i (ResumeWaiter j) (Open sid v) = (if j = i \<and> v \<noteq> None then Answered v else Open sid v)"
| "request_step i (ResumeWaiter j) (Freed sid) = (if j = i then Answered None else Freed sid)"
| "request_step i (ResumeWaiter j) (Expired sid) = (if j = i then Answered None else Expired sid)"
| "request_step i e st = st"

definition request_run :: "string \<Rightarrow> 'r exchange_event list \<Rightarrow> 'r request_state" where
  "request_run i es = fold (request_step i) es Unasked"

definition outcomes_of :: "string \<Rightarrow> 'r exchange \<Rightarrow> 'r option list" where
  "outcomes_of i x = map snd (filter (\<lambda>out. fst out = i) (ex_outcomes x))"

fun sees :: "string \<Rightarrow> 'r exchange \<Rightarrow> 'r request_state \<Rightarrow> bool" where
  "sees i x Unasked \<longleftrightarrow>
     dget (ex_waiters x) i = None \<and> outcomes_of i x = [] \<and> i \<notin> set (tb_pending (ex_table x))
     \<and> dget (tb_results (ex_table x)) i = None \<and> i \<notin> set (tb_set (ex_table x)) \<and> (\<forall>s. \<not> opened (ex_table x) s i)"
| "sees i x (Open sid v) \<longleftrightarrow>
     dget (ex_waiters x) i = Some (sid, Suspended) \<and> outcomes_of i x = [] \<and> i \<in> set (tb_pending (ex_table x))
     \<and> dget (tb_results (ex_table x)) i = v \<and> (i \<in> set (tb_set (ex_table x)) \<longleftrightarrow> v \<noteq> None)
     \<and> (\<forall>s. opened (ex_table x) s i \<longleftrightarrow> s = sid)"
| "sees i x (Freed sid) \<longleftrightarrow>
     dget (ex_waiters x) i = Some (sid, Suspended) \<and> outcomes_of i x = [] \<and> i \<notin> set (tb_pending (ex_table x))
     \<and> dget (tb_results (ex_table x)) i = None \<and> i \<in> set (tb_set (ex_table x)) \<and> (\<forall>s. \<not> opened (ex_table x) s i)"
| "sees i x (Expired sid) \<longleftrightarrow>
     dget (ex_waiters x) i = Some (sid, TimedOut) \<and> outcomes_of i x = []
     \<and> (\<forall>s. s \<noteq> sid \<longrightarrow> \<not> opened (ex_table x) s i)"
| "sees i x (Answered v) \<longleftrightarrow>
     dget (ex_waiters x) i = None \<and> outcomes_of i x = [v] \<and> i \<notin> set (tb_pending (ex_table x))
     \<and> (\<forall>s. \<not> opened (ex_table x) s i)"

lemma known_ids: "i \<in> set (dkeys (ex_waiters x)) \<union> fst ` set (ex_outcomes x) \<longleftrightarrow>
    dget (ex_waiters x) i \<noteq> None \<or> outcomes_of i x \<noteq> []"
  by (auto simp: dget_None_iff outcomes_of_def filter_empty_conv)

lemma table_resolve [simp]:
  "set (tb_pending (tb_resolve i r t)) = set (tb_pending t)"
  "dget (tb_results (tb_resolve i r t)) j = (if j = i \<and> i \<in> set (tb_pending t) then Some r else dget (tb_results t) j)"
  "j \<in> set (tb_set (tb_resolve i r t)) \<longleftrightarrow> j = i \<and> i \<in> set (tb_pending t) \<or> j \<in> set (tb_set t)"
  by (auto simp: tb_resolve_def dget_dset)

lemma outcomes_of_kept [simp]: "outcomes_of i (x\<lparr>ex_table := t, ex_waiters := w\<rparr>) = outcomes_of i x"
  by (simp add: outcomes_of_def)

lemma sees_ask:
  assumes "sees i x st"
  shows "sees i (exchange_step (AskOperator sid j) x) (request_step i (AskOperator sid j) st)"
proof (cases "j \<in> set (dkeys (ex_waiters x)) \<union> fst ` set (ex_outcomes x)")
  case True
  then have "dget (ex_waiters x) j \<noteq> None \<or> outcomes_of j x \<noteq> []" by (simp only: known_ids)
  then have "i = j \<Longrightarrow> st \<noteq> Unasked" using assms by auto
  moreover have "exchange_step (AskOperator sid j) x = x" using True by simp
  ultimately show ?thesis using assms by (cases st) auto
next
  case False
  then have "\<not> (dget (ex_waiters x) j \<noteq> None \<or> outcomes_of j x \<noteq> [])" by (simp only: known_ids not_False_eq_True)
  then have new: "dget (ex_waiters x) j = None" "outcomes_of j x = []" by blast+
  have "exchange_step (AskOperator sid j) x =
      x\<lparr>ex_table := tb_register sid j (ex_table x), ex_waiters := dset j (sid, Suspended) (ex_waiters x)\<rparr>"
    using False by simp
  then show ?thesis
    using assms new by (cases "i = j"; cases st) (simp_all add: dget_dset del: exchange_step.simps)
qed

lemma sees_reply: "sees i x st \<Longrightarrow> sees i (exchange_step (Reply j r) x) (request_step i (Reply j r) st)"
  by (cases st) (auto simp: outcomes_of_def)

lemma sees_limit: "sees i x st \<Longrightarrow> sees i (exchange_step (TimeLimit j) x) (request_step i (TimeLimit j) st)"
  by (cases st) (auto simp: outcomes_of_def dget_dset split: option.split wait_phase.split)

lemma sees_reap: "sees i x st \<Longrightarrow> sees i (exchange_step (Reap s) x) (request_step i (Reap s) st)"
  by (cases st) (auto simp: outcomes_of_def)

lemma sees_resume: "sees i x st \<Longrightarrow> sees i (exchange_step (ResumeWaiter j) x) (request_step i (ResumeWaiter j) st)"
  by (cases st)
     (auto simp: resume_waiter_def tb_woken_def tb_expired_def outcomes_of_def delete_conv' split: option.split wait_phase.split)

lemma sees_step: "sees i x st \<Longrightarrow> sees i (exchange_step e x) (request_step i e st)"
  by (cases e) (simp_all only: sees_ask sees_reply sees_limit sees_reap sees_resume)

lemma exchange_run_snoc: "exchange_run (es @ [e]) = exchange_step e (exchange_run es)"
  by (simp add: exchange_run_def)

lemma request_run_snoc: "request_run i (es @ [e]) = request_step i e (request_run i es)"
  by (simp add: request_run_def)

lemma sees_run: "sees i (exchange_run es) (request_run i es)"
proof (induction es rule: rev_induct)
  case Nil
  show ?case
    by (simp add: exchange_run_def request_run_def fresh_exchange_def outcomes_of_def)
       (simp add: empty_table_def)
next
  case (snoc e es)
  then show ?case by (simp add: exchange_run_snoc request_run_snoc sees_step)
qed

text \<open>
  C12. A request that waits for the editor is answered at most once, and its outcome is the one its
  own events give: whatever other requests, replies and closed sockets are interleaved with it, the
  tables behave for it as a machine that reads only the events under its identifier and the closing
  of its session.
\<close>

theorem requests_do_not_interfere:
  "outcomes_of i (exchange_run es) = (case request_run i es of Answered v \<Rightarrow> [v] | _ \<Rightarrow> [])"
  using sees_run [of i es] by (cases "request_run i es") simp_all

lemma reaped_run:
  "fold (request_step i) (map Reap owned) st =
     (case st of Open sid v \<Rightarrow> if sid \<in> set owned then Freed sid else st | _ \<Rightarrow> st)"
  by (induction owned arbitrary: st) (auto split: request_state.splits)

text \<open>What the close of a socket does to the table: every session the socket owned is reaped.\<close>

definition close_events :: "string \<Rightarrow> socket option \<Rightarrow> connections \<Rightarrow> 'r exchange_event list" where
  "close_events cid sock c = map Reap (fst (disconnect cid sock c))"

text \<open>A stale close: another socket has taken over the connection id in the meantime.\<close>

definition stale_close :: "string \<Rightarrow> socket option \<Rightarrow> connections \<Rightarrow> bool" where
  "stale_close cid sock c =
     (case (sock, dget (active c) cid) of (Some s, Some current) \<Rightarrow> current \<noteq> s | _ \<Rightarrow> False)"

definition rides_on :: "string \<Rightarrow> connections \<Rightarrow> string \<Rightarrow> bool" where
  "rides_on cid c sid \<longleftrightarrow> sid = cid \<or> sid \<in> set (dget_default (aliases c) cid [])"

lemma disconnect_owned: "sid \<in> set (fst (disconnect cid sock c)) \<longleftrightarrow> \<not> stale_close cid sock c \<and> rides_on cid c sid"
  by (auto simp: disconnect_def stale_close_def rides_on_def Let_def split: option.split)

lemma disconnect_unroutes:
  "has_client (snd (disconnect cid sock c)) sid \<longleftrightarrow> has_client c sid \<and> (stale_close cid sock c \<or> \<not> rides_on cid c sid)"
  by (auto simp: disconnect_def stale_close_def rides_on_def has_client_def dget_fold_delete Let_def split: option.split)

lemma resumed_after_close:
  assumes "dget (ex_waiters (exchange_run es)) i = Some (sid, ph)"
  shows "request_run i (es @ close_events cid sock c @ [ResumeWaiter i]) =
     (if \<not> stale_close cid sock c \<and> rides_on cid c sid then Answered None else request_run i (es @ [ResumeWaiter i]))"
  using assms sees_run [of i es]
  by (cases "request_run i es")
    (auto simp: request_run_def close_events_def reaped_run disconnect_owned simp flip: map_append)

text \<open>
  C18. The close of a socket frees exactly the coroutines that wait on it. Unless another socket has
  taken over its connection id, in which case the close changes nothing, the connection id and every
  session aliased onto it stop being routed, and every coroutine that waits under one of them is
  answered at its next resumption, with no decision, whatever had been buffered for it; a coroutine
  that waits under any other session gets at its next resumption what it would have got without the
  close, and the other sessions stay routed.
\<close>

theorem closed_socket_frees_waiters:
  "list_all (\<lambda>i. case dget (ex_waiters (exchange_run es)) i of
        None \<Rightarrow> True
      | Some (sid, _) \<Rightarrow>
          outcomes_of i (exchange_run (es @ close_events cid sock c @ [ResumeWaiter i])) =
            (if \<not> stale_close cid sock c \<and> rides_on cid c sid then [None]
             else outcomes_of i (exchange_run (es @ [ResumeWaiter i]))))
     (dkeys (ex_waiters (exchange_run es)))
   \<and> (has_client (snd (disconnect cid sock c)) other \<longleftrightarrow>
        has_client c other \<and> \<not> (\<not> stale_close cid sock c \<and> rides_on cid c other))"
proof -
  have "outcomes_of i (exchange_run (es @ close_events cid sock c @ [ResumeWaiter i])) =
      (if \<not> stale_close cid sock c \<and> rides_on cid c sid then [None]
       else outcomes_of i (exchange_run (es @ [ResumeWaiter i])))"
    if "dget (ex_waiters (exchange_run es)) i = Some (sid, ph)" for i sid ph
    using resumed_after_close [OF that, of cid sock c]
      sees_run [of i "es @ close_events cid sock c @ [ResumeWaiter i]"] sees_run [of i "es @ [ResumeWaiter i]"]
    by (cases "request_run i (es @ [ResumeWaiter i])") (auto split: if_splits)
  then show ?thesis by (auto simp: list_all_iff disconnect_unroutes split: option.split)
qed

text \<open>
  A reply that comes before its waiter is registered is dropped; the patch pipeline and the bridge to
  the container send their request first and register the waiter afterwards.
\<close>

lemma early_reply_dropped:
  assumes "request_run i es = Unasked"
  shows "request_run i (es @ [Reply i r, AskOperator sid i, ResumeWaiter i]) = Open sid None"
  using assms by (simp add: request_run_def)

text \<open>A decision that arrives between the time limit and the resumption is lost, and its reply is kept for ever.\<close>

lemma decision_after_limit_lost:
  "outcomes_of i (exchange_run [AskOperator sid i, TimeLimit i, Reply i r, ResumeWaiter i]) = [None]"
  "dget (tb_results (ex_table (exchange_run [AskOperator sid i, TimeLimit i, Reply i r, ResumeWaiter i]))) i = Some r"
proof -
  show "outcomes_of i (exchange_run [AskOperator sid i, TimeLimit i, Reply i r, ResumeWaiter i]) = [None]"
    using sees_run [of i "[AskOperator sid i, TimeLimit i, Reply i r, ResumeWaiter i]"] by (simp add: request_run_def)
  show "dget (tb_results (ex_table (exchange_run [AskOperator sid i, TimeLimit i, Reply i r, ResumeWaiter i]))) i = Some r"
    by (simp add: exchange_run_def fresh_exchange_def resume_waiter_def tb_expired_def dget_dset)
qed

subsection \<open>What routing guarantees, and what it does not\<close>

lemma disconnect_owner:
  assumes "dget (active c) cid = Some sock"
  shows "disconnect cid (Some sock) c =
     (let owned = List.insert cid (dget_default (aliases c) cid []) in
      (owned, c\<lparr>active := fold AList.delete owned (active c), aliases := AList.delete cid (aliases c)\<rparr>))"
  using assms by (simp add: disconnect_def)

lemma close_unroutes_owned:
  assumes "dget (active c) cid = Some sock"
  shows "has_client (snd (disconnect cid (Some sock) c)) sid \<longleftrightarrow>
     has_client c sid \<and> sid \<noteq> cid \<and> sid \<notin> set (dget_default (aliases c) cid [])"
  using assms by (auto simp: disconnect_owner Let_def has_client_def dget_fold_delete)

lemma stale_close_ignored:
  "dget (active c) cid = Some current \<Longrightarrow> current \<noteq> sock \<Longrightarrow> disconnect cid (Some sock) c = ([], c)"
  by (simp add: disconnect_def)

lemma register_active:
  assumes "dget (active c) cid = Some sock"
  shows "dget (active (register_alias sid cid c)) k = (if k = sid then Some sock else dget (active c) k)"
  using assms by (simp add: register_alias_def dget_dset)

lemma register_aliases:
  assumes "dget (active c) cid = Some sock"
  shows "dget_default (aliases (register_alias sid cid c)) k [] =
     (if k = cid then List.insert sid (dget_default (aliases c) cid []) else dget_default (aliases c) k [])"
  using assms by (simp add: register_alias_def default_dset)

text \<open>A session announced again on another connection is torn down when the first connection closes.\<close>

lemma moved_session_torn_down:
  assumes a: "dget (active c) first_window = Some a" and b: "dget (active c) second_window = Some b"
    and ids: "sid \<noteq> first_window" "second_window \<noteq> first_window"
  defines "c' \<equiv> register_alias sid second_window (register_alias sid first_window c)"
  shows "fst (route sid c') = (if sid = second_window then Some a else Some b)"
    "sid \<in> set (fst (disconnect first_window (Some a) c'))"
    "\<not> has_client (snd (disconnect first_window (Some a) c')) sid"
proof -
  let ?c = "register_alias sid first_window c"
  have one: "dget (active ?c) second_window = Some (if second_window = sid then a else b)" "dget (active ?c) first_window = Some a"
    "sid \<in> set (dget_default (aliases ?c) first_window [])"
    using a b ids by (simp_all add: register_active [OF a] register_aliases [OF a])
  have two: "dget (active c') first_window = Some a" "dget (active c') sid = Some (if second_window = sid then a else b)"
    "sid \<in> set (dget_default (aliases c') first_window [])"
    using one ids by (simp_all add: c'_def register_active [OF one(1)] register_aliases [OF one(1)])
  show "fst (route sid c') = (if sid = second_window then Some a else Some b)"
    using two(2) by (simp add: route_def has_client_def)
  show "sid \<in> set (fst (disconnect first_window (Some a) c'))"
    using two(3) by (simp add: disconnect_owner [OF two(1)] Let_def)
  show "\<not> has_client (snd (disconnect first_window (Some a) c')) sid"
    using two(3) close_unroutes_owned [OF two(1)] by simp
qed

text \<open>
  A connection that is taken over under its own id leaves its aliases on the dead socket until each
  session is announced again, and the close of the dead socket does not clear them.
\<close>

lemma takeover_leaves_dead_route:
  assumes "dget (active c) cid = Some dead" and "sid \<noteq> cid" and "\<not> shutting_down c" and "fresh_sock \<noteq> dead"
  defines "c' \<equiv> snd (ws_connect cid fresh_sock None None (register_alias sid cid c))"
  shows "fst (route sid c') = Some dead" "snd (disconnect cid (Some dead) c') = c'"
  using assms by (auto simp: c'_def ws_connect_def register_alias_def route_def has_client_def disconnect_def str_or_def dget_dset)

text \<open>
  The last turn of a closed window: with one other window live, the events that a running turn still
  sends for its session go to that window, which never announced the session.
\<close>

lemma orphan_events_reach_other_window:
  assumes "active c = [(w1, a), (w2, b)]" and "aliases c = []" and "w1 \<noteq> w2" and "sid \<noteq> w1" and "sid \<noteq> w2"
  shows "fst (route sid (snd (disconnect w1 (Some a) (register_alias sid w1 c)))) = Some b"
  using assms by (simp add: route_def register_alias_def disconnect_def has_client_def recover_alias_def dget_default_def Let_def)

text \<open>With several live windows, and with none, an event whose session has no route is dropped.\<close>

lemma unroutable_event_dropped:
  assumes "\<not> has_client c sid" and "length (filter (\<lambda>cid. cid \<notin> set (concat (map snd (aliases c)))) (dkeys (active c))) \<noteq> 1"
  shows "send_personal_message sid ev c = (None, c)"
  using assms by (simp add: send_personal_message_def route_def recover_alias_def Let_def)

subsection \<open>Commands in the container\<close>

text \<open>
  \<open>wait_devcontainer_provision\<close> keeps its state in the same kind of table; its \<open>finally\<close> clause
  drops a late state too. Interim ticks do not wake the waiter.
\<close>

definition resolve_provision :: "string \<Rightarrow> string \<Rightarrow> string request_table \<Rightarrow> string request_table" where
  "resolve_provision i state t = (if state = ''provisioning'' then t else tb_resolve i state t)"

definition provision_forget :: "string \<Rightarrow> string \<Rightarrow> string request_table \<Rightarrow> string request_table" where
  "provision_forget sid i t = tb_forget sid i (t\<lparr>tb_results := AList.delete i (tb_results t)\<rparr>)"

definition provision_outcome :: "string \<Rightarrow> bool \<Rightarrow> string request_table \<Rightarrow> string option" where
  "provision_outcome i expired t = (if expired then None else dget (tb_results t) i)"

definition ensure_provisioned :: "string option \<Rightarrow> bool" where
  "ensure_provisioned state \<longleftrightarrow> state = Some ''ready''"

text \<open>The tables of the running commands; a chunk is the stream it came on and its text.\<close>

record exec_table =
  xe_waiting :: "string list"
  xe_buffers :: "(string, (string, string list) dict) dict"
  xe_exit :: "(string, int) dict"

definition no_execs :: exec_table where
  "no_execs = \<lparr>xe_waiting = [], xe_buffers = [], xe_exit = []\<rparr>"

definition exec_register :: "string \<Rightarrow> exec_table \<Rightarrow> exec_table" where
  "exec_register i t =
     t\<lparr>xe_waiting := List.insert i (xe_waiting t), xe_buffers := dset i [(''stdout'', []), (''stderr'', [])] (xe_buffers t)\<rparr>"

definition append_stream :: "string \<Rightarrow> string \<Rightarrow> string \<Rightarrow> exec_table \<Rightarrow> exec_table" where
  "append_stream i stream chunk t =
     (case dget (xe_buffers t) i of
        None \<Rightarrow> t
      | Some buf \<Rightarrow> t\<lparr>xe_buffers := dset i (dset stream (dget_default buf stream [] @ [chunk]) buf) (xe_buffers t)\<rparr>)"

definition resolve_exit :: "string \<Rightarrow> int \<Rightarrow> exec_table \<Rightarrow> exec_table" where
  "resolve_exit i code t = (if i \<in> set (xe_waiting t) then t\<lparr>xe_exit := dset i code (xe_exit t)\<rparr> else t)"

definition exec_reap :: "string \<Rightarrow> exec_table \<Rightarrow> exec_table" where
  "exec_reap i t = t\<lparr>xe_buffers := AList.delete i (xe_buffers t), xe_exit := AList.delete i (xe_exit t), xe_waiting := removeAll i (xe_waiting t)\<rparr>"

text \<open>\<open>wait_devcontainer_exec\<close> when its event wakes it: standard output, standard error, exit code.\<close>

definition exec_woken :: "string \<Rightarrow> exec_table \<Rightarrow> (string \<times> string \<times> int) option" where
  "exec_woken i t =
     (case dget (xe_exit t) i of
        None \<Rightarrow> None
      | Some code \<Rightarrow>
          (let buf = dget_default (xe_buffers t) i [(''stdout'', []), (''stderr'', [])] in
           Some (concat (dget_default buf ''stdout'' []), concat (dget_default buf ''stderr'' []), code)))"

text \<open>\<open>exec_command\<close>: no reply is exit code -1 with a note.\<close>

definition exec_command :: "(string \<times> string \<times> int) option \<Rightarrow> int \<times> string \<times> string" where
  "exec_command result =
     (case result of
        None \<Rightarrow> (-1, [], ''[devcontainer_exec_no_reply]'')
      | Some (out, err, code) \<Rightarrow> (code, out, err))"

text \<open>\<open>_forward_devc_chunk_live\<close>: the budget of a command, and the chunk shown while it
  runs, if any. The typographic dots and dash of the notice are written in ASCII.\<close>

record live_activity =
  la_sent :: nat
  la_suppressed :: bool

definition forward_live :: "(string \<Rightarrow> string) \<Rightarrow> string \<Rightarrow> string \<Rightarrow> live_activity \<Rightarrow> (string \<times> string) option \<times> live_activity" where
  "forward_live mask_secrets stream chunk a =
     (if la_suppressed a then (None, a)
      else if 16000 \<le> la_sent a then
        (Some (''stderr'', [CHR 0x0A] @ ''...live output suppressed - full result on completion...'' @ [CHR 0x0A]), a\<lparr>la_suppressed := True\<rparr>)
      else (Some (stream, mask_secrets chunk), a\<lparr>la_sent := la_sent a + length chunk\<rparr>))"

lemma append_other: "j \<noteq> i \<Longrightarrow> dget (xe_buffers (append_stream j st c t)) i = dget (xe_buffers t) i"
  by (simp add: append_stream_def dget_dset split: option.split)

lemma append_fields [simp]:
  "xe_waiting (append_stream j st c t) = xe_waiting t" "xe_exit (append_stream j st c t) = xe_exit t"
  by (simp_all add: append_stream_def split: option.split)

lemma append_run:
  assumes "dget (xe_buffers t) i = Some buf"
  shows "\<exists>buf'. dget (xe_buffers (fold (\<lambda>(j, st, c). append_stream j st c) chunks t)) i = Some buf'
     \<and> (\<forall>st. dget_default buf' st [] = dget_default buf st [] @ map (snd \<circ> snd) (filter (\<lambda>(j, st', _). j = i \<and> st' = st) chunks))"
  using assms
proof (induction chunks arbitrary: t buf)
  case Nil
  then show ?case by simp
next
  case (Cons e chunks)
  obtain j st c where e: "e = (j, st, c)" by (cases e) auto
  show ?case
  proof (cases "j = i")
    case True
    have "dget (xe_buffers (append_stream j st c t)) i = Some (dset st (dget_default buf st [] @ [c]) buf)"
      using Cons.prems True by (simp add: append_stream_def dget_dset)
    from Cons.IH [OF this] show ?thesis using e True by (auto simp: default_dset)
  next
    case False
    then have "dget (xe_buffers (append_stream j st c t)) i = Some buf" using Cons.prems append_other by simp
    from Cons.IH [OF this] show ?thesis using e False by auto
  qed
qed

lemma fold_append_fields:
  "xe_waiting (fold (\<lambda>(j, st, c). append_stream j st c) chunks t) = xe_waiting t"
  by (induction chunks arbitrary: t) auto

text \<open>
  The result of a command in the container is, per stream, the concatenation of the chunks that came
  for it between its request and its exit, whatever chunks of other commands came between them.
\<close>

lemma exec_collects_output:
  "exec_woken i (resolve_exit i code (fold (\<lambda>(j, st, c). append_stream j st c) chunks (exec_register i t))) =
     Some (concat (map (snd \<circ> snd) (filter (\<lambda>(j, st, _). j = i \<and> st = ''stdout'') chunks)),
           concat (map (snd \<circ> snd) (filter (\<lambda>(j, st, _). j = i \<and> st = ''stderr'') chunks)), code)"
proof -
  let ?t = "fold (\<lambda>(j, st, c). append_stream j st c) chunks (exec_register i t)"
  have "dget (xe_buffers (exec_register i t)) i = Some [(''stdout'', []), (''stderr'', [])]"
    by (simp add: exec_register_def dget_dset)
  note run = append_run [OF this, of chunks]
  have empty: "dget_default [(''stdout'', []), (''stderr'', [])] st [] = ([] :: string list)" for st
    by (simp add: dget_default_def)
  obtain buf where buf: "dget (xe_buffers ?t) i = Some buf"
    and st: "dget_default buf st [] = map (snd \<circ> snd) (filter (\<lambda>(j, st', _). j = i \<and> st' = st) chunks)" for st
    using run unfolding empty append_Nil by blast
  have "i \<in> set (xe_waiting ?t)" by (simp add: fold_append_fields exec_register_def)
  then show ?thesis by (simp add: exec_woken_def resolve_exit_def dget_dset st buf dget_default_def [of "xe_buffers ?t"])
qed

text \<open>The budget is tested before the chunk is counted, so the last chunk shown may exceed it; the notice comes once.\<close>

lemma live_budget_overshoots_by_one_chunk:
  "la_sent (snd (forward_live hide stream chunk a)) \<le> max (la_sent a) (15999 + length chunk)"
  by (simp add: forward_live_def)

lemma live_notice_once: "16000 \<le> la_sent a \<Longrightarrow>
    fst (forward_live hide st2 c2 (snd (forward_live hide st1 c1 a))) = None"
  by (simp add: forward_live_def)

subsection \<open>Interactive sessions in the container\<close>

text \<open>
  \<open>_devc_session_queues\<close> and its companions. A queue object outlives its entry in the map, because
  the consumer holds it; so objects are kept by session reference, beside the references registered.
  An entry \<open>None\<close> of a queue is the end-of-stream mark.
\<close>

type_synonym chunk = "nat list"

record session_bridge =
  sb_queues :: "(string, chunk option list) dict"
  sb_registered :: "string list"
  sb_dropped :: "(string, nat) dict"
  sb_paused :: "string list"
  sb_exit :: "(string, int) dict"
  sb_open :: "(string, string list) dict"

definition fresh_bridge :: session_bridge where
  "fresh_bridge = \<lparr>sb_queues = [], sb_registered = [], sb_dropped = [], sb_paused = [], sb_exit = [], sb_open = []\<rparr>"

definition session_queue :: "string \<Rightarrow> session_bridge \<Rightarrow> chunk option list" where
  "session_queue r b = dget_default (sb_queues b) r []"

definition put_nowait :: "'a \<Rightarrow> 'a list \<Rightarrow> 'a list option" where
  "put_nowait v q = (if length q < 256 then Some (q @ [v]) else None)"

definition force_end :: "chunk option list \<Rightarrow> chunk option list" where
  "force_end q = (case put_nowait None q of Some q \<Rightarrow> q | None \<Rightarrow> tl q @ [None])"

definition register_session_queue :: "string \<Rightarrow> string \<Rightarrow> session_bridge \<Rightarrow> session_bridge" where
  "register_session_queue sid r b =
     (if r \<in> set (sb_registered b) then b
      else b\<lparr>sb_queues := dset r [] (sb_queues b), sb_registered := r # sb_registered b, sb_dropped := dset r 0 (sb_dropped b),
             sb_open := dset sid (List.insert r (dget_default (sb_open b) sid [])) (sb_open b)\<rparr>)"

definition unregister_session :: "string \<Rightarrow> string \<Rightarrow> session_bridge \<Rightarrow> session_bridge" where
  "unregister_session sid r b =
     b\<lparr>sb_queues := (if r \<in> set (sb_registered b) then dset r (force_end (session_queue r b)) (sb_queues b) else sb_queues b),
       sb_registered := removeAll r (sb_registered b),
       sb_dropped := AList.delete r (sb_dropped b),
       sb_paused := removeAll r (sb_paused b),
       sb_exit := AList.delete r (sb_exit b),
       sb_open := (case dget (sb_open b) sid of
           None \<Rightarrow> sb_open b
         | Some refs \<Rightarrow> (let refs = removeAll r refs in
             if refs = [] then AList.delete sid (sb_open b) else dset sid refs (sb_open b)))\<rparr>"

text \<open>\<open>_update_devc_session_flow_state\<close>, with the high and low water marks 192 and 64.\<close>

definition update_flow :: "string \<Rightarrow> session_bridge \<Rightarrow> bool option \<times> session_bridge" where
  "update_flow r b =
     (if r \<notin> set (sb_registered b) then (None, b)
      else (let n = length (session_queue r b) in
        if 192 \<le> n \<and> r \<notin> set (sb_paused b) then (Some True, b\<lparr>sb_paused := r # sb_paused b\<rparr>)
        else if n \<le> 64 \<and> r \<in> set (sb_paused b) then (Some False, b\<lparr>sb_paused := removeAll r (sb_paused b)\<rparr>)
        else (None, b)))"

text \<open>\<open>push_devcontainer_session_chunk\<close>; the argument is the chunk decoded from base64, if it decodes.\<close>

definition push_chunk :: "string \<Rightarrow> chunk option \<Rightarrow> session_bridge \<Rightarrow> bool option \<times> session_bridge" where
  "push_chunk r decoded b =
     (if r \<notin> set (sb_registered b) then (None, b)
      else (case decoded of
          None \<Rightarrow> (None, b)
        | Some c \<Rightarrow> (case put_nowait (Some c) (session_queue r b) of
            None \<Rightarrow> (None, b\<lparr>sb_dropped := dset r (dget_default (sb_dropped b) r 0 + 1) (sb_dropped b)\<rparr>)
          | Some q \<Rightarrow> update_flow r (b\<lparr>sb_queues := dset r q (sb_queues b)\<rparr>))))"

definition session_exit :: "string \<Rightarrow> int \<Rightarrow> session_bridge \<Rightarrow> session_bridge" where
  "session_exit r code b =
     (let b = b\<lparr>sb_exit := dset r code (sb_exit b)\<rparr> in
      if r \<in> set (sb_registered b) then b\<lparr>sb_queues := dset r (force_end (session_queue r b)) (sb_queues b)\<rparr> else b)"

definition pop_session_exit :: "string \<Rightarrow> session_bridge \<Rightarrow> int option \<times> session_bridge" where
  "pop_session_exit r b = (dget (sb_exit b) r, b\<lparr>sb_exit := AList.delete r (sb_exit b)\<rparr>)"

text \<open>
  One turn of \<open>_demux_loop\<close>: what was taken from the queue, the flow frame sent after it, and
  whether the consumer has come to the end of the stream (its \<open>finally\<close> clause unregisters).
\<close>

definition demux_turn :: "string \<Rightarrow> string \<Rightarrow> session_bridge \<Rightarrow> chunk option \<times> bool option \<times> session_bridge" where
  "demux_turn sid r b =
     (case session_queue r b of
        [] \<Rightarrow> (None, None, b)
      | None # q \<Rightarrow> (None, None, unregister_session sid r (b\<lparr>sb_queues := dset r q (sb_queues b)\<rparr>))
      | Some c # q \<Rightarrow>
          (case update_flow r (b\<lparr>sb_queues := dset r q (sb_queues b)\<rparr>) of (fl, b) \<Rightarrow> (Some c, fl, b)))"

definition option_list :: "'a option \<Rightarrow> 'a list" where
  "option_list v = (case v of None \<Rightarrow> [] | Some x \<Rightarrow> [x])"

text \<open>The chunks the editor sends for a session and the turns of its consumer, in any order with other sessions.\<close>

datatype tunnel_event = Pushed string "chunk option" | Taken string string | Registered string string

record tunnel =
  tu_bridge :: session_bridge
  tu_taken :: "(string \<times> chunk) list"
  tu_frames :: "(string \<times> bool) list"

definition fresh_tunnel :: tunnel where
  "fresh_tunnel = \<lparr>tu_bridge = fresh_bridge, tu_taken = [], tu_frames = []\<rparr>"

fun tunnel_step :: "tunnel_event \<Rightarrow> tunnel \<Rightarrow> tunnel" where
  "tunnel_step (Pushed r c) u =
     (case push_chunk r c (tu_bridge u) of (fl, b) \<Rightarrow>
        u\<lparr>tu_bridge := b, tu_frames := tu_frames u @ map (Pair r) (option_list fl)\<rparr>)"
| "tunnel_step (Taken sid r) u =
     (case demux_turn sid r (tu_bridge u) of (c, fl, b) \<Rightarrow>
        u\<lparr>tu_bridge := b, tu_taken := tu_taken u @ map (Pair r) (option_list c),
          tu_frames := tu_frames u @ map (Pair r) (option_list fl)\<rparr>)"
| "tunnel_step (Registered sid r) u = u\<lparr>tu_bridge := register_session_queue sid r (tu_bridge u)\<rparr>"

definition tunnel_run :: "tunnel_event list \<Rightarrow> tunnel" where
  "tunnel_run es = fold tunnel_step es fresh_tunnel"

definition taken_of :: "string \<Rightarrow> tunnel \<Rightarrow> chunk list" where
  "taken_of r u = map snd (filter (\<lambda>v. fst v = r) (tu_taken u))"

definition frames_of :: "string \<Rightarrow> tunnel \<Rightarrow> bool list" where
  "frames_of r u = map snd (filter (\<lambda>v. fst v = r) (tu_frames u))"

definition dropped_of :: "string \<Rightarrow> tunnel \<Rightarrow> nat" where
  "dropped_of r u = dget_default (sb_dropped (tu_bridge u)) r 0"

definition queue_of :: "string \<Rightarrow> tunnel \<Rightarrow> chunk option list" where
  "queue_of r u = session_queue r (tu_bridge u)"

definition paused_of :: "string \<Rightarrow> tunnel \<Rightarrow> bool" where
  "paused_of r u \<longleftrightarrow> r \<in> set (sb_paused (tu_bridge u))"

definition sent_chunks :: "string \<Rightarrow> tunnel_event list \<Rightarrow> chunk list" where
  "sent_chunks r es = concat (map (\<lambda>e. case e of Pushed r' (Some c) \<Rightarrow> if r' = r then [c] else [] | _ \<Rightarrow> []) es)"

definition alternates :: "bool list \<Rightarrow> bool" where
  "alternates fs \<longleftrightarrow> fs = map even [0..<length fs]"

lemma alternates_simps [simp]: "alternates []" "alternates (fs @ [f]) \<longleftrightarrow> alternates fs \<and> f = even (length fs)"
  by (auto simp: alternates_def)

text \<open>What the tables hold for one session reference, and how the water marks settle.\<close>

definition bridge_view :: "string \<Rightarrow> session_bridge \<Rightarrow> bool \<times> chunk option list \<times> nat \<times> bool" where
  "bridge_view r b =
     (r \<in> set (sb_registered b), session_queue r b, dget_default (sb_dropped b) r 0, r \<in> set (sb_paused b))"

definition settle_flow :: "chunk option list \<Rightarrow> bool \<Rightarrow> bool \<times> bool list" where
  "settle_flow q p =
     (if 192 \<le> length q \<and> \<not> p then (True, [True]) else if length q \<le> 64 \<and> p then (False, [False]) else (p, []))"

lemma session_queue_set [simp]:
  "session_queue r (b\<lparr>sb_queues := dset r' q (sb_queues b)\<rparr>) = (if r' = r then q else session_queue r b)"
  by (simp add: session_queue_def dget_default_def dget_dset)

lemma session_queue_keep [simp]:
  "session_queue r (b\<lparr>sb_paused := ps\<rparr>) = session_queue r b"
  "session_queue r (b\<lparr>sb_dropped := d\<rparr>) = session_queue r b"
  "session_queue r (b\<lparr>sb_registered := rs, sb_dropped := d, sb_open := oo\<rparr>) = session_queue r b"
  by (simp_all add: session_queue_def)

lemma update_flow_other: "r' \<noteq> r \<Longrightarrow> bridge_view r (snd (update_flow r' b)) = bridge_view r b"
  by (auto simp: update_flow_def bridge_view_def Let_def)

lemma update_flow_own:
  assumes "r \<in> set (sb_registered b)"
  shows "option_list (fst (update_flow r b)) = snd (settle_flow (session_queue r b) (r \<in> set (sb_paused b)))"
    "bridge_view r (snd (update_flow r b)) =
       (True, session_queue r b, dget_default (sb_dropped b) r 0, fst (settle_flow (session_queue r b) (r \<in> set (sb_paused b))))"
  using assms by (auto simp: update_flow_def settle_flow_def option_list_def bridge_view_def Let_def)

lemma update_flow_fields: "sb_queues (snd (update_flow r b)) = sb_queues b"
  by (auto simp: update_flow_def Let_def)

lemma push_other: "r' \<noteq> r \<Longrightarrow> bridge_view r (snd (push_chunk r' c b)) = bridge_view r b"
  by (auto simp: push_chunk_def update_flow_other split: option.split)
     (auto simp: bridge_view_def dget_default_def dget_dset)

lemma push_own:
  assumes "bridge_view r b = (True, q, d, p)"
  shows "option_list (fst (push_chunk r (Some c) b)) = (if length q < 256 then snd (settle_flow (q @ [Some c]) p) else [])"
    "bridge_view r (snd (push_chunk r (Some c) b)) =
       (if length q < 256 then (True, q @ [Some c], d, fst (settle_flow (q @ [Some c]) p)) else (True, q, Suc d, p))"
  using assms
  by (auto simp: push_chunk_def put_nowait_def bridge_view_def [of r b] update_flow_own)
     (auto simp: bridge_view_def option_list_def dget_default_def dget_dset)

lemma push_undecoded: "push_chunk r None b = (None, b)"
  by (simp add: push_chunk_def)

lemma demux_other:
  assumes "r' \<noteq> r" and "None \<notin> set (session_queue r' b)"
  shows "bridge_view r (snd (snd (demux_turn sid r' b))) = bridge_view r b"
  using assms update_flow_other [OF assms(1)]
  by (auto simp: demux_turn_def split: list.split option.split prod.split) (auto simp: bridge_view_def)

lemma demux_own:
  assumes "bridge_view r b = (True, Some c # q, d, p)"
  shows "demux_turn sid r b =
      (Some c, fst (update_flow r (b\<lparr>sb_queues := dset r q (sb_queues b)\<rparr>)), snd (update_flow r (b\<lparr>sb_queues := dset r q (sb_queues b)\<rparr>)))"
    "option_list (fst (update_flow r (b\<lparr>sb_queues := dset r q (sb_queues b)\<rparr>))) = snd (settle_flow q p)"
    "bridge_view r (snd (update_flow r (b\<lparr>sb_queues := dset r q (sb_queues b)\<rparr>))) = (True, q, d, fst (settle_flow q p))"
  using assms by (auto simp: demux_turn_def bridge_view_def [of r b] update_flow_own split: prod.split)

lemma demux_empty: "session_queue r b = [] \<Longrightarrow> demux_turn sid r b = (None, None, b)"
  by (simp add: demux_turn_def)

lemma register_own:
  "bridge_view r b = (True, q, d, p) \<Longrightarrow> register_session_queue sid r b = b"
  by (simp add: register_session_queue_def bridge_view_def)

lemma register_other: "r' \<noteq> r \<Longrightarrow> bridge_view r (register_session_queue sid r' b) = bridge_view r b"
  by (auto simp: register_session_queue_def bridge_view_def dget_default_def dget_dset session_queue_def)

lemma settle_cases:
  assumes "if p then 64 < length q else length q < 192" and "length q' = Suc (length q) \<or> length q = Suc (length q')"
  shows "if fst (settle_flow q' p) then 64 < length q' else length q' < 192"
    "snd (settle_flow q' p) = (if fst (settle_flow q' p) = p then [] else [\<not> p])"
  using assms by (auto simp: settle_flow_def split: if_splits)

lemma pairs_of [simp]:
  "filter (\<lambda>v. fst v = r) (map (Pair r') vs) = (if r' = r then map (Pair r) vs else [])"
  by (induction vs) auto

lemma option_list_simps [simp]: "option_list None = []" "option_list (Some v) = [v]"
  by (simp_all add: option_list_def)

definition view_ok :: "chunk list \<Rightarrow> bool \<times> chunk option list \<times> nat \<times> bool \<Rightarrow> chunk list \<Rightarrow> bool list \<Rightarrow> bool" where
  "view_ok sent v taken frames \<longleftrightarrow>
     (case v of (g, q, d, p) \<Rightarrow>
        g \<and> subseq (taken @ map the q) sent \<and> length sent = length taken + length q + d
        \<and> alternates frames \<and> (p \<longleftrightarrow> odd (length frames))
        \<and> (if p then 64 < length q else length q < 192))"

definition tunnel_ok :: "string \<Rightarrow> chunk list \<Rightarrow> tunnel \<Rightarrow> bool" where
  "tunnel_ok r sent u \<longleftrightarrow>
     (\<forall>r'. None \<notin> set (session_queue r' (tu_bridge u)))
     \<and> view_ok sent (bridge_view r (tu_bridge u)) (taken_of r u) (frames_of r u)"

lemma view_ok_settled:
  assumes ok: "view_ok sent (True, q, d, p) taken frames"
    and len: "length q' = Suc (length q) \<or> length q = Suc (length q')"
    and sub: "subseq (taken' @ map the q') sent'" "length sent' = length taken' + length q' + d"
  shows "view_ok sent' (True, q', d, fst (settle_flow q' p)) taken' (frames @ snd (settle_flow q' p))"
proof -
  have lim: "if p then 64 < length q else length q < 192" and fr: "alternates frames" "p \<longleftrightarrow> odd (length frames)"
    using ok by (simp_all add: view_ok_def)
  note settled = settle_cases [OF lim len]
  show ?thesis
    using settled sub fr by (cases "fst (settle_flow q' p) = p") (simp_all add: view_ok_def)
qed

lemma no_marks_push:
  "\<forall>r. None \<notin> set (session_queue r b) \<Longrightarrow> None \<notin> set (session_queue r (snd (push_chunk r' c b)))"
proof (cases "r' = r")
  case True
  assume n: "\<forall>r. None \<notin> set (session_queue r b)"
  obtain q d p g where v: "bridge_view r b = (g, q, d, p)" by (cases "bridge_view r b") auto
  have q: "q = session_queue r b" using v by (simp add: bridge_view_def)
  show ?thesis
  proof (cases g)
    case reg: True
    show ?thesis
    proof (cases c)
      case (Some ch)
      then show ?thesis
        using push_own(2) [of r b q d p ch] v reg n q True
        by (auto simp: bridge_view_def [of r "snd (push_chunk r (Some ch) b)"] split: if_splits)
    qed (use n in \<open>simp add: push_undecoded\<close>)
  next
    case False
    then show ?thesis using v True n by (auto simp: push_chunk_def bridge_view_def)
  qed
next
  case False
  assume "\<forall>r. None \<notin> set (session_queue r b)"
  then show ?thesis using push_other [OF False, of c b] by (simp add: bridge_view_def)
qed

lemma no_marks_demux:
  assumes n: "\<forall>r. None \<notin> set (session_queue r b)"
  shows "None \<notin> set (session_queue r (snd (snd (demux_turn sid r' b))))"
proof (cases "session_queue r' b")
  case Nil
  then show ?thesis using n by (simp add: demux_empty)
next
  case (Cons v q)
  then obtain c where v: "v = Some c" using n by (cases v) (metis list.set_intros(1))+
  have "session_queue r (snd (snd (demux_turn sid r' b))) = (if r = r' then q else session_queue r b)"
    using Cons v update_flow_fields [of r' "b\<lparr>sb_queues := dset r' q (sb_queues b)\<rparr>"]
    by (simp add: demux_turn_def session_queue_def dget_default_def dget_dset split: prod.split)
  then show ?thesis using n Cons by (metis list.set_intros(2))
qed

lemma frames_of_step:
  "frames_of r (u\<lparr>tu_bridge := b, tu_frames := tu_frames u @ map (Pair r') fs\<rparr>) = frames_of r u @ (if r' = r then fs else [])"
  "frames_of r (u\<lparr>tu_bridge := b, tu_taken := tk, tu_frames := tu_frames u @ map (Pair r') fs\<rparr>) = frames_of r u @ (if r' = r then fs else [])"
  "taken_of r (u\<lparr>tu_bridge := b, tu_taken := tu_taken u @ map (Pair r') ts, tu_frames := fs'\<rparr>) = taken_of r u @ (if r' = r then ts else [])"
  "taken_of r (u\<lparr>tu_bridge := b, tu_frames := fs'\<rparr>) = taken_of r u"
  "frames_of r (u\<lparr>tu_bridge := b\<rparr>) = frames_of r u" "taken_of r (u\<lparr>tu_bridge := b\<rparr>) = taken_of r u"
  by (simp_all add: frames_of_def taken_of_def o_def)

lemma tunnel_ok_push:
  assumes ok: "tunnel_ok r sent u"
  shows "tunnel_ok r (sent @ sent_chunks r [Pushed r' c]) (tunnel_step (Pushed r' c) u)"
proof -
  let ?b = "tu_bridge u" and ?b' = "snd (push_chunk r' c (tu_bridge u))"
  obtain q d p where v: "bridge_view r ?b = (True, q, d, p)"
    using ok by (cases "bridge_view r ?b") (auto simp: tunnel_ok_def view_ok_def)
  have view: "view_ok sent (True, q, d, p) (taken_of r u) (frames_of r u)"
    and n: "\<forall>r'. None \<notin> set (session_queue r' ?b)" using ok v by (simp_all add: tunnel_ok_def)
  have step: "tunnel_step (Pushed r' c) u =
      u\<lparr>tu_bridge := ?b', tu_frames := tu_frames u @ map (Pair r') (option_list (fst (push_chunk r' c ?b)))\<rparr>"
    by (simp split: prod.split)
  have n': "\<forall>r. None \<notin> set (session_queue r ?b')" using no_marks_push n by blast
  show ?thesis
  proof (cases "r' = r \<and> c \<noteq> None")
    case False
    then have "bridge_view r ?b' = bridge_view r ?b" "r' = r \<Longrightarrow> option_list (fst (push_chunk r' c ?b)) = []"
      using push_other [of r' r c ?b] by (auto simp: push_undecoded)
    moreover have "sent_chunks r [Pushed r' c] = []" using False by (auto simp: sent_chunks_def split: option.split)
    ultimately show ?thesis
      unfolding step tunnel_ok_def using v view n' by (simp add: frames_of_step)
  next
    case True
    then obtain ch where c: "r' = r" "c = Some ch" by auto
    have s: "sent_chunks r [Pushed r' c] = [ch]" using c by (simp add: sent_chunks_def)
    note own = push_own [OF v, of ch]
    have sub: "subseq (taken_of r u @ map the q) sent" and len: "length sent = length (taken_of r u) + length q + d"
      using view by (simp_all add: view_ok_def)
    have "view_ok (sent @ [ch]) (bridge_view r ?b') (taken_of r u) (frames_of r u @ option_list (fst (push_chunk r' c ?b)))"
    proof (cases "length q < 256")
      case False
      then show ?thesis using own view c using sub list_emb_prefix [of "(=)" "taken_of r u @ map the q" sent "[ch]"] by (simp add: view_ok_def)
    next
      case room: True
      have "subseq (taken_of r u @ map the (q @ [Some ch])) (sent @ [ch])"
        using sub list_emb_append_mono [of "(=)" "taken_of r u @ map the q" sent "[ch]" "[ch]"] by simp
      from view_ok_settled [OF view _ this] show ?thesis using own room c len by simp
    qed
    then show ?thesis unfolding step tunnel_ok_def s using n' c by (simp add: frames_of_step)
  qed
qed

lemma tunnel_ok_take:
  assumes ok: "tunnel_ok r sent u"
  shows "tunnel_ok r sent (tunnel_step (Taken sid r') u)"
proof -
  let ?b = "tu_bridge u"
  obtain q d p where v: "bridge_view r ?b = (True, q, d, p)"
    using ok by (cases "bridge_view r ?b") (auto simp: tunnel_ok_def view_ok_def)
  have view: "view_ok sent (True, q, d, p) (taken_of r u) (frames_of r u)"
    and n: "\<forall>r'. None \<notin> set (session_queue r' ?b)" using ok v by (simp_all add: tunnel_ok_def)
  obtain c fl b' where turn: "demux_turn sid r' ?b = (c, fl, b')" by (cases "demux_turn sid r' ?b") auto
  have n': "\<forall>r. None \<notin> set (session_queue r b')" using no_marks_demux [OF n] turn by (metis snd_conv)
  have "view_ok sent (bridge_view r b') (taken_of r u @ (if r' = r then option_list c else [])) (frames_of r u @ (if r' = r then option_list fl else []))"
  proof (cases "r' = r")
    case False
    then show ?thesis using demux_other [of r' r ?b sid] n turn v view by auto
  next
    case True
    have q: "q = session_queue r ?b" using v by (simp add: bridge_view_def)
    show ?thesis
    proof (cases q)
      case Nil
      then show ?thesis using demux_empty [of r ?b sid] q turn True v view by simp
    next
      case (Cons w rest)
      then obtain ch where w: "w = Some ch" using n q by (cases w) (metis list.set_intros(1))+
      have sub: "subseq ((taken_of r u @ [ch]) @ map the rest) sent" "length sent = length (taken_of r u @ [ch]) + length rest + d"
        using view Cons w by (simp_all add: view_ok_def)
      show ?thesis
        using demux_own(1) [of r ?b ch rest d p sid] demux_own(2,3) [of r ?b ch rest d p] v Cons w turn True
          view_ok_settled [OF view _ sub] by auto
    qed
  qed
  then show ?thesis using n' turn by (simp add: tunnel_ok_def frames_of_step)
qed

lemma tunnel_ok_register:
  assumes ok: "tunnel_ok r sent u"
  shows "tunnel_ok r sent (tunnel_step (Registered sid r') u)"
proof -
  obtain q d p where v: "bridge_view r (tu_bridge u) = (True, q, d, p)"
    using ok by (cases "bridge_view r (tu_bridge u)") (auto simp: tunnel_ok_def view_ok_def)
  have "bridge_view r (register_session_queue sid r' (tu_bridge u)) = bridge_view r (tu_bridge u)"
    using register_own [OF v] register_other by (cases "r' = r") simp_all
  moreover have "None \<notin> set (session_queue s (register_session_queue sid r' (tu_bridge u)))" for s
    using ok by (auto simp: tunnel_ok_def register_session_queue_def session_queue_def dget_default_def dget_dset)
  ultimately show ?thesis using ok by (simp add: tunnel_ok_def frames_of_step)
qed

lemma sent_snoc: "sent_chunks r (es @ [e]) = sent_chunks r es @ sent_chunks r [e]"
  by (simp add: sent_chunks_def)

lemma tunnel_run_ok: "tunnel_ok r (sent_chunks r es) (tunnel_run (Registered sid r # es))"
proof (induction es rule: rev_induct)
  case Nil
  show ?case
    by (simp add: tunnel_run_def tunnel_ok_def view_ok_def bridge_view_def fresh_tunnel_def fresh_bridge_def sent_chunks_def
        register_session_queue_def session_queue_def dget_default_def dget_dset taken_of_def frames_of_def)
next
  case (snoc e es)
  have run: "tunnel_run (Registered sid r # es @ [e]) = tunnel_step e (tunnel_run (Registered sid r # es))"
    by (simp add: tunnel_run_def)
  show ?case
  proof (cases e)
    case (Pushed r' c)
    then show ?thesis unfolding run sent_snoc by (simp only: tunnel_ok_push [OF snoc.IH])
  next
    case (Taken s r')
    then have "sent_chunks r [e] = []" by (simp add: sent_chunks_def)
    then show ?thesis unfolding run sent_snoc using Taken tunnel_ok_take [OF snoc.IH] by (simp del: tunnel_step.simps)
  next
    case (Registered s r')
    then have "sent_chunks r [e] = []" by (simp add: sent_chunks_def)
    then show ?thesis unfolding run sent_snoc using Registered tunnel_ok_register [OF snoc.IH] by (simp del: tunnel_step.simps)
  qed
qed

text \<open>
  What the consumer of an interactive session has taken, followed by what waits in its queue, is
  the output the editor sent in its order, less exactly the chunks counted as dropped, however its
  events are interleaved with those of other sessions.
\<close>

theorem session_output_in_order:
  "let u = tunnel_run (Registered sid r # es); q = session_queue r (tu_bridge u) in
     subseq (taken_of r u @ map the q) (sent_chunks r es)
     \<and> length (sent_chunks r es) = length (taken_of r u) + length q + dget_default (sb_dropped (tu_bridge u)) r 0"
  using tunnel_run_ok [of r es sid] by (simp add: tunnel_ok_def view_ok_def bridge_view_def Let_def)

text \<open>
  The flow frames of a session alternate, a pause first. While the last one is a pause the
  queue holds more than the low water mark, so the consumer that drains it will send the resume.
\<close>

theorem flow_frames_alternate:
  "let u = tunnel_run (Registered sid r # es); n = length (frames_of r u); q = session_queue r (tu_bridge u) in
     frames_of r u = map even [0..<n] \<and> (if odd n then 64 < length q else length q < 192)"
  using tunnel_run_ok [of r es sid]
  by (simp add: tunnel_ok_def view_ok_def bridge_view_def Let_def flip: alternates_def)

text \<open>
  A host that honours the flow frames sends at most \<open>h\<close> chunks of the session after a pause; \<open>k\<close>
  counts those since it was paused. The queue has a headroom of 64 above the high water mark.
\<close>

fun honours_pause :: "nat \<Rightarrow> string \<Rightarrow> nat \<Rightarrow> tunnel \<Rightarrow> tunnel_event list \<Rightarrow> bool" where
  "honours_pause h r k u [] = True"
| "honours_pause h r k u (e # es) =
     (let u' = tunnel_step e u;
          k' = (if r \<notin> set (sb_paused (tu_bridge u)) \<or> r \<notin> set (sb_paused (tu_bridge u')) then 0
                else if sent_chunks r [e] \<noteq> [] then Suc k else k)
      in k' \<le> h \<and> honours_pause h r k' u' es)"

definition no_loss :: "string \<Rightarrow> nat \<Rightarrow> tunnel \<Rightarrow> bool" where
  "no_loss r k u \<longleftrightarrow>
     (case bridge_view r (tu_bridge u) of (g, q, d, p) \<Rightarrow>
        g \<and> d = 0 \<and> (\<forall>r'. None \<notin> set (session_queue r' (tu_bridge u)))
        \<and> (if p then length q \<le> 192 + k else length q < 192))"

lemma no_loss_push:
  assumes ok: "no_loss r k u" and k: "k \<le> 64"
    and e: "e = Pushed r' c"
    and k': "k' = (if r \<notin> set (sb_paused (tu_bridge u)) \<or> r \<notin> set (sb_paused (tu_bridge (tunnel_step e u))) then 0
                else if sent_chunks r [e] \<noteq> [] then Suc k else k)" "k' \<le> 64"
  shows "no_loss r k' (tunnel_step e u)"
proof -
  let ?b = "tu_bridge u" and ?b' = "snd (push_chunk r' c (tu_bridge u))"
  obtain q p where v: "bridge_view r ?b = (True, q, 0, p)" and lim: "if p then length q \<le> 192 + k else length q < 192"
    and n: "\<forall>r'. None \<notin> set (session_queue r' ?b)"
    using ok by (cases "bridge_view r ?b") (auto simp: no_loss_def)
  have b: "tu_bridge (tunnel_step e u) = ?b'" using e by (simp split: prod.split)
  have n': "\<forall>r. None \<notin> set (session_queue r ?b')" using no_marks_push n by blast
  have p: "p \<longleftrightarrow> r \<in> set (sb_paused ?b)" using v by (simp add: bridge_view_def)
  show ?thesis
  proof (cases "r' = r \<and> c \<noteq> None")
    case False
    then have same: "bridge_view r ?b' = bridge_view r ?b" using push_other [of r' r c ?b] by (auto simp: push_undecoded)
    then have "r \<in> set (sb_paused ?b') \<longleftrightarrow> p" using v by (simp add: bridge_view_def)
    moreover have "sent_chunks r [e] = []" using False e by (auto simp: sent_chunks_def split: option.split)
    ultimately show ?thesis using same v lim k' n' p b by (auto simp: no_loss_def)
  next
    case True
    then obtain ch where c: "r' = r" "c = Some ch" by auto
    have s: "sent_chunks r [e] \<noteq> []" using c e by (simp add: sent_chunks_def)
    define q' where "q' = q @ [Some ch]"
    define p' where "p' = fst (settle_flow q' p)"
    have own: "bridge_view r ?b' = (if length q < 256 then (True, q', 0, p') else (True, q, Suc 0, p))"
      using push_own(2) [OF v, of ch] c by (simp add: q'_def p'_def)
    then have pp: "r \<in> set (sb_paused ?b') \<longleftrightarrow> (if length q < 256 then p' else p)" by (simp add: bridge_view_def split: if_splits)
    have set_p': "p' \<longleftrightarrow> (if \<not> p then 192 \<le> length q' else 64 < length q')"
      by (auto simp: p'_def settle_flow_def)
    have len: "length q' = Suc (length q)" by (simp add: q'_def)
    show ?thesis
    proof (cases "length q < 256")
      case room: True
      then show ?thesis
        using own pp k' s p lim n' b set_p' len by (auto simp: no_loss_def split: if_splits)
    next
      case False
      then have "p" "length q = 256" "k = 64" using lim k by (auto split: if_splits)
      then show ?thesis using k' pp p s b False by simp
    qed
  qed
qed

lemma no_loss_take:
  assumes ok: "no_loss r k u" and e: "e = Taken sid r'"
    and k': "k' = (if r \<notin> set (sb_paused (tu_bridge u)) \<or> r \<notin> set (sb_paused (tu_bridge (tunnel_step e u))) then 0
                else if sent_chunks r [e] \<noteq> [] then Suc k else k)"
  shows "no_loss r k' (tunnel_step e u)"
proof -
  let ?b = "tu_bridge u"
  obtain q p where v: "bridge_view r ?b = (True, q, 0, p)" and lim: "if p then length q \<le> 192 + k else length q < 192"
    and n: "\<forall>r'. None \<notin> set (session_queue r' ?b)"
    using ok by (cases "bridge_view r ?b") (auto simp: no_loss_def)
  obtain c fl b' where turn: "demux_turn sid r' ?b = (c, fl, b')" by (cases "demux_turn sid r' ?b") auto
  have b: "tu_bridge (tunnel_step e u) = b'" using e turn by simp
  have n': "\<forall>r. None \<notin> set (session_queue r b')" using no_marks_demux [OF n] turn by (metis snd_conv)
  have s: "sent_chunks r [e] = []" using e by (simp add: sent_chunks_def)
  have q: "q = session_queue r ?b" and p: "p \<longleftrightarrow> r \<in> set (sb_paused ?b)" using v by (simp_all add: bridge_view_def)
  show ?thesis
  proof (cases "r' = r \<and> q \<noteq> []")
    case False
    then have same: "bridge_view r b' = bridge_view r ?b"
      using demux_other [of r' r ?b sid] n turn demux_empty [of r ?b sid] q by (cases "r' = r") auto
    then have "r \<in> set (sb_paused b') \<longleftrightarrow> p" using v by (simp add: bridge_view_def)
    then show ?thesis using same v lim k' n' b s p by (auto simp: no_loss_def)
  next
    case True
    then obtain w rest where wr: "q = w # rest" by (cases q) auto
    then obtain ch where w: "w = Some ch" using n q by (cases w) (metis list.set_intros(1))+
    have own: "bridge_view r b' = (True, rest, 0, fst (settle_flow rest p))"
      using demux_own(1) [of r ?b ch rest 0 p sid] demux_own(3) [of r ?b ch rest 0 p] v wr w turn True by auto
    then have pp: "r \<in> set (sb_paused b') \<longleftrightarrow> fst (settle_flow rest p)" by (simp add: bridge_view_def)
    have flow: "fst (settle_flow rest p) \<longleftrightarrow> (if p then 64 < length rest else 192 \<le> length rest)"
      by (auto simp: settle_flow_def)
    show ?thesis
      using own pp k' s p lim n' b flow wr by (auto simp: no_loss_def split: if_splits)
  qed
qed

lemma no_loss_register:
  assumes ok: "no_loss r k u" and e: "e = Registered sid r'"
    and k': "k' = (if r \<notin> set (sb_paused (tu_bridge u)) \<or> r \<notin> set (sb_paused (tu_bridge (tunnel_step e u))) then 0
                else if sent_chunks r [e] \<noteq> [] then Suc k else k)"
  shows "no_loss r k' (tunnel_step e u)"
proof -
  obtain q p where v: "bridge_view r (tu_bridge u) = (True, q, 0, p)" and lim: "if p then length q \<le> 192 + k else length q < 192"
    using ok by (cases "bridge_view r (tu_bridge u)") (auto simp: no_loss_def)
  have same: "bridge_view r (register_session_queue sid r' (tu_bridge u)) = bridge_view r (tu_bridge u)"
    using register_own [OF v] register_other by (cases "r' = r") simp_all
  have n': "None \<notin> set (session_queue s (register_session_queue sid r' (tu_bridge u)))" for s
    using ok by (auto simp: no_loss_def register_session_queue_def session_queue_def dget_default_def dget_dset)
  have s: "sent_chunks r [e] = []" using e by (simp add: sent_chunks_def)
  have "r \<in> set (sb_paused (register_session_queue sid r' (tu_bridge u))) \<longleftrightarrow> p" "r \<in> set (sb_paused (tu_bridge u)) \<longleftrightarrow> p"
    using v same by (simp_all add: bridge_view_def)
  then show ?thesis using k' s e same v lim n' by (simp add: no_loss_def)
qed

lemma no_loss_run:
  "no_loss r k u \<Longrightarrow> k \<le> h \<Longrightarrow> h \<le> 64 \<Longrightarrow> honours_pause h r k u es \<Longrightarrow>
   \<exists>k'\<le>h. no_loss r k' (fold tunnel_step es u)"
proof (induction es arbitrary: k u)
  case Nil
  then show ?case by auto
next
  case (Cons e es)
  define k' where "k' = (if r \<notin> set (sb_paused (tu_bridge u)) \<or> r \<notin> set (sb_paused (tu_bridge (tunnel_step e u))) then 0
                else if sent_chunks r [e] \<noteq> [] then Suc k else k)"
  have later: "k' \<le> h" "honours_pause h r k' (tunnel_step e u) es"
    using Cons.prems(4) by (simp_all add: Let_def k'_def del: tunnel_step.simps)
  have "k \<le> 64" "k' \<le> 64" using Cons.prems(2,3) later(1) by simp_all
  then have "no_loss r k' (tunnel_step e u)"
    using no_loss_push [OF Cons.prems(1) _ _ k'_def] no_loss_take [OF Cons.prems(1) _ k'_def]
      no_loss_register [OF Cons.prems(1) _ k'_def]
    by (cases e) blast+
  from Cons.IH [OF this later(1) Cons.prems(3) later(2)] show ?case by simp
qed

lemma exit_marks:
  "r \<in> set (sb_registered b) \<Longrightarrow> session_queue r (session_exit r code b) =
     (let q = session_queue r b in (if length q < 256 then q else tl q) @ [None])"
  by (simp add: session_exit_def force_end_def put_nowait_def session_queue_def dget_default_dset Let_def)

text \<open>
  C35. Output of an interactive session whose host honours the pauses. As long as the session has not
  exited and the host sends at most 64 chunks after each pause, no output is lost: what the consumer
  has taken, followed by what waits, is exactly what was sent. The exit then appends its mark behind
  what waits; it keeps all of it when the host sent at most 63 chunks after each pause, and on a
  queue that 64 chunks have filled it displaces the oldest one.
\<close>

theorem honoured_pauses_lose_nothing:
  assumes "honours_pause h r 0 (tunnel_run [Registered sid r]) es" and "h \<le> 64"
  shows "let u = tunnel_run (Registered sid r # es); q = session_queue r (tu_bridge u) in
     taken_of r u @ map the q = sent_chunks r es
     \<and> session_queue r (session_exit r code (tu_bridge u)) = (if length q < 256 then q else tl q) @ [None]
     \<and> (h \<le> 63 \<longrightarrow> length q < 256)"
proof -
  let ?u = "tunnel_run (Registered sid r # es)"
  have start: "no_loss r 0 (tunnel_run [Registered sid r])"
    by (simp add: tunnel_run_def no_loss_def bridge_view_def fresh_tunnel_def fresh_bridge_def register_session_queue_def
        session_queue_def dget_default_def dget_dset)
  have "?u = fold tunnel_step es (tunnel_run [Registered sid r])" by (simp add: tunnel_run_def)
  then obtain k where k: "k \<le> h" "no_loss r k ?u" using no_loss_run [OF start _ assms(2,1)] by auto
  obtain g q d p where v: "bridge_view r (tu_bridge ?u) = (g, q, d, p)" by (cases "bridge_view r (tu_bridge ?u)")
  then have q: "q = session_queue r (tu_bridge ?u)" and d: "d = dget_default (sb_dropped (tu_bridge ?u)) r 0"
    by (simp_all add: bridge_view_def)
  have "g" "d = 0" "length q \<le> 192 + k" using k(2) v by (auto simp: no_loss_def split: if_splits)
  have "r \<in> set (sb_registered (tu_bridge ?u))" using \<open>g\<close> v by (simp add: bridge_view_def)
  from exit_marks [OF this, of code, folded q]
  have exit: "session_queue r (session_exit r code (tu_bridge ?u)) = (if length q < 256 then q else tl q) @ [None]" by (simp add: Let_def)
  have "length (taken_of r ?u @ map the q) = length (sent_chunks r es)"
    and "subseq (taken_of r ?u @ map the q) (sent_chunks r es)"
    using tunnel_run_ok [of r es sid] \<open>d = 0\<close> by (simp_all add: tunnel_ok_def view_ok_def bridge_view_def q d)
  then have "taken_of r ?u @ map the q = sent_chunks r es" by (metis subseq_same_length)
  moreover have "h \<le> 63 \<longrightarrow> length q < 256" using \<open>length q \<le> 192 + k\<close> k(1) by simp
  ultimately show ?thesis using exit by (simp add: q Let_def)
qed

lemma honoured_pauses_lose_nothing_witness:
  "let u = tunnel_run [Registered ''s'' ''r'', Pushed ''r'' (Some [104]), Pushed ''r'' (Some [105]), Taken ''s'' ''r''];
       q = session_queue ''r'' (tu_bridge u)
   in taken_of ''r'' u @ map the q = [[104], [105]]
      \<and> session_queue ''r'' (session_exit ''r'' 0 (tu_bridge u)) = q @ [None]"
proof -
  have sent: "sent_chunks ''r'' [Pushed ''r'' (Some [104]), Pushed ''r'' (Some [105]), Taken ''s'' ''r''] = [[104], [105]]"
    by (simp add: sent_chunks_def)
  have "honours_pause 2 ''r'' 0 (tunnel_run [Registered ''s'' ''r'']) [Pushed ''r'' (Some [104]), Pushed ''r'' (Some [105]), Taken ''s'' ''r'']"
    by code_simp
  from honoured_pauses_lose_nothing [OF this, of 0] show ?thesis unfolding sent by (simp add: Let_def)
qed

text \<open>The exit code of a session nobody knows is kept for ever.\<close>

lemma session_exit_of_unknown_kept:
  assumes "r \<notin> set (sb_registered b)"
  shows "session_exit r code b = b\<lparr>sb_exit := dset r code (sb_exit b)\<rparr>"
  using assms by (simp add: session_exit_def Let_def)

subsection \<open>The inbound flood guard\<close>

text \<open>\<open>allow_inbound\<close>: the tokens of a client and the time of its last refill; times are reals.\<close>

record inbound_guard =
  in_tokens :: "(string, real) dict"
  in_refill_at :: "(string, real) dict"

definition allow_inbound :: "string \<Rightarrow> real \<Rightarrow> inbound_guard \<Rightarrow> bool \<times> inbound_guard" where
  "allow_inbound cid now g =
     (let since = dget_default (in_refill_at g) cid now;
          tokens = min 100 (dget_default (in_tokens g) cid 100 + (now - since) * 50);
          g = g\<lparr>in_refill_at := dset cid now (in_refill_at g)\<rparr>
      in if tokens < 1 then (False, g\<lparr>in_tokens := dset cid tokens (in_tokens g)\<rparr>)
         else (True, g\<lparr>in_tokens := dset cid (tokens - 1) (in_tokens g)\<rparr>))"

text \<open>The first two lines of \<open>_reap_client_state\<close>.\<close>

definition forget_inbound :: "string \<Rightarrow> inbound_guard \<Rightarrow> inbound_guard" where
  "forget_inbound cid g = g\<lparr>in_tokens := AList.delete cid (in_tokens g), in_refill_at := AList.delete cid (in_refill_at g)\<rparr>"

text \<open>How many of the requests made at the given times are let through.\<close>

fun admitted :: "(real \<Rightarrow> 's \<Rightarrow> bool \<times> 's) \<Rightarrow> real list \<Rightarrow> 's \<Rightarrow> nat" where
  "admitted ask [] s = 0"
| "admitted ask (now # later) s = (case ask now s of (ok, s) \<Rightarrow> (if ok then 1 else 0) + admitted ask later s)"

text \<open>
  A token bucket, as its client sees it: a request that passes takes a token, the level grows with the
  clock at the rate at most, and is never negative.
\<close>

locale token_bucket =
  fixes ask :: "real \<Rightarrow> 's \<Rightarrow> bool \<times> 's"
    and level :: "'s \<Rightarrow> real"
    and clock :: "'s \<Rightarrow> real option"
    and rate :: real
  assumes spends: "ask now s = (ok, s') \<Longrightarrow> clock s = Some t \<Longrightarrow> t \<le> now \<Longrightarrow>
      clock s' = Some now \<and> (if ok then 1 else 0) + level s' \<le> level s + (now - t) * rate"
    and stays: "ask now s = (ok, s') \<Longrightarrow> clock s = Some t \<Longrightarrow> t \<le> now \<Longrightarrow> 0 \<le> level s \<Longrightarrow> 0 \<le> level s'"
begin

lemma admitted_bound:
  assumes "clock s = Some t" and "sorted (t # ts)" and "0 \<le> level s"
  shows "real (admitted ask ts s) \<le> level s + rate * (last (t # ts) - t)"
  using assms
proof (induction ts arbitrary: s t)
  case (Cons now later)
  obtain ok s' where step: "ask now s = (ok, s')" by fastforce
  have t: "t \<le> now" and so: "sorted (now # later)" using Cons.prems(2) by auto
  note spent = spends [OF step Cons.prems(1) t] and left = stays [OF step Cons.prems(1) t Cons.prems(3)]
  have "real (admitted ask later s') \<le> level s' + rate * (last (now # later) - now)"
    using Cons.IH [OF conjunct1 [OF spent] so left] .
  then show ?case using step spent by (auto simp: algebra_simps split: if_splits)
qed simp

end

text \<open>The frames of one client.\<close>

definition passed_frames :: "string \<Rightarrow> real list \<Rightarrow> inbound_guard \<Rightarrow> nat" where
  "passed_frames cid ts g = admitted (allow_inbound cid) ts g"

interpretation inbound: token_bucket "allow_inbound cid" "\<lambda>g. dget_default (in_tokens g) cid 100" "\<lambda>g. dget (in_refill_at g) cid" 50 for cid
proof
  fix now g ok g' t
  assume step: "allow_inbound cid now g = (ok, g')" and t: "dget (in_refill_at g) cid = Some t" "t \<le> now"
  show "dget (in_refill_at g') cid = Some now
      \<and> (if ok then 1 else 0) + dget_default (in_tokens g') cid 100 \<le> dget_default (in_tokens g) cid 100 + (now - t) * 50"
    using step t by (auto simp: allow_inbound_def Let_def dget_default_def dget_dset split: if_splits option.splits)
  show "0 \<le> dget_default (in_tokens g') cid 100" if "0 \<le> dget_default (in_tokens g) cid 100"
    using step t that by (auto simp: allow_inbound_def Let_def dget_default_def dget_dset split: if_splits option.splits)
qed

text \<open>
  Whatever the client sends, of the file updates and telemetry frames that arrive between two
  moments of a monotonic clock at most 100 plus 50 per second elapsed are let through.
\<close>

theorem inbound_rate_bounded:
  assumes "sorted (t # ts)"
  shows "real (passed_frames cid (t # ts) (forget_inbound cid g)) \<le> 100 + 50 * (last (t # ts) - t)"
proof -
  let ?g = "forget_inbound cid g"
  obtain ok g' where step: "allow_inbound cid t ?g = (ok, g')" by fastforce
  have fields: "dget (in_refill_at g') cid = Some t" "dget_default (in_tokens g') cid 100 = 99" "ok"
    using step by (auto simp: allow_inbound_def forget_inbound_def Let_def dget_default_def dget_dset delete_conv' split: if_splits)
  have "0 \<le> dget_default (in_tokens g') cid 100" using fields(2) by simp
  from inbound.admitted_bound [OF fields(1) assms this] show ?thesis using step fields by (simp add: passed_frames_def)
qed

lemma inbound_rate_bounded_witness:
  "real (passed_frames ''w'' [0, 1, 2] (forget_inbound ''w'' \<lparr>in_tokens = [(''w'', 0)], in_refill_at = [(''w'', 0)]\<rparr>)) \<le> 100 + 50 * 2"
  using inbound_rate_bounded [of 0 "[1, 2]" "''w''" "\<lparr>in_tokens = [(''w'', 0)], in_refill_at = [(''w'', 0)]\<rparr>"] by simp

text \<open>A reconnect refills the bucket at once: the guard of a client is dropped with its connection.\<close>

lemma reconnect_refills_bucket: "fst (allow_inbound cid now (forget_inbound cid g))"
  by (simp add: allow_inbound_def forget_inbound_def Let_def dget_default_def delete_conv')

end
