(* ===== verification/TaskLifecycle.thy ===== *)
theory TaskLifecycle
  imports Connections
begin

text \<open>
  The life of a turn in \<open>core/task_service.py\<close> and the admission of submissions in \<open>main.py\<close>:
  the registry of running tasks, the graphs paused for an operator, the queues of steering messages,
  the conversations, the registry of tool calls, inline edits and the summary of a turn.

  A task of the event loop is a number. Its completion, its callbacks and the first step of a task
  that has been created are steps of their own, because the loop runs them later.
\<close>

declare map_of_eq_Some_iff [simp del] Some_eq_map_of_iff [simp del]

subsection \<open>The registries\<close>

text \<open>The limits come from the environment: \<open>PAUSED_INTERRUPT_TTL_S\<close> and the steering limits.\<close>

record lifecycle_env =
  le_pause_ttl :: real
  le_max_queued :: nat
  le_max_chars :: nat

text \<open>\<open>ts_done\<close> are the tasks that answer \<open>done()\<close>; a paused entry holds what the turn needs to go on and its time.\<close>

record 'p task_service =
  ts_active :: "(string, nat) dict"
  ts_done :: "nat list"
  ts_paused :: "(string, 'p \<times> real) dict"
  ts_steering :: "(string, (string \<times> string) list) dict"

definition fresh_service :: "'p task_service" where
  "fresh_service = \<lparr>ts_active = [], ts_done = [], ts_paused = [], ts_steering = []\<rparr>"

definition task_live :: "string \<Rightarrow> 'p task_service \<Rightarrow> bool" where
  "task_live sid s = (case dget (ts_active s) sid of None \<Rightarrow> False | Some t \<Rightarrow> t \<notin> set (ts_done s))"

definition has_paused_graph :: "string \<Rightarrow> 'p task_service \<Rightarrow> bool" where
  "has_paused_graph sid s \<longleftrightarrow> dget (ts_paused s) sid \<noteq> None"

definition is_session_busy :: "lifecycle_env \<Rightarrow> real \<Rightarrow> string \<Rightarrow> 'p task_service \<Rightarrow> bool \<times> 'p task_service" where
  "is_session_busy env now sid s =
     (if task_live sid s then (True, s)
      else (case dget (ts_paused s) sid of
          None \<Rightarrow> (False, s)
        | Some (_, paused_at) \<Rightarrow>
            if le_pause_ttl env < now - paused_at then (False, s\<lparr>ts_paused := AList.delete sid (ts_paused s)\<rparr>)
            else (True, s)))"

definition enqueue_steering :: "lifecycle_env \<Rightarrow> real \<Rightarrow> string \<Rightarrow> string \<Rightarrow> string \<Rightarrow> 'p task_service \<Rightarrow> string \<times> 'p task_service" where
  "enqueue_steering env now sid mid msg s =
     (case is_session_busy env now sid s of
        (False, s) \<Rightarrow> (''not_busy'', s)
      | (True, s) \<Rightarrow>
          (let queue = dget_default (ts_steering s) sid [];
               s = s\<lparr>ts_steering := setdefault sid [] (ts_steering s)\<rparr>
           in if mid \<in> set (map fst queue) then (''duplicate'', s)
              else if le_max_queued env \<le> length queue then (''full'', s)
              else (''queued'', s\<lparr>ts_steering := dset sid (queue @ [(mid, take (le_max_chars env) msg)]) (ts_steering s)\<rparr>)))"

definition peek_steering :: "string \<Rightarrow> 'p task_service \<Rightarrow> (string \<times> string) list" where
  "peek_steering sid s = dget_default (ts_steering s) sid []"

definition drop_steering_queue :: "string \<Rightarrow> 'p task_service \<Rightarrow> 'p task_service" where
  "drop_steering_queue sid s = s\<lparr>ts_steering := AList.delete sid (ts_steering s)\<rparr>"

definition live_task_ids :: "'p task_service \<Rightarrow> string set" where
  "live_task_ids s = set (dkeys (ts_active s)) \<union> set (dkeys (ts_paused s))"

definition register_active_task :: "string \<Rightarrow> nat \<Rightarrow> 'p task_service \<Rightarrow> 'p task_service" where
  "register_active_task sid t s = s\<lparr>ts_active := dset sid t (ts_active s)\<rparr>"

definition pop_active_if_current :: "string \<Rightarrow> nat \<Rightarrow> 'p task_service \<Rightarrow> 'p task_service" where
  "pop_active_if_current sid t s =
     (if dget (ts_active s) sid = Some t
      then drop_steering_queue sid (s\<lparr>ts_active := AList.delete sid (ts_active s)\<rparr>) else s)"

text \<open>\<open>_schedule_cell_teardown\<close>: whether the cell of the session is torn down.\<close>

definition schedule_cell_teardown :: "string \<Rightarrow> 'p task_service \<Rightarrow> bool" where
  "schedule_cell_teardown sid s \<longleftrightarrow> \<not> has_paused_graph sid s \<and> dget (ts_active s) sid = None"

text \<open>The task that is cancelled, if a live one is registered.\<close>

definition abort_session :: "string \<Rightarrow> 'p task_service \<Rightarrow> nat option" where
  "abort_session sid s = (if task_live sid s then dget (ts_active s) sid else None)"

text \<open>A checkpoint as its time and its termination reason.\<close>

datatype task_status =
    TaskRunning
  | TaskUnknown
  | TaskEnded string nat real "string option"

definition get_task_status :: "string \<Rightarrow> (real \<times> string option) list \<Rightarrow> 'p task_service \<Rightarrow> task_status" where
  "get_task_status sid checkpoints s =
     (if task_live sid s then TaskRunning
      else if checkpoints = [] then TaskUnknown
      else (case List.last checkpoints of (promoted, reason) \<Rightarrow>
        TaskEnded (if str_or reason [] \<noteq> [] then ''aborted'' else ''completed'') (length checkpoints) promoted reason))"

text \<open>\<open>resume_graph\<close> up to its call of the runner: the entry is taken out first.\<close>

definition resume_graph :: "string \<Rightarrow> 'p task_service \<Rightarrow> 'p option \<times> 'p task_service" where
  "resume_graph sid s =
     (case dget (ts_paused s) sid of
        None \<Rightarrow> (None, s)
      | Some (p, _) \<Rightarrow> (Some p, s\<lparr>ts_paused := AList.delete sid (ts_paused s)\<rparr>))"

text \<open>
  \<open>rehydrate_paused_interrupt\<close>: whether an approval card is sent. \<open>pending\<close> is the interrupt of the
  live thread, \<open>warm\<close> whether the thread has a checkpoint in memory, \<open>recovered\<close> what the stored one
  gives when the graph had stopped at an interrupt.
\<close>

definition rehydrate_paused_interrupt :: "bool \<Rightarrow> bool \<Rightarrow> 'p option \<Rightarrow> real \<Rightarrow> string \<Rightarrow> 'p task_service \<Rightarrow> bool \<times> 'p task_service" where
  "rehydrate_paused_interrupt pending warm recovered now sid s =
     (if has_paused_graph sid s then (pending, s)
      else if warm then (False, s)
      else (case recovered of None \<Rightarrow> (False, s)
        | Some p \<Rightarrow> (True, s\<lparr>ts_paused := dset sid (p, now) (ts_paused s)\<rparr>)))"

subsection \<open>Submissions\<close>

text \<open>\<open>_is_duplicate_request\<close>: the recent identifiers, oldest first, for 120 seconds and at most 256 of them.\<close>

definition prune_requests :: "real \<Rightarrow> (string \<times> real) list \<Rightarrow> (string \<times> real) list" where
  "prune_requests now seen = dropWhile (\<lambda>(_, seen_at). 120 < now - seen_at) seen"

definition is_duplicate_request :: "real \<Rightarrow> string \<Rightarrow> (string \<times> real) list \<Rightarrow> bool \<times> (string \<times> real) list" where
  "is_duplicate_request now rid seen =
     (let seen = prune_requests now seen in
      if rid \<in> set (map fst seen) then (True, seen)
      else (let seen = seen @ [(rid, now)] in (False, drop (length seen - 256) seen)))"

text \<open>
  The tasks of the loop, each with its session and what it is doing: running the graph, created but
  not started with a decision to resume, answering the analyst pane, on its way out, or over with its
  callbacks due. \<open>me_torn\<close> are the cells torn down, each with whether a turn was using it.
\<close>

datatype task_phase = Running | Resuming | Answering | Leaving | Over

record 'p mesh =
  me_service :: "'p task_service"
  me_tasks :: "(nat, string \<times> task_phase) dict"
  me_payloads :: "(nat, 'p) dict"
  me_next :: nat
  me_recent :: "(string \<times> real) list"
  me_torn :: "(string \<times> bool) list"

definition fresh_mesh :: "'p mesh" where
  "fresh_mesh = \<lparr>me_service = fresh_service, me_tasks = [], me_payloads = [], me_next = 0, me_recent = [], me_torn = []\<rparr>"

definition spawn :: "string \<Rightarrow> task_phase \<Rightarrow> 'p mesh \<Rightarrow> 'p mesh" where
  "spawn sid ph m =
     m\<lparr>me_service := register_active_task sid (me_next m) (me_service m),
       me_tasks := dset (me_next m) (sid, ph) (me_tasks m), me_next := Suc (me_next m)\<rparr>"

text \<open>\<open>submit_task\<close> from its admission on; an empty request identifier is not recorded.\<close>

definition submit_task :: "lifecycle_env \<Rightarrow> real \<Rightarrow> string \<Rightarrow> string \<Rightarrow> 'p \<Rightarrow> 'p mesh \<Rightarrow> string \<times> 'p mesh" where
  "submit_task env now sid rid payload m =
     (case (if rid = [] then (False, me_recent m) else is_duplicate_request now rid (me_recent m)) of (dup, seen) \<Rightarrow>
        (let m = m\<lparr>me_recent := seen\<rparr> in
         if dup then (''duplicate_ignored'', m)
         else (case is_session_busy env now sid (me_service m) of (busy, s) \<Rightarrow>
           (let m = m\<lparr>me_service := s\<rparr> in
            if busy then (''busy'', m)
            else (''accepted'', (spawn sid Running m)\<lparr>me_payloads := dset (me_next m) payload (me_payloads m)\<rparr>)))))"

text \<open>A reply of the operator to a paused graph; other replies go to the approval table.\<close>

definition resume_decision :: "string \<Rightarrow> 'p mesh \<Rightarrow> 'p mesh" where
  "resume_decision sid m = (if has_paused_graph sid (me_service m) then spawn sid Resuming m else m)"

definition set_phase :: "nat \<Rightarrow> string \<Rightarrow> task_phase \<Rightarrow> 'p mesh \<Rightarrow> 'p mesh" where
  "set_phase t sid ph m = m\<lparr>me_tasks := dset t (sid, ph) (me_tasks m)\<rparr>"

definition in_use :: "string \<Rightarrow> 'p mesh \<Rightarrow> bool" where
  "in_use sid m \<longleftrightarrow> has_paused_graph sid (me_service m) \<or> (sid, Running) \<in> set (map snd (me_tasks m)) \<or> (sid, Resuming) \<in> set (map snd (me_tasks m))"

datatype 'p mesh_event =
    Submit string string 'p real
  | Decide string
  | AskAnalyst string
  | StartTask nat
  | PauseTask nat real
  | LeaveTask nat
  | EndTask nat
  | Callbacks nat
  | Steer string string string real

fun mesh_step :: "lifecycle_env \<Rightarrow> 'p mesh_event \<Rightarrow> 'p mesh \<Rightarrow> 'p mesh" where
  "mesh_step env (Submit sid rid payload now) m = snd (submit_task env now sid rid payload m)"
| "mesh_step env (Decide sid) m = resume_decision sid m"
| "mesh_step env (AskAnalyst sid) m = spawn sid Answering m"
| "mesh_step env (StartTask t) m =
     (case dget (me_tasks m) t of
        Some (sid, Resuming) \<Rightarrow>
          (case resume_graph sid (me_service m) of
             (None, s) \<Rightarrow> set_phase t sid Leaving (m\<lparr>me_service := s\<rparr>)
           | (Some p, s) \<Rightarrow> set_phase t sid Running (m\<lparr>me_service := s, me_payloads := dset t p (me_payloads m)\<rparr>))
      | _ \<Rightarrow> m)"
| "mesh_step env (PauseTask t now) m =
     (case (dget (me_tasks m) t, dget (me_payloads m) t) of
        (Some (sid, Running), Some p) \<Rightarrow>
          set_phase t sid Leaving (m\<lparr>me_service := (me_service m)\<lparr>ts_paused := dset sid (p, now) (ts_paused (me_service m))\<rparr>\<rparr>)
      | _ \<Rightarrow> m)"
| "mesh_step env (LeaveTask t) m =
     (case dget (me_tasks m) t of
        Some (sid, ph) \<Rightarrow> if ph = Running \<or> ph = Answering then set_phase t sid Leaving m else m
      | None \<Rightarrow> m)"
| "mesh_step env (EndTask t) m =
     (case dget (me_tasks m) t of
        Some (sid, Leaving) \<Rightarrow>
          set_phase t sid Over (m\<lparr>me_service := (me_service m)\<lparr>ts_done := t # ts_done (me_service m)\<rparr>\<rparr>)
      | _ \<Rightarrow> m)"
| "mesh_step env (Callbacks t) m =
     (case dget (me_tasks m) t of
        Some (sid, Over) \<Rightarrow>
          (let m = m\<lparr>me_service := pop_active_if_current sid t (me_service m), me_tasks := AList.delete t (me_tasks m)\<rparr> in
           if schedule_cell_teardown sid (me_service m) then m\<lparr>me_torn := me_torn m @ [(sid, in_use sid m)]\<rparr> else m)
      | _ \<Rightarrow> m)"
| "mesh_step env (Steer sid mid msg now) m =
     m\<lparr>me_service := snd (enqueue_steering env now sid mid msg (me_service m))\<rparr>"

definition mesh_run :: "lifecycle_env \<Rightarrow> 'p mesh_event list \<Rightarrow> 'p mesh" where
  "mesh_run env es = fold (mesh_step env) es fresh_mesh"

subsection \<open>One graph per session\<close>

text \<open>
  The runs in which nothing else is registered under the session: no query of the analyst pane (the
  editor registers those under the connection), and no second decision before the task of the first
  one has started.
\<close>

fun orderly :: "lifecycle_env \<Rightarrow> string \<Rightarrow> 'p mesh \<Rightarrow> 'p mesh_event list \<Rightarrow> bool" where
  "orderly env sid m [] = True"
| "orderly env sid m (e # es) =
     ((case e of AskAnalyst s \<Rightarrow> s \<noteq> sid | Decide s \<Rightarrow> s \<noteq> sid \<or> (sid, Resuming) \<notin> set (map snd (me_tasks m)) | _ \<Rightarrow> True)
      \<and> orderly env sid (mesh_step env e m) es)"

definition busy_task :: "string \<Rightarrow> 'p mesh \<Rightarrow> nat \<Rightarrow> bool" where
  "busy_task sid m t \<longleftrightarrow> dget (me_tasks m) t = Some (sid, Running) \<or> dget (me_tasks m) t = Some (sid, Resuming)"

definition ids_fresh :: "'p mesh \<Rightarrow> bool" where
  "ids_fresh m \<longleftrightarrow>
     distinct (dkeys (me_tasks m)) \<and> (\<forall>t \<in> set (dkeys (me_tasks m)). t < me_next m)
     \<and> (\<forall>t \<in> set (ts_done (me_service m)). t < me_next m)
     \<and> (\<forall>sid t. dget (ts_active (me_service m)) sid = Some t \<longrightarrow> t < me_next m)"

definition session_ok :: "string \<Rightarrow> 'p mesh \<Rightarrow> bool" where
  "session_ok sid m \<longleftrightarrow>
     (\<forall>t. busy_task sid m t \<longrightarrow> dget (ts_active (me_service m)) sid = Some t \<and> t \<notin> set (ts_done (me_service m)))
     \<and> (\<forall>t. dget (me_tasks m) t = Some (sid, Running) \<longrightarrow> \<not> has_paused_graph sid (me_service m))
     \<and> (\<forall>t. dget (me_tasks m) t = Some (sid, Resuming) \<longrightarrow> has_paused_graph sid (me_service m))
     \<and> (sid, True) \<notin> set (me_torn m)"

lemma session_okI:
  assumes "\<And>t. busy_task sid m t \<Longrightarrow> dget (ts_active (me_service m)) sid = Some t \<and> t \<notin> set (ts_done (me_service m))"
    and "\<And>t. dget (me_tasks m) t = Some (sid, Running) \<Longrightarrow> \<not> has_paused_graph sid (me_service m)"
    and "\<And>t. dget (me_tasks m) t = Some (sid, Resuming) \<Longrightarrow> has_paused_graph sid (me_service m)"
    and "(sid, True) \<notin> set (me_torn m)"
  shows "session_ok sid m"
  using assms unfolding session_ok_def by blast

lemma session_okD:
  assumes "session_ok sid m"
  shows "busy_task sid m t \<Longrightarrow> dget (ts_active (me_service m)) sid = Some t"
    "busy_task sid m t \<Longrightarrow> t \<notin> set (ts_done (me_service m))"
    "dget (me_tasks m) t = Some (sid, Running) \<Longrightarrow> \<not> has_paused_graph sid (me_service m)"
    "dget (me_tasks m) t = Some (sid, Resuming) \<Longrightarrow> has_paused_graph sid (me_service m)"
    "(sid, True) \<notin> set (me_torn m)"
  using assms unfolding session_ok_def by blast+

lemma keys_of_dget: "dget d k = Some v \<Longrightarrow> k \<in> set (dkeys d)"
  using dget_None_iff [of d k] by auto

lemma busy_spares:
  assumes "is_session_busy env now s sv = (b, sv')"
  shows "ts_active sv' = ts_active sv" "ts_done sv' = ts_done sv" "ts_steering sv' = ts_steering sv"
    "task_live sid sv \<Longrightarrow> has_paused_graph sid sv' = has_paused_graph sid sv"
    "\<not> b \<Longrightarrow> \<not> task_live s sv \<and> \<not> has_paused_graph s sv'"
  using assms by (auto simp: is_session_busy_def has_paused_graph_def delete_conv' split: if_splits option.splits)

lemma live_of_busy: "session_ok sid m \<Longrightarrow> busy_task sid m t \<Longrightarrow> task_live sid (me_service m)"
  using session_okD(1,2) [of sid m t] by (simp add: task_live_def)

lemma distinct_one:
  assumes "\<And>x y. x \<in> set xs \<Longrightarrow> y \<in> set xs \<Longrightarrow> y = x" and "distinct xs"
  shows "length xs \<le> 1"
proof (cases xs)
  case (Cons x rest)
  have "y = x" if "y \<in> set rest" for y using assms(1) [of x y] that Cons by simp
  then have "rest = []" using assms(2) Cons by (cases rest) auto
  then show ?thesis using Cons by simp
qed simp

lemma busy_task_unique: "session_ok sid m \<Longrightarrow> busy_task sid m t \<Longrightarrow> busy_task sid m t' \<Longrightarrow> t' = t"
  using session_okD(1) [of sid m t] session_okD(1) [of sid m t'] by simp

lemma service_change_ok:
  assumes ok: "session_ok sid m"
    and same: "ts_active sv = ts_active (me_service m)" "ts_done sv = ts_done (me_service m)"
    and p: "task_live sid (me_service m) \<Longrightarrow> has_paused_graph sid sv = has_paused_graph sid (me_service m)"
  shows "session_ok sid (m\<lparr>me_service := sv, me_recent := q\<rparr>)" (is "session_ok sid ?m")
proof (rule session_okI)
  have b: "busy_task sid ?m t \<longleftrightarrow> busy_task sid m t" for t by (simp add: busy_task_def)
  note live = live_of_busy [OF ok]
  show "dget (ts_active (me_service ?m)) sid = Some t \<and> t \<notin> set (ts_done (me_service ?m))" if "busy_task sid ?m t" for t
    using that session_okD(1,2) [OF ok] same unfolding b by simp
  show "\<not> has_paused_graph sid (me_service ?m)" if "dget (me_tasks ?m) t = Some (sid, Running)" for t
    using that session_okD(3) [OF ok, of t] p live [of t] by (simp add: busy_task_def)
  show "has_paused_graph sid (me_service ?m)" if "dget (me_tasks ?m) t = Some (sid, Resuming)" for t
    using that session_okD(4) [OF ok, of t] p live [of t] by (simp add: busy_task_def)
  show "(sid, True) \<notin> set (me_torn ?m)" using session_okD(5) [OF ok] by simp
qed

lemma spawn_ok:
  assumes ok: "session_ok sid m" and ids: "ids_fresh m" and free: "s = sid \<Longrightarrow> \<not> (\<exists>t. busy_task sid m t)"
    and run: "s = sid \<Longrightarrow> ph = Running \<Longrightarrow> \<not> has_paused_graph sid (me_service m)"
    and res: "s = sid \<Longrightarrow> ph = Resuming \<Longrightarrow> has_paused_graph sid (me_service m)"
  shows "session_ok sid (spawn s ph m)" (is "session_ok sid ?m")
proof (rule session_okI)
  have new: "me_next m \<notin> set (ts_done (me_service m))" using ids by (auto simp: ids_fresh_def)
  have task: "dget (me_tasks ?m) t = (if t = me_next m then Some (s, ph) else dget (me_tasks m) t)" for t
    by (simp add: spawn_def dget_dset)
  have p: "has_paused_graph sid (me_service ?m) = has_paused_graph sid (me_service m)"
    by (simp add: spawn_def register_active_task_def has_paused_graph_def)
  show "dget (ts_active (me_service ?m)) sid = Some t \<and> t \<notin> set (ts_done (me_service ?m))" if "busy_task sid ?m t" for t
    using that free new session_okD(1,2) [OF ok, of t]
    by (auto simp: busy_task_def task spawn_def register_active_task_def dget_dset split: if_splits)
  show "\<not> has_paused_graph sid (me_service ?m)" if "dget (me_tasks ?m) t = Some (sid, Running)" for t
    using that run session_okD(3) [OF ok, of t] unfolding p by (auto simp: task split: if_splits)
  show "has_paused_graph sid (me_service ?m)" if "dget (me_tasks ?m) t = Some (sid, Resuming)" for t
    using that res session_okD(4) [OF ok, of t] unfolding p by (auto simp: task split: if_splits)
  show "(sid, True) \<notin> set (me_torn ?m)" using session_okD(5) [OF ok] by (simp add: spawn_def)
qed

lemma spawn_ids: "ids_fresh m \<Longrightarrow> ids_fresh (spawn s ph m)"
  by (auto simp: ids_fresh_def spawn_def register_active_task_def dget_dset distinct_dset dkeys_dset less_Suc_eq)

lemma phase_ok:
  assumes ok: "session_ok sid m" and at: "dget (me_tasks m) t = Some (s, ph)"
    and over: "ph' \<noteq> Running \<and> ph' \<noteq> Resuming"
  shows "session_ok sid (set_phase t s ph' m)"
proof -
  have task: "dget (me_tasks (set_phase t s ph' m)) t' = (if t' = t then Some (s, ph') else dget (me_tasks m) t')" for t'
    by (simp add: set_phase_def dget_dset)
  have rest: "me_service (set_phase t s ph' m) = me_service m" "me_torn (set_phase t s ph' m) = me_torn m"
    by (simp_all add: set_phase_def)
  show ?thesis
    using over session_okD [OF ok]
    by (intro session_okI) (auto simp: task rest busy_task_def split: if_splits)
qed

lemma phase_ids: "ids_fresh m \<Longrightarrow> dget (me_tasks m) t = Some (s, ph) \<Longrightarrow> ids_fresh (set_phase t s ph' m)"
  using keys_of_dget [of "me_tasks m" t] by (auto simp: ids_fresh_def set_phase_def distinct_dset dkeys_dset)

lemma payloads_irrelevant [simp]:
  "session_ok sid (m\<lparr>me_payloads := ps\<rparr>) = session_ok sid m" "ids_fresh (m\<lparr>me_payloads := ps\<rparr>) = ids_fresh m"
  by (simp_all add: session_ok_def ids_fresh_def busy_task_def)

lemma ids_service:
  "ids_fresh m \<Longrightarrow> ts_active sv = ts_active (me_service m) \<Longrightarrow> ts_done sv = ts_done (me_service m) \<Longrightarrow>
     ids_fresh (m\<lparr>me_service := sv, me_recent := q\<rparr>)"
  by (simp add: ids_fresh_def)

lemma submit_ok:
  assumes ok: "session_ok sid m" and ids: "ids_fresh m"
  shows "session_ok sid (mesh_step env (Submit s rid p now) m) \<and> ids_fresh (mesh_step env (Submit s rid p now) m)"
proof -
  obtain dup seen where d: "(if rid = [] then (False, me_recent m) else is_duplicate_request now rid (me_recent m)) = (dup, seen)" by fastforce
  obtain busy sv where b: "is_session_busy env now s (me_service m) = (busy, sv)" by fastforce
  note spares = busy_spares [OF b]
  let ?m = "m\<lparr>me_service := sv, me_recent := seen\<rparr>"
  have same: "m\<lparr>me_recent := seen, me_service := sv\<rparr> = ?m" by simp
  have seen_ok: "session_ok sid (m\<lparr>me_recent := seen\<rparr>)" "ids_fresh (m\<lparr>me_recent := seen\<rparr>)"
    using ok ids by (simp_all add: session_ok_def ids_fresh_def busy_task_def)
  have m2: "session_ok sid ?m" "ids_fresh ?m"
    using service_change_ok [OF ok spares(1,2,4)] ids_service [OF ids spares(1,2)] by simp_all
  have "session_ok sid (spawn s Running ?m)" if free: "\<not> busy"
  proof (rule spawn_ok [OF m2])
    show "\<not> (\<exists>t. busy_task sid ?m t)" if "s = sid"
      using live_of_busy [OF ok] spares(5) [OF free] that by (auto simp: busy_task_def)
  qed (use spares(5) [OF free] in simp_all)
  moreover have "mesh_step env (Submit s rid p now) m =
      (if dup then m\<lparr>me_recent := seen\<rparr> else if busy then ?m
       else (spawn s Running ?m)\<lparr>me_payloads := dset (me_next m) p (me_payloads m)\<rparr>)"
    using d b by (simp add: submit_task_def Let_def spawn_def)
  ultimately show ?thesis
    using seen_ok m2 spawn_ids [OF m2(2)] by simp
qed

lemma decide_ok:
  assumes ok: "session_ok sid m" and ids: "ids_fresh m"
    and one: "s = sid \<Longrightarrow> (sid, Resuming) \<notin> set (map snd (me_tasks m))"
  shows "session_ok sid (resume_decision s m) \<and> ids_fresh (resume_decision s m)"
proof (cases "has_paused_graph s (me_service m)")
  case True
  have none: "dget (me_tasks m) t \<noteq> Some (sid, Resuming)" if "s = sid" for t
    using one [OF that] map_of_SomeD [of "me_tasks m" t "(sid, Resuming)"] by force
  have "session_ok sid (spawn s Resuming m)"
  proof (rule spawn_ok [OF ok ids])
    show "\<not> (\<exists>t. busy_task sid m t)" if "s = sid"
      using none [OF that] session_okD(3) [OF ok] True that by (auto simp: busy_task_def)
  qed (use True in simp_all)
  then show ?thesis using True spawn_ids [OF ids] by (simp add: resume_decision_def)
qed (use ok ids in \<open>simp add: resume_decision_def\<close>)

lemma start_ok:
  assumes ok: "session_ok sid m" and ids: "ids_fresh m"
  shows "session_ok sid (mesh_step env (StartTask t) m) \<and> ids_fresh (mesh_step env (StartTask t) m)"
proof (cases "\<exists>s. dget (me_tasks m) t = Some (s, Resuming)")
  case False
  then have "mesh_step env (StartTask t) m = m" by (auto split: option.split task_phase.split)
  then show ?thesis using ok ids by simp
next
  case True
  then obtain s where at: "dget (me_tasks m) t = Some (s, Resuming)" by blast
  show ?thesis
  proof (cases "dget (ts_paused (me_service m)) s")
    case None
    then have "mesh_step env (StartTask t) m = set_phase t s Leaving m" using at by (simp add: resume_graph_def)
    then show ?thesis using phase_ok [OF ok at] phase_ids [OF ids at] by simp
  next
    case (Some v)
    obtain p where v: "dget (ts_paused (me_service m)) s = Some (p, snd v)" using Some by (cases v) auto
    let ?sv = "(me_service m)\<lparr>ts_paused := AList.delete s (ts_paused (me_service m))\<rparr>"
    let ?m = "m\<lparr>me_service := ?sv\<rparr>"
    have step: "mesh_step env (StartTask t) m =
        (set_phase t s Running ?m)\<lparr>me_payloads := dset t p (me_payloads m)\<rparr>"
      using at v by (simp add: resume_graph_def set_phase_def)
    have task: "dget (me_tasks (set_phase t s Running ?m)) t' = (if t' = t then Some (s, Running) else dget (me_tasks m) t')" for t'
      by (simp add: set_phase_def dget_dset)
    have sv: "me_service (set_phase t s Running ?m) = ?sv" "me_torn (set_phase t s Running ?m) = me_torn m"
      by (simp_all add: set_phase_def)
    have p: "has_paused_graph sid ?sv \<longleftrightarrow> sid \<noteq> s \<and> has_paused_graph sid (me_service m)"
      by (simp add: has_paused_graph_def delete_conv')
    have uniq: "t' = t" if "dget (me_tasks m) t' = Some (s, ph)" "ph = Running \<or> ph = Resuming" "s = sid" for t' ph
      using busy_task_unique [OF ok, of t t'] at that by (auto simp: busy_task_def)
    have "session_ok sid (set_phase t s Running ?m)"
    proof (rule session_okI)
      show "dget (ts_active (me_service (set_phase t s Running ?m))) sid = Some t'
            \<and> t' \<notin> set (ts_done (me_service (set_phase t s Running ?m)))" if "busy_task sid (set_phase t s Running ?m) t'" for t'
        using that at session_okD(1,2) [OF ok, of t'] by (auto simp: busy_task_def task sv split: if_splits)
      show "\<not> has_paused_graph sid (me_service (set_phase t s Running ?m))"
        if "dget (me_tasks (set_phase t s Running ?m)) t' = Some (sid, Running)" for t'
        using that session_okD(3) [OF ok, of t'] p by (auto simp: task sv split: if_splits)
      show "has_paused_graph sid (me_service (set_phase t s Running ?m))"
        if "dget (me_tasks (set_phase t s Running ?m)) t' = Some (sid, Resuming)" for t'
        using that session_okD(4) [OF ok, of t'] p uniq [of t' Resuming] by (auto simp: task sv split: if_splits)
      show "(sid, True) \<notin> set (me_torn (set_phase t s Running ?m))" using session_okD(5) [OF ok] by (simp add: sv)
    qed
    moreover have "ids_fresh (set_phase t s Running ?m)"
      using phase_ids [of ?m t s Resuming Running] ids at by (simp add: ids_fresh_def)
    ultimately show ?thesis unfolding step by simp
  qed
qed

lemma pause_ok:
  assumes ok: "session_ok sid m" and ids: "ids_fresh m"
  shows "session_ok sid (mesh_step env (PauseTask t now) m) \<and> ids_fresh (mesh_step env (PauseTask t now) m)"
proof (cases "\<exists>s p. dget (me_tasks m) t = Some (s, Running) \<and> dget (me_payloads m) t = Some p")
  case False
  then have "mesh_step env (PauseTask t now) m = m" by (auto split: option.split task_phase.split)
  then show ?thesis using ok ids by simp
next
  case True
  then obtain s p where at: "dget (me_tasks m) t = Some (s, Running)" and p: "dget (me_payloads m) t = Some p" by blast
  let ?sv = "(me_service m)\<lparr>ts_paused := dset s (p, now) (ts_paused (me_service m))\<rparr>"
  let ?m = "m\<lparr>me_service := ?sv\<rparr>"
  have step: "mesh_step env (PauseTask t now) m = set_phase t s Leaving ?m" using at p by simp
  have task: "dget (me_tasks (set_phase t s Leaving ?m)) t' = (if t' = t then Some (s, Leaving) else dget (me_tasks m) t')" for t'
    by (simp add: set_phase_def dget_dset)
  have sv: "me_service (set_phase t s Leaving ?m) = ?sv" "me_torn (set_phase t s Leaving ?m) = me_torn m"
    by (simp_all add: set_phase_def)
  have paused: "has_paused_graph sid ?sv \<longleftrightarrow> sid = s \<or> has_paused_graph sid (me_service m)"
    by (simp add: has_paused_graph_def dget_dset)
  have "session_ok sid (set_phase t s Leaving ?m)"
  proof (rule session_okI)
    show "dget (ts_active (me_service (set_phase t s Leaving ?m))) sid = Some t'
          \<and> t' \<notin> set (ts_done (me_service (set_phase t s Leaving ?m)))" if "busy_task sid (set_phase t s Leaving ?m) t'" for t'
      using that session_okD(1,2) [OF ok, of t'] by (auto simp: busy_task_def task sv split: if_splits)
    show "\<not> has_paused_graph sid (me_service (set_phase t s Leaving ?m))"
      if "dget (me_tasks (set_phase t s Leaving ?m)) t' = Some (sid, Running)" for t'
      using that session_okD(3) [OF ok, of t'] paused busy_task_unique [OF ok, of t t'] at
      by (auto simp: task sv busy_task_def split: if_splits)
    show "has_paused_graph sid (me_service (set_phase t s Leaving ?m))"
      if "dget (me_tasks (set_phase t s Leaving ?m)) t' = Some (sid, Resuming)" for t'
      using that session_okD(4) [OF ok, of t'] paused by (auto simp: task sv split: if_splits)
    show "(sid, True) \<notin> set (me_torn (set_phase t s Leaving ?m))" using session_okD(5) [OF ok] by (simp add: sv)
  qed
  moreover have "ids_fresh (set_phase t s Leaving ?m)"
    using phase_ids [of ?m t s Running Leaving] ids at by (simp add: ids_fresh_def)
  ultimately show ?thesis unfolding step by simp
qed

lemma leave_ok:
  assumes ok: "session_ok sid m" and ids: "ids_fresh m"
  shows "session_ok sid (mesh_step env (LeaveTask t) m) \<and> ids_fresh (mesh_step env (LeaveTask t) m)"
proof (cases "dget (me_tasks m) t")
  case (Some v)
  then obtain s ph where at: "dget (me_tasks m) t = Some (s, ph)" by (cases v) auto
  show ?thesis using at phase_ok [OF ok at] phase_ids [OF ids at] ok ids by simp
qed (use ok ids in simp)

lemma end_ok:
  assumes ok: "session_ok sid m" and ids: "ids_fresh m"
  shows "session_ok sid (mesh_step env (EndTask t) m) \<and> ids_fresh (mesh_step env (EndTask t) m)"
proof (cases "\<exists>s. dget (me_tasks m) t = Some (s, Leaving)")
  case False
  then have "mesh_step env (EndTask t) m = m" by (auto split: option.split task_phase.split)
  then show ?thesis using ok ids by simp
next
  case True
  then obtain s where at: "dget (me_tasks m) t = Some (s, Leaving)" by blast
  let ?m = "m\<lparr>me_service := (me_service m)\<lparr>ts_done := t # ts_done (me_service m)\<rparr>\<rparr>"
  have b: "busy_task sid ?m t' = busy_task sid m t'" for t' by (simp add: busy_task_def)
  have p: "has_paused_graph sid (me_service ?m) = has_paused_graph sid (me_service m)" by (simp add: has_paused_graph_def)
  have other: "\<not> busy_task sid m t" using at by (simp add: busy_task_def)
  have "session_ok sid ?m"
  proof (rule session_okI)
    show "dget (ts_active (me_service ?m)) sid = Some t' \<and> t' \<notin> set (ts_done (me_service ?m))" if "busy_task sid ?m t'" for t'
      using that session_okD(1,2) [OF ok, of t'] other unfolding b by auto
  qed (use session_okD(3,4,5) [OF ok] p in auto)
  moreover have "ids_fresh ?m"
    using ids keys_of_dget [OF at] by (auto simp: ids_fresh_def)
  ultimately show ?thesis
    using at phase_ok [of sid ?m t s Leaving Over] phase_ids [of ?m t s Leaving Over] by simp
qed

lemma in_use_tasks:
  assumes "ids_fresh m"
  shows "in_use sid m \<longleftrightarrow> has_paused_graph sid (me_service m) \<or> (\<exists>t. busy_task sid m t)"
proof -
  have "x \<in> set (map snd (me_tasks m)) \<longleftrightarrow> (\<exists>t. (t, x) \<in> set (me_tasks m))" for x by force
  then have "x \<in> set (map snd (me_tasks m)) \<longleftrightarrow> (\<exists>t. dget (me_tasks m) t = Some x)" for x
    using assms by (simp add: ids_fresh_def map_of_eq_Some_iff)
  then show ?thesis by (auto simp: in_use_def busy_task_def)
qed

lemma callbacks_ok:
  assumes ok: "session_ok sid m" and ids: "ids_fresh m"
  shows "session_ok sid (mesh_step env (Callbacks t) m) \<and> ids_fresh (mesh_step env (Callbacks t) m)"
proof (cases "\<exists>s. dget (me_tasks m) t = Some (s, Over)")
  case False
  then have "mesh_step env (Callbacks t) m = m" by (auto split: option.split task_phase.split)
  then show ?thesis using ok ids by simp
next
  case True
  then obtain s where at: "dget (me_tasks m) t = Some (s, Over)" by blast
  let ?sv = "pop_active_if_current s t (me_service m)"
  let ?m = "m\<lparr>me_service := ?sv, me_tasks := AList.delete t (me_tasks m)\<rparr>"
  have task: "dget (me_tasks ?m) t' = Some (sid, ph) \<Longrightarrow> dget (me_tasks m) t' = Some (sid, ph)" for t' ph
    by (simp add: delete_conv' split: if_splits)
  have b: "busy_task sid m t'" "t' \<noteq> t" if "busy_task sid ?m t'" for t'
    using that by (simp_all add: busy_task_def delete_conv' split: if_splits)
  have kept: "ts_done ?sv = ts_done (me_service m)" "has_paused_graph sid ?sv = has_paused_graph sid (me_service m)"
    by (simp_all add: pop_active_if_current_def drop_steering_queue_def has_paused_graph_def)
  have act: "dget (ts_active ?sv) r = (if r = s \<and> dget (ts_active (me_service m)) s = Some t then None else dget (ts_active (me_service m)) r)" for r
    by (simp add: pop_active_if_current_def drop_steering_queue_def delete_conv')
  have m_ok: "session_ok sid ?m"
  proof (rule session_okI)
    show "dget (ts_active (me_service ?m)) sid = Some t' \<and> t' \<notin> set (ts_done (me_service ?m))" if "busy_task sid ?m t'" for t'
      using b [OF that] session_okD(1,2) [OF ok, of t'] act [of sid] kept by auto
    show "\<not> has_paused_graph sid (me_service ?m)" if "dget (me_tasks ?m) t' = Some (sid, Running)" for t'
      using session_okD(3) [OF ok task [OF that]] kept by simp
    show "has_paused_graph sid (me_service ?m)" if "dget (me_tasks ?m) t' = Some (sid, Resuming)" for t'
      using session_okD(4) [OF ok task [OF that]] kept by simp
    show "(sid, True) \<notin> set (me_torn ?m)" using session_okD(5) [OF ok] by simp
  qed
  have m_ids: "ids_fresh ?m"
    using ids act by (auto simp: ids_fresh_def kept distinct_delete_keys delete_keys distinct_removeAll split: if_splits)
  have "\<not> in_use sid ?m" if "s = sid" "schedule_cell_teardown s ?sv"
    using that session_okD(1) [OF m_ok] in_use_tasks [OF m_ids, of sid] by (auto simp: schedule_cell_teardown_def)
  then have "session_ok sid (if schedule_cell_teardown s ?sv then ?m\<lparr>me_torn := me_torn ?m @ [(s, in_use s ?m)]\<rparr> else ?m)"
    using m_ok by (auto simp: session_ok_def busy_task_def)
  moreover have "ids_fresh (if schedule_cell_teardown s ?sv then ?m\<lparr>me_torn := me_torn ?m @ [(s, in_use s ?m)]\<rparr> else ?m)"
    using m_ids by (simp add: ids_fresh_def)
  ultimately show ?thesis using at by (simp add: Let_def split del: if_split)
qed

lemma enqueue_fields:
  "\<exists>q. snd (enqueue_steering env now s mid msg sv) = (snd (is_session_busy env now s sv))\<lparr>ts_steering := q\<rparr>"
proof -
  obtain b sv' where busy: "is_session_busy env now s sv = (b, sv')" by fastforce
  have same: "\<exists>q. sv' = sv'\<lparr>ts_steering := q\<rparr>" by (rule exI [of _ "ts_steering sv'"]) simp
  show ?thesis
  proof (cases b)
    case True
    then show ?thesis using busy by (simp add: enqueue_steering_def Let_def) blast
  next
    case False
    then show ?thesis using busy same by (simp add: enqueue_steering_def)
  qed
qed

lemma steer_ok:
  assumes ok: "session_ok sid m" and ids: "ids_fresh m"
  shows "session_ok sid (mesh_step env (Steer s mid msg now) m) \<and> ids_fresh (mesh_step env (Steer s mid msg now) m)"
proof -
  obtain b sv where busy: "is_session_busy env now s (me_service m) = (b, sv)" by fastforce
  let ?sv = "snd (enqueue_steering env now s mid msg (me_service m))"
  obtain q where q: "?sv = sv\<lparr>ts_steering := q\<rparr>" using enqueue_fields [of env now s mid msg "me_service m"] busy by auto
  have same: "ts_active ?sv = ts_active (me_service m)" "ts_done ?sv = ts_done (me_service m)"
    "task_live sid (me_service m) \<Longrightarrow> has_paused_graph sid ?sv = has_paused_graph sid (me_service m)"
    using busy_spares(1,2,4) [OF busy] unfolding q by (simp_all add: has_paused_graph_def)
  show ?thesis
    using service_change_ok [OF ok same, of "me_recent m"] ids_service [OF ids same(1,2), of "me_recent m"] by simp
qed

lemma mesh_step_ok:
  assumes "session_ok sid m" and "ids_fresh m" and "orderly env sid m [e]"
  shows "session_ok sid (mesh_step env e m) \<and> ids_fresh (mesh_step env e m)"
proof (cases e)
  case (AskAnalyst s)
  then show ?thesis using assms spawn_ok [OF assms(1,2), of s Answering] spawn_ids [OF assms(2)] by simp
next
  case (Decide s)
  then show ?thesis using assms decide_ok [OF assms(1,2), of s] by auto
next
  case (Submit s rid p now)
  then show ?thesis using submit_ok [OF assms(1,2)] by blast
next
  case (StartTask t)
  then show ?thesis using start_ok [OF assms(1,2)] by blast
next
  case (PauseTask t now)
  then show ?thesis using pause_ok [OF assms(1,2)] by blast
next
  case (LeaveTask t)
  then show ?thesis using leave_ok [OF assms(1,2)] by blast
next
  case (EndTask t)
  then show ?thesis using end_ok [OF assms(1,2)] by blast
next
  case (Callbacks t)
  then show ?thesis using callbacks_ok [OF assms(1,2)] by blast
next
  case (Steer s mid msg now)
  then show ?thesis using steer_ok [OF assms(1,2)] by blast
qed

lemma orderly_run_ok:
  "orderly env sid m es \<Longrightarrow> session_ok sid m \<Longrightarrow> ids_fresh m \<Longrightarrow>
     session_ok sid (fold (mesh_step env) es m) \<and> ids_fresh (fold (mesh_step env) es m)"
proof (induction es arbitrary: m)
  case (Cons e es)
  have "orderly env sid m [e]" "orderly env sid (mesh_step env e m) es" using Cons.prems(1) by simp_all
  then show ?case using Cons.IH mesh_step_ok [OF Cons.prems(2,3)] by simp
qed simp

lemma fresh_mesh_ok: "session_ok sid fresh_mesh" "ids_fresh fresh_mesh"
  by (simp_all add: fresh_mesh_def fresh_service_def session_ok_def busy_task_def ids_fresh_def)

text \<open>
  C5. In an orderly run at most one task runs the graph of a session, a task that does makes the
  session busy, so a further submission is refused, and the cell of the session is never torn down
  while a turn runs, is about to resume or waits for the operator.
\<close>

theorem one_graph_run_per_session:
  assumes "orderly env sid fresh_mesh es"
  shows "let m = mesh_run env es; running = filter (\<lambda>(_, task). task = (sid, Running)) (me_tasks m) in
     length running \<le> 1
     \<and> (running = [] \<or> fst (submit_task env now sid rid payload m) \<in> {''busy'', ''duplicate_ignored''})
     \<and> (sid, True) \<notin> set (me_torn m)"
proof -
  let ?m = "mesh_run env es"
  let ?running = "filter (\<lambda>(_, task). task = (sid, Running)) (me_tasks ?m)"
  have ok: "session_ok sid ?m" and ids: "ids_fresh ?m"
    using orderly_run_ok [OF assms fresh_mesh_ok] by (simp_all add: mesh_run_def)
  have dist: "distinct (map fst ?running)" using ids by (simp add: ids_fresh_def distinct_map_filter)
  have b: "busy_task sid ?m t" if "t \<in> set (map fst ?running)" for t
    using that ids by (auto simp: busy_task_def ids_fresh_def map_of_eq_Some_iff)
  have "length (map fst ?running) \<le> 1"
    using busy_task_unique [OF ok b b] dist by (rule distinct_one)
  moreover have "fst (submit_task env now sid rid payload ?m) \<in> {''busy'', ''duplicate_ignored''}" if some: "?running \<noteq> []"
  proof -
    obtain t where "t \<in> set (map fst ?running)" using some by (cases ?running) auto
    then have live: "task_live sid (me_service ?m)" using live_of_busy [OF ok b] by blast
    then show ?thesis by (simp add: submit_task_def is_session_busy_def Let_def split: prod.split)
  qed
  ultimately show ?thesis using session_okD(5) [OF ok] by (auto simp: Let_def)
qed

lemma one_graph_run_per_session_witness:
  "let m = mesh_run \<lparr>le_pause_ttl = 21600, le_max_queued = 5, le_max_chars = 4000\<rparr>
       [Submit ''s'' [] () 0, PauseTask 0 1, EndTask 0, Callbacks 0, Decide ''s'', StartTask 1];
     running = filter (\<lambda>(_, task). task = (''s'', Running)) (me_tasks m) in
     length running \<le> 1
     \<and> (running = [] \<or> fst (submit_task \<lparr>le_pause_ttl = 21600, le_max_queued = 5, le_max_chars = 4000\<rparr> 9 ''s'' ''r'' () m)
          \<in> {''busy'', ''duplicate_ignored''})
     \<and> (''s'', True) \<notin> set (me_torn m)"
proof (rule one_graph_run_per_session)
  show "orderly \<lparr>le_pause_ttl = 21600, le_max_queued = 5, le_max_chars = 4000\<rparr> ''s'' fresh_mesh
      [Submit ''s'' [] () 0, PauseTask 0 1, EndTask 0, Callbacks 0, Decide ''s'', StartTask 1]"
    by (simp add: fresh_mesh_def fresh_service_def submit_task_def is_session_busy_def task_live_def spawn_def
        register_active_task_def set_phase_def pop_active_if_current_def drop_steering_queue_def
        schedule_cell_teardown_def has_paused_graph_def in_use_def Let_def)
qed

lemmas mesh_eval = mesh_run_def fresh_mesh_def fresh_service_def submit_task_def is_session_busy_def task_live_def spawn_def
  register_active_task_def set_phase_def pop_active_if_current_def drop_steering_queue_def resume_decision_def resume_graph_def
  schedule_cell_teardown_def has_paused_graph_def in_use_def enqueue_steering_def peek_steering_def dget_default_def

text \<open>
  A second decision that is handled before the first one's task has started registers a second task,
  which finds nothing to resume; when it ends, the task that runs the graph is no longer registered:
  a submission is accepted beside it, and its cell is torn down.
\<close>

lemma double_decision_unregisters_runner:
  "let m = mesh_run env [Submit s [] p 0, PauseTask 0 1, EndTask 0, Callbacks 0, Decide s, Decide s, StartTask 1, StartTask 2, EndTask 2, Callbacks 2]
   in dget (me_tasks m) 1 = Some (s, Running) \<and> fst (submit_task env 2 s [] p m) = ''accepted'' \<and> (s, True) \<in> set (me_torn m)"
  by (simp add: mesh_eval Let_def)

text \<open>The same for a query of the analyst pane under the id of a session that is running.\<close>

lemma analyst_query_unregisters_runner:
  "let m = mesh_run env [Submit s [] p 0, AskAnalyst s, LeaveTask 1, EndTask 1, Callbacks 1]
   in dget (me_tasks m) 0 = Some (s, Running) \<and> fst (submit_task env 2 s [] p m) = ''accepted'' \<and> (s, True) \<in> set (me_torn m)"
  by (simp add: mesh_eval Let_def)

text \<open>A steering message accepted just before the graph pauses is dropped with the task that paused.\<close>

lemma pause_drops_steering:
  assumes "0 < le_max_queued env"
  shows "fst (enqueue_steering env 0 s mid msg (me_service (mesh_run env [Submit s [] p 0]))) = ''queued''"
    "let m = mesh_run env [Submit s [] p 0, Steer s mid msg 0, PauseTask 0 1, EndTask 0, Callbacks 0] in
     has_paused_graph s (me_service m) \<and> peek_steering s (me_service m) = []"
  using assms by (simp_all add: mesh_eval Let_def delete_conv')

text \<open>A message accepted while the graph is paused outlives an abandoned pause and steers the next submission.\<close>

lemma abandoned_pause_leaves_steering:
  assumes "0 < le_max_queued env" and "0 \<le> le_pause_ttl env" and "le_pause_ttl env + 1 < now"
  shows "let m = mesh_run env [Submit s [] p 0, PauseTask 0 1, EndTask 0, Callbacks 0, Steer s mid msg 1, Submit s [] p' now] in
     dget (me_tasks m) 1 = Some (s, Running) \<and> peek_steering s (me_service m) = [(mid, take (le_max_chars env) msg)]"
  using assms by (simp add: mesh_eval Let_def setdefault_def)

text \<open>A submission refused because its session is busy is recorded as seen, so its repetition is ignored although it never ran.\<close>

lemma refused_submission_never_retried:
  assumes "rid \<noteq> []" and "task_live s (me_service m)" and "rid \<notin> set (map fst (prune_requests now (me_recent m)))"
    and "length (prune_requests now (me_recent m)) < 256" and "now \<le> later" and "later \<le> now + 120"
    and "list_all (\<lambda>(_, t). t \<le> now \<and> later \<le> t + 120) (prune_requests now (me_recent m))"
  shows "fst (submit_task env now s rid p m) = ''busy''"
    "me_recent m' = me_recent (snd (submit_task env now s rid p m)) \<Longrightarrow> fst (submit_task env later s rid p m') = ''duplicate_ignored''"
proof -
  have dup: "is_duplicate_request now rid (me_recent m) = (False, prune_requests now (me_recent m) @ [(rid, now)])"
    using assms(3,4) by (simp add: is_duplicate_request_def Let_def)
  have busy: "submit_task env now s rid p m = (''busy'', m\<lparr>me_recent := prune_requests now (me_recent m) @ [(rid, now)]\<rparr>)"
    using assms(1,2) dup by (simp add: submit_task_def is_session_busy_def Let_def)
  show "fst (submit_task env now s rid p m) = ''busy''" by (simp add: busy)
  have kept: "prune_requests later (prune_requests now (me_recent m) @ [(rid, now)]) = prune_requests now (me_recent m) @ [(rid, now)]"
    using assms(6,7) by (cases "prune_requests now (me_recent m)") (auto simp: prune_requests_def [of later])
  show "fst (submit_task env later s rid p m') = ''duplicate_ignored''"
    if recent: "me_recent m' = me_recent (snd (submit_task env now s rid p m))"
  proof -
    have "me_recent m' = prune_requests now (me_recent m) @ [(rid, now)]" using recent unfolding busy by simp
    then have "is_duplicate_request later rid (me_recent m') = (True, prune_requests now (me_recent m) @ [(rid, now)])"
      using kept by (simp add: is_duplicate_request_def Let_def)
    then show ?thesis using assms(1) by (simp add: submit_task_def)
  qed
qed

subsection \<open>Steering queues\<close>

definition queue_ok :: "lifecycle_env \<Rightarrow> (string \<times> string) list \<Rightarrow> bool" where
  "queue_ok env q \<longleftrightarrow>
     length q \<le> le_max_queued env \<and> distinct (map fst q) \<and> list_all (\<lambda>(_, msg). length msg \<le> le_max_chars env) q"

definition queues_ok :: "lifecycle_env \<Rightarrow> 'p task_service \<Rightarrow> bool" where
  "queues_ok env s \<longleftrightarrow> list_all (\<lambda>(_, q). queue_ok env q) (ts_steering s)"

lemma queue_found: "queues_ok env s \<Longrightarrow> queue_ok env (dget_default (ts_steering s) sid [])"
  by (auto simp: queues_ok_def list_all_iff dget_default_def queue_ok_def dest!: map_of_SomeD split: option.split)

lemma set_update_subset: "set (dset k v d) \<subseteq> insert (k, v) (set d)"
  by (induction d) auto

lemma queues_dset: "queues_ok env s \<Longrightarrow> queue_ok env q \<Longrightarrow> queues_ok env (s\<lparr>ts_steering := dset sid q (ts_steering s)\<rparr>)"
  using set_update_subset [of sid q "ts_steering s"] by (auto simp: queues_ok_def list_all_iff)

lemma queues_enqueue:
  assumes "queues_ok env s"
  shows "queues_ok env (snd (enqueue_steering env now sid mid msg s))"
proof -
  obtain b s' where busy: "is_session_busy env now sid s = (b, s')" by fastforce
  have ok: "queues_ok env s'" using assms busy_spares(3) [OF busy] by (simp add: queues_ok_def)
  have "queue_ok env []" by (simp add: queue_ok_def)
  then have ok': "queues_ok env (s'\<lparr>ts_steering := setdefault sid [] (ts_steering s')\<rparr>)"
    using ok queues_dset [OF ok] by (auto simp: setdefault_def split: option.split)
  let ?q = "dget_default (ts_steering s') sid []"
  have grown: "queue_ok env (?q @ [(mid, take (le_max_chars env) msg)])"
    if "mid \<notin> set (map fst ?q)" "length ?q < le_max_queued env"
    using queue_found [OF ok, of sid] that by (simp add: queue_ok_def)
  show ?thesis
    using busy ok ok' grown queues_dset [OF ok']
    by (cases b) (auto simp: enqueue_steering_def Let_def simp del: map_map)
qed

lemma delete_set_subset: "set (AList.delete k d) \<subseteq> set d"
  by (induction d) auto

lemma queues_delete: "queues_ok env s \<Longrightarrow> queues_ok env (drop_steering_queue sid s)"
  using delete_set_subset [of sid "ts_steering s"] by (auto simp: queues_ok_def drop_steering_queue_def list_all_iff)

lemma queues_pop: "queues_ok env s \<Longrightarrow> queues_ok env (pop_active_if_current sid t s)"
  using queues_delete [of env "s\<lparr>ts_active := AList.delete sid (ts_active s)\<rparr>" sid]
  by (simp add: pop_active_if_current_def queues_ok_def)

lemma queues_step:
  assumes "queues_ok env (me_service m)"
  shows "queues_ok env (me_service (mesh_step env e m))"
proof (cases e)
  case (Submit s rid p now)
  obtain busy sv where b: "is_session_busy env now s (me_service m) = (busy, sv)" by fastforce
  show ?thesis
    using assms busy_spares(3) [OF b] b Submit
    by (auto simp: submit_task_def spawn_def register_active_task_def Let_def queues_ok_def split: prod.split)
next
  case (StartTask t)
  then show ?thesis using assms
    by (auto simp: resume_graph_def set_phase_def queues_ok_def split: option.split task_phase.split prod.split)
next
  case (Callbacks t)
  then show ?thesis using assms queues_pop [OF assms]
    by (simp add: Let_def split: option.split task_phase.split)
next
  case (Steer s mid msg now)
  then show ?thesis using assms queues_enqueue by simp
qed (use assms in \<open>auto simp: resume_decision_def spawn_def register_active_task_def set_phase_def queues_ok_def
      split: option.split task_phase.split\<close>)

text \<open>
  Whatever is submitted, steered, paused and resumed, each session holds at most the configured
  number of steering messages, under distinct identifiers and none longer than the configured length.
\<close>

theorem steering_queues_bounded:
  "list_all (\<lambda>(_, q). length q \<le> le_max_queued env \<and> distinct (map fst q) \<and> list_all (\<lambda>(_, msg). length msg \<le> le_max_chars env) q)
     (ts_steering (me_service (mesh_run env es)))"
proof -
  have "queues_ok env (me_service (fold (mesh_step env) es m))" if "queues_ok env (me_service m)" for m
    using that by (induction es arbitrary: m) (simp_all add: queues_step)
  then have "queues_ok env (me_service (mesh_run env es))"
    by (simp add: mesh_run_def fresh_mesh_def fresh_service_def queues_ok_def)
  then show ?thesis by (simp add: queues_ok_def queue_ok_def)
qed

subsection \<open>Conversations\<close>

text \<open>\<open>_conversations\<close>: per session its last 24 messages, each a role and a content.\<close>

type_synonym conversations = "(string, (string \<times> string) list) dict"

definition append_history :: "string \<Rightarrow> string \<Rightarrow> string \<Rightarrow> conversations \<Rightarrow> conversations" where
  "append_history sid role content h =
     (let history = dget_default h sid [] @ [(role, content)] in dset sid (drop (length history - 24) history) h)"

definition clear_conversation :: "string \<Rightarrow> conversations \<Rightarrow> conversations" where
  "clear_conversation sid h = AList.delete sid h"

text \<open>The messages of a stored transcript have their role and content optional.\<close>

definition restore_conversation :: "string \<Rightarrow> (string option \<times> string option) list \<Rightarrow> conversations \<Rightarrow> conversations" where
  "restore_conversation sid messages h =
     (if messages = [] \<or> dget_default h sid [] \<noteq> [] then h
      else (let cleaned = [(the r, the c). (r, c) \<leftarrow> messages, r = Some ''user'' \<or> r = Some ''assistant'', str_or c [] \<noteq> []] in
        if cleaned = [] then h else dset sid (drop (length cleaned - 24) cleaned) h))"

datatype history_op =
    Append string string string
  | Clear string
  | Restore string "(string option \<times> string option) list"

fun history_step :: "history_op \<Rightarrow> conversations \<Rightarrow> conversations" where
  "history_step (Append sid role content) h = append_history sid role content h"
| "history_step (Clear sid) h = clear_conversation sid h"
| "history_step (Restore sid messages) h = restore_conversation sid messages h"

lemma history_step_bounded:
  assumes "list_all (\<lambda>(_, msgs). length msgs \<le> 24) h"
  shows "list_all (\<lambda>(_, msgs). length msgs \<le> 24) (history_step e h)"
  using assms
  by (cases e)
     (auto simp: append_history_def clear_conversation_def restore_conversation_def Let_def list_all_iff
       dest!: subsetD [OF set_update_subset] subsetD [OF delete_set_subset])

lemma histories_bounded: "list_all (\<lambda>(_, msgs). length msgs \<le> 24) (fold history_step ops [])"
proof -
  have "list_all (\<lambda>(_, msgs). length msgs \<le> 24) (fold history_step ops h)"
    if "list_all (\<lambda>(_, msgs). length msgs \<le> 24) h" for h
    using that by (induction ops arbitrary: h) (simp_all add: history_step_bounded)
  then show ?thesis by simp
qed

text \<open>
  What the model is told of a conversation is the last 24 messages appended to it, whatever is
  appended to other conversations in between.
\<close>

lemma history_keeps_latest:
  "dget_default (fold (\<lambda>(s, r, c). append_history s r c) msgs (clear_conversation sid h)) sid [] =
     (let mine = map snd (filter (\<lambda>m. fst m = sid) msgs) in drop (length mine - 24) mine)"
proof (induction msgs rule: rev_induct)
  case Nil
  show ?case by (simp add: clear_conversation_def dget_default_def delete_conv')
next
  case (snoc m msgs)
  obtain s r c where m: "m = (s, r, c)" by (cases m) auto
  have n: "n - (n - 24 + 23) + (n - 24) = n - 23" for n :: nat by arith
  show ?case using snoc.IH by (auto simp: m n append_history_def Let_def default_dset)
qed

text \<open>A window that reopens a session whose memory is live changes nothing.\<close>

lemma restore_spares_live: "dget_default h sid [] \<noteq> [] \<Longrightarrow> restore_conversation sid messages h = h"
  by (simp add: restore_conversation_def)

end
