(* ===== verification/SessionServices.thy ===== *)
theory SessionServices
  imports TaskLifecycle
begin

text \<open>
  What the endpoint of \<open>main.py\<close> does with the events of a window that carries several sessions, and
  the services of \<open>core/task_service.py\<close> around a turn: tracked tools and their replay, the hooks
  around a patch, inline edits, the coalescing of reasoning, the classification of narration and the
  summary of a turn.
\<close>

declare map_of_eq_Some_iff [simp del] Some_eq_map_of_iff [simp del]

subsection \<open>Events of a shared connection\<close>

text \<open>\<open>_resolve_target_session_id\<close>.\<close>

definition target_session :: "string option \<Rightarrow> string \<Rightarrow> string" where
  "target_session session_id client_id = str_or session_id client_id"

record hitl_reply =
  hr_approval_id :: string
  hr_approved :: bool
  hr_comment :: "string option"
  hr_modified_content :: "string option"
  hr_answer :: "string option"
  hr_selected_option :: "string option"
  hr_answers :: "json list option"
  hr_session_id :: "string option"

definition json_text :: "string option \<Rightarrow> json" where
  "json_text v = (case v of None \<Rightarrow> JNull | Some s \<Rightarrow> JStr s)"

definition resume_approval_dict :: "hitl_reply \<Rightarrow> (string \<times> json) list" where
  "resume_approval_dict d =
     [(''approved'', JBool (hr_approved d)), (''comment'', json_text (hr_comment d)),
      (''modified_content'', json_text (hr_modified_content d)),
      (''answer'', json_text (case hr_answer d of None \<Rightarrow> hr_comment d | Some a \<Rightarrow> Some a)),
      (''selected_option'', json_text (hr_selected_option d)),
      (''answers'', case hr_answers d of None \<Rightarrow> JNull | Some [] \<Rightarrow> JNull | Some as \<Rightarrow> JArr as)]"

text \<open>
  \<open>client_hitl_response\<close>: the state of the tasks, the table of approvals, and the acknowledgement
  that is sent for the reply.
\<close>

definition approval_of :: "hitl_reply \<Rightarrow> bool \<times> string option \<times> string option" where
  "approval_of d = (hr_approved d, hr_comment d, hr_modified_content d)"

definition on_hitl_response :: "string \<Rightarrow> hitl_reply \<Rightarrow> 'p mesh \<Rightarrow> (bool \<times> string option \<times> string option) exchange
    \<Rightarrow> 'p mesh \<times> (bool \<times> string option \<times> string option) exchange \<times> (string \<times> string \<times> bool)" where
  "on_hitl_response client_id d m x =
     (let sid = target_session (hr_session_id d) client_id;
          ack = (sid, hr_approval_id d, True)
      in if has_paused_graph sid (me_service m) then (resume_decision sid m, x, ack)
         else (m, exchange_step (Reply (hr_approval_id d) (approval_of d)) x, ack))"

text \<open>
  The events whose handler takes the identity of the connection for the session: the conversation is
  cleared and restored, a line is typed into a terminal and a tool is run again under it.
\<close>

definition on_clear_conversation :: "string \<Rightarrow> conversations \<Rightarrow> conversations" where
  "on_clear_conversation client_id h = clear_conversation client_id h"

definition on_restore_history :: "string \<Rightarrow> (string option \<times> string option) list \<Rightarrow> conversations \<Rightarrow> conversations" where
  "on_restore_history client_id msgs h = restore_conversation client_id msgs h"

definition pty_write_target :: "string \<Rightarrow> string option \<Rightarrow> string" where
  "pty_write_target client_id payload_session = client_id"

definition abort_target :: "string \<Rightarrow> string option \<Rightarrow> string" where
  "abort_target client_id payload_session = target_session payload_session client_id"

text \<open>The planner flag of a submission: the toggle kept for its id, else the body's, raised by plan mode.\<close>

definition submitted_planner_mode :: "(string, bool) dict \<Rightarrow> string \<Rightarrow> bool \<Rightarrow> bool \<Rightarrow> bool" where
  "submitted_planner_mode registry task_id body plan_only \<longleftrightarrow>
     plan_only \<or> (case dget registry task_id of None \<Rightarrow> body | Some b \<Rightarrow> b)"

text \<open>A reply that names no open request, or another one, resumes the paused graph of its session all the same.\<close>

lemma any_reply_resumes_graph:
  assumes "has_paused_graph (target_session (hr_session_id d) cid) (me_service m)"
  shows "on_hitl_response cid d m x = (resume_decision (target_session (hr_session_id d) cid) m, x,
     (target_session (hr_session_id d) cid, hr_approval_id d, True))"
  using assms by (simp add: on_hitl_response_def Let_def)

text \<open>A reply that no table knows is dropped, and acknowledged as received.\<close>

lemma dropped_reply_acknowledged:
  assumes "\<not> has_paused_graph (target_session (hr_session_id d) cid) (me_service m)"
    and "hr_approval_id d \<notin> set (tb_pending (ex_table x))"
  shows "fst (snd (on_hitl_response cid d m x)) = x" "snd (snd (snd (snd (on_hitl_response cid d m x)))) = True"
  using assms by (simp_all add: on_hitl_response_def Let_def tb_resolve_def)

text \<open>The button that clears a conversation leaves the memory of the session as it is.\<close>

lemma clear_misses_session:
  assumes "sid \<noteq> client_id"
  shows "dget (on_clear_conversation client_id h) sid = dget h sid"
  using assms by (simp add: on_clear_conversation_def clear_conversation_def delete_conv')

lemma restore_misses_session:
  assumes "sid \<noteq> client_id"
  shows "dget (on_restore_history client_id msgs h) sid = dget h sid"
  using assms by (simp add: on_restore_history_def restore_conversation_def Let_def dget_dset)

subsection \<open>Tracked tools\<close>

datatype tool_status = ChipPending | ChipSuccess | ChipError

record 'a tool_call_spec =
  tc_name :: string
  tc_args :: 'a
  tc_side_effect_free :: bool
  tc_status :: tool_status
  tc_output :: string
  tc_exit :: "int option"

type_synonym 'a tool_registry = "(string \<times> string, 'a tool_call_spec) dict"

text \<open>
  What running a tool comes to: standard output and error with an exit code, an exception with its
  text, or a cancellation. The sandbox is a parameter.
\<close>

datatype tool_run = Ran string string int | Raised string | Cancelled

text \<open>The frames of a chip; the error text and the cut marker are those of the source, its typographic dots as character 133.\<close>

datatype 'a chip_frame =
    ChipStart string string 'a bool
  | ChipChunk string string bool
  | ChipResult string bool "int option"

definition truncate_tool_output :: "nat \<Rightarrow> string \<Rightarrow> string" where
  "truncate_tool_output cap body =
     (if length body \<le> cap then body
      else (let half = (cap - 32) div 2 in
        take half body @ [CHR 0x0A, CHR 0x85] @ ''[TRUNCATED '' @ show_nat (length body - cap) @ '' CHARS]'' @ [CHR 0x85, CHR 0x0A]
        @ last_chars half body))"

definition unwired_tool :: "string \<Rightarrow> string" where
  "unwired_tool name =
     ''Tracked execution of tool '' @ [CHR 0x27] @ name @ [CHR 0x27] @ '' not wired yet (Phase 7.11.6 only ships sandbox_bash; ''
     @ ''future tools will register through this same method).''"

definition run_tracked :: "('a \<Rightarrow> tool_run) \<Rightarrow> string \<Rightarrow> 'a \<Rightarrow> tool_run" where
  "run_tracked sandbox name args = (if name = ''sandbox_bash'' then sandbox args else Raised (unwired_tool name))"

definition finish_spec :: "tool_run \<Rightarrow> 'a tool_call_spec \<Rightarrow> 'a tool_call_spec" where
  "finish_spec r spec =
     (case r of
        Ran out err code \<Rightarrow>
          spec\<lparr>tc_output := truncate_tool_output 2000 (out @ err), tc_exit := Some code,
               tc_status := (if code = 0 then ChipSuccess else ChipError)\<rparr>
      | Raised msg \<Rightarrow> spec\<lparr>tc_status := ChipError, tc_output := ''[error] '' @ msg\<rparr>
      | Cancelled \<Rightarrow> spec\<lparr>tc_status := ChipError, tc_output := ''[cancelled by user]''\<rparr>)"

definition run_frames :: "string \<Rightarrow> tool_run \<Rightarrow> 'a chip_frame list" where
  "run_frames i r =
     (case r of
        Ran out err code \<Rightarrow> (let body = truncate_tool_output 2000 (out @ err) in if body = [] then [] else [ChipChunk i body False])
      | Raised msg \<Rightarrow> [ChipChunk i (''[error] '' @ msg) True]
      | Cancelled \<Rightarrow> [])"

text \<open>\<open>execute_tracked_tool\<close> under a fresh identifier.\<close>

definition execute_tracked_tool :: "('a \<Rightarrow> tool_run) \<Rightarrow> string \<Rightarrow> string \<Rightarrow> string \<Rightarrow> 'a \<Rightarrow> bool \<Rightarrow> 'a tool_registry
    \<Rightarrow> 'a chip_frame list \<times> 'a tool_registry" where
  "execute_tracked_tool sandbox sid i name args sef reg =
     (let spec = \<lparr>tc_name = name, tc_args = args, tc_side_effect_free = sef, tc_status = ChipPending, tc_output = [], tc_exit = None\<rparr>;
          r = run_tracked sandbox name args;
          spec = finish_spec r spec
      in (ChipStart i name args sef # run_frames i r @ [ChipResult i (tc_status spec = ChipSuccess) (tc_exit spec)],
          dset (sid, i) spec reg))"

text \<open>\<open>retry_tool_call\<close>: whether the call was known, the frames of its replay, and the registry.\<close>

definition retry_tool_call :: "('a \<Rightarrow> tool_run) \<Rightarrow> string \<Rightarrow> string \<Rightarrow> string \<Rightarrow> 'a tool_registry
    \<Rightarrow> bool \<times> 'a chip_frame list \<times> 'a tool_registry" where
  "retry_tool_call sandbox sid i fresh_id reg =
     (case dget reg (sid, i) of
        None \<Rightarrow> (False, [], reg)
      | Some spec \<Rightarrow>
          (case execute_tracked_tool sandbox sid fresh_id (tc_name spec) (tc_args spec) (tc_side_effect_free spec) reg of
             (frames, reg) \<Rightarrow> (True, frames, reg)))"

definition cleanup_session :: "string \<Rightarrow> 'a tool_registry \<Rightarrow> nat \<times> 'a tool_registry" where
  "cleanup_session sid reg =
     (let ks = filter (\<lambda>k. fst k = sid) (dkeys reg) in (length ks, fold AList.delete ks reg))"

lemma length_show_nat: "n < 10 ^ Suc k \<Longrightarrow> length (show_nat n) \<le> Suc k"
proof (induction k arbitrary: n)
  case 0
  then show ?case by (simp add: show_nat.simps [of n])
next
  case (Suc k)
  have "n div 10 < 10 ^ Suc k" using Suc.prems by simp
  then show ?case using Suc.IH [of "n div 10"] by (simp add: show_nat.simps [of n])
qed

text \<open>A cut output is never longer than the cap, for outputs of less than ten thousand million characters beyond it.\<close>

lemma truncated_output_bounded:
  assumes "length body < cap + 10 ^ 10" and "32 \<le> cap"
  shows "length (truncate_tool_output cap body) \<le> cap"
proof (cases "length body \<le> cap")
  case False
  have "length (show_nat (length body - cap)) \<le> 10"
    using length_show_nat [of "length body - cap" 9] assms(1) False by simp
  moreover define h where "h = (cap - 32) div 2"
  moreover have "length (last_chars h body) \<le> h" by (simp add: last_chars_def)
  moreover have "2 * h \<le> cap - 32" by (simp add: h_def)
  moreover have "length (truncate_tool_output cap body) \<le> h + 22 + length (show_nat (length body - cap)) + length (last_chars h body)"
    using False by (simp add: truncate_tool_output_def Let_def h_def)
  ultimately show ?thesis using assms(2) by linarith
qed (simp add: truncate_tool_output_def)

text \<open>A chip that is opened is closed, whatever the tool does: the first frame starts it and the last one reports its status.\<close>

lemma chip_always_closed:
  "\<exists>mid ok code. fst (execute_tracked_tool sandbox sid i name args sef reg) =
     ChipStart i name args sef # mid @ [ChipResult i ok code]"
  by (simp add: execute_tracked_tool_def Let_def)

lemma finish_spec_fields [simp]:
  "tc_name (finish_spec r s) = tc_name s" "tc_args (finish_spec r s) = tc_args s"
  "tc_side_effect_free (finish_spec r s) = tc_side_effect_free s" "tc_status (finish_spec r s) \<noteq> ChipPending"
  by (simp_all add: finish_spec_def split: tool_run.split)

text \<open>
  A retry runs the tool that was run, with its arguments, under an identifier of its own: the
  record of the first attempt stays as it was, and the replay is recorded so that it can be replayed.
\<close>

theorem retry_replays_exactly:
  assumes "fresh_id \<noteq> i" and "fst (retry_tool_call sandbox sid i fresh_id reg)"
  shows "case retry_tool_call sandbox sid i fresh_id reg of (_, frames, reg') \<Rightarrow>
     (case (dget reg (sid, i), dget reg' (sid, fresh_id)) of
        (Some spec, Some spec') \<Rightarrow>
          frames = fst (execute_tracked_tool sandbox sid fresh_id (tc_name spec) (tc_args spec) (tc_side_effect_free spec) reg)
          \<and> tc_name spec' = tc_name spec \<and> tc_args spec' = tc_args spec \<and> tc_side_effect_free spec' = tc_side_effect_free spec
          \<and> tc_status spec' \<noteq> ChipPending \<and> dget reg' (sid, i) = Some spec
      | _ \<Rightarrow> False)"
proof (cases "dget reg (sid, i)")
  case (Some spec)
  show ?thesis
    using Some assms(1) by (simp add: retry_tool_call_def execute_tracked_tool_def Let_def dget_dset)
qed (use assms in \<open>simp add: retry_tool_call_def\<close>)

lemma retry_replays_exactly_witness:
  "case retry_tool_call (\<lambda>a. Ran a [] 0) ''s'' ''t1'' ''t2'' (snd (execute_tracked_tool (\<lambda>a. Ran a [] 0) ''s'' ''t1'' ''sandbox_bash'' ''ls'' True [])) of
     (_, frames, reg') \<Rightarrow>
     (case (dget (snd (execute_tracked_tool (\<lambda>a. Ran a [] 0) ''s'' ''t1'' ''sandbox_bash'' ''ls'' True [])) (''s'', ''t1''),
            dget reg' (''s'', ''t2'')) of
        (Some spec, Some spec') \<Rightarrow>
          frames = fst (execute_tracked_tool (\<lambda>a. Ran a [] 0) ''s'' ''t2'' (tc_name spec) (tc_args spec) (tc_side_effect_free spec)
            (snd (execute_tracked_tool (\<lambda>a. Ran a [] 0) ''s'' ''t1'' ''sandbox_bash'' ''ls'' True [])))
          \<and> tc_name spec' = tc_name spec \<and> tc_args spec' = tc_args spec \<and> tc_side_effect_free spec' = tc_side_effect_free spec
          \<and> tc_status spec' \<noteq> ChipPending \<and> dget reg' (''s'', ''t1'') = Some spec
      | _ \<Rightarrow> False)"
  by (rule retry_replays_exactly)
     (simp_all add: retry_tool_call_def execute_tracked_tool_def Let_def split: prod.split)

text \<open>A retry by the identity of the connection does not find the call of its session.\<close>

lemma retry_by_connection_misses:
  "client_id \<noteq> sid \<Longrightarrow> \<not> fst (retry_tool_call sandbox client_id i fresh_id
      (snd (execute_tracked_tool sandbox sid i name args sef [])))"
  by (simp add: retry_tool_call_def execute_tracked_tool_def Let_def)

lemma cleanup_purges_session:
  "dget (snd (cleanup_session sid reg)) (s, i) = (if s = sid then None else dget reg (s, i))"
proof -
  have keys: "dget reg (sid, i) = None" if "(sid, i) \<notin> set (dkeys reg)"
    using that by (simp add: dget_None_iff)
  show ?thesis
    using keys by (auto simp: cleanup_session_def Let_def dget_fold_delete)
qed

subsection \<open>Hooks around a patch\<close>

record hook_row =
  hk_event :: string
  hk_enabled :: bool
  hk_command :: "string option"

text \<open>A hook's execution: its exit code with its output, or \<open>None\<close> when the adapter raised.\<close>

type_synonym hook_adapter = "string \<Rightarrow> (int \<times> string) option"

definition hook_commands :: "string \<Rightarrow> hook_row list \<Rightarrow> string list" where
  "hook_commands event rows =
     [str_or (hk_command row) []. row \<leftarrow> rows, hk_event row = event, hk_enabled row, strip (str_or (hk_command row) []) \<noteq> []]"

fun run_hook_commands :: "string \<Rightarrow> hook_adapter \<Rightarrow> string list \<Rightarrow> bool \<times> string list" where
  "run_hook_commands event adapter [] = (True, [])"
| "run_hook_commands event adapter (command # later) =
     (case run_hook_commands event adapter later of (ok, msgs) \<Rightarrow>
       (case adapter command of
          None \<Rightarrow> (False, (event @ '' hook errored: '' @ command) # msgs)
        | Some (code, out) \<Rightarrow>
            if code \<noteq> 0 then (False, (event @ '' hook failed (exit '' @ show_int code @ ''): '' @ command) # msgs) else (ok, msgs)))"

text \<open>\<open>run_patch_hooks\<close>; the rows are \<open>None\<close> when their lookup raises, the adapter when none is active.\<close>

definition run_patch_hooks :: "string \<Rightarrow> hook_row list option \<Rightarrow> hook_adapter option \<Rightarrow> bool \<times> string list" where
  "run_patch_hooks event rows adapter =
     (case rows of
        None \<Rightarrow> (True, [])
      | Some rows \<Rightarrow>
          (let commands = hook_commands event rows in
           if commands = [] then (True, [])
           else (case adapter of
               None \<Rightarrow> (event \<noteq> ''pre_patch'', [event @ '' hook(s) configured but no sandbox adapter is active''])
             | Some adapter \<Rightarrow> run_hook_commands event adapter commands)))"

lemma run_hook_commands_ok:
  "fst (run_hook_commands event adapter cs) \<longleftrightarrow> list_all (\<lambda>c. map_option fst (adapter c) = Some 0) cs"
  by (induction cs) (auto split: prod.split option.split)

lemma run_hook_commands_messages:
  "length (snd (run_hook_commands event adapter cs)) = length (filter (\<lambda>c. map_option fst (adapter c) \<noteq> Some 0) cs)"
  by (induction cs) (auto split: prod.split option.split)

text \<open>
  The hooks of an event let the patch pass exactly when every enabled one ran and succeeded; a gate
  before the patch that cannot run refuses it, one after it does not, and a table that cannot be read
  lets everything pass. Each failure is reported.
\<close>

lemma hook_verdict_exact:
  "fst (run_patch_hooks event rows adapter) \<longleftrightarrow>
     (case rows of None \<Rightarrow> True | Some rows \<Rightarrow>
       hook_commands event rows = []
       \<or> (case adapter of None \<Rightarrow> event \<noteq> ''pre_patch''
          | Some ad \<Rightarrow> list_all (\<lambda>c. map_option fst (ad c) = Some 0) (hook_commands event rows)))"
  by (auto simp: run_patch_hooks_def run_hook_commands_ok Let_def split: option.split)

subsection \<open>Inline edits\<close>

datatype inline_delta =
    InsertText string
  | DeleteAt nat nat
  | AbortEdit string

record inline_edit =
  ie_buffer :: string
  ie_cursor :: nat
  ie_success :: bool
  ie_error :: "string option"
  ie_sent :: "inline_delta list"

definition clamp_range :: "int \<Rightarrow> int \<Rightarrow> string \<Rightarrow> nat \<times> nat" where
  "clamp_range rs re content =
     (let n = int (length content); a = max 0 (min rs n) in (nat a, nat (max a (min re n))))"

text \<open>The loop of \<open>start_inline_edit\<close> over the deltas of the agent; an abort ends it.\<close>

fun apply_deltas :: "nat \<Rightarrow> inline_delta list \<Rightarrow> inline_edit \<Rightarrow> inline_edit" where
  "apply_deltas sel_start [] e = e"
| "apply_deltas sel_start (d # ds) e =
     (let e = e\<lparr>ie_sent := ie_sent e @ [d]\<rparr> in
      case d of
        InsertText said \<Rightarrow>
          apply_deltas sel_start ds
            (e\<lparr>ie_buffer := take (ie_cursor e) (ie_buffer e) @ said @ drop (ie_cursor e) (ie_buffer e), ie_cursor := ie_cursor e + length said\<rparr>)
      | DeleteAt offset n \<Rightarrow>
          apply_deltas sel_start ds
            (if offset = sel_start then e
             else e\<lparr>ie_buffer := take offset (ie_buffer e) @ drop (min (offset + n) (length (ie_buffer e))) (ie_buffer e)\<rparr>)
      | AbortEdit reason \<Rightarrow> e\<lparr>ie_success := False, ie_error := Some (if reason = [] then ''aborted'' else reason)\<rparr>)"

definition start_inline_edit :: "string \<Rightarrow> int \<Rightarrow> int \<Rightarrow> inline_delta list \<Rightarrow> inline_edit" where
  "start_inline_edit content rs re deltas =
     (case clamp_range rs re content of (a, b) \<Rightarrow>
        apply_deltas a deltas
          \<lparr>ie_buffer = take a content @ drop b content, ie_cursor = a, ie_success = True, ie_error = None, ie_sent = []\<rparr>)"

text \<open>What \<open>server_inline_edit_end\<close> carries.\<close>

definition inline_end :: "inline_edit \<Rightarrow> bool \<times> string \<times> string option" where
  "inline_end e = (ie_success e, if ie_success e then ie_buffer e else [], ie_error e)"

text \<open>
  The deltas \<open>stream_inline_edit\<close> yields for the batches of the model's text: the deletion of the
  selection, then an insertion per batch, until the partial result is refused. The syntax check of
  the speculative buffer is a parameter.
\<close>

fun insert_stream :: "(string list \<Rightarrow> bool) \<Rightarrow> string list \<Rightarrow> string list \<Rightarrow> inline_delta list" where
  "insert_stream valid so_far [] = []"
| "insert_stream valid so_far (chunk # later) =
     (if chunk = [] then insert_stream valid so_far later
      else if \<not> valid (so_far @ [chunk]) then [AbortEdit ''syntax_break'']
      else InsertText chunk # insert_stream valid (so_far @ [chunk]) later)"

definition stream_inline_edit :: "(string list \<Rightarrow> bool) \<Rightarrow> string \<Rightarrow> nat \<times> nat \<Rightarrow> string list \<Rightarrow> inline_delta list" where
  "stream_inline_edit valid content sel chunks =
     (case sel of (a, b) \<Rightarrow> DeleteAt a (min (max a b) (length content) - a) # insert_stream valid [] chunks)"

text \<open>What the editor shows: each delta applied to its own buffer at the offset it carries.\<close>

lemma apply_inserts:
  assumes "ie_buffer e = pre @ post" and "ie_cursor e = length pre" and "ie_success e" and "ie_error e = None"
  shows "case apply_deltas a (insert_stream valid so_far chunks) e of e' \<Rightarrow>
     (if ie_success e' then ie_buffer e' = pre @ concat chunks @ post \<and> ie_error e' = None else ie_error e' = Some ''syntax_break'')"
  using assms
proof (induction chunks arbitrary: e pre so_far)
  case Nil
  then show ?case by simp
next
  case (Cons chunk later)
  show ?case
  proof (cases "chunk = [] \<or> \<not> valid (so_far @ [chunk])")
    case True
    then show ?thesis using Cons.IH [of e pre so_far] Cons.prems by (auto simp: Let_def)
  next
    case False
    let ?e = "e\<lparr>ie_sent := ie_sent e @ [InsertText chunk], ie_buffer := pre @ chunk @ post, ie_cursor := length pre + length chunk\<rparr>"
    have step: "apply_deltas a (insert_stream valid so_far (chunk # later)) e = apply_deltas a (insert_stream valid (so_far @ [chunk]) later) ?e"
      using False Cons.prems by (simp add: Let_def)
    show ?thesis unfolding step using Cons.IH [of ?e "pre @ chunk" "so_far @ [chunk]"] Cons.prems by (simp split: if_split_asm if_split)
  qed
qed

text \<open>
  An inline edit ends in one of two ways: the end event carries the file with exactly the selected
  range replaced by the text of the model, in order, or it reports the refusal and carries no content.
\<close>

theorem inline_edit_replaces_selection:
  "case clamp_range rs re content of (a, b) \<Rightarrow>
     (case inline_end (start_inline_edit content rs re (stream_inline_edit valid content (a, b) chunks)) of
        (True, final, err) \<Rightarrow> final = take a content @ concat chunks @ drop b content \<and> err = None
      | (False, final, err) \<Rightarrow> final = [] \<and> err = Some ''syntax_break'')"
proof -
  obtain a b where r: "clamp_range rs re content = (a, b)" by fastforce
  have a: "a \<le> length content" using r by (auto simp: clamp_range_def Let_def nat_le_iff)
  let ?e = "\<lparr>ie_buffer = take a content @ drop b content, ie_cursor = a, ie_success = True, ie_error = None,
    ie_sent = [DeleteAt a (min (max a b) (length content) - a)]\<rparr>"
  have "start_inline_edit content rs re (stream_inline_edit valid content (a, b) chunks) = apply_deltas a (insert_stream valid [] chunks) ?e"
    using r by (simp add: start_inline_edit_def stream_inline_edit_def Let_def)
  then show ?thesis
    using apply_inserts [where e = ?e and pre = "take a content" and post = "drop b content" and valid = valid
        and so_far = "[]" and chunks = chunks and a = a] r a
    by (auto simp: inline_end_def split: if_splits)
qed

subsection \<open>Coalesced reasoning\<close>

text \<open>\<open>_ThinkingStreamer\<close>: the buffered deltas, the count of characters and the start of the window, in milliseconds.\<close>

record thinking_streamer =
  th_buf :: "string list"
  th_total :: nat
  th_started :: bool
  th_window :: real

datatype thinking_frame = SpanStart | ThinkingChunk string nat

definition fresh_streamer :: "real \<Rightarrow> thinking_streamer" where
  "fresh_streamer now = \<lparr>th_buf = [], th_total = 0, th_started = False, th_window = now\<rparr>"

definition thinking_flush :: "thinking_streamer \<Rightarrow> thinking_frame list \<times> thinking_streamer" where
  "thinking_flush t =
     (if th_buf t = [] then ([], t)
      else ((if th_started t then [] else [SpanStart]) @ [ThinkingChunk (concat (th_buf t)) (max 1 (th_total t div 4))],
            t\<lparr>th_buf := [], th_started := True\<rparr>))"

definition thinking_feed :: "real \<Rightarrow> string \<Rightarrow> thinking_streamer \<Rightarrow> thinking_frame list \<times> thinking_streamer" where
  "thinking_feed now said t =
     (if said = [] then ([], t)
      else (let t = t\<lparr>th_buf := th_buf t @ [said], th_total := th_total t + length said\<rparr> in
        if 60 \<le> now - th_window t \<or> 4096 \<le> length (concat (th_buf t))
        then (case thinking_flush t of (fs, t) \<Rightarrow> (fs, t\<lparr>th_window := now\<rparr>)) else ([], t)))"

fun thinking_run :: "(real \<times> string) list \<Rightarrow> thinking_streamer \<Rightarrow> thinking_frame list" where
  "thinking_run [] t = fst (thinking_flush t)"
| "thinking_run ((now, said) # later) t =
     (case thinking_feed now said t of (fs, t) \<Rightarrow> fs @ thinking_run later t)"

definition chunk_texts :: "thinking_frame list \<Rightarrow> string list" where
  "chunk_texts fs = concat (map (\<lambda>f. case f of ThinkingChunk c _ \<Rightarrow> [c] | SpanStart \<Rightarrow> []) fs)"

lemma chunk_texts_simps [simp]:
  "chunk_texts [] = []" "chunk_texts (fs @ gs) = chunk_texts fs @ chunk_texts gs"
  "chunk_texts [ThinkingChunk c n] = [c]" "chunk_texts (SpanStart # fs) = chunk_texts fs" "chunk_texts (ThinkingChunk c n # fs) = c # chunk_texts fs"
  by (simp_all add: chunk_texts_def)

lemma thinking_flush_text: "concat (chunk_texts (fst (thinking_flush t))) = concat (th_buf t)"
  by (simp add: thinking_flush_def)

text \<open>
  The frames of a turn carry all the reasoning that was fed, in order, and the span is opened once,
  before the first of them; none is opened for a turn without reasoning.
\<close>

lemma reasoning_lossless: "concat (chunk_texts (thinking_run feeds t)) = concat (th_buf t) @ concat (map snd feeds)"
proof (induction feeds arbitrary: t)
  case (Cons f later)
  obtain now said where f: "f = (now, said)" by (cases f) auto
  show ?case
    using Cons.IH by (simp add: f thinking_feed_def thinking_flush_def Let_def)
qed (simp add: thinking_flush_text)

lemma span_opened_once:
  "filter (\<lambda>f. f = SpanStart) (thinking_run feeds t) =
     (if th_started t \<or> (th_buf t = [] \<and> list_all (\<lambda>f. snd f = []) feeds) then [] else [SpanStart])"
proof (induction feeds arbitrary: t)
  case (Cons f later)
  obtain now said where f: "f = (now, said)" by (cases f) auto
  show ?case
    using Cons.IH by (simp add: f thinking_feed_def thinking_flush_def Let_def)
qed (simp add: thinking_flush_def)

subsection \<open>The summary of a turn\<close>

fun dedupe_loop :: "string list \<Rightarrow> string list \<Rightarrow> string list" where
  "dedupe_loop seen [] = []"
| "dedupe_loop seen (e # es) = (if e \<in> set seen then dedupe_loop seen es else e # dedupe_loop (e # seen) es)"

definition dedupe_errors :: "string list \<Rightarrow> string list" where
  "dedupe_errors es = dedupe_loop [] es"

definition format_notes :: "string list \<Rightarrow> string" where
  "format_notes es =
     (let notes = filter (\<lambda>e. \<not> starts_with e ''self-heal could not correct'') (dedupe_errors es) in
      if notes = [] then [] else [CHR 0x0A, CHR 0x0A] @ ''_Notes:_ '' @ join ''; '' (take 5 notes))"

text \<open>An entry of the ledger of applied steps, and the status of a check.\<close>

record applied_entry =
  ae_status :: string
  ae_file :: "string option"
  ae_command :: "string option"

definition plural :: "nat \<Rightarrow> string \<Rightarrow> string" where
  "plural n word = show_nat n @ '' '' @ word @ (if n = 1 then [] else ''s'')"

definition count_status :: "string \<Rightarrow> applied_entry list \<Rightarrow> nat" where
  "count_status st entries = length (filter (\<lambda>e. ae_status e = st) entries)"

definition summary_headline :: "nat \<Rightarrow> bool \<Rightarrow> string" where
  "summary_headline steps plan_only =
     (if steps = 0 then ''The planner returned a plan with no steps, so there was nothing to execute.''
      else if plan_only then
        ''Plan ready - '' @ plural steps ''step'' @ ''. Plan mode is read-only; accept under Ask or Auto to apply it.''
      else ''Drafted a '' @ show_nat steps @ ''-step plan but produced no concrete edits for this request. See the Plan panel.'')"

definition summary_parts :: "applied_entry list \<Rightarrow> string list" where
  "summary_parts entries =
     (let files = length (filter (\<lambda>e. ae_status e = ''completed'' \<and> str_or (ae_file e) [] \<noteq> []) entries);
          cmds = length (filter (\<lambda>e. ae_status e = ''completed'' \<and> str_or (ae_command e) [] \<noteq> []) entries);
          part = \<lambda>n said. if n = 0 then [] else [said]
      in part files (''Applied '' @ plural files ''file change'' @ '' to disk'')
         @ part cmds (''ran '' @ plural cmds ''command'' @ '' successfully'')
         @ part (count_status ''rejected'' entries) (show_nat (count_status ''rejected'' entries) @ '' declined'')
         @ part (count_status ''failed'' entries) (show_nat (count_status ''failed'' entries) @ '' not applied'')
         @ part (count_status ''revision_requested'' entries) (show_nat (count_status ''revision_requested'' entries) @ '' still under revision''))"

text \<open>\<open>_format_coding_summary\<close>; the checks are their statuses. The dashes of the source are written in ASCII.\<close>

definition format_coding_summary :: "nat \<Rightarrow> applied_entry list \<Rightarrow> string list \<Rightarrow> string list \<Rightarrow> bool \<Rightarrow> string" where
  "format_coding_summary steps entries es checks plan_only =
     (if entries = [] then summary_headline steps plan_only @ format_notes es
      else (let passed = length (filter (\<lambda>c. c = ''passed'') checks);
                bad = length (filter (\<lambda>c. c = ''failed'') checks);
                unverified = length (filter (\<lambda>c. c = ''unverified'') checks);
                parts = summary_parts entries;
                body = (if parts = [] then ''No changes were applied'' else join '', '' parts) @ ''.'';
                checked = (if 0 < bad then
                    plural bad ''acceptance check'' @ '' FAILED - the work above is NOT verified complete. '' @ body
                  else if 0 < passed \<or> 0 < unverified then
                    body @ '' '' @ join '', ''
                      ((if 0 < passed then [plural passed ''acceptance check'' @ '' passed''] else [])
                       @ (if 0 < unverified then [show_nat unverified @ '' could not be automatically verified''] else [])) @ ''.''
                  else body);
                files = filter (\<lambda>e. ae_status e = ''completed'' \<and> str_or (ae_file e) [] \<noteq> []) entries
            in checked
               @ (if files = [] then [] else '' Previous versions are recoverable via VS Code'' @ [CHR 0x27] @ ''s Local History (Timeline view).'')
               @ format_notes es))"

lemma dedupe_loop_set: "set (dedupe_loop seen es) = set es - set seen"
  by (induction es arbitrary: seen) auto

lemma dedupe_loop_distinct: "distinct (dedupe_loop seen es)"
  by (induction es arbitrary: seen) (auto simp: dedupe_loop_set)

lemma dedupe_loop_subseq: "subseq (dedupe_loop seen es) es"
  by (induction es arbitrary: seen) auto

lemma dedupe_keeps_first: "set (dedupe_errors es) = set es" "distinct (dedupe_errors es)" "subseq (dedupe_errors es) es"
  by (simp_all add: dedupe_errors_def dedupe_loop_set dedupe_loop_distinct dedupe_loop_subseq)

text \<open>A failed check is the first thing the summary of a turn says, when a step left any trace in the ledger ...\<close>

lemma failed_check_leads:
  assumes "entries \<noteq> []" and "''failed'' \<in> set checks"
  shows "\<exists>rest. format_coding_summary steps entries es checks plan_only =
     plural (length (filter (\<lambda>c. c = ''failed'') checks)) ''acceptance check'' @ '' FAILED'' @ rest"
proof -
  have "0 < length (filter (\<lambda>c. c = ''failed'') checks)" using assms(2) by (auto simp: length_greater_0_conv filter_empty_conv)
  then show ?thesis using assms(1) by (simp add: format_coding_summary_def Let_def)
qed

text \<open>... and an empty ledger mentions no check; the checks of a plan run only after its steps were applied.\<close>

lemma failed_check_unreported:
  "format_coding_summary steps [] es checks plan_only = format_coding_summary steps [] es [] plan_only"
  by (simp add: format_coding_summary_def)

end
