(* ===== verification/Sandbox.thy ===== *)
theory Sandbox
  imports Commands PyPath "HOL-Library.Multiset"
begin

text \<open>
  The sandbox tiers (\<open>core/sandbox.py\<close>): the breaker in front of the Docker daemon, the pool of
  container leases with its admission queue, one-shot execution and interactive sessions in a
  leased container, the host fallback behind an approval, the devcontainer tier with its
  fallback, the WebAssembly tier and the choice among them.

  The daemon is a parameter: \<open>daemon op n\<close> answers the \<open>n\<close>th call that is handed to the worker
  pool, with what it returns, the exception it raises and the milliseconds it takes. A lease is an
  object with an identity, an index into \<open>objs\<close>: a coroutine keeps its lease when the pool has
  forgotten it. Output is held decoded.
\<close>

declare map_of_eq_Some_iff [simp del] Some_eq_map_of_iff [simp del]

subsection \<open>The daemon and its breaker\<close>

datatype docker_op =
    From_env
  | From_env_build
  | From_env_exec nat
  | From_env_probe
  | Images_get
  | Images_build
  | Containers_get string
  | Remove_stale nat
  | Containers_run string string string
  | Reload nat
  | Stop nat
  | Remove nat
  | Exec_run nat string string "(string, string) dict"
  | Exec_pty nat string "(string, string) dict"
  | Close_client
  | List_labeled
  | Sweep_remove nat

datatype docker_verdict = Returned | Timed_out | Transport_fault | Bare_docker_error | Missing | Api_refused | Other_raised

datatype exec_output = No_output | Demuxed "string option" "string option" | Raw_output string | Other_output

record answer =
  verdict :: docker_verdict
  took :: nat
  found :: "nat option"
  container_status :: string
  xcode :: "int option"
  xoutput :: exec_output

datatype sandbox_error = Daemon_timeout | Pool_exhausted | Not_found | Api_error | Other_error

record lease =
  container :: nat
  mount_root :: string
  refcount :: nat
  last_used :: nat

type_synonym lease_key = "string \<times> string"

record cage =
  daemon :: "docker_op \<Rightarrow> nat \<Rightarrow> answer"
  now :: nat
  failures :: nat
  opened_at :: "nat option"
  dispatched :: "docker_op list"
  client :: bool
  build_client :: bool
  image_ready :: bool
  exec_clients :: "nat list"
  lifecycle :: "(string \<times> nat) list"
  leases :: "(lease_key, nat) dict"
  objs :: "lease list"
  queue :: "nat list"
  next_ticket :: nat
  releases_due :: "nat list"

type_synonym 'a step = "cage \<Rightarrow> (sandbox_error + 'a) \<times> cage"

text \<open>Sequencing: a raise ends the step.\<close>

definition andthen :: "'a step \<Rightarrow> ('a \<Rightarrow> 'b step) \<Rightarrow> 'b step" where
  "andthen m f = (\<lambda>w. case m w of (Inl e, w') \<Rightarrow> (Inl e, w') | (Inr x, w') \<Rightarrow> f x w')"

definition give :: "'a \<Rightarrow> 'a step" where "give x = (\<lambda>w. (Inr x, w))"

definition FAIL_THRESHOLD :: nat where "FAIL_THRESHOLD = 2"
definition BREAKER_COOLDOWN :: nat where "BREAKER_COOLDOWN = 60000"

definition is_open :: "cage \<Rightarrow> bool" where
  "is_open w = (case opened_at w of None \<Rightarrow> False | Some t \<Rightarrow> now w - t < BREAKER_COOLDOWN)"

definition breaker_success :: "cage \<Rightarrow> cage" where
  "breaker_success w = w\<lparr>failures := 0, opened_at := None\<rparr>"

definition breaker_failure :: "cage \<Rightarrow> cage" where
  "breaker_failure w =
     (let n = failures w + 1
      in w\<lparr>failures := n, opened_at := if FAIL_THRESHOLD \<le> n then Some (now w) else opened_at w\<rparr>)"

text \<open>A transport fault trips the breaker; an answer of a live daemon, even an error, does not.\<close>

definition docker_call :: "docker_op \<Rightarrow> answer step" where
  "docker_call operation w =
     (if is_open w then (Inl Daemon_timeout, w)
      else
        (let a = daemon w operation (length (dispatched w));
             w1 = w\<lparr>dispatched := dispatched w @ [operation], now := now w + took a\<rparr>
         in case verdict a of
              Returned \<Rightarrow> (Inr a, breaker_success w1)
            | Timed_out \<Rightarrow> (Inl Daemon_timeout, breaker_failure w1)
            | Transport_fault \<Rightarrow> (Inl Daemon_timeout, breaker_failure w1)
            | Bare_docker_error \<Rightarrow> (Inl Daemon_timeout, breaker_failure w1)
            | Missing \<Rightarrow> (Inl Not_found, w1)
            | Api_refused \<Rightarrow> (Inl Api_error, w1)
            | Other_raised \<Rightarrow> (Inl Other_error, w1)))"

definition reset_daemon_breaker :: "cage \<Rightarrow> cage" where
  "reset_daemon_breaker w = w\<lparr>failures := 0, opened_at := None\<rparr>"

subsection \<open>Clients\<close>

definition EXEC_CLIENT_BUCKET :: nat where "EXEC_CLIENT_BUCKET = 30000"
definition EXEC_CLIENT_CACHE_CAP :: nat where "EXEC_CLIENT_CACHE_CAP = 8"
definition EXEC_OUTER_GRACE :: nat where "EXEC_OUTER_GRACE = 5000"

definition exec_timeout_bucket :: "nat \<Rightarrow> nat" where
  "exec_timeout_bucket ms = EXEC_CLIENT_BUCKET * ((max ms 1000 + (EXEC_CLIENT_BUCKET - 1)) div EXEC_CLIENT_BUCKET)"

text \<open>The cached clients by their time limits, the least recently used first.\<close>

definition get_exec_client :: "nat \<Rightarrow> nat step" where
  "get_exec_client ms w =
     (let bucket = exec_timeout_bucket ms
      in if bucket \<in> set (exec_clients w)
         then (Inr bucket, w\<lparr>exec_clients := remove1 bucket (exec_clients w) @ [bucket]\<rparr>)
         else andthen (docker_call (From_env_exec bucket))
                (\<lambda>_ w'. (let cs = remove1 bucket (exec_clients w') @ [bucket]
                         in (Inr bucket, w'\<lparr>exec_clients := drop (length cs - EXEC_CLIENT_CACHE_CAP) cs\<rparr>))) w)"

definition get_client :: "unit step" where
  "get_client w =
     (if client w then (Inr (), w)
      else andthen (docker_call From_env) (\<lambda>_ w'. (Inr (), w'\<lparr>client := True\<rparr>)) w)"

definition get_build_client :: "unit step" where
  "get_build_client w =
     (if build_client w then (Inr (), w)
      else andthen (docker_call From_env_build) (\<lambda>_ w'. (Inr (), w'\<lparr>build_client := True\<rparr>)) w)"

definition mark_image_ready :: "unit step" where
  "mark_image_ready w = (Inr (), w\<lparr>image_ready := True\<rparr>)"

definition ensure_image :: "unit step" where
  "ensure_image w =
     (if image_ready w then (Inr (), w)
      else andthen get_client (\<lambda>_.
             andthen (docker_call Images_get) (\<lambda>a.
             if found a = None
             then andthen get_build_client (\<lambda>_. andthen (docker_call Images_build) (\<lambda>_. mark_image_ready))
             else mark_image_ready)) w)"

subsection \<open>Containers\<close>

record cage_config =
  max_containers :: nat
  max_queued :: nat
  idle_ttl :: nat
  host_workspace :: string
  resolver :: "(string \<Rightarrow> string option) option"
  sha1_hex :: "string \<Rightarrow> string"
  owner_port :: string
  mem_limit :: string
  process_cwd :: string

definition abspath :: "cage_config \<Rightarrow> string \<Rightarrow> string" where
  "abspath c p = normpath (posix_join (process_cwd c) p)"

definition lease_key_of :: "cage_config \<Rightarrow> string \<Rightarrow> string option \<Rightarrow> lease_key" where
  "lease_key_of c mroot sid = (abspath c mroot, str_or sid ''__shared__'')"

definition lease_container_name :: "cage_config \<Rightarrow> lease_key \<Rightarrow> string" where
  "lease_container_name c key = ''ailienant-sandbox-'' @ take 12 (sha1_hex c (fst key @ ''::'' @ snd key))"

definition emit_lifecycle :: "string \<Rightarrow> nat \<Rightarrow> cage \<Rightarrow> cage" where
  "emit_lifecycle event cid w = w\<lparr>lifecycle := lifecycle w @ [(event, cid)]\<rparr>"

text \<open>A container of the same name that survives is removed first; that it is gone already is fine.\<close>

definition remove_stale :: "nat option \<Rightarrow> unit step" where
  "remove_stale existing w =
     (case existing of
        None \<Rightarrow> (Inr (), w)
      | Some old \<Rightarrow>
          (case docker_call (Remove_stale old) w of
             (Inl Not_found, w') \<Rightarrow> (Inr (), w')
           | (Inl e, w') \<Rightarrow> (Inl e, w')
           | (Inr a, w') \<Rightarrow> (Inr (), w')))"

definition create_lease_container :: "cage_config \<Rightarrow> lease_key \<Rightarrow> string \<Rightarrow> nat step" where
  "create_lease_container c key mroot =
     andthen ensure_image (\<lambda>_.
     andthen get_client (\<lambda>_.
     andthen (docker_call (Containers_get (lease_container_name c key))) (\<lambda>existing.
     andthen (remove_stale (found existing)) (\<lambda>_.
     andthen (docker_call (Containers_run (lease_container_name c key) mroot (owner_port c))) (\<lambda>started w.
       (let cid = or_else (found started) 0 in (Inr cid, emit_lifecycle ''started'' cid w)))))))"

definition revalidate :: "nat \<Rightarrow> bool step" where
  "revalidate cid w =
     (case docker_call (Reload cid) w of
        (Inl Not_found, w') \<Rightarrow> (Inr False, w')
      | (Inl e, w') \<Rightarrow> (Inl e, w')
      | (Inr a, w') \<Rightarrow> (Inr (container_status a = ''running''), w'))"

text \<open>Stop and remove, whatever the daemon says.\<close>

definition teardown_container :: "string \<Rightarrow> nat \<Rightarrow> cage \<Rightarrow> cage" where
  "teardown_container reason cid w =
     emit_lifecycle reason cid (snd (docker_call (Remove cid) (snd (docker_call (Stop cid) w))))"

subsection \<open>The pool\<close>

definition obj :: "cage \<Rightarrow> nat \<Rightarrow> lease" where "obj w i = objs w ! i"

definition idle_lease :: "cage \<Rightarrow> lease_key \<times> nat \<Rightarrow> bool" where
  "idle_lease w kv \<longleftrightarrow> refcount (obj w (snd kv)) = 0"

definition peek :: "cage_config \<Rightarrow> string \<Rightarrow> string option \<Rightarrow> cage \<Rightarrow> nat option" where
  "peek c mroot sid w = dget (leases w) (lease_key_of c mroot sid)"

text \<open>One more borrower.\<close>

definition borrow :: "nat \<Rightarrow> cage \<Rightarrow> cage" where
  "borrow i w = w\<lparr>objs := (objs w)[i := (obj w i)\<lparr>refcount := refcount (obj w i) + 1, last_used := now w\<rparr>]\<rparr>"

definition oldest :: "cage \<Rightarrow> (lease_key \<times> nat) list \<Rightarrow> lease_key \<times> nat" where
  "oldest w kvs = hd (sort_key (\<lambda>kv. last_used (obj w (snd kv))) kvs)"

definition has_capacity_or_idle :: "cage_config \<Rightarrow> cage \<Rightarrow> bool" where
  "has_capacity_or_idle c w \<longleftrightarrow> length (leases w) < max_containers c \<or> list_ex (idle_lease w) (leases w)"

definition forget :: "lease_key \<Rightarrow> cage \<Rightarrow> cage" where
  "forget key w = w\<lparr>leases := AList.delete key (leases w)\<rparr>"

definition store_lease :: "lease_key \<Rightarrow> string \<Rightarrow> nat \<Rightarrow> nat step" where
  "store_lease key mroot cid w =
     (let i = length (objs w)
      in (Inr i, w\<lparr>objs := objs w @ [\<lparr>container = cid, mount_root = mroot, refcount = 1, last_used = now w\<rparr>],
                   leases := dset key i (leases w)\<rparr>))"

definition create_locked :: "cage_config \<Rightarrow> lease_key \<Rightarrow> string \<Rightarrow> nat step" where
  "create_locked c key mroot = andthen (create_lease_container c key mroot) (store_lease key mroot)"

definition drop_lease :: "string \<Rightarrow> lease_key \<times> nat \<Rightarrow> cage \<Rightarrow> cage" where
  "drop_lease reason kv w = teardown_container reason (container (obj w (snd kv))) (forget (fst kv) w)"

definition evict_one_idle :: "cage \<Rightarrow> bool \<times> cage" where
  "evict_one_idle w =
     (let idle = filter (idle_lease w) (leases w)
      in if idle = [] then (False, w) else (True, drop_lease ''evicted'' (oldest w idle) w))"

definition expired_lease :: "cage_config \<Rightarrow> cage \<Rightarrow> lease_key \<times> nat \<Rightarrow> bool" where
  "expired_lease c w kv \<longleftrightarrow> idle_lease w kv \<and> idle_ttl c \<le> now w - last_used (obj w (snd kv))"

definition reap_expired_idle :: "cage_config \<Rightarrow> cage \<Rightarrow> cage" where
  "reap_expired_idle c w = fold (drop_lease ''idle_ttl_reaped'') (filter (expired_lease c w) (leases w)) w"

definition share_or_raise :: "string \<Rightarrow> nat step" where
  "share_or_raise mroot w =
     (let candidates = filter (\<lambda>kv. mount_root (obj w (snd kv)) = mroot) (leases w)
      in if candidates = [] then (Inl Pool_exhausted, w)
         else (let i = snd (oldest w candidates); w' = borrow i w
               in (Inr i, emit_lifecycle ''shared_degraded'' (container (obj w' i)) w')))"

datatype pool_admission = Leased nat | Queued nat

definition leased :: "nat step \<Rightarrow> pool_admission step" where
  "leased m = andthen m (\<lambda>i. give (Leased i))"

definition enqueue :: "cage_config \<Rightarrow> pool_admission step" where
  "enqueue c w =
     (if max_queued c \<le> length (queue w) then (Inl Pool_exhausted, w)
      else (Inr (Queued (next_ticket w)), w\<lparr>queue := queue w @ [next_ticket w], next_ticket := next_ticket w + 1\<rparr>))"

text \<open>\<open>acquire\<close> from the point where no lease is held under the key.\<close>

definition admit :: "cage_config \<Rightarrow> lease_key \<Rightarrow> pool_admission step" where
  "admit c key w0 =
     (let w = reap_expired_idle c w0
      in if length (leases w) < max_containers c then leased (create_locked c key (fst key)) w
         else (case evict_one_idle w of
                 (True, w') \<Rightarrow> leased (create_locked c key (fst key)) w'
               | (False, w') \<Rightarrow> enqueue c w'))"

definition acquire :: "cage_config \<Rightarrow> string \<Rightarrow> string option \<Rightarrow> pool_admission step" where
  "acquire c mroot sid w =
     (let key = lease_key_of c mroot sid
      in case dget (leases w) key of
           None \<Rightarrow> admit c key w
         | Some i \<Rightarrow>
             (case revalidate (container (obj w i)) w of
                (Inl e, w') \<Rightarrow> (Inl e, w')
              | (Inr True, w') \<Rightarrow>
                  (let w'' = borrow i w' in (Inr (Leased i), w''\<lparr>leases := move_to_end key (leases w'')\<rparr>))
              | (Inr False, w') \<Rightarrow> admit c key (forget key w')))"

text \<open>A waiter that is at the head of the queue, with room; its ticket leaves the queue first.\<close>

definition may_wake :: "cage_config \<Rightarrow> nat \<Rightarrow> cage \<Rightarrow> bool" where
  "may_wake c ticket w \<longleftrightarrow> (case queue w of [] \<Rightarrow> False | t # _ \<Rightarrow> t = ticket) \<and> has_capacity_or_idle c w"

definition leave_queue :: "nat \<Rightarrow> cage \<Rightarrow> cage" where
  "leave_queue ticket w = w\<lparr>queue := remove1 ticket (queue w)\<rparr>"

definition serve_waiter :: "cage_config \<Rightarrow> nat \<Rightarrow> lease_key \<Rightarrow> nat step" where
  "serve_waiter c ticket key w0 =
     (let w = leave_queue ticket w0
      in if length (leases w) < max_containers c then create_locked c key (fst key) w
         else (case evict_one_idle w of
                 (True, w') \<Rightarrow> create_locked c key (fst key) w'
               | (False, w') \<Rightarrow> share_or_raise (fst key) w'))"

definition wait_over :: "nat \<Rightarrow> lease_key \<Rightarrow> nat step" where
  "wait_over ticket key w = (case share_or_raise (fst key) w of (r, w') \<Rightarrow> (r, leave_queue ticket w'))"

definition release :: "nat \<Rightarrow> cage \<Rightarrow> cage" where
  "release i w = w\<lparr>objs := (objs w)[i := (obj w i)\<lparr>refcount := refcount (obj w i) - 1, last_used := now w\<rparr>]\<rparr>"

text \<open>The leases are forgotten under the lock; their containers are torn down after it.\<close>

definition drain_leases :: "cage \<Rightarrow> nat list \<times> cage" where
  "drain_leases w = (map (\<lambda>kv. container (obj w (snd kv))) (leases w), w\<lparr>leases := []\<rparr>)"

definition drain :: "cage \<Rightarrow> cage" where
  "drain w = (case drain_leases w of (cs, w') \<Rightarrow> fold (teardown_container ''drained'') cs w')"

definition close_client :: "cage \<Rightarrow> cage" where
  "close_client w = snd (docker_call Close_client w)"

definition shutdown :: "cage \<Rightarrow> cage" where
  "shutdown w0 =
     (let w = drain w0;
          w1 = if client w then (close_client w)\<lparr>client := False\<rparr> else w
      in if build_client w1 then (close_client w1)\<lparr>build_client := False\<rparr> else w1)"

definition pooled_container_count :: "cage \<Rightarrow> nat" where
  "pooled_container_count w = length (leases w)"

subsection \<open>One-shot execution in a lease\<close>

definition CONTAINER_WORKDIR :: string where "CONTAINER_WORKDIR = ''/workspace''"

text \<open>The resolver of the composition root, if one is injected; \<open>None\<close> is its raise.\<close>

definition resolve_mount_root :: "cage_config \<Rightarrow> string option \<Rightarrow> string" where
  "resolve_mount_root c sid =
     (case (sid, resolver c) of
        (Some s, Some f) \<Rightarrow> if s = [] then host_workspace c else
           (case f s of None \<Rightarrow> host_workspace c | Some r \<Rightarrow> if r = [] then host_workspace c else r)
      | _ \<Rightarrow> host_workspace c)"

definition translate_cwd :: "cage_config \<Rightarrow> string \<Rightarrow> string \<Rightarrow> string" where
  "translate_cwd c host_cwd mount =
     (let host_abs = abspath c host_cwd; root_abs = abspath c mount
      in if host_cwd = [] then CONTAINER_WORKDIR
         else if host_abs = root_abs then CONTAINER_WORKDIR
         else if starts_with host_abs (root_abs @ ''/'')
           then CONTAINER_WORKDIR @ drop (length root_abs) host_abs
         else CONTAINER_WORKDIR)"

definition shell_safe :: "char \<Rightarrow> bool" where
  "shell_safe ch \<longleftrightarrow> is_upper ch \<or> is_lower ch \<or> is_digit ch \<or> ch \<in> set ''_@%+=:,./-''"

text \<open>\<open>shlex.quote\<close>.\<close>

definition shell_quote :: "string \<Rightarrow> string" where
  "shell_quote s =
     (if s = [] then [CHR 0x27, CHR 0x27]
      else if list_all shell_safe s then s
      else [CHR 0x27] @ concat (map (\<lambda>ch. if ch = CHR 0x27 then [CHR 0x27, CHR 0x22, CHR 0x27, CHR 0x22, CHR 0x27] else [ch]) s) @ [CHR 0x27])"

definition wrapped_command :: "nat \<Rightarrow> string \<Rightarrow> string" where
  "wrapped_command ms command =
     ''timeout --foreground -k 1 '' @ show_nat (ms div 1000) @ ''s sh -c '' @ shell_quote command"

definition split_output :: "exec_output \<Rightarrow> string \<times> string" where
  "split_output out =
     (case out of
        No_output \<Rightarrow> ([], [])
      | Demuxed a b \<Rightarrow> (or_else a [], or_else b [])
      | Raw_output b \<Rightarrow> (b, [])
      | Other_output \<Rightarrow> ([], []))"

definition failed_result :: "string \<Rightarrow> shell_result" where
  "failed_result note = \<lparr>sh_exit_code = -1, sh_stdout = [], sh_stderr = note\<rparr>"

definition prefix_note :: "string \<Rightarrow> string \<Rightarrow> string" where
  "prefix_note note err = (if err = [] then note else note @ [CHR 0x0A] @ err)"

definition timeout_note :: "nat \<Rightarrow> string" where
  "timeout_note ms = ''[sandbox_timeout] command exceeded '' @ show_nat (ms div 1000) @ ''s wall clock''"

definition oom_note :: "cage_config \<Rightarrow> string" where
  "oom_note c = ''[sandbox_oom] process was killed (exit 137) '' @ [CHR 0x97] @ '' likely exceeded the ''
     @ mem_limit c @ '' memory ceiling (AILIENANT_SANDBOX_MEM_LIMIT)''"

definition exec_result :: "cage_config \<Rightarrow> nat \<Rightarrow> answer \<Rightarrow> shell_result" where
  "exec_result c ms a =
     (let code = or_else (xcode a) 0; (out, err) = split_output (xoutput a)
      in \<lparr>sh_exit_code = code, sh_stdout = out,
          sh_stderr = if code = 124 then prefix_note (timeout_note ms) err
                      else if code = 137 then prefix_note (oom_note c) err else err\<rparr>)"

record exec_request =
  rq_command :: string
  rq_timeout :: nat
  rq_cwd :: string
  rq_env :: "(string, string) dict"
  rq_session :: "string option"

definition run_in_lease :: "cage_config \<Rightarrow> exec_request \<Rightarrow> nat \<Rightarrow> shell_result step" where
  "run_in_lease c rq i w =
     (let l = obj w i;
          inside = translate_cwd c (rq_cwd rq) (mount_root l);
          command = wrapped_command (rq_timeout rq) (rq_command rq)
      in case andthen (get_exec_client (rq_timeout rq + EXEC_OUTER_GRACE))
                (\<lambda>_. docker_call (Exec_run (container l) command inside (rq_env rq))) w of
           (Inl e, w') \<Rightarrow>
             (if e = Daemon_timeout then Inr (failed_result ''[sandbox_daemon_unavailable]'') else Inl e, release i w')
         | (Inr a, w') \<Rightarrow> (Inr (exec_result c (rq_timeout rq) a), release i w'))"

text \<open>\<open>execute\<close> once the pool has answered.\<close>

definition execute_granted :: "cage_config \<Rightarrow> exec_request \<Rightarrow> sandbox_error + nat \<Rightarrow> shell_result step" where
  "execute_granted c rq granted w =
     (case granted of
        Inr i \<Rightarrow> run_in_lease c rq i w
      | Inl Daemon_timeout \<Rightarrow> (Inr (failed_result ''[sandbox_daemon_unavailable]''), w)
      | Inl Pool_exhausted \<Rightarrow> (Inr (failed_result ''[sandbox_pool_exhausted]''), w)
      | Inl e \<Rightarrow> (Inl e, w))"

datatype docker_outcome = Result shell_result | Waiting nat

definition execute_docker :: "cage_config \<Rightarrow> exec_request \<Rightarrow> docker_outcome step" where
  "execute_docker c rq w =
     (case acquire c (resolve_mount_root c (rq_session rq)) (rq_session rq) w of
        (Inr (Queued t), w') \<Rightarrow> (Inr (Waiting t), w')
      | (Inr (Leased i), w') \<Rightarrow> andthen (execute_granted c rq (Inr i)) (\<lambda>r. give (Result r)) w'
      | (Inl e, w') \<Rightarrow> andthen (execute_granted c rq (Inl e)) (\<lambda>r. give (Result r)) w')"

text \<open>
  What ends the wait of a queued command: its turn, or the time limit. The command goes on from the
  outcome of the admission as one that never waited; a cancelled wait only leaves the queue.
\<close>

datatype wait_end = Turn_came | Limit_passed

definition request_key :: "cage_config \<Rightarrow> exec_request \<Rightarrow> lease_key" where
  "request_key c rq = lease_key_of c (resolve_mount_root c (rq_session rq)) (rq_session rq)"

definition resume_queued :: "cage_config \<Rightarrow> exec_request \<Rightarrow> nat \<Rightarrow> wait_end \<Rightarrow> shell_result step" where
  "resume_queued c rq ticket ending w =
     (case (case ending of Turn_came \<Rightarrow> serve_waiter c ticket (request_key c rq) w
            | Limit_passed \<Rightarrow> wait_over ticket (request_key c rq) w) of
        (granted, w') \<Rightarrow> execute_granted c rq granted w')"

subsection \<open>Interactive sessions\<close>

datatype session_error = Session_refused string | Session_raised sandbox_error | Start_failed

text \<open>
  The release is scheduled on the loop and runs as a step of its own. The refusal of an exhausted
  pool carries one fixed text for the two of the code.
\<close>

definition release_later :: "nat \<Rightarrow> cage \<Rightarrow> cage" where
  "release_later i w = w\<lparr>releases_due := releases_due w @ [i]\<rparr>"

definition run_due_release :: "cage \<Rightarrow> cage" where
  "run_due_release w =
     (case releases_due w of [] \<Rightarrow> w | i # rest \<Rightarrow> release i (w\<lparr>releases_due := rest\<rparr>))"

record docker_pty =
  pty_lease :: nat
  pty_closed :: bool
  close_fired :: bool

definition fresh_pty :: "nat \<Rightarrow> docker_pty" where
  "fresh_pty i = \<lparr>pty_lease = i, pty_closed = False, close_fired = False\<rparr>"

definition open_granted ::
  "cage_config \<Rightarrow> string \<Rightarrow> (string, string) dict \<Rightarrow> bool \<Rightarrow> sandbox_error + nat \<Rightarrow> cage \<Rightarrow> (session_error + docker_pty) \<times> cage" where
  "open_granted c cwd env starts granted w =
     (case granted of
        Inl Daemon_timeout \<Rightarrow>
          (Inl (Session_refused (''Sandbox daemon unavailable '' @ [CHR 0x97] @ '' cannot open a session.'')), w)
      | Inl Pool_exhausted \<Rightarrow> (Inl (Session_refused ''container pool exhausted''), w)
      | Inl e \<Rightarrow> (Inl (Session_raised e), w)
      | Inr i \<Rightarrow>
          (case get_client w of
             (Inl e, w1) \<Rightarrow> (Inl (Session_raised e), w1)
           | (Inr _, w1) \<Rightarrow>
               (case docker_call (Exec_pty (container (obj w i)) (translate_cwd c cwd (mount_root (obj w i))) env) w1 of
                  (Inl e, w2) \<Rightarrow>
                    (Inl (if e = Daemon_timeout
                          then Session_refused (''Sandbox daemon unavailable '' @ [CHR 0x97] @ '' cannot open a PTY exec.'')
                          else Session_raised e), release_later i w2)
                | (Inr _, w2) \<Rightarrow>
                    if starts then (Inr (fresh_pty i), w2) else (Inl Start_failed, release_later i w2))))"

text \<open>\<open>close\<close> fires the callback at the first call only; \<open>terminate_tree\<close> is \<open>close\<close>.\<close>

definition pty_close :: "docker_pty \<Rightarrow> cage \<Rightarrow> docker_pty \<times> cage" where
  "pty_close b w =
     (if close_fired b then (b\<lparr>pty_closed := True\<rparr>, w)
      else (b\<lparr>pty_closed := True, close_fired := True\<rparr>, release_later (pty_lease b) w))"

definition terminate_tree :: "docker_pty \<Rightarrow> cage \<Rightarrow> docker_pty \<times> cage" where
  "terminate_tree b w = pty_close b w"

datatype socket_event = Poll_timeout | Socket_error | Received string

text \<open>
  \<open>read\<close> over what the socket does, each event with whether \<open>close\<close> has been called by then;
  \<open>None\<close> while the reader still waits.
\<close>

fun pty_read :: "(socket_event \<times> bool) list \<Rightarrow> string option" where
  "pty_read [] = None"
| "pty_read ((Poll_timeout, is_closed) # es) = (if is_closed then Some [] else pty_read es)"
| "pty_read ((Socket_error, _) # es) = Some []"
| "pty_read ((Received bytes, _) # es) = Some bytes"

lemma pty_read_idle: "list_all (\<lambda>e. e = (Poll_timeout, False)) es \<Longrightarrow> pty_read (es @ es') = pty_read es'"
  by (induction es) auto

definition sync_surface_of :: "cage_config \<Rightarrow> string option \<Rightarrow> cage \<Rightarrow> nat option" where
  "sync_surface_of c sid w = map_option (\<lambda>i. container (obj w i)) (peek c (resolve_mount_root c sid) sid w)"

subsection \<open>The sweep at start-up\<close>

record labeled_container =
  lc_id :: nat
  lc_name :: string
  lc_owner_port :: "string option"

definition LEGACY_CONTAINER_NAME :: string where "LEGACY_CONTAINER_NAME = ''ailienant-sandbox-daemon''"

text \<open>\<open>alive\<close> connects to a port of this machine; a text that is no port number is not alive.\<close>

definition sweep_keeps :: "string \<Rightarrow> (string \<Rightarrow> bool) \<Rightarrow> labeled_container \<Rightarrow> bool" where
  "sweep_keeps my_port alive lc \<longleftrightarrow>
     (let port = strip (str_or (lc_owner_port lc) [])
      in port \<noteq> [] \<and> (port = my_port \<or> lc_name lc \<noteq> LEGACY_CONTAINER_NAME \<and> alive port))"

fun sweep_all :: "string \<Rightarrow> (string \<Rightarrow> bool) \<Rightarrow> labeled_container list \<Rightarrow> unit step" where
  "sweep_all my_port alive [] w = (Inr (), w)"
| "sweep_all my_port alive (lc # lcs) w =
     (if sweep_keeps my_port alive lc then sweep_all my_port alive lcs w
      else (case docker_call (Sweep_remove (lc_id lc)) w of
              (Inr _, w') \<Rightarrow> sweep_all my_port alive lcs w'
            | (Inl Not_found, w') \<Rightarrow> sweep_all my_port alive lcs w'
            | (Inl Daemon_timeout, w') \<Rightarrow> sweep_all my_port alive lcs w'
            | (Inl e, w') \<Rightarrow> (Inl e, w')))"

definition sweep_orphaned_containers ::
  "cage_config \<Rightarrow> (string \<Rightarrow> bool) \<Rightarrow> labeled_container list \<Rightarrow> unit step" where
  "sweep_orphaned_containers c alive labeled w =
     (case docker_call From_env w of
        (Inl Daemon_timeout, w') \<Rightarrow> (Inr (), w')
      | (Inl e, w') \<Rightarrow> (Inl e, w')
      | (Inr _, w') \<Rightarrow>
          (case docker_call List_labeled w' of
             (Inl Daemon_timeout, w'') \<Rightarrow> (Inr (), w'')
           | (Inl e, w'') \<Rightarrow> (Inl e, w'')
           | (Inr _, w'') \<Rightarrow> sweep_all (owner_port c) alive labeled w''))"

subsection \<open>The host, behind an approval\<close>

text \<open>What a tier does outside the backend, in order.\<close>

datatype tier_event =
    Asked_operator string
  | Spawned string
  | Killed
  | Reaped
  | Provisioning string
  | Sent_to_host string
  | Dead_letter string
  | Ran_module

type_synonym adapter = "exec_request \<Rightarrow> shell_result \<times> tier_event list"

datatype process_end = Exited "int option" string string | Over_time

record host_env =
  operator :: "string \<Rightarrow> string \<Rightarrow> bool option option"
  process :: "exec_request \<Rightarrow> process_end"

definition spawn_with_timeout :: "host_env \<Rightarrow> adapter" where
  "spawn_with_timeout env rq =
     (case process env rq of
        Over_time \<Rightarrow>
          (failed_result ''[hitl_native_timeout]'', [Spawned (rq_command rq), Killed, Reaped, Dead_letter (rq_command rq)])
      | Exited code out err \<Rightarrow>
          (\<lparr>sh_exit_code = or_else code (-1), sh_stdout = out, sh_stderr = err\<rparr>, [Spawned (rq_command rq)]))"

text \<open>
  The operator's answer: \<open>None\<close> when the time is over, \<open>Some None\<close> without the field
  \<open>approved\<close>.
\<close>

definition approved :: "bool option option \<Rightarrow> bool" where
  "approved answer = (case answer of Some (Some b) \<Rightarrow> b | _ \<Rightarrow> False)"

definition approval_text :: "exec_request \<Rightarrow> string" where
  "approval_text rq = ''CWD: '' @ rq_cwd rq @ [CHR 0x0A] @ ''Command: '' @ rq_command rq"

definition execute_native_hitl :: "host_env \<Rightarrow> adapter" where
  "execute_native_hitl env rq =
     (let sid = str_or (rq_session rq) []
      in if sid = [] then (failed_result ''[hitl_no_session]'', [])
         else if \<not> approved (operator env sid (approval_text rq))
           then (failed_result ''[hitl_denied]'', [Asked_operator (approval_text rq)])
         else (case spawn_with_timeout env rq of (r, tr) \<Rightarrow> (r, Asked_operator (approval_text rq) # tr)))"

subsection \<open>The devcontainer\<close>

datatype provision_end = Ready bool | Provision_over_time
datatype host_end = Host_replied shell_result | Host_over_time | Host_raised

record host_bridge =
  provision :: "string \<Rightarrow> string \<Rightarrow> provision_end"
  exec_command :: "exec_request \<Rightarrow> host_end"

record devcontainer =
  own_bridge :: "host_bridge option"
  fallback :: "adapter option"
  provisioned :: bool

definition fallback_or_degrade :: "adapter option \<Rightarrow> string \<Rightarrow> adapter" where
  "fallback_or_degrade fb sentinel rq =
     (case fb of None \<Rightarrow> (failed_result sentinel, []) | Some run \<Rightarrow> run rq)"

text \<open>Provisioning: the answer, whether it was tried, and the adapter; only a success is latched.\<close>

definition provision_container ::
  "host_bridge \<Rightarrow> string \<Rightarrow> string \<Rightarrow> devcontainer \<Rightarrow> provision_end \<times> tier_event list \<times> devcontainer" where
  "provision_container br sid cwd ad =
     (if provisioned ad then (Ready True, [], ad)
      else (case provision br sid cwd of
              Provision_over_time \<Rightarrow> (Provision_over_time, [Provisioning sid], ad)
            | Ready b \<Rightarrow> (Ready b, [Provisioning sid], if b then ad\<lparr>provisioned := True\<rparr> else ad)))"

definition exec_over_bridge :: "host_bridge \<Rightarrow> adapter" where
  "exec_over_bridge br rq =
     (case exec_command br rq of
        Host_replied r \<Rightarrow> (r, [Sent_to_host (rq_command rq)])
      | Host_over_time \<Rightarrow>
          (failed_result ''[devcontainer_exec_timeout]'', [Sent_to_host (rq_command rq), Dead_letter (rq_command rq)])
      | Host_raised \<Rightarrow> (failed_result ''[devcontainer_bridge_error]'', [Sent_to_host (rq_command rq)]))"

definition bridge_of :: "host_bridge option \<Rightarrow> devcontainer \<Rightarrow> host_bridge option" where
  "bridge_of injected ad = (case own_bridge ad of None \<Rightarrow> injected | Some br \<Rightarrow> Some br)"

definition execute_devcontainer ::
  "host_bridge option \<Rightarrow> exec_request \<Rightarrow> devcontainer \<Rightarrow> (shell_result \<times> tier_event list) \<times> devcontainer" where
  "execute_devcontainer injected rq ad =
     (let sid = str_or (rq_session rq) []; fb = fallback ad
      in if sid = [] then ((failed_result ''[devcontainer_no_session]'', []), ad)
         else (case bridge_of injected ad of
                 None \<Rightarrow> (fallback_or_degrade fb ''[devcontainer_bridge_unavailable]'' rq, ad)
               | Some br \<Rightarrow>
                   (case provision_container br sid (rq_cwd rq) ad of
                      (Provision_over_time, tr, ad') \<Rightarrow>
                        (case fallback_or_degrade fb ''[devcontainer_provision_timeout]'' rq of
                           (r, tr') \<Rightarrow> ((r, tr @ Dead_letter ''devcontainer up'' # tr'), ad'))
                    | (Ready False, tr, ad') \<Rightarrow>
                        (case fallback_or_degrade fb ''[devcontainer_provision_failed]'' rq of
                           (r, tr') \<Rightarrow> ((r, tr @ tr'), ad'))
                    | (Ready True, tr, ad') \<Rightarrow>
                        (case exec_over_bridge br rq of (r, tr') \<Rightarrow> ((r, tr @ tr'), ad')))))"

definition open_devcontainer ::
  "host_bridge option \<Rightarrow> string option \<Rightarrow> string \<Rightarrow> devcontainer \<Rightarrow> (string + unit) \<times> devcontainer" where
  "open_devcontainer injected session cwd ad =
     (let sid = str_or session []
      in if sid = [] then (Inl ''DevcontainerSandboxAdapter.open_session requires a session_id.'', ad)
         else (case bridge_of injected ad of
                 None \<Rightarrow> (Inl (''Devcontainer host bridge unavailable '' @ [CHR 0x97] @ '' cannot open a session.''), ad)
               | Some br \<Rightarrow>
                   (case provision_container br sid cwd ad of
                      (Provision_over_time, tr, ad') \<Rightarrow>
                        (Inl (''Devcontainer provisioning timed out '' @ [CHR 0x97] @ '' cannot open a session.''), ad')
                    | (Ready False, tr, ad') \<Rightarrow>
                        (Inl (''Devcontainer provisioning failed '' @ [CHR 0x97] @ '' cannot open a session.''), ad')
                    | (Ready True, tr, ad') \<Rightarrow> (Inr (), ad'))))"

subsection \<open>WebAssembly\<close>

record wasm_import =
  im_module :: string
  im_name :: string

datatype wasm_end = Returned_normally | Exit_trap int | Trapped string | Wasm_error string
datatype wasm_start = No_start | Not_a_function | Start wasm_end

record wasm_file =
  wf_imports :: "wasm_import list"
  wf_instantiate_error :: "string option"
  wf_start :: wasm_start
  wf_stdout :: string
  wf_stderr :: string

definition WASM_ALLOWED_IMPORT_MODULES :: "string list" where
  "WASM_ALLOWED_IMPORT_MODULES = [''wasi_snapshot_preview1'']"

definition inspect_module_scope :: "wasm_import list \<Rightarrow> wasm_import option" where
  "inspect_module_scope imports = find (\<lambda>im. im_module im \<notin> set WASM_ALLOWED_IMPORT_MODULES) imports"

definition is_fuel_trap :: "string \<Rightarrow> bool" where
  "is_fuel_trap message = (find_sub ''fuel'' (lower message) \<noteq> None)"

definition invoke_start :: "wasm_file \<Rightarrow> wasm_end \<Rightarrow> shell_result" where
  "invoke_start m result =
     (case result of
        Returned_normally \<Rightarrow> \<lparr>sh_exit_code = 0, sh_stdout = wf_stdout m, sh_stderr = wf_stderr m\<rparr>
      | Exit_trap code \<Rightarrow> \<lparr>sh_exit_code = code, sh_stdout = wf_stdout m, sh_stderr = wf_stderr m\<rparr>
      | Trapped message \<Rightarrow>
          if is_fuel_trap message
          then \<lparr>sh_exit_code = 137, sh_stdout = wf_stdout m, sh_stderr = ''[wasm_fuel_exhausted]''\<rparr>
          else \<lparr>sh_exit_code = -1, sh_stdout = wf_stdout m, sh_stderr = ''[wasm_trap: memory_violation]''\<rparr>
      | Wasm_error message \<Rightarrow>
          \<lparr>sh_exit_code = -1, sh_stdout = wf_stdout m, sh_stderr = ''[wasm_runtime_error: '' @ message @ '']''\<rparr>)"

definition instantiate_and_run :: "wasm_file \<Rightarrow> shell_result \<times> tier_event list" where
  "instantiate_and_run m =
     (case wf_instantiate_error m of
        Some message \<Rightarrow> (failed_result (''[wasm_instantiate_error: '' @ message @ '']''), [])
      | None \<Rightarrow>
          (case wf_start m of
             No_start \<Rightarrow> (failed_result ''[wasm_load_error: no _start export]'', [])
           | Not_a_function \<Rightarrow> (failed_result ''[wasm_load_error: _start is not a function]'', [])
           | Start result \<Rightarrow> (invoke_start m result, [Ran_module])))"

text \<open>\<open>files\<close> is the disk: no file, a file the runtime rejects with a message, or a module.\<close>

definition execute_wasm :: "(string \<Rightarrow> (string + wasm_file) option) \<Rightarrow> adapter" where
  "execute_wasm files rq =
     (case files (rq_command rq) of
        None \<Rightarrow> (failed_result (''[wasm_load_error: file not found: '' @ rq_command rq @ '']''), [])
      | Some (Inl message) \<Rightarrow> (failed_result (''[wasm_load_error: '' @ message @ '']''), [])
      | Some (Inr m) \<Rightarrow>
          (case inspect_module_scope (wf_imports m) of
             Some im \<Rightarrow>
               (failed_result (''[wasm_scope_violation: '' @ im_module im @ ''::'' @
                  (if im_name im = [] then ''<unnamed>'' else im_name im) @ '']''), [])
           | None \<Rightarrow> instantiate_and_run m))"

subsection \<open>The choice of a tier\<close>

datatype active_tier = DOCKER | WASM | NATIVE_HITL

text \<open>\<open>ping\<close> is the outcome of the ping after a client was built, \<open>wasm\<close> whether the runtime starts.\<close>

definition resolve_default_adapter :: "bool \<Rightarrow> bool \<Rightarrow> cage \<Rightarrow> active_tier \<times> cage" where
  "resolve_default_adapter ping wasm w =
     (case docker_call From_env_probe w of
        (Inr _, w') \<Rightarrow> (if ping then DOCKER else if wasm then WASM else NATIVE_HITL, w')
      | (Inl _, w') \<Rightarrow> (if wasm then WASM else NATIVE_HITL, w'))"

definition oracle_fallback :: "adapter option \<Rightarrow> adapter" where
  "oracle_fallback active rq =
     (case active of None \<Rightarrow> (failed_result ''[oracle_adapter_unresolved]'', []) | Some run \<Rightarrow> run rq)"

definition trusted_adapter :: "host_env \<Rightarrow> devcontainer" where
  "trusted_adapter env = \<lparr>own_bridge = None, fallback = Some (execute_native_hitl env), provisioned = False\<rparr>"

definition trusted_adapter_silent :: "adapter option \<Rightarrow> devcontainer" where
  "trusted_adapter_silent active = \<lparr>own_bridge = None, fallback = Some (oracle_fallback active), provisioned = False\<rparr>"

datatype chosen_adapter = Trusted | Trusted_silent | Active

definition resolve_execution_adapter :: "string option \<Rightarrow> bool \<Rightarrow> bool \<Rightarrow> chosen_adapter" where
  "resolve_execution_adapter session trusted interactive_fallback =
     (if trusted \<and> str_or session [] \<noteq> [] then (if interactive_fallback then Trusted else Trusted_silent) else Active)"

subsection \<open>What the steps leave alone\<close>

lemma andthen_cases:
  assumes "andthen m f w = (r, w')"
  obtains e where "m w = (Inl e, w')" "r = Inl e"
    | x w1 where "m w = (Inr x, w1)" "f x w1 = (r, w')"
  using assms by (auto simp: andthen_def split: prod.splits sum.splits)

text \<open>A step on the daemon only: the pool is as before, and a client that was built stays.\<close>

definition quiet :: "cage \<Rightarrow> cage \<Rightarrow> bool" where
  "quiet w w' \<longleftrightarrow> leases w' = leases w \<and> objs w' = objs w \<and> queue w' = queue w \<and>
     next_ticket w' = next_ticket w \<and> releases_due w' = releases_due w \<and> (client w \<longrightarrow> client w')"

lemma quiet_refl [simp]: "quiet w w"
  by (simp add: quiet_def)

lemma quiet_trans [trans]: "quiet w w1 \<Longrightarrow> quiet w1 w2 \<Longrightarrow> quiet w w2"
  by (simp add: quiet_def)

lemma docker_call_quiet: "docker_call operation w = (r, w') \<Longrightarrow> quiet w w'"
  by (auto simp: docker_call_def quiet_def breaker_success_def breaker_failure_def Let_def
      split: if_splits docker_verdict.splits)

lemma docker_call_quiet' [simp]: "quiet w (snd (docker_call operation w))"
  by (cases "docker_call operation w") (auto dest: docker_call_quiet)

lemma quiet_andthen:
  assumes "andthen m f w = (r, w')"
    and "\<And>r w'. m w = (r, w') \<Longrightarrow> quiet w w'" and "\<And>x w1 r w'. f x w1 = (r, w') \<Longrightarrow> quiet w1 w'"
  shows "quiet w w'"
  using assms(1) by (cases rule: andthen_cases) (use assms(2,3) quiet_trans in blast)+

lemma get_client_quiet: "get_client w = (r, w') \<Longrightarrow> quiet w w'"
  by (auto simp: get_client_def quiet_def split: if_splits elim!: andthen_cases dest: docker_call_quiet)

lemma get_client_built: "get_client w = (Inr u, w') \<Longrightarrow> client w'"
  by (auto simp: get_client_def split: if_splits elim!: andthen_cases)

lemma get_client_ready: "client w \<Longrightarrow> get_client w = (Inr (), w)"
  by (simp add: get_client_def)

lemma get_build_client_quiet: "get_build_client w = (r, w') \<Longrightarrow> quiet w w'"
  by (auto simp: get_build_client_def quiet_def split: if_splits elim!: andthen_cases dest!: docker_call_quiet)

lemma mark_image_ready_quiet: "mark_image_ready w = (r, w') \<Longrightarrow> quiet w w'"
  by (auto simp: mark_image_ready_def quiet_def)

lemma ensure_image_quiet: "ensure_image w = (r, w') \<Longrightarrow> quiet w w'"
  by (auto simp: ensure_image_def split: if_splits elim!: quiet_andthen
      intro: get_client_quiet docker_call_quiet get_build_client_quiet mark_image_ready_quiet)

lemma remove_stale_quiet: "remove_stale x w = (r, w') \<Longrightarrow> quiet w w'"
  by (auto simp: remove_stale_def split: option.splits prod.splits sum.splits sandbox_error.splits
      dest: docker_call_quiet)

lemma emit_lifecycle_quiet [simp]: "quiet w (emit_lifecycle e i w')  = quiet w w'"
  by (simp add: quiet_def emit_lifecycle_def)

lemma create_lease_container_quiet: "create_lease_container c key mroot w = (r, w') \<Longrightarrow> quiet w w'"
  by (auto simp: create_lease_container_def Let_def elim!: quiet_andthen
      intro: ensure_image_quiet get_client_quiet docker_call_quiet remove_stale_quiet)

lemma create_lease_container_client:
  "create_lease_container c key mroot w = (Inr cid, w') \<Longrightarrow> client w'"
  by (auto simp: create_lease_container_def Let_def emit_lifecycle_def quiet_def elim!: andthen_cases
      dest!: get_client_built docker_call_quiet remove_stale_quiet)

lemma revalidate_quiet: "revalidate cid w = (r, w') \<Longrightarrow> quiet w w'"
  by (auto simp: revalidate_def split: prod.splits sum.splits sandbox_error.splits dest: docker_call_quiet)

lemma teardown_quiet [simp]: "quiet w (teardown_container reason cid w)"
  by (simp add: teardown_container_def) (meson docker_call_quiet' quiet_trans)

lemma get_exec_client_quiet: "get_exec_client ms w = (r, w') \<Longrightarrow> quiet w w'"
  by (auto simp: get_exec_client_def quiet_def Let_def split: if_splits elim!: andthen_cases
      dest!: docker_call_quiet)

subsection \<open>The pool as a transition system\<close>

text \<open>
  A configuration is the cage, the leases that callers hold, and the waiting callers with their
  ticket and key. Every step under the lock is one step here; what other code does with the
  daemon between two of them (a command, a probe) is a step that leaves the pool alone.
\<close>

inductive pool_step :: "cage_config \<Rightarrow> cage \<times> nat list \<times> (nat \<times> lease_key) list
    \<Rightarrow> cage \<times> nat list \<times> (nat \<times> lease_key) list \<Rightarrow> bool"
  for c where
  Acquired: "acquire c mroot sid w = (Inr (Leased i), w') \<Longrightarrow> pool_step c (w, bs, ws) (w', i # bs, ws)"
| Waits: "acquire c mroot sid w = (Inr (Queued t), w')
    \<Longrightarrow> pool_step c (w, bs, ws) (w', bs, (t, lease_key_of c mroot sid) # ws)"
| Refused: "acquire c mroot sid w = (Inl e, w') \<Longrightarrow> pool_step c (w, bs, ws) (w', bs, ws)"
| Served: "(t, key) \<in> set ws \<Longrightarrow> may_wake c t w \<Longrightarrow> serve_waiter c t key w = (Inr i, w')
    \<Longrightarrow> pool_step c (w, bs, ws) (w', i # bs, remove1 (t, key) ws)"
| Serve_failed: "(t, key) \<in> set ws \<Longrightarrow> may_wake c t w \<Longrightarrow> serve_waiter c t key w = (Inl e, w')
    \<Longrightarrow> pool_step c (w, bs, ws) (w', bs, remove1 (t, key) ws)"
| Shared: "(t, key) \<in> set ws \<Longrightarrow> wait_over t key w = (Inr i, w')
    \<Longrightarrow> pool_step c (w, bs, ws) (w', i # bs, remove1 (t, key) ws)"
| Gave_up: "(t, key) \<in> set ws \<Longrightarrow> wait_over t key w = (Inl e, w')
    \<Longrightarrow> pool_step c (w, bs, ws) (w', bs, remove1 (t, key) ws)"
| Cancelled: "(t, key) \<in> set ws \<Longrightarrow> pool_step c (w, bs, ws) (leave_queue t w, bs, remove1 (t, key) ws)"
| Released: "i \<in> set bs \<Longrightarrow> pool_step c (w, bs, ws) (release i w, remove1 i bs, ws)"
| Scheduled: "i \<in> set bs \<Longrightarrow> pool_step c (w, bs, ws) (release_later i w, remove1 i bs, ws)"
| Due: "pool_step c (w, bs, ws) (run_due_release w, bs, ws)"
| Elsewhere: "quiet w w' \<Longrightarrow> pool_step c (w, bs, ws) (w', bs, ws)"
| Shut_down: "pool_step c (w, bs, ws) (shutdown w, bs, ws)"

definition fresh_cage :: "(docker_op \<Rightarrow> nat \<Rightarrow> answer) \<Rightarrow> cage" where
  "fresh_cage d = \<lparr>daemon = d, now = 0, failures = 0, opened_at = None, dispatched = [], client = False,
     build_client = False, image_ready = False, exec_clients = [], lifecycle = [], leases = [], objs = [],
     queue = [], next_ticket = 0, releases_due = []\<rparr>"

inductive pool_reachable :: "cage_config \<Rightarrow> cage \<times> nat list \<times> (nat \<times> lease_key) list \<Rightarrow> bool"
  for c where
  Started: "pool_reachable c (fresh_cage d, [], [])"
| Stepped: "pool_reachable c s \<Longrightarrow> pool_step c s s' \<Longrightarrow> pool_reachable c s'"

subsection \<open>The invariant of the pool\<close>

definition leases_ok :: "cage_config \<Rightarrow> cage \<Rightarrow> bool" where
  "leases_ok c w \<longleftrightarrow> distinct (dkeys (leases w)) \<and> distinct (map snd (leases w)) \<and>
     length (leases w) \<le> max_containers c \<and> (leases w \<noteq> [] \<longrightarrow> client w) \<and>
     (\<forall>kv\<in>set (leases w). snd kv < length (objs w) \<and> mount_root (obj w (snd kv)) = fst (fst kv))"

definition counts_ok :: "cage \<Rightarrow> nat list \<Rightarrow> bool" where
  "counts_ok w bs \<longleftrightarrow> set bs \<union> set (releases_due w) \<subseteq> {..<length (objs w)} \<and>
     (\<forall>i<length (objs w). refcount (obj w i) = count_list bs i + count_list (releases_due w) i)"

definition queue_ok :: "cage_config \<Rightarrow> cage \<Rightarrow> (nat \<times> lease_key) list \<Rightarrow> bool" where
  "queue_ok c w ws \<longleftrightarrow> length (queue w) \<le> max_queued c \<and> sorted_wrt (<) (queue w) \<and>
     (\<forall>t\<in>set (queue w). t < next_ticket w) \<and> distinct (map fst ws) \<and> set (queue w) = fst ` set ws"

definition pool_ok :: "cage_config \<Rightarrow> cage \<Rightarrow> nat list \<Rightarrow> (nat \<times> lease_key) list \<Rightarrow> bool" where
  "pool_ok c w bs ws \<longleftrightarrow> leases_ok c w \<and> counts_ok w bs \<and> queue_ok c w ws"

text \<open>Leases may be gone, everything else is as it was.\<close>

definition shrunk :: "cage \<Rightarrow> cage \<Rightarrow> bool" where
  "shrunk w w' \<longleftrightarrow> (\<exists>P. leases w' = filter P (leases w)) \<and> objs w' = objs w \<and> queue w' = queue w \<and>
     next_ticket w' = next_ticket w \<and> releases_due w' = releases_due w \<and> (client w \<longrightarrow> client w')"

lemma quiet_shrunk: "quiet w w' \<Longrightarrow> shrunk w w'"
  by (auto simp: quiet_def shrunk_def intro: exI [of _ "\<lambda>_. True"])

lemma shrunk_refl [simp]: "shrunk w w"
  by (rule quiet_shrunk) simp

lemma shrunk_trans [trans]: "shrunk w w1 \<Longrightarrow> shrunk w1 w2 \<Longrightarrow> shrunk w w2"
  unfolding shrunk_def by (metis filter_filter)

lemma shrunk_ok: "pool_ok c w bs ws \<Longrightarrow> shrunk w w' \<Longrightarrow> pool_ok c w' bs ws"
  unfolding pool_ok_def shrunk_def
proof (elim conjE exE, intro conjI)
  fix P
  assume ok: "leases_ok c w" and ls: "leases w' = filter P (leases w)" and os: "objs w' = objs w"
    and cl: "client w \<longrightarrow> client w'"
  have "length (filter P (leases w)) \<le> length (leases w)" by simp
  with ok have "length (leases w') \<le> max_containers c" unfolding leases_ok_def ls by linarith
  moreover have "leases w' \<noteq> [] \<longrightarrow> client w'" using ok cl by (auto simp: leases_ok_def ls)
  ultimately show "leases_ok c w'"
    using ok by (auto simp: leases_ok_def ls obj_def os distinct_map_filter)
next
  assume "counts_ok w bs" "objs w' = objs w" "releases_due w' = releases_due w"
  then show "counts_ok w' bs" by (simp add: counts_ok_def obj_def)
next
  assume "queue_ok c w ws" "queue w' = queue w" "next_ticket w' = next_ticket w"
  then show "queue_ok c w' ws" by (simp add: queue_ok_def)
qed

lemma forget_shrunk: "shrunk w (forget key w)"
  by (auto simp: forget_def shrunk_def AList.delete_eq)

lemma drop_lease_shrunk: "shrunk w (drop_lease reason kv w)"
  unfolding drop_lease_def by (meson forget_shrunk quiet_shrunk shrunk_trans teardown_quiet)

lemma leases_teardown [simp]: "leases (teardown_container reason cid w) = leases w"
  using teardown_quiet [of w reason cid] by (simp add: quiet_def)

lemma objs_teardown [simp]: "objs (teardown_container reason cid w) = objs w"
  using teardown_quiet [of w reason cid] by (simp add: quiet_def)

lemma leases_drop_lease [simp]: "leases (drop_lease reason kv w) = filter (\<lambda>x. fst x \<noteq> fst kv) (leases w)"
  by (simp add: drop_lease_def forget_def AList.delete_eq case_prod_unfold eq_commute)

lemma objs_drop_lease [simp]: "objs (drop_lease reason kv w) = objs w"
  by (simp add: drop_lease_def forget_def)

lemma reap_shrunk: "shrunk w (reap_expired_idle c w)"
proof -
  have "shrunk w (fold (drop_lease r) kvs w)" for r kvs w
    by (induction kvs arbitrary: w) (auto intro: shrunk_trans drop_lease_shrunk)
  then show ?thesis by (simp add: reap_expired_idle_def)
qed

lemma evict_shrunk: "evict_one_idle w = (b, w') \<Longrightarrow> shrunk w w'"
  by (auto simp: evict_one_idle_def Let_def drop_lease_shrunk split: if_splits)

text \<open>What a caller has after the pool answered; a failed call leaves the pool in order as well.\<close>

definition grant_ok :: "cage_config \<Rightarrow> nat list \<Rightarrow> (nat \<times> lease_key) list \<Rightarrow> string
    \<Rightarrow> (sandbox_error + nat) \<times> cage \<Rightarrow> bool" where
  "grant_ok c bs ws mroot out \<longleftrightarrow>
     (case out of
        (Inl _, w') \<Rightarrow> pool_ok c w' bs ws
      | (Inr i, w') \<Rightarrow> pool_ok c w' (i # bs) ws \<and> client w' \<and> mount_root (obj w' i) = mroot)"

lemma distinct_snd_dset:
  "distinct (map snd d) \<Longrightarrow> v \<notin> snd ` set d \<Longrightarrow> distinct (map snd (dset k v d))"
proof (induction d)
  case (Cons x d)
  have "snd ` set (dset k v d) \<subseteq> insert v (snd ` set d)" by (induction d) auto
  with Cons show ?case by (cases x) auto
qed simp

lemma in_set_dset: "kv \<in> set (dset k v d) \<Longrightarrow> kv = (k, v) \<or> kv \<in> set d"
  by (induction d) (auto split: if_splits)

lemma store_lease_ok:
  assumes ok: "pool_ok c w bs ws" and room: "length (leases w) < max_containers c" and cl: "client w"
  shows "grant_ok c bs ws (fst key) (store_lease key (fst key) cid w)"
proof -
  let ?n = "length (objs w)"
  let ?w = "snd (store_lease key (fst key) cid w)"
  have st: "store_lease key (fst key) cid w = (Inr ?n, ?w)" by (simp add: store_lease_def Let_def)
  have fresh: "?n \<notin> snd ` set (leases w)" using ok by (auto simp: pool_ok_def leases_ok_def)
  have old: "i < ?n \<Longrightarrow> obj ?w i = obj w i" for i by (simp add: store_lease_def obj_def nth_append Let_def)
  have new: "obj ?w ?n = \<lparr>container = cid, mount_root = fst key, refcount = 1, last_used = now w\<rparr>"
    by (simp add: store_lease_def obj_def Let_def)
  have len: "length (objs ?w) = Suc ?n" "leases ?w = dset key ?n (leases w)" "releases_due ?w = releases_due w"
    "client ?w" "queue ?w = queue w" "next_ticket ?w = next_ticket w"
    using cl by (simp_all add: store_lease_def Let_def)
  have notin: "?n \<notin> set bs" "?n \<notin> set (releases_due w)" using ok by (auto simp: pool_ok_def counts_ok_def)
  have "snd kv < length (objs ?w) \<and> mount_root (obj ?w (snd kv)) = fst (fst kv)"
    if "kv \<in> set (leases ?w)" for kv
    using in_set_dset [of kv key ?n "leases w"] that ok
    by (auto simp: len new pool_ok_def leases_ok_def old less_SucI)
  then have "\<forall>kv\<in>set (leases ?w). snd kv < length (objs ?w) \<and> mount_root (obj ?w (snd kv)) = fst (fst kv)"
    by blast
  moreover have "distinct (dkeys (leases ?w))" "distinct (map snd (leases ?w))" "length (leases ?w) \<le> max_containers c"
    using ok room fresh by (simp_all add: leases_ok_def pool_ok_def len(2) length_dset distinct_dset distinct_snd_dset)
  ultimately have "leases_ok c ?w" using len(4) unfolding leases_ok_def by blast
  moreover have "counts_ok ?w (?n # bs)"
    using ok notin by (auto simp: counts_ok_def pool_ok_def len less_Suc_eq old new)
  moreover have "queue_ok c ?w ws" using ok by (simp add: queue_ok_def pool_ok_def len)
  ultimately show ?thesis using len(4) by (subst st) (simp add: grant_ok_def pool_ok_def new)
qed

lemma create_locked_ok:
  assumes ok: "pool_ok c w bs ws" and room: "length (leases w) < max_containers c"
  shows "grant_ok c bs ws (fst key) (create_locked c key (fst key) w)"
proof (cases "create_lease_container c key (fst key) w")
  case (Pair r w1)
  have q: "quiet w w1" by (rule create_lease_container_quiet [OF Pair])
  then have ok1: "pool_ok c w1 bs ws" using ok quiet_shrunk shrunk_ok by blast
  have "length (leases w1) < max_containers c" using q room by (simp add: quiet_def)
  then show ?thesis
    using Pair ok1 create_lease_container_client [of c key "fst key" w _ w1] store_lease_ok [OF ok1]
    by (cases r) (simp_all add: create_locked_def andthen_def grant_ok_def)
qed

lemma evict_makes_room:
  assumes ok: "pool_ok c w bs ws" and ev: "evict_one_idle w = (True, w')"
  shows "length (leases w') < max_containers c"
proof -
  let ?idle = "filter (idle_lease w) (leases w)"
  have ne: "?idle \<noteq> []" and w': "w' = drop_lease ''evicted'' (oldest w ?idle) w"
    using ev by (auto simp: evict_one_idle_def Let_def split: if_splits)
  have "sort_key (\<lambda>kv. last_used (obj w (snd kv))) ?idle \<noteq> []"
    using ne by (metis length_0_conv length_sort)
  then have "oldest w ?idle \<in> set (leases w)"
    using hd_in_set unfolding oldest_def by (metis filter_is_subset set_sort subsetD)
  moreover have "leases w' = filter (\<lambda>kv. fst kv \<noteq> fst (oldest w ?idle)) (leases w)"
    by (simp add: w')
  ultimately have "length (leases w') < length (leases w)"
    by (simp add: length_filter_less)
  with ok show ?thesis by (simp add: pool_ok_def leases_ok_def)
qed

lemma borrow_ok:
  assumes ok: "pool_ok c w bs ws" and held: "kv \<in> set (leases w)"
  shows "grant_ok c bs ws (fst (fst kv)) (Inr (snd kv), borrow (snd kv) w)"
proof -
  let ?i = "snd kv" and ?w = "borrow (snd kv) w"
  have lt: "?i < length (objs w)" and m: "mount_root (obj w ?i) = fst (fst kv)" and cl: "client w"
    using ok held by (auto simp: pool_ok_def leases_ok_def)
  have os: "length (objs ?w) = length (objs w)" "leases ?w = leases w" "releases_due ?w = releases_due w"
    "client ?w = client w" "queue ?w = queue w" "next_ticket ?w = next_ticket w" by (simp_all add: borrow_def)
  have o: "obj ?w j = (if j = ?i then (obj w ?i)\<lparr>refcount := refcount (obj w ?i) + 1, last_used := now w\<rparr> else obj w j)" for j
    using lt by (auto simp: borrow_def obj_def nth_list_update)
  have "leases_ok c ?w" using ok by (auto simp: pool_ok_def leases_ok_def os o)
  moreover have "counts_ok ?w (?i # bs)" using ok lt by (auto simp: pool_ok_def counts_ok_def os o)
  moreover have "queue_ok c ?w ws" using ok by (simp add: pool_ok_def queue_ok_def os)
  ultimately show ?thesis using cl m by (simp add: grant_ok_def pool_ok_def os o)
qed

lemma quiet_grant_ok:
  assumes "grant_ok c bs ws mroot (r, w)" and "quiet w w'"
  shows "grant_ok c bs ws mroot (r, w')"
proof -
  have "obj w' i = obj w i" "client w \<longrightarrow> client w'" for i using assms(2) by (simp_all add: quiet_def obj_def)
  then show ?thesis
    using assms shrunk_ok [OF _ quiet_shrunk [OF assms(2)]] by (cases r) (auto simp: grant_ok_def)
qed

lemma oldest_in: "kvs \<noteq> [] \<Longrightarrow> oldest w kvs \<in> set kvs"
  unfolding oldest_def by (metis hd_in_set length_0_conv length_sort set_sort)

lemma share_ok:
  assumes ok: "pool_ok c w bs ws"
  shows "grant_ok c bs ws mroot (share_or_raise mroot w)"
proof -
  let ?cs = "filter (\<lambda>kv. mount_root (obj w (snd kv)) = mroot) (leases w)"
  let ?kv = "oldest w ?cs"
  show ?thesis
  proof (cases "?cs = []")
    case True
    then show ?thesis using ok by (simp add: share_or_raise_def grant_ok_def)
  next
    case False
    have "?kv \<in> set ?cs" by (rule oldest_in [OF False])
    then have kv: "?kv \<in> set (leases w)" and m: "mount_root (obj w (snd ?kv)) = mroot" by simp_all
    then have "fst (fst ?kv) = mroot" using ok by (auto simp: pool_ok_def leases_ok_def)
    then have "grant_ok c bs ws mroot (Inr (snd ?kv), borrow (snd ?kv) w)" using borrow_ok [OF ok kv] by simp
    then show ?thesis
      using False quiet_grant_ok by (simp add: share_or_raise_def Let_def)
  qed
qed

definition admission_ok :: "cage_config \<Rightarrow> nat list \<Rightarrow> (nat \<times> lease_key) list \<Rightarrow> lease_key
    \<Rightarrow> (sandbox_error + pool_admission) \<times> cage \<Rightarrow> bool" where
  "admission_ok c bs ws key out \<longleftrightarrow>
     (case out of
        (Inl e, w') \<Rightarrow> grant_ok c bs ws (fst key) (Inl e, w')
      | (Inr (Leased i), w') \<Rightarrow> grant_ok c bs ws (fst key) (Inr i, w')
      | (Inr (Queued t), w') \<Rightarrow> pool_ok c w' bs ((t, key) # ws))"

lemma leased_admission_ok:
  "grant_ok c bs ws (fst key) (m w) \<Longrightarrow> admission_ok c bs ws key (leased m w)"
  by (auto simp: leased_def andthen_def give_def admission_ok_def split: prod.splits sum.splits)

lemma enqueue_ok:
  assumes ok: "pool_ok c w bs ws" shows "admission_ok c bs ws key (enqueue c w)"
proof (cases "max_queued c \<le> length (queue w)")
  case True
  then show ?thesis using ok by (simp add: enqueue_def admission_ok_def grant_ok_def)
next
  case False
  let ?w = "w\<lparr>queue := queue w @ [next_ticket w], next_ticket := next_ticket w + 1\<rparr>"
  have rest: "leases_ok c ?w" "counts_ok ?w bs"
    using ok by (simp_all add: pool_ok_def leases_ok_def counts_ok_def obj_def)
  have "next_ticket w \<notin> fst ` set ws" using ok by (auto simp: pool_ok_def queue_ok_def)
  moreover have "\<forall>t\<in>set (queue ?w). t < next_ticket ?w"
    using ok by (fastforce simp: pool_ok_def queue_ok_def)
  ultimately have "queue_ok c ?w ((next_ticket w, key) # ws)"
    using ok False unfolding pool_ok_def queue_ok_def by (simp add: sorted_wrt_append)
  with rest show ?thesis using False by (simp add: enqueue_def admission_ok_def pool_ok_def)
qed

lemma admit_ok:
  assumes "pool_ok c w bs ws" shows "admission_ok c bs ws key (admit c key w)"
proof -
  let ?w = "reap_expired_idle c w"
  have ok: "pool_ok c ?w bs ws" using assms reap_shrunk shrunk_ok by blast
  obtain b w' where ev: "evict_one_idle ?w = (b, w')" by (cases "evict_one_idle ?w") auto
  have ok': "pool_ok c w' bs ws" using ok evict_shrunk [OF ev] shrunk_ok by blast
  show ?thesis
    using create_locked_ok [OF ok, of key] create_locked_ok [OF ok', of key] evict_makes_room [OF ok] ev
      enqueue_ok [OF ok', of key]
    by (auto simp: admit_def Let_def leased_admission_ok split: bool.splits)
qed

lemma mset_move_to_end:
  assumes "distinct (dkeys d)" shows "mset (move_to_end key d) = mset d"
proof (cases "dget d key")
  case (Some v)
  have mem: "(key, v) \<in> set d" using Some by (rule map_of_SomeD)
  have "move_to_end key d = filter (\<lambda>x. x \<noteq> (key, v)) d @ [(key, v)]"
    using Some mem assms by (auto simp: move_to_end_def AList.delete_eq intro!: filter_cong dest: eq_key_imp_eq_value)
  moreover have "filter (\<lambda>x. x \<noteq> (key, v)) d = remove1 (key, v) d"
    using assms by (simp add: distinct_map distinct_remove1_removeAll removeAll_filter_not_eq eq_commute)
  ultimately show ?thesis using mem by simp
qed (simp add: move_to_end_def)

lemma distinct_map_move_to_end:
  assumes "distinct (dkeys d)" shows "distinct (map f (move_to_end key d)) = distinct (map f d)"
  using mset_move_to_end [OF assms] by (metis mset_eq_imp_distinct_iff mset_map)

lemma move_lease_quiet_ok:
  assumes "grant_ok c bs ws mroot (Inr i, w)"
  shows "grant_ok c bs ws mroot (Inr i, w\<lparr>leases := move_to_end key (leases w)\<rparr>)"
proof -
  let ?w = "w\<lparr>leases := move_to_end key (leases w)\<rparr>"
  have ok: "pool_ok c w (i # bs) ws" using assms by (simp add: grant_ok_def)
  then have d: "distinct (dkeys (leases w))" by (simp add: pool_ok_def leases_ok_def)
  note eq = mset_move_to_end [OF d, of key]
  have "set (move_to_end key (leases w)) = set (leases w)" "length (move_to_end key (leases w)) = length (leases w)"
    using eq mset_eq_setD mset_eq_length by blast+
  moreover have "client w" using assms by (simp add: grant_ok_def)
  ultimately have "leases_ok c ?w"
    using ok by (auto simp: pool_ok_def leases_ok_def obj_def distinct_map_move_to_end [OF d])
  moreover have "counts_ok ?w (i # bs)" "queue_ok c ?w ws"
    using ok by (auto simp: pool_ok_def counts_ok_def queue_ok_def obj_def)
  ultimately show ?thesis using assms by (simp add: grant_ok_def pool_ok_def obj_def)
qed

lemma acquire_ok:
  assumes ok: "pool_ok c w bs ws"
  shows "admission_ok c bs ws (lease_key_of c mroot sid) (acquire c mroot sid w)"
proof (cases "dget (leases w) (lease_key_of c mroot sid)")
  case None
  then show ?thesis using admit_ok [OF ok] by (simp add: acquire_def Let_def)
next
  case (Some i)
  let ?key = "lease_key_of c mroot sid"
  have mem: "(?key, i) \<in> set (leases w)" using Some by (rule map_of_SomeD)
  obtain r w' where rv: "revalidate (container (obj w i)) w = (r, w')" by force
  have q: "quiet w w'" by (rule revalidate_quiet [OF rv])
  have ok': "pool_ok c w' bs ws" using ok quiet_shrunk [OF q] shrunk_ok by blast
  have mem': "(?key, i) \<in> set (leases w')" using mem q by (simp add: quiet_def)
  show ?thesis
  proof (cases r)
    case (Inl e)
    then show ?thesis using Some rv ok' by (simp add: acquire_def Let_def admission_ok_def grant_ok_def)
  next
    case (Inr alive)
    show ?thesis
    proof (cases alive)
      case True
      then show ?thesis
        using Some rv Inr move_lease_quiet_ok [OF borrow_ok [OF ok' mem', simplified]]
        by (simp add: acquire_def Let_def admission_ok_def)
    next
      case False
      have "pool_ok c (forget ?key w') bs ws" using ok' forget_shrunk shrunk_ok by blast
      then show ?thesis using Some rv Inr False admit_ok by (simp add: acquire_def Let_def)
    qed
  qed
qed

lemma remove_pair:
  assumes "distinct (map fst ws)" and "(t, key) \<in> set ws"
  shows "fst ` set (remove1 (t, key) ws) = fst ` set ws - {t}" and "distinct (map fst (remove1 (t, key) ws))"
proof -
  have eq: "remove1 (t, key) ws = filter (\<lambda>x. fst x \<noteq> t) ws"
    using assms by (induction ws) (auto simp: filter_id_conv image_iff intro!: filter_True [symmetric])
  show "fst ` set (remove1 (t, key) ws) = fst ` set ws - {t}" by (auto simp: eq)
  show "distinct (map fst (remove1 (t, key) ws))" using assms(1) by (simp add: eq distinct_map_filter)
qed

lemma left_queue_ok:
  assumes ok: "pool_ok c w bs ws" and mem: "(t, key) \<in> set ws"
  shows "pool_ok c (leave_queue t w) bs (remove1 (t, key) ws)"
proof -
  have q: "queue_ok c w ws" using ok by (simp add: pool_ok_def)
  then have "distinct (queue w)" by (simp add: queue_ok_def strict_sorted_iff)
  then have eq: "remove1 t (queue w) = filter (\<lambda>x. x \<noteq> t) (queue w)"
    by (simp add: distinct_remove1_removeAll removeAll_filter_not_eq eq_commute)
  have "length (filter (\<lambda>x. x \<noteq> t) (queue w)) \<le> length (queue w)" by simp
  with q have "length (remove1 t (queue w)) \<le> max_queued c" unfolding queue_ok_def eq by linarith
  with q remove_pair [of ws t key] mem have "queue_ok c (leave_queue t w) (remove1 (t, key) ws)"
    by (auto simp: queue_ok_def leave_queue_def eq sorted_wrt_filter)
  moreover have "leases_ok c (leave_queue t w)" "counts_ok (leave_queue t w) bs"
    using ok by (simp_all add: pool_ok_def leases_ok_def counts_ok_def leave_queue_def obj_def)
  ultimately show ?thesis by (simp add: pool_ok_def)
qed

lemma serve_ok:
  assumes ok: "pool_ok c w bs ws" and mem: "(t, key) \<in> set ws"
  shows "grant_ok c bs (remove1 (t, key) ws) (fst key) (serve_waiter c t key w)"
proof -
  let ?w = "leave_queue t w"
  have ok1: "pool_ok c ?w bs (remove1 (t, key) ws)" by (rule left_queue_ok [OF ok mem])
  obtain b w' where ev: "evict_one_idle ?w = (b, w')" by (cases "evict_one_idle ?w") auto
  have ok': "pool_ok c w' bs (remove1 (t, key) ws)" using ok1 evict_shrunk [OF ev] shrunk_ok by blast
  show ?thesis
    using create_locked_ok [OF ok1, of key] create_locked_ok [OF ok', of key] evict_makes_room [OF ok1] ev
      share_ok [OF ok']
    by (auto simp: serve_waiter_def Let_def split: bool.splits)
qed

lemma wait_over_ok:
  assumes ok: "pool_ok c w bs ws" and mem: "(t, key) \<in> set ws"
  shows "grant_ok c bs (remove1 (t, key) ws) (fst key) (wait_over t key w)"
proof (cases "share_or_raise (fst key) w")
  case (Pair r w')
  show ?thesis
    using share_ok [OF ok, of "fst key"] left_queue_ok [of c w'] mem
    by (cases r) (simp_all add: wait_over_def Pair grant_ok_def leave_queue_def obj_def)
qed

lemma release_ok:
  assumes ok: "pool_ok c w bs ws" and i: "i \<in> set bs"
  shows "pool_ok c (release i w) (remove1 i bs) ws"
proof -
  have lt: "i < length (objs w)" using ok i by (auto simp: pool_ok_def counts_ok_def)
  have o: "obj (release i w) j = (if j = i then (obj w i)\<lparr>refcount := refcount (obj w i) - 1, last_used := now w\<rparr> else obj w j)" for j
    using lt by (auto simp: release_def obj_def nth_list_update)
  have same: "length (objs (release i w)) = length (objs w)" "leases (release i w) = leases w"
    "client (release i w) = client w" "releases_due (release i w) = releases_due w"
    "queue (release i w) = queue w" "next_ticket (release i w) = next_ticket w" by (simp_all add: release_def)
  have pos: "count_list bs i > 0" using i by (simp add: count_list_0_iff zero_less_iff_neq_zero)
  have cnt: "count_list (remove1 i bs) j = (if j = i then count_list bs i - 1 else count_list bs j)" for j
    using i by (induction bs) (auto simp: count_list_0_iff)
  have "counts_ok (release i w) (remove1 i bs)"
    using ok pos set_remove1_subset [of i bs] by (auto simp: pool_ok_def counts_ok_def same o cnt)
  moreover have "leases_ok c (release i w)" using ok by (auto simp: pool_ok_def leases_ok_def same o)
  moreover have "queue_ok c (release i w) ws" using ok by (simp add: pool_ok_def queue_ok_def same)
  ultimately show ?thesis by (simp add: pool_ok_def)
qed

text \<open>A release that is due counts as a borrower until it runs.\<close>

lemma due_swap:
  "pool_ok c w bs ws \<Longrightarrow> i \<in> set bs \<Longrightarrow> pool_ok c (release_later i w) (remove1 i bs) ws"
proof -
  assume ok: "pool_ok c w bs ws" and i: "i \<in> set bs"
  have cnt: "count_list (remove1 i bs) j + count_list (releases_due w @ [i]) j = count_list bs j + count_list (releases_due w) j" for j
    using i by (induction bs) auto
  have "counts_ok (release_later i w) (remove1 i bs)"
    using ok i set_remove1_subset [of i bs] cnt
    by (auto simp: pool_ok_def counts_ok_def release_later_def obj_def)
  then show ?thesis
    using ok by (simp add: pool_ok_def leases_ok_def queue_ok_def release_later_def obj_def)
qed

lemma run_due_ok:
  assumes ok: "pool_ok c w bs ws" shows "pool_ok c (run_due_release w) bs ws"
proof (cases "releases_due w")
  case (Cons i rest)
  let ?w = "w\<lparr>releases_due := rest\<rparr>"
  have "pool_ok c ?w (i # bs) ws"
    using ok Cons by (auto simp: pool_ok_def leases_ok_def counts_ok_def queue_ok_def obj_def)
  from release_ok [OF this, of i] show ?thesis by (simp add: run_due_release_def Cons)
qed (simp add: run_due_release_def ok)

lemma shutdown_ok:
  assumes ok: "pool_ok c w bs ws" shows "pool_ok c (shutdown w) bs ws"
proof -
  let ?d = "drain w"
  have fold_quiet: "quiet w (fold (teardown_container r) cs w)" for r cs w
    by (induction cs arbitrary: w) (simp_all, metis quiet_trans teardown_quiet)
  have "shrunk w (snd (drain_leases w))"
    by (auto simp: drain_leases_def shrunk_def intro: exI [of _ "\<lambda>_. False"])
  then have d: "shrunk w ?d" unfolding drain_def
    by (auto simp: split_beta intro: shrunk_trans [OF _ quiet_shrunk [OF fold_quiet]])
  have none: "leases ?d = []"
    using fold_quiet [of "(snd (drain_leases w))"] by (simp add: drain_def split_beta quiet_def drain_leases_def)
  have close: "quiet v (close_client v)" for v by (simp add: close_client_def)
  have "pool_ok c ?d bs ws" by (rule shrunk_ok [OF ok d])
  moreover have "pool_ok c (v\<lparr>client := b\<rparr>) bs ws" if "pool_ok c v bs ws" "leases v = []" for v b
    using that by (simp add: pool_ok_def leases_ok_def counts_ok_def queue_ok_def obj_def)
  moreover have "pool_ok c (v\<lparr>build_client := b\<rparr>) bs ws" if "pool_ok c v bs ws" for v b
    using that by (simp add: pool_ok_def leases_ok_def counts_ok_def queue_ok_def obj_def)
  moreover have "pool_ok c (close_client v) bs ws" if "pool_ok c v bs ws" for v
    using that close quiet_shrunk shrunk_ok by blast
  moreover have "leases (close_client v) = leases v" for v using close [of v] by (simp add: quiet_def)
  ultimately show ?thesis using none by (simp add: shutdown_def Let_def)
qed

lemma pool_step_ok:
  assumes "pool_step c s s'" and "case s of (w, bs, ws) \<Rightarrow> pool_ok c w bs ws"
  shows "case s' of (w, bs, ws) \<Rightarrow> pool_ok c w bs ws"
  using assms
proof cases
  case (Acquired mroot sid w i w' bs ws)
  then show ?thesis using assms(2) acquire_ok [of c w bs ws mroot sid] by (simp add: admission_ok_def grant_ok_def)
next
  case (Waits mroot sid w t w' bs ws)
  then show ?thesis using assms(2) acquire_ok [of c w bs ws mroot sid] by (simp add: admission_ok_def)
next
  case (Refused mroot sid w e w' bs ws)
  then show ?thesis using assms(2) acquire_ok [of c w bs ws mroot sid] by (simp add: admission_ok_def grant_ok_def)
next
  case (Served t key ws w i w' bs)
  then show ?thesis using assms(2) serve_ok [of c w bs ws t key] by (simp add: grant_ok_def)
next
  case (Serve_failed t key ws w e w' bs)
  then show ?thesis using assms(2) serve_ok [of c w bs ws t key] by (simp add: grant_ok_def)
next
  case (Shared t key ws w i w' bs)
  then show ?thesis using assms(2) wait_over_ok [of c w bs ws t key] by (simp add: grant_ok_def)
next
  case (Gave_up t key ws w e w' bs)
  then show ?thesis using assms(2) wait_over_ok [of c w bs ws t key] by (simp add: grant_ok_def)
next
  case (Elsewhere w w' bs ws)
  then show ?thesis using assms(2) quiet_shrunk shrunk_ok by fastforce
qed (use assms(2) in \<open>simp_all add: left_queue_ok release_ok due_swap run_due_ok shutdown_ok\<close>)

lemma fresh_cage_ok: "pool_ok c (fresh_cage d) [] []"
  by (simp add: fresh_cage_def pool_ok_def leases_ok_def counts_ok_def queue_ok_def)

lemma pool_reachable_ok: "pool_reachable c (w, bs, ws) \<Longrightarrow> pool_ok c w bs ws"
proof -
  have "case s of (w, bs, ws) \<Rightarrow> pool_ok c w bs ws" if "pool_reachable c s" for s
    using that by induction (simp_all add: fresh_cage_ok pool_step_ok)
  then show "pool_reachable c (w, bs, ws) \<Longrightarrow> pool_ok c w bs ws" by fastforce
qed


subsection \<open>What holds of every reachable pool\<close>

text \<open>
  C13. In every reachable state the pool holds at most \<open>max_containers\<close> leases under distinct keys,
  at most \<open>max_queued\<close> callers wait, in the order of their tickets, and the count of each lease,
  listed or not, is the number of callers that hold it together with the releases that are due:
  no path, whether an error, a time limit, a cancelled wait or a failed start, loses a lease or gives it back twice.
\<close>

theorem pool_counts_borrowers:
  assumes "pool_reachable c (w, bs, ws)"
  shows "length (leases w) \<le> max_containers c \<and> distinct (dkeys (leases w)) \<and>
    length (queue w) \<le> max_queued c \<and> sorted_wrt (<) (queue w) \<and> set (queue w) = set (map fst ws) \<and>
    map refcount (objs w) = map (\<lambda>i. count_list bs i + count_list (releases_due w) i) [0..<length (objs w)]"
proof -
  have "pool_ok c w bs ws" by (rule pool_reachable_ok [OF assms])
  moreover from this have "map refcount (objs w) ! i = map (\<lambda>i. count_list bs i + count_list (releases_due w) i) [0..<length (objs w)] ! i"
    if "i < length (objs w)" for i
    using that by (simp add: pool_ok_def counts_ok_def obj_def)
  then have "map refcount (objs w) = map (\<lambda>i. count_list bs i + count_list (releases_due w) i) [0..<length (objs w)]"
    by (intro nth_equalityI) simp_all
  ultimately show ?thesis by (auto simp: pool_ok_def leases_ok_def queue_ok_def)
qed

definition sample_config :: cage_config where
  "sample_config = \<lparr>max_containers = 2, max_queued = 2, idle_ttl = 9, host_workspace = ''/h'', resolver = None,
     sha1_hex = id, owner_port = [], mem_limit = ''2g'', process_cwd = ''/''\<rparr>"

definition sample_daemon :: "docker_op \<Rightarrow> nat \<Rightarrow> answer" where
  "sample_daemon operation n =
     \<lparr>verdict = Returned, took = 1,
      found = (case operation of Containers_get _ \<Rightarrow> (if n = 12 then Some 9 else None) | _ \<Rightarrow> Some n),
      container_status = ''running'', xcode = Some 0, xoutput = No_output\<rparr>"

definition sample_start :: cage where "sample_start = fresh_cage sample_daemon"

definition sample_one :: cage where "sample_one = snd (acquire sample_config ''/p'' (Some ''s'') sample_start)"

lemma sample_acquired: "acquire sample_config ''/p'' (Some ''s'') sample_start = (Inr (Leased 0), sample_one)"
proof -
  have "fst (acquire sample_config ''/p'' (Some ''s'') sample_start) = Inr (Leased 0)" by code_simp
  then show ?thesis by (simp add: sample_one_def prod_eq_iff)
qed

lemma sample_reachable: "pool_reachable sample_config (sample_one, [0], [])"
  by (rule pool_reachable.Stepped [OF pool_reachable.Started [of _ sample_daemon]])
    (auto simp: sample_start_def [symmetric] intro: pool_step.Acquired sample_acquired)

theorem pool_counts_borrowers_witness: "map refcount (objs sample_one) = [1]"
proof -
  have "length (objs sample_one) = 1" "releases_due sample_one = []" by code_simp+
  then show ?thesis using pool_counts_borrowers [OF sample_reachable] by simp
qed

definition granted_at :: "string \<Rightarrow> (sandbox_error + nat) \<times> cage \<Rightarrow> bool" where
  "granted_at m out \<longleftrightarrow> (case out of (Inr i, w') \<Rightarrow> mount_root (obj w' i) = m | (Inl _, _) \<Rightarrow> True)"

definition admitted_at :: "string \<Rightarrow> (sandbox_error + pool_admission) \<times> cage \<Rightarrow> bool" where
  "admitted_at m out \<longleftrightarrow> (case out of (Inr (Leased i), w') \<Rightarrow> mount_root (obj w' i) = m | _ \<Rightarrow> True)"

text \<open>
  Whatever way the pool answers (a lease held already, a new container, room made by an eviction, a
  turn in the queue, a shared lease once the pool is exhausted), the lease it gives is mounted
  at the absolute form of the root that was asked for: no command ever runs in a container of
  another project.
\<close>

lemma grants_are_same_root:
  assumes "pool_reachable c (w, bs, ws)"
  shows "admitted_at (abspath c mroot) (acquire c mroot sid w) \<and>
    list_all (\<lambda>(t, key). granted_at (fst key) (serve_waiter c t key w) \<and> granted_at (fst key) (wait_over t key w)) ws"
proof -
  have ok: "pool_ok c w bs ws" by (rule pool_reachable_ok [OF assms])
  have "granted_at (fst key) (serve_waiter c t key w) \<and> granted_at (fst key) (wait_over t key w)"
    if "(t, key) \<in> set ws" for t key
    using serve_ok [OF ok that] wait_over_ok [OF ok that]
    by (auto simp: grant_ok_def granted_at_def split: prod.splits sum.splits)
  then have "list_all (\<lambda>(t, key). granted_at (fst key) (serve_waiter c t key w) \<and> granted_at (fst key) (wait_over t key w)) ws"
    unfolding list_all_iff by blast
  moreover have "admitted_at (abspath c mroot) (acquire c mroot sid w)"
    using acquire_ok [OF ok, of mroot sid]
    by (auto simp: admission_ok_def admitted_at_def grant_ok_def lease_key_of_def split: prod.splits sum.splits pool_admission.splits)
  ultimately show ?thesis by blast
qed

subsection \<open>Reclaiming\<close>

lemma docker_call_ops:
  "dispatched (snd (docker_call operation w)) = dispatched w \<or>
   dispatched (snd (docker_call operation w)) = dispatched w @ [operation]"
  by (simp add: docker_call_def breaker_success_def breaker_failure_def Let_def split: docker_verdict.splits)

text \<open>The operations that a step has dispatched, when they all satisfy a predicate.\<close>

definition adds_only :: "(docker_op \<Rightarrow> bool) \<Rightarrow> cage \<Rightarrow> cage \<Rightarrow> bool" where
  "adds_only P w w' \<longleftrightarrow> (\<exists>ops. dispatched w' = dispatched w @ ops \<and> list_all P ops)"

lemma adds_only_same: "dispatched w' = dispatched w \<Longrightarrow> adds_only P w w'"
  by (simp add: adds_only_def)

lemma adds_only_trans: "adds_only P w w1 \<Longrightarrow> adds_only P w1 w2 \<Longrightarrow> adds_only P w w2"
  by (auto simp: adds_only_def)

lemma adds_only_call: "P operation \<Longrightarrow> adds_only P w (snd (docker_call operation w))"
  using docker_call_ops [of operation w] by (auto simp: adds_only_def)

lemma adds_only_drop:
  assumes "P (Stop (container (obj w (snd kv))))" and "P (Remove (container (obj w (snd kv))))"
  shows "adds_only P w (drop_lease r kv w)"
proof -
  let ?w = "forget (fst kv) w"
  have f: "adds_only P w ?w" by (rule adds_only_same) (simp add: forget_def)
  have s: "adds_only P ?w (snd (docker_call (Stop (container (obj w (snd kv)))) ?w))" (is "adds_only P _ ?s")
    by (rule adds_only_call) (rule assms)
  have "adds_only P ?s (snd (docker_call (Remove (container (obj w (snd kv)))) ?s))" (is "adds_only P _ ?r")
    by (rule adds_only_call) (rule assms)
  then have "adds_only P w ?r" using f s adds_only_trans by blast
  then show ?thesis by (simp add: drop_lease_def teardown_container_def emit_lifecycle_def adds_only_def)
qed

text \<open>The containers of leases that no caller holds.\<close>

definition reclaims_idle :: "cage \<Rightarrow> nat list \<Rightarrow> docker_op \<Rightarrow> bool" where
  "reclaims_idle w bs operation \<longleftrightarrow>
     list_ex (\<lambda>kv. snd kv \<notin> set bs \<and> (operation = Stop (container (obj w (snd kv))) \<or> operation = Remove (container (obj w (snd kv)))))
       (leases w)"

lemma idle_not_held:
  "pool_ok c w bs ws \<Longrightarrow> kv \<in> set (leases w) \<Longrightarrow> idle_lease w kv \<Longrightarrow> snd kv \<notin> set bs"
  by (auto simp: pool_ok_def leases_ok_def counts_ok_def idle_lease_def count_list_0_iff)

lemma drop_idle:
  assumes ok: "pool_ok c w bs ws" and kv: "kv \<in> set (leases w)" "idle_lease w kv"
    and w1: "leases w1 = filter Q (leases w)" "objs w1 = objs w"
  shows "adds_only (reclaims_idle w bs) w1 (drop_lease r kv w1)"
    and "filter (\<lambda>x. snd x \<in> set bs) (leases (drop_lease r kv w1)) = filter (\<lambda>x. snd x \<in> set bs) (leases w1)"
proof -
  have free: "snd kv \<notin> set bs" by (rule idle_not_held [OF ok kv])
  have o: "obj w1 = obj w" by (simp add: fun_eq_iff obj_def w1)
  show "adds_only (reclaims_idle w bs) w1 (drop_lease r kv w1)"
    by (rule adds_only_drop; unfold o reclaims_idle_def list_ex_iff) (use kv free in blast)+
  have "inj_on fst (set (leases w))" using ok by (simp add: pool_ok_def leases_ok_def distinct_map)
  then have "x = kv" if "x \<in> set (leases w)" "fst x = fst kv" for x
    using kv(1) that by (blast dest: inj_onD)
  then show "filter (\<lambda>x. snd x \<in> set bs) (leases (drop_lease r kv w1)) = filter (\<lambda>x. snd x \<in> set bs) (leases w1)"
    using free by (auto simp: w1 intro!: filter_cong)
qed

text \<open>
  Reclaiming spares the callers: when the pool evicts a lease or reaps the expired ones, every
  lease that a caller holds stays listed, in its place, and the daemon is asked to stop and remove
  only containers of leases that nobody holds.
\<close>

theorem reclaim_spares_borrowers:
  assumes "pool_reachable c (w, bs, ws)" and "w' = reap_expired_idle c w \<or> w' = snd (evict_one_idle w)"
  shows "filter (\<lambda>kv. snd kv \<in> set bs) (leases w') = filter (\<lambda>kv. snd kv \<in> set bs) (leases w) \<and>
    (\<exists>ops. dispatched w' = dispatched w @ ops \<and> list_all (reclaims_idle w bs) ops)"
proof -
  have ok: "pool_ok c w bs ws" by (rule pool_reachable_ok [OF assms(1)])
  let ?keep = "\<lambda>v. filter (\<lambda>kv. snd kv \<in> set bs) (leases v)"
  have reap: "adds_only (reclaims_idle w bs) v (fold (drop_lease r) kvs v) \<and> ?keep (fold (drop_lease r) kvs v) = ?keep v"
    if "\<forall>kv\<in>set kvs. kv \<in> set (leases w) \<and> idle_lease w kv" "leases v = filter Q (leases w)" "objs v = objs w" for kvs v r Q
    using that
  proof (induction kvs arbitrary: v Q)
    case Nil
    then show ?case by (simp add: adds_only_same)
  next
    case (Cons kv kvs)
    let ?v = "drop_lease r kv v"
    have step: "adds_only (reclaims_idle w bs) v ?v" "?keep ?v = ?keep v"
      by (rule drop_idle [OF ok]; use Cons.prems in simp)+
    have "leases ?v = filter (\<lambda>x. Q x \<and> fst x \<noteq> fst kv) (leases w)" using Cons.prems by simp
    from Cons.IH [OF _ this] Cons.prems step show ?case using adds_only_trans by fastforce
  qed
  have all: "leases w = filter (\<lambda>_. True) (leases w)" by simp
  have r: "adds_only (reclaims_idle w bs) w (reap_expired_idle c w) \<and> ?keep (reap_expired_idle c w) = ?keep w"
    unfolding reap_expired_idle_def by (rule reap [OF _ all]) (auto simp: expired_lease_def)
  have e: "adds_only (reclaims_idle w bs) w (snd (evict_one_idle w)) \<and> ?keep (snd (evict_one_idle w)) = ?keep w"
  proof (cases "filter (idle_lease w) (leases w) = []")
    case True
    then show ?thesis by (simp add: evict_one_idle_def adds_only_same)
  next
    case False
    have "oldest w (filter (idle_lease w) (leases w)) \<in> set (filter (idle_lease w) (leases w))" by (rule oldest_in [OF False])
    then show ?thesis
      using False drop_idle [OF ok _ _ all refl] by (simp add: evict_one_idle_def)
  qed
  show ?thesis using assms(2) r e unfolding adds_only_def by blast
qed

theorem reclaim_spares_borrowers_witness:
  "filter (\<lambda>kv. snd kv \<in> set [0]) (leases (reap_expired_idle sample_config sample_one)) =
   filter (\<lambda>kv. snd kv \<in> set [0]) (leases sample_one)"
  using reclaim_spares_borrowers [OF sample_reachable] by blast

subsection \<open>Sessions and leases\<close>

text \<open>The pool steps of one open: the daemon is called, and a failed start schedules the release.\<close>

lemma reachable_quiet: "pool_reachable c (w, bs, ws) \<Longrightarrow> quiet w w' \<Longrightarrow> pool_reachable c (w', bs, ws)"
  by (rule pool_reachable.Stepped) (auto intro: pool_step.Elsewhere)

lemma reachable_scheduled:
  "pool_reachable c (w, i # bs, ws) \<Longrightarrow> pool_reachable c (release_later i w, bs, ws)"
  using pool_reachable.Stepped [OF _ pool_step.Scheduled [of i "i # bs" c w ws]] by simp

lemma reachable_acquired:
  "pool_reachable c (w, bs, ws) \<Longrightarrow> acquire c mroot sid w = (Inr (Leased i), w')
    \<Longrightarrow> pool_reachable c (w', i # bs, ws) \<and> client w'"
proof
  assume r: "pool_reachable c (w, bs, ws)" and a: "acquire c mroot sid w = (Inr (Leased i), w')"
  show "pool_reachable c (w', i # bs, ws)" by (rule pool_reachable.Stepped [OF r pool_step.Acquired [OF a]])
  show "client w'" using acquire_ok [OF pool_reachable_ok [OF r], of mroot sid] by (simp add: a admission_ok_def grant_ok_def)
qed

text \<open>
  C17. Opening an interactive session never strands a lease: from a lease that was just granted, either
  the session stands and holds exactly that lease, or the open fails and the release of the lease
  is scheduled; the client it needs is always there, so no error comes between. However often
  the session is then closed, its lease is given back once.
\<close>

theorem open_session_strands_no_lease:
  assumes "pool_reachable c (w, bs, ws)" and "acquire c mroot sid w = (Inr (Leased i), w1)"
    and "open_granted c cwd env starts (Inr i) w1 = (r, w2)"
  shows "case r of
      Inr b \<Rightarrow> b = fresh_pty i \<and> pool_reachable c (w2, i # bs, ws) \<and>
        (case pty_close b w2 of (b', w3) \<Rightarrow>
           w3 = release_later i w2 \<and> pool_reachable c (w3, bs, ws) \<and> snd (terminate_tree b' w3) = w3)
    | Inl e \<Rightarrow> e \<noteq> Session_raised Daemon_timeout \<and> pool_reachable c (w2, bs, ws) \<and> last (releases_due w2) = i"
proof -
  have r1: "pool_reachable c (w1, i # bs, ws)" and cl: "client w1"
    using reachable_acquired [OF assms(1,2)] by blast+
  let ?op = "Exec_pty (container (obj w1 i)) (translate_cwd c cwd (mount_root (obj w1 i))) env"
  obtain a v where call: "docker_call ?op w1 = (a, v)" by force
  have rv: "pool_reachable c (v, i # bs, ws)" by (rule reachable_quiet [OF r1 docker_call_quiet [OF call]])
  note sched = reachable_scheduled [OF rv]
  show ?thesis
    using assms(3) cl call rv sched
    by (auto simp: open_granted_def get_client_ready pty_close_def terminate_tree_def fresh_pty_def release_later_def
        split: sum.splits if_splits)
qed

lemma sample_opened: "fst (open_granted sample_config ''/p'' [] False (Inr 0) sample_one) = Inl Start_failed"
  by code_simp

theorem open_session_strands_no_lease_witness:
  "pool_reachable sample_config (snd (open_granted sample_config ''/p'' [] False (Inr 0) sample_one), [], [])"
proof -
  have start: "pool_reachable sample_config (sample_start, [], [])"
    unfolding sample_start_def by (rule pool_reachable.Started)
  have "open_granted sample_config ''/p'' [] False (Inr 0) sample_one =
      (Inl Start_failed, snd (open_granted sample_config ''/p'' [] False (Inr 0) sample_one))"
    using sample_opened by (simp add: prod_eq_iff)
  from open_session_strands_no_lease [OF start sample_acquired this] show ?thesis by simp
qed

text \<open>A command gives its lease back on every path, and starts at most once.\<close>

lemma run_in_lease_reachable:
  assumes "pool_reachable c (w, i # bs, ws)" and "run_in_lease c rq i w = (r, w')"
  shows "pool_reachable c (w', bs, ws)"
proof -
  obtain r1 w1 where m: "andthen (get_exec_client (rq_timeout rq + EXEC_OUTER_GRACE))
      (\<lambda>_. docker_call (Exec_run (container (obj w i)) (wrapped_command (rq_timeout rq) (rq_command rq))
          (translate_cwd c (rq_cwd rq) (mount_root (obj w i))) (rq_env rq))) w = (r1, w1)" by force
  have "quiet w w1" by (rule quiet_andthen [OF m]) (auto intro: get_exec_client_quiet docker_call_quiet)
  then have "pool_reachable c (w1, i # bs, ws)" by (rule reachable_quiet [OF assms(1)])
  then have "pool_reachable c (release i w1, bs, ws)"
    using pool_reachable.Stepped [OF _ pool_step.Released [of i "i # bs" c w1 ws]] by simp
  moreover have "w' = release i w1" using assms(2) m by (auto simp: run_in_lease_def Let_def split: sum.splits)
  ultimately show ?thesis by simp
qed

definition is_exec :: "docker_op \<Rightarrow> bool" where
  "is_exec operation = (case operation of Exec_run _ _ _ _ \<Rightarrow> True | _ \<Rightarrow> False)"

subsection \<open>An outage\<close>

lemma open_refuses: "is_open w \<Longrightarrow> docker_call operation w = (Inl Daemon_timeout, w)"
  by (simp add: docker_call_def)

text \<open>A step of the pool under an open breaker: nothing reaches the daemon, and the breaker stays open.\<close>

definition still_open :: "cage \<Rightarrow> cage \<Rightarrow> bool" where
  "still_open w w' \<longleftrightarrow> dispatched w' = dispatched w \<and> opened_at w' = opened_at w \<and> now w' = now w"

lemma still_open_open: "still_open w w' \<Longrightarrow> is_open w' = is_open w"
  by (simp add: still_open_def is_open_def split: option.split)

lemma still_open_refl [simp]: "still_open w w"
  by (simp add: still_open_def)

lemma drop_lease_open: "is_open w \<Longrightarrow> still_open w (drop_lease r kv w)"
proof -
  assume o: "is_open w"
  then have "is_open (forget k w)" for k by (simp add: is_open_def forget_def split: option.splits)
  then show ?thesis
    by (simp add: drop_lease_def teardown_container_def open_refuses emit_lifecycle_def still_open_def forget_def)
qed

lemma reap_open: "is_open w \<Longrightarrow> still_open w (reap_expired_idle c w)"
proof -
  have "still_open w (fold (drop_lease r) kvs w)" if "is_open w" for r kvs w
    using that
  proof (induction kvs arbitrary: w)
    case (Cons kv kvs)
    from drop_lease_open [OF Cons.prems] have d: "still_open w (drop_lease r kv w)" .
    with Cons still_open_open have "still_open (drop_lease r kv w) (fold (drop_lease r) kvs (drop_lease r kv w))" by blast
    with d show ?case by (simp add: still_open_def)
  qed (simp add: still_open_def)
  then show "is_open w \<Longrightarrow> still_open w (reap_expired_idle c w)" by (simp add: reap_expired_idle_def)
qed

lemma evict_open: "is_open w \<Longrightarrow> evict_one_idle w = (b, w') \<Longrightarrow> still_open w w'"
  by (auto simp: evict_one_idle_def Let_def drop_lease_open split: if_splits)

lemma create_open:
  assumes "is_open w" shows "create_locked c key mroot w = (Inl Daemon_timeout, w) \<or>
    (\<exists>w'. create_locked c key mroot w = (Inl Daemon_timeout, w') \<and> still_open w w')"
  using assms
  by (auto simp: create_locked_def create_lease_container_def andthen_def ensure_image_def get_client_def
      open_refuses still_open_def)

lemma admit_open:
  assumes "is_open w" and "admit c key w = (r, w')"
  shows "still_open w w' \<and> (case r of Inl e \<Rightarrow> e \<in> {Daemon_timeout, Pool_exhausted} | Inr a \<Rightarrow> \<exists>t. a = Queued t)"
proof -
  let ?w = "reap_expired_idle c w"
  have s: "still_open w ?w" by (rule reap_open [OF assms(1)])
  then have o: "is_open ?w" using assms(1) still_open_open by blast
  obtain b v where ev: "evict_one_idle ?w = (b, v)" by force
  have sv: "still_open ?w v" by (rule evict_open [OF o ev])
  then have ov: "is_open v" using o still_open_open by blast
  show ?thesis
    using assms(2) s sv ev create_open [OF o, of c key "fst key"] create_open [OF ov, of c key "fst key"]
    by (auto simp: admit_def Let_def leased_def andthen_def enqueue_def still_open_def split: if_splits bool.splits)
qed

lemma acquire_open:
  assumes o: "is_open w" and a: "acquire c mroot sid w = (r, w')"
  shows "still_open w w' \<and> (case r of Inl e \<Rightarrow> e \<in> {Daemon_timeout, Pool_exhausted} | Inr a \<Rightarrow> \<exists>t. a = Queued t)"
  using a admit_open [OF o]
  by (auto simp: acquire_def Let_def revalidate_def open_refuses [OF o]
      split: option.splits)

text \<open>
  C16. While the breaker is open nothing is handed to the worker pool: a command is answered with a
  failed result, or waits for its turn, whatever the state of the pool, and it raises nothing.
\<close>

theorem open_breaker_dispatches_nothing:
  assumes "is_open w"
  shows "dispatched (snd (execute_docker c rq w)) = dispatched w \<and> is_open (snd (execute_docker c rq w)) \<and>
    (case fst (execute_docker c rq w) of
       Inr (Result result) \<Rightarrow> sh_exit_code result = -1 \<and> sh_stdout result = [] \<and> hd (sh_stderr result) = CHR ''[''
     | Inr (Waiting _) \<Rightarrow> True
     | Inl _ \<Rightarrow> False)"
proof -
  obtain r w' where a: "acquire c (resolve_mount_root c (rq_session rq)) (rq_session rq) w = (r, w')" by force
  note facts = acquire_open [OF assms a]
  then have "is_open w'" using assms still_open_open by blast
  with facts show ?thesis
    by (auto simp: execute_docker_def a execute_granted_def andthen_def give_def failed_result_def still_open_def
        split: sum.splits)
qed

definition sample_outage :: cage where
  "sample_outage = (sample_one)\<lparr>opened_at := Some 8\<rparr>"

definition sample_request :: exec_request where
  "sample_request = \<lparr>rq_command = ''ls'', rq_timeout = 5, rq_cwd = ''/h'', rq_env = [], rq_session = None\<rparr>"

theorem open_breaker_dispatches_nothing_witness:
  "is_open sample_outage \<and> is_open (snd (execute_docker sample_config sample_request sample_outage))"
proof -
  have "now sample_one - 8 < 10" by code_simp
  then have "is_open sample_outage" by (simp add: is_open_def sample_outage_def BREAKER_COOLDOWN_def)
  then show ?thesis using open_breaker_dispatches_nothing by blast
qed

subsection \<open>One command\<close>

text \<open>Everything the pool does with the daemon is housekeeping.\<close>

definition housekeeping :: "cage \<Rightarrow> cage \<Rightarrow> bool" where
  "housekeeping = adds_only (\<lambda>operation. \<not> is_exec operation)"

lemma housekeeping_trans: "housekeeping w w1 \<Longrightarrow> housekeeping w1 w2 \<Longrightarrow> housekeeping w w2"
  unfolding housekeeping_def by (rule adds_only_trans)

lemma housekeeping_same [simp]: "dispatched w' = dispatched w \<Longrightarrow> housekeeping w w'"
  by (simp add: housekeeping_def adds_only_same)

lemma housekeeping_call:
  "docker_call operation w = (r, w') \<Longrightarrow> \<not> is_exec operation \<Longrightarrow> housekeeping w w'"
  unfolding housekeeping_def using adds_only_call [of "\<lambda>x. \<not> is_exec x" operation w] by simp

lemma housekeeping_andthen:
  assumes "andthen m f w = (r, w')"
    and "\<And>r w'. m w = (r, w') \<Longrightarrow> housekeeping w w'" and "\<And>x w1 r w'. f x w1 = (r, w') \<Longrightarrow> housekeeping w1 w'"
  shows "housekeeping w w'"
  using assms(1) by (cases rule: andthen_cases) (use assms(2,3) housekeeping_trans in blast)+

lemma get_client_housekeeping: "get_client w = (r, w') \<Longrightarrow> housekeeping w w'"
  by (auto simp: get_client_def split: if_splits elim!: housekeeping_andthen intro: housekeeping_call simp: is_exec_def)

lemma get_build_client_housekeeping: "get_build_client w = (r, w') \<Longrightarrow> housekeeping w w'"
  by (auto simp: get_build_client_def split: if_splits elim!: housekeeping_andthen intro: housekeeping_call simp: is_exec_def)

lemma get_exec_client_housekeeping: "get_exec_client ms w = (r, w') \<Longrightarrow> housekeeping w w'"
  by (auto simp: get_exec_client_def Let_def split: if_splits elim!: housekeeping_andthen intro: housekeeping_call simp: is_exec_def)

lemma mark_image_ready_housekeeping: "mark_image_ready w = (r, w') \<Longrightarrow> housekeeping w w'"
  by (auto simp: mark_image_ready_def)

lemma ensure_image_housekeeping: "ensure_image w = (r, w') \<Longrightarrow> housekeeping w w'"
  by (auto simp: ensure_image_def is_exec_def split: if_splits elim!: housekeeping_andthen
      dest: get_client_housekeeping housekeeping_call)
    (auto simp: is_exec_def dest: get_build_client_housekeeping mark_image_ready_housekeeping housekeeping_call)

lemma remove_stale_housekeeping: "remove_stale x w = (r, w') \<Longrightarrow> housekeeping w w'"
  by (auto simp: remove_stale_def is_exec_def split: option.splits prod.splits sum.splits sandbox_error.splits
      dest: housekeeping_call)

lemma create_locked_housekeeping: "create_locked c key mroot w = (r, w') \<Longrightarrow> housekeeping w w'"
  by (auto simp: create_locked_def create_lease_container_def store_lease_def emit_lifecycle_def is_exec_def Let_def
      elim!: housekeeping_andthen
      intro: ensure_image_housekeeping get_client_housekeeping housekeeping_call remove_stale_housekeeping)

lemma drop_lease_housekeeping: "housekeeping w (drop_lease r kv w)"
  unfolding housekeeping_def by (rule adds_only_drop) (simp_all add: is_exec_def)

lemma reap_housekeeping: "housekeeping w (reap_expired_idle c w)"
proof -
  have "housekeeping w (fold (drop_lease r) kvs w)" for r kvs w
    by (induction kvs arbitrary: w) (simp_all, metis drop_lease_housekeeping housekeeping_trans)
  then show ?thesis by (simp add: reap_expired_idle_def)
qed

lemma evict_housekeeping: "evict_one_idle w = (b, w') \<Longrightarrow> housekeeping w w'"
  by (auto simp: evict_one_idle_def Let_def drop_lease_housekeeping split: if_splits)

lemma admit_housekeeping:
  assumes "admit c key w = (r, w')" shows "housekeeping w w'"
proof -
  let ?w = "reap_expired_idle c w"
  obtain b v where ev: "evict_one_idle ?w = (b, v)" by force
  have hv: "housekeeping ?w v" by (rule evict_housekeeping [OF ev])
  have l: "leased (create_locked c key (fst key)) u = (r, w') \<Longrightarrow> housekeeping u w'" for u
    by (auto simp: leased_def give_def elim!: housekeeping_andthen intro: create_locked_housekeeping)
  have q: "enqueue c v = (r, w') \<Longrightarrow> housekeeping v w'" by (auto simp: enqueue_def split: if_splits)
  have "housekeeping ?w w'"
    using assms ev l [of ?w] housekeeping_trans [OF hv l] housekeeping_trans [OF hv q]
    by (auto simp: admit_def Let_def split: if_splits bool.splits)
  with reap_housekeeping show ?thesis by (rule housekeeping_trans)
qed

lemma acquire_housekeeping:
  assumes "acquire c mroot sid w = (r, w')" shows "housekeeping w w'"
proof (cases "dget (leases w) (lease_key_of c mroot sid)")
  case None
  then show ?thesis using assms admit_housekeeping by (simp add: acquire_def Let_def)
next
  case (Some i)
  obtain x v where rv: "revalidate (container (obj w i)) w = (x, v)" by force
  then have hv: "housekeeping w v"
    by (auto simp: revalidate_def is_exec_def split: prod.splits sum.splits sandbox_error.splits dest: housekeeping_call)
  have hf: "housekeeping v (forget k v)" for k by (simp add: forget_def)
  show ?thesis
    using assms Some rv hv housekeeping_trans [OF hv housekeeping_trans [OF hf admit_housekeeping]]
    by (auto simp: acquire_def Let_def borrow_def split: sum.splits bool.splits
        intro: housekeeping_trans [OF hv] housekeeping_same)
qed

lemma run_in_lease_ops:
  assumes "run_in_lease c rq i w = (r, w')"
  shows "\<exists>ops. dispatched w' = dispatched w @ ops \<and> (filter is_exec ops = [] \<or>
    filter is_exec ops = [Exec_run (container (obj w i)) (wrapped_command (rq_timeout rq) (rq_command rq))
       (translate_cwd c (rq_cwd rq) (mount_root (obj w i))) (rq_env rq)])"
proof -
  let ?op = "Exec_run (container (obj w i)) (wrapped_command (rq_timeout rq) (rq_command rq))
      (translate_cwd c (rq_cwd rq) (mount_root (obj w i))) (rq_env rq)"
  obtain r1 w1 where m: "andthen (get_exec_client (rq_timeout rq + EXEC_OUTER_GRACE)) (\<lambda>_. docker_call ?op) w = (r1, w1)"
    by force
  have w': "dispatched w' = dispatched w1"
    using assms m by (auto simp: run_in_lease_def Let_def release_def split: sum.splits)
  from m show ?thesis
  proof (cases rule: andthen_cases)
    case (1 e)
    then have "housekeeping w w1" by (auto dest: get_exec_client_housekeeping)
    then show ?thesis by (auto simp: w' housekeeping_def adds_only_def list_all_iff filter_empty_conv)
  next
    case (2 x v)
    then have "housekeeping w v" by (auto dest: get_exec_client_housekeeping)
    then obtain ops where "dispatched v = dispatched w @ ops" "filter is_exec ops = []"
      by (auto simp: housekeeping_def adds_only_def list_all_iff filter_empty_conv)
    moreover have "dispatched w1 = dispatched v \<or> dispatched w1 = dispatched v @ [?op]"
      using docker_call_ops [of ?op v] 2(2) by simp
    ultimately show ?thesis by (auto simp: w' is_exec_def)
  qed
qed

lemma run_in_lease_keeps:
  assumes "run_in_lease c rq i w = (r, w')" and "i < length (objs w)"
  shows "i < length (objs w') \<and> container (obj w' i) = container (obj w i) \<and> mount_root (obj w' i) = mount_root (obj w i)"
proof -
  obtain r1 w1 where m: "andthen (get_exec_client (rq_timeout rq + EXEC_OUTER_GRACE))
      (\<lambda>_. docker_call (Exec_run (container (obj w i)) (wrapped_command (rq_timeout rq) (rq_command rq))
          (translate_cwd c (rq_cwd rq) (mount_root (obj w i))) (rq_env rq))) w = (r1, w1)" by force
  have "quiet w w1" by (rule quiet_andthen [OF m]) (auto intro: get_exec_client_quiet docker_call_quiet)
  then have "objs w1 = objs w" by (simp add: quiet_def)
  moreover have "w' = release i w1" using assms(1) m by (auto simp: run_in_lease_def Let_def split: sum.splits)
  ultimately show ?thesis using assms(2) by (simp add: release_def obj_def)
qed

text \<open>
  The processes that a step starts for a request: none, or the command behind its time limit, in a
  container that mounts its own project, in the directory of that mount and with the environment
  of the request.
\<close>

definition starts_at_most :: "cage_config \<Rightarrow> exec_request \<Rightarrow> cage \<Rightarrow> cage \<Rightarrow> bool" where
  "starts_at_most c rq w w' \<longleftrightarrow>
     (\<exists>ops. dispatched w' = dispatched w @ ops \<and>
       (filter is_exec ops = [] \<or>
        (\<exists>i<length (objs w'). mount_root (obj w' i) = abspath c (resolve_mount_root c (rq_session rq)) \<and>
           filter is_exec ops = [Exec_run (container (obj w' i)) (wrapped_command (rq_timeout rq) (rq_command rq))
             (translate_cwd c (rq_cwd rq) (mount_root (obj w' i))) (rq_env rq)])))"

definition starts_nothing :: "cage \<Rightarrow> cage \<Rightarrow> bool" where
  "starts_nothing w w' \<longleftrightarrow> (\<exists>ops. dispatched w' = dispatched w @ ops \<and> filter is_exec ops = [])"

lemma housekeeping_starts_nothing: "housekeeping w w' = starts_nothing w w'"
  by (simp add: housekeeping_def adds_only_def starts_nothing_def list_all_iff filter_empty_conv)

lemma starts_after_nothing:
  "starts_nothing w v \<Longrightarrow> v = w' \<or> starts_at_most c rq v w' \<Longrightarrow> starts_at_most c rq w w'"
  by (auto simp: starts_nothing_def starts_at_most_def)

text \<open>From a granted lease of its own project, or from a refusal, a command gives back what it holds.\<close>

lemma granted_runs_once:
  assumes "execute_granted c rq granted v = (r, w')"
    and "case granted of
        Inl _ \<Rightarrow> pool_reachable c (v, bs, ws)
      | Inr i \<Rightarrow> pool_reachable c (v, i # bs, ws) \<and> mount_root (obj v i) = abspath c (resolve_mount_root c (rq_session rq))"
  shows "pool_reachable c (w', bs, ws) \<and> (v = w' \<or> starts_at_most c rq v w')"
proof (cases granted)
  case (Inl e)
  with assms show ?thesis by (cases e) (auto simp: execute_granted_def)
next
  case (Inr i)
  then have run: "run_in_lease c rq i v = (r, w')" using assms(1) by (simp add: execute_granted_def)
  moreover have mr: "mount_root (obj v i) = abspath c (resolve_mount_root c (rq_session rq))"
    and pr: "pool_reachable c (v, i # bs, ws)"
    using assms(2) Inr by simp_all
  have "i < length (objs v)" using pool_reachable_ok [OF pr] by (simp add: pool_ok_def counts_ok_def)
  note kept = run_in_lease_keeps [OF run this]
  have "starts_at_most c rq v w'"
    using run_in_lease_ops [OF run] kept mr unfolding starts_at_most_def by metis
  then show ?thesis using run_in_lease_reachable [OF pr run] by simp
qed

lemma serve_housekeeping: "serve_waiter c t key w = (r, w') \<Longrightarrow> starts_nothing w w'"
proof -
  assume serve: "serve_waiter c t key w = (r, w')"
  let ?w = "leave_queue t w"
  have l: "housekeeping w ?w" by (simp add: leave_queue_def)
  obtain b v where ev: "evict_one_idle ?w = (b, v)" by force
  have hv: "housekeeping ?w v" by (rule evict_housekeeping [OF ev])
  have sh: "share_or_raise mroot u = (r, w') \<Longrightarrow> housekeeping u w'" for mroot u
    by (auto simp: share_or_raise_def Let_def emit_lifecycle_def borrow_def split: if_splits)
  have "housekeeping ?w w'"
    using serve ev create_locked_housekeeping [of c key "fst key" ?w r w']
      housekeeping_trans [OF hv create_locked_housekeeping [of c key "fst key" v r w']] housekeeping_trans [OF hv sh]
    by (auto simp: serve_waiter_def Let_def split: if_splits bool.splits)
  with l show ?thesis unfolding housekeeping_starts_nothing [symmetric] by (rule housekeeping_trans)
qed

lemma wait_over_housekeeping: "wait_over t key w = (r, w') \<Longrightarrow> starts_nothing w w'"
  unfolding housekeeping_starts_nothing [symmetric]
  by (auto simp: wait_over_def share_or_raise_def Let_def emit_lifecycle_def borrow_def leave_queue_def split: if_splits)

lemma queued_runs_once:
  assumes "pool_reachable c (w, bs, ws)" and mem: "(t, request_key c rq) \<in> set ws"
    and wake: "ending = Turn_came \<longrightarrow> may_wake c t w" and run: "resume_queued c rq t ending w = (r, w')"
  shows "pool_reachable c (w', bs, remove1 (t, request_key c rq) ws) \<and> starts_at_most c rq w w'"
proof -
  let ?key = "request_key c rq" and ?root = "abspath c (resolve_mount_root c (rq_session rq))"
  let ?adm = "case ending of Turn_came \<Rightarrow> serve_waiter c t ?key w | Limit_passed \<Rightarrow> wait_over t ?key w"
  obtain granted v where adm: "?adm = (granted, v)" by force
  have key: "fst ?key = ?root" by (simp add: request_key_def lease_key_of_def)
  have same: "granted_at ?root (serve_waiter c t ?key w) \<and> granted_at ?root (wait_over t ?key w)"
    using grants_are_same_root [OF assms(1), of undefined undefined, THEN conjunct2, unfolded list_all_iff, THEN bspec, OF mem]
    unfolding split_conv key .
  have "case granted of
        Inl _ \<Rightarrow> pool_reachable c (v, bs, remove1 (t, ?key) ws)
      | Inr i \<Rightarrow> pool_reachable c (v, i # bs, remove1 (t, ?key) ws) \<and> mount_root (obj v i) = ?root"
    using adm same wake pool_reachable.Stepped [OF assms(1) pool_step.Served [OF mem]]
      pool_reachable.Stepped [OF assms(1) pool_step.Serve_failed [OF mem]]
      pool_reachable.Stepped [OF assms(1) pool_step.Shared [OF mem]]
      pool_reachable.Stepped [OF assms(1) pool_step.Gave_up [OF mem]]
    by (cases ending; cases granted) (simp_all add: granted_at_def)
  moreover have "execute_granted c rq granted v = (r, w')" using run adm by (simp add: resume_queued_def)
  ultimately have "pool_reachable c (w', bs, remove1 (t, ?key) ws) \<and> (v = w' \<or> starts_at_most c rq v w')"
    by (rule granted_runs_once [rotated])
  moreover have "starts_nothing w v"
    using adm by (cases ending) (auto intro: serve_housekeeping wait_over_housekeeping)
  ultimately show ?thesis using starts_after_nothing by blast
qed

lemma waiting_entriesI:
  "(\<And>t. (t, k) \<in> set ws \<Longrightarrow> Q t k) \<Longrightarrow> list_all (\<lambda>(t, key). key = k \<longrightarrow> Q t key) ws"
  by (auto simp: list_all_iff)

text \<open>
  C14. One command: executing it asks the daemon to run at most one process, which is the command behind
  its time limit, in a container that mounts its own project, in the directory of that mount and
  with the environment of the request and nothing else. A command that has to wait starts nothing before it is in the queue;
  when its turn comes or its wait ends, in whatever state the pool has reached by then, it is
  resumed under the same rule. Each time the pool is afterwards in a reachable state with the
  borrowers it had before and without the ticket, whether the command ran, failed, or was never
  started.
\<close>

theorem execute_runs_one_command:
  assumes "pool_reachable c (w, bs, ws)"
  shows "(case execute_docker c rq w of
        (Inr (Waiting t), w') \<Rightarrow> pool_reachable c (w', bs, (t, request_key c rq) # ws) \<and> starts_nothing w w'
      | (_, w') \<Rightarrow> pool_reachable c (w', bs, ws) \<and> starts_at_most c rq w w')
    \<and> list_all (\<lambda>(t, key). key = request_key c rq \<longrightarrow>
        (case resume_queued c rq t Limit_passed w of
           (_, w') \<Rightarrow> pool_reachable c (w', bs, remove1 (t, key) ws) \<and> starts_at_most c rq w w')
        \<and> (may_wake c t w \<longrightarrow> (case resume_queued c rq t Turn_came w of
           (_, w') \<Rightarrow> pool_reachable c (w', bs, remove1 (t, key) ws) \<and> starts_at_most c rq w w'))) ws"
proof -
  let ?root = "resolve_mount_root c (rq_session rq)"
  obtain a v where acq: "acquire c ?root (rq_session rq) w = (a, v)" by force
  have hv: "starts_nothing w v" using acquire_housekeeping [OF acq] by (simp add: housekeeping_starts_nothing)
  have first: "case execute_docker c rq w of
        (Inr (Waiting t), w') \<Rightarrow> pool_reachable c (w', bs, (t, request_key c rq) # ws) \<and> starts_nothing w w'
      | (_, w') \<Rightarrow> pool_reachable c (w', bs, ws) \<and> starts_at_most c rq w w'"
  proof (cases "\<exists>t. a = Inr (Queued t)")
    case True
    then obtain t where t: "a = Inr (Queued t)" by blast
    have "pool_reachable c (v, bs, (t, request_key c rq) # ws)"
      unfolding request_key_def by (rule pool_reachable.Stepped [OF assms pool_step.Waits]) (use acq t in simp)
    then show ?thesis using hv by (simp add: execute_docker_def acq t)
  next
    case False
    define granted where "granted = (case a of Inl e \<Rightarrow> Inl e | Inr (Leased i) \<Rightarrow> Inr i | Inr (Queued t) \<Rightarrow> Inl Pool_exhausted)"
    have a: "a = map_sum id Leased granted" using False by (auto simp: granted_def split: sum.split pool_admission.split)
    have g: "case granted of
        Inl _ \<Rightarrow> pool_reachable c (v, bs, ws)
      | Inr i \<Rightarrow> pool_reachable c (v, i # bs, ws) \<and> mount_root (obj v i) = abspath c ?root"
      using reachable_acquired [OF assms, of ?root "rq_session rq"] acq a
        pool_reachable.Stepped [OF assms pool_step.Refused, of ?root "rq_session rq"]
        grants_are_same_root [OF assms, of ?root "rq_session rq"]
      by (cases granted) (simp_all add: admitted_at_def)
    obtain r w' where run: "execute_granted c rq granted v = (r, w')" by force
    have d: "execute_docker c rq w = (map_sum id Result r, w')"
      using run a by (cases granted; cases r) (simp_all add: execute_docker_def acq andthen_def give_def)
    from granted_runs_once [OF run g] starts_after_nothing [OF hv] show ?thesis
      by (cases r) (simp_all add: d)
  qed
  have "(case resume_queued c rq t Limit_passed w of
           (_, w') \<Rightarrow> pool_reachable c (w', bs, remove1 (t, request_key c rq) ws) \<and> starts_at_most c rq w w')
        \<and> (may_wake c t w \<longrightarrow> (case resume_queued c rq t Turn_came w of
           (_, w') \<Rightarrow> pool_reachable c (w', bs, remove1 (t, request_key c rq) ws) \<and> starts_at_most c rq w w'))"
    if "(t, request_key c rq) \<in> set ws" for t
    using queued_runs_once [OF assms that, of Limit_passed] queued_runs_once [OF assms that, of Turn_came]
    by (auto split: prod.split)
  note resumed = this
  show ?thesis by (rule conjI [OF first], rule waiting_entriesI) (rule resumed)
qed

theorem execute_runs_one_command_witness:
  "(case execute_docker sample_config sample_request sample_one of
     (Inr (Waiting t), w') \<Rightarrow> starts_nothing sample_one w'
   | (_, w') \<Rightarrow> pool_reachable sample_config (w', [0], []) \<and> starts_at_most sample_config sample_request sample_one w')"
proof -
  obtain r w' where run: "execute_docker sample_config sample_request sample_one = (r, w')" by force
  show ?thesis
    using execute_runs_one_command [OF sample_reachable, of sample_request, THEN conjunct1] unfolding run
    by (cases r; cases "projr r") simp_all
qed

subsection \<open>Two callers of one session\<close>

text \<open>
  A caller that comes out of the queue creates a container without looking whether its key has
  one by now: of two waiting commands of one session, the second removes the container in which
  the first still runs, and the first keeps a lease that the pool no longer lists.
\<close>

definition both_queued :: cage where
  "both_queued =
     (let w1 = snd (acquire sample_config ''/p'' (Some ''t'') sample_one);
          w2 = snd (acquire sample_config ''/q'' (Some ''u'') w1)
      in snd (acquire sample_config ''/q'' (Some ''u'') w2))"

definition first_served :: cage where
  "first_served = snd (serve_waiter sample_config 0 (''/q'', ''u'') (release 0 both_queued))"

definition second_served :: cage where
  "second_served = snd (serve_waiter sample_config 1 (''/q'', ''u'') (release 1 first_served))"

lemma second_waiter_removes_container:
  "queue both_queued = [0, 1]"
  "leases first_served = [((''/p'', ''t''), 1), ((''/q'', ''u''), 2)]"
  "map container (objs first_served) = [3, 5, 9]" "map refcount (objs first_served) = [0, 1, 1]"
  "may_wake sample_config 1 (release 1 first_served)"
  "leases second_served = [((''/q'', ''u''), 3)]" "map refcount (objs second_served) = [0, 0, 1, 1]"
  "Remove_stale 9 \<in> set (dispatched second_served)"
  by code_simp+

text \<open>Under an open breaker a lease that is reclaimed is forgotten while its container runs on.\<close>

lemma reclaim_in_outage_leaks:
  "is_open w \<Longrightarrow> kv \<in> set (leases w) \<Longrightarrow>
     kv \<notin> set (leases (drop_lease r kv w)) \<and> dispatched (drop_lease r kv w) = dispatched w"
  using drop_lease_open [of w r kv] by (simp add: still_open_def)

subsection \<open>The trusted tier\<close>

definition starts_process :: "tier_event \<Rightarrow> bool" where
  "starts_process e = (case e of Spawned _ \<Rightarrow> True | Sent_to_host _ \<Rightarrow> True | _ \<Rightarrow> False)"

definition on_host :: "tier_event \<Rightarrow> bool" where
  "on_host e = (case e of Spawned _ \<Rightarrow> True | _ \<Rightarrow> False)"

lemma native_trace:
  "snd (execute_native_hitl env rq) =
     (if str_or (rq_session rq) [] = [] then []
      else if \<not> approved (operator env (str_or (rq_session rq) []) (approval_text rq)) then [Asked_operator (approval_text rq)]
      else Asked_operator (approval_text rq) # Spawned (rq_command rq) #
        (case process env rq of Over_time \<Rightarrow> [Killed, Reaped, Dead_letter (rq_command rq)] | Exited _ _ _ \<Rightarrow> []))"
  by (auto simp: execute_native_hitl_def spawn_with_timeout_def Let_def split: process_end.splits)

text \<open>Any fallback that starts at most one process makes a devcontainer adapter that does.\<close>

locale once_adapter =
  fixes run :: adapter
  assumes runs_once: "length (filter starts_process (snd (run rq))) \<le> 1"
begin

lemma devcontainer_runs_once:
  "fallback ad = Some run \<Longrightarrow> length (filter starts_process (snd (fst (execute_devcontainer injected rq ad)))) \<le> 1"
  using runs_once [of rq]
  by (auto simp: execute_devcontainer_def fallback_or_degrade_def provision_container_def exec_over_bridge_def
      starts_process_def Let_def split: option.splits provision_end.splits bool.splits host_end.splits prod.splits)

end

interpretation native_once: once_adapter "execute_native_hitl env" for env
  by unfold_locales (simp add: native_trace starts_process_def split: process_end.split)

interpretation wasm_once: once_adapter "oracle_fallback (Some (execute_wasm files))" for files
  by unfold_locales (simp add: oracle_fallback_def execute_wasm_def instantiate_and_run_def starts_process_def
      split: option.split sum.split wasm_start.split)

lemma silent_starts_once:
  "length (filter starts_process (snd (fst (execute_devcontainer injected rq
     (trusted_adapter_silent (Some (execute_wasm files))))))) \<le> 1"
  by (rule wasm_once.devcontainer_runs_once) (simp add: trusted_adapter_silent_def)

lemma trusted_starts_at_most_once:
  "length (filter starts_process (snd (fst (execute_devcontainer injected rq (trusted_adapter env))))) \<le> 1"
  by (rule native_once.devcontainer_runs_once) (simp add: trusted_adapter_def)

text \<open>
  C15. A trusted command starts at most one process, in the devcontainer or on the host and never in
  both: the fallback is used only before the command was handed over. A process on the host is
  the command of the request, started after the operator was asked about it and said yes, and
  one that runs over its time is killed and reaped.
\<close>

theorem trusted_starts_once:
  "(case execute_devcontainer injected rq (trusted_adapter env) of
     ((result, trace), ad) \<Rightarrow>
       length (filter starts_process trace) \<le> 1 \<and>
       (if list_ex on_host trace
        then approved (operator env (str_or (rq_session rq) []) (approval_text rq)) \<and> \<not> provisioned ad \<and>
          filter on_host trace = [Spawned (rq_command rq)] \<and>
          takeWhile (\<lambda>e. \<not> on_host e) trace \<noteq> [] \<and>
          last (takeWhile (\<lambda>e. \<not> on_host e) trace) = Asked_operator (approval_text rq) \<and>
          (if process env rq = Over_time then list_ex (\<lambda>e. e = Reaped) trace else True)
        else sh_exit_code result = -1 \<or> provisioned ad))"
proof -
  obtain r tr where nat: "execute_native_hitl env rq = (r, tr)" by force
  then have tr: "tr = snd (execute_native_hitl env rq)" and r: "r = fst (execute_native_hitl env rq)" by simp_all
  have refused: "sh_exit_code r = -1" if "\<not> list_ex on_host tr"
    using that by (auto simp: r tr execute_native_hitl_def spawn_with_timeout_def failed_result_def on_host_def Let_def
        split: if_splits prod.splits process_end.splits)
  have native: "length (filter starts_process tr) \<le> 1 \<and>
      (list_ex on_host tr \<longrightarrow> approved (operator env (str_or (rq_session rq) []) (approval_text rq)) \<and>
         filter on_host tr = [Spawned (rq_command rq)] \<and>
         (\<exists>post. tr = Asked_operator (approval_text rq) # Spawned (rq_command rq) # post \<and>
           (process env rq = Over_time \<longrightarrow> Reaped \<in> set post)))"
    by (auto simp: tr native_trace starts_process_def on_host_def split: if_splits process_end.splits)
  show ?thesis
    using native refused
    by (auto simp: execute_devcontainer_def trusted_adapter_def bridge_of_def fallback_or_degrade_def nat Let_def
        provision_container_def exec_over_bridge_def failed_result_def starts_process_def on_host_def list_ex_iff
        split: option.splits provision_end.splits bool.splits host_end.splits if_splits)
qed

text \<open>
  A container that was provisioned once is taken as provisioned for every later session and
  directory, and a devcontainer that goes away afterwards has no fallback.
\<close>

lemma provisioned_for_all:
  "provisioned ad \<Longrightarrow> str_or (rq_session rq) [] \<noteq> [] \<Longrightarrow> bridge_of injected ad = Some br \<Longrightarrow>
     execute_devcontainer injected rq ad = (exec_over_bridge br rq, ad)"
  by (simp add: execute_devcontainer_def provision_container_def split: prod.splits)

text \<open>A failed or late provisioning is not latched, so the next command tries again.\<close>

lemma failure_not_latched:
  "provision br sid cwd \<noteq> Ready True \<Longrightarrow> snd (snd (provision_container br sid cwd ad)) = ad"
  by (auto simp: provision_container_def split: provision_end.splits)

text \<open>A module that imports from outside the allow-list never runs.\<close>

lemma scope_guard_before_run:
  assumes "Ran_module \<in> set (snd (execute_wasm files rq))"
  shows "\<exists>m. files (rq_command rq) = Some (Inr m) \<and> set (map im_module (wf_imports m)) \<subseteq> {''wasi_snapshot_preview1''}"
  using assms
  by (auto simp: execute_wasm_def inspect_module_scope_def WASM_ALLOWED_IMPORT_MODULES_def find_None_iff
      split: option.splits sum.splits)

text \<open>A trap that is not about fuel is reported as a memory violation, whatever it was.\<close>

lemma every_trap_is_memory: "\<not> is_fuel_trap message \<Longrightarrow> sh_stderr (invoke_start m (Trapped message)) = ''[wasm_trap: memory_violation]''"
  by (simp add: invoke_start_def)

subsection \<open>The sweep\<close>

lemma sweep_all_adds:
  "adds_only (\<lambda>operation. \<exists>lc\<in>set lcs. \<not> sweep_keeps my_port alive lc \<and> operation = Sweep_remove (lc_id lc))
     w (snd (sweep_all my_port alive lcs w))"
proof (induction my_port alive lcs w rule: sweep_all.induct)
  case (2 my_port alive lc lcs w)
  let ?P = "\<lambda>xs operation. \<exists>lc\<in>set xs. \<not> sweep_keeps my_port alive lc \<and> operation = Sweep_remove (lc_id lc)"
  have weaken: "adds_only (?P lcs) u v \<Longrightarrow> adds_only (?P (lc # lcs)) u v" for u v
    by (auto simp: adds_only_def list_all_iff)
  obtain r w' where call: "docker_call (Sweep_remove (lc_id lc)) w = (r, w')" by force
  show ?case
  proof (cases "sweep_keeps my_port alive lc")
    case True
    then show ?thesis using 2 weaken by simp
  next
    case False
    have "adds_only (?P (lc # lcs)) w w'"
      using adds_only_call [of "?P (lc # lcs)" "Sweep_remove (lc_id lc)" w] False call by auto
    then show ?thesis
      using False call 2 weaken [of w'] adds_only_trans [of "?P (lc # lcs)" w w']
      by (cases r) (auto split: sandbox_error.splits)
  qed
qed (simp add: adds_only_same)

text \<open>
  The sweep removes no container of this process's port or of a live sibling; the containers of an
  earlier run on the same port stay as well.
\<close>

lemma sweep_spares_live:
  assumes "Sweep_remove cid \<in> set (drop (length (dispatched w)) (dispatched (snd (sweep_all my_port alive lcs w))))"
  shows "\<exists>lc\<in>set lcs. lc_id lc = cid \<and> \<not> sweep_keeps my_port alive lc"
  using assms sweep_all_adds [of lcs my_port alive w] by (fastforce simp: adds_only_def list_all_iff)

text \<open>An error answer to one removal, such as one that is under way already, ends the sweep with a raise.\<close>

lemma sweep_raises:
  "\<not> is_open w \<Longrightarrow> \<not> sweep_keeps my_port alive lc \<Longrightarrow>
     verdict (daemon w (Sweep_remove (lc_id lc)) (length (dispatched w))) = Api_refused \<Longrightarrow>
     fst (sweep_all my_port alive (lc # lcs) w) = Inl Api_error"
  by (simp add: docker_call_def)

end
