(* ===== verification/ModelGateway.thy ===== *)
theory ModelGateway
  imports Budget Streams Json PyText
begin

text \<open>
  The model gateway (\<open>tools/llm_gateway.py\<close>) and the resolver of its targets
  (\<open>core/config/model_resolver.py\<close>): the ladder of tiers, the windows of local models and their
  admission, the extraction of a schema object from a reply, what is learned about models, one
  completion with its rescue, the direct calls with their failover, the streams and the
  accounting. The provider, the parsers and the probes are parameters; times are rationals.
\<close>

declare map_of_eq_Some_iff [simp del] Some_eq_map_of_iff [simp del]

subsection \<open>The ladder of tiers\<close>

record model_target =
  mt_provider :: string
  mt_model :: string
  mt_api_base :: "string option"
  mt_api_key :: "string option"
  mt_local :: bool

type_synonym targets = "(string, model_target) dict"

definition TIER_ORDER :: "string list" where
  "TIER_ORDER = [''small'', ''medium'', ''big'', ''cloud'']"

definition tier_index :: "string \<Rightarrow> nat" where
  "tier_index t = length (takeWhile (\<lambda>x. x \<noteq> t) TIER_ORDER)"

definition tier_distance :: "string \<Rightarrow> string \<Rightarrow> nat" where
  "tier_distance a b = (if tier_index a \<le> tier_index b then tier_index b - tier_index a else tier_index a - tier_index b)"

text \<open>Nearest first, the more capable of two at the same distance first.\<close>

definition directional_order :: "string \<Rightarrow> string list" where
  "directional_order tier =
     (if tier \<notin> set TIER_ORDER then TIER_ORDER
      else sort_key (\<lambda>t. 2 * tier_distance tier t + (if tier_index tier < tier_index t then 0 else 1)) TIER_ORDER)"

definition tier_for_alias :: "string \<Rightarrow> string \<Rightarrow> string" where
  "tier_for_alias alias otherwise = or_else (find (\<lambda>t. alias = ''ailienant/'' @ t) TIER_ORDER) otherwise"

definition normalize_for_chat :: "model_target \<Rightarrow> model_target" where
  "normalize_for_chat tg =
     (if mt_provider tg = ''ollama'' \<and> starts_with (mt_model tg) ''ollama/''
      then tg\<lparr>mt_model := ''ollama_chat/'' @ drop 7 (mt_model tg)\<rparr> else tg)"

definition get_chat_target :: "targets \<Rightarrow> string \<Rightarrow> model_target option" where
  "get_chat_target ts tier =
     (if ts = [] then None
      else case dget ts tier of
             Some tg \<Rightarrow> Some (normalize_for_chat tg)
           | None \<Rightarrow>
               (case find (\<lambda>t. dget ts t \<noteq> None) (directional_order tier) of
                  Some t \<Rightarrow> map_option normalize_for_chat (dget ts t)
                | None \<Rightarrow> map_option normalize_for_chat (dget ts (hd (sort (dkeys ts))))))"

definition callable :: "string \<Rightarrow> model_target \<Rightarrow> bool" where
  "callable exclude_model tg \<longleftrightarrow> mt_model tg \<noteq> exclude_model \<and> (mt_local tg \<or> str_or (mt_api_key tg) [] \<noteq> [])"

definition get_failover_target :: "targets \<Rightarrow> string \<Rightarrow> string \<Rightarrow> model_target option" where
  "get_failover_target ts tier exclude_model =
     find (callable exclude_model)
       (map normalize_for_chat (List.map_filter (dget ts) (directional_order tier)))"

subsection \<open>What the runtime reports\<close>

record runtime_caps =
  rc_context :: "nat option"
  rc_thinking :: bool

definition UNKNOWN_CAPS :: runtime_caps where
  "UNKNOWN_CAPS = \<lparr>rc_context = None, rc_thinking = False\<rparr>"

record resolver_state =
  caps_cache :: "(string, runtime_caps) dict"
  num_ctx_cache :: "(string, nat) dict"

definition refresh_resolver :: "resolver_state \<Rightarrow> resolver_state" where
  "refresh_resolver st = st\<lparr>caps_cache := [], num_ctx_cache := []\<rparr>"

definition bare_ollama_name :: "string \<Rightarrow> string" where
  "bare_ollama_name m =
     (if starts_with m ''ollama_chat/'' then drop 12 m
      else if starts_with m ''ollama/'' then drop 7 m else m)"

definition positive_int :: "json \<Rightarrow> nat option" where
  "positive_int v =
     (case v of JInt i \<Rightarrow> if 0 < i then Some (nat i) else None | JBool b \<Rightarrow> if b then Some 1 else None | _ \<Rightarrow> None)"

definition object_of :: "json \<Rightarrow> (string, json) dict" where
  "object_of v = (case v of JObj kvs \<Rightarrow> kvs | _ \<Rightarrow> [])"

definition context_length_of :: "(string, json) dict \<Rightarrow> nat option" where
  "context_length_of info =
     (case find (\<lambda>(k, v). ends_with k ''.context_length'' \<and> positive_int v \<noteq> None) info of
        None \<Rightarrow> None | Some (k, v) \<Rightarrow> positive_int v)"

definition lists_thinking :: "json \<Rightarrow> bool" where
  "lists_thinking v = (case v of JArr xs \<Rightarrow> JStr ''thinking'' \<in> set xs | _ \<Rightarrow> False)"

text \<open>
  \<open>reply\<close> is the parsed answer of the probe, of the shape the service documents (\<open>model_info\<close> an
  object, \<open>capabilities\<close> a list of names; for another shape the code raises, which is not modelled);
  \<open>None\<close> is any fault of it.
\<close>

definition probe_ollama_show :: "(string, json) dict option \<Rightarrow> runtime_caps" where
  "probe_ollama_show reply =
     (case reply of
        None \<Rightarrow> UNKNOWN_CAPS
      | Some data \<Rightarrow>
          \<lparr>rc_context = context_length_of (object_of (jget data ''model_info'')),
           rc_thinking = lists_thinking (jget data ''capabilities'')\<rparr>)"

definition probe_runtime_capabilities ::
  "(string, json) dict option \<Rightarrow> model_target \<Rightarrow> resolver_state \<Rightarrow> runtime_caps \<times> resolver_state" where
  "probe_runtime_capabilities reply tg st =
     (if mt_provider tg \<noteq> ''ollama'' \<or> str_or (mt_api_base tg) [] = [] \<or> mt_model tg = [] then (UNKNOWN_CAPS, st)
      else (case dget (caps_cache st) (bare_ollama_name (mt_model tg)) of
              Some c \<Rightarrow> (c, st)
            | None \<Rightarrow>
                (let c = probe_ollama_show reply
                 in (c, st\<lparr>caps_cache := dset (bare_ollama_name (mt_model tg)) c (caps_cache st)\<rparr>))))"

definition NATIVE_THINKING_MODEL_HINTS :: "string list" where
  "NATIVE_THINKING_MODEL_HINTS =
     [''claude-3-7'', ''claude-sonnet-4'', ''claude-opus-4'', ''deepseek-r1'', ''deepseek-reasoner'', ''qwq'', ''o1'', ''o3'']"

definition name_hints_thinking :: "string \<Rightarrow> bool" where
  "name_hints_thinking m = list_ex (\<lambda>h. find_sub h (lower m) \<noteq> None) NATIVE_THINKING_MODEL_HINTS"

definition supports_native_thinking ::
  "(string, json) dict option \<Rightarrow> model_target option \<Rightarrow> resolver_state \<Rightarrow> bool \<times> resolver_state" where
  "supports_native_thinking reply target st =
     (case target of
        None \<Rightarrow> (False, st)
      | Some tg \<Rightarrow>
          (case probe_runtime_capabilities reply tg st of
             (c, st') \<Rightarrow> (if rc_context c \<noteq> None then rc_thinking c else name_hints_thinking (mt_model tg), st')))"

subsection \<open>Windows and admission\<close>

definition OLLAMA_DEFAULT_NUM_CTX :: nat where "OLLAMA_DEFAULT_NUM_CTX = 4096"
definition KV_BYTES_PER_TOKEN :: nat where "KV_BYTES_PER_TOKEN = 14500"

text \<open>Half of the free memory, in tokens; \<open>None\<close> when the hardware cannot be read.\<close>

definition ram_affordable_num_ctx :: "nat option \<Rightarrow> nat option" where
  "ram_affordable_num_ctx free_bytes =
     map_option (\<lambda>b. OLLAMA_DEFAULT_NUM_CTX + (b div 2) div KV_BYTES_PER_TOKEN) free_bytes"

definition num_ctx_ceiling :: "nat \<Rightarrow> nat option \<Rightarrow> nat \<Rightarrow> nat" where
  "num_ctx_ceiling hard_ceiling free_bytes context =
     min (min context hard_ceiling) (or_else (ram_affordable_num_ctx free_bytes) hard_ceiling)"

definition resolve_num_ctx ::
  "nat \<Rightarrow> (string, json) dict option \<Rightarrow> nat option \<Rightarrow> model_target \<Rightarrow> nat \<Rightarrow> resolver_state \<Rightarrow> nat option \<times> resolver_state" where
  "resolve_num_ctx hard_ceiling reply free_bytes tg min_required st =
     (if mt_provider tg \<noteq> ''ollama'' then (None, st)
      else (case probe_runtime_capabilities reply tg st of
              (c, st1) \<Rightarrow>
                (case rc_context c of
                   None \<Rightarrow> (None, st1)
                 | Some context \<Rightarrow>
                     if context = 0 \<or> mt_model tg = [] then (None, st1) else
                     (let bare = bare_ollama_name (mt_model tg); cached = dget (num_ctx_cache st1) bare
                      in if min_required \<le> or_else cached 0 \<and> cached \<noteq> None then (cached, st1)
                         else (let fresh = max OLLAMA_DEFAULT_NUM_CTX (min min_required (num_ctx_ceiling hard_ceiling free_bytes context));
                                   resolved = max fresh (or_else cached 0)
                               in (Some resolved, st1\<lparr>num_ctx_cache := dset bare resolved (num_ctx_cache st1)\<rparr>))))))"

text \<open>A model the runtime holds: its name, its window if it tells, and its size in bytes.\<close>

record resident_model =
  rs_name :: string
  rs_context :: "nat option"
  rs_size :: nat

definition projected_bytes :: "resident_model list option \<Rightarrow> model_target \<Rightarrow> nat \<Rightarrow> nat" where
  "projected_bytes ps tg requested =
     requested * KV_BYTES_PER_TOKEN +
     (if str_or (mt_api_base tg) [] = [] \<or> mt_model tg = [] then 0
      else (case find (\<lambda>r. rs_name r \<noteq> [] \<and> bare_ollama_name (rs_name r) = bare_ollama_name (mt_model tg)) (or_else ps []) of
              None \<Rightarrow> 0
            | Some r \<Rightarrow>
                (case rs_context r of
                   Some held \<Rightarrow> if requested \<le> held then 0 else rs_size r
                 | None \<Rightarrow> rs_size r)))"

text \<open>Whether the call is let through.\<close>

definition check_local_admission ::
  "nat \<Rightarrow> nat option \<Rightarrow> resident_model list option \<Rightarrow> model_target \<Rightarrow> nat \<Rightarrow> bool" where
  "check_local_admission floor_bytes free_bytes ps tg requested =
     (if \<not> mt_local tg then True
      else (case free_bytes of None \<Rightarrow> True | Some b \<Rightarrow> floor_bytes + projected_bytes ps tg requested \<le> b))"

subsection \<open>The schema object in a reply\<close>

definition CODE_FENCE :: string where "CODE_FENCE = [CHR 0x60, CHR 0x60, CHR 0x60]"

text \<open>The regular expression of the fences, on the stripped text.\<close>

definition sanitize_json_response :: "string \<Rightarrow> string" where
  "sanitize_json_response content =
     (let s = strip content
      in if 6 \<le> length s \<and> starts_with s CODE_FENCE \<and> ends_with s CODE_FENCE
         then (let body = drop 3 (take (length s - 3) s)
               in strip (if starts_with body ''json'' then drop 4 body else body))
         else s)"

definition char_index :: "char \<Rightarrow> string \<Rightarrow> nat option" where
  "char_index ch s = (if ch \<in> set s then Some (length (takeWhile (\<lambda>x. x \<noteq> ch) s)) else None)"

definition char_rindex :: "char \<Rightarrow> string \<Rightarrow> nat option" where
  "char_rindex ch s = map_option (\<lambda>i. length s - 1 - i) (char_index ch (rev s))"

definition bracket_span :: "string \<Rightarrow> char \<Rightarrow> char \<Rightarrow> (nat \<times> nat) option" where
  "bracket_span s opener closer =
     (case (char_index opener s, char_rindex closer s) of
        (Some a, Some b) \<Rightarrow> if a < b then Some (a, b) else None
      | _ \<Rightarrow> None)"

definition earliest_span :: "(nat \<times> nat) option \<Rightarrow> (nat \<times> nat) option \<Rightarrow> (nat \<times> nat) option" where
  "earliest_span x y =
     (case (x, y) of
        (Some (a, b), Some (c, d)) \<Rightarrow> if a \<le> c then x else y
      | (None, _) \<Rightarrow> y
      | (_, None) \<Rightarrow> x)"

text \<open>\<open>loads\<close> is the parser; a parsed null reads as unparseable in the code as well.\<close>

definition loads_or_slice :: "(string \<Rightarrow> json option) \<Rightarrow> string \<Rightarrow> json option" where
  "loads_or_slice loads s =
     (case loads s of
        Some v \<Rightarrow> Some v
      | None \<Rightarrow>
          (case earliest_span (bracket_span s (CHR ''{'') (CHR ''}'')) (bracket_span s (CHR ''['') (CHR '']'')) of
             None \<Rightarrow> None
           | Some (a, b) \<Rightarrow> loads (drop a (take (b + 1) s))))"

fun find_superset_node :: "string list \<Rightarrow> json \<Rightarrow> (string, json) dict option"
and find_superset_in :: "string list \<Rightarrow> json list \<Rightarrow> (string, json) dict option" where
  "find_superset_node required (JObj kvs) =
     (if list_all (\<lambda>k. k \<in> set (dkeys kvs)) required then Some kvs else find_superset_in required (map snd kvs))"
| "find_superset_node required (JArr xs) = find_superset_in required xs"
| "find_superset_node required _ = None"
| "find_superset_in required [] = None"
| "find_superset_in required (v # vs) =
     (case find_superset_node required v of Some d \<Rightarrow> Some d | None \<Rightarrow> find_superset_in required vs)"

fun find_node_with_any_key :: "string list \<Rightarrow> json \<Rightarrow> (string, json) dict option"
and find_any_key_in :: "string list \<Rightarrow> json list \<Rightarrow> (string, json) dict option" where
  "find_node_with_any_key ks (JObj kvs) =
     (if list_ex (\<lambda>k. k \<in> set (dkeys kvs)) ks then Some kvs else find_any_key_in ks (map snd kvs))"
| "find_node_with_any_key ks (JArr xs) = find_any_key_in ks xs"
| "find_node_with_any_key ks _ = None"
| "find_any_key_in ks [] = None"
| "find_any_key_in ks (v # vs) =
     (case find_node_with_any_key ks v of Some d \<Rightarrow> Some d | None \<Rightarrow> find_any_key_in ks vs)"

text \<open>A schema as its declared fields and the required ones among them.\<close>

definition extract_nested_schema_target ::
  "(string \<Rightarrow> json option) \<Rightarrow> string list \<Rightarrow> string list \<Rightarrow> string \<Rightarrow> (string, json) dict" where
  "extract_nested_schema_target loads declared required raw =
     (case loads_or_slice loads (sanitize_json_response raw) of
        None \<Rightarrow> []
      | Some parsed \<Rightarrow>
          if parsed = JNull then [] else
          (case find_superset_node required parsed of
             None \<Rightarrow> object_of parsed
           | Some target \<Rightarrow>
               if required = [] \<and> declared \<noteq> [] \<and> \<not> list_ex (\<lambda>k. k \<in> set (dkeys target)) declared
               then or_else (case find_node_with_any_key declared parsed of Some d \<Rightarrow> if d = [] then None else Some d | None \<Rightarrow> None) target
               else target))"

subsection \<open>Requests and replies\<close>

datatype message_content = Plain string | Blocks string "(string \<times> string) list"

type_synonym chat_message = "string \<times> message_content"

record llm_request =
  lr_model :: string
  lr_api_base :: "string option"
  lr_api_key :: "string option"
  lr_messages :: "chat_message list"
  lr_max_tokens :: nat
  lr_timeout :: rat
  lr_retries :: nat
  lr_response_format :: bool
  lr_num_ctx :: "nat option"
  lr_thinking :: "nat option"

record llm_reply =
  ly_content :: string
  ly_finish :: "string option"
  ly_usage :: "(int \<times> int) option"

text \<open>How a call to the provider ends; \<open>No_answer\<close> is silence past the time limit of the gateway.\<close>

datatype llm_outcome =
    Completed llm_reply
  | No_answer
  | Context_exceeded
  | Connection_failed string
  | Unsupported_params string
  | Failed_call string

datatype llm_error = Stalled string | Provider_error llm_outcome | No_provider | Local_exhausted | No_such_tier | Human_needed

datatype stream_event = Chunk rat "(int \<times> int) option" string string | Broken string | Aborted

record llm_state =
  provider :: "llm_request \<Rightarrow> nat \<Rightarrow> llm_outcome \<times> rat"
  stream_provider :: "llm_request \<Rightarrow> nat \<Rightarrow> llm_outcome + stream_event list"
  sent :: "llm_request list"
  resolver :: resolver_state
  rf_unsupported :: "string list"
  thinking_unsupported :: "string list"
  finish_reasons :: "(string, string) dict"
  completions :: "(string, (int \<times> rat) list) dict"
  ledger :: token_ledger
  vram_purges :: nat

record llm_config =
  cf_targets :: targets
  cf_proxy :: "string \<times> string"
  cf_small :: string
  cf_big :: string
  cf_oom_model :: string
  cf_seconds_per_token :: rat
  cf_cushion :: rat
  cf_floor :: rat
  cf_rate_margin :: rat
  cf_local_retries :: nat
  cf_hard_ceiling :: nat
  cf_floor_bytes :: nat
  cf_call_margin :: nat
  cf_estimate :: "chat_message list \<Rightarrow> string \<Rightarrow> nat option"
  cf_show :: "model_target \<Rightarrow> (string, json) dict option"
  cf_free_bytes :: "nat option"
  cf_ps :: "resident_model list option"
  cf_vision :: "string \<Rightarrow> bool"
  cf_max_images :: nat
  cf_max_image_chars :: nat

definition LLM_MAX_TRANSPORT_RETRIES :: nat where "LLM_MAX_TRANSPORT_RETRIES = 2"

subsection \<open>What is learned about models\<close>

definition FINISH_REASON_CACHE_MAX :: nat where "FINISH_REASON_CACHE_MAX = 256"

definition record_finish_reason :: "string option \<Rightarrow> string option \<Rightarrow> llm_state \<Rightarrow> llm_state" where
  "record_finish_reason session reason st =
     (let sid = str_or session []; r = str_or reason []
      in if sid = [] \<or> r = [] then st
         else st\<lparr>finish_reasons :=
                dset sid r (if FINISH_REASON_CACHE_MAX \<le> length (finish_reasons st) then [] else finish_reasons st)\<rparr>)"

definition was_truncated :: "string option \<Rightarrow> llm_state \<Rightarrow> bool" where
  "was_truncated session st \<longleftrightarrow>
     str_or session [] \<noteq> [] \<and> dget (finish_reasons st) (str_or session []) = Some ''length''"

definition MEMO_CAP :: nat where "MEMO_CAP = 128"

definition memo_add :: "string \<Rightarrow> string list \<Rightarrow> string list" where
  "memo_add m memo = (if m \<noteq> [] \<and> length memo < MEMO_CAP then List.insert m memo else memo)"

definition remember_rf_unsupported :: "string \<Rightarrow> llm_state \<Rightarrow> llm_state" where
  "remember_rf_unsupported m st = st\<lparr>rf_unsupported := memo_add m (rf_unsupported st)\<rparr>"

definition remember_thinking_unsupported :: "string \<Rightarrow> llm_state \<Rightarrow> llm_state" where
  "remember_thinking_unsupported m st = st\<lparr>thinking_unsupported := memo_add m (thinking_unsupported st)\<rparr>"

definition error_text :: "llm_outcome \<Rightarrow> string" where
  "error_text out = (case out of Connection_failed t \<Rightarrow> t | Unsupported_params t \<Rightarrow> t | Failed_call t \<Rightarrow> t | _ \<Rightarrow> [])"

definition is_response_format_error :: "llm_outcome \<Rightarrow> bool" where
  "is_response_format_error out = (find_sub ''response_format'' (lower (error_text out)) \<noteq> None)"

definition looks_like_oom :: "string \<Rightarrow> bool" where
  "looks_like_oom t = (find_sub ''cuda'' (lower t) \<noteq> None \<or> find_sub ''out of memory'' (lower t) \<noteq> None)"

definition LOCAL_RATE_WINDOW :: nat where "LOCAL_RATE_WINDOW = 10"

definition record_local_completion :: "string \<Rightarrow> int \<Rightarrow> rat \<Rightarrow> llm_state \<Rightarrow> llm_state" where
  "record_local_completion m tokens duration st =
     (if tokens \<le> 0 \<or> duration \<le> 0 then st
      else (let h = dget_default (completions st) m [] @ [(tokens, duration)]
            in st\<lparr>completions := dset m (drop (length h - LOCAL_RATE_WINDOW) h) (completions st)\<rparr>))"

definition measured_seconds_per_token :: "string \<Rightarrow> llm_state \<Rightarrow> rat option" where
  "measured_seconds_per_token m st =
     (case dget (completions st) m of
        None \<Rightarrow> None
      | Some h \<Rightarrow>
          (let total = sum_list (map fst h)
           in if length h < 2 \<or> total < 200 then None else Some (sum_list (map snd h) / of_int total)))"

definition resolve_local_timeout :: "llm_config \<Rightarrow> nat \<Rightarrow> string \<Rightarrow> llm_state \<Rightarrow> rat" where
  "resolve_local_timeout cf max_tokens m st =
     (let per_token = (case (if m = [] then None else measured_seconds_per_token m st) of
            Some r \<Rightarrow> r * cf_rate_margin cf | None \<Rightarrow> cf_seconds_per_token cf)
      in max (cf_floor cf) (of_nat max_tokens * per_token + cf_cushion cf))"

subsection \<open>One completion\<close>

definition send :: "llm_request \<Rightarrow> llm_state \<Rightarrow> (llm_outcome \<times> rat) \<times> llm_state" where
  "send rq st = (provider st rq (length (sent st)), st\<lparr>sent := sent st @ [rq]\<rparr>)"

definition OOM_KEEP_LAST :: nat where "OOM_KEEP_LAST = 6"

definition trim_for_fallback :: "chat_message list \<Rightarrow> chat_message list" where
  "trim_for_fallback ms =
     (if length ms \<le> OOM_KEEP_LAST then ms
      else (if fst (hd ms) = ''system'' then [hd ms] else []) @ drop (length ms - OOM_KEEP_LAST) ms)"

definition num_ctx_kwarg :: "llm_config \<Rightarrow> model_target \<Rightarrow> chat_message list \<Rightarrow> nat \<Rightarrow> llm_state \<Rightarrow> nat option \<times> llm_state" where
  "num_ctx_kwarg cf tg ms max_tokens st =
     (if \<not> mt_local tg then (None, st)
      else (case cf_estimate cf ms (mt_model tg) of
              None \<Rightarrow> (None, st)
            | Some prompt \<Rightarrow>
                (case resolve_num_ctx (cf_hard_ceiling cf) (cf_show cf tg) (cf_free_bytes cf) tg
                        (prompt + max_tokens + cf_call_margin cf) (resolver st) of
                   (n, rs) \<Rightarrow> (n, st\<lparr>resolver := rs\<rparr>))))"

definition window_admitted :: "llm_config \<Rightarrow> model_target \<Rightarrow> nat option \<Rightarrow> bool" where
  "window_admitted cf tg num_ctx =
     (case num_ctx of None \<Rightarrow> True | Some n \<Rightarrow> check_local_admission (cf_floor_bytes cf) (cf_free_bytes cf) (cf_ps cf) tg n)"

definition nonempty_option :: "string option \<Rightarrow> string option" where
  "nonempty_option v = (if str_or v [] = [] then None else v)"

definition target_timeout :: "llm_config \<Rightarrow> model_target \<Rightarrow> nat \<Rightarrow> rat \<Rightarrow> llm_state \<Rightarrow> rat" where
  "target_timeout cf tg max_tokens timeout st =
     (if mt_local tg then resolve_local_timeout cf max_tokens (mt_model tg) st else timeout)"

text \<open>A direct request to a resolved target.\<close>

definition byom_request ::
  "llm_config \<Rightarrow> model_target \<Rightarrow> chat_message list \<Rightarrow> nat \<Rightarrow> rat \<Rightarrow> nat option \<Rightarrow> llm_state \<Rightarrow> llm_request" where
  "byom_request cf tg ms max_tokens timeout num_ctx st =
     \<lparr>lr_model = mt_model tg, lr_api_base = nonempty_option (mt_api_base tg), lr_api_key = nonempty_option (mt_api_key tg),
      lr_messages = ms, lr_max_tokens = max_tokens, lr_timeout = target_timeout cf tg max_tokens timeout st,
      lr_retries = if mt_local tg then cf_local_retries cf else LLM_MAX_TRANSPORT_RETRIES,
      lr_response_format = False, lr_num_ctx = num_ctx, lr_thinking = None\<rparr>"

definition proxy_request :: "llm_config \<Rightarrow> string \<Rightarrow> chat_message list \<Rightarrow> nat \<Rightarrow> rat \<Rightarrow> llm_request" where
  "proxy_request cf m ms max_tokens timeout =
     \<lparr>lr_model = m, lr_api_base = Some (fst (cf_proxy cf)), lr_api_key = Some (snd (cf_proxy cf)),
      lr_messages = ms, lr_max_tokens = max_tokens, lr_timeout = timeout, lr_retries = LLM_MAX_TRANSPORT_RETRIES,
      lr_response_format = False, lr_num_ctx = None, lr_thinking = None\<rparr>"

fun last_user :: "chat_message list \<Rightarrow> nat option" where
  "last_user [] = None"
| "last_user (m # ms) = (case last_user ms of Some i \<Rightarrow> Some (Suc i) | None \<Rightarrow> if fst m = ''user'' then Some 0 else None)"

text \<open>The images as pairs of data and type; a message has a plain text before.\<close>

definition plain_text :: "message_content \<Rightarrow> string" where
  "plain_text ct = (case ct of Plain t \<Rightarrow> t | Blocks t _ \<Rightarrow> t)"

definition image_blocks :: "(string \<times> string option) list \<Rightarrow> (string \<times> string) list" where
  "image_blocks images =
     map (\<lambda>(d, mime). (if str_or mime [] = [] then ''image/png'' else str_or mime [], d)) (filter (\<lambda>img. fst img \<noteq> []) images)"

definition attach_images :: "llm_config \<Rightarrow> (string \<times> string option) list \<Rightarrow> string \<Rightarrow> chat_message list \<Rightarrow> chat_message list" where
  "attach_images cf images m ms =
     (if images = [] \<or> \<not> cf_vision cf m then ms
      else if cf_max_images cf < length images \<or> cf_max_image_chars cf < sum_list (map (length \<circ> fst) images) then ms
      else (case last_user ms of
              None \<Rightarrow> ms
            | Some i \<Rightarrow>
                ms[i := (fst (ms ! i), Blocks (plain_text (snd (ms ! i))) (image_blocks images))]))"

datatype priority = LOCAL | CLOUD | HUMAN_REQUIRED

record llm_call =
  lc_messages :: "chat_message list"
  lc_model :: string
  lc_tier :: "priority option"
  lc_response_format :: bool
  lc_max_tokens :: nat
  lc_timeout :: rat
  lc_session :: "string option"
  lc_images :: "(string \<times> string option) list"

record oom_marks =
  fallback_active :: bool
  oom_flags :: "string list"

definition effective_model :: "llm_config \<Rightarrow> llm_call \<Rightarrow> string option" where
  "effective_model cf a =
     (case lc_tier a of None \<Rightarrow> Some (lc_model a) | Some LOCAL \<Rightarrow> Some (cf_small cf) | Some CLOUD \<Rightarrow> Some (cf_big cf) | Some HUMAN_REQUIRED \<Rightarrow> None)"

definition chat_target_of :: "llm_config \<Rightarrow> string \<Rightarrow> model_target option" where
  "chat_target_of cf m =
     (if starts_with m ''ailienant/'' then get_chat_target (cf_targets cf) (tier_for_alias m ''medium'') else None)"

text \<open>The request of a call, or the refusal of the machine.\<close>

definition prepare_request :: "llm_config \<Rightarrow> llm_call \<Rightarrow> string \<Rightarrow> llm_state \<Rightarrow> (llm_error + llm_request) \<times> llm_state" where
  "prepare_request cf a m st =
     (let finishing = (\<lambda>rq. rq\<lparr>lr_messages := attach_images cf (lc_images a) (lr_model rq) (lr_messages rq),
             lr_response_format := lc_response_format a \<and> lr_model rq \<notin> set (rf_unsupported st)\<rparr>)
      in case chat_target_of cf m of
           None \<Rightarrow> (Inr (finishing (proxy_request cf m (lc_messages a) (lc_max_tokens a) (lc_timeout a))), st)
         | Some tg \<Rightarrow>
             (case num_ctx_kwarg cf tg (lc_messages a) (lc_max_tokens a) st of
                (n, st1) \<Rightarrow>
                  if window_admitted cf tg n
                  then (Inr (finishing (byom_request cf tg (lc_messages a) (lc_max_tokens a) (lc_timeout a) n st)), st1)
                  else (Inl Local_exhausted, st1)))"

definition mark_oom :: "string \<Rightarrow> oom_marks \<Rightarrow> oom_marks" where
  "mark_oom reason marks = \<lparr>fallback_active = True, oom_flags = oom_flags marks @ [''OOM_FALLBACK_ENGAGED:'' @ reason]\<rparr>"

definition add_usage :: "bool \<Rightarrow> (int \<times> int) option \<Rightarrow> llm_state \<Rightarrow> llm_state" where
  "add_usage on_cloud usage st =
     (case usage of None \<Rightarrow> st
      | Some (p, c) \<Rightarrow> st\<lparr>ledger := (if on_cloud then record_cloud p c (ledger st) else record_local p c (ledger st))\<rparr>)"

text \<open>The rescue: the same request with another model and fewer messages.\<close>

definition oom_cascade ::
  "llm_config \<Rightarrow> chat_message list \<Rightarrow> string \<Rightarrow> llm_request \<Rightarrow> oom_marks option \<Rightarrow> llm_state
    \<Rightarrow> (llm_error + llm_reply) \<times> oom_marks option \<times> llm_state" where
  "oom_cascade cf ms reason rq marks st =
     (case send (rq\<lparr>lr_model := cf_oom_model cf, lr_messages := trim_for_fallback ms\<rparr>) (st\<lparr>vram_purges := vram_purges st + 1\<rparr>) of
        ((Completed y, _), st') \<Rightarrow> (Inr y, map_option (mark_oom reason) marks, add_usage True (ly_usage y) st')
      | ((out, _), st') \<Rightarrow> (Inl (Provider_error out), map_option (mark_oom reason) marks, st'))"

definition classify_model_as_tier :: "llm_config \<Rightarrow> string \<Rightarrow> priority" where
  "classify_model_as_tier cf m = (if m = cf_big cf then CLOUD else LOCAL)"

definition spend_on_cloud :: "llm_config \<Rightarrow> llm_call \<Rightarrow> string \<Rightarrow> bool" where
  "spend_on_cloud cf a m =
     (case chat_target_of cf m of
        Some tg \<Rightarrow> \<not> mt_local tg
      | None \<Rightarrow> or_else (lc_tier a) (classify_model_as_tier cf m) = CLOUD)"

definition account :: "llm_config \<Rightarrow> llm_call \<Rightarrow> string \<Rightarrow> llm_request \<Rightarrow> llm_reply \<Rightarrow> rat \<Rightarrow> llm_state \<Rightarrow> llm_state" where
  "account cf a m rq y duration st =
     (let st1 = add_usage (spend_on_cloud cf a m) (ly_usage y) st;
          st2 = (case (ly_usage y, chat_target_of cf m) of
                   (Some (p, c), Some tg) \<Rightarrow> if mt_local tg then record_local_completion (lr_model rq) c duration st1 else st1
                 | _ \<Rightarrow> st1)
      in record_finish_reason (lc_session a) (ly_finish y) st2)"

definition ainvoke ::
  "llm_config \<Rightarrow> llm_call \<Rightarrow> oom_marks option \<Rightarrow> llm_state \<Rightarrow> (llm_error + llm_reply) \<times> oom_marks option \<times> llm_state" where
  "ainvoke cf a marks st =
     (case effective_model cf a of
        None \<Rightarrow> (Inl No_such_tier, marks, st)
      | Some m \<Rightarrow>
          (case prepare_request cf a m st of
             (Inl e, st1) \<Rightarrow> (Inl e, marks, st1)
           | (Inr rq, st1) \<Rightarrow>
               (case send rq st1 of
                  ((Completed y, d), st2) \<Rightarrow> (Inr y, marks, account cf a m rq y d st2)
                | ((No_answer, _), st2) \<Rightarrow> (Inl (Stalled (lr_model rq)), marks, st2)
                | ((Context_exceeded, _), st2) \<Rightarrow> oom_cascade cf (lc_messages a) ''context_overflow'' rq marks st2
                | ((Connection_failed t, _), st2) \<Rightarrow>
                    if looks_like_oom t then oom_cascade cf (lc_messages a) ''cuda_oom'' rq marks st2
                    else (Inl (Provider_error (Connection_failed t)), marks, st2)
                | ((out, _), st2) \<Rightarrow>
                    if lr_response_format rq \<and> is_response_format_error out
                    then (let rq' = rq\<lparr>lr_response_format := False\<rparr>
                          in case send rq' (remember_rf_unsupported (lr_model rq) st2) of
                               ((Completed y, d), st3) \<Rightarrow> (Inr y, marks, account cf a m rq' y d st3)
                             | ((out', _), st3) \<Rightarrow> (Inl (Provider_error out'), marks, st3))
                    else (Inl (Provider_error out), marks, st2))))"

definition ainvoke_by_priority ::
  "llm_config \<Rightarrow> priority \<Rightarrow> llm_call \<Rightarrow> oom_marks option \<Rightarrow> llm_state \<Rightarrow> (llm_error + llm_reply) \<times> oom_marks option \<times> llm_state" where
  "ainvoke_by_priority cf p a marks st =
     (case p of
        HUMAN_REQUIRED \<Rightarrow> (Inl Human_needed, marks, st)
      | LOCAL \<Rightarrow> ainvoke cf (a\<lparr>lc_model := cf_small cf, lc_tier := None\<rparr>) marks st
      | CLOUD \<Rightarrow> ainvoke cf (a\<lparr>lc_model := cf_big cf, lc_tier := None\<rparr>) marks st)"

subsection \<open>Direct calls\<close>

text \<open>Whether a dropped connection is worth another target.\<close>

definition failover :: "llm_config \<Rightarrow> string \<Rightarrow> model_target \<Rightarrow> llm_outcome \<Rightarrow> model_target option" where
  "failover cf tier tg out =
     (case out of
        Connection_failed t \<Rightarrow>
          if \<not> mt_local tg \<or> looks_like_oom t then None else get_failover_target (cf_targets cf) tier (mt_model tg)
      | _ \<Rightarrow> None)"

definition byom_attempt ::
  "llm_config \<Rightarrow> model_target \<Rightarrow> chat_message list \<Rightarrow> nat \<Rightarrow> rat \<Rightarrow> llm_state \<Rightarrow> llm_outcome \<times> llm_state" where
  "byom_attempt cf tg ms max_tokens timeout st =
     (case num_ctx_kwarg cf tg ms max_tokens st of
        (n, st1) \<Rightarrow>
          (case send (byom_request cf tg ms max_tokens timeout n st1) st1 of ((out, _), st2) \<Rightarrow> (out, st2)))"

definition reply_of :: "llm_outcome \<Rightarrow> llm_error + string" where
  "reply_of out = (case out of Completed y \<Rightarrow> Inr (ly_content y) | _ \<Rightarrow> Inl (Provider_error out))"

definition acomplete_byom ::
  "llm_config \<Rightarrow> chat_message list \<Rightarrow> string \<Rightarrow> nat \<Rightarrow> rat \<Rightarrow> llm_state \<Rightarrow> (llm_error + string) \<times> llm_state" where
  "acomplete_byom cf ms tier max_tokens timeout st =
     (case get_chat_target (cf_targets cf) tier of
        None \<Rightarrow> (Inl No_provider, st)
      | Some tg \<Rightarrow>
          (case byom_attempt cf tg ms max_tokens timeout st of
             (out, st1) \<Rightarrow>
               (case failover cf tier tg out of
                  None \<Rightarrow> (reply_of out, st1)
                | Some alt \<Rightarrow>
                    (case byom_attempt cf alt ms max_tokens timeout st1 of (out', st2) \<Rightarrow> (reply_of out', st2)))))"

subsection \<open>Streams\<close>

definition STREAM_IDLE_TIMEOUT :: rat where "STREAM_IDLE_TIMEOUT = 45"

datatype stream_end = Ended | Stream_stalled | Stream_broken string | Stream_aborted

text \<open>A later usage replaces an earlier one where it is not zero.\<close>

definition merge_usage :: "(int \<times> int) option \<Rightarrow> int \<times> int \<Rightarrow> int \<times> int" where
  "merge_usage usage tokens =
     (case usage of None \<Rightarrow> tokens
      | Some (p, c) \<Rightarrow> (if p = 0 then fst tokens else p, if c = 0 then snd tokens else c))"

text \<open>The deltas that are yielded, thinking before text, with how the stream ends and its usage.\<close>

definition deltas_of :: "bool \<Rightarrow> string \<Rightarrow> string \<Rightarrow> (string \<times> string) list" where
  "deltas_of thinking answer reasoning =
     (if thinking \<and> reasoning \<noteq> [] then [(''thinking'', reasoning)] else []) @
     (if answer \<noteq> [] then [(''text'', answer)] else [])"

fun run_stream :: "bool \<Rightarrow> bool \<Rightarrow> stream_event list \<Rightarrow> int \<times> int \<Rightarrow> (string \<times> string) list \<times> stream_end \<times> int \<times> int" where
  "run_stream is_local thinking [] tokens = ([], Ended, tokens)"
| "run_stream is_local thinking (Broken t # es) tokens = ([], Stream_broken t, tokens)"
| "run_stream is_local thinking (Aborted # es) tokens = ([], Stream_aborted, tokens)"
| "run_stream is_local thinking (Chunk gap usage answer reasoning # es) tokens =
     (if is_local \<and> STREAM_IDLE_TIMEOUT < gap then ([], Stream_stalled, tokens)
      else (case run_stream is_local thinking es (merge_usage usage tokens) of
              (ds, e, tokens') \<Rightarrow> (deltas_of thinking answer reasoning @ ds, e, tokens')))"

definition open_stream :: "llm_request \<Rightarrow> llm_state \<Rightarrow> (llm_outcome + stream_event list) \<times> llm_state" where
  "open_stream rq st = (stream_provider st rq (length (sent st)), st\<lparr>sent := sent st @ [rq]\<rparr>)"

definition stream_account :: "llm_config \<Rightarrow> model_target \<Rightarrow> int \<times> int \<Rightarrow> llm_state \<Rightarrow> llm_state" where
  "stream_account cf tg tokens st = add_usage (classify_model_as_tier cf (mt_model tg) = CLOUD) (Some tokens) st"

datatype stream_result = Refused_stream llm_error | Streamed "(string \<times> string) list" stream_end

definition stream_attempt ::
  "llm_config \<Rightarrow> model_target \<Rightarrow> chat_message list \<Rightarrow> nat \<Rightarrow> rat \<Rightarrow> llm_state \<Rightarrow> (llm_error + (llm_outcome + stream_event list)) \<times> llm_state" where
  "stream_attempt cf tg ms max_tokens timeout st =
     (case num_ctx_kwarg cf tg ms max_tokens st of
        (n, st1) \<Rightarrow>
          if \<not> window_admitted cf tg n then (Inl Local_exhausted, st1)
          else (case open_stream (byom_request cf tg ms max_tokens timeout n st1) st1 of (r, st2) \<Rightarrow> (Inr r, st2)))"

definition finish_stream ::
  "llm_config \<Rightarrow> model_target \<Rightarrow> llm_error + (llm_outcome + stream_event list) \<Rightarrow> llm_state \<Rightarrow> stream_result \<times> llm_state" where
  "finish_stream cf tg r st =
     (case r of
        Inl e \<Rightarrow> (Refused_stream e, stream_account cf tg (0, 0) st)
      | Inr (Inl out) \<Rightarrow> (Refused_stream (Provider_error out), stream_account cf tg (0, 0) st)
      | Inr (Inr es) \<Rightarrow>
          (case run_stream (mt_local tg) False es (0, 0) of
             (ds, e, tokens) \<Rightarrow> (Streamed ds e, stream_account cf tg tokens st)))"

definition astream_byom ::
  "llm_config \<Rightarrow> chat_message list \<Rightarrow> string \<Rightarrow> nat \<Rightarrow> rat \<Rightarrow> llm_state \<Rightarrow> stream_result \<times> llm_state" where
  "astream_byom cf ms tier max_tokens timeout st =
     (case get_chat_target (cf_targets cf) tier of
        None \<Rightarrow> (Refused_stream No_provider, st)
      | Some tg \<Rightarrow>
          (case stream_attempt cf tg ms max_tokens timeout st of
             (r, st1) \<Rightarrow>
               (case (case r of Inr (Inl out) \<Rightarrow> failover cf tier tg out | _ \<Rightarrow> None) of
                  None \<Rightarrow> finish_stream cf tg r st1
                | Some alt \<Rightarrow>
                    (case stream_attempt cf alt ms max_tokens timeout st1 of (r', st2) \<Rightarrow> finish_stream cf alt r' st2))))"

text \<open>The stream with native thinking: a rejected parameter is dropped, remembered and the call made again.\<close>

definition thinking_request ::
  "llm_config \<Rightarrow> model_target \<Rightarrow> chat_message list \<Rightarrow> nat \<Rightarrow> rat \<Rightarrow> nat \<Rightarrow> bool \<Rightarrow> bool \<Rightarrow> nat option \<Rightarrow> llm_state \<Rightarrow> llm_request" where
  "thinking_request cf tg ms max_tokens timeout thinking_budget thinking_on response_format n st =
     (byom_request cf tg ms max_tokens timeout n st)
       \<lparr>lr_thinking := if thinking_on then Some thinking_budget else None,
        lr_response_format := response_format \<and> mt_model tg \<notin> set (rf_unsupported st)\<rparr>"

definition open_thinking_stream :: "llm_request \<Rightarrow> llm_state \<Rightarrow> (llm_outcome + stream_event list) \<times> llm_state" where
  "open_thinking_stream rq st =
     (case open_stream rq st of
        (Inr es, st1) \<Rightarrow> (Inr es, st1)
      | (Inl out, st1) \<Rightarrow>
          if lr_response_format rq \<and> is_response_format_error out
          then open_stream (rq\<lparr>lr_response_format := False\<rparr>) (remember_rf_unsupported (lr_model rq) st1)
          else if lr_thinking rq \<noteq> None \<and> (case out of Unsupported_params _ \<Rightarrow> True | _ \<Rightarrow> False)
          then open_stream (rq\<lparr>lr_thinking := None\<rparr>) (remember_thinking_unsupported (lr_model rq) st1)
          else (Inl out, st1))"

definition astream_byom_thinking ::
  "llm_config \<Rightarrow> chat_message list \<Rightarrow> string \<Rightarrow> nat \<Rightarrow> rat \<Rightarrow> bool \<Rightarrow> nat \<Rightarrow> bool \<Rightarrow> llm_state \<Rightarrow> stream_result \<times> llm_state" where
  "astream_byom_thinking cf ms tier max_tokens timeout enable_thinking thinking_budget response_format st =
     (case get_chat_target (cf_targets cf) tier of
        None \<Rightarrow> (Refused_stream No_provider, st)
      | Some tg \<Rightarrow>
          (let probed = (if enable_thinking then supports_native_thinking (cf_show cf tg) (Some tg) (resolver st) else (False, resolver st));
               thinking_on = fst probed \<and> mt_model tg \<notin> set (thinking_unsupported st);
               window = (if thinking_on then max_tokens + thinking_budget else max_tokens)
           in case num_ctx_kwarg cf tg ms window (st\<lparr>resolver := snd probed\<rparr>) of
                (n, st1) \<Rightarrow>
                  if \<not> window_admitted cf tg n then (Refused_stream Local_exhausted, st1)
                  else (case open_thinking_stream
                               (thinking_request cf tg ms max_tokens timeout thinking_budget thinking_on response_format n st1) st1 of
                          (Inl out, st2) \<Rightarrow> (Refused_stream (Provider_error out), stream_account cf tg (0, 0) st2)
                        | (Inr es, st2) \<Rightarrow>
                            (case run_stream (mt_local tg) True es (0, 0) of
                               (ds, e, tokens) \<Rightarrow> (Streamed ds e, stream_account cf tg tokens st2)))))"

subsection \<open>Reasoning\<close>

definition SCAFFOLD :: string where
  "SCAFFOLD = ''Before answering, think out loud inside one <thinking>...</thinking> ''
     @ ''block. Narrate a clear first-person train of thought: what you are ''
     @ ''weighing, the trade-offs, what you need to check, and how you reach your ''
     @ ''conclusion. Write professionally but plainly. Do NOT put code, file ''
     @ ''contents, variable dumps, or the final answer inside <thinking> '' @ [CHR 0x97]
     @ '' reasoning only. After </thinking>, give your final answer.''"

definition add_scaffold :: "chat_message \<Rightarrow> chat_message" where
  "add_scaffold m = (fst m, Plain (plain_text (snd m) @ [CHR 0x0A, CHR 0x0A] @ SCAFFOLD))"

fun scaffold_first_system :: "chat_message list \<Rightarrow> chat_message list option" where
  "scaffold_first_system [] = None"
| "scaffold_first_system (m # ms) =
     (if fst m = ''system'' then Some (add_scaffold m # ms) else map_option (Cons m) (scaffold_first_system ms))"

definition inject_reasoning_scaffold :: "chat_message list \<Rightarrow> chat_message list" where
  "inject_reasoning_scaffold ms = or_else (scaffold_first_system ms) ((''system'', Plain SCAFFOLD) # ms)"

definition SIM_THINK_CAP :: nat where "SIM_THINK_CAP = 4096"

definition streams_response_format :: "model_target \<Rightarrow> bool" where
  "streams_response_format tg = (lower (mt_provider tg) = ''openai'')"

text \<open>The demultiplexer over the chunks of a scaffolded stream.\<close>

definition demux_deltas :: "string \<times> string \<Rightarrow> (string \<times> string) list" where
  "demux_deltas out = deltas_of True (snd out) (fst out)"

fun demux_events :: "(string \<times> string) list \<Rightarrow> demuxer \<Rightarrow> (string \<times> string) list \<times> demuxer" where
  "demux_events [] d = ([], d)"
| "demux_events (c # cs) d =
     (case feed (snd c) d of (out, d1) \<Rightarrow> (case demux_events cs d1 of (ds, d2) \<Rightarrow> (demux_deltas out @ ds, d2)))"

datatype reasoning_path = Native | Strict | Plain_stream | Scaffolded

definition reasoning_path_of :: "bool \<Rightarrow> bool \<Rightarrow> bool \<Rightarrow> reasoning_path" where
  "reasoning_path_of native response_format free_form_answer =
     (if native then Native else if response_format then Strict else if free_form_answer then Scaffolded else Plain_stream)"

text \<open>The answer of a structured completion: sink failures only stop the reasoning.\<close>

fun consume_deltas :: "(nat \<Rightarrow> bool) \<Rightarrow> bool \<Rightarrow> nat \<Rightarrow> (string \<times> string) list \<Rightarrow> string \<times> string list" where
  "consume_deltas sink live n [] = ([], [])"
| "consume_deltas sink live n (d # ds) =
     (if fst d = ''thinking'' then
        (if live then
           (case consume_deltas sink (sink n) (n + 1) ds of (a, shown) \<Rightarrow> (a, if sink n then snd d # shown else shown))
         else consume_deltas sink live n ds)
      else (case consume_deltas sink live n ds of (a, shown) \<Rightarrow> (snd d @ a, shown)))"

definition structured_answer :: "bool \<Rightarrow> string \<Rightarrow> string" where
  "structured_answer response_format answer = (if response_format then sanitize_json_response answer else answer)"

subsection \<open>Reachable tiers\<close>

definition HEARTBEAT_TTL :: rat where "HEARTBEAT_TTL = 60"

definition heartbeat :: "(string \<Rightarrow> bool) \<Rightarrow> rat \<Rightarrow> string \<Rightarrow> (string, bool \<times> rat) dict \<Rightarrow> bool \<times> (string, bool \<times> rat) dict" where
  "heartbeat probe t url cache =
     (case dget cache url of
        Some (alive, expiry) \<Rightarrow>
          if t < expiry then (alive, cache) else (probe url, dset url (probe url, t + HEARTBEAT_TTL) cache)
      | None \<Rightarrow> (probe url, dset url (probe url, t + HEARTBEAT_TTL) cache))"

fun any_alive :: "(string \<Rightarrow> bool) \<Rightarrow> rat \<Rightarrow> string list \<Rightarrow> (string, bool \<times> rat) dict \<Rightarrow> bool \<times> (string, bool \<times> rat) dict" where
  "any_alive probe t [] cache = (False, cache)"
| "any_alive probe t (u # us) cache =
     (case heartbeat probe t u cache of (True, c) \<Rightarrow> (True, c) | (False, c) \<Rightarrow> any_alive probe t us c)"

definition CLOUD_HEALTH_URLS :: "string list" where
  "CLOUD_HEALTH_URLS = [''https://api.openai.com'', ''https://api.anthropic.com'']"

definition get_active_tiers ::
  "(string \<Rightarrow> bool) \<Rightarrow> rat \<Rightarrow> string \<Rightarrow> bool \<Rightarrow> (string, bool \<times> rat) dict \<Rightarrow> (bool \<times> bool) \<times> (string, bool \<times> rat) dict" where
  "get_active_tiers probe t proxy_url cloud_keys cache =
     (case heartbeat probe t proxy_url cache of
        (l, c1) \<Rightarrow> if cloud_keys then (case any_alive probe t CLOUD_HEALTH_URLS c1 of (cl, c2) \<Rightarrow> ((l, cl), c2)) else ((l, False), c1))"

subsection \<open>The ladder\<close>

lemma directional_order_set: "set (directional_order tier) = set TIER_ORDER"
  by (simp add: directional_order_def)

lemma directional_order_nearest:
  "tier \<in> set TIER_ORDER \<Longrightarrow> sorted (map (tier_distance tier) (directional_order tier))"
  by (auto simp: TIER_ORDER_def directional_order_def tier_distance_def tier_index_def)

lemma find_first: "find P xs = Some x \<Longrightarrow> \<exists>ys zs. xs = ys @ x # zs \<and> P x \<and> (\<forall>y\<in>set ys. \<not> P y)"
proof (induction xs)
  case (Cons a xs)
  show ?case
  proof (cases "P a")
    case True
    then show ?thesis using Cons.prems by (intro exI [of _ "[]"] exI [of _ xs]) auto
  next
    case False
    then obtain ys zs where "xs = ys @ x # zs" "P x" "\<forall>y\<in>set ys. \<not> P y" using Cons by auto
    then show ?thesis using False by (intro exI [of _ "a # ys"] exI [of _ zs]) auto
  qed
qed simp

text \<open>A missing tier resolves to a configured one with none nearer; with any target there is an answer.\<close>

lemma chat_target_nearest:
  assumes "tier \<in> set TIER_ORDER" and "dget ts t \<noteq> None" and "t \<in> set TIER_ORDER"
  shows "\<exists>u tg. dget ts u = Some tg \<and> get_chat_target ts tier = Some (normalize_for_chat tg) \<and> tier_distance tier u \<le> tier_distance tier t"
proof (cases "dget ts tier")
  case (Some tg)
  have "ts \<noteq> []" using Some by auto
  moreover have "tier_distance tier tier = 0" by (simp add: tier_distance_def)
  ultimately show ?thesis using Some by (intro exI [of _ tier] exI [of _ tg]) (simp add: get_chat_target_def)
next
  case None
  have ne: "ts \<noteq> []" using assms(2) by auto
  let ?P = "\<lambda>t. dget ts t \<noteq> None"
  have "t \<in> set (directional_order tier)" using assms(3) by (simp add: directional_order_set)
  then have "find ?P (directional_order tier) \<noteq> None" unfolding find_None_iff using assms(2) by blast
  then obtain u where u: "find ?P (directional_order tier) = Some u" by (cases "find ?P (directional_order tier)") auto
  then obtain ys zs where split: "directional_order tier = ys @ u # zs" "?P u" "\<forall>y\<in>set ys. \<not> ?P y"
    using find_first [OF u] by blast
  have "t \<in> set (u # zs)"
    using \<open>t \<in> set (directional_order tier)\<close> assms(2) split(1,3) by auto
  then have "tier_distance tier u \<le> tier_distance tier t"
    using directional_order_nearest [OF assms(1)] by (auto simp: split(1) sorted_append)
  moreover obtain tg where "dget ts u = Some tg" using split(2) by blast
  ultimately show ?thesis using None ne u by (intro exI [of _ u] exI [of _ tg]) (simp add: get_chat_target_def)
qed

lemma no_target_iff: "get_chat_target ts tier = None \<longleftrightarrow> ts = []"
proof
  assume none: "get_chat_target ts tier = None"
  show "ts = []"
  proof (rule ccontr)
    assume ne: "ts \<noteq> []"
    have f: "dget ts u \<noteq> None" if "find (\<lambda>t. dget ts t \<noteq> None) xs = Some u" for xs u
      using find_first [OF that] by blast
    have "hd (sort (dkeys ts)) \<in> set (sort (dkeys ts))" using ne by (intro hd_in_set) (metis length_0_conv length_map length_sort)
    then have "dget ts (hd (sort (dkeys ts))) \<noteq> None" by (simp add: dget_None_iff)
    then show False using none ne f [of "directional_order tier"] by (auto simp: get_chat_target_def split: option.splits)
  qed
qed (simp add: get_chat_target_def)

lemma failover_target_callable:
  "get_failover_target ts tier m = Some tg \<Longrightarrow> callable m tg"
  unfolding get_failover_target_def by (metis find_first)

subsection \<open>The window of a local model\<close>

lemma probe_keeps_windows: "num_ctx_cache (snd (probe_runtime_capabilities reply tg st)) = num_ctx_cache st"
  by (simp add: probe_runtime_capabilities_def Let_def split: option.splits)

text \<open>
  C28. A window only grows: resolving a window never shortens the one of any model, so no sequence of calls
  reloads a model back and forth. What it returns is kept, is no less than the runtime's own
  default, and holds what the call needs whenever the model, the memory and the hard limit allow
  it.
\<close>

theorem window_only_grows:
  "(case resolve_num_ctx hard reply free tg need st of
     (r, st') \<Rightarrow>
       list_all (\<lambda>b. or_else (dget (num_ctx_cache st) b) 0 \<le> or_else (dget (num_ctx_cache st') b) 0)
         (bare_ollama_name (mt_model tg) # dkeys (num_ctx_cache st)) \<and>
       (case (r, rc_context (fst (probe_runtime_capabilities reply tg st))) of
          (Some n, Some context) \<Rightarrow>
            dget (num_ctx_cache st') (bare_ollama_name (mt_model tg)) = Some n \<and>
            min need (num_ctx_ceiling hard free context) \<le> n \<and>
            n \<le> max (max OLLAMA_DEFAULT_NUM_CTX (or_else (dget (num_ctx_cache st) (bare_ollama_name (mt_model tg))) 0))
                  (num_ctx_ceiling hard free context)
        | (Some n, None) \<Rightarrow> False
        | (None, _) \<Rightarrow> num_ctx_cache st' = num_ctx_cache st))"
proof -
  obtain cp st1 where p: "probe_runtime_capabilities reply tg st = (cp, st1)" by force
  have same: "num_ctx_cache st1 = num_ctx_cache st" using probe_keeps_windows [of reply tg st] by (simp add: p)
  show ?thesis
  proof (cases "mt_provider tg \<noteq> ''ollama'' \<or> rc_context cp = None \<or> rc_context cp = Some 0 \<or> mt_model tg = []")
    case True
    then show ?thesis using p same
      by (auto simp: resolve_num_ctx_def list_all_iff split: option.splits if_splits)
  next
    case False
    then obtain held where cx: "rc_context cp = Some held" "held \<noteq> 0" by auto
    show ?thesis
      using False p same cx
      by (auto simp: resolve_num_ctx_def Let_def list_all_iff dget_dset split: option.splits)
  qed
qed

text \<open>The default wins over a model with a smaller window, and a failed probe is kept for good.\<close>

lemma window_beyond_model:
  "fst (resolve_num_ctx 32768 (Some [(''model_info'', JObj [(''m.context_length'', JInt 2048)])]) None
     \<lparr>mt_provider = ''ollama'', mt_model = ''ollama/m'', mt_api_base = Some ''u'', mt_api_key = None, mt_local = True\<rparr>
     100 \<lparr>caps_cache = [], num_ctx_cache = []\<rparr>) = Some 4096"
  by (simp add: resolve_num_ctx_def probe_runtime_capabilities_def probe_ollama_show_def context_length_of_def
      jget_def dget_default_def object_of_def positive_int_def ends_with_def starts_with_def bare_ollama_name_def
      num_ctx_ceiling_def ram_affordable_num_ctx_def OLLAMA_DEFAULT_NUM_CTX_def or_else_def Let_def)

lemma failed_probe_kept:
  assumes "mt_provider tg = ''ollama''" "str_or (mt_api_base tg) [] \<noteq> []" "mt_model tg \<noteq> []"
    "dget (caps_cache st) (bare_ollama_name (mt_model tg)) = None"
  shows "fst (probe_runtime_capabilities (Some reply) tg (snd (probe_runtime_capabilities None tg st))) = UNKNOWN_CAPS"
  using assms by (simp add: probe_runtime_capabilities_def probe_ollama_show_def Let_def dget_dset)

subsection \<open>Finding the object\<close>

text \<open>The objects of a value, outermost and leftmost first.\<close>

fun objects :: "json \<Rightarrow> (string, json) dict list" and objects_in :: "json list \<Rightarrow> (string, json) dict list" where
  "objects (JObj kvs) = kvs # objects_in (map snd kvs)"
| "objects (JArr xs) = objects_in xs"
| "objects _ = []"
| "objects_in [] = []"
| "objects_in (v # vs) = objects v @ objects_in vs"

definition has_all :: "string list \<Rightarrow> (string, json) dict \<Rightarrow> bool" where
  "has_all required d \<longleftrightarrow> list_all (\<lambda>k. k \<in> set (dkeys d)) required"

lemma find_append: "find P (xs @ ys) = (case find P xs of Some x \<Rightarrow> Some x | None \<Rightarrow> find P ys)"
  by (induction xs) auto

lemma find_superset_objects:
  "find_superset_node required v = find (has_all required) (objects v)"
  "find_superset_in required vs = find (has_all required) (objects_in vs)"
  by (induction required v and required vs rule: find_superset_node_find_superset_in.induct)
    (auto simp: has_all_def find_append split: option.splits)


lemma char_index_append: "ch \<notin> set xs \<Longrightarrow> ys \<noteq> [] \<Longrightarrow> hd ys = ch \<Longrightarrow> char_index ch (xs @ ys) = Some (length xs)"
proof -
  assume a: "ch \<notin> set xs" "ys \<noteq> []" "hd ys = ch"
  then have "takeWhile (\<lambda>x. x \<noteq> ch) (xs @ ys) = xs @ takeWhile (\<lambda>x. x \<noteq> ch) ys" by (intro takeWhile_append2) auto
  with a show ?thesis by (cases ys) (auto simp: char_index_def)
qed

lemma char_rindex_append: "ch \<notin> set ys \<Longrightarrow> xs \<noteq> [] \<Longrightarrow> last xs = ch \<Longrightarrow> char_rindex ch (xs @ ys) = Some (length xs - 1)"
  using char_index_append [of ch "rev ys" "rev xs"] by (simp add: char_rindex_def hd_rev)

text \<open>Prose around an object is dropped, as long as it has no bracket on the side towards the object.\<close>

lemma prose_is_dropped:
  assumes "loads (pre @ obj @ post) = None" and "obj \<noteq> []" "hd obj = CHR ''{''" "last obj = CHR ''}''"
    and "CHR ''{'' \<notin> set pre" "CHR ''['' \<notin> set pre" "CHR ''}'' \<notin> set post"
  shows "loads_or_slice loads (pre @ obj @ post) = loads obj"
proof -
  have two: "1 < length obj" using assms(2-4) by (cases obj) auto
  let ?s = "pre @ obj @ post"
  have a: "char_index (CHR ''{'') ?s = Some (length pre)"
    using char_index_append [of "CHR ''{''" pre "obj @ post"] assms by simp
  have b: "char_rindex (CHR ''}'') ?s = Some (length pre + length obj - 1)"
    using char_rindex_append [of "CHR ''}''" post "pre @ obj"] assms by simp
  have c: "i \<ge> length pre" if "char_index (CHR ''['') ?s = Some i" for i
  proof -
    have "i = length (takeWhile (\<lambda>x. x \<noteq> CHR ''['') ?s)" using that by (auto simp: char_index_def split: if_splits)
    moreover have "takeWhile (\<lambda>x. x \<noteq> CHR ''['') ?s = pre @ takeWhile (\<lambda>x. x \<noteq> CHR ''['') (obj @ post)"
      using assms(6) by (intro takeWhile_append2) auto
    ultimately show ?thesis by simp
  qed
  have "earliest_span (bracket_span ?s (CHR ''{'') (CHR ''}'')) (bracket_span ?s (CHR ''['') (CHR '']'')) =
      Some (length pre, length pre + length obj - 1)"
    using a b c two by (auto simp: bracket_span_def earliest_span_def split: option.splits prod.splits)
  then show ?thesis using assms(1) two by (simp add: loads_or_slice_def)
qed

subsection \<open>How often the provider is asked\<close>

text \<open>The requests that a step adds.\<close>

definition new_requests :: "llm_state \<Rightarrow> llm_state \<Rightarrow> llm_request list" where
  "new_requests st st' = drop (length (sent st)) (sent st')"

lemma send_sent: "send rq st = (out, st') \<Longrightarrow> sent st' = sent st @ [rq] \<and> rf_unsupported st' = rf_unsupported st
    \<and> ledger st' = ledger st \<and> finish_reasons st' = finish_reasons st"
  by (auto simp: send_def)

lemma num_ctx_kwarg_sent: "num_ctx_kwarg cf tg ms n st = (r, st') \<Longrightarrow> sent st' = sent st \<and> rf_unsupported st' = rf_unsupported st
    \<and> ledger st' = ledger st \<and> finish_reasons st' = finish_reasons st"
  by (auto simp: num_ctx_kwarg_def split: if_splits option.splits prod.splits)

lemma add_usage_sent [simp]: "sent (add_usage b u st) = sent st" "finish_reasons (add_usage b u st) = finish_reasons st"
  by (simp_all add: add_usage_def split: option.splits)

lemma record_finish_reason_sent [simp]: "sent (record_finish_reason s r st) = sent st"
  by (simp add: record_finish_reason_def Let_def)

lemma record_local_completion_sent [simp]: "sent (record_local_completion m t d st) = sent st"
  by (simp add: record_local_completion_def Let_def)

lemma account_sent [simp]: "sent (account cf a m rq y d st) = sent st"
  by (simp add: account_def Let_def split: option.splits prod.splits)

lemma remember_sent [simp]: "sent (remember_rf_unsupported m st) = sent st" "sent (remember_thinking_unsupported m st) = sent st"
  by (simp_all add: remember_rf_unsupported_def remember_thinking_unsupported_def)

lemma prepare_sent:
  assumes "prepare_request cf a m st = (r, st1)"
  shows "sent st1 = sent st \<and> finish_reasons st1 = finish_reasons st \<and>
    (case r of Inr rq \<Rightarrow> lr_response_format rq = (lc_response_format a \<and> lr_model rq \<notin> set (rf_unsupported st)) | Inl e \<Rightarrow> e = Local_exhausted)"
proof (cases "chat_target_of cf m")
  case None
  then show ?thesis using assms by (auto simp: prepare_request_def Let_def)
next
  case (Some tg)
  obtain n st2 where "num_ctx_kwarg cf tg (lc_messages a) (lc_max_tokens a) st = (n, st2)" by force
  with num_ctx_kwarg_sent [OF this] Some assms show ?thesis
    by (auto simp: prepare_request_def Let_def split: if_splits)
qed

text \<open>What a second request may be: the same without the format, or the rescue.\<close>

definition rescue_of :: "llm_config \<Rightarrow> chat_message list \<Rightarrow> llm_request \<Rightarrow> llm_request" where
  "rescue_of cf ms rq = rq\<lparr>lr_model := cf_oom_model cf, lr_messages := trim_for_fallback ms\<rparr>"

definition follow_up :: "llm_config \<Rightarrow> chat_message list \<Rightarrow> llm_request list \<Rightarrow> bool" where
  "follow_up cf ms rqs \<longleftrightarrow>
     (case rqs of
        [] \<Rightarrow> True
      | [_] \<Rightarrow> True
      | [rq, rq'] \<Rightarrow> lr_response_format rq \<and> rq' = rq\<lparr>lr_response_format := False\<rparr> \<or> rq' = rescue_of cf ms rq
      | _ \<Rightarrow> False)"

lemma oom_cascade_sent:
  "oom_cascade cf ms reason rq marks st = (r, marks', st') \<Longrightarrow> sent st' = sent st @ [rescue_of cf ms rq] \<and> finish_reasons st' = finish_reasons st"
  by (auto simp: oom_cascade_def rescue_of_def send_def split: llm_outcome.splits prod.splits)

lemma follow_up_one [simp]: "follow_up cf ms []" "follow_up cf ms [rq]"
  by (simp_all add: follow_up_def)

lemma ainvoke_after_prepare:
  assumes eff: "effective_model cf a = Some m" and prep: "prepare_request cf a m st = (Inr rq, st1)"
    and run: "ainvoke cf a marks st = (r, marks', st')"
  shows "\<exists>rqs. sent st' = sent st @ rq # rqs \<and> follow_up cf (lc_messages a) (rq # rqs)"
proof -
  have s1: "sent st1 = sent st" using prepare_sent [OF prep] by simp
  obtain out d st2 where snd1: "send rq st1 = ((out, d), st2)" by (metis prod.exhaust)
  have s2: "sent st2 = sent st @ [rq]" using send_sent [OF snd1] s1 by simp
  note start = run [unfolded ainvoke_def eff prep option.case sum.case prod.case snd1]
  show ?thesis
  proof (cases "st' = st2 \<or> (\<exists>y. st' = account cf a m rq y d st2)")
    case True
    then show ?thesis using s2 by auto
  next
    case False
    then consider reason where "oom_cascade cf (lc_messages a) reason rq marks st2 = (r, marks', st')"
      | "lr_response_format rq" "sent st' = sent st2 @ [rq\<lparr>lr_response_format := False\<rparr>]"
      using start
      by (auto simp: Let_def send_def split: llm_outcome.splits if_splits prod.splits)
    then show ?thesis
    proof cases
      case 1
      then show ?thesis using oom_cascade_sent [OF 1] s2 by (auto simp: follow_up_def)
    next
      case 2
      then show ?thesis using s2 by (auto simp: follow_up_def)
    qed
  qed
qed


text \<open>
  The rescue goes to another model, but to the endpoint, with the key and in the window of the
  request that failed; and the mark of a truncated reply is the one from before.
\<close>

lemma rescue_keeps_endpoint:
  "lr_api_base (rescue_of cf ms rq) = lr_api_base rq" "lr_api_key (rescue_of cf ms rq) = lr_api_key rq"
  "lr_num_ctx (rescue_of cf ms rq) = lr_num_ctx rq" "lr_timeout (rescue_of cf ms rq) = lr_timeout rq"
  by (simp_all add: rescue_of_def)

text \<open>The memo of the models that reject the JSON mode is not read for the fallback model.\<close>

lemma rescue_ignores_memo:
  assumes "lr_response_format rq" and "cf_oom_model cf \<in> set (rf_unsupported st)"
    and "oom_cascade cf ms reason rq marks st = (r, marks', st')"
  shows "\<exists>rq'. sent st' = sent st @ [rq'] \<and> lr_model rq' \<in> set (rf_unsupported st) \<and> lr_response_format rq'"
  using oom_cascade_sent [OF assms(3)] assms(1,2) by (simp add: rescue_of_def)

lemma rescue_keeps_truncation:
  "oom_cascade cf ms reason rq marks st = (r, marks', st') \<Longrightarrow> was_truncated session st' = was_truncated session st"
  using oom_cascade_sent by (fastforce simp: was_truncated_def)

text \<open>A full memo learns nothing more, so each later call of such a model pays for two requests.\<close>

lemma full_memo_forgets: "MEMO_CAP \<le> length memo \<Longrightarrow> memo_add m memo = memo"
  by (simp add: memo_add_def List.insert_def)

lemma memo_bounded: "length memo \<le> MEMO_CAP \<Longrightarrow> length (memo_add m memo) \<le> MEMO_CAP"
  by (simp add: memo_add_def List.insert_def)

lemma trim_keeps_tail:
  "length (trim_for_fallback ms) \<le> max (length ms) 1 \<and> length (trim_for_fallback ms) \<le> OOM_KEEP_LAST + 1"
  by (auto simp: trim_for_fallback_def OOM_KEEP_LAST_def)

subsection \<open>Failover\<close>

lemma byom_attempt_sent:
  assumes "byom_attempt cf tg ms n t st = (out, st')"
  shows "\<exists>rq. sent st' = sent st @ [rq] \<and> lr_model rq = mt_model tg \<and> lr_messages rq = ms \<and> ledger st' = ledger st"
proof -
  obtain k st1 where k: "num_ctx_kwarg cf tg ms n st = (k, st1)" by force
  show ?thesis
    using assms num_ctx_kwarg_sent [OF k] by (auto simp: byom_attempt_def k send_def byom_request_def split: prod.splits)
qed

lemma failover_cases:
  assumes "failover cf tier tg out = Some alt"
  shows "callable (mt_model tg) alt \<and> mt_local tg \<and> (\<exists>t. out = Connection_failed t \<and> \<not> looks_like_oom t)"
  using assms failover_target_callable
  by (auto simp: failover_def split: llm_outcome.splits if_splits)

text \<open>
  A direct completion asks at most two models, and the second only when the first was local and its
  connection dropped for another reason than memory: then it is a different model that can be
  called, with the same messages, and whatever it answers is final.
\<close>

theorem failover_once:
  "(case acomplete_byom cf ms tier n t st of
     (r, st') \<Rightarrow>
       sent st' = sent st @ new_requests st st' \<and>
       list_all (\<lambda>rq. lr_messages rq = ms) (new_requests st st') \<and>
       (case get_chat_target (cf_targets cf) tier of
          None \<Rightarrow> r = Inl No_provider \<and> new_requests st st' = []
        | Some tg \<Rightarrow>
            (case new_requests st st' of
               [rq] \<Rightarrow> lr_model rq = mt_model tg
             | [rq, rq'] \<Rightarrow>
                 lr_model rq = mt_model tg \<and> mt_local tg \<and>
                 (\<exists>alt. callable (mt_model tg) alt \<and> lr_model rq' = mt_model alt) \<and>
                 (\<exists>text. fst (byom_attempt cf tg ms n t st) = Connection_failed text \<and> \<not> looks_like_oom text)
             | _ \<Rightarrow> False)))"
proof (cases "get_chat_target (cf_targets cf) tier")
  case None
  then show ?thesis by (simp add: acomplete_byom_def new_requests_def)
next
  case (Some tg)
  obtain out st1 where a: "byom_attempt cf tg ms n t st = (out, st1)" by force
  obtain rq where rq: "sent st1 = sent st @ [rq]" "lr_model rq = mt_model tg" "lr_messages rq = ms"
    using byom_attempt_sent [OF a] by blast
  show ?thesis
  proof (cases "failover cf tier tg out")
    case None
    then show ?thesis using Some a rq by (simp add: acomplete_byom_def new_requests_def)
  next
    case (Some alt)
    obtain out' st2 where b: "byom_attempt cf alt ms n t st1 = (out', st2)" by force
    obtain rq' where rq': "sent st2 = sent st1 @ [rq']" "lr_model rq' = mt_model alt" "lr_messages rq' = ms"
      using byom_attempt_sent [OF b] by blast
    show ?thesis
      using failover_cases [OF Some] \<open>get_chat_target (cf_targets cf) tier = Some tg\<close> Some a b rq rq'
      by (auto simp: acomplete_byom_def new_requests_def)
  qed
qed

text \<open>Direct completions are not in the ledger, and a streamed cloud target counts as local spend.\<close>

lemma acomplete_byom_unaccounted: "ledger (snd (acomplete_byom cf ms tier n t st)) = ledger st"
proof -
  have "byom_attempt cf tg ms n t u = (out, v) \<Longrightarrow> ledger v = ledger u" for tg u out v
    using byom_attempt_sent by blast
  then show ?thesis by (auto simp: acomplete_byom_def split: option.splits prod.splits)
qed

lemma streamed_cloud_is_local_spend:
  "mt_model tg \<noteq> cf_big cf \<Longrightarrow> ledger (stream_account cf tg (p, c) st) = record_local p c (ledger st)"
  by (simp add: stream_account_def add_usage_def classify_model_as_tier_def)

subsection \<open>Streams and answers\<close>

text \<open>A sink that fails stops the reasoning shown and leaves the answer as it is.\<close>

lemma answer_ignores_sink:
  "fst (consume_deltas sink live n ds) = concat (map snd (filter (\<lambda>d. fst d \<noteq> ''thinking'') ds))"
  by (induction sink live n ds rule: consume_deltas.induct) (auto split: prod.splits)

lemma run_stream_prefix:
  "run_stream l th es tokens = (ds, e, tokens') \<Longrightarrow>
     \<exists>n. ds = concat (map (\<lambda>ev. case ev of Chunk _ _ a r \<Rightarrow> deltas_of th a r | _ \<Rightarrow> []) (take n es))"
proof (induction l th es tokens arbitrary: ds e tokens' rule: run_stream.induct)
  case (4 l th gap u a r es tokens)
  show ?case
  proof (cases "l \<and> STREAM_IDLE_TIMEOUT < gap")
    case True
    then show ?thesis using 4 by (intro exI [of _ 0]) simp
  next
    case False
    obtain ds' e' t' where rest: "run_stream l th es (merge_usage u tokens) = (ds', e', t')" by (metis prod.exhaust)
    then obtain n where n: "ds' = concat (map (\<lambda>ev. case ev of Chunk _ _ a r \<Rightarrow> deltas_of th a r | _ \<Rightarrow> []) (take n es))"
      using 4(1) [OF False] by blast
    have "ds = deltas_of th a r @ ds'" using 4(2) False rest by simp
    then show ?thesis by (intro exI [of _ "Suc n"]) (simp add: n)
  qed
qed (auto intro: exI [of _ 0])

text \<open>Without response format, free prose is the only path with a scaffold.\<close>

lemma strict_never_scaffolded: "reasoning_path_of native True free \<noteq> Scaffolded \<and> (reasoning_path_of native rf free = Scaffolded \<longrightarrow> free)"
  by (simp add: reasoning_path_of_def)

lemma heartbeat_trusts_cache:
  "dget cache url = Some (b, expiry) \<Longrightarrow> t < expiry \<Longrightarrow> heartbeat probe t url cache = (b, cache)"
  by (simp add: heartbeat_def)

end
