(* ===== verification/Spec2Isabelle.thy ===== *)
theory Spec2Isabelle
  imports Gateway ToolDispatch TurnMachine ResponseCache AuditLog Streams Tournament ImportGraph
    IndexQueue CoderEdits AgenticCell UrlGuard SessionServices Sandbox ModelGateway
begin

text \<open>
  AILIENANT core: a verification library for the Python server under
  \<open>src/ailienant-core\<close>, the agent server of a coding assistant.

  \<^bold>\<open>The program.\<close> A turn of a session runs a compiled graph (\<open>brain/engine.py\<close>): a planner writes
  a mission of numbered steps, \<open>step_dispatch\<close> relays one step at a time to a coder, a self-healing
  agent repairs failures, budget gates may stop the run, the apply gate writes files or runs a
  command with the operator's consent, a guardrail retries, and the acceptance checks close the
  turn. Every action is decided by a permission engine; subagents are dispatched under
  reservations; tools run in a bounded loop; an external gateway exposes the server to other
  programs under quotas.

  \<^bold>\<open>Theories.\<close> \<open>Prelude\<close>, \<open>Json\<close>, \<open>PyText\<close>, \<open>PyPath\<close> and \<open>PyRegex\<close> hold the Python vocabulary:
  insertion-ordered dictionaries, JSON values, texts, paths, a backtracking matcher.

  \<^item> \<open>Permissions\<close> (\<open>core/permissions.py\<close>, \<open>shared/rbac.py\<close>): the matrix of session mode, tool tier
    and identity, the classification of untrusted tools, the risk interceptor. Its locale
    \<open>permission_engine\<close> carries the laws the other components use.
  \<^item> \<open>Gateway\<close> (\<open>gateway/ledger.py\<close>, \<open>governance.py\<close>, \<open>handlers.py\<close>, \<open>server.py\<close>): the persistent ledger
    with its token bucket and budget, the invocation gate and the handlers.
  \<^item> \<open>Breakers\<close> (\<open>brain/failure_breaker.py\<close>, \<open>retry_policy.py\<close>, \<open>iteration_governor.py\<close>): budgets of
    attempts; the locale \<open>failure_gate\<close> is interpreted on the signature breaker.
  \<^item> \<open>GraphState\<close>, \<open>PlanFlow\<close> (\<open>brain/state.py\<close>, \<open>agents/orchestrator.py\<close>, the turn seed of
    \<open>core/task_service.py\<close>): the channels, their reducers, the plan and its steps. A node is a
    function from the state to a list of channel writes.
  \<^item> \<open>Budget\<close> (\<open>brain/finops.py\<close>, \<open>core/supervisor.py\<close>, \<open>core/token_ledger.py\<close>, \<open>core/hitl.py\<close>): the
    budget gates and suspend-and-resume.
  \<^item> \<open>ApplyGate\<close> (\<open>brain/apply_gate.py\<close>): PREPARE and COMMIT with their effects.
  \<^item> \<open>Commands\<close> (\<open>tools/execution_tools.py\<close>, \<open>brain/checks_gate.py\<close>): the guarded shell and the checks.
  \<^item> \<open>TurnFlow\<close> (\<open>brain/engine.py\<close>, \<open>brain/guardrails.py\<close>, \<open>brain/routing_gate.py\<close>, \<open>core/dead_letter.py\<close>):
    routers, reflexion guard, guardrail. \<open>SelfHeal\<close> (\<open>agents/error_correction.py\<close>).
  \<^item> \<open>Dispatch\<close> (\<open>brain/dispatch.py\<close> and its contracts, ledger, emitter, worker and synthesis nodes).
  \<^item> \<open>ToolDispatch\<close> (\<open>core/tool_dispatch.py\<close>): the reason-call-observe loop.
  \<^item> \<open>ToolCatalog\<close> (\<open>core/tool_rag.py\<close>, \<open>deferred_tool_loader.py\<close>, \<open>tool_registry.py\<close>): registration
    and retrieval of tool schemas, what of the catalogue a turn sees, the bridge to callables.
  \<^item> \<open>AgenticCell\<close> (\<open>brain/agentic_cell.py\<close>): the autonomous loop over a terminal session, with its
    deferrals to the operator, its edits and its budget.
  \<^item> \<open>TurnMachine\<close> (\<open>brain/engine.py\<close>): the static topology as a step relation over node, state and
    effects, with an invariant of its reachable configurations.
  \<^item> \<open>Diffs\<close>, \<open>Blobs\<close> (\<open>core/blob_storage.py\<close>) and \<open>ResponseCache\<close> (\<open>core/response_cache.py\<close>): the diff
    applier against a specification of patches, and the two bounded stores, which interpret the
    locale \<open>bounded_store\<close> and refine a list of recent contents and a map of live responses.
  \<^item> \<open>Patches\<close> (\<open>core/patcher.py\<close>, \<open>tools/patch_tool.py\<close>, \<open>tools/mutation_tools.py\<close>) and \<open>CoderEdits\<close>
    (\<open>agents/coder.py\<close>): the search-and-replace engine, the batch as one transaction, the parser of
    the coder's answer and the files it stages.
  \<^item> \<open>WorkspaceSync\<close> (\<open>core/workspace_sync.py\<close>): push to and pull from a work surface; the locales
    \<open>sync_surface\<close> and \<open>writable_surface\<close> are interpreted on the local directory.
  \<^item> \<open>SearchTree\<close> (\<open>brain/mcts\<close>) and \<open>Tournament\<close> (\<open>brain/subagent_tournament.py\<close>): the tree with its
    registry, and the comparison of competing edits on a shared surface.
  \<^item> \<open>ImportGraph\<close> (\<open>core/module_resolver.py\<close>, \<open>core/blast_radius.py\<close>, \<open>core/dead_code.py\<close>): the
    resolution of imports to files, the bounded reverse traversal that the apply gate consults, and
    the files that nothing imports. \<open>IndexQueue\<close> (\<open>core/io_coalescer.py\<close>, \<open>core/indexer.py\<close>): the
    debounced queue of file events and the single flight of index runs.
  \<^item> \<open>Rules\<close> (\<open>core/rules.py\<close>) and \<open>Firewall\<close> (\<open>core/vfs_middleware.py\<close>, \<open>path_guard.py\<close>,
    \<open>project_instructions.py\<close>, \<open>write_pipeline.py\<close>): the cached project rules, the buffers of the
    editor and the layered read; the locale \<open>guarded_reader\<close> is interpreted on the firewalled reader.
  \<^item> \<open>UrlGuard\<close> (\<open>core/url_guard.py\<close>, the fetch tool of \<open>tools/perception_tools.py\<close>): the
    classification of addresses as words, the guard, the redirects followed by hand.
  \<^item> \<open>AuditLog\<close> (\<open>core/audit.py\<close>): the chained ledger of decisions and its verification.
  \<^item> \<open>Streams\<close> (\<open>tools/thinking_demux.py\<close>, \<open>transport/token_batcher.py\<close>, \<open>core/command_boundary.py\<close>):
    the state machines over streams of tokens and shell output.

  \<^item> \<open>Connections\<close> (\<open>api/websocket_manager.py\<close>, \<open>api/devcontainer_bridge.py\<close>): routing of sessions to
    sockets, the requests that wait for the editor, the tunnel to a container and its flow control;
    coroutines are explicit steps. The locale \<open>token_bucket\<close> is interpreted on the flood guard.
  \<^item> \<open>TaskLifecycle\<close>, \<open>SessionServices\<close> (\<open>core/task_service.py\<close>, the endpoint of \<open>main.py\<close>,
    \<open>agents/inline_edit.py\<close>): admission, running and paused turns, steering, conversations, tracked
    tools, hooks, inline edits and the summary of a turn.
  \<^item> \<open>Sandbox\<close> (\<open>core/sandbox.py\<close>): the breaker before the Docker daemon, the pool of leased
    containers as a transition system with its queue, commands and sessions in a lease, the
    host and devcontainer tiers; the locale \<open>once_adapter\<close> is interpreted on both fallbacks.
  \<^item> \<open>ModelGateway\<close> (\<open>tools/llm_gateway.py\<close>, \<open>core/config/model_resolver.py\<close>): the targets of the
    tiers, windows and admission, the object in a reply, completions, streams and their rescue.

  \<^bold>\<open>What the lemmas show.\<close> Consent before effects and at most one execution per step; what runs
  unattended; that in denying sessions the gate and the checks run no command; that routers and relay
  agree; that healing,
  retries, dispatch and tool loops end; exact characterisations of the budget gates,
  the quotas and the read firewall; that fetches contact vetted addresses only; that waiting requests are
  answered once and freed by a closed socket; that a session runs one graph at a time; that no path
  loses a container lease or runs a command twice, out of the queue or not; that a completion asks a model twice at most; and, as
  findings, where the code departs from what it states.

  \<^bold>\<open>Bounds and parameters.\<close> Loops that the code bounds by a count recurse on the remaining count;
  the dispatch loop ends by a measure on waves and rounds. Model calls, file systems, processes,
  clocks, hashes and third-party libraries are parameters, fields of the environment records.
  Binary floats are rationals. Texts are lists of characters of one code page.

  \<^bold>\<open>Not modelled.\<close> Prompt construction, HTTP routes, pseudo-terminals of the host, vector
  and graph stores, the parsers of source code, telemetry and the benchmark harness; the manifest
  lists each with its reason.
\<close>

end
